(* ===== verification/Prelude.thy ===== *)
theory Prelude
  imports Main "HOL-Library.Word" "HOL-Library.Monad_Syntax" "HOL-Library.Multiset"
begin

text \<open>
  Shared vocabulary of the development: the machine-integer types of the runtime, the worker id
  and its sentinel \<open>NO_WORKER\<close>, the assertion primitive, and the generic lemmas on words, lists and
  options that the component theories rely on.

  Failure is a value. A \<open>CILK_ASSERT\<close> that does not hold, a \<open>cilkrts_bug\<close> and a \<open>CILK_ABORT\<close> all end
  the process, so an operation that can reach one returns \<open>None\<close> there and \<open>Some\<close> of its result
  otherwise; the operations are composed with the option monad in the order of the source.
\<close>

unbundle bit_operations_syntax

type_synonym u8 = "8 word"
type_synonym u16 = "16 word"
type_synonym u32 = "32 word"
type_synonym u64 = "64 word"

type_synonym worker_id = u32

definition NO_WORKER :: worker_id where
  "NO_WORKER = 0xffffffff"

definition cilk_assert :: "bool \<Rightarrow> unit option" where
  "cilk_assert b = (if b then Some () else None)"

named_theorems rts_simps \<open>executable unfoldings of the runtime's small helpers\<close>
named_theorems word_nat \<open>word operations read through unat\<close>

lemma cilk_assert_True [simp]: "cilk_assert True = Some ()"
  and cilk_assert_False [simp]: "cilk_assert False = None"
  by (simp_all add: cilk_assert_def)

lemma cilk_assert_eq_Some [simp]: "cilk_assert b = Some u \<longleftrightarrow> b"
  by (simp add: cilk_assert_def)

lemma cilk_assert_bind_Some [simp]:
  "Option.bind (cilk_assert b) f = Some x \<longleftrightarrow> b \<and> f () = Some x"
  by (cases b) simp_all

section \<open>Words\<close>

lemma unat_Suc_no_wrap [word_nat]:
  fixes i c :: "'a :: len word"
  assumes "i < c"
  shows "unat (i + 1) = Suc (unat i)"
proof -
  have "unat i < unat c" using assms by (simp add: word_less_nat_alt)
  moreover have "unat c < 2 ^ LENGTH('a)" by (rule unsigned_less)
  ultimately have "unat i + 1 < 2 ^ LENGTH('a)" by linarith
  then show ?thesis by (simp add: unat_word_ariths)
qed

lemma unat_diff_no_wrap [word_nat]:
  fixes a b :: "'a :: len word"
  shows "b \<le> a \<Longrightarrow> unat (a - b) = unat a - unat b"
  by (simp add: unat_sub)

lemma word_less_unat: "(a :: 'a :: len word) < b \<longleftrightarrow> unat a < unat b"
  by (simp add: word_less_nat_alt)

lemma word_le_unat: "(a :: 'a :: len word) \<le> b \<longleftrightarrow> unat a \<le> unat b"
  by (simp add: word_le_nat_alt)

text \<open>The masking trick for powers of two: \<open>h & (c - 1)\<close> is \<open>h mod c\<close>.\<close>

lemma and_mask_power2:
  fixes h c :: "'a :: len word"
  assumes "unat c = 2 ^ k"
  shows "unat (h AND (c - 1)) = unat h mod 2 ^ k"
proof -
  have "c = of_nat (unat c)" by simp
  also have "\<dots> = 2 ^ k" by (simp only: assms of_nat_power of_nat_numeral)
  finally have "c = 2 ^ k" .
  then have "c - 1 = mask k" by (simp add: mask_eq_decr_exp)
  then have "h AND (c - 1) = take_bit k h" by (simp add: take_bit_eq_mask)
  then have "unat (h AND (c - 1)) = take_bit k (unat h)"
    by (simp only: unsigned_take_bit_eq)
  then show ?thesis by (simp only: take_bit_eq_mod)
qed

section \<open>Lists\<close>

lemma nth_update_cases:
  "i < length xs \<Longrightarrow> xs[i := x] ! j = (if j = i then x else xs ! j)"
  by simp

lemma take_update_length: "take n (xs[n := x]) = take n xs"
  by simp

end
