(* ===== verification/Hypertable.thy ===== *)
theory Hypertable
  imports Prelude
begin

text \<open>
  The hash table of reducer views, \<^verbatim>\<open>runtime/local-hypertable.{h,cpp}\<close>: its data, the ordered
  linear probing of \<open>find\<close>, \<open>insert\<close> and \<open>remove\<close>, the rebuild with its graveyard of tombstones, and
  the merge of two tables.  Only definitions; \<open>Hypertable_Probe\<close> and the theories after it prove
  what they compute.

  A pointer to a bucket is its index in the bucket array, the null pointer \<open>None\<close>.  The
  \<open>int32_t\<close> counters are \<open>int\<close>; the \<open>uint32_t\<close> capacities, hashes and indices are 32-bit words,
  because the comparison that ends a probe relies on their wrap-around.
\<close>

section \<open>Data\<close>

datatype reducer_extra = ReducerBase u64 | ReduceFn u64 | CReduceFn u64

record reducer_data =
  view :: u64
  extra :: reducer_extra

record bucket =
  key :: u64
  bhash :: u32
  data :: reducer_data

record hyper_table =
  capacity :: u32
  occupancy :: int
  ins_rm_count :: int
  buckets :: "bucket list"

definition KEY_EMPTY :: u64 where
  "KEY_EMPTY = 0"

definition KEY_DELETED :: u64 where
  "KEY_DELETED = - 1"

definition is_empty :: "u64 \<Rightarrow> bool" where
  "is_empty k \<longleftrightarrow> k = KEY_EMPTY"

definition is_tombstone :: "u64 \<Rightarrow> bool" where
  "is_tombstone k \<longleftrightarrow> k = KEY_DELETED"

definition is_valid :: "u64 \<Rightarrow> bool" where
  "is_valid k \<longleftrightarrow> \<not> is_empty k \<and> \<not> is_tombstone k"

definition null_data :: reducer_data where
  "null_data = \<lparr>view = 0, extra = ReducerBase 0\<rparr>"

definition empty_bucket :: bucket where
  "empty_bucket = \<lparr>key = KEY_EMPTY, bhash = 0, data = null_data\<rparr>"

definition make_tombstone :: "bucket \<Rightarrow> bucket" where
  "make_tombstone b = b\<lparr>key := KEY_DELETED\<rparr>"

section \<open>Sizing policy\<close>

definition MIN_CAPACITY :: int where
  "MIN_CAPACITY = 4"

definition MIN_HT_CAPACITY :: int where
  "MIN_HT_CAPACITY = 8"

definition LOAD_FACTOR_CONSTANT :: int where
  "LOAD_FACTOR_CONSTANT = 16"

definition MAX_CAPACITY :: int where
  "MAX_CAPACITY = 0x7fffffff div (LOAD_FACTOR_CONSTANT - 1)"

definition MIN_REBUILD_OP_COUNT :: int where
  "MIN_REBUILD_OP_COUNT = 8"

definition is_overloaded :: "int \<Rightarrow> int \<Rightarrow> bool" where
  "is_overloaded occ cap \<longleftrightarrow> occ > (LOAD_FACTOR_CONSTANT - 1) * cap div LOAD_FACTOR_CONSTANT"

definition is_underloaded :: "int \<Rightarrow> int \<Rightarrow> bool" where
  "is_underloaded occ cap \<longleftrightarrow> cap > MIN_CAPACITY \<and>
     occ \<le> (LOAD_FACTOR_CONSTANT div 2 - 1) * cap div LOAD_FACTOR_CONSTANT"

definition time_to_rebuild :: "int \<Rightarrow> int \<Rightarrow> bool" where
  "time_to_rebuild cnt cap \<longleftrightarrow> cnt > MIN_REBUILD_OP_COUNT \<and>
     cnt > cap div (4 * LOAD_FACTOR_CONSTANT)"

text \<open>The capacity field read as the \<open>int32_t\<close> the functions copy it into.\<close>

definition icap :: "hyper_table \<Rightarrow> int" where
  "icap t = sint (capacity t)"

section \<open>Creation\<close>

text \<open>The loop over the array that plants a tombstone after every \<open>2 * LOAD_FACTOR_CONSTANT\<close>
  empty buckets; the second argument is \<open>tombstone_idx\<close>.\<close>

fun graveyard :: "nat \<Rightarrow> int \<Rightarrow> bucket list" where
  "graveyard 0 tombstone_idx = []"
| "graveyard (Suc n) tombstone_idx =
     (if tombstone_idx = 2 * LOAD_FACTOR_CONSTANT
      then make_tombstone empty_bucket # graveyard n (tombstone_idx - 2 * LOAD_FACTOR_CONSTANT)
      else empty_bucket # graveyard n (tombstone_idx + 1))"

definition bucket_array_create :: "int \<Rightarrow> bucket list" where
  "bucket_array_create array_size =
     (if array_size < MIN_HT_CAPACITY then replicate (nat array_size) empty_bucket
      else graveyard (nat array_size) 0)"

definition new_hyper_table :: "u32 \<Rightarrow> hyper_table" where
  "new_hyper_table cap =
     \<lparr>capacity = cap, occupancy = 0, ins_rm_count = 0, buckets = bucket_array_create (sint cap)\<rparr>"

definition local_hyper_table_alloc :: hyper_table where
  "local_hyper_table_alloc = new_hyper_table (word_of_int MIN_CAPACITY)"

section \<open>Hashing and probing\<close>

definition salt :: u64 where
  "salt = 0x96b9af4f6a40de92"

definition hash :: "u64 \<Rightarrow> u32" where
  "hash key_in =
     (let x = key_in XOR salt;
          half_bits = 32;
          low_mask = push_bit half_bits 1 - 1;
          v = (x AND low_mask) * drop_bit half_bits x
      in ucast ((v AND low_mask) XOR drop_bit half_bits v))"

definition get_table_entry :: "u32 \<Rightarrow> u64 \<Rightarrow> u32" where
  "get_table_entry cap k = hash k AND (cap - 1)"

definition inc_index :: "u32 \<Rightarrow> u32 \<Rightarrow> u32" where
  "inc_index i cap = (if i + 1 = cap then 0 else i + 1)"

definition continue_probe :: "u32 \<Rightarrow> u32 \<Rightarrow> u32 \<Rightarrow> bool" where
  "continue_probe tgt h idx \<longleftrightarrow> idx - tgt \<le> idx - h"

text \<open>The backward scan of a small table, from index \<open>i - 1\<close> down.\<close>

fun find_linear_from :: "bucket list \<Rightarrow> u64 \<Rightarrow> nat \<Rightarrow> nat option" where
  "find_linear_from bs k 0 = None"
| "find_linear_from bs k (Suc i) =
     (if key (bs ! i) = k then Some i else find_linear_from bs k i)"

definition find_hyperobject_linear :: "hyper_table \<Rightarrow> u64 \<Rightarrow> nat option" where
  "find_hyperobject_linear t k = find_linear_from (buckets t) k (nat (occupancy t))"

text \<open>
  The probe loop of \<open>__cilkrts_find_hyperobject_hash\<close>.  It visits the slots from \<open>tgt\<close> on and stops
  when it comes back to \<open>tgt\<close>, so one unit of fuel per slot of the table is enough; \<open>None\<close> is
  running out of fuel, \<open>Some None\<close> the null pointer.
\<close>

fun find_probe :: "nat \<Rightarrow> bucket list \<Rightarrow> u32 \<Rightarrow> u32 \<Rightarrow> u64 \<Rightarrow> u32 \<Rightarrow> nat option option" where
  "find_probe 0 bs cap tgt k i = None"
| "find_probe (Suc n) bs cap tgt k i =
     (let curr_key = key (bs ! unat i);
          nxt = inc_index i cap;
          continue = (if nxt \<noteq> tgt then find_probe n bs cap tgt k nxt else Some None)
      in if k = curr_key then Some (Some (unat i))
         else if is_empty curr_key then Some None
         else if is_tombstone curr_key then continue
         else if continue_probe tgt (bhash (bs ! unat i)) i then continue
         else Some None)"

definition find_hyperobject_hash :: "hyper_table \<Rightarrow> u64 \<Rightarrow> nat option option" where
  "find_hyperobject_hash t k =
     (let cap = capacity t; tgt = get_table_entry cap k
      in find_probe (unat cap) (buckets t) cap tgt k tgt)"

definition find_hyperobject :: "hyper_table \<Rightarrow> u64 \<Rightarrow> nat option option" where
  "find_hyperobject t k =
     (if icap t < MIN_HT_CAPACITY then Some (find_hyperobject_linear t k)
      else find_hyperobject_hash t k)"

section \<open>Insertion\<close>

text \<open>Where the insertion probe stops: overwrite the data of slot \<open>i\<close>, put the bucket into the
  free slot \<open>i\<close>, or put it at \<open>i\<close> and shift the occupied slots from there.\<close>

datatype probe_out = Overwrite u32 | Place u32 | ShiftFrom u32

fun tomb_scan :: "nat \<Rightarrow> bucket list \<Rightarrow> u32 \<Rightarrow> u32 \<Rightarrow> u32 \<Rightarrow> u32 option" where
  "tomb_scan 0 bs cap probe_end next_i = None"
| "tomb_scan (Suc n) bs cap probe_end next_i =
     (if next_i \<noteq> probe_end \<and> is_tombstone (key (bs ! unat next_i))
      then tomb_scan n bs cap probe_end (inc_index next_i cap)
      else Some next_i)"

fun insert_probe :: "nat \<Rightarrow> bucket list \<Rightarrow> u32 \<Rightarrow> u32 \<Rightarrow> u64 \<Rightarrow> u32 \<Rightarrow> probe_out option" where
  "insert_probe 0 bs cap tgt k i = None"
| "insert_probe (Suc n) bs cap tgt k i =
     (let curr_key = key (bs ! unat i);
          continue = (\<lambda>j. if j \<noteq> tgt then insert_probe n bs cap tgt k j else Some (ShiftFrom j))
      in if k = curr_key then Some (Overwrite i)
         else if is_empty curr_key then Some (Place i)
         else if is_tombstone curr_key then
           do {
             next_i \<leftarrow> tomb_scan (unat cap) bs cap tgt (inc_index i cap);
             if is_empty (key (bs ! unat next_i)) then Some (Place i)
             else if next_i = tgt \<or> \<not> continue_probe tgt (bhash (bs ! unat next_i)) next_i
             then Some (Place i)
             else continue next_i
           }
         else if continue_probe tgt (bhash (bs ! unat i)) i then continue (inc_index i cap)
         else Some (ShiftFrom i))"

fun shift_insert :: "nat \<Rightarrow> bucket list \<Rightarrow> u32 \<Rightarrow> u32 \<Rightarrow> bucket \<Rightarrow> u32 \<Rightarrow>
    (bucket list \<times> bool) option" where
  "shift_insert 0 bs cap insert_tgt b i = None"
| "shift_insert (Suc n) bs cap insert_tgt b i =
     (let tmp = bs ! unat i; bs' = bs[unat i := b]; i' = inc_index i cap
      in if \<not> is_valid (key tmp) then Some (bs', True)
         else if i' \<noteq> insert_tgt then shift_insert n bs' cap insert_tgt tmp i'
         else Some (bs', False))"

definition count_insert :: "hyper_table \<Rightarrow> bucket list \<Rightarrow> hyper_table" where
  "count_insert t bs =
     t\<lparr>buckets := bs, occupancy := occupancy t + 1, ins_rm_count := ins_rm_count t + 1\<rparr>"

text \<open>The part of \<open>insert_hyperobject\<close> after the rebuilds: find the place in the hash table.\<close>

definition insert_hashed :: "hyper_table \<Rightarrow> bucket \<Rightarrow> (hyper_table \<times> bool) option" where
  "insert_hashed t b0 =
     (let cap = capacity t; bs = buckets t;
          tgt = get_table_entry cap (key b0);
          b = b0\<lparr>bhash := tgt\<rparr>
      in if is_empty (key (bs ! unat tgt)) then Some (count_insert t (bs[unat tgt := b]), True)
         else do {
           p \<leftarrow> insert_probe (unat cap) bs cap tgt (key b) tgt;
           case p of
             Overwrite i \<Rightarrow>
               Some (t\<lparr>buckets := bs[unat i := (bs ! unat i)\<lparr>data := data b\<rparr>]\<rparr>, True)
           | Place i \<Rightarrow> Some (count_insert t (bs[unat i := b]), True)
           | ShiftFrom i \<Rightarrow> do {
               (bs', ok) \<leftarrow> shift_insert (unat cap) bs cap i b i;
               if ok then Some (count_insert t bs', True) else Some (t\<lparr>buckets := bs'\<rparr>, False)
             }
         })"

fun find_forward :: "bucket list \<Rightarrow> u64 \<Rightarrow> nat \<Rightarrow> nat \<Rightarrow> nat option" where
  "find_forward bs k i 0 = None"
| "find_forward bs k i (Suc n) =
     (if key (bs ! i) = k then Some i else find_forward bs k (Suc i) n)"

text \<open>
  \<open>insert_hyperobject\<close> calls \<open>rebuild\<close>, which calls \<open>insert_hyperobject\<close> on the new, roomier array.
  The two are tied by fuel that bounds the depth of this nest; \<open>insert_with\<close> and \<open>rebuild_with\<close>
  take the other as an argument.
\<close>

definition insert_with ::
    "(hyper_table \<Rightarrow> int \<Rightarrow> hyper_table option) \<Rightarrow> hyper_table \<Rightarrow> bucket \<Rightarrow>
     (hyper_table \<times> bool) option" where
  "insert_with rebuild t b =
     (let cap = icap t; occ = nat (occupancy t) in
      if cap < MIN_HT_CAPACITY \<and> occupancy t < cap then
        (case find_forward (buckets t) (key b) 0 occ of
           Some i \<Rightarrow> Some (t\<lparr>buckets := (buckets t)[i := b]\<rparr>, True)
         | None \<Rightarrow> Some (t\<lparr>buckets := (buckets t)[occ := b], occupancy := occupancy t + 1\<rparr>, True))
      else do {
        t1 \<leftarrow> (if cap < MIN_HT_CAPACITY then rebuild t (cap * 2) else Some t);
        let cap1 = (if cap < MIN_HT_CAPACITY then cap * 2 else cap);
        t2 \<leftarrow> (if is_overloaded (occupancy t1) cap1 then rebuild t1 (cap1 * 2)
              else if time_to_rebuild (ins_rm_count t1) cap1 then rebuild t1 cap1
              else Some t1);
        insert_hashed t2 b
      })"

text \<open>The loop of \<open>rebuild\<close> over the old buckets; a failed insertion is the failed assertion.\<close>

fun reinsert :: "(hyper_table \<Rightarrow> bucket \<Rightarrow> (hyper_table \<times> bool) option) \<Rightarrow> bucket list \<Rightarrow>
    hyper_table \<Rightarrow> hyper_table option" where
  "reinsert ins [] t = Some t"
| "reinsert ins (b # old) t =
     (if is_valid (key b)
      then do { (t', success) \<leftarrow> ins t b; cilk_assert success; reinsert ins old t' }
      else reinsert ins old t)"

definition rebuild_with ::
    "(hyper_table \<Rightarrow> bucket \<Rightarrow> (hyper_table \<times> bool) option) \<Rightarrow> hyper_table \<Rightarrow> int \<Rightarrow>
     hyper_table option" where
  "rebuild_with ins t new_capacity = do {
     let old_buckets = take (nat (icap t)) (buckets t);
     let old_occupancy = occupancy t;
     cilk_assert (new_capacity \<le> MAX_CAPACITY);
     t' \<leftarrow> reinsert ins old_buckets
       \<lparr>capacity = word_of_int new_capacity, occupancy = 0, ins_rm_count = - old_occupancy,
        buckets = bucket_array_create new_capacity\<rparr>;
     cilk_assert (occupancy t' = old_occupancy);
     Some t'
   }"

fun insert_fuel :: "nat \<Rightarrow> hyper_table \<Rightarrow> bucket \<Rightarrow> (hyper_table \<times> bool) option" where
  "insert_fuel 0 t b = None"
| "insert_fuel (Suc n) t b = insert_with (rebuild_with (insert_fuel n)) t b"

text \<open>An insertion may rebuild and the insertions of that rebuild never do: depth two.\<close>

definition insert_hyperobject :: "hyper_table \<Rightarrow> bucket \<Rightarrow> (hyper_table \<times> bool) option" where
  "insert_hyperobject t b = insert_fuel 2 t b"

definition rebuild :: "hyper_table \<Rightarrow> int \<Rightarrow> hyper_table option" where
  "rebuild t new_capacity = rebuild_with (insert_fuel 1) t new_capacity"

section \<open>Removal\<close>

definition remove_hyperobject :: "hyper_table \<Rightarrow> u64 \<Rightarrow> (hyper_table \<times> bool) option" where
  "remove_hyperobject t k =
     (if icap t < MIN_HT_CAPACITY then
        (let occ = nat (occupancy t); bs = buckets t in
         case find_forward bs k 0 occ of
           None \<Rightarrow> Some (t, False)
         | Some i \<Rightarrow>
             Some (t\<lparr>buckets := (if i = occ - 1 then bs[i := (bs ! i)\<lparr>key := KEY_EMPTY\<rparr>]
                                else bs[i := bs ! (occ - 1)]),
                     occupancy := occupancy t - 1\<rparr>, True))
      else do {
        entry \<leftarrow> find_hyperobject t k;
        case entry of
          None \<Rightarrow> Some (t, False)
        | Some i \<Rightarrow> do {
            let t1 = t\<lparr>buckets := (buckets t)[i := make_tombstone (buckets t ! i)],
                       occupancy := occupancy t - 1, ins_rm_count := ins_rm_count t + 1\<rparr>;
            let cap = icap t1;
            t2 \<leftarrow> (if is_underloaded (occupancy t1) cap then rebuild t1 (cap div 2)
                  else if time_to_rebuild (ins_rm_count t1) cap then rebuild t1 cap
                  else Some t1);
            Some (t2, True)
          }
      })"

end
