(* ===== verification/Hypertable_Probe.thy ===== *)
theory Hypertable_Probe
  imports Hypertable
begin

text \<open>
  The geometry of the circular bucket array.  \<open>disp c h i\<close> is the number of steps from slot \<open>h\<close> to
  slot \<open>i\<close>; the unsigned comparison of \<open>continue_probe\<close> compares two such displacements.  \<open>robin\<close> is
  the order the table keeps (no empty slot between a key's home and its slot, and no key on the way
  that lies closer to its own home); seen from just after an empty slot it is a sorted array
  (\<open>lin_ok\<close>), the form in which insertions are proved.
\<close>

section \<open>Circular displacement\<close>

definition disp :: "nat \<Rightarrow> nat \<Rightarrow> nat \<Rightarrow> nat" where
  "disp c h i = (if h \<le> i then i - h else i + c - h)"

lemma disp_less: "h < c \<Longrightarrow> i < c \<Longrightarrow> disp c h i < c"
  by (auto simp: disp_def)

lemma disp_self [simp]: "disp c h h = 0"
  by (simp add: disp_def)

lemma at_disp: "h < c \<Longrightarrow> i < c \<Longrightarrow> (h + disp c h i) mod c = i"
  by (auto simp: disp_def)

lemma disp_at: "h < c \<Longrightarrow> d < c \<Longrightarrow> disp c h ((h + d) mod c) = d"
  by (auto simp: disp_def mod_if)

lemma disp_eq_0: "h < c \<Longrightarrow> i < c \<Longrightarrow> disp c h i = 0 \<longleftrightarrow> i = h"
  by (auto simp: disp_def)

lemma disp_inj: "h < c \<Longrightarrow> i < c \<Longrightarrow> j < c \<Longrightarrow> disp c h i = disp c h j \<Longrightarrow> i = j"
  by (metis at_disp)

text \<open>Displacements as differences of coordinates relative to a base slot.\<close>

lemma disp_coord:
  assumes "b < c" "h < c" "i < c"
  shows "disp c h i =
    (if disp c b h \<le> disp c b i then disp c b i - disp c b h else disp c b i + c - disp c b h)"
  using assms by (auto simp: disp_def)

theorem continue_probe_disp:
  assumes "t < cap" "h < cap" "i < cap"
  shows "continue_probe t h i \<longleftrightarrow>
    disp (unat cap) (unat t) (unat i) \<le> disp (unat cap) (unat h) (unat i)"
proof -
  have b: "unat t < unat cap" "unat h < unat cap" "unat i < unat cap"
    using assms by (simp_all add: word_less_nat_alt)
  have c: "unat cap < 2 ^ 32" using unsigned_less [of cap] by simp
  have sub: "unat (i - x) = (if unat x \<le> unat i then unat i - unat x else unat i + 2 ^ 32 - unat x)"
    for x :: u32
    by (simp add: unat_sub_if_size word_size)
  show ?thesis
    unfolding continue_probe_def word_le_nat_alt sub disp_def
    using b c by (cases "unat t \<le> unat i"; cases "unat h \<le> unat i") auto
qed

lemma unat_inc_index:
  assumes "i < cap"
  shows "unat (inc_index i cap) = (unat i + 1) mod unat cap"
proof -
  have s: "unat (i + 1) = Suc (unat i)" by (rule unat_Suc_no_wrap [OF assms])
  have l: "unat i < unat cap" using assms by (simp add: word_less_nat_alt)
  show ?thesis
  proof (cases "i + 1 = cap")
    case True
    then have "Suc (unat i) = unat cap" using s by simp
    with True show ?thesis by (simp add: inc_index_def)
  next
    case False
    then have "Suc (unat i) \<noteq> unat cap" using s by (metis unsigned_word_eqI)
    with False s l show ?thesis by (simp add: inc_index_def)
  qed
qed

lemma inc_index_less: "i < cap \<Longrightarrow> inc_index i cap < cap"
  by (simp add: word_less_nat_alt unat_inc_index)

lemma inc_index_at:
  assumes "i < cap" "unat i = (t + d) mod unat cap"
  shows "unat (inc_index i cap) = (t + Suc d) mod unat cap"
  using assms by (simp add: unat_inc_index mod_Suc_eq)

lemma get_table_entry_less:
  assumes "unat cap = 2 ^ k"
  shows "get_table_entry cap x < cap"
  using assms by (simp add: get_table_entry_def word_less_nat_alt and_mask_power2)

section \<open>The order kept by the table\<close>

abbreviation empty_slot :: "bucket \<Rightarrow> bool" where
  "empty_slot b \<equiv> is_empty (key b)"

abbreviation valid_slot :: "bucket \<Rightarrow> bool" where
  "valid_slot b \<equiv> is_valid (key b)"

abbreviation home :: "bucket \<Rightarrow> nat" where
  "home b \<equiv> unat (bhash b)"

definition robin :: "bucket list \<Rightarrow> bool" where
  "robin bs \<longleftrightarrow> (\<forall>p < length bs. valid_slot (bs ! p) \<longrightarrow>
     home (bs ! p) < length bs \<and>
     (\<forall>d < disp (length bs) (home (bs ! p)) p.
        (let q = (home (bs ! p) + d) mod length bs in
         \<not> empty_slot (bs ! q) \<and>
         (valid_slot (bs ! q) \<longrightarrow> d \<le> disp (length bs) (home (bs ! q)) q))))"

definition lin_ok :: "nat \<Rightarrow> (bucket \<Rightarrow> nat) \<Rightarrow> bucket list \<Rightarrow> bool" where
  "lin_ok c H xs \<longleftrightarrow> length xs = c \<and>
     (\<forall>p < c. valid_slot (xs ! p) \<longrightarrow>
        H (xs ! p) \<le> p \<and> (\<forall>q. H (xs ! p) \<le> q \<and> q < p \<longrightarrow> \<not> empty_slot (xs ! q))) \<and>
     (\<forall>p < c. \<forall>q < p. valid_slot (xs ! p) \<longrightarrow> valid_slot (xs ! q) \<longrightarrow> H (xs ! q) \<le> H (xs ! p))"

lemma robinD:
  assumes "robin bs" "p < length bs" "valid_slot (bs ! p)"
  shows "home (bs ! p) < length bs"
    and "d < disp (length bs) (home (bs ! p)) p \<Longrightarrow> q = (home (bs ! p) + d) mod length bs \<Longrightarrow>
      \<not> empty_slot (bs ! q) \<and> (valid_slot (bs ! q) \<longrightarrow> d \<le> disp (length bs) (home (bs ! q)) q)"
  using assms unfolding robin_def Let_def by blast+

lemma valid_not_empty: "is_valid k \<Longrightarrow> \<not> is_empty k"
  by (simp add: is_valid_def)

lemma nth_rotate_at: "p < length bs \<Longrightarrow> rotate b bs ! p = bs ! ((b + p) mod length bs)"
  by (simp add: nth_rotate)

text \<open>Seen from the slot after an empty one, the order is linear.\<close>

lemma robin_lin_ok:
  assumes R: "robin bs" and e: "e < length bs" "empty_slot (bs ! e)"
    and b: "b = Suc e mod length bs"
  shows "lin_ok (length bs) (\<lambda>x. disp (length bs) b (home x)) (rotate b bs)"
    and "empty_slot (rotate b bs ! (length bs - 1))"
proof -
  let ?c = "length bs" let ?H = "\<lambda>x. disp (length bs) b (home x)" let ?xs = "rotate b bs"
  have c0: "0 < ?c" using e(1) by linarith
  then have bc: "b < ?c" using b by simp
  have at: "?xs ! p = bs ! ((b + p) mod ?c)" if "p < ?c" for p
    using that by (rule nth_rotate_at)
  have "(b + (?c - 1)) mod ?c = (Suc e + (?c - 1)) mod ?c"
    using b by (simp add: mod_add_left_eq)
  also have "Suc e + (?c - 1) = e + ?c" using c0 by linarith
  also have "(e + ?c) mod ?c = e" using e(1) by simp
  finally have "(b + (?c - 1)) mod ?c = e" .
  then show last: "empty_slot (?xs ! (?c - 1))"
    using at [of "?c - 1"] c0 e by simp
  have A: "?H (?xs ! p) \<le> p \<and> (\<forall>q. ?H (?xs ! p) \<le> q \<and> q < p \<longrightarrow> \<not> empty_slot (?xs ! q) \<and>
      (valid_slot (?xs ! q) \<longrightarrow> q - ?H (?xs ! p) \<le> disp ?c (home (?xs ! q)) ((b + q) mod ?c)))"
    if p: "p < ?c" and v: "valid_slot (?xs ! p)" for p
  proof -
    let ?P = "(b + p) mod ?c"
    have P: "?P < ?c" using c0 by simp
    have x: "?xs ! p = bs ! ?P" using p by (rule at)
    let ?h = "home (bs ! ?P)"
    have vP: "valid_slot (bs ! ?P)" using v x by simp
    have h: "?h < ?c" by (rule robinD(1) [OF R P vP])
    let ?Hp = "disp ?c b ?h"
    have Hc: "?Hp < ?c" using bc h by (rule disp_less)
    have dp: "disp ?c ?h ?P = (if ?Hp \<le> p then p - ?Hp else p + ?c - ?Hp)"
      using disp_coord [OF bc h P] disp_at [OF bc p] by simp
    have step: "\<not> empty_slot (?xs ! q) \<and>
        (valid_slot (?xs ! q) \<longrightarrow> d \<le> disp ?c (home (?xs ! q)) ((b + q) mod ?c))"
      if "d < disp ?c ?h ?P" "q = ?Hp + d" "q < ?c" for q d
    proof -
      have "(?h + d) mod ?c = ((b + ?Hp) mod ?c + d) mod ?c" using at_disp [OF bc h] by simp
      also have "\<dots> = (b + q) mod ?c" using that(2) by (simp add: mod_add_left_eq add.assoc)
      finally have "(b + q) mod ?c = (?h + d) mod ?c" by simp
      then show ?thesis
        using robinD(2) [OF R P vP that(1), of "(b + q) mod ?c"] at [OF that(3)] by simp
    qed
    have le: "?Hp \<le> p"
    proof (rule ccontr)
      assume n: "\<not> ?Hp \<le> p"
      have "?c - 1 - ?Hp < disp ?c ?h ?P" using dp n Hc by simp
      moreover have "?c - 1 = ?Hp + (?c - 1 - ?Hp)" using Hc by simp
      ultimately have "\<not> empty_slot (?xs ! (?c - 1))" using step c0 by (metis diff_less zero_less_one)
      with last show False by simp
    qed
    have "\<not> empty_slot (?xs ! q) \<and>
        (valid_slot (?xs ! q) \<longrightarrow> q - ?Hp \<le> disp ?c (home (?xs ! q)) ((b + q) mod ?c))"
      if "?Hp \<le> q" "q < p" for q
      using step [of "q - ?Hp" q] that p dp le by simp
    with le x show ?thesis by simp
  qed
  show "lin_ok ?c ?H ?xs"
    unfolding lin_ok_def
  proof (intro conjI allI impI)
    show "length ?xs = ?c" by simp
  next
    fix p assume "p < ?c" "valid_slot (?xs ! p)"
    then show "?H (?xs ! p) \<le> p" using A by blast
  next
    fix p q assume "p < ?c" "valid_slot (?xs ! p)" "?H (?xs ! p) \<le> q \<and> q < p"
    then show "\<not> empty_slot (?xs ! q)" using A by blast
  next
    fix p q assume p: "p < ?c" and q: "q < p" and v: "valid_slot (?xs ! p)" "valid_slot (?xs ! q)"
    have qc: "q < ?c" using p q by simp
    have Hq: "?H (?xs ! q) \<le> q" using A [OF qc v(2)] by blast
    show "?H (?xs ! q) \<le> ?H (?xs ! p)"
    proof (cases "?H (?xs ! p) \<le> q")
      case False
      then show ?thesis using Hq by simp
    next
      case True
      let ?Q = "(b + q) mod ?c"
      have Q: "?Q < ?c" using c0 by simp
      have h: "home (?xs ! q) < ?c" using robinD(1) [OF R Q] v(2) at [OF qc] by simp
      have "q - ?H (?xs ! p) \<le> disp ?c (home (?xs ! q)) ?Q"
        using A [OF p v(1)] True q v(2) by blast
      also have "\<dots> = q - ?H (?xs ! q)"
        using disp_coord [OF bc h Q] disp_at [OF bc qc] Hq by simp
      finally show ?thesis using True Hq by simp
    qed
  qed
qed

lemma lin_ok_robin:
  assumes L: "lin_ok (length bs) (\<lambda>x. disp (length bs) b (home x)) (rotate b bs)"
    and b: "b < length bs"
    and h: "\<And>x. x \<in> set bs \<Longrightarrow> valid_slot x \<Longrightarrow> home x < length bs"
  shows "robin bs"
  unfolding robin_def Let_def
proof (intro allI impI conjI)
  let ?c = "length bs" let ?xs = "rotate b bs" let ?H = "\<lambda>x. disp (length bs) b (home x)"
  have c0: "0 < ?c" using b by linarith
  fix P assume P: "P < ?c" and v: "valid_slot (bs ! P)"
  show hP: "home (bs ! P) < ?c" using h v P by simp
  let ?h = "home (bs ! P)"
  let ?p = "disp ?c b P"
  have p: "?p < ?c" using b P by (rule disp_less)
  have xp: "?xs ! ?p = bs ! P" using nth_rotate_at [OF p] at_disp [OF b P] by simp
  have Hp: "?H (bs ! P) \<le> ?p" using L v p xp unfolding lin_ok_def by metis
  have ne: "\<not> empty_slot (?xs ! q)" if "?H (bs ! P) \<le> q" "q < ?p" for q
    using L v p xp that unfolding lin_ok_def by metis
  have so: "?H (?xs ! q) \<le> ?H (bs ! P)" if "q < ?p" "valid_slot (?xs ! q)" for q
    using L v p xp that unfolding lin_ok_def by metis
  have dd: "disp ?c ?h P = ?p - ?H (bs ! P)" using disp_coord [OF b hP P] Hp by simp
  fix d assume d: "d < disp ?c ?h P"
  let ?q = "?H (bs ! P) + d"
  have q: "?q < ?p" "?q < ?c" using d dd p by simp_all
  have eq: "(?h + d) mod ?c = (b + ?q) mod ?c"
  proof -
    have "(?h + d) mod ?c = ((b + ?H (bs ! P)) mod ?c + d) mod ?c" using at_disp [OF b hP] by simp
    then show ?thesis by (simp add: mod_add_left_eq add.assoc)
  qed
  have xq: "?xs ! ?q = bs ! ((?h + d) mod ?c)" using nth_rotate_at [OF q(2)] eq by simp
  show "\<not> empty_slot (bs ! ((?h + d) mod ?c))" using ne [of ?q] q(1) xq by simp
  assume vq: "valid_slot (bs ! ((?h + d) mod ?c))"
  let ?Q = "(?h + d) mod ?c"
  have Q: "?Q < ?c" using c0 by simp
  have hQ: "home (bs ! ?Q) < ?c" using h vq Q by simp
  have cQ: "disp ?c b ?Q = ?q" using disp_at [OF b q(2)] eq by simp
  have "?H (bs ! ?Q) \<le> ?H (bs ! P)" using so [OF q(1)] xq vq by simp
  then show "d \<le> disp ?c (home (bs ! ?Q)) ?Q"
    using disp_coord [OF b hQ Q] cQ by simp
qed

end
