(* ===== verification/Hypertable_Find.thy ===== *)
theory Hypertable_Find
  imports Hypertable_Probe
begin

text \<open>
  The contents of a bucket array as a map (\<open>entries\<close>), the invariant of the array (\<open>table_ok\<close>), and
  the correctness of the lookups: the probe loop of \<open>find_hyperobject\<close> returns the slot of a present
  key and the null pointer for an absent one, within one turn around the array.
\<close>

section \<open>Contents and invariant of a bucket array\<close>

definition pairs :: "bucket list \<Rightarrow> (u64 \<times> reducer_data) list" where
  "pairs bs = map (\<lambda>b. (key b, data b)) (filter valid_slot bs)"

definition entries :: "bucket list \<Rightarrow> u64 \<rightharpoonup> reducer_data" where
  "entries bs = map_of (pairs bs)"

definition keys_distinct :: "bucket list \<Rightarrow> bool" where
  "keys_distinct bs \<longleftrightarrow> distinct (map key (filter valid_slot bs))"

definition hashes_ok :: "u32 \<Rightarrow> bucket list \<Rightarrow> bool" where
  "hashes_ok cap bs \<longleftrightarrow> (\<forall>b\<in>set bs. valid_slot b \<longrightarrow> bhash b = get_table_entry cap (key b))"

definition table_ok :: "u32 \<Rightarrow> bucket list \<Rightarrow> bool" where
  "table_ok cap bs \<longleftrightarrow> length bs = unat cap \<and> robin bs \<and> hashes_ok cap bs \<and> keys_distinct bs"

lemma map_fst_pairs: "map fst (pairs bs) = map key (filter valid_slot bs)"
  by (simp add: pairs_def comp_def)

lemma distinct_pairs: "keys_distinct bs \<Longrightarrow> distinct (map fst (pairs bs))"
  by (simp add: keys_distinct_def map_fst_pairs)

lemma keys_distinct_mset:
  "mset (filter valid_slot bs) = mset (filter valid_slot bs') \<Longrightarrow>
   keys_distinct bs \<longleftrightarrow> keys_distinct bs'"
  unfolding keys_distinct_def by (metis mset_map mset_eq_imp_distinct_iff)

lemma entries_Some:
  assumes "keys_distinct bs"
  shows "entries bs k = Some d \<longleftrightarrow> (\<exists>b\<in>set bs. valid_slot b \<and> key b = k \<and> data b = d)"
  unfolding entries_def map_of_eq_Some_iff [OF distinct_pairs [OF assms]]
  by (auto simp: pairs_def)

lemma entries_None: "entries bs k = None \<longleftrightarrow> (\<forall>b\<in>set bs. valid_slot b \<longrightarrow> key b \<noteq> k)"
  by (auto simp: entries_def map_of_eq_None_iff pairs_def image_iff)

lemma entries_cong_mset:
  assumes "mset (filter valid_slot bs) = mset (filter valid_slot bs')" "keys_distinct bs"
  shows "entries bs = entries bs'"
proof -
  have d: "keys_distinct bs'" using assms keys_distinct_mset by blast
  have "set (filter valid_slot bs) = set (filter valid_slot bs')"
    using assms(1) by (metis set_mset_mset)
  then have "set (pairs bs) = set (pairs bs')" by (simp add: pairs_def)
  then show ?thesis
    unfolding entries_def
    using map_of_inject_set [OF distinct_pairs [OF assms(2)] distinct_pairs [OF d]] by blast
qed

lemma entries_insert:
  assumes "mset (filter valid_slot bs') = add_mset b (mset (filter valid_slot bs))"
    and "keys_distinct bs" "entries bs (key b) = None"
  shows "keys_distinct bs'" "entries bs' = (entries bs)(key b \<mapsto> data b)"
proof -
  have "b \<in># add_mset b (mset (filter valid_slot bs))" by simp
  then have "b \<in># mset (filter valid_slot bs')" by (simp only: assms(1))
  then have v: "valid_slot b" by simp
  have m: "mset (filter valid_slot bs') = mset (filter valid_slot (b # bs))"
    using assms(1) v by simp
  have "keys_distinct (b # bs)"
    using assms(2,3) v by (auto simp: keys_distinct_def entries_None)
  then show d: "keys_distinct bs'" using m keys_distinct_mset by blast
  have "entries bs' = entries (b # bs)" using m d by (rule entries_cong_mset)
  then show "entries bs' = (entries bs)(key b \<mapsto> data b)"
    using v by (simp add: entries_def pairs_def)
qed

lemma keys_distinct_nth:
  assumes "keys_distinct bs" "p < length bs" "q < length bs" "valid_slot (bs ! p)"
    "key (bs ! p) = key (bs ! q)"
  shows "p = q"
  using assms
proof (induction bs arbitrary: p q)
  case (Cons b bs)
  show ?case
  proof (cases p)
    case 0
    then show ?thesis using Cons.prems by (cases q) (auto simp: keys_distinct_def)
  next
    case (Suc p')
    have d: "keys_distinct bs" using Cons.prems(1) by (auto simp: keys_distinct_def split: if_splits)
    show ?thesis
    proof (cases q)
      case 0
      then have "valid_slot (bs ! p')" "bs ! p' \<in> set bs" "key b = key (bs ! p')"
        using Cons.prems Suc by simp_all
      moreover from this have "valid_slot b" by simp
      ultimately show ?thesis using Cons.prems(1) by (auto simp: keys_distinct_def)
    next
      case (Suc q')
      then show ?thesis using Cons.IH [OF d, of p' q'] Cons.prems \<open>p = Suc p'\<close> by simp
    qed
  qed
qed simp

text \<open>Replacing a slot by an invalid bucket, or by one with the same key, keeps the key set apart.\<close>

lemma mset_filter_update:
  assumes "p < length bs"
  shows "mset (filter P (bs[p := x])) =
    (if P x then {#x#} else {#}) + (mset (filter P bs) - (if P (bs ! p) then {#bs ! p#} else {#}))"
proof -
  have e: "bs = take p bs @ bs ! p # drop (Suc p) bs" using assms by (rule id_take_nth_drop)
  have u: "bs[p := x] = take p bs @ x # drop (Suc p) bs" using assms by (rule upd_conv_take_nth_drop)
  have "mset (filter P bs) = mset (filter P (take p bs)) +
      ((if P (bs ! p) then {#bs ! p#} else {#}) + mset (filter P (drop (Suc p) bs)))"
    by (subst e) simp
  moreover have "mset (filter P (bs[p := x])) = mset (filter P (take p bs)) +
      ((if P x then {#x#} else {#}) + mset (filter P (drop (Suc p) bs)))"
    by (subst u) simp
  ultimately show ?thesis by simp
qed

lemma length_filter_update:
  assumes "p < length bs"
  shows "length (filter P (bs[p := x])) + (if P (bs ! p) then 1 else 0) =
    length (filter P bs) + (if P x then 1 else 0)"
proof -
  have e: "bs = take p bs @ bs ! p # drop (Suc p) bs" using assms by (rule id_take_nth_drop)
  have u: "bs[p := x] = take p bs @ x # drop (Suc p) bs" using assms by (rule upd_conv_take_nth_drop)
  have "length (filter P bs) = length (filter P (take p bs)) +
      ((if P (bs ! p) then 1 else 0) + length (filter P (drop (Suc p) bs)))"
    by (subst e) simp
  moreover have "length (filter P (bs[p := x])) = length (filter P (take p bs)) +
      ((if P x then 1 else 0) + length (filter P (drop (Suc p) bs)))"
    by (subst u) simp
  ultimately show ?thesis by simp
qed

section \<open>The probe loop of the lookup\<close>

lemma probe_next:
  assumes "t < cap" "d < unat cap" "unat i = (unat t + d) mod unat cap"
  shows "i < cap" "unat (inc_index i cap) = (unat t + Suc d) mod unat cap"
    "inc_index i cap = t \<longleftrightarrow> Suc d = unat cap"
proof -
  have c0: "0 < unat cap" using assms(2) by linarith
  have "unat i < unat cap" using assms(3) c0 by simp
  then show ic: "i < cap" by (simp add: word_less_nat_alt)
  show n: "unat (inc_index i cap) = (unat t + Suc d) mod unat cap"
    using ic assms(3) by (rule inc_index_at)
  have tc: "unat t < unat cap" using assms(1) by (simp add: word_less_nat_alt)
  show "inc_index i cap = t \<longleftrightarrow> Suc d = unat cap"
  proof (cases "Suc d = unat cap")
    case True
    then have "unat (inc_index i cap) = unat t" using n tc by simp
    then show ?thesis using True by (metis unsigned_word_eqI)
  next
    case False
    then have "Suc d < unat cap" using assms(2) by simp
    then have "disp (unat cap) (unat t) (unat (inc_index i cap)) = Suc d"
      using n disp_at [OF tc, of "Suc d"] by metis
    then have "inc_index i cap \<noteq> t" by (metis disp_self nat.distinct(1))
    then show ?thesis using False by simp
  qed
qed

lemma find_probe_hit:
  assumes T: "robin bs" "length bs = unat cap" "keys_distinct bs"
    and p: "p < unat cap" "valid_slot (bs ! p)" "key (bs ! p) = k" "home (bs ! p) = unat t"
    and t: "t < cap"
    and i: "unat i = (unat t + d) mod unat cap" "d \<le> disp (unat cap) (unat t) p"
    and n: "disp (unat cap) (unat t) p < n + d"
  shows "find_probe n bs cap t k i = Some (Some p)"
  using i n
proof (induction n arbitrary: i d)
  case 0
  then show ?case by simp
next
  case (Suc n)
  have tc: "unat t < unat cap" using t by (simp add: word_less_nat_alt)
  have dp: "disp (unat cap) (unat t) p < unat cap" by (rule disp_less [OF tc p(1)])
  have dc: "d < unat cap" using Suc.prems(2) dp by simp
  note nx = probe_next [OF t dc Suc.prems(1)]
  have ic: "unat i < unat cap" using nx(1) by (simp add: word_less_nat_alt)
  show ?case
  proof (cases "key (bs ! unat i) = k")
    case True
    then have "unat i = p"
      using keys_distinct_nth [OF T(3), of p "unat i"] p ic T(2) by simp
    then show ?thesis using True by (simp add: Let_def)
  next
    case False
    have "d \<noteq> disp (unat cap) (unat t) p"
      using False p(3) Suc.prems(1) at_disp [OF tc p(1)] by auto
    then have d: "d < disp (unat cap) (unat t) p" using Suc.prems(2) by simp
    have R: "\<not> empty_slot (bs ! unat i) \<and>
        (valid_slot (bs ! unat i) \<longrightarrow> d \<le> disp (unat cap) (home (bs ! unat i)) (unat i))"
      using robinD(2) [OF T(1), of p d "unat i"] p d Suc.prems(1) T(2) by simp
    have go: "find_probe n bs cap t k (inc_index i cap) = Some (Some p)"
      by (rule Suc.IH [OF nx(2)]) (use d Suc.prems(3) in simp_all)
    have ne: "inc_index i cap \<noteq> t" using nx(3) d dp by simp
    have cp: "continue_probe t (bhash (bs ! unat i)) i" if "valid_slot (bs ! unat i)"
    proof -
      have "home (bs ! unat i) < unat cap" using robinD(1) [OF T(1), of "unat i"] ic T(2) that by simp
      then have "bhash (bs ! unat i) < cap" by (simp add: word_less_nat_alt)
      moreover have "disp (unat cap) (unat t) (unat i) = d"
        using disp_at [OF tc dc] Suc.prems(1) by simp
      ultimately show ?thesis using continue_probe_disp [OF t _ nx(1)] R that by simp
    qed
    show ?thesis
      using R False go ne cp by (auto simp: Let_def is_valid_def)
  qed
qed

lemma find_probe_miss:
  assumes k: "\<And>p. p < unat cap \<Longrightarrow> key (bs ! p) \<noteq> k"
    and t: "t < cap"
    and i: "unat i = (unat t + d) mod unat cap" "d < unat cap" "unat cap \<le> n + d"
  shows "find_probe n bs cap t k i = Some None"
  using i
proof (induction n arbitrary: i d)
  case 0
  then show ?case by simp
next
  case (Suc n)
  note nx = probe_next [OF t Suc.prems(2,1)]
  have ic: "unat i < unat cap" using nx(1) by (simp add: word_less_nat_alt)
  have "find_probe n bs cap t k (inc_index i cap) = Some None" if "inc_index i cap \<noteq> t"
    by (rule Suc.IH [OF nx(2)]) (use that nx(3) Suc.prems in simp_all)
  then show ?case using k [OF ic] by (auto simp: Let_def)
qed

lemma unat_get_table_entry_less:
  "unat cap = 2 ^ k \<Longrightarrow> unat (get_table_entry cap x) < unat cap"
  using get_table_entry_less [of cap k x] by (simp add: word_less_nat_alt)

lemma find_hash_hit:
  assumes "table_ok (capacity t) (buckets t)" "unat (capacity t) = 2 ^ m"
    and "p < unat (capacity t)" "valid_slot (buckets t ! p)" "key (buckets t ! p) = k"
  shows "find_hyperobject_hash t k = Some (Some p)"
proof -
  have lt: "get_table_entry (capacity t) k < capacity t"
    by (rule get_table_entry_less [OF assms(2)])
  have h: "home (buckets t ! p) = unat (get_table_entry (capacity t) k)"
    using assms by (simp add: table_ok_def hashes_ok_def)
  have u: "unat (get_table_entry (capacity t) k) < unat (capacity t)"
    by (rule unat_get_table_entry_less [OF assms(2)])
  show ?thesis
    unfolding find_hyperobject_hash_def Let_def
    by (rule find_probe_hit [where d = 0])
      (use assms lt h u disp_less [OF u assms(3)] in \<open>simp_all add: table_ok_def unat_gt_0\<close>)
qed

lemma find_hash_miss:
  assumes "length (buckets t) = unat (capacity t)" "unat (capacity t) = 2 ^ m" "is_valid k"
    and "entries (buckets t) k = None"
  shows "find_hyperobject_hash t k = Some None"
proof -
  have lt: "get_table_entry (capacity t) k < capacity t"
    by (rule get_table_entry_less [OF assms(2)])
  have "key (buckets t ! p) \<noteq> k" if "p < unat (capacity t)" for p
    using assms that by (auto simp: entries_None)
  then show ?thesis
    unfolding find_hyperobject_hash_def Let_def
    by (rule find_probe_miss [where d = 0])
      (use lt unat_get_table_entry_less [OF assms(2), of k] in \<open>(simp; fail) | linarith\<close>)+
qed

section \<open>The scans of a small table\<close>

lemma find_linear_from_spec:
  "(case find_linear_from bs k n of
      Some i \<Rightarrow> i < n \<and> key (bs ! i) = k \<and> (\<forall>j. i < j \<and> j < n \<longrightarrow> key (bs ! j) \<noteq> k)
    | None \<Rightarrow> \<forall>j < n. key (bs ! j) \<noteq> k)"
  by (induction n) (auto split: option.splits elim!: less_SucE)

lemma find_forward_spec:
  "(case find_forward bs k i n of
      Some j \<Rightarrow> i \<le> j \<and> j < i + n \<and> key (bs ! j) = k \<and> (\<forall>l. i \<le> l \<and> l < j \<longrightarrow> key (bs ! l) \<noteq> k)
    | None \<Rightarrow> \<forall>l. i \<le> l \<and> l < i + n \<longrightarrow> key (bs ! l) \<noteq> k)"
proof (induction n arbitrary: i)
  case (Suc n)
  show ?case
  proof (cases "find_forward bs k (Suc i) n")
    case None
    then show ?thesis using Suc [of "Suc i"]
      by (simp split: option.splits) (metis Suc_leI le_neq_implies_less)
  next
    case (Some j)
    then show ?thesis using Suc [of "Suc i"]
      by (simp split: option.splits) (metis Suc_leI Suc_leD le_neq_implies_less)
  qed
qed auto

end
