(* ===== verification/Hypertable_Insert.thy ===== *)
theory Hypertable_Insert
  imports Hypertable_Find
begin

text \<open>
  Insertion into the circular array.  While an empty slot remains, the probe of \<open>insert_hashed\<close>
  finds the key's slot, a free slot, or the place from which to shift, and the resulting array is
  again in order and holds the new entry (\<open>insert_hashed_ok\<close>).  The proofs read the array from the
  slot after an empty one, where insertion is insertion into a sorted list (\<open>lin_insert\<close>).
\<close>

definition nvalid :: "bucket list \<Rightarrow> nat" where
  "nvalid bs = length (filter valid_slot bs)"

definition nempty :: "bucket list \<Rightarrow> nat" where
  "nempty bs = length (filter empty_slot bs)"

section \<open>Insertion into the linear order\<close>

lemma lin_ok_alt:
  "lin_ok c H xs \<longleftrightarrow> length xs = c \<and>
     (\<forall>p < c. valid_slot (xs ! p) \<longrightarrow>
        H (xs ! p) \<le> p \<and> (\<forall>q < p. empty_slot (xs ! q) \<longrightarrow> q < H (xs ! p))) \<and>
     sorted_wrt (\<lambda>x y. valid_slot y \<longrightarrow> valid_slot x \<longrightarrow> H x \<le> H y) xs"
  unfolding lin_ok_def sorted_wrt_iff_nth_less by (auto simp: not_less) (meson leI, meson leD)

lemma nth_insert_seg:
  assumes "length seg = z"
  shows "(pre @ x # seg @ post) ! p =
    (if p < length pre then (pre @ seg @ e # post) ! p
     else if p = length pre then x
     else if p \<le> length pre + z then (pre @ seg @ e # post) ! (p - 1)
     else (pre @ seg @ e # post) ! p)"
  using assms
  by (cases seg) (auto simp: nth_append nth_Cons' not_less Suc_diff_le
      simp flip: length_greater_0_conv)

lemma lin_insert:
  assumes L: "lin_ok c H (pre @ seg @ e # post)"
    and e: "\<not> valid_slot e" and seg: "\<forall>b\<in>set seg. valid_slot b"
    and x: "valid_slot x" "H x \<le> length pre"
    and mid: "\<And>q. H x \<le> q \<Longrightarrow> q < length pre \<Longrightarrow> \<not> empty_slot (pre ! q)"
    and le: "\<And>b. b \<in> set pre \<Longrightarrow> valid_slot b \<Longrightarrow> H b \<le> H x"
    and gt: "\<And>b. b \<in> set seg \<union> set post \<Longrightarrow> valid_slot b \<Longrightarrow> H x < H b"
  shows "lin_ok c H (pre @ x # seg @ post)"
proof -
  let ?xs = "pre @ seg @ e # post" let ?ys = "pre @ x # seg @ post"
  let ?y = "length pre" let ?z = "length seg"
  have len: "length ?xs = c" using L by (simp add: lin_ok_def)
  have hole: "H (?xs ! p) \<le> p" "\<And>q. q < p \<Longrightarrow> empty_slot (?xs ! q) \<Longrightarrow> q < H (?xs ! p)"
    if "p < c" "valid_slot (?xs ! p)" for p
    using L that unfolding lin_ok_alt by blast+
  have nth: "?ys ! p = (if p < ?y then ?xs ! p else if p = ?y then x
      else if p \<le> ?y + ?z then ?xs ! (p - 1) else ?xs ! p)" for p
    by (rule nth_insert_seg) simp
  have em: "empty_slot (?xs ! q) \<and> (q < ?y \<or> ?y + ?z < q)" if "empty_slot (?ys ! q)" for q
  proof -
    have "valid_slot (?xs ! (q - 1))" if "?y < q" "q \<le> ?y + ?z"
    proof -
      have "?xs ! (q - 1) = seg ! (q - 1 - ?y)" using that by (auto simp: nth_append)
      then show ?thesis using seg that by simp
    qed
    then show ?thesis
      using that nth [of q] x(1) by (auto simp: valid_not_empty split: if_splits)
  qed
  have "H (?ys ! p) \<le> p \<and> (\<forall>q < p. empty_slot (?ys ! q) \<longrightarrow> q < H (?ys ! p))"
    if p: "p < c" and v: "valid_slot (?ys ! p)" for p
  proof -
    consider (x) "p = ?y" | (seg) "?y < p" "p \<le> ?y + ?z" "?ys ! p = ?xs ! (p - 1)"
      | (old) "p \<noteq> ?y" "?ys ! p = ?xs ! p" "p < ?y \<or> ?y + ?z < p"
      using nth [of p] by force
    then show ?thesis
    proof cases
      case x
      have "q < H x" if "q < ?y" "empty_slot (?ys ! q)" for q
        using em [OF that(2)] that mid [of q] by (cases "H x \<le> q") (auto simp: nth_append)
      then show ?thesis using x assms(5) by simp
    next
      case seg
      have p1: "p - 1 < c" using p by simp
      have v1: "valid_slot (?xs ! (p - 1))" using v seg(3) by simp
      have "q < H (?xs ! (p - 1))" if "q < p" "empty_slot (?ys ! q)" for q
        using em [OF that(2)] that seg by (intro hole(2) [OF p1 v1]) auto
      then show ?thesis using hole(1) [OF p1 v1] seg(3) by (metis diff_le_self le_trans)
    next
      case old
      have v1: "valid_slot (?xs ! p)" using v old(2) by simp
      have "q < H (?xs ! p)" if "q < p" "empty_slot (?ys ! q)" for q
        using em [OF that(2)] that by (intro hole(2) [OF p v1]) auto
      then show ?thesis using hole(1) [OF p v1] old(2) by metis
    qed
  qed
  moreover have "sorted_wrt (\<lambda>x y. valid_slot y \<longrightarrow> valid_slot x \<longrightarrow> H x \<le> H y) ?ys"
    using L e le gt unfolding lin_ok_alt by (fastforce simp: sorted_wrt_append)
  moreover have "length ?ys = c" using len by simp
  ultimately show ?thesis unfolding lin_ok_alt by blast
qed

section \<open>The loops of the insertion, in linear coordinates\<close>

text \<open>Slot \<open>i\<close> sits at coordinate \<open>y\<close> from base \<open>b\<close>.\<close>

definition at_coord :: "u32 \<Rightarrow> nat \<Rightarrow> nat \<Rightarrow> u32 \<Rightarrow> bool" where
  "at_coord cap b y i \<longleftrightarrow> y < unat cap \<and> unat i = (b + y) mod unat cap"

lemma at_coord_less: "at_coord cap b y i \<Longrightarrow> i < cap"
  by (auto simp: at_coord_def word_less_nat_alt)

lemma at_coord_next: "at_coord cap b y i \<Longrightarrow> Suc y < unat cap \<Longrightarrow> at_coord cap b (Suc y) (inc_index i cap)"
  using at_coord_less [of cap b y i] inc_index_at [of i cap b y] by (simp add: at_coord_def)

lemma at_coord_inj: "b < unat cap \<Longrightarrow> at_coord cap b y i \<Longrightarrow> at_coord cap b y' i \<Longrightarrow> y = y'"
  using disp_at [of b "unat cap"] unfolding at_coord_def by metis

lemma at_coord_nth:
  "at_coord cap b y i \<Longrightarrow> length bs = unat cap \<Longrightarrow> bs ! unat i = rotate b bs ! y"
  by (simp add: at_coord_def nth_rotate_at)

lemma rotate_update:
  assumes "b < unat cap" "at_coord cap b y i" "length bs = unat cap"
  shows "rotate b (bs[unat i := x]) = (rotate b bs)[y := x]"
proof (rule nth_equalityI)
  fix p assume "p < length (rotate b (bs[unat i := x]))"
  then have p: "p < unat cap" using assms(3) by simp
  have "unat i = (b + p) mod unat cap \<longleftrightarrow> p = y"
    using assms(2) p disp_at [OF assms(1)] unfolding at_coord_def by metis
  then show "rotate b (bs[unat i := x]) ! p = (rotate b bs)[y := x] ! p"
    using p assms(2,3) by (auto simp: nth_rotate_at at_coord_def nth_list_update)
qed simp

lemma continue_probe_lin:
  assumes b: "b < unat cap" and T: "at_coord cap b T tgt" and y: "at_coord cap b y i" "T \<le> y"
    and h: "h < cap" "disp (unat cap) b (unat h) \<le> y"
  shows "continue_probe tgt h i \<longleftrightarrow> disp (unat cap) b (unat h) \<le> T"
proof -
  have u: "unat i < unat cap" "unat tgt < unat cap" "unat h < unat cap"
    using at_coord_less [OF y(1)] at_coord_less [OF T] h(1) by (simp_all add: word_less_nat_alt)
  have ci: "disp (unat cap) b (unat i) = y" "disp (unat cap) b (unat tgt) = T"
    using y(1) T disp_at [OF b] by (auto simp: at_coord_def)
  show ?thesis
    using continue_probe_disp [OF at_coord_less [OF T] h(1) at_coord_less [OF y(1)]]
      disp_coord [OF b u(2,1)] disp_coord [OF b u(3,1)] ci y(2) h(2) by auto
qed

lemma tomb_scan_lin:
  assumes b: "b < unat cap" "length bs = unat cap"
    and last: "empty_slot (rotate b bs ! (unat cap - 1))"
    and T: "at_coord cap b T tgt"
    and y: "at_coord cap b y i" "T < y" "unat cap \<le> n + y"
  shows "\<exists>w j. tomb_scan n bs cap tgt i = Some j \<and> at_coord cap b w j \<and> y \<le> w \<and>
    (\<forall>q. y \<le> q \<and> q < w \<longrightarrow> is_tombstone (key (rotate b bs ! q))) \<and>
    \<not> is_tombstone (key (rotate b bs ! w))"
  using y
proof (induction n arbitrary: i y)
  case 0
  then show ?case by (simp add: at_coord_def)
next
  case (Suc n)
  have yc: "y < unat cap" using Suc.prems(1) by (simp add: at_coord_def)
  have ne: "i \<noteq> tgt" using at_coord_inj [OF b(1) T] Suc.prems by auto
  note nth = at_coord_nth [OF Suc.prems(1) b(2)]
  show ?case
  proof (cases "is_tombstone (key (rotate b bs ! y))")
    case False
    then show ?thesis using Suc.prems(1) nth by (intro exI [of _ y] exI [of _ i]) auto
  next
    case True
    then have "y \<noteq> unat cap - 1" using last by (auto simp: is_tombstone_def is_empty_def
          KEY_EMPTY_def KEY_DELETED_def)
    then have sy: "Suc y < unat cap" using yc by simp
    obtain w j where w: "tomb_scan n bs cap tgt (inc_index i cap) = Some j" "at_coord cap b w j"
      "Suc y \<le> w" "\<forall>q. Suc y \<le> q \<and> q < w \<longrightarrow> is_tombstone (key (rotate b bs ! q))"
      "\<not> is_tombstone (key (rotate b bs ! w))"
      using Suc.IH [OF at_coord_next [OF Suc.prems(1) sy]] Suc.prems(2,3) by auto
    have "is_tombstone (key (rotate b bs ! q))" if "y \<le> q" "q < w" for q
      using w(4) True that by (cases "q = y") auto
    then show ?thesis using w True ne nth by (intro exI [of _ w] exI [of _ j]) auto
  qed
qed

lemma shift_insert_lin:
  assumes b: "b < unat cap"
    and i0: "at_coord cap b y0 itgt"
    and bs: "length bs = unat cap" "rotate b bs = pre @ seg @ e # post"
    and e: "\<not> valid_slot e" and seg: "\<forall>s\<in>set seg. valid_slot s"
    and i: "at_coord cap b (length pre) i" "y0 \<le> length pre" "length seg < n"
  shows "\<exists>bs'. shift_insert n bs cap itgt x i = Some (bs', True) \<and> length bs' = unat cap \<and>
    rotate b bs' = pre @ x # seg @ post"
  using bs seg i
proof (induction seg arbitrary: bs pre x i n)
  case Nil
  obtain m where n: "n = Suc m" using Nil.prems by (cases n) auto
  have "bs ! unat i = e" using at_coord_nth [OF Nil.prems(4,1)] Nil.prems(2) by simp
  moreover have "rotate b (bs[unat i := x]) = pre @ x # post"
    using rotate_update [OF b Nil.prems(4,1)] Nil.prems(2) by simp
  ultimately show ?case using n e Nil.prems(1) by (simp add: Let_def)
next
  case (Cons s seg)
  obtain m where n: "n = Suc m" using Cons.prems by (cases n) auto
  have len: "Suc (length pre) < unat cap"
    using arg_cong [OF Cons.prems(2), of length] Cons.prems(1) by simp
  have s: "bs ! unat i = s" using at_coord_nth [OF Cons.prems(4,1)] Cons.prems(2) by simp
  have up: "rotate b (bs[unat i := x]) = (pre @ [x]) @ seg @ e # post"
    using rotate_update [OF b Cons.prems(4,1)] Cons.prems(2) by simp
  have nx: "at_coord cap b (length (pre @ [x])) (inc_index i cap)"
    using at_coord_next [OF Cons.prems(4) len] by simp
  have ne: "inc_index i cap \<noteq> itgt"
    using at_coord_inj [OF b i0] nx Cons.prems(5) by auto
  have "\<exists>bs'. shift_insert m (bs[unat i := x]) cap itgt s (inc_index i cap) = Some (bs', True) \<and>
      length bs' = unat cap \<and> rotate b bs' = (pre @ [x]) @ s # seg @ post"
    by (rule Cons.IH [OF _ up _ nx]) (use Cons.prems n in auto)
  then show ?case using n s ne Cons.prems(3) by (simp add: Let_def)
qed

definition passed :: "nat \<Rightarrow> (bucket \<Rightarrow> nat) \<Rightarrow> bucket list \<Rightarrow> u64 \<Rightarrow> nat \<Rightarrow> bool" where
  "passed T H xs k y \<longleftrightarrow> (\<forall>q. T \<le> q \<and> q < y \<longrightarrow> \<not> empty_slot (xs ! q) \<and> key (xs ! q) \<noteq> k \<and>
     (valid_slot (xs ! q) \<longrightarrow> H (xs ! q) \<le> T))"

text \<open>What the place found by the probe means for the linear order.\<close>

definition stops_at ::
    "nat \<Rightarrow> nat \<Rightarrow> (bucket \<Rightarrow> nat) \<Rightarrow> bucket list \<Rightarrow> u64 \<Rightarrow> nat \<Rightarrow> u32 \<Rightarrow> probe_out \<Rightarrow> bool" where
  "stops_at c T H xs k z i out \<longleftrightarrow> T \<le> z \<and> passed T H xs k z \<and>
     (out = Overwrite i \<and> key (xs ! z) = k \<or>
      out = Place i \<and> key (xs ! z) \<noteq> k \<and> \<not> valid_slot (xs ! z) \<and>
        (\<forall>q. z < q \<and> q < c \<and> valid_slot (xs ! q) \<longrightarrow> T < H (xs ! q)) \<or>
      out = ShiftFrom i \<and> key (xs ! z) \<noteq> k \<and> valid_slot (xs ! z) \<and> T < H (xs ! z))"

lemma passed_extend:
  "passed T H xs k y \<Longrightarrow> (\<And>q. y \<le> q \<Longrightarrow> q < w \<Longrightarrow> \<not> empty_slot (xs ! q) \<and> key (xs ! q) \<noteq> k \<and>
     (valid_slot (xs ! q) \<longrightarrow> H (xs ! q) \<le> T)) \<Longrightarrow> passed T H xs k w"
  unfolding passed_def by (metis not_le)

lemma lin_okD:
  assumes "lin_ok c H xs" "p < c" "valid_slot (xs ! p)"
  shows "H (xs ! p) \<le> p" "H (xs ! p) \<le> q \<Longrightarrow> q < p \<Longrightarrow> \<not> empty_slot (xs ! q)"
    "q < p \<Longrightarrow> valid_slot (xs ! q) \<Longrightarrow> H (xs ! q) \<le> H (xs ! p)"
  using assms unfolding lin_ok_def by blast+

lemma tombstone_cases:
  "is_tombstone k \<Longrightarrow> \<not> is_empty k" "is_tombstone k \<Longrightarrow> \<not> is_valid k"
  "\<not> is_empty k \<Longrightarrow> \<not> is_tombstone k \<Longrightarrow> is_valid k"
  by (auto simp: is_tombstone_def is_empty_def is_valid_def KEY_EMPTY_def KEY_DELETED_def)

lemma insert_probe_lin:
  fixes cap b bs
  defines "xs \<equiv> rotate b bs" and "H \<equiv> \<lambda>x. disp (unat cap) b (home x)" and "c \<equiv> unat cap"
  assumes b: "b < c" "length bs = c"
    and L: "lin_ok c H xs" and last: "empty_slot (xs ! (c - 1))"
    and hs: "\<And>p. p < c \<Longrightarrow> valid_slot (xs ! p) \<Longrightarrow> bhash (xs ! p) < cap"
    and k: "is_valid k"
    and T: "at_coord cap b T tgt"
    and y: "at_coord cap b y i" "T \<le> y" "c \<le> n + y" "passed T H xs k y"
  shows "\<exists>z j out. insert_probe n bs cap tgt k i = Some out \<and> at_coord cap b z j \<and>
    stops_at c T H xs k z j out"
  using y
proof (induction n arbitrary: i y)
  case 0
  then show ?case by (simp add: at_coord_def c_def)
next
  case (Suc n)
  have yc: "y < c" using Suc.prems(1) by (simp add: at_coord_def c_def)
  have nth: "bs ! unat i = xs ! y"
    using at_coord_nth [OF Suc.prems(1)] b(2) by (simp add: xs_def c_def)
  have cp: "continue_probe tgt (bhash (xs ! w)) j \<longleftrightarrow> H (xs ! w) \<le> T"
    if "at_coord cap b w j" "T \<le> w" "valid_slot (xs ! w)" for w j
  proof -
    have "w < c" using that(1) by (simp add: at_coord_def c_def)
    then show ?thesis
      using continue_probe_lin [OF b(1) [unfolded c_def] T that(1,2) hs] lin_okD(1) [OF L] that
      by (simp add: H_def c_def)
  qed
  have go: ?case
    if e: "insert_probe (Suc n) bs cap tgt k i =
        (if j \<noteq> tgt then insert_probe n bs cap tgt k j else Some (ShiftFrom j))"
      and j: "at_coord cap b w j" "y < w" "passed T H xs k w" for w j
  proof -
    have "j \<noteq> tgt" using at_coord_inj [OF b(1) [unfolded c_def] T, of w] j(1,2) Suc.prems(2) by auto
    then show ?thesis using Suc.IH [OF j(1) _ _ j(3)] e j(2) Suc.prems(2,3) by auto
  qed
  have done_at: ?case
    if "insert_probe (Suc n) bs cap tgt k i = Some out" "stops_at c T H xs k y i out" for out
    using that Suc.prems(1) by blast
  consider (found) "key (xs ! y) = k"
    | (empty) "key (xs ! y) \<noteq> k" "empty_slot (xs ! y)"
    | (tomb) "key (xs ! y) \<noteq> k" "is_tombstone (key (xs ! y))" "\<not> empty_slot (xs ! y)"
    | (valid) "key (xs ! y) \<noteq> k" "\<not> empty_slot (xs ! y)" "\<not> is_tombstone (key (xs ! y))"
        "valid_slot (xs ! y)"
    using tombstone_cases by blast
  then show ?case
  proof cases
    case found
    then show ?thesis
      by (intro done_at [of "Overwrite i"]) (use nth Suc.prems in \<open>auto simp: stops_at_def Let_def\<close>)
  next
    case empty
    have "T < H (xs ! q)" if "y < q" "q < c" "valid_slot (xs ! q)" for q
      using lin_okD(2) [OF L that(2,3), of y] empty(2) that(1) Suc.prems(2)
      by (metis le_trans not_le)
    then show ?thesis
      by (intro done_at [of "Place i"])
        (use nth empty Suc.prems in \<open>auto simp: stops_at_def Let_def is_valid_def\<close>)
  next
    case valid
    show ?thesis
    proof (cases "H (xs ! y) \<le> T")
      case True
      have sy: "Suc y < unat cap" using yc last valid(2) by (metis Suc_lessI c_def diff_Suc_1)
      have ps: "passed T H xs k (Suc y)"
        by (rule passed_extend [OF Suc.prems(4)]) (use valid True in \<open>auto simp: less_Suc_eq\<close>)
      show ?thesis
        by (rule go [OF _ at_coord_next [OF Suc.prems(1) sy] _ ps])
          (use nth valid cp [OF Suc.prems(1,2)] True in \<open>simp_all add: Let_def\<close>)
    next
      case False
      then show ?thesis
        by (intro done_at [of "ShiftFrom i"])
          (use nth valid cp [OF Suc.prems(1,2)] Suc.prems in \<open>auto simp: stops_at_def Let_def\<close>)
    qed
  next
    case tomb
    have sy: "Suc y < unat cap" using yc last tomb(3) by (metis Suc_lessI c_def diff_Suc_1)
    obtain w j where w: "tomb_scan (unat cap) bs cap tgt (inc_index i cap) = Some j"
      "at_coord cap b w j" "Suc y \<le> w"
      "\<forall>q. Suc y \<le> q \<and> q < w \<longrightarrow> is_tombstone (key (xs ! q))" "\<not> is_tombstone (key (xs ! w))"
      using tomb_scan_lin [OF b(1) [unfolded c_def] b(2) [unfolded c_def] _ T
          at_coord_next [OF Suc.prems(1) sy], of "unat cap"] last Suc.prems(2)
      by (auto simp: xs_def c_def)
    have wc: "w < c" using w(2) by (simp add: at_coord_def c_def)
    have tb: "is_tombstone (key (xs ! q))" if "y \<le> q" "q < w" for q
      using w(4) tomb(2) that by (cases "q = y") auto
    have nw: "bs ! unat j = xs ! w" using at_coord_nth [OF w(2)] b(2) by (simp add: xs_def c_def)
    have jt: "j \<noteq> tgt" using at_coord_inj [OF b(1) [unfolded c_def] T, of w] w Suc.prems(2) by auto
    have ?thesis if gt: "\<And>q. w \<le> q \<Longrightarrow> q < c \<Longrightarrow> valid_slot (xs ! q) \<Longrightarrow> T < H (xs ! q)"
      and e: "insert_probe (Suc n) bs cap tgt k i = Some (Place i)"
    proof -
      have "T < H (xs ! q)" if "y < q" "q < c" "valid_slot (xs ! q)" for q
        using gt [of q] tb [of q] tombstone_cases(2) that by (metis less_imp_le not_le)
      then show ?thesis
        by (intro done_at [OF e])
          (use tomb Suc.prems tombstone_cases(2) in \<open>auto simp: stops_at_def\<close>)
    qed note place = this
    show ?thesis
    proof (cases "empty_slot (xs ! w)")
      case True
      have "T < H (xs ! q)" if "w \<le> q" "q < c" "valid_slot (xs ! q)" for q
      proof -
        have "w \<noteq> q" using True that(3) by (auto simp: is_valid_def)
        then show ?thesis using lin_okD(2) [OF L that(2,3), of w] True that(1) w(3) Suc.prems(2)
          by (metis Suc_leD le_neq_implies_less le_trans not_le)
      qed
      then show ?thesis by (rule place) (use nth tomb w True nw in \<open>simp_all add: Let_def\<close>)
    next
      case ne: False
      then have vw: "valid_slot (xs ! w)" using w(5) tombstone_cases(3) by blast
      have Tw: "T \<le> w" using w(3) Suc.prems(2) by simp
      show ?thesis
      proof (cases "H (xs ! w) \<le> T")
        case True
        have ps: "passed T H xs k w"
          by (rule passed_extend [OF Suc.prems(4)])
            (use tb tombstone_cases k in \<open>metis\<close>)
        show ?thesis
          by (rule go [OF _ w(2) _ ps])
            (use nth nw tomb w ne True cp [OF w(2) Tw vw] jt in \<open>simp_all add: Let_def\<close>)
      next
        case False
        have "T < H (xs ! q)" if "w \<le> q" "q < c" "valid_slot (xs ! q)" for q
          using lin_okD(3) [OF L that(2,3) _ vw] False that(1) by (cases "q = w") auto
        then show ?thesis
          by (rule place) (use nth nw tomb w ne False cp [OF w(2) Tw vw] jt in \<open>simp_all add: Let_def\<close>)
      qed
    qed
  qed
qed

section \<open>The array after an insertion\<close>

lemma mset_rotate_filter: "mset (filter P (rotate n xs)) = mset (filter P xs)"
proof -
  have "mset (rotate n xs) = mset xs"
    by (metis append_take_drop_id mset_append rotate_drop_take union_commute)
  then show ?thesis by (metis mset_filter)
qed

lemma length_filter_rotate: "length (filter P (rotate n xs)) = length (filter P xs)"
  by (metis mset_rotate_filter size_mset)

lemma bex_set_nth: "(\<exists>x\<in>set xs. P x) \<longleftrightarrow> (\<exists>i < length xs. P (xs ! i))"
  by (metis in_set_conv_nth)

lemma set_nth_rotate:
  assumes "x \<in> set bs" "length bs = c"
  obtains p where "p < c" "rotate b bs ! p = x"
  using assms by (metis in_set_conv_nth length_rotate set_rotate)

lemma array_insert:
  assumes H: "H = (\<lambda>x. disp (unat cap) b (home x))" and xs: "xs = rotate b bs"
    and T: "table_ok cap bs" "unat cap = 2 ^ m" "b < unat cap"
    and L: "lin_ok (unat cap) H xs"
    and bs: "xs = pre @ seg @ e # post" and bs': "rotate b bs' = pre @ x # seg @ post"
      "length bs' = unat cap"
    and e: "\<not> valid_slot e" and seg: "\<forall>s\<in>set seg. valid_slot s"
    and x: "valid_slot x" "bhash x = get_table_entry cap (key x)" "entries bs (key x) = None"
    and mid: "H x \<le> length pre" "passed (H x) H xs k (length pre)"
    and le: "\<And>q. q < length pre \<Longrightarrow> valid_slot (xs ! q) \<Longrightarrow> H (xs ! q) \<le> H x"
    and gt: "\<And>q. length pre \<le> q \<Longrightarrow> q < unat cap \<Longrightarrow> valid_slot (xs ! q) \<Longrightarrow>
      H x < H (xs ! q)"
  shows "table_ok cap bs'" "entries bs' = (entries bs)(key x \<mapsto> data x)"
    "nvalid bs' = Suc (nvalid bs)" "nempty bs \<le> Suc (nempty bs')"
proof -
  have len: "length xs = unat cap" using T(1) by (simp add: table_ok_def xs)
  have pre: "xs ! q = pre ! q" if "q < length pre" for q
    using bs that by (simp add: nth_append)
  have lin: "lin_ok (unat cap) H (rotate b bs')"
    unfolding bs'(1)
  proof (rule lin_insert [OF L [unfolded bs] e seg x(1) mid(1)])
    fix q assume "H x \<le> q" "q < length pre"
    then show "\<not> empty_slot (pre ! q)" using mid(2) pre by (simp add: passed_def)
  next
    fix y assume y: "y \<in> set pre" "valid_slot y"
    then obtain q where "q < length pre" "y = pre ! q" by (metis in_set_conv_nth)
    then show "H y \<le> H x" using le [of q] pre [of q] y by simp
  next
    fix y assume y: "y \<in> set seg \<union> set post" "valid_slot y"
    then have "y \<in> set (seg @ e # post)" by auto
    then obtain q where q: "q < length (seg @ e # post)" "y = (seg @ e # post) ! q"
      by (metis in_set_conv_nth)
    have "length pre + q < unat cap" using q(1) len bs by simp
    moreover have "xs ! (length pre + q) = y" using bs q(2) by simp
    ultimately show "H x < H y" using gt [of "length pre + q"] y(2) by simp
  qed
  have mv: "mset (filter valid_slot bs') = add_mset x (mset (filter valid_slot bs))"
  proof -
    have "mset (filter valid_slot bs') = mset (filter valid_slot (rotate b bs'))"
      by (simp only: mset_rotate_filter xs)
    also have "\<dots> = add_mset x (mset (filter valid_slot xs))"
      using x(1) e by (simp add: bs bs'(1))
    finally show ?thesis by (simp only: mset_rotate_filter xs)
  qed
  have sub: "y = x \<or> y \<in> set bs" if "y \<in> set bs'" "valid_slot y" for y
  proof -
    have "y \<in># mset (filter valid_slot bs')" using that by simp
    then have "y \<in># add_mset x (mset (filter valid_slot bs))" by (simp only: mv)
    then show ?thesis by auto
  qed
  have hk: "hashes_ok cap bs'"
    using T(1) sub x(2) unfolding table_ok_def hashes_ok_def by blast
  have kd: "keys_distinct bs" using T(1) by (simp add: table_ok_def)
  note ent = entries_insert [OF mv kd x(3)]
  show "entries bs' = (entries bs)(key x \<mapsto> data x)" by (rule ent(2))
  have "robin bs'"
  proof (rule lin_ok_robin)
    show "lin_ok (length bs') (\<lambda>x. disp (length bs') b (home x)) (rotate b bs')"
      using lin bs'(2) by (simp add: H)
    show "b < length bs'" using T(3) bs'(2) by simp
    fix y assume "y \<in> set bs'" "valid_slot y"
    then show "home y < length bs'"
      using hk unat_get_table_entry_less [OF T(2)] bs'(2) by (simp add: hashes_ok_def)
  qed
  then show "table_ok cap bs'" using bs'(2) hk ent(1) by (simp add: table_ok_def)
  have "size (mset (filter valid_slot bs')) = Suc (size (mset (filter valid_slot bs)))"
    by (simp only: mv size_add_mset)
  then show "nvalid bs' = Suc (nvalid bs)" by (simp only: nvalid_def size_mset)
  have "nempty bs = length (filter empty_slot xs)"
    by (simp add: nempty_def length_filter_rotate xs)
  also have "\<dots> \<le> Suc (length (filter empty_slot (rotate b bs')))"
    by (simp add: bs bs'(1))
  also have "\<dots> = Suc (nempty bs')"
    by (simp add: nempty_def length_filter_rotate xs)
  finally show "nempty bs \<le> Suc (nempty bs')" .
qed

text \<open>Overwriting the data of a slot changes neither the order nor the counts.\<close>

lemma robin_cong:
  assumes "length bs = length bs'"
    and "\<And>p. p < length bs \<Longrightarrow> key (bs ! p) = key (bs' ! p) \<and> bhash (bs ! p) = bhash (bs' ! p)"
  shows "robin bs = robin bs'"
proof -
  have "robin bs'" if R: "robin bs" and l: "length bs = length bs'"
    and c: "\<And>p. p < length bs \<Longrightarrow> key (bs ! p) = key (bs' ! p) \<and> bhash (bs ! p) = bhash (bs' ! p)"
  for bs bs' :: "bucket list"
    unfolding robin_def Let_def
  proof (intro allI impI conjI)
    fix p assume p: "p < length bs'" and v: "valid_slot (bs' ! p)"
    have v1: "valid_slot (bs ! p)" using v c p l by simp
    have p1: "p < length bs" using p l by simp
    show "home (bs' ! p) < length bs'" using robinD(1) [OF R p1 v1] c [OF p1] l by simp
    fix d assume d: "d < disp (length bs') (home (bs' ! p)) p"
    let ?q = "(home (bs' ! p) + d) mod length bs'"
    have "0 < length bs'" using p by linarith
    then have q: "?q < length bs" using l by simp
    have D: "\<not> empty_slot (bs ! ?q) \<and>
      (valid_slot (bs ! ?q) \<longrightarrow> d \<le> disp (length bs) (home (bs ! ?q)) ?q)"
      by (rule robinD(2) [OF R p1 v1]) (use d c [OF p1] l in simp_all)
    then show "\<not> empty_slot (bs' ! ?q)" using c [OF q] by simp
    assume "valid_slot (bs' ! ?q)"
    then show "d \<le> disp (length bs') (home (bs' ! ?q)) ?q" using D c [OF q] l by simp
  qed
  then show ?thesis using assms by (metis (no_types, lifting))
qed

lemma array_overwrite:
  fixes bs :: "bucket list" and d :: reducer_data and p :: nat
  defines "bs' \<equiv> bs[p := (bs ! p)\<lparr>data := d\<rparr>]"
  assumes T: "table_ok cap bs" and p: "p < unat cap" "valid_slot (bs ! p)"
  shows "table_ok cap bs'" "entries bs' = (entries bs)(key (bs ! p) \<mapsto> d)"
    "nvalid bs' = nvalid bs" "nempty bs' = nempty bs"
proof -
  have len: "length bs = unat cap" using T by (simp add: table_ok_def)
  have nth: "key (bs' ! q) = key (bs ! q) \<and> bhash (bs' ! q) = bhash (bs ! q)" if "q < unat cap" for q
    using that p(1) len by (simp add: bs'_def nth_list_update)
  have keys: "map key bs' = map key bs"
    by (rule nth_equalityI) (use nth len in \<open>auto simp: bs'_def nth_list_update\<close>)
  have R: "robin bs'" using T robin_cong [of bs bs'] nth len by (simp add: table_ok_def bs'_def)
  have H: "hashes_ok cap bs'"
    unfolding hashes_ok_def
  proof (intro ballI impI)
    fix y assume "y \<in> set bs'" "valid_slot y"
    then obtain q where q: "q < unat cap" "y = bs' ! q" using len by (auto simp: in_set_conv_nth bs'_def)
    then have "bs ! q \<in> set bs" "valid_slot (bs ! q)" using nth [OF q(1)] len \<open>valid_slot y\<close> by auto
    then show "bhash y = get_table_entry cap (key y)"
      using T nth [OF q(1)] q(2) by (simp add: table_ok_def hashes_ok_def)
  qed
  have fk: "map key (filter valid_slot xs) = filter is_valid (map key xs)" for xs
    by (simp add: filter_map comp_def)
  have K: "keys_distinct bs'" using T keys by (simp add: table_ok_def keys_distinct_def fk)
  show "table_ok cap bs'" using R H K len by (simp add: table_ok_def bs'_def)
  show "nvalid bs' = nvalid bs" unfolding nvalid_def using fk keys by (metis length_map)
  have fe: "map key (filter empty_slot xs) = filter is_empty (map key xs)" for xs
    by (simp add: filter_map comp_def)
  show "nempty bs' = nempty bs" unfolding nempty_def using fe keys by (metis length_map)
  have kd: "keys_distinct bs" using T by (simp add: table_ok_def)
  have at: "(entries bs' k = Some v) = (((entries bs)(key (bs ! p) \<mapsto> d)) k = Some v)" for k v
  proof -
    have "(entries bs' k = Some v) \<longleftrightarrow>
        (\<exists>q < unat cap. valid_slot (bs' ! q) \<and> key (bs' ! q) = k \<and> data (bs' ! q) = v)"
      unfolding entries_Some [OF K] bex_set_nth using len by (simp add: bs'_def)
    also have "\<dots> \<longleftrightarrow> (if k = key (bs ! p) then v = d else entries bs k = Some v)"
    proof (cases "k = key (bs ! p)")
      case True
      have "q = p" if "q < unat cap" "valid_slot (bs' ! q)" "key (bs' ! q) = k" for q
        using keys_distinct_nth [OF kd, of q p] that p len True nth by simp
      moreover have "valid_slot (bs' ! p)" "key (bs' ! p) = k" "data (bs' ! p) = d"
        using p len True by (simp_all add: bs'_def)
      ultimately show ?thesis using True p(1) by metis
    next
      case False
      then have "(valid_slot (bs' ! q) \<and> key (bs' ! q) = k \<and> data (bs' ! q) = v) \<longleftrightarrow>
          (valid_slot (bs ! q) \<and> key (bs ! q) = k \<and> data (bs ! q) = v)" for q
        using p(1) len by (cases "q = p") (auto simp: bs'_def)
      then show ?thesis using False len unfolding entries_Some [OF kd] bex_set_nth by simp
    qed
    finally show ?thesis by auto
  qed
  show "entries bs' = (entries bs)(key (bs ! p) \<mapsto> d)"
  proof
    fix k show "entries bs' k = ((entries bs)(key (bs ! p) \<mapsto> d)) k"
      using at [of k] by (metis option.exhaust)
  qed
qed


section \<open>The insertion of a bucket\<close>

lemma insert_hashed_probe:
  assumes "is_valid (key b0)" "0 < unat (capacity t)"
  shows "insert_hashed t b0 =
    (let cap = capacity t; bs = buckets t; tgt = get_table_entry cap (key b0);
         b = b0\<lparr>bhash := tgt\<rparr>
     in do {
          p \<leftarrow> insert_probe (unat cap) bs cap tgt (key b) tgt;
          case p of
            Overwrite i \<Rightarrow>
              Some (t\<lparr>buckets := bs[unat i := (bs ! unat i)\<lparr>data := data b\<rparr>]\<rparr>, True)
          | Place i \<Rightarrow> Some (count_insert t (bs[unat i := b]), True)
          | ShiftFrom i \<Rightarrow> do {
              (bs', ok) \<leftarrow> shift_insert (unat cap) bs cap i b i;
              if ok then Some (count_insert t bs', True) else Some (t\<lparr>buckets := bs'\<rparr>, False)
            }
        })"
proof (cases "is_empty (key (buckets t ! unat (get_table_entry (capacity t) (key b0))))")
  case True
  obtain n where n: "unat (capacity t) = Suc n" using assms(2) by (cases "unat (capacity t)") auto
  have "key b0 \<noteq> key (buckets t ! unat (get_table_entry (capacity t) (key b0)))"
    using True assms(1) by (auto simp: is_valid_def)
  then show ?thesis using True by (simp add: insert_hashed_def Let_def n)
next
  case False
  then show ?thesis by (simp add: insert_hashed_def Let_def)
qed

text \<open>The outcome of an insertion on the table: new counts, and the entry is there.\<close>

definition inserted :: "hyper_table \<Rightarrow> bucket \<Rightarrow> hyper_table \<Rightarrow> bool" where
  "inserted t b t' \<longleftrightarrow> capacity t' = capacity t \<and> table_ok (capacity t) (buckets t') \<and>
     entries (buckets t') = (entries (buckets t))(key b \<mapsto> data b) \<and>
     (if entries (buckets t) (key b) = None
      then occupancy t' = occupancy t + 1 \<and> ins_rm_count t' = ins_rm_count t + 1 \<and>
        nvalid (buckets t') = Suc (nvalid (buckets t)) \<and>
        nempty (buckets t) \<le> Suc (nempty (buckets t'))
      else occupancy t' = occupancy t \<and> ins_rm_count t' = ins_rm_count t \<and>
        nvalid (buckets t') = nvalid (buckets t) \<and> nempty (buckets t') = nempty (buckets t))"

lemma nempty_pos: "0 < nempty bs \<longleftrightarrow> (\<exists>e < length bs. empty_slot (bs ! e))"
proof -
  have "0 < nempty bs \<longleftrightarrow> (\<exists>x\<in>set bs. empty_slot x)"
    by (simp add: nempty_def filter_empty_conv)
  then show ?thesis by (simp only: bex_set_nth)
qed

lemma first_invalid:
  assumes "z < length xs" "\<not> valid_slot (xs ! (length xs - 1))"
  obtains w where "z \<le> w" "w < length xs" "\<not> valid_slot (xs ! w)"
    "\<forall>q. z \<le> q \<and> q < w \<longrightarrow> valid_slot (xs ! q)"
proof -
  define w where "w = (LEAST w. z \<le> w \<and> \<not> valid_slot (xs ! w))"
  have ex: "z \<le> length xs - 1 \<and> \<not> valid_slot (xs ! (length xs - 1))" using assms by simp
  have w: "z \<le> w \<and> \<not> valid_slot (xs ! w)" unfolding w_def using ex by (rule LeastI)
  have "w \<le> length xs - 1" unfolding w_def using ex by (rule Least_le)
  moreover have "valid_slot (xs ! q)" if "z \<le> q" "q < w" for q
    using not_less_Least [of q "\<lambda>w. z \<le> w \<and> \<not> valid_slot (xs ! w)"] that w_def by blast
  ultimately show ?thesis using that [of w] w assms(1) by auto
qed

lemma split_at:
  assumes "z \<le> w" "w < length xs"
  shows "xs = take z xs @ take (w - z) (drop z xs) @ xs ! w # drop (Suc w) xs"
proof -
  have "drop z xs = take (w - z) (drop z xs) @ drop w xs"
    using append_take_drop_id [of "w - z" "drop z xs"] assms by simp
  moreover have "drop w xs = xs ! w # drop (Suc w) xs" using assms by (simp add: Cons_nth_drop_Suc)
  ultimately show ?thesis by (metis append_take_drop_id)
qed

lemma insert_hashed_ok:
  assumes T: "table_ok (capacity t) (buckets t)" and cap: "unat (capacity t) = 2 ^ m"
    and room: "0 < nempty (buckets t)" and k: "is_valid (key b0)"
  shows "\<exists>t'. insert_hashed t b0 = Some (t', True) \<and> inserted t b0 t'"
proof -
  let ?cap = "capacity t" let ?bs = "buckets t" let ?c = "unat (capacity t)"
  let ?tgt = "get_table_entry ?cap (key b0)"
  let ?x = "b0\<lparr>bhash := ?tgt\<rparr>"
  have len: "length ?bs = ?c" and R: "robin ?bs" and kd: "keys_distinct ?bs"
    using T by (simp_all add: table_ok_def)
  have c0: "0 < ?c" using cap by simp
  obtain e where e: "e < ?c" "empty_slot (?bs ! e)" using room len by (auto simp: nempty_pos)
  define b where "b = Suc e mod ?c"
  have b: "b < ?c" using c0 by (simp add: b_def)
  define H where "H = (\<lambda>x. disp ?c b (home x))"
  define xs where "xs = rotate b ?bs"
  have L: "lin_ok ?c H xs" and last: "empty_slot (xs ! (?c - 1))"
    using robin_lin_ok [OF R, of e b] e len by (simp_all add: b_def H_def xs_def)
  have lx: "length xs = ?c" using len by (simp add: xs_def)
  have hs: "bhash (xs ! p) < ?cap" "bhash (xs ! p) = get_table_entry ?cap (key (xs ! p))"
    if "p < ?c" "valid_slot (xs ! p)" for p
  proof -
    have "xs ! p \<in> set ?bs" using that(1) lx xs_def by (metis nth_mem set_rotate)
    then show "bhash (xs ! p) = get_table_entry ?cap (key (xs ! p))"
      using T that(2) by (simp add: table_ok_def hashes_ok_def)
    then show "bhash (xs ! p) < ?cap" using get_table_entry_less [OF cap] by simp
  qed
  define T0 where "T0 = disp ?c b (unat ?tgt)"
  have tu: "unat ?tgt < ?c" by (rule unat_get_table_entry_less [OF cap])
  have T0: "at_coord ?cap b T0 ?tgt"
    using disp_less [OF b tu] at_disp [OF b tu] by (simp add: at_coord_def T0_def)
  have Hx: "H ?x = T0" by (simp add: H_def T0_def)
  have "passed T0 H xs (key b0) T0" by (auto simp: passed_def)
  note pr = insert_probe_lin [OF b len L [unfolded H_def xs_def] last [unfolded xs_def]
      hs(1) [unfolded xs_def] k T0 T0 le_refl le_add1 this [unfolded H_def xs_def]]
  obtain z i out where p: "insert_probe ?c ?bs ?cap ?tgt (key b0) ?tgt = Some out"
    "at_coord ?cap b z i" "stops_at ?c T0 H xs (key b0) z i out"
    using pr unfolding H_def xs_def by blast
  have zc: "z < ?c" using p(2) by (simp add: at_coord_def)
  have ps: "passed T0 H xs (key b0) z" and Tz: "T0 \<le> z" using p(3) by (auto simp: stops_at_def)
  have absent: "entries ?bs (key b0) = None"
    if gt: "\<forall>q. z < q \<and> q < ?c \<and> valid_slot (xs ! q) \<longrightarrow> T0 < H (xs ! q)"
      and nk: "key (xs ! z) \<noteq> key b0"
  proof (rule ccontr)
    assume "entries ?bs (key b0) \<noteq> None"
    then obtain y where y: "y \<in> set ?bs" "valid_slot y" "key y = key b0" by (auto simp: entries_None)
    obtain q where q: "q < ?c" "xs ! q = y"
      using set_nth_rotate [OF y(1) len, of b] by (auto simp: xs_def)
    have hq: "H (xs ! q) = T0" using hs(2) [OF q(1)] q(2) y by (simp add: H_def T0_def)
    have "T0 \<le> q" using lin_okD(1) [OF L q(1)] q(2) y(2) hq by simp
    moreover have "\<not> q < z" using ps q(2) y(3) \<open>T0 \<le> q\<close> by (auto simp: passed_def)
    moreover have "q \<noteq> z" using nk q(2) y(3) by auto
    moreover have "\<not> z < q" using gt q y(2) hq by auto
    ultimately show False by simp
  qed
  have le: "H (xs ! q) \<le> T0" if "q < z" "valid_slot (xs ! q)" for q
  proof (cases "T0 \<le> q")
    case True
    then show ?thesis using ps that by (simp add: passed_def)
  next
    case False
    then show ?thesis using lin_okD(1) [OF L _ that(2)] that(1) zc by fastforce
  qed
  have put: "inserted t b0 (count_insert t bs')"
    if w: "z \<le> w" "w < ?c" "\<not> valid_slot (xs ! w)" "\<forall>q. z \<le> q \<and> q < w \<longrightarrow> valid_slot (xs ! q)"
      and bs': "rotate b bs' = take z xs @ ?x # take (w - z) (drop z xs) @ drop (Suc w) xs"
        "length bs' = ?c"
      and gt: "\<forall>q. z \<le> q \<and> q < ?c \<and> valid_slot (xs ! q) \<longrightarrow> T0 < H (xs ! q)"
      and nk: "key (xs ! z) \<noteq> key b0" for w bs'
  proof -
    have lz: "length (take z xs) = z" using zc lx by simp
    have sv: "\<forall>s\<in>set (take (w - z) (drop z xs)). valid_slot s"
      using w lx by (auto simp: in_set_conv_nth)
    have ab: "entries ?bs (key ?x) = None" using absent gt nk by auto
    note ai = array_insert [OF H_def xs_def T cap b L split_at [OF w(1)] bs' w(3) sv,
        where k = "key b0", unfolded lz Hx lx]
    have "table_ok ?cap bs'" "entries bs' = (entries ?bs)(key ?x \<mapsto> data ?x)"
      "nvalid bs' = Suc (nvalid ?bs)" "nempty ?bs \<le> Suc (nempty bs')"
      by (rule ai; use w k ab Tz ps le gt in simp)+
    then show ?thesis using ab by (simp add: inserted_def count_insert_def)
  qed
  note ih = insert_hashed_probe [OF k c0, unfolded Let_def]
  show ?thesis
    using p(3) unfolding stops_at_def
  proof (elim conjE disjE)
    assume out: "out = Overwrite i" and kz: "key (xs ! z) = key b0"
    have x: "?bs ! unat i = xs ! z" using at_coord_nth [OF p(2) len] by (simp add: xs_def)
    have iu: "unat i < ?c" using at_coord_less [OF p(2)] by (simp add: word_less_nat_alt)
    have v: "valid_slot (?bs ! unat i)" using x kz k by simp
    have "entries ?bs (key b0) \<noteq> None"
      using v x kz iu len nth_mem [of "unat i" ?bs] unfolding entries_None by metis
    then have "inserted t b0 (t\<lparr>buckets := ?bs[unat i := (?bs ! unat i)\<lparr>data := data b0\<rparr>]\<rparr>)"
      using array_overwrite [OF T iu v] x kz by (simp add: inserted_def)
    then show ?thesis using p(1) out by (simp add: ih)
  next
    assume out: "out = Place i" and nv: "\<not> valid_slot (xs ! z)" and nk: "key (xs ! z) \<noteq> key b0"
      and gt: "\<forall>q. z < q \<and> q < ?c \<and> valid_slot (xs ! q) \<longrightarrow> T0 < H (xs ! q)"
    have "rotate b (?bs[unat i := ?x]) = xs[z := ?x]"
      using rotate_update [OF b p(2) len] by (simp add: xs_def)
    also have "\<dots> = take z xs @ ?x # take (z - z) (drop z xs) @ drop (Suc z) xs"
      using zc lx by (simp add: upd_conv_take_nth_drop)
    finally have "inserted t b0 (count_insert t (?bs[unat i := ?x]))"
      by (intro put [of z]) (use zc nv nk gt len in \<open>auto simp: le_less\<close>)
    then show ?thesis using p(1) out by (simp add: ih)
  next
    assume out: "out = ShiftFrom i" and v: "valid_slot (xs ! z)" and nk: "key (xs ! z) \<noteq> key b0"
      and Hz: "T0 < H (xs ! z)"
    have gt: "T0 < H (xs ! q)" if "z \<le> q" "q < ?c" "valid_slot (xs ! q)" for q
      using lin_okD(3) [OF L that(2,3) _ v] that(1) Hz by (cases "q = z") auto
    have nl: "\<not> valid_slot (xs ! (length xs - 1))" using last lx by (simp add: is_valid_def)
    obtain w where w: "z \<le> w" "w < ?c" "\<not> valid_slot (xs ! w)"
      "\<forall>q. z \<le> q \<and> q < w \<longrightarrow> valid_slot (xs ! q)"
      using first_invalid [OF _ nl, of z] zc lx by auto
    have lz: "length (take z xs) = z" using zc lx by simp
    have "\<exists>bs'. shift_insert ?c ?bs ?cap i ?x i = Some (bs', True) \<and> length bs' = ?c \<and>
        rotate b bs' = take z xs @ ?x # take (w - z) (drop z xs) @ drop (Suc w) xs"
    proof (rule shift_insert_lin [OF b p(2) len])
      show "rotate b ?bs = take z xs @ take (w - z) (drop z xs) @ xs ! w # drop (Suc w) xs"
        using split_at [OF w(1), of xs] w(2) lx by (simp add: xs_def)
    qed (use w p(2) lz lx in \<open>auto simp: in_set_conv_nth\<close>)
    then obtain bs' where bs': "shift_insert ?c ?bs ?cap i ?x i = Some (bs', True)"
      "length bs' = ?c"
      "rotate b bs' = take z xs @ ?x # take (w - z) (drop z xs) @ drop (Suc w) xs" by blast
    have "inserted t b0 (count_insert t bs')"
      by (rule put [OF w bs'(3,2)]) (use gt nk in auto)
    then show ?thesis using p(1) out bs'(1) by (simp add: ih)
  qed
qed

end
