(* ===== verification/Hypertable_Ops.thy ===== *)
theory Hypertable_Ops
  imports Hypertable_Insert
begin

text \<open>
  The table as a finite map (\<open>table_view\<close>) and its invariant (\<open>ht_ok\<close>), kept by every operation:
  lookup reads the map, insertion updates it, removal deletes from it, whatever rebuilds they do on
  the way, and none of them fails an assertion below the capacity limit.  Insertion needs an empty
  slot (\<open>has_room\<close>); the sizing policy leaves one from 256 slots on.
\<close>

section \<open>The invariant of a table\<close>

definition live_prefix :: "hyper_table \<Rightarrow> bucket list" where
  "live_prefix t = take (nat (occupancy t)) (buckets t)"

definition table_view :: "hyper_table \<Rightarrow> u64 \<rightharpoonup> reducer_data" where
  "table_view t = (if icap t < MIN_HT_CAPACITY then entries (live_prefix t) else entries (buckets t))"

definition small_ok :: "hyper_table \<Rightarrow> bool" where
  "small_ok t \<longleftrightarrow> capacity t = 4 \<and> length (buckets t) = 4 \<and> 0 \<le> occupancy t \<and> occupancy t \<le> 4 \<and>
     (\<forall>b\<in>set (live_prefix t). valid_slot b) \<and> distinct (map key (live_prefix t))"

text \<open>Empty slots left over and above the operations counted since the last rebuild.\<close>

definition slack_ok :: "nat \<Rightarrow> hyper_table \<Rightarrow> bool" where
  "slack_ok c t \<longleftrightarrow> (256 \<le> c \<longrightarrow>
     int (nempty (buckets t)) + ins_rm_count t > max 8 (int c div 64))"

definition big_ok :: "hyper_table \<Rightarrow> bool" where
  "big_ok t \<longleftrightarrow> (\<exists>m\<in>{3..27}. unat (capacity t) = 2 ^ m) \<and> table_ok (capacity t) (buckets t) \<and>
     occupancy t = int (nvalid (buckets t)) \<and> slack_ok (unat (capacity t)) t \<and>
     16 * nvalid (buckets t) \<le> 15 * unat (capacity t) + 16"

definition ht_ok :: "hyper_table \<Rightarrow> bool" where
  "ht_ok t \<longleftrightarrow> small_ok t \<or> big_ok t"

definition has_room :: "hyper_table \<Rightarrow> bool" where
  "has_room t \<longleftrightarrow> icap t < MIN_HT_CAPACITY \<or> is_overloaded (occupancy t) (icap t) \<or>
     time_to_rebuild (ins_rm_count t) (icap t) \<or> 256 \<le> icap t \<or> 0 < nempty (buckets t)"

text \<open>Tables that were not removed from since their last rebuild, small tables and tables from 256
  slots on: insertions keep them this way, and they always have room.\<close>

definition keeps_room :: "hyper_table \<Rightarrow> bool" where
  "keeps_room t \<longleftrightarrow> icap t < MIN_HT_CAPACITY \<or> 256 \<le> icap t \<or>
     icap t \<le> int (nempty (buckets t)) + int (nvalid (buckets t)) + icap t div 33"

lemmas sizing_defs = MIN_CAPACITY_def MIN_HT_CAPACITY_def LOAD_FACTOR_CONSTANT_def MAX_CAPACITY_def
  MIN_REBUILD_OP_COUNT_def is_overloaded_def is_underloaded_def time_to_rebuild_def

lemma icap_unat:
  assumes "unat (capacity t) < 2 ^ 31"
  shows "icap t = int (unat (capacity t))"
proof -
  have u: "uint (capacity t) = int (unat (capacity t))" by simp
  then have "uint (capacity t) < 2 ^ 31"
    using assms by (metis of_nat_less_iff of_nat_numeral of_nat_power)
  moreover have "- (2 ^ 31) \<le> uint (capacity t)"
    by (rule order_trans [OF _ unsigned_greater_eq]) simp
  ultimately have "signed_take_bit 31 (uint (capacity t)) = uint (capacity t)"
    by (intro signed_take_bit_int_eq_self)
  moreover have "icap t = signed_take_bit 31 (uint (capacity t))" by (simp add: icap_def sint_uint)
  ultimately show ?thesis using u by metis
qed

lemma pow_le_27: "(m :: nat) \<le> 27 \<Longrightarrow> (2 :: nat) ^ m \<le> 134217728"
  using power_increasing [of m 27 "2 :: nat"] by simp

lemma pow_ge_3: "3 \<le> (m :: nat) \<Longrightarrow> 8 \<le> (2 :: nat) ^ m"
  using power_increasing [of 3 m "2 :: nat"] by simp

lemma icap_pow:
  assumes "unat (capacity t) = 2 ^ m" "m \<le> 27"
  shows "icap t = 2 ^ m"
  using icap_unat [of t] assms pow_le_27 [OF assms(2)] by simp

lemma unat_word_of_pow: "m \<le> 27 \<Longrightarrow> unat (word_of_int (2 ^ m) :: u32) = 2 ^ m"
proof -
  assume m: "m \<le> 27"
  have "(2 :: nat) ^ m < 2 ^ 32" using pow_le_27 [OF m] by simp
  then have "unat (of_nat (2 ^ m) :: u32) = 2 ^ m"
    using m by (simp add: unsigned_of_nat take_bit_nat_eq_self del: of_nat_power)
  then show ?thesis by simp
qed

lemma small_icap: "small_ok t \<Longrightarrow> icap t = 4"
  by (simp add: small_ok_def icap_def)

lemma big_icap:
  assumes "big_ok t"
  obtains m where "3 \<le> m" "m \<le> 27" "unat (capacity t) = 2 ^ m" "icap t = 2 ^ m"
  using assms icap_pow unfolding big_ok_def by auto

section \<open>The new array\<close>

lemma graveyard_facts:
  assumes "0 \<le> i" "i \<le> 32"
  shows "length (graveyard n i) = n" "\<forall>b\<in>set (graveyard n i). \<not> valid_slot b"
    "nempty (graveyard n i) + (n + nat i) div 33 = n"
proof -
  have e: "empty_slot empty_bucket" "\<not> empty_slot (make_tombstone empty_bucket)"
    "\<not> valid_slot empty_bucket" "\<not> valid_slot (make_tombstone empty_bucket)"
    by (simp_all add: empty_bucket_def make_tombstone_def is_empty_def is_valid_def
        is_tombstone_def KEY_EMPTY_def KEY_DELETED_def)
  have "length (graveyard n i) = n \<and> (\<forall>b\<in>set (graveyard n i). \<not> valid_slot b) \<and>
      nempty (graveyard n i) + (n + nat i) div 33 = n"
    using assms
  proof (induction n arbitrary: i)
    case 0
    then show ?case by (simp add: nempty_def)
  next
    case (Suc n)
    show ?case
    proof (cases "i = 32")
      case True
      moreover have "(33 + n) div 33 = Suc (n div 33)" by simp
      ultimately show ?thesis using Suc.IH [of 0] e by (simp add: LOAD_FACTOR_CONSTANT_def nempty_def)
    next
      case False
      have "nat (i + 1) = Suc (nat i)" using Suc.prems by simp
      then show ?thesis using False Suc.IH [of "i + 1"] e Suc.prems
        by (simp add: LOAD_FACTOR_CONSTANT_def nempty_def)
    qed
  qed
  then show "length (graveyard n i) = n" "\<forall>b\<in>set (graveyard n i). \<not> valid_slot b"
    "nempty (graveyard n i) + (n + nat i) div 33 = n" by blast+
qed

lemma no_valid_table:
  assumes "\<forall>b\<in>set bs. \<not> valid_slot b"
  shows "robin bs" "hashes_ok cap bs" "keys_distinct bs" "nvalid bs = 0" "entries bs = Map.empty"
proof -
  have f: "filter valid_slot bs = []" using assms by (simp add: filter_empty_conv)
  show "robin bs" using assms by (simp add: robin_def)
  show "hashes_ok cap bs" using assms by (simp add: hashes_ok_def)
  show "keys_distinct bs" "nvalid bs = 0" "entries bs = Map.empty"
    by (simp_all add: keys_distinct_def nvalid_def entries_def pairs_def f)
qed

lemma fresh_array:
  assumes "3 \<le> m" "m \<le> 27"
  defines "bs \<equiv> bucket_array_create (2 ^ m)"
  shows "table_ok (word_of_int (2 ^ m)) bs" "nvalid bs = 0" "entries bs = Map.empty"
    "nempty bs + 2 ^ m div 33 = 2 ^ m"
proof -
  have "\<not> (2 :: int) ^ m < 8"
    using power_increasing [of 3 m "2 :: int"] assms(1) by simp
  then have b: "bs = graveyard (2 ^ m) 0"
    by (simp add: bs_def bucket_array_create_def MIN_HT_CAPACITY_def nat_power_eq)
  note g = graveyard_facts [of 0 "2 ^ m", folded b]
  show "nvalid bs = 0" "entries bs = Map.empty" using no_valid_table [OF g(2)] by simp_all
  show "nempty bs + 2 ^ m div 33 = 2 ^ m" using g(3) by simp
  show "table_ok (word_of_int (2 ^ m)) bs"
    using no_valid_table [OF g(2)] g(1) unat_word_of_pow [OF assms(2)] by (simp add: table_ok_def)
qed

section \<open>Rebuilding\<close>

lemma entries_Cons: "entries (b # bs) = (if valid_slot b then (entries bs)(key b \<mapsto> data b) else entries bs)"
  by (simp add: entries_def pairs_def)

lemma nvalid_Cons: "nvalid (b # bs) = (if valid_slot b then Suc (nvalid bs) else nvalid bs)"
  by (simp add: nvalid_def)

text \<open>The state of the new table while the old entries go in: \<open>n\<close> is their number in the end.\<close>

definition filling :: "nat \<Rightarrow> nat \<Rightarrow> hyper_table \<Rightarrow> bool" where
  "filling m n t \<longleftrightarrow> unat (capacity t) = 2 ^ m \<and> table_ok (capacity t) (buckets t) \<and>
     occupancy t = int (nvalid (buckets t)) \<and> ins_rm_count t = occupancy t - int n \<and>
     2 ^ m \<le> nempty (buckets t) + nvalid (buckets t) + 2 ^ m div 33"

lemma insert_filling:
  assumes m: "3 \<le> m" "m \<le> 27" and F: "filling m n t"
    and n: "nvalid (buckets t) < n" "16 * n \<le> 15 * 2 ^ m"
    and b: "is_valid (key b)" "entries (buckets t) (key b) = None"
  shows "\<exists>t'. insert_with R t b = Some (t', True) \<and> filling m n t' \<and>
    nvalid (buckets t') = Suc (nvalid (buckets t)) \<and> capacity t' = capacity t \<and>
    entries (buckets t') = (entries (buckets t))(key b \<mapsto> data b)"
proof -
  have cap: "unat (capacity t) = 2 ^ m" and T: "table_ok (capacity t) (buckets t)"
    and occ: "occupancy t = int (nvalid (buckets t))" "ins_rm_count t = occupancy t - int n"
    and sp: "2 ^ m \<le> nempty (buckets t) + nvalid (buckets t) + 2 ^ m div 33"
    using F by (auto simp: filling_def)
  have ic: "icap t = 2 ^ m" by (rule icap_pow [OF cap m(2)])
  have c8: "8 \<le> (2 :: nat) ^ m" using pow_ge_3 [OF m(1)] .
  then have c8i: "8 \<le> (2 :: int) ^ m" by (metis of_nat_le_iff of_nat_numeral of_nat_power)
  have room: "0 < nempty (buckets t)"
  proof -
    define c where "c = (2 :: nat) ^ m"
    have "16 * (nvalid (buckets t)) + 16 \<le> 15 * c" using n unfolding c_def by linarith
    then show ?thesis
      using sp c8 times_div_less_eq_dividend [of 33 c] unfolding c_def [symmetric] by linarith
  qed
  have ov: "\<not> is_overloaded (occupancy t) (icap t)"
  proof -
    have "int (16 * n) \<le> int (15 * 2 ^ m)" using n(2) by (simp only: of_nat_le_iff)
    then have "16 * int (nvalid (buckets t)) \<le> 15 * 2 ^ m" using n(1) by simp
    then have "int (nvalid (buckets t)) \<le> 15 * 2 ^ m div 16" by linarith
    then show ?thesis by (simp add: sizing_defs occ(1) ic)
  qed
  have tr: "\<not> time_to_rebuild (ins_rm_count t) (icap t)"
    using n(1) by (simp add: sizing_defs occ)
  obtain t' where t': "insert_hashed t b = Some (t', True)" "inserted t b t'"
    using insert_hashed_ok [OF T cap room b(1)] by blast
  have "insert_with R t b = Some (t', True)"
    using ov tr c8i t'(1) by (simp add: insert_with_def Let_def ic MIN_HT_CAPACITY_def)
  moreover have "filling m n t'" "nvalid (buckets t') = Suc (nvalid (buckets t))"
    "entries (buckets t') = (entries (buckets t))(key b \<mapsto> data b)" "capacity t' = capacity t"
    using t'(2) b(2) occ cap sp by (auto simp: inserted_def filling_def)
  ultimately show ?thesis by blast
qed

lemma reinsert_big:
  assumes m: "3 \<le> m" "m \<le> 27" and n: "16 * n \<le> 15 * 2 ^ m"
    and F: "filling m n t" and kd: "keys_distinct old"
    and disj: "\<And>k. entries old k \<noteq> None \<Longrightarrow> entries (buckets t) k = None"
    and tot: "nvalid (buckets t) + nvalid old = n"
  shows "\<exists>t'. reinsert (insert_with R) old t = Some t' \<and> filling m n t' \<and>
    nvalid (buckets t') = n \<and> capacity t' = capacity t \<and>
    entries (buckets t') = entries (buckets t) ++ entries old"
  using F kd disj tot
proof (induction old arbitrary: t)
  case Nil
  then show ?case by (simp add: nvalid_def entries_def pairs_def)
next
  case (Cons b old)
  have kd: "keys_distinct old" using Cons.prems(2) by (auto simp: keys_distinct_def split: if_splits)
  show ?case
  proof (cases "valid_slot b")
    case False
    then show ?thesis using Cons.IH [OF Cons.prems(1) kd] Cons.prems(3,4)
      by (simp add: entries_Cons nvalid_Cons)
  next
    case True
    have ab: "entries (buckets t) (key b) = None"
      using Cons.prems(3) [of "key b"] True by (simp add: entries_Cons)
    have "key b \<notin> key ` set (filter valid_slot old)"
      using Cons.prems(2) True by (simp add: keys_distinct_def)
    then have kb: "entries old (key b) = None"
      by (auto simp: entries_None image_iff)
    obtain t1 where t1: "insert_with R t b = Some (t1, True)" "filling m n t1"
      "nvalid (buckets t1) = Suc (nvalid (buckets t))" "capacity t1 = capacity t"
      "entries (buckets t1) = (entries (buckets t))(key b \<mapsto> data b)"
      using insert_filling [OF m Cons.prems(1) _ n True ab, of R] Cons.prems(4) True
      by (auto simp: nvalid_Cons)
    have disj1: "entries (buckets t1) k = None" if "entries old k \<noteq> None" for k
      using Cons.prems(3) [of k] that kb True t1(5) by (auto simp: entries_Cons split: if_splits)
    have "nvalid (buckets t1) + nvalid old = n"
      using Cons.prems(4) t1(3) True by (simp add: nvalid_Cons)
    from Cons.IH [OF t1(2) kd disj1 this] obtain t' where
      t': "reinsert (insert_with R) old t1 = Some t'" "filling m n t'" "nvalid (buckets t') = n"
      "capacity t' = capacity t1" "entries (buckets t') = entries (buckets t1) ++ entries old"
      by blast
    have "entries (buckets t') = entries (buckets t) ++ entries (b # old)"
    proof
      fix k show "entries (buckets t') k = (entries (buckets t) ++ entries (b # old)) k"
        using True kb t1(5) t'(5) by (auto simp: entries_Cons map_add_def split: option.splits)
    qed
    then show ?thesis using True t1 t' by auto
  qed
qed

lemma insert_fuel_Suc: "insert_fuel (Suc n) = insert_with (rebuild_with (insert_fuel n))"
  by (intro ext) simp

lemma rebuild_big:
  assumes m: "3 \<le> m" "m \<le> 27" and n: "16 * nvalid (buckets t) \<le> 15 * 2 ^ m"
    and kd: "keys_distinct (buckets t)" and occ: "occupancy t = int (nvalid (buckets t))"
    and len: "length (buckets t) \<le> nat (icap t)"
  shows "\<exists>t'. rebuild_with (insert_fuel (Suc f)) t (2 ^ m) = Some t' \<and>
    filling m (nvalid (buckets t)) t' \<and> nvalid (buckets t') = nvalid (buckets t) \<and>
    entries (buckets t') = entries (buckets t)"
proof -
  let ?new = "\<lparr>capacity = word_of_int (2 ^ m), occupancy = 0, ins_rm_count = - occupancy t,
    buckets = bucket_array_create (2 ^ m)\<rparr>"
  note fr = fresh_array [OF m]
  have F: "filling m (nvalid (buckets t)) ?new"
    using fr unat_word_of_pow [OF m(2)] occ by (simp add: filling_def)
  have "\<exists>t'. reinsert (insert_fuel (Suc f)) (buckets t) ?new = Some t' \<and>
      filling m (nvalid (buckets t)) t' \<and> nvalid (buckets t') = nvalid (buckets t) \<and>
      capacity t' = capacity ?new \<and>
      entries (buckets t') = entries (buckets ?new) ++ entries (buckets t)"
    unfolding insert_fuel_Suc
    by (rule reinsert_big [OF m n F kd]) (use fr in simp_all)
  then obtain t' where t': "reinsert (insert_fuel (Suc f)) (buckets t) ?new = Some t'"
    "filling m (nvalid (buckets t)) t'" "nvalid (buckets t') = nvalid (buckets t)"
    "entries (buckets t') = entries (buckets t)" using fr by auto
  have le: "(2 :: int) ^ m \<le> MAX_CAPACITY"
    using power_increasing [of m 27 "2 :: int"] m(2) by (simp add: sizing_defs)
  have "occupancy t' = occupancy t" using t'(2,3) occ by (simp add: filling_def)
  then show ?thesis using t' le len by (simp add: rebuild_with_def Let_def)
qed

lemma filling_big_ok:
  assumes m: "3 \<le> m" "m \<le> 27" and F: "filling m n t" "nvalid (buckets t) = n"
    and n: "16 * n \<le> 15 * 2 ^ m"
  shows "big_ok t" "0 < nempty (buckets t)"
proof -
  define c where "c = (2 :: nat) ^ m"
  have c8: "8 \<le> c" using pow_ge_3 [OF m(1)] by (simp add: c_def)
  have sp: "c \<le> nempty (buckets t) + n + c div 33" and cnt: "ins_rm_count t = 0"
    using F by (auto simp: filling_def c_def)
  have d33: "33 * (c div 33) \<le> c" and d64: "64 * (c div 64) \<le> c" by (rule times_div_less_eq_dividend)+
  have n: "16 * n \<le> 15 * c" using n by (simp add: c_def)
  show "0 < nempty (buckets t)" using sp n c8 d33 by linarith
  have "max 8 (int c div 64) < int (nempty (buckets t)) + ins_rm_count t" if "256 \<le> c"
  proof (cases "m = 8")
    case True
    then have "c = 256" by (simp add: c_def)
    then show ?thesis using sp n cnt by simp
  next
    case False
    have "8 < m"
    proof (rule ccontr)
      assume "\<not> 8 < m"
      then have "m \<le> 7" using False by simp
      then have "c \<le> 128" using power_increasing [of m 7 "2 :: nat"] by (simp add: c_def)
      then show False using that by simp
    qed
    then have "512 \<le> c" using power_increasing [of 9 m "2 :: nat"] by (simp add: c_def)
    then have "8 < nempty (buckets t)" "c div 64 < nempty (buckets t)"
      using sp n d33 d64 by linarith+
    then have "int (c div 64) < int (nempty (buckets t))" by simp
    then show ?thesis using \<open>8 < nempty (buckets t)\<close> cnt by (simp add: zdiv_int)
  qed
  then have "slack_ok (unat (capacity t)) t" using F(1) by (simp add: slack_ok_def filling_def c_def)
  moreover have "m \<in> {3..27}" using m by simp
  moreover have "16 * nvalid (buckets t) \<le> 15 * unat (capacity t) + 16"
    using F n unfolding filling_def c_def by linarith
  ultimately show "big_ok t" using F(1) unfolding big_ok_def filling_def by blast
qed

section \<open>Lookup\<close>

lemma entries_at:
  assumes "keys_distinct bs" "i < length bs" "valid_slot (bs ! i)"
  shows "entries bs (key (bs ! i)) = Some (data (bs ! i))"
  using assms by (auto simp: entries_Some)

lemma small_prefix:
  assumes "small_ok t"
  shows "length (live_prefix t) = nat (occupancy t)" "keys_distinct (live_prefix t)"
    "i < nat (occupancy t) \<Longrightarrow> live_prefix t ! i = buckets t ! i"
    "i < nat (occupancy t) \<Longrightarrow> valid_slot (buckets t ! i)"
proof -
  have o: "nat (occupancy t) \<le> length (buckets t)" using assms by (auto simp: small_ok_def)
  show l: "length (live_prefix t) = nat (occupancy t)" using o by (simp add: live_prefix_def)
  have "filter valid_slot (live_prefix t) = live_prefix t"
    using assms by (simp add: small_ok_def filter_id_conv)
  then show "keys_distinct (live_prefix t)" using assms by (simp add: keys_distinct_def small_ok_def)
  show n: "live_prefix t ! i = buckets t ! i" if "i < nat (occupancy t)"
    using that by (simp add: live_prefix_def)
  show "valid_slot (buckets t ! i)" if "i < nat (occupancy t)"
    using assms nth_mem [of i "live_prefix t"] n [OF that] that l by (simp add: small_ok_def)
qed

lemma small_entries:
  assumes "small_ok t"
  shows "entries (live_prefix t) k = Some d \<longleftrightarrow>
      (\<exists>i < nat (occupancy t). key (buckets t ! i) = k \<and> data (buckets t ! i) = d)"
    "entries (live_prefix t) k = None \<longleftrightarrow> (\<forall>i < nat (occupancy t). key (buckets t ! i) \<noteq> k)"
proof -
  note p = small_prefix [OF assms]
  show "entries (live_prefix t) k = Some d \<longleftrightarrow>
      (\<exists>i < nat (occupancy t). key (buckets t ! i) = k \<and> data (buckets t ! i) = d)"
    unfolding entries_Some [OF p(2)] bex_set_nth p(1) using p(3,4) by auto
  have "(\<exists>b\<in>set (live_prefix t). valid_slot b \<and> key b = k) \<longleftrightarrow>
      (\<exists>i < nat (occupancy t). key (buckets t ! i) = k)"
    unfolding bex_set_nth p(1) using p(3,4) by auto
  then show "entries (live_prefix t) k = None \<longleftrightarrow> (\<forall>i < nat (occupancy t). key (buckets t ! i) \<noteq> k)"
    unfolding entries_None by blast
qed

lemma big_table:
  assumes "big_ok t"
  shows "table_ok (capacity t) (buckets t)" "keys_distinct (buckets t)"
    "length (buckets t) = unat (capacity t)" "occupancy t = int (nvalid (buckets t))"
    "\<not> icap t < MIN_HT_CAPACITY" "table_view t = entries (buckets t)"
    "length (buckets t) = nat (icap t)"
proof -
  show T: "table_ok (capacity t) (buckets t)" "occupancy t = int (nvalid (buckets t))"
    using assms by (simp_all add: big_ok_def)
  show l: "length (buckets t) = unat (capacity t)" "keys_distinct (buckets t)"
    using T(1) by (simp_all add: table_ok_def)
  obtain m where m: "3 \<le> m" "unat (capacity t) = 2 ^ m" "icap t = 2 ^ m"
    using big_icap [OF assms] by metis
  show n: "\<not> icap t < MIN_HT_CAPACITY"
    using power_increasing [of 3 m "2 :: int"] m by (simp add: MIN_HT_CAPACITY_def)
  then show "table_view t = entries (buckets t)" by (simp add: table_view_def)
  show "length (buckets t) = nat (icap t)" using l m by (simp add: nat_power_eq)
qed

lemma find_ok:
  assumes "ht_ok t" "is_valid k"
  shows "\<exists>r. find_hyperobject t k = Some r \<and>
    (case r of None \<Rightarrow> table_view t k = None
     | Some i \<Rightarrow> i < length (buckets t) \<and> key (buckets t ! i) = k \<and>
         table_view t k = Some (data (buckets t ! i)))"
proof (cases "small_ok t")
  case True
  have ic: "icap t < MIN_HT_CAPACITY" using small_icap [OF True] by (simp add: MIN_HT_CAPACITY_def)
  have o: "nat (occupancy t) \<le> length (buckets t)" using True by (auto simp: small_ok_def)
  have v: "table_view t = entries (live_prefix t)" using ic by (simp add: table_view_def)
  show ?thesis
    using find_linear_from_spec [of "nat (occupancy t)" "buckets t" k] o
    unfolding v find_hyperobject_def find_hyperobject_linear_def
    by (auto simp: ic small_entries [OF True] split: option.splits)
next
  case False
  then have big: "big_ok t" using assms(1) by (simp add: ht_ok_def)
  note bt = big_table [OF big]
  obtain m where m: "unat (capacity t) = 2 ^ m" using big_icap [OF big] by metis
  have f: "find_hyperobject t k = find_hyperobject_hash t k"
    using bt(5) by (simp add: find_hyperobject_def)
  show ?thesis
  proof (cases "entries (buckets t) k")
    case None
    then show ?thesis using find_hash_miss [OF bt(3) m assms(2)] bt(6) f by simp
  next
    case (Some d)
    then obtain i where i: "i < length (buckets t)" "valid_slot (buckets t ! i)"
      "key (buckets t ! i) = k" "data (buckets t ! i) = d"
      using entries_Some [OF bt(2)] by (metis in_set_conv_nth)
    have "find_hyperobject_hash t k = Some (Some i)"
      by (rule find_hash_hit [OF bt(1) m]) (use i bt(3) in simp_all)
    then show ?thesis using Some i bt(6) f by simp
  qed
qed

section \<open>Insertion\<close>

lemma small_insert_ok:
  assumes t: "small_ok t" and occ: "occupancy t < 4" and b: "is_valid (key b)"
  shows "\<exists>t'. insert_with R t b = Some (t', True) \<and> small_ok t' \<and>
    capacity t' = capacity t \<and>
    occupancy t' = occupancy t + (if table_view t (key b) = None then 1 else 0) \<and>
    table_view t' = (table_view t)(key b \<mapsto> data b)"
proof -
  have ic: "icap t = 4" by (rule small_icap [OF t])
  let ?n = "nat (occupancy t)" let ?bs = "buckets t"
  have len: "length ?bs = 4" and o: "0 \<le> occupancy t" "?n < 4" using t occ by (auto simp: small_ok_def)
  have v: "table_view t = entries (live_prefix t)" by (simp add: table_view_def ic MIN_HT_CAPACITY_def)
  note pre = small_prefix [OF t]
  show ?thesis
  proof (cases "find_forward ?bs (key b) 0 ?n")
    case None
    then have ab: "\<forall>l < ?n. key (?bs ! l) \<noteq> key b"
      using find_forward_spec [of 0 ?n ?bs "key b"] by simp
    let ?t = "t\<lparr>buckets := ?bs[?n := b], occupancy := occupancy t + 1\<rparr>"
    have n1: "nat (occupancy t + 1) = Suc ?n" using o by simp
    have lp: "live_prefix ?t = live_prefix t @ [b]"
      using o len by (simp add: live_prefix_def n1 take_Suc_conv_app_nth)
    have dk: "key b \<notin> key ` set (live_prefix t)"
      using ab pre(1,3) by (metis (no_types) imageE in_set_conv_nth)
    have ok: "small_ok ?t"
      using t b dk o unfolding small_ok_def lp by auto
    have tv: "table_view ?t = entries (live_prefix ?t)"
      using small_icap [OF ok] by (simp add: table_view_def MIN_HT_CAPACITY_def)
    have nn: "entries (live_prefix t) (key b) = None"
      using ab by (simp add: small_entries [OF t])
    have "entries (live_prefix ?t) = (entries (live_prefix t))(key b \<mapsto> data b)"
      by (rule entries_insert [OF _ pre(2) nn]) (use b in \<open>simp add: lp\<close>)
    then show ?thesis using None ok tv v nn ic occ
      by (simp add: insert_with_def Let_def MIN_HT_CAPACITY_def)
  next
    case (Some i)
    then have i: "i < ?n" "key (?bs ! i) = key b"
      using find_forward_spec [of 0 ?n ?bs "key b"] by auto
    let ?t = "t\<lparr>buckets := ?bs[i := b]\<rparr>"
    have lp: "live_prefix ?t = (live_prefix t)[i := b]"
      by (simp add: live_prefix_def take_update_swap)
    have mk: "map key ((live_prefix t)[i := b]) = map key (live_prefix t)"
      using i pre(1,3) by (metis list_update_id map_update)
    have ok: "small_ok ?t"
      unfolding small_ok_def lp mk
      using t b by (auto simp: small_ok_def dest!: set_update_subset_insert [THEN subsetD])
    have tv: "table_view ?t = entries (live_prefix ?t)"
      using small_icap [OF ok] by (simp add: table_view_def MIN_HT_CAPACITY_def)
    have at: "?t = t\<lparr>buckets := ?bs[i := b]\<rparr>" by simp
    have nn: "entries (live_prefix t) (key b) \<noteq> None"
      using i unfolding small_entries [OF t] by auto
    have "entries (live_prefix ?t) k = Some d \<longleftrightarrow>
        ((entries (live_prefix t))(key b \<mapsto> data b)) k = Some d" for k d
    proof -
      have inj: "l = i" if "l < ?n" "key (?bs ! l) = key b" for l
        using keys_distinct_nth [OF pre(2), of l i] that i b by (simp add: pre)
      have "entries (live_prefix ?t) k = Some d \<longleftrightarrow>
          (\<exists>l < ?n. key (?bs[i := b] ! l) = k \<and> data (?bs[i := b] ! l) = d)"
        using small_entries(1) [OF ok] by simp
      also have "\<dots> \<longleftrightarrow> (if k = key b then d = data b else entries (live_prefix t) k = Some d)"
      proof (cases "k = key b")
        case True
        have at: "?bs[i := b] ! i = b" using i(1) o len by simp
        have only: "l = i" if "l < ?n" "key (?bs[i := b] ! l) = key b" for l
          using that inj [of l] nth_list_update_neq [of i l ?bs b] by metis
        show ?thesis
        proof
          assume "\<exists>l < ?n. key (?bs[i := b] ! l) = k \<and> data (?bs[i := b] ! l) = d"
          then obtain l where l: "l < ?n" "key (?bs[i := b] ! l) = k" "data (?bs[i := b] ! l) = d"
            by blast
          have "l = i" by (rule only [OF l(1)]) (use l(2) True in simp)
          then have "d = data b" using l(3) at by simp
          then show "if k = key b then d = data b else entries (live_prefix t) k = Some d"
            using True by simp
        next
          assume "if k = key b then d = data b else entries (live_prefix t) k = Some d"
          then show "\<exists>l < ?n. key (?bs[i := b] ! l) = k \<and> data (?bs[i := b] ! l) = d"
            using at True i(1) by (intro exI [of _ i]) simp
        qed
      next
        case False
        then have "(key (?bs[i := b] ! l) = k \<and> data (?bs[i := b] ! l) = d) \<longleftrightarrow>
            (key (?bs ! l) = k \<and> data (?bs ! l) = d)" for l
          using i o len by (cases "l = i") auto
        then show ?thesis using False by (simp add: small_entries(1) [OF t])
      qed
      finally show ?thesis by auto
    qed
    then have "entries (live_prefix ?t) = (entries (live_prefix t))(key b \<mapsto> data b)"
      by (intro ext) (metis option.exhaust)
    then show ?thesis using Some ok tv v nn ic occ
      by (simp add: insert_with_def Let_def MIN_HT_CAPACITY_def)
  qed
qed

text \<open>The rebuilds before the probe leave an array with room and the same contents.\<close>

lemma int_le_pow: "16 * n \<le> 15 * (2 :: nat) ^ m \<longleftrightarrow> 16 * int n \<le> 15 * 2 ^ m"
proof -
  have "16 * n \<le> 15 * (2 :: nat) ^ m \<longleftrightarrow> int (16 * n) \<le> int (15 * 2 ^ m)" by (simp only: of_nat_le_iff)
  then show ?thesis by simp
qed

lemma not_overloaded: "\<not> is_overloaded (int n) (2 ^ m) \<longleftrightarrow> 16 * n \<le> 15 * 2 ^ m"
  unfolding int_le_pow by (simp add: sizing_defs) linarith

definition roomy :: "hyper_table \<Rightarrow> hyper_table \<Rightarrow> bool" where
  "roomy t t' \<longleftrightarrow> big_ok t' \<and> 0 < nempty (buckets t') \<and>
     16 * nvalid (buckets t') \<le> 15 * unat (capacity t') \<and>
     occupancy t' = occupancy t \<and> icap t' \<le> max (icap t) (max 8 (3 * occupancy t)) \<and>
     (keeps_room t \<longrightarrow> keeps_room t') \<and>
     entries (buckets t') = entries (buckets t)"

lemma rebuild_roomy:
  assumes m: "3 \<le> m" "m \<le> 27" and n: "16 * nvalid (buckets t) \<le> 15 * 2 ^ m"
    and kd: "keys_distinct (buckets t)" and occ: "occupancy t = int (nvalid (buckets t))"
    and len: "length (buckets t) \<le> nat (icap t)"
    and gr: "2 ^ m \<le> max (icap t) (max 8 (3 * occupancy t))"
  shows "\<exists>t'. rebuild_with (insert_fuel (Suc f)) t (2 ^ m) = Some t' \<and> roomy t t' \<and>
    occupancy t' = occupancy t \<and> ins_rm_count t' = 0 \<and> icap t' = 2 ^ m"
proof -
  obtain t' where t': "rebuild_with (insert_fuel (Suc f)) t (2 ^ m) = Some t'"
    "filling m (nvalid (buckets t)) t'" "nvalid (buckets t') = nvalid (buckets t)"
    "entries (buckets t') = entries (buckets t)"
    using rebuild_big [OF m n kd occ len] by blast
  have ic: "icap t' = 2 ^ m" using t'(2) m by (intro icap_pow) (simp_all add: filling_def)
  have "keeps_room t'"
  proof -
    have "int (2 ^ m) \<le> int (nempty (buckets t') + nvalid (buckets t') + 2 ^ m div 33)"
      using t'(2) unfolding filling_def by (simp only: of_nat_le_iff)
    then show ?thesis by (simp add: keeps_room_def ic zdiv_int)
  qed
  then have "roomy t t'"
    using filling_big_ok [OF m t'(2,3) n] t' n occ gr ic by (simp add: roomy_def filling_def)
  moreover note ic
  moreover have "occupancy t' = occupancy t" "ins_rm_count t' = 0"
    using t'(2,3) occ by (simp_all add: filling_def)
  ultimately show ?thesis using t'(1) by blast
qed

lemma roomy_insert:
  assumes "roomy t t1" "is_valid (key b)"
  shows "\<exists>t'. insert_hashed t1 b = Some (t', True) \<and> big_ok t' \<and>
    entries (buckets t') = (entries (buckets t))(key b \<mapsto> data b) \<and>
    occupancy t' = occupancy t + (if entries (buckets t) (key b) = None then 1 else 0) \<and>
    (keeps_room t \<longrightarrow> keeps_room t') \<and> icap t' \<le> max (icap t) (max 8 (3 * occupancy t))"
proof -
  have big: "big_ok t1" and r: "0 < nempty (buckets t1)"
    and e: "entries (buckets t1) = entries (buckets t)" using assms(1) by (simp_all add: roomy_def)
  obtain m where m: "unat (capacity t1) = 2 ^ m" using big_icap [OF big] by metis
  obtain t' where t': "insert_hashed t1 b = Some (t', True)" "inserted t1 b t'"
    using insert_hashed_ok [OF big_table(1) [OF big] m r assms(2)] by blast
  have "big_ok t'"
    using big t'(2) assms(1) unfolding big_ok_def inserted_def slack_ok_def roomy_def
    by (auto split: if_splits)
  moreover have ic: "icap t' = icap t1" using t'(2) by (simp add: inserted_def icap_def)
  moreover have "keeps_room t \<longrightarrow> keeps_room t'"
    using t'(2) assms(1) ic by (auto simp: roomy_def keeps_room_def inserted_def split: if_splits)
  moreover have "occupancy t' = occupancy t + (if entries (buckets t) (key b) = None then 1 else 0)"
    using t'(2) assms(1) by (auto simp: roomy_def inserted_def)
  ultimately show ?thesis using t' e assms(1) by (auto simp: inserted_def roomy_def)
qed

lemma nvalid_le_length: "nvalid bs \<le> length bs"
  by (simp add: nvalid_def)

lemma pow_Suc_int: "2 ^ m * 2 = (2 :: int) ^ Suc m"
  by simp

lemma insert_ok:
  assumes t: "ht_ok t" and room: "has_room t" and b: "is_valid (key b)"
    and cap: "icap t < 2 ^ 27"
  shows "\<exists>t'. insert_hyperobject t b = Some (t', True) \<and> ht_ok t' \<and>
    table_view t' = (table_view t)(key b \<mapsto> data b) \<and>
    occupancy t' = occupancy t + (if table_view t (key b) = None then 1 else 0) \<and>
    (keeps_room t \<longrightarrow> keeps_room t') \<and> icap t' \<le> max (icap t) (max 8 (3 * occupancy t))"
proof (cases "small_ok t")
  case small: True
  have ic: "icap t = 4" by (rule small_icap [OF small])
  show ?thesis
  proof (cases "occupancy t < 4")
    case True
    have "icap t' = 4" if "capacity t' = capacity t" for t' using that ic by (simp add: icap_def)
    then show ?thesis
      using small_insert_ok [OF small True b, of "rebuild_with (insert_fuel 1)"]
      by (force simp: insert_hyperobject_def ht_ok_def numeral_2_eq_2 keeps_room_def MIN_HT_CAPACITY_def)
  next
    case False
    then have o: "occupancy t = 4" and l: "length (buckets t) = 4" using small by (auto simp: small_ok_def)
    then have lp: "live_prefix t = buckets t" by (simp add: live_prefix_def)
    then have fv: "filter valid_slot (buckets t) = buckets t"
      using small by (simp add: small_ok_def filter_id_conv)
    have kd: "keys_distinct (buckets t)" using small_prefix(2) [OF small] lp by simp
    have nv: "nvalid (buckets t) = 4" using fv l by (simp add: nvalid_def)
    obtain t1 where t1: "rebuild_with (insert_fuel 1) t (2 ^ 3) = Some t1" "roomy t t1"
      "occupancy t1 = 4" "ins_rm_count t1 = 0" "icap t1 = 2 ^ 3"
      using rebuild_roomy [of 3 t 0] kd nv l o ic by auto
    obtain t' where t': "insert_hashed t1 b = Some (t', True)" "big_ok t'"
      "entries (buckets t') = (entries (buckets t))(key b \<mapsto> data b)"
      "occupancy t' = occupancy t + (if entries (buckets t) (key b) = None then 1 else 0)"
      "keeps_room t \<longrightarrow> keeps_room t'" "icap t' \<le> max (icap t) (max 8 (3 * occupancy t))"
      using roomy_insert [OF t1(2) b] by blast
    have "insert_hyperobject t b = Some (t', True)"
      using t1 t'(1) o ic
      by (simp add: insert_hyperobject_def numeral_2_eq_2 insert_with_def Let_def sizing_defs)
    then show ?thesis
      using t'(2-6) big_table(6) [OF t'(2)] ic lp
      by (auto simp: ht_ok_def table_view_def MIN_HT_CAPACITY_def)
  qed
next
  case False
  then have big: "big_ok t" using t by (simp add: ht_ok_def)
  note bt = big_table [OF big]
  obtain m where m: "3 \<le> m" "m \<le> 27" "unat (capacity t) = 2 ^ m" "icap t = 2 ^ m"
    using big_icap [OF big] by metis
  have m26: "m < 27"
  proof (rule ccontr)
    assume "\<not> m < 27"
    then have "(2 :: int) ^ 27 \<le> 2 ^ m" by (intro power_increasing) simp_all
    then show False using cap m(4) by simp
  qed
  let ?n = "nvalid (buckets t)"
  have len: "length (buckets t) \<le> nat (icap t)" using bt(7) by simp
  have n2: "?n \<le> 2 ^ m" using nvalid_le_length [of "buckets t"] bt(3) m(3) by simp
  have "\<exists>t1. (if is_overloaded (occupancy t) (2 ^ m) then rebuild_with (insert_fuel 1) t (2 ^ m * 2)
      else if time_to_rebuild (ins_rm_count t) (2 ^ m) then rebuild_with (insert_fuel 1) t (2 ^ m)
      else Some t) = Some t1 \<and> roomy t t1"
  proof (cases "is_overloaded (occupancy t) (2 ^ m)")
    case True
    have n2': "16 * ?n \<le> 15 * 2 ^ Suc m" using n2 by simp
    have g: "2 ^ Suc m \<le> max (icap t) (max 8 (3 * occupancy t))"
      using True by (simp add: sizing_defs)
    show ?thesis
      using rebuild_roomy [OF _ _ n2' bt(2,4) len g, of 0] True m m26 unfolding pow_Suc_int by auto
  next
    case no: False
    have le: "16 * ?n \<le> 15 * 2 ^ m" using no not_overloaded [of ?n m] bt(4) by simp
    show ?thesis
    proof (cases "time_to_rebuild (ins_rm_count t) (2 ^ m)")
      case True
      then show ?thesis using rebuild_roomy [OF m(1,2) le bt(2,4) len, of 0] no m(4) by auto
    next
      case False
      have "0 < nempty (buckets t)"
      proof (cases "256 \<le> (2 :: nat) ^ m")
        case True
        then have "int (nempty (buckets t)) + ins_rm_count t > max 8 (2 ^ m div 64)"
          using big m(3) by (simp add: big_ok_def slack_ok_def)
        then show ?thesis using False by (auto simp: sizing_defs)
      next
        case small: False
        have "\<not> 256 \<le> icap t"
        proof -
          have "int (2 ^ m) < int 256" using small by (simp only: of_nat_less_iff not_le)
          then show ?thesis using m(4) by simp
        qed
        then show ?thesis using room no False bt(5) m(4) by (simp add: has_room_def)
      qed
      then show ?thesis using no False big le m(3) by (simp add: roomy_def)
    qed
  qed
  then obtain t1 where t1: "(if is_overloaded (occupancy t) (2 ^ m)
      then rebuild_with (insert_fuel 1) t (2 ^ m * 2)
      else if time_to_rebuild (ins_rm_count t) (2 ^ m) then rebuild_with (insert_fuel 1) t (2 ^ m)
      else Some t) = Some t1" "roomy t t1" by blast
  obtain t' where t': "insert_hashed t1 b = Some (t', True)" "big_ok t'"
    "entries (buckets t') = (entries (buckets t))(key b \<mapsto> data b)"
    "occupancy t' = occupancy t + (if entries (buckets t) (key b) = None then 1 else 0)"
    "keeps_room t \<longrightarrow> keeps_room t'" "icap t' \<le> max (icap t) (max 8 (3 * occupancy t))"
    using roomy_insert [OF t1(2) b] by blast
  have "insert_hyperobject t b = Some (t', True)"
    using t1(1) t'(1) bt(5) m(4)
    by (auto simp: insert_hyperobject_def numeral_2_eq_2 insert_with_def Let_def split: if_splits)
  then show ?thesis
    using t'(2-6) big_table(6) [OF t'(2)] bt(6) by (auto simp: ht_ok_def)
qed

lemma keeps_room_has_room:
  assumes "ht_ok t" "keeps_room t"
  shows "has_room t"
proof (cases "icap t < MIN_HT_CAPACITY \<or> 256 \<le> icap t \<or> is_overloaded (occupancy t) (icap t)")
  case True
  then show ?thesis by (auto simp: has_room_def)
next
  case False
  then have big: "big_ok t" using assms(1) small_icap [of t] by (auto simp: ht_ok_def MIN_HT_CAPACITY_def)
  note bt = big_table [OF big]
  have "int (nvalid (buckets t)) \<le> 15 * icap t div 16"
    using False bt(4) by (simp add: sizing_defs)
  moreover have "icap t \<le> int (nempty (buckets t)) + int (nvalid (buckets t)) + icap t div 33"
    using assms(2) False by (simp add: keeps_room_def)
  moreover have "8 \<le> icap t" using False by (simp add: MIN_HT_CAPACITY_def)
  ultimately have "0 < nempty (buckets t)" by linarith
  then show ?thesis by (simp add: has_room_def)
qed

section \<open>Removal\<close>

lemma tombstone_facts:
  "\<not> valid_slot (make_tombstone b)" "\<not> empty_slot (make_tombstone b)"
  by (simp_all add: make_tombstone_def is_valid_def is_empty_def is_tombstone_def
      KEY_EMPTY_def KEY_DELETED_def)

lemma robin_invalidate:
  assumes R: "robin bs" and e: "\<not> valid_slot e" "\<not> empty_slot e"
  shows "robin (bs[i := e])"
  unfolding robin_def Let_def
proof (intro allI impI conjI)
  let ?bs = "bs[i := e]"
  fix p assume p: "p < length ?bs" and v: "valid_slot (?bs ! p)"
  have p1: "p < length bs" using p by simp
  then have "p \<noteq> i" using v e by auto
  then have x: "?bs ! p = bs ! p" and v1: "valid_slot (bs ! p)" using v by simp_all
  show "home (?bs ! p) < length ?bs" using robinD(1) [OF R p1 v1] x by simp
  fix d assume d: "d < disp (length ?bs) (home (?bs ! p)) p"
  let ?q = "(home (?bs ! p) + d) mod length ?bs"
  have "0 < length bs" using p1 by linarith
  then have q: "?q < length bs" by simp
  have D: "\<not> empty_slot (bs ! ?q) \<and>
      (valid_slot (bs ! ?q) \<longrightarrow> d \<le> disp (length bs) (home (bs ! ?q)) ?q)"
    by (rule robinD(2) [OF R p1 v1]) (use d x in simp_all)
  show "\<not> empty_slot (?bs ! ?q)" using D e q by (cases "?q = i") simp_all
  assume vq: "valid_slot (?bs ! ?q)"
  then have "?q \<noteq> i" using e(1) q by auto
  then show "d \<le> disp (length ?bs) (home (?bs ! ?q)) ?q" using D vq by simp
qed

lemma entries_delete:
  assumes mv: "mset (filter valid_slot bs) = add_mset b (mset (filter valid_slot bs'))"
    and kd: "keys_distinct bs"
  shows "keys_distinct bs'" "entries bs' = (entries bs)(key b := None)"
proof -
  have m: "mset (filter valid_slot bs) = mset (filter valid_slot (b # bs'))"
  proof -
    have "b \<in># add_mset b (mset (filter valid_slot bs'))" by simp
    then have "b \<in># mset (filter valid_slot bs)" by (simp only: mv)
    then show ?thesis using mv by simp
  qed
  have d: "keys_distinct (b # bs')" using m kd keys_distinct_mset by blast
  have v: "valid_slot b"
    using mv m by (metis (no_types, lifting) filter.simps(2) mset.simps(2) multi_self_add_other_not_self)
  show "keys_distinct bs'" using d v by (simp add: keys_distinct_def)
  have "key b \<notin> key ` set (filter valid_slot bs')" using d v by (simp add: keys_distinct_def)
  then have nb: "entries bs' (key b) = None" by (auto simp: entries_None image_iff)
  have "entries bs = entries (b # bs')" using m kd by (rule entries_cong_mset)
  then show "entries bs' = (entries bs)(key b := None)"
    using v nb by (auto simp: entries_Cons)
qed

lemma array_delete:
  assumes T: "table_ok cap bs" and i: "i < length bs" "valid_slot (bs ! i)"
  defines "bs' \<equiv> bs[i := make_tombstone (bs ! i)]"
  shows "table_ok cap bs'" "entries bs' = (entries bs)(key (bs ! i) := None)"
    "Suc (nvalid bs') = nvalid bs" "nempty bs' = nempty bs"
proof -
  have mv: "mset (filter valid_slot bs) = add_mset (bs ! i) (mset (filter valid_slot bs'))"
    using mset_filter_update [OF i(1), of valid_slot "make_tombstone (bs ! i)"] i tombstone_facts
    by (simp add: bs'_def)
  have kd: "keys_distinct bs" using T by (simp add: table_ok_def)
  note ent = entries_delete [OF mv kd]
  show "entries bs' = (entries bs)(key (bs ! i) := None)" by (rule ent(2))
  show "Suc (nvalid bs') = nvalid bs"
    using length_filter_update [OF i(1), of valid_slot "make_tombstone (bs ! i)"] i(2) tombstone_facts
    by (simp add: bs'_def nvalid_def)
  show "nempty bs' = nempty bs"
    using length_filter_update [OF i(1), of empty_slot "make_tombstone (bs ! i)"] i(2) tombstone_facts
    by (simp add: bs'_def nempty_def valid_not_empty)
  have "hashes_ok cap bs'"
    using T tombstone_facts unfolding table_ok_def hashes_ok_def bs'_def
    by (auto dest!: set_update_subset_insert [THEN subsetD])
  moreover have "robin bs'"
    using T tombstone_facts unfolding table_ok_def bs'_def by (blast intro: robin_invalidate)
  ultimately show "table_ok cap bs'" using T ent(1) by (simp add: table_ok_def bs'_def)
qed

lemma keys_distinct_all_valid:
  "\<forall>b\<in>set bs. valid_slot b \<Longrightarrow> keys_distinct bs \<longleftrightarrow> distinct (map key bs)"
  by (simp add: keys_distinct_def filter_True)

lemma small_view: "small_ok t \<Longrightarrow> table_view t = entries (live_prefix t)"
  using small_icap [of t] by (simp add: table_view_def MIN_HT_CAPACITY_def)

lemma small_shrink:
  assumes t: "small_ok t" and i: "i < nat (occupancy t)"
    and c: "capacity t' = capacity t" "length (buckets t') = 4" "occupancy t' = occupancy t - 1"
    and m: "mset (live_prefix t) = add_mset (buckets t ! i) (mset (live_prefix t'))"
  shows "small_ok t' \<and> table_view t' = (table_view t)(key (buckets t ! i) := None)"
proof -
  have v: "\<forall>b\<in>set (live_prefix t). valid_slot b" using t by (simp add: small_ok_def)
  have sub: "set (live_prefix t') \<subseteq> set (live_prefix t)"
  proof
    fix x assume "x \<in> set (live_prefix t')"
    then have "x \<in># add_mset (buckets t ! i) (mset (live_prefix t'))" by simp
    then have "x \<in># mset (live_prefix t)" by (simp only: m)
    then show "x \<in> set (live_prefix t)" by simp
  qed
  then have v': "\<forall>b\<in>set (live_prefix t'). valid_slot b" using v by blast
  have mv: "mset (filter valid_slot (live_prefix t)) =
      add_mset (buckets t ! i) (mset (filter valid_slot (live_prefix t')))"
    using v v' m by (simp only: filter_True)
  note ed = entries_delete [OF mv small_prefix(2) [OF t]]
  have "small_ok t'"
    using t i c v' ed(1) by (auto simp: small_ok_def keys_distinct_all_valid)
  then show ?thesis using ed(2) small_view t by simp
qed

lemma find_forward_SomeD:
  "find_forward bs k 0 n = Some i \<Longrightarrow> i < n \<and> key (bs ! i) = k"
  using find_forward_spec [of 0 n bs k] by simp

lemma find_forward_NoneD:
  "find_forward bs k 0 n = None \<Longrightarrow> l < n \<Longrightarrow> key (bs ! l) \<noteq> k"
  using find_forward_spec [of 0 n bs k] by simp

lemma small_remove_ok:
  assumes t: "small_ok t"
  shows "\<exists>t'. remove_hyperobject t k = Some (t', table_view t k \<noteq> None) \<and> small_ok t' \<and>
    table_view t' = (table_view t)(k := None)"
proof -
  let ?n = "nat (occupancy t)" let ?bs = "buckets t"
  have ic: "icap t < MIN_HT_CAPACITY" using small_icap [OF t] by (simp add: MIN_HT_CAPACITY_def)
  have len: "length ?bs = 4" and n4: "?n \<le> 4" and o0: "0 \<le> occupancy t" using t by (auto simp: small_ok_def)
  show ?thesis
  proof (cases "find_forward ?bs k 0 ?n")
    case None
    then have "table_view t k = None"
      using find_forward_NoneD small_view [OF t] small_entries(2) [OF t] by metis
    then show ?thesis using None ic t by (auto simp: remove_hyperobject_def Let_def fun_upd_idem)
  next
    case (Some i)
    then have i: "i < ?n" "key (?bs ! i) = k" using find_forward_SomeD by blast+
    obtain n' where n': "?n = Suc n'" using i(1) by (cases ?n) auto
    have o1: "nat (occupancy t - 1) = n'" using n' o0 by simp
    let ?t = "t\<lparr>buckets := (if i = ?n - 1 then ?bs[i := (?bs ! i)\<lparr>key := KEY_EMPTY\<rparr>]
        else ?bs[i := ?bs ! (?n - 1)]), occupancy := occupancy t - 1\<rparr>"
    have lt: "live_prefix t = take n' ?bs @ [?bs ! n']"
      using n' n4 len by (simp add: live_prefix_def take_Suc_conv_app_nth)
    have "mset (live_prefix t) = add_mset (?bs ! i) (mset (live_prefix ?t))"
    proof (cases "i = n'")
      case True
      then show ?thesis using lt by (simp add: live_prefix_def o1 n')
    next
      case False
      then have "i < n'" using i(1) n' by simp
      then have "i < length (take n' ?bs)" "take n' ?bs ! i = ?bs ! i" "?bs ! i \<in> set (take n' ?bs)"
        using n' n4 len by (auto simp: in_set_conv_nth)
      then show ?thesis using lt False
        by (simp add: live_prefix_def o1 n' take_update_swap mset_update insert_DiffM2)
    qed
    then have "small_ok ?t \<and> table_view ?t = (table_view t)(key (?bs ! i) := None)"
      using len by (intro small_shrink [OF t i(1)]) simp_all
    moreover have "table_view t k \<noteq> None"
      unfolding small_view [OF t] small_entries(2) [OF t] using i by auto
    moreover have "remove_hyperobject t k = Some (?t, True)"
      using Some ic by (simp add: remove_hyperobject_def Let_def)
    ultimately show ?thesis using i(2) by (metis (mono_tags, lifting))
  qed
qed

lemma reinsert_small:
  assumes t: "small_ok t" and kd: "keys_distinct old"
    and disj: "\<And>k. entries old k \<noteq> None \<Longrightarrow> table_view t k = None"
    and tot: "occupancy t + int (nvalid old) \<le> 4"
  shows "\<exists>t'. reinsert (insert_with R) old t = Some t' \<and> small_ok t' \<and>
    occupancy t' = occupancy t + int (nvalid old) \<and>
    table_view t' = table_view t ++ entries old"
  using assms
proof (induction old arbitrary: t)
  case Nil
  then show ?case by (simp add: nvalid_def entries_def pairs_def)
next
  case (Cons b old)
  have kd: "keys_distinct old" using Cons.prems(2) by (auto simp: keys_distinct_def split: if_splits)
  show ?case
  proof (cases "valid_slot b")
    case False
    then show ?thesis using Cons.IH [OF Cons.prems(1) kd] Cons.prems(3,4)
      by (simp add: entries_Cons nvalid_Cons)
  next
    case True
    have ab: "table_view t (key b) = None"
      using Cons.prems(3) [of "key b"] True by (simp add: entries_Cons)
    have "key b \<notin> key ` set (filter valid_slot old)"
      using Cons.prems(2) True by (simp add: keys_distinct_def)
    then have kb: "entries old (key b) = None" by (auto simp: entries_None image_iff)
    have "occupancy t < 4" using Cons.prems(4) True by (simp add: nvalid_Cons)
    from small_insert_ok [OF Cons.prems(1) this True, of R] ab obtain t1 where
      t1: "insert_with R t b = Some (t1, True)" "small_ok t1" "occupancy t1 = occupancy t + 1"
        "table_view t1 = (table_view t)(key b \<mapsto> data b)"
      by auto
    have disj1: "table_view t1 k = None" if "entries old k \<noteq> None" for k
      using Cons.prems(3) [of k] that kb True t1(4) by (auto simp: entries_Cons split: if_splits)
    have "occupancy t1 + int (nvalid old) \<le> 4" using Cons.prems(4) True t1(3) by (simp add: nvalid_Cons)
    from Cons.IH [OF t1(2) kd disj1 this] obtain t' where
      t': "reinsert (insert_with R) old t1 = Some t'" "small_ok t'"
        "occupancy t' = occupancy t1 + int (nvalid old)"
        "table_view t' = table_view t1 ++ entries old" by blast
    have "table_view t' = table_view t ++ entries (b # old)"
    proof
      fix k show "table_view t' k = (table_view t ++ entries (b # old)) k"
        using True kb t1(4) t'(4) by (auto simp: entries_Cons map_add_def split: option.splits)
    qed
    then show ?thesis using True t1 t' by (auto simp: nvalid_Cons)
  qed
qed

lemma rebuild_small:
  assumes kd: "keys_distinct (buckets t)" and occ: "occupancy t = int (nvalid (buckets t))"
    and n: "nvalid (buckets t) \<le> 4" and len: "length (buckets t) \<le> nat (icap t)"
  shows "\<exists>t'. rebuild_with (insert_fuel (Suc f)) t 4 = Some t' \<and> small_ok t' \<and>
    table_view t' = entries (buckets t)"
proof -
  let ?new = "\<lparr>capacity = word_of_int 4, occupancy = 0, ins_rm_count = - occupancy t,
    buckets = bucket_array_create 4\<rparr>"
  have ok: "small_ok ?new"
    by (simp add: small_ok_def live_prefix_def bucket_array_create_def MIN_HT_CAPACITY_def)
  have v: "table_view ?new = Map.empty"
    using small_view [OF ok] by (simp add: live_prefix_def entries_def pairs_def)
  obtain t' where t': "reinsert (insert_fuel (Suc f)) (buckets t) ?new = Some t'" "small_ok t'"
    "occupancy t' = int (nvalid (buckets t))" "table_view t' = entries (buckets t)"
    unfolding insert_fuel_Suc using reinsert_small [OF ok kd] v n by auto
  then show ?thesis using occ len by (auto simp: rebuild_with_def Let_def sizing_defs)
qed

lemma remove_ok:
  assumes t: "ht_ok t" and k: "is_valid k"
  shows "\<exists>t'. remove_hyperobject t k = Some (t', table_view t k \<noteq> None) \<and> ht_ok t' \<and>
    table_view t' = (table_view t)(k := None)"
proof (cases "small_ok t")
  case True
  then show ?thesis using small_remove_ok [OF True, of k] by (auto simp: ht_ok_def)
next
  case False
  then have big: "big_ok t" using t by (simp add: ht_ok_def)
  note bt = big_table [OF big]
  obtain m where m: "3 \<le> m" "m \<le> 27" "unat (capacity t) = 2 ^ m" "icap t = 2 ^ m"
    using big_icap [OF big] by metis
  obtain r where r: "find_hyperobject t k = Some r" "case r of None \<Rightarrow> table_view t k = None
     | Some i \<Rightarrow> i < length (buckets t) \<and> key (buckets t ! i) = k \<and>
         table_view t k = Some (data (buckets t ! i))"
    using find_ok [OF t k] by blast
  show ?thesis
  proof (cases r)
    case None
    then show ?thesis using r t bt(5) by (auto simp: remove_hyperobject_def fun_upd_idem)
  next
    case (Some i)
    then have i: "i < length (buckets t)" "key (buckets t ! i) = k" "table_view t k \<noteq> None"
      using r(2) by auto
    have vi: "valid_slot (buckets t ! i)" using i(2) k by simp
    let ?bs = "(buckets t)[i := make_tombstone (buckets t ! i)]"
    let ?t = "t\<lparr>buckets := ?bs, occupancy := occupancy t - 1, ins_rm_count := ins_rm_count t + 1\<rparr>"
    note ad = array_delete [OF bt(1) i(1) vi]
    have big1: "big_ok ?t"
      using big ad bt(4) by (auto simp: big_ok_def slack_ok_def)
    note bt1 = big_table [OF big1]
    have ic1: "icap ?t = 2 ^ m" using m(4) by (simp add: icap_def)
    have e1: "entries (buckets ?t) = (table_view t)(k := None)" using ad(2) i(2) bt(6) by simp
    let ?n = "nvalid (buckets ?t)"
    have len1: "length (buckets ?t) \<le> nat (icap ?t)" using bt1(7) by simp
    have "\<exists>t2. (if is_underloaded (occupancy ?t) (icap ?t) then rebuild ?t (icap ?t div 2)
        else if time_to_rebuild (ins_rm_count ?t) (icap ?t) then rebuild ?t (icap ?t)
        else Some ?t) = Some t2 \<and> ht_ok t2 \<and> table_view t2 = (table_view t)(k := None)"
    proof (cases "is_underloaded (occupancy ?t) (icap ?t)")
      case True
      have n: "16 * int ?n \<le> 7 * 2 ^ m"
        using True bt1(4) unfolding ic1 by (simp add: is_underloaded_def sizing_defs) linarith
      obtain m' where m': "m = Suc m'" using m(1) by (cases m) auto
      have half: "icap ?t div 2 = 2 ^ m'" using ic1 m' by simp
      show ?thesis
      proof (cases "m = 3")
        case True
        then have "?n \<le> 4" "icap ?t div 2 = 4" using n m' half by auto
        then show ?thesis
          using rebuild_small [OF bt1(2,4) _ len1, of 0] \<open>is_underloaded _ _\<close> e1
          by (auto simp: rebuild_def ht_ok_def)
      next
        case False
        then have m3: "3 \<le> m'" "m' \<le> 27" using m m' by simp_all
        have n': "16 * ?n \<le> 15 * 2 ^ m'" using n unfolding int_le_pow m' by simp
        have "(2 :: int) ^ m' \<le> max (icap ?t) (max 8 (3 * occupancy ?t))"
          unfolding ic1 m' by (simp add: le_max_iff_disj)
        then obtain t2 where t2: "rebuild ?t (2 ^ m') = Some t2" "roomy ?t t2"
          using rebuild_roomy [OF m3 n' bt1(2,4) len1, of 0] ic1 m' by (auto simp: rebuild_def)
        then have "ht_ok t2" "table_view t2 = (table_view t)(k := None)"
          using big_table(6) [of t2] e1 by (auto simp: roomy_def ht_ok_def)
        then show ?thesis using t2(1) half \<open>is_underloaded _ _\<close> by simp
      qed
    next
      case nu: False
      show ?thesis
      proof (cases "time_to_rebuild (ins_rm_count ?t) (icap ?t)")
        case False
        then show ?thesis using nu big1 bt1(6) e1 by (simp add: ht_ok_def)
      next
        case True
        have "16 * ?n \<le> 15 * 2 ^ m"
          using big ad(3) m(3) by (simp add: big_ok_def)
        then obtain t2 where t2: "rebuild ?t (2 ^ m) = Some t2" "roomy ?t t2"
          using rebuild_roomy [OF m(1,2) _ bt1(2,4) len1, of 0] ic1 by (auto simp: rebuild_def)
        then have "ht_ok t2" "table_view t2 = (table_view t)(k := None)"
          using big_table(6) [of t2] e1 by (auto simp: roomy_def ht_ok_def)
        then show ?thesis using t2(1) nu True ic1 by simp
      qed
    qed
    then obtain t2 where t2: "(if is_underloaded (occupancy ?t) (icap ?t) then rebuild ?t (icap ?t div 2)
        else if time_to_rebuild (ins_rm_count ?t) (icap ?t) then rebuild ?t (icap ?t)
        else Some ?t) = Some t2" "ht_ok t2" "table_view t2 = (table_view t)(k := None)" by blast
    have "remove_hyperobject t k = Some (t2, True)"
      using t2(1) r(1) Some bt(5) by (auto simp: remove_hyperobject_def Let_def split: if_splits)
    then show ?thesis using t2(2,3) i(3) by simp
  qed
qed

end
