(* ===== verification/Reducers.thy ===== *)
theory Reducers
  imports Hypertable_Ops
begin

text \<open>
  Reducers on top of the hash table: the reduction of two views, \<open>merge_two_hts\<close>, the creation and
  lookup of a worker's views, registration and removal (\<^verbatim>\<open>runtime/local-hypertable.cpp\<close>,
  \<^verbatim>\<open>runtime/local-reducer-api.{h,cpp}\<close> and the lookups of \<^verbatim>\<open>runtime/cilk2c_inlined.cpp\<close>).

  The user's identity and reduce functions, the destructor of a view and the allocator are
  parameters: functions on a world \<open>'w\<close> that stands for the memory they change.  The interface
  \<open>view_table\<close> names what the merge and the lookups rely on; it is interpreted on the hash table.
\<close>

section \<open>User callbacks\<close>

record 'w reducer_ops =
  op_reduce_base :: "u64 \<Rightarrow> u64 \<Rightarrow> u64 \<Rightarrow> 'w \<Rightarrow> 'w"
  op_destroy_base :: "u64 \<Rightarrow> 'w \<Rightarrow> 'w"
  op_reduce_fn :: "u64 \<Rightarrow> u64 \<Rightarrow> u64 \<Rightarrow> 'w \<Rightarrow> 'w"
  op_c_reduce_fn :: "u64 \<Rightarrow> u64 \<Rightarrow> u64 \<Rightarrow> 'w \<Rightarrow> 'w"
  op_free :: "u64 \<Rightarrow> 'w \<Rightarrow> 'w"
  op_alloc :: "u64 \<Rightarrow> u64 \<Rightarrow> 'w \<Rightarrow> u64 \<times> 'w"
  op_view_size :: "u64 \<Rightarrow> u64"
  op_identity_base :: "u64 \<Rightarrow> u64 \<Rightarrow> 'w \<Rightarrow> u64 \<times> 'w"
  op_identity_fn :: "u64 \<Rightarrow> u64 \<Rightarrow> 'w \<Rightarrow> 'w"

record reducer_callbacks =
  cb_size :: u64
  cb_identity :: u64
  cb_reduce :: u64

fun same_index :: "reducer_extra \<Rightarrow> reducer_extra \<Rightarrow> bool" where
  "same_index (ReducerBase _) (ReducerBase _) = True"
| "same_index (ReduceFn _) (ReduceFn _) = True"
| "same_index (CReduceFn _) (CReduceFn _) = True"
| "same_index _ _ = False"

text \<open>The effect of reducing the right view into the left one, and of freeing the right view.\<close>

definition reduce_views ::
    "'w reducer_ops \<Rightarrow> u64 \<Rightarrow> reducer_data \<Rightarrow> reducer_data \<Rightarrow> 'w \<Rightarrow> 'w" where
  "reduce_views ops k left right w =
     op_free ops (view right)
       (case extra left of
          ReducerBase left_r \<Rightarrow>
            (case extra right of
               ReducerBase right_r \<Rightarrow>
                 op_destroy_base ops right_r (op_reduce_base ops k left_r right_r w)
             | _ \<Rightarrow> w)
        | ReduceFn f \<Rightarrow> op_reduce_fn ops f (view left) (view right) w
        | CReduceFn f \<Rightarrow> op_c_reduce_fn ops f (view left) (view right) w)"

text \<open>\<open>bucket::reduce\<close>: the right bucket loses its view, the left one is not written.\<close>

definition bucket_reduce ::
    "'w reducer_ops \<Rightarrow> bucket \<Rightarrow> bucket \<Rightarrow> 'w \<Rightarrow> (bucket \<times> 'w) option" where
  "bucket_reduce ops left right w = do {
     cilk_assert (same_index (extra (data left)) (extra (data right)));
     Some (right\<lparr>data := null_data\<rparr>, reduce_views ops (key left) (data left) (data right) w)
   }"

section \<open>Merging two tables\<close>

definition get_bucket :: "hyper_table \<Rightarrow> nat \<Rightarrow> bucket" where
  "get_bucket t i = buckets t ! i"

definition put_data :: "hyper_table \<Rightarrow> nat \<Rightarrow> reducer_data \<Rightarrow> hyper_table" where
  "put_data t i d = t\<lparr>buckets := (buckets t)[i := (buckets t ! i)\<lparr>data := d\<rparr>]\<rparr>"

text \<open>The loop of \<open>merge_two_hts\<close> over the source buckets, against the destination's operations.\<close>

fun merge_into ::
    "('t \<Rightarrow> u64 \<Rightarrow> nat option option) \<Rightarrow> ('t \<Rightarrow> nat \<Rightarrow> bucket) \<Rightarrow> ('t \<Rightarrow> nat \<Rightarrow> reducer_data \<Rightarrow> 't) \<Rightarrow>
     ('t \<Rightarrow> bucket \<Rightarrow> ('t \<times> bool) option) \<Rightarrow> 'w reducer_ops \<Rightarrow> bool \<Rightarrow> bucket list \<Rightarrow> 't \<Rightarrow> 'w \<Rightarrow>
     ('t \<times> 'w) option" where
  "merge_into lookup get put ins ops left_dst [] dst w = Some (dst, w)"
| "merge_into lookup get put ins ops left_dst (b # src) dst w =
     (if \<not> is_valid (key b) then merge_into lookup get put ins ops left_dst src dst w
      else do {
        dst_bucket \<leftarrow> lookup dst (key b);
        case dst_bucket of
          None \<Rightarrow> do {
            (dst', _) \<leftarrow> ins dst b;
            merge_into lookup get put ins ops left_dst src dst' w
          }
        | Some i \<Rightarrow>
            if left_dst then do {
              (_, w') \<leftarrow> bucket_reduce ops (get dst i) b w;
              merge_into lookup get put ins ops left_dst src dst w'
            } else do {
              (right', w') \<leftarrow> bucket_reduce ops b (get dst i) w;
              let dst1 = put dst i (data right');
              merge_into lookup get put ins ops left_dst src (put dst1 i (data b)) w'
            }
      })"

definition src_buckets :: "hyper_table \<Rightarrow> bucket list" where
  "src_buckets src =
     (let src_capacity = (if icap src < MIN_HT_CAPACITY then occupancy src else icap src)
      in take (nat src_capacity) (buckets src))"

definition merge_two_hts :: "'w reducer_ops \<Rightarrow> hyper_table option \<Rightarrow> hyper_table option \<Rightarrow> 'w \<Rightarrow>
    (hyper_table option \<times> 'w) option" where
  "merge_two_hts ops left right w =
     (case left of
        None \<Rightarrow> Some (right, w)
      | Some l \<Rightarrow>
          (case right of
             None \<Rightarrow> Some (left, w)
           | Some r \<Rightarrow>
               if occupancy l = 0 then Some (right, w)
               else if occupancy r = 0 then Some (left, w)
               else do {
                 let (left_dst, src, dst) =
                   (if occupancy l \<ge> occupancy r then (True, r, l) else (False, l, r));
                 (t, w') \<leftarrow> merge_into find_hyperobject get_bucket put_data insert_hyperobject ops
                   left_dst (src_buckets src) dst w;
                 Some (Some t, w')
               }))"

section \<open>Creating and looking up views\<close>

definition round_size_to_alignment :: "u64 \<Rightarrow> u64 \<Rightarrow> u64" where
  "round_size_to_alignment alignment sz = (sz + alignment - 1) AND (- alignment)"

definition get_local_hyper_table :: "hyper_table option \<Rightarrow> hyper_table" where
  "get_local_hyper_table w =
     (case w of None \<Rightarrow> local_hyper_table_alloc | Some t \<Rightarrow> t)"

text \<open>\<open>__cilkrts_insert_new_view_0\<close>, \<open>_1\<close>, \<open>_2\<close>: allocate, initialise, insert, return the view.\<close>

definition insert_new_view_0 ::
    "'w reducer_ops \<Rightarrow> hyper_table \<Rightarrow> u64 \<Rightarrow> 'w \<Rightarrow> (u64 \<times> hyper_table \<times> 'w) option" where
  "insert_new_view_0 ops table k w = do {
     let sz = op_view_size ops k;
     let (new_view, w1) = op_alloc ops 64 (round_size_to_alignment 64 sz) w;
     let (base, w2) = op_identity_base ops k new_view w1;
     (table', success) \<leftarrow> insert_hyperobject table
       \<lparr>key = k, bhash = 0, data = \<lparr>view = new_view, extra = ReducerBase base\<rparr>\<rparr>;
     cilk_assert success;
     Some (base, table', w2)
   }"

definition insert_new_view_1 ::
    "'w reducer_ops \<Rightarrow> hyper_table \<Rightarrow> u64 \<Rightarrow> reducer_callbacks \<Rightarrow> 'w \<Rightarrow>
     (u64 \<times> hyper_table \<times> 'w) option" where
  "insert_new_view_1 ops table k callbacks w = do {
     let (new_view, w1) = op_alloc ops 64 (round_size_to_alignment 64 (cb_size callbacks)) w;
     let w2 = op_identity_fn ops (cb_identity callbacks) new_view w1;
     (table', success) \<leftarrow> insert_hyperobject table
       \<lparr>key = k, bhash = 0, data = \<lparr>view = new_view, extra = ReduceFn (cb_reduce callbacks)\<rparr>\<rparr>;
     cilk_assert success;
     Some (new_view, table', w2)
   }"

definition insert_new_view_2 ::
    "'w reducer_ops \<Rightarrow> hyper_table \<Rightarrow> u64 \<Rightarrow> u64 \<Rightarrow> u64 \<Rightarrow> u64 \<Rightarrow> 'w \<Rightarrow>
     (u64 \<times> hyper_table \<times> 'w) option" where
  "insert_new_view_2 ops table k sz identity reduce w = do {
     let (new_view, w1) = op_alloc ops 64 (round_size_to_alignment 64 sz) w;
     let w2 = op_identity_fn ops identity new_view w1;
     (table', success) \<leftarrow> insert_hyperobject table
       \<lparr>key = k, bhash = 0, data = \<lparr>view = new_view, extra = CReduceFn reduce\<rparr>\<rparr>;
     cilk_assert success;
     Some (new_view, table', w2)
   }"

text \<open>The lookups return the key itself outside a Cilk region.  \<open>std::get_if\<close> on another variant is
  the null pointer, whose dereference is an error.\<close>

fun get_reducer_base :: "reducer_extra \<Rightarrow> u64 option" where
  "get_reducer_base (ReducerBase b) = Some b"
| "get_reducer_base _ = None"

definition reducer_lookup_0 ::
    "'w reducer_ops \<Rightarrow> bool \<Rightarrow> hyper_table option \<Rightarrow> u64 \<Rightarrow> 'w \<Rightarrow>
     (u64 \<times> hyper_table option \<times> 'w) option" where
  "reducer_lookup_0 ops need_to_cilkify wt k w =
     (if need_to_cilkify then Some (k, wt, w)
      else do {
        let table = get_local_hyper_table wt;
        b \<leftarrow> find_hyperobject table k;
        case b of
          Some i \<Rightarrow> do {
            v \<leftarrow> get_reducer_base (extra (data (get_bucket table i)));
            Some (v, Some table, w)
          }
        | None \<Rightarrow> do {
            (v, table', w') \<leftarrow> insert_new_view_0 ops table k w;
            Some (v, Some table', w')
          }
      })"

definition reducer_lookup_1 ::
    "'w reducer_ops \<Rightarrow> bool \<Rightarrow> hyper_table option \<Rightarrow> u64 \<Rightarrow> reducer_callbacks \<Rightarrow> 'w \<Rightarrow>
     (u64 \<times> hyper_table option \<times> 'w) option" where
  "reducer_lookup_1 ops need_to_cilkify wt k callbacks w =
     (if need_to_cilkify then Some (k, wt, w)
      else do {
        let table = get_local_hyper_table wt;
        b \<leftarrow> find_hyperobject table k;
        case b of
          Some i \<Rightarrow> Some (view (data (get_bucket table i)), Some table, w)
        | None \<Rightarrow> do {
            (v, table', w') \<leftarrow> insert_new_view_1 ops table k callbacks w;
            Some (v, Some table', w')
          }
      })"

definition reducer_lookup_2 ::
    "'w reducer_ops \<Rightarrow> bool \<Rightarrow> hyper_table option \<Rightarrow> u64 \<Rightarrow> u64 \<Rightarrow> u64 \<Rightarrow> u64 \<Rightarrow> 'w \<Rightarrow>
     (u64 \<times> hyper_table option \<times> 'w) option" where
  "reducer_lookup_2 ops need_to_cilkify wt k sz identity reduce w =
     (if need_to_cilkify then Some (k, wt, w)
      else do {
        let table = get_local_hyper_table wt;
        b \<leftarrow> find_hyperobject table k;
        case b of
          Some i \<Rightarrow> Some (view (data (get_bucket table i)), Some table, w)
        | None \<Rightarrow> do {
            (v, table', w') \<leftarrow> insert_new_view_2 ops table k sz identity reduce w;
            Some (v, Some table', w')
          }
      })"

text \<open>The lookup of the runtime itself (\<open>local-reducer-api.cpp\<close>).\<close>

definition internal_reducer_lookup ::
    "'w reducer_ops \<Rightarrow> hyper_table option \<Rightarrow> u64 \<Rightarrow> 'w \<Rightarrow> (u64 \<times> hyper_table option \<times> 'w) option" where
  "internal_reducer_lookup ops wt k w = do {
     let table = get_local_hyper_table wt;
     b \<leftarrow> find_hyperobject table k;
     case b of
       Some i \<Rightarrow> do {
         cilk_assert (k = key (get_bucket table i));
         v \<leftarrow> get_reducer_base (extra (data (get_bucket table i)));
         Some (v, Some table, w)
       }
     | None \<Rightarrow> do {
         (v, table', w') \<leftarrow> insert_new_view_0 ops table k w;
         Some (v, Some table', w')
       }
   }"

definition internal_reducer_remove :: "hyper_table option \<Rightarrow> u64 \<Rightarrow> hyper_table option option" where
  "internal_reducer_remove wt k = do {
     (table', _) \<leftarrow> remove_hyperobject (get_local_hyper_table wt) k;
     Some (Some table')
   }"

section \<open>Registration\<close>

definition reducer_register :: "hyper_table option \<Rightarrow> bucket \<Rightarrow> hyper_table option option" where
  "reducer_register wt b = do {
     (table', success) \<leftarrow> insert_hyperobject (get_local_hyper_table wt) b;
     cilk_assert success;
     Some (Some table')
   }"

definition reducer_register_0 :: "hyper_table option \<Rightarrow> u64 \<Rightarrow> hyper_table option option" where
  "reducer_register_0 wt k =
     reducer_register wt \<lparr>key = k, bhash = 0, data = \<lparr>view = 0, extra = ReducerBase k\<rparr>\<rparr>"

definition reducer_register_1 ::
    "hyper_table option \<Rightarrow> u64 \<Rightarrow> reducer_callbacks \<Rightarrow> hyper_table option option" where
  "reducer_register_1 wt k cb =
     reducer_register wt \<lparr>key = k, bhash = 0, data = \<lparr>view = k, extra = ReduceFn (cb_reduce cb)\<rparr>\<rparr>"

definition reducer_register_2 :: "hyper_table option \<Rightarrow> u64 \<Rightarrow> u64 \<Rightarrow> hyper_table option option" where
  "reducer_register_2 wt k reduce =
     reducer_register wt \<lparr>key = k, bhash = 0, data = \<lparr>view = k, extra = CReduceFn reduce\<rparr>\<rparr>"

definition reducer_unregister :: "hyper_table option \<Rightarrow> u64 \<Rightarrow> hyper_table option option" where
  "reducer_unregister wt k = do {
     (table', _) \<leftarrow> remove_hyperobject (get_local_hyper_table wt) k;
     Some (Some table')
   }"

section \<open>The interface of the table\<close>

text \<open>
  \<open>ok n t\<close>: the table is well formed and takes \<open>n\<close> more insertions; \<open>live t i\<close>: bucket \<open>i\<close> holds
  an entry.
\<close>

locale view_table =
  fixes ok :: "nat \<Rightarrow> 't \<Rightarrow> bool"
    and contents :: "'t \<Rightarrow> u64 \<Rightarrow> reducer_data option"
    and live :: "'t \<Rightarrow> nat \<Rightarrow> bool"
    and lookup :: "'t \<Rightarrow> u64 \<Rightarrow> nat option option"
    and get :: "'t \<Rightarrow> nat \<Rightarrow> bucket"
    and put :: "'t \<Rightarrow> nat \<Rightarrow> reducer_data \<Rightarrow> 't"
    and ins :: "'t \<Rightarrow> bucket \<Rightarrow> ('t \<times> bool) option"
  assumes ok_less: "ok (Suc n) t \<Longrightarrow> ok n t"
    and lookup_law: "ok n t \<Longrightarrow> is_valid k \<Longrightarrow> \<exists>r. lookup t k = Some r \<and>
      (case r of None \<Rightarrow> contents t k = None
       | Some i \<Rightarrow> live t i \<and> key (get t i) = k \<and> contents t k = Some (data (get t i)))"
    and put_law: "ok n t \<Longrightarrow> live t i \<Longrightarrow> ok n (put t i d) \<and> live (put t i d) i \<and>
      key (get (put t i d) i) = key (get t i) \<and>
      contents (put t i d) = (contents t)(key (get t i) \<mapsto> d)"
    and ins_law: "ok (Suc n) t \<Longrightarrow> is_valid (key b) \<Longrightarrow> \<exists>t'. ins t b = Some (t', True) \<and> ok n t' \<and>
      contents t' = (contents t)(key b \<mapsto> data b)"

definition common_keys :: "(u64 \<rightharpoonup> reducer_data) \<Rightarrow> bucket list \<Rightarrow> u64 list" where
  "common_keys m src = filter (\<lambda>k. m k \<noteq> None) (map key (filter valid_slot src))"

definition reduce_common ::
    "'w reducer_ops \<Rightarrow> (u64 \<rightharpoonup> reducer_data) \<Rightarrow> (u64 \<rightharpoonup> reducer_data) \<Rightarrow> u64 list \<Rightarrow> 'w \<Rightarrow> 'w" where
  "reduce_common ops L R ks = fold (\<lambda>k. reduce_views ops k (the (L k)) (the (R k))) ks"

lemma reduce_common_cong:
  "(\<And>k. k \<in> set ks \<Longrightarrow> L k = L' k \<and> R k = R' k) \<Longrightarrow>
   reduce_common ops L R ks w = reduce_common ops L' R' ks w"
  unfolding reduce_common_def by (induction ks arbitrary: w) auto

lemma common_keys_cong:
  "(\<And>k. k \<in> key ` set (filter valid_slot src) \<Longrightarrow> m k = None \<longleftrightarrow> m' k = None) \<Longrightarrow>
   common_keys m src = common_keys m' src"
  unfolding common_keys_def by (rule filter_cong) auto

lemma set_common_keys: "set (common_keys m src) = dom m \<inter> dom (entries src)"
proof -
  have "dom (entries src) = key ` set (filter valid_slot src)"
    unfolding dom_def entries_def by (auto simp: map_of_eq_None_iff pairs_def image_iff)
  then show ?thesis by (auto simp: common_keys_def)
qed

lemma distinct_common_keys: "keys_distinct src \<Longrightarrow> distinct (common_keys m src)"
  by (simp add: common_keys_def keys_distinct_def)

lemma common_keys_Cons:
  "common_keys m (b # src) =
     (if valid_slot b \<and> m (key b) \<noteq> None then key b # common_keys m src else common_keys m src)"
  by (simp add: common_keys_def)

lemma same_index_sym: "same_index x y \<longleftrightarrow> same_index y x"
  by (cases x; cases y) simp_all

text \<open>The views of a common key belong to the same kind of reducer.\<close>

definition mergeable :: "(u64 \<rightharpoonup> reducer_data) \<Rightarrow> (u64 \<rightharpoonup> reducer_data) \<Rightarrow> bool" where
  "mergeable m m' \<longleftrightarrow> (\<forall>k d d'. m k = Some d \<longrightarrow> m' k = Some d' \<longrightarrow> same_index (extra d) (extra d'))"

lemma mergeable_head:
  assumes "mergeable m (entries (b # src))" "valid_slot b" "m (key b) = Some d"
  shows "same_index (extra d) (extra (data b))" "same_index (extra (data b)) (extra d)"
proof -
  have "entries (b # src) (key b) = Some (data b)" using assms(2) by (simp add: entries_Cons)
  then show "same_index (extra d) (extra (data b))" using assms(1,3) unfolding mergeable_def by blast
  then show "same_index (extra (data b)) (extra d)" using same_index_sym by blast
qed

lemma mergeable_tail:
  assumes "mergeable m (entries (b # src))" "entries src (key b) = None"
  shows "mergeable m (entries src)" "mergeable (m(key b \<mapsto> d)) (entries src)"
proof -
  have "entries (b # src) k = Some d'" if "entries src k = Some d'" for k d'
    using that assms(2) by (cases "k = key b") (simp_all add: entries_Cons)
  then show "mergeable m (entries src)" using assms(1) unfolding mergeable_def by blast
  then show "mergeable (m(key b \<mapsto> d)) (entries src)"
    using assms(2) unfolding mergeable_def by (metis fun_upd_apply option.distinct(1))
qed

context view_table
begin

abbreviation merge where
  "merge \<equiv> merge_into lookup get put ins"

lemma merge_left:
  assumes "ok (nvalid src) dst" "keys_distinct src" "mergeable (contents dst) (entries src)"
  shows "\<exists>dst'. merge ops True src dst w = Some (dst',
      reduce_common ops (contents dst) (entries src) (common_keys (contents dst) src) w) \<and>
    ok 0 dst' \<and> contents dst' = entries src ++ contents dst"
  using assms
proof (induction src arbitrary: dst w)
  case Nil
  then show ?case by (simp add: nvalid_def entries_def pairs_def common_keys_def reduce_common_def)
next
  case (Cons b src)
  have kd: "keys_distinct src" using Cons.prems(2) by (auto simp: keys_distinct_def split: if_splits)
  show ?case
  proof (cases "valid_slot b")
    case False
    have "mergeable (contents dst) (entries src)" using Cons.prems(3) False by (simp add: mergeable_def entries_Cons)
    then show ?thesis using Cons.IH [of dst w] Cons.prems(1) kd False
      by (simp add: nvalid_Cons entries_Cons common_keys_Cons)
  next
    case v: True
    have nb: "key b \<notin> key ` set (filter valid_slot src)"
      using Cons.prems(2) v by (simp add: keys_distinct_def)
    then have nb': "entries src (key b) = None" by (auto simp: entries_None image_iff)
    have ok: "ok (Suc (nvalid src)) dst" using Cons.prems(1) v by (simp add: nvalid_Cons)
    obtain r where r: "lookup dst (key b) = Some r" "case r of None \<Rightarrow> contents dst (key b) = None
       | Some i \<Rightarrow> live dst i \<and> key (get dst i) = key b \<and> contents dst (key b) = Some (data (get dst i))"
      using lookup_law [OF ok v] by blast
    show ?thesis
    proof (cases r)
      case None
      obtain d1 where d1: "ins dst b = Some (d1, True)" "ok (nvalid src) d1"
        "contents d1 = (contents dst)(key b \<mapsto> data b)" using ins_law [OF ok v] by blast
      have m1: "mergeable (contents d1) (entries src)"
        using mergeable_tail(2) [OF Cons.prems(3) nb'] by (simp add: d1(3))
      have ck: "common_keys (contents d1) src = common_keys (contents dst) src"
        by (rule common_keys_cong) (use nb d1(3) in \<open>metis fun_upd_apply\<close>)
      have rc: "reduce_common ops (contents d1) (entries src) (common_keys (contents dst) src) w =
          reduce_common ops (contents dst) (entries (b # src)) (common_keys (contents dst) src) w"
        by (rule reduce_common_cong) (use nb' d1(3) v in \<open>auto simp: set_common_keys entries_Cons\<close>)
      have "entries src ++ contents d1 = entries (b # src) ++ contents dst"
        using r(2) None v nb' d1(3)
        by (intro ext) (auto simp: entries_Cons map_add_def split: option.splits)
      then show ?thesis using Cons.IH [OF d1(2) kd m1, of w] r None d1(1) v ck rc
        by (auto simp: common_keys_Cons)
    next
      case (Some i)
      have c: "contents dst (key b) = Some (data (get dst i))" "key (get dst i) = key b"
        using r(2) Some by simp_all
      have si: "same_index (extra (data (get dst i))) (extra (data b))"
        by (rule mergeable_head(1) [OF Cons.prems(3) v c(1)])
      let ?w = "reduce_views ops (key b) (data (get dst i)) (data b) w"
      have br: "bucket_reduce ops (get dst i) b w = Some (b\<lparr>data := null_data\<rparr>, ?w)"
        using si c(2) by (simp add: bucket_reduce_def)
      have m1: "mergeable (contents dst) (entries src)"
        by (rule mergeable_tail(1) [OF Cons.prems(3) nb'])
      have rc: "reduce_common ops (contents dst) (entries src) (common_keys (contents dst) src) ?w =
          reduce_common ops (contents dst) (entries (b # src)) (common_keys (contents dst) src) ?w"
        by (rule reduce_common_cong) (use nb' v in \<open>auto simp: set_common_keys entries_Cons\<close>)
      have st: "reduce_common ops (contents dst) (entries (b # src)) (common_keys (contents dst) (b # src)) w
          = reduce_common ops (contents dst) (entries (b # src)) (common_keys (contents dst) src) ?w"
        using c(1) v by (simp add: common_keys_Cons reduce_common_def entries_Cons)
      have "entries src ++ contents dst = entries (b # src) ++ contents dst"
        using c v by (intro ext) (auto simp: entries_Cons map_add_def split: option.splits)
      then show ?thesis using Cons.IH [OF ok_less [OF ok] kd m1, of ?w] r Some br v rc st by auto
    qed
  qed
qed

lemma merge_right:
  assumes "ok (nvalid src) dst" "keys_distinct src" "mergeable (contents dst) (entries src)"
  shows "\<exists>dst'. merge ops False src dst w = Some (dst',
      reduce_common ops (entries src) (contents dst) (common_keys (contents dst) src) w) \<and>
    ok 0 dst' \<and> contents dst' = contents dst ++ entries src"
  using assms
proof (induction src arbitrary: dst w)
  case Nil
  then show ?case by (simp add: nvalid_def entries_def pairs_def common_keys_def reduce_common_def)
next
  case (Cons b src)
  have kd: "keys_distinct src" using Cons.prems(2) by (auto simp: keys_distinct_def split: if_splits)
  show ?case
  proof (cases "valid_slot b")
    case False
    have "mergeable (contents dst) (entries src)" using Cons.prems(3) False by (simp add: mergeable_def entries_Cons)
    then show ?thesis using Cons.IH [of dst w] Cons.prems(1) kd False
      by (simp add: nvalid_Cons entries_Cons common_keys_Cons)
  next
    case v: True
    have nb: "key b \<notin> key ` set (filter valid_slot src)"
      using Cons.prems(2) v by (simp add: keys_distinct_def)
    then have nb': "entries src (key b) = None" by (auto simp: entries_None image_iff)
    have ok: "ok (Suc (nvalid src)) dst" using Cons.prems(1) v by (simp add: nvalid_Cons)
    obtain r where r: "lookup dst (key b) = Some r" "case r of None \<Rightarrow> contents dst (key b) = None
       | Some i \<Rightarrow> live dst i \<and> key (get dst i) = key b \<and> contents dst (key b) = Some (data (get dst i))"
      using lookup_law [OF ok v] by blast
    have step: "\<exists>dst'. merge ops False src d1 w1 = Some (dst',
          reduce_common ops (entries (b # src)) (contents dst) (common_keys (contents dst) src) w1) \<and>
        ok 0 dst' \<and> contents dst' = contents dst ++ entries (b # src)"
      if d1: "ok (nvalid src) d1" "contents d1 = (contents dst)(key b \<mapsto> data b)" for d1 w1
    proof -
      have m1: "mergeable (contents d1) (entries src)"
        using mergeable_tail(2) [OF Cons.prems(3) nb'] by (simp add: d1(2))
      have ck: "common_keys (contents d1) src = common_keys (contents dst) src"
        by (rule common_keys_cong) (use nb d1(2) in \<open>metis fun_upd_apply\<close>)
      have rc: "reduce_common ops (entries src) (contents d1) (common_keys (contents dst) src) w1 =
          reduce_common ops (entries (b # src)) (contents dst) (common_keys (contents dst) src) w1"
        by (rule reduce_common_cong) (use nb' d1(2) v in \<open>auto simp: set_common_keys entries_Cons\<close>)
      have "contents d1 ++ entries src = contents dst ++ entries (b # src)"
        using v nb' d1(2) by (intro ext) (auto simp: entries_Cons map_add_def split: option.splits)
      then show ?thesis using Cons.IH [OF d1(1) kd m1, of w1] ck rc by simp
    qed
    show ?thesis
    proof (cases r)
      case None
      obtain d1 where d1: "ins dst b = Some (d1, True)" "ok (nvalid src) d1"
        "contents d1 = (contents dst)(key b \<mapsto> data b)" using ins_law [OF ok v] by blast
      then show ?thesis using step [OF d1(2,3), of w] r None v
        by (auto simp: common_keys_Cons)
    next
      case (Some i)
      have c: "contents dst (key b) = Some (data (get dst i))" "key (get dst i) = key b" "live dst i"
        using r(2) Some by simp_all
      have si: "same_index (extra (data b)) (extra (data (get dst i)))"
        by (rule mergeable_head(2) [OF Cons.prems(3) v c(1)])
      let ?w = "reduce_views ops (key b) (data b) (data (get dst i)) w"
      have br: "bucket_reduce ops b (get dst i) w = Some ((get dst i)\<lparr>data := null_data\<rparr>, ?w)"
        using si by (simp add: bucket_reduce_def)
      let ?d1 = "put dst i null_data" let ?d2 = "put ?d1 i (data b)"
      note p1 = put_law [OF ok_less [OF ok] c(3), of null_data]
      have p2: "ok (nvalid src) ?d2" "contents ?d2 = (contents dst)(key b \<mapsto> data b)"
        using p1 put_law [of "nvalid src" ?d1 i "data b"] c(2) by auto
      have st: "reduce_common ops (entries (b # src)) (contents dst) (common_keys (contents dst) (b # src)) w
          = reduce_common ops (entries (b # src)) (contents dst) (common_keys (contents dst) src) ?w"
        using c(1) v by (simp add: common_keys_Cons reduce_common_def entries_Cons)
      show ?thesis using step [OF p2, of ?w] r Some br v st by auto
    qed
  qed
qed

end

section \<open>The hash table provides the interface\<close>

lemma entries_overwrite:
  fixes bs :: "bucket list" and p :: nat and d :: reducer_data
  defines "bs' \<equiv> bs[p := (bs ! p)\<lparr>data := d\<rparr>]"
  assumes kd: "keys_distinct bs" and p: "p < length bs" "valid_slot (bs ! p)"
  shows "keys_distinct bs'" "entries bs' = (entries bs)(key (bs ! p) \<mapsto> d)"
    "map key bs' = map key bs"
proof -
  let ?old = "bs ! p" let ?new = "(bs ! p)\<lparr>data := d\<rparr>" let ?bs0 = "bs[p := make_tombstone (bs ! p)]"
  have m0: "mset (filter valid_slot bs) = add_mset ?old (mset (filter valid_slot ?bs0))"
    using mset_filter_update [OF p(1), of valid_slot "make_tombstone ?old"] p tombstone_facts by simp
  note e0 = entries_delete [OF m0 kd]
  have "bs' = ?bs0[p := ?new]" by (simp add: bs'_def)
  then have m1: "mset (filter valid_slot bs') = add_mset ?new (mset (filter valid_slot ?bs0))"
    using mset_filter_update [of p ?bs0 valid_slot ?new] p tombstone_facts by simp
  have "entries ?bs0 (key ?new) = None" using e0(2) by simp
  note e1 = entries_insert [OF m1 e0(1) this]
  show "keys_distinct bs'" by (rule e1(1))
  show "entries bs' = (entries bs)(key (bs ! p) \<mapsto> d)" using e1(2) e0(2) by simp
  show "map key bs' = map key bs"
    unfolding bs'_def by (simp add: map_update) (metis list_update_id map_update)
qed

definition table_takes :: "nat \<Rightarrow> hyper_table \<Rightarrow> bool" where
  "table_takes n t \<longleftrightarrow> ht_ok t \<and> keeps_room t \<and> icap t < 2 ^ 27 \<and> occupancy t + int n \<le> 2 ^ 25"

definition live_bucket :: "hyper_table \<Rightarrow> nat \<Rightarrow> bool" where
  "live_bucket t i \<longleftrightarrow> i < length (src_buckets t) \<and> valid_slot (buckets t ! i)"

lemma src_buckets_small: "small_ok t \<Longrightarrow> src_buckets t = live_prefix t"
  using small_icap [of t] by (simp add: src_buckets_def live_prefix_def MIN_HT_CAPACITY_def)

lemma src_buckets_big: "big_ok t \<Longrightarrow> src_buckets t = buckets t"
  using big_table [of t] by (simp add: src_buckets_def)

lemma src_buckets_view: "ht_ok t \<Longrightarrow> entries (src_buckets t) = table_view t"
  using src_buckets_small small_view src_buckets_big big_table(6) by (metis ht_ok_def)

lemma src_buckets_distinct: "ht_ok t \<Longrightarrow> keys_distinct (src_buckets t)"
  using src_buckets_small small_prefix(2) src_buckets_big big_table(2) by (metis ht_ok_def)

lemma src_buckets_nvalid: "ht_ok t \<Longrightarrow> int (nvalid (src_buckets t)) = occupancy t"
proof -
  assume t: "ht_ok t"
  show ?thesis
  proof (cases "small_ok t")
    case True
    then have "filter valid_slot (live_prefix t) = live_prefix t"
      by (simp add: small_ok_def filter_id_conv)
    then show ?thesis using True small_prefix(1) [OF True]
      by (simp add: src_buckets_small nvalid_def small_ok_def)
  next
    case False
    then show ?thesis using t big_table(4) src_buckets_big by (metis ht_ok_def)
  qed
qed

lemma src_buckets_prefix: "src_buckets t = take (length (src_buckets t)) (buckets t)"
  by (simp add: src_buckets_def Let_def min_def)

lemma src_buckets_nth: "i < length (src_buckets t) \<Longrightarrow> src_buckets t ! i = buckets t ! i"
  using src_buckets_prefix [of t] by (metis nth_take)

lemma put_data_same:
  "capacity (put_data t i d) = capacity t" "occupancy (put_data t i d) = occupancy t"
  "ins_rm_count (put_data t i d) = ins_rm_count t"
  "length (buckets (put_data t i d)) = length (buckets t)" "icap (put_data t i d) = icap t"
  by (simp_all add: put_data_def icap_def)

lemma src_buckets_put:
  "src_buckets (put_data t i d) = (src_buckets t)[i := (buckets t ! i)\<lparr>data := d\<rparr>]"
  by (simp add: src_buckets_def put_data_same take_update_swap) (simp add: put_data_def take_update_swap)

lemma filter_key: "length (filter (\<lambda>b. P (key b)) xs) = length (filter P (map key xs))"
  by (simp add: filter_map comp_def)

lemma put_data_ok:
  assumes t: "ht_ok t" and i: "live_bucket t i"
  shows "ht_ok (put_data t i d)" "table_view (put_data t i d) = (table_view t)(key (buckets t ! i) \<mapsto> d)"
    "live_bucket (put_data t i d) i" "key (get_bucket (put_data t i d) i) = key (get_bucket t i)"
    "keeps_room (put_data t i d) = keeps_room t"
proof -
  let ?t = "put_data t i d"
  have il: "i < length (src_buckets t)" "i < length (buckets t)" "valid_slot (buckets t ! i)"
    using i by (auto simp: live_bucket_def src_buckets_def Let_def)
  note nth = src_buckets_nth [OF il(1)]
  note eo = entries_overwrite [OF src_buckets_distinct [OF t] il(1), unfolded nth, OF il(3),
      of d, folded src_buckets_put]
  have kb: "map key (buckets ?t) = map key (buckets t)"
    unfolding put_data_def by (simp add: map_update) (metis list_update_id map_update)
  have cnt: "nvalid (buckets ?t) = nvalid (buckets t)" "nempty (buckets ?t) = nempty (buckets t)"
    unfolding nvalid_def nempty_def filter_key kb by simp_all
  show "keeps_room ?t = keeps_room t" by (simp add: keeps_room_def put_data_same cnt)
  show ok: "ht_ok ?t"
  proof (cases "small_ok t")
    case True
    have lp: "live_prefix ?t = src_buckets ?t"
      using small_icap [OF True] by (simp add: src_buckets_def live_prefix_def put_data_same MIN_HT_CAPACITY_def)
    have "\<forall>b\<in>set (live_prefix ?t). valid_slot b" "distinct (map key (live_prefix ?t))"
    proof -
      have mk: "map key (live_prefix ?t) = map key (live_prefix t)"
        using eo(3) lp src_buckets_small [OF True] by simp
      then show "distinct (map key (live_prefix ?t))" using True by (simp add: small_ok_def)
      have "is_valid ` set (map key (live_prefix t)) \<subseteq> {True}"
        using True by (auto simp: small_ok_def)
      then show "\<forall>b\<in>set (live_prefix ?t). valid_slot b"
        unfolding mk [symmetric] by auto
    qed
    then have "small_ok ?t" using True by (simp add: small_ok_def put_data_same)
    then show ?thesis by (simp add: ht_ok_def)
  next
    case False
    then have big: "big_ok t" using t by (simp add: ht_ok_def)
    have iu: "i < unat (capacity t)" using il(2) big_table(3) [OF big] by simp
    have "table_ok (capacity t) (buckets ?t)"
      using array_overwrite(1) [OF big_table(1) [OF big] iu il(3), of d] by (simp add: put_data_def)
    then have "big_ok ?t" using big by (simp add: big_ok_def slack_ok_def put_data_same cnt)
    then show ?thesis by (simp add: ht_ok_def)
  qed
  show "table_view ?t = (table_view t)(key (buckets t ! i) \<mapsto> d)"
    using eo(2) src_buckets_view [OF t] src_buckets_view [OF ok] by simp
  show "key (get_bucket ?t i) = key (get_bucket t i)" "live_bucket ?t i"
    using il by (simp_all add: get_bucket_def live_bucket_def src_buckets_put)
      (simp_all add: put_data_def)
qed

lemma find_probe_bound:
  "find_probe n bs cap t k i = Some (Some p) \<Longrightarrow> i < cap \<Longrightarrow> p < unat cap"
proof (induction n arbitrary: i)
  case (Suc n)
  have "inc_index i cap < cap" using inc_index_less [OF Suc.prems(2)] .
  moreover have "unat i < unat cap" using Suc.prems(2) by (simp add: word_less_nat_alt)
  ultimately show ?case using Suc.prems(1) Suc.IH [of "inc_index i cap"]
    by (auto simp: Let_def split: if_splits)
qed simp

lemma find_live:
  assumes "ht_ok t" "find_hyperobject t k = Some (Some i)"
  shows "i < length (src_buckets t)"
proof (cases "small_ok t")
  case True
  then have "find_linear_from (buckets t) k (nat (occupancy t)) = Some i"
    using assms(2) small_icap [OF True]
    by (simp add: find_hyperobject_def find_hyperobject_linear_def MIN_HT_CAPACITY_def)
  then show ?thesis
    using find_linear_from_spec [of "nat (occupancy t)" "buckets t" k]
      src_buckets_small [OF True] small_prefix(1) [OF True] by simp
next
  case False
  then have big: "big_ok t" using assms(1) by (simp add: ht_ok_def)
  obtain m where m: "unat (capacity t) = 2 ^ m" using big_icap [OF big] by metis
  have "find_probe (unat (capacity t)) (buckets t) (capacity t) (get_table_entry (capacity t) k) k
      (get_table_entry (capacity t) k) = Some (Some i)"
    using assms(2) big_table(5) [OF big]
    by (simp add: find_hyperobject_def find_hyperobject_hash_def Let_def)
  then have "i < unat (capacity t)"
    using find_probe_bound get_table_entry_less [OF m] by blast
  then show ?thesis using src_buckets_big [OF big] big_table(3) [OF big] by simp
qed

interpretation table: view_table table_takes table_view live_bucket find_hyperobject get_bucket
  put_data insert_hyperobject
proof unfold_locales
  fix n t assume "table_takes (Suc n) t"
  then show "table_takes n t" by (simp add: table_takes_def)
next
  fix n t and k :: u64 assume t: "table_takes n t" and k: "is_valid k"
  have ok: "ht_ok t" using t by (simp add: table_takes_def)
  obtain r where r: "find_hyperobject t k = Some r" "case r of None \<Rightarrow> table_view t k = None
      | Some i \<Rightarrow> i < length (buckets t) \<and> key (buckets t ! i) = k \<and>
          table_view t k = Some (data (buckets t ! i))"
    using find_ok [OF ok k] by blast
  have "live_bucket t i" if "r = Some i" for i
    using find_live [OF ok] r that k by (auto simp: live_bucket_def)
  then show "\<exists>r. find_hyperobject t k = Some r \<and> (case r of None \<Rightarrow> table_view t k = None
      | Some i \<Rightarrow> live_bucket t i \<and> key (get_bucket t i) = k \<and>
          table_view t k = Some (data (get_bucket t i)))"
    using r by (auto simp: get_bucket_def split: option.splits)
next
  fix n t i d assume t: "table_takes n t" and i: "live_bucket t i"
  then show "table_takes n (put_data t i d) \<and> live_bucket (put_data t i d) i \<and>
      key (get_bucket (put_data t i d) i) = key (get_bucket t i) \<and>
      table_view (put_data t i d) = (table_view t)(key (get_bucket t i) \<mapsto> d)"
    using put_data_ok [of t i d] by (simp add: table_takes_def put_data_same get_bucket_def)
next
  fix n t b assume t: "table_takes (Suc n) t" and b: "valid_slot b"
  then have "\<exists>t'. insert_hyperobject t b = Some (t', True) \<and> ht_ok t' \<and>
    table_view t' = (table_view t)(key b \<mapsto> data b) \<and>
    occupancy t' = occupancy t + (if table_view t (key b) = None then 1 else 0) \<and>
    (keeps_room t \<longrightarrow> keeps_room t') \<and> icap t' \<le> max (icap t) (max 8 (3 * occupancy t))"
    by (intro insert_ok) (auto simp: table_takes_def intro: keeps_room_has_room)
  then show "\<exists>t'. insert_hyperobject t b = Some (t', True) \<and> table_takes n t' \<and>
      table_view t' = (table_view t)(key b \<mapsto> data b)"
    using t by (auto simp: table_takes_def)
qed

end
