(* ===== verification/Reducer_Properties.thy ===== *)
theory Reducer_Properties
  imports Reducers
begin

text \<open>
  What the reducer table guarantees to the scheduler and to the program: the properties of lookup,
  insertion, removal, merge and registration, each with a concrete instance, and the run of the
  table that loses an entry once no empty slot is left.
\<close>

section \<open>Concrete tables\<close>

definition entry :: "u64 \<Rightarrow> bucket" where
  "entry k = \<lparr>key = k, bhash = 0, data = \<lparr>view = k, extra = CReduceFn 1\<rparr>\<rparr>"

definition small_table :: "u64 list \<Rightarrow> hyper_table" where
  "small_table ks = \<lparr>capacity = 4, occupancy = int (length ks), ins_rm_count = 0,
     buckets = map entry ks @ replicate (4 - length ks) empty_bucket\<rparr>"

datatype table_op = Ins u64 | Rem u64

fun run_ops :: "table_op list \<Rightarrow> hyper_table \<Rightarrow> hyper_table option" where
  "run_ops [] t = Some t"
| "run_ops (Ins k # ops) t = do { (t', _) \<leftarrow> insert_hyperobject t (entry k); run_ops ops t' }"
| "run_ops (Rem k # ops) t = do { (t', _) \<leftarrow> remove_hyperobject t k; run_ops ops t' }"

lemmas key_defs = is_valid_def is_empty_def is_tombstone_def KEY_EMPTY_def KEY_DELETED_def

lemmas small_table_defs = ht_ok_def small_ok_def small_table_def live_prefix_def entry_def key_defs

lemma small_table_view:
  assumes "length ks \<le> 4"
  shows "table_view (small_table ks) k = map_of (pairs (map entry ks)) k"
  using assms by (simp add: table_view_def icap_def small_table_def MIN_HT_CAPACITY_def
      live_prefix_def entries_def)

lemma alloc_ok: "table_takes 33554432 local_hyper_table_alloc" "table_view local_hyper_table_alloc = Map.empty"
proof -
  have s: "small_ok local_hyper_table_alloc"
    by (simp add: local_hyper_table_alloc_def new_hyper_table_def small_ok_def live_prefix_def
        MIN_CAPACITY_def bucket_array_create_def MIN_HT_CAPACITY_def)
  have o: "occupancy local_hyper_table_alloc = 0"
    by (simp add: local_hyper_table_alloc_def new_hyper_table_def)
  show "table_takes 33554432 local_hyper_table_alloc"
    using small_icap [OF s] s o by (simp add: table_takes_def ht_ok_def keeps_room_def MIN_HT_CAPACITY_def)
  show "table_view local_hyper_table_alloc = Map.empty"
    using small_view [OF s] o by (simp add: live_prefix_def entries_def pairs_def)
qed

section \<open>The table\<close>

text \<open>C7: A lookup on a well-formed table ends within one turn and returns the bucket that holds the
  key's entry, or the null pointer exactly when the table has no entry for the key.\<close>

theorem find_hyperobject_correct:
  assumes "ht_ok t" "is_valid k"
  shows "\<exists>r. find_hyperobject t k = Some r \<and>
    (case r of None \<Rightarrow> table_view t k = None
     | Some i \<Rightarrow> i < length (buckets t) \<and> key (buckets t ! i) = k \<and>
         table_view t k = Some (data (buckets t ! i)))"
  using assms by (rule find_ok)

theorem find_hyperobject_correct_witness:
  "\<exists>r. find_hyperobject (small_table [64, 128]) 128 = Some r \<and>
    (case r of None \<Rightarrow> table_view (small_table [64, 128]) 128 = None
     | Some i \<Rightarrow> i < length (buckets (small_table [64, 128])) \<and>
         key (buckets (small_table [64, 128]) ! i) = 128 \<and>
         table_view (small_table [64, 128]) 128 = Some (data (buckets (small_table [64, 128]) ! i)))"
  by (rule find_hyperobject_correct) (simp_all add: small_table_defs)

text \<open>C2: Insertion into a well-formed table with room succeeds, including the rebuilds it triggers:
  no assertion fails, the new table is well formed, and as a map it is the old one updated.\<close>

theorem insert_hyperobject_correct:
  assumes "ht_ok t" "has_room t" "is_valid (key b)" "icap t < 2 ^ 27"
  shows "\<exists>t'. insert_hyperobject t b = Some (t', True) \<and> ht_ok t' \<and>
    table_view t' = (table_view t)(key b \<mapsto> data b)"
  using insert_ok [OF assms] by blast

theorem insert_hyperobject_correct_witness:
  "\<exists>t'. insert_hyperobject (small_table [64, 128, 192, 256]) (entry 320) = Some (t', True) \<and> ht_ok t' \<and>
    table_view t' = (table_view (small_table [64, 128, 192, 256]))(key (entry 320) \<mapsto> data (entry 320))"
  by (rule insert_hyperobject_correct)
    (simp_all add: small_table_defs has_room_def icap_def MIN_HT_CAPACITY_def)

text \<open>C24: Removal returns whether the key was there, deletes exactly its entry, and keeps the table
  well formed, through the rebuild that may shrink it.\<close>

theorem remove_hyperobject_correct:
  assumes "ht_ok t" "is_valid k"
  shows "\<exists>t'. remove_hyperobject t k = Some (t', table_view t k \<noteq> None) \<and> ht_ok t' \<and>
    table_view t' = (table_view t)(k := None)"
  using assms by (rule remove_ok)

theorem remove_hyperobject_correct_witness:
  "\<exists>t'. remove_hyperobject (small_table [64, 128, 192]) 64 =
      Some (t', table_view (small_table [64, 128, 192]) 64 \<noteq> None) \<and> ht_ok t' \<and>
    table_view t' = (table_view (small_table [64, 128, 192]))(64 := None)"
  by (rule remove_hyperobject_correct) (simp_all add: small_table_defs)

text \<open>C26: However many reducers a strand registers from no table at all (up to 2^25), every
  registration passes its assertion and no entry is ever lost: the table is the map of the last
  entry per key.\<close>

theorem registrations_keep_entries:
  assumes "length bs \<le> 33554432" "\<forall>b\<in>set bs. is_valid (key b)"
  shows "\<exists>wt. foldl (\<lambda>r b. Option.bind r (\<lambda>wt. reducer_register wt b)) (Some None) bs = Some wt \<and>
    ht_ok (get_local_hyper_table wt) \<and>
    table_view (get_local_hyper_table wt) = map_of (rev (map (\<lambda>b. (key b, data b)) bs))"
proof -
  have "\<exists>wt. foldl (\<lambda>r b. Option.bind r (\<lambda>wt. reducer_register wt b)) (Some wt0) bs = Some wt \<and>
      ht_ok (get_local_hyper_table wt) \<and>
      table_view (get_local_hyper_table wt) =
        table_view (get_local_hyper_table wt0) ++ map_of (rev (map (\<lambda>b. (key b, data b)) bs))"
    if "table_takes (length bs) (get_local_hyper_table wt0)" for wt0
    using assms(2) that
  proof (induction bs arbitrary: wt0)
    case Nil
    then show ?case by (simp add: table_takes_def)
  next
    case (Cons b bs)
    let ?t0 = "get_local_hyper_table wt0"
    let ?M = "map_of (rev (map (\<lambda>b. (key b, data b)) bs))"
    obtain t1 where t1: "insert_hyperobject ?t0 b = Some (t1, True)" "table_takes (length bs) t1"
      "table_view t1 = (table_view ?t0)(key b \<mapsto> data b)"
      using table.ins_law [of "length bs" ?t0 b] Cons.prems by auto
    have r1: "reducer_register wt0 b = Some (Some t1)" using t1(1) by (simp add: reducer_register_def)
    have g1: "get_local_hyper_table (Some t1) = t1" by (simp add: get_local_hyper_table_def)
    have "table_view t1 ++ ?M = (table_view ?t0 ++ [key b \<mapsto> data b]) ++ ?M" using t1(3) by simp
    also have "\<dots> = table_view ?t0 ++ map_of (rev (map (\<lambda>b. (key b, data b)) (b # bs)))"
      by (simp only: map_add_assoc list.map rev.simps map_of_append map_of.simps fst_conv snd_conv)
    finally have e: "table_view t1 ++ ?M =
      table_view ?t0 ++ map_of (rev (map (\<lambda>b. (key b, data b)) (b # bs)))" .
    obtain wt where "foldl (\<lambda>r b. Option.bind r (\<lambda>wt. reducer_register wt b)) (Some (Some t1)) bs =
        Some wt \<and> ht_ok (get_local_hyper_table wt) \<and>
        table_view (get_local_hyper_table wt) = table_view t1 ++ ?M"
      using Cons.IH [of "Some t1"] Cons.prems(1) t1(2) g1 by auto
    then show ?case using r1 e by (intro exI [of _ wt]) simp
  qed
  moreover have "table_takes (length bs) (get_local_hyper_table None)"
    using alloc_ok(1) assms(1) by (simp add: table_takes_def get_local_hyper_table_def)
  moreover have "table_view (get_local_hyper_table None) = Map.empty"
    using alloc_ok(2) by (simp add: get_local_hyper_table_def)
  ultimately show ?thesis by fastforce
qed

theorem registrations_keep_entries_witness:
  "\<exists>wt. foldl (\<lambda>r b. Option.bind r (\<lambda>wt. reducer_register wt b)) (Some None)
      (map entry [8, 16, 24, 32, 40]) = Some wt \<and> ht_ok (get_local_hyper_table wt) \<and>
    table_view (get_local_hyper_table wt) =
      map_of (rev (map (\<lambda>b. (key b, data b)) (map entry [8, 16, 24, 32, 40])))"
  by (rule registrations_keep_entries) (simp_all add: entry_def key_defs)

text \<open>The unsigned comparison that ends a probe is the comparison of circular displacements: the
  probe goes on exactly while the slot's key is at least as far from its home as the probe is from
  its target.\<close>

theorem continue_probe_compares_displacements:
  assumes "t < cap" "h < cap" "i < cap"
  shows "continue_probe t h i \<longleftrightarrow>
    disp (unat cap) (unat t) (unat i) \<le> disp (unat cap) (unat h) (unat i)"
  using assms by (rule continue_probe_disp)

theorem continue_probe_compares_displacements_witness:
  "continue_probe 6 7 (1 :: u32) \<longleftrightarrow> disp (unat (8 :: u32)) (unat (6 :: u32)) (unat (1 :: u32)) \<le>
    disp (unat (8 :: u32)) (unat (7 :: u32)) (unat (1 :: u32))"
  by (rule continue_probe_compares_displacements) simp_all

text \<open>From an empty table, twelve registrations and removals of eight keys lose the first key: it
  was never removed, yet the lookup no longer finds it.  (No empty slot is left before the last
  insertion, so the probe wraps around; this is the case that \<open>has_room\<close> excludes.)\<close>

theorem full_table_loses_entry:
  "case run_ops [Ins 5584, Ins 5104, Ins 4528, Ins 5232, Ins 4368, Ins 4224, Rem 5104, Rem 4528,
       Ins 4272, Ins 5104, Ins 4528, Ins 5216] local_hyper_table_alloc of
     None \<Rightarrow> False
   | Some t \<Rightarrow> find_hyperobject t 5584 = Some None"
  by code_simp

section \<open>Merging\<close>

text \<open>C8: Merging the tables of two strands gives the union of their views; for a key both have, the
  left view stays and the right one is reduced into it, left before right, once per common key,
  whichever of the two tables the runtime chooses to iterate over.\<close>

theorem merge_two_hts_correct:
  assumes l: "table_takes (nat (occupancy r)) l" and r: "table_takes (nat (occupancy l)) r"
    and compat: "mergeable (table_view l) (table_view r)"
  shows "\<exists>t ks. merge_two_hts ops (Some l) (Some r) w =
      Some (Some t, reduce_common ops (table_view l) (table_view r) ks w) \<and>
    ht_ok t \<and> table_view t = table_view r ++ table_view l \<and>
    distinct ks \<and> set ks = dom (table_view l) \<inter> dom (table_view r)"
proof -
  have okl: "ht_ok l" and okr: "ht_ok r" using l r by (simp_all add: table_takes_def)
  have z: "table_view t = Map.empty" if "ht_ok t" "occupancy t = 0" for t
  proof -
    have "filter valid_slot (src_buckets t) = []"
      using src_buckets_nvalid [OF that(1)] that(2) by (simp add: nvalid_def)
    then show ?thesis using src_buckets_view [OF that(1)] by (simp add: entries_def pairs_def)
  qed
  have compat': "mergeable (table_view r) (table_view l)"
    using compat same_index_sym unfolding mergeable_def by blast
  have nvr: "nvalid (src_buckets r) = nat (occupancy r)" and nvl: "nvalid (src_buckets l) = nat (occupancy l)"
    using src_buckets_nvalid okl okr by (metis nat_int)+
  consider (l0) "occupancy l = 0" | (r0) "occupancy l \<noteq> 0" "occupancy r = 0"
    | (left) "occupancy l \<noteq> 0" "occupancy r \<noteq> 0" "occupancy l \<ge> occupancy r"
    | (right) "occupancy l \<noteq> 0" "occupancy r \<noteq> 0" "\<not> occupancy l \<ge> occupancy r" by blast
  then show ?thesis
  proof cases
    case l0
    then show ?thesis using z [OF okl] okr
      by (intro exI [of _ r] exI [of _ "[]"]) (simp add: merge_two_hts_def reduce_common_def)
  next
    case r0
    then show ?thesis using z [OF okr] okl
      by (intro exI [of _ l] exI [of _ "[]"]) (simp add: merge_two_hts_def reduce_common_def)
  next
    case left
    obtain t where t: "merge_into find_hyperobject get_bucket put_data insert_hyperobject ops True
        (src_buckets r) l w = Some (t, reduce_common ops (table_view l) (table_view r)
          (common_keys (table_view l) (src_buckets r)) w)" "table_takes 0 t"
        "table_view t = table_view r ++ table_view l"
      using table.merge_left [of "src_buckets r" l ops w] l compat nvr
        src_buckets_view [OF okr] src_buckets_distinct [OF okr] by auto
    then show ?thesis
      using left src_buckets_view [OF okr] src_buckets_distinct [OF okr]
      by (intro exI [of _ t] exI [of _ "common_keys (table_view l) (src_buckets r)"])
        (simp add: merge_two_hts_def table_takes_def set_common_keys distinct_common_keys)
  next
    case right
    obtain t where t: "merge_into find_hyperobject get_bucket put_data insert_hyperobject ops False
        (src_buckets l) r w = Some (t, reduce_common ops (table_view l) (table_view r)
          (common_keys (table_view r) (src_buckets l)) w)" "table_takes 0 t"
        "table_view t = table_view r ++ table_view l"
      using table.merge_right [of "src_buckets l" r ops w] r compat' nvl
        src_buckets_view [OF okl] src_buckets_distinct [OF okl] by auto
    then show ?thesis
      using right src_buckets_view [OF okl] src_buckets_distinct [OF okl]
      by (intro exI [of _ t] exI [of _ "common_keys (table_view r) (src_buckets l)"])
        (auto simp: merge_two_hts_def table_takes_def set_common_keys distinct_common_keys)
  qed
qed

text \<open>A world that records the reductions, as (key or function, left, right).\<close>

definition log_ops :: "(u64 \<times> u64 \<times> u64) list reducer_ops" where
  "log_ops = \<lparr>op_reduce_base = (\<lambda>k l r w. w @ [(k, l, r)]), op_destroy_base = (\<lambda>_ w. w),
     op_reduce_fn = (\<lambda>f l r w. w @ [(f, l, r)]), op_c_reduce_fn = (\<lambda>f l r w. w @ [(f, l, r)]),
     op_free = (\<lambda>_ w. w), op_alloc = (\<lambda>_ n w. (4096 + 64 * of_nat (length w), w)),
     op_view_size = (\<lambda>_. 8), op_identity_base = (\<lambda>_ v w. (v, w)),
     op_identity_fn = (\<lambda>_ _ w. w)\<rparr>"

theorem merge_two_hts_correct_witness:
  "\<exists>t ks. merge_two_hts log_ops (Some (small_table [64, 128])) (Some (small_table [128, 192, 256])) [] =
      Some (Some t, reduce_common log_ops (table_view (small_table [64, 128]))
        (table_view (small_table [128, 192, 256])) ks []) \<and>
    ht_ok t \<and> table_view t = table_view (small_table [128, 192, 256]) ++ table_view (small_table [64, 128]) \<and>
    distinct ks \<and>
    set ks = dom (table_view (small_table [64, 128])) \<inter> dom (table_view (small_table [128, 192, 256]))"
proof (rule merge_two_hts_correct)
  show "table_takes (nat (occupancy (small_table [128, 192, 256]))) (small_table [64, 128])"
    "table_takes (nat (occupancy (small_table [64, 128]))) (small_table [128, 192, 256])"
    by (simp_all add: table_takes_def keeps_room_def icap_def MIN_HT_CAPACITY_def small_table_defs)
  show "mergeable (table_view (small_table [64, 128])) (table_view (small_table [128, 192, 256]))"
    by (auto simp: mergeable_def small_table_view pairs_def entry_def key_defs split: if_splits)
qed

section \<open>Views of a strand\<close>

text \<open>C30: Inside a Cilk region a lookup returns the strand's existing view and calls nothing, or
  allocates a view, runs the identity on it, enters it in the table and returns it.\<close>

theorem reducer_lookup_1_correct:
  assumes t: "table_takes (Suc n) (get_local_hyper_table wt)" and k: "is_valid k"
  shows "\<exists>v t' w'. reducer_lookup_1 ops False wt k cb w = Some (v, Some t', w') \<and> table_takes n t' \<and>
    (case table_view (get_local_hyper_table wt) k of
       Some d \<Rightarrow> v = view d \<and> t' = get_local_hyper_table wt \<and> w' = w
     | None \<Rightarrow> (let (a, w1) = op_alloc ops 64 (round_size_to_alignment 64 (cb_size cb)) w
                in v = a \<and> w' = op_identity_fn ops (cb_identity cb) a w1) \<and>
         table_view t' = (table_view (get_local_hyper_table wt))
           (k \<mapsto> \<lparr>view = v, extra = ReduceFn (cb_reduce cb)\<rparr>))"
proof -
  let ?t = "get_local_hyper_table wt"
  obtain r where r: "find_hyperobject ?t k = Some r" "case r of None \<Rightarrow> table_view ?t k = None
      | Some i \<Rightarrow> live_bucket ?t i \<and> key (get_bucket ?t i) = k \<and>
          table_view ?t k = Some (data (get_bucket ?t i))"
    using table.lookup_law [OF t k] by blast
  show ?thesis
  proof (cases r)
    case (Some i)
    then show ?thesis using r t by (simp add: reducer_lookup_1_def Let_def table.ok_less)
  next
    case None
    obtain a w1 where a: "op_alloc ops 64 (round_size_to_alignment 64 (cb_size cb)) w = (a, w1)"
      by fastforce
    let ?b = "\<lparr>key = k, bhash = 0, data = \<lparr>view = a, extra = ReduceFn (cb_reduce cb)\<rparr>\<rparr>"
    obtain t' where "insert_hyperobject ?t ?b = Some (t', True)" "table_takes n t'"
      "table_view t' = (table_view ?t)(k \<mapsto> data ?b)"
      using table.ins_law [OF t, of ?b] k by auto
    then show ?thesis using None r a
      by (simp add: reducer_lookup_1_def insert_new_view_1_def Let_def)
  qed
qed

theorem reducer_lookup_1_correct_witness:
  "\<exists>v t' w'. reducer_lookup_1 log_ops False None 64 \<lparr>cb_size = 8, cb_identity = 1, cb_reduce = 2\<rparr> [] =
      Some (v, Some t', w') \<and> table_takes 3 t' \<and>
    (case table_view (get_local_hyper_table None) 64 of
       Some d \<Rightarrow> v = view d \<and> t' = get_local_hyper_table None \<and> w' = []
     | None \<Rightarrow> (let (a, w1) = op_alloc log_ops 64 (round_size_to_alignment 64
                    (cb_size \<lparr>cb_size = 8, cb_identity = 1, cb_reduce = 2\<rparr>)) []
                in v = a \<and> w' = op_identity_fn log_ops
                    (cb_identity \<lparr>cb_size = 8, cb_identity = 1, cb_reduce = 2\<rparr>) a w1) \<and>
         table_view t' = (table_view (get_local_hyper_table None))
           (64 \<mapsto> \<lparr>view = v, extra = ReduceFn (cb_reduce \<lparr>cb_size = 8, cb_identity = 1, cb_reduce = 2\<rparr>)\<rparr>))"
  by (rule reducer_lookup_1_correct)
    (use alloc_ok(1) in \<open>simp_all add: get_local_hyper_table_def table_takes_def key_defs\<close>)

text \<open>C39: A registered reducer is looked up as its leftmost view, the hyperobject itself, with no call
  to the identity; unregistering it takes the entry out again and leaves the others alone.\<close>

theorem register_lookup_unregister:
  assumes t: "table_takes (Suc n) (get_local_hyper_table wt)" and k: "is_valid k"
  shows "\<exists>t1 t2. reducer_register_1 wt k cb = Some (Some t1) \<and>
    reducer_lookup_1 ops False (Some t1) k cb' w = Some (k, Some t1, w) \<and>
    reducer_unregister (Some t1) k = Some (Some t2) \<and>
    table_view t2 = (table_view (get_local_hyper_table wt))(k := None)"
proof -
  let ?t = "get_local_hyper_table wt"
  let ?b = "\<lparr>key = k, bhash = 0, data = \<lparr>view = k, extra = ReduceFn (cb_reduce cb)\<rparr>\<rparr>"
  obtain t1 where t1: "insert_hyperobject ?t ?b = Some (t1, True)" "table_takes n t1"
    "table_view t1 = (table_view ?t)(k \<mapsto> data ?b)"
    using table.ins_law [OF t, of ?b] k by auto
  obtain i where i: "find_hyperobject t1 k = Some (Some i)"
    "table_view t1 k = Some (data (get_bucket t1 i))"
    using table.lookup_law [OF t1(2) k] t1(3) by (auto split: option.splits)
  have v: "data (get_bucket t1 i) = data ?b" using i(2) t1(3) by simp
  have "ht_ok t1" using t1(2) by (simp add: table_takes_def)
  then obtain t2 where t2: "remove_hyperobject t1 k = Some (t2, True)"
    "table_view t2 = (table_view t1)(k := None)"
    using remove_ok [of t1 k] k t1(3) by auto
  have "reducer_register_1 wt k cb = Some (Some t1)"
    using t1(1) by (simp add: reducer_register_1_def reducer_register_def)
  moreover have "reducer_lookup_1 ops False (Some t1) k cb' w = Some (k, Some t1, w)"
    using i v by (simp add: reducer_lookup_1_def get_local_hyper_table_def)
  moreover have "reducer_unregister (Some t1) k = Some (Some t2)"
    using t2(1) by (simp add: reducer_unregister_def get_local_hyper_table_def)
  ultimately show ?thesis using t2(2) t1(3) by auto
qed

theorem register_lookup_unregister_witness:
  "\<exists>t1 t2. reducer_register_1 None 64 \<lparr>cb_size = 8, cb_identity = 1, cb_reduce = 2\<rparr> = Some (Some t1) \<and>
    reducer_lookup_1 log_ops False (Some t1) 64 \<lparr>cb_size = 8, cb_identity = 1, cb_reduce = 2\<rparr> [] =
      Some (64, Some t1, []) \<and>
    reducer_unregister (Some t1) 64 = Some (Some t2) \<and>
    table_view t2 = (table_view (get_local_hyper_table None))(64 := None)"
  by (rule register_lookup_unregister [where n = 0])
    (use alloc_ok(1) in \<open>simp_all add: get_local_hyper_table_def table_takes_def key_defs\<close>)

end
