(* ===== verification/Frames.thy ===== *)
theory Frames
  imports Prelude
begin

text \<open>
  Stack frames (\<^verbatim>\<open>runtime/frame.h\<close>, \<^verbatim>\<open>runtime/jmpbuf.h\<close>) and fiber headers
  (\<^verbatim>\<open>runtime/fiber-header.h\<close>): the flag word of a frame with its tests and updates, and the frame
  and fiber records.  Frames, fibers and closures are named by numbers, the null pointer is \<open>None\<close>.
\<close>

section \<open>Flags\<close>

definition CILK_FRAME_STOLEN :: u32 where "CILK_FRAME_STOLEN = 0x001"
definition CILK_FRAME_UNSYNCHED :: u32 where "CILK_FRAME_UNSYNCHED = 0x002"
definition CILK_FRAME_DETACHED :: u32 where "CILK_FRAME_DETACHED = 0x004"
definition CILK_FRAME_EXCEPTION_PENDING :: u32 where "CILK_FRAME_EXCEPTION_PENDING = 0x008"
definition CILK_FRAME_THROWING :: u32 where "CILK_FRAME_THROWING = 0x010"
definition CILK_FRAME_LAST :: u32 where "CILK_FRAME_LAST = 0x080"
definition CILK_FRAME_SYNC_READY :: u32 where "CILK_FRAME_SYNC_READY = 0x200"

lemmas flag_defs = CILK_FRAME_STOLEN_def CILK_FRAME_UNSYNCHED_def CILK_FRAME_DETACHED_def
  CILK_FRAME_EXCEPTION_PENDING_def CILK_FRAME_THROWING_def CILK_FRAME_LAST_def
  CILK_FRAME_SYNC_READY_def

text \<open>The magic number mixes the ABI version and the offsets of the fields on a 64-bit machine:
  \<open>flags\<close> 0, \<open>magic\<close> 4, \<open>fh\<close> 8, \<open>call_parent\<close> 16, \<open>ctx\<close> 24 (five words), \<open>extension\<close> 64.\<close>

definition CILKRTS_ABI_VERSION :: u32 where "CILKRTS_ABI_VERSION = 4"

definition frame_magic :: u32 where
  "frame_magic = ((((CILKRTS_ABI_VERSION * 13 + 24) * 13 + 4) * 13 + 0) * 13 + 16) * 13 + 64"

record stack_frame =
  flags :: u32
  magic :: u32
  fh :: "nat option"
  frame_call_parent :: "nat option"
  fp :: u64
  sp :: u64
  frame_extension :: u64

definition has_flag :: "u32 \<Rightarrow> stack_frame \<Rightarrow> bool" where
  "has_flag f sf \<longleftrightarrow> flags sf AND f \<noteq> 0"

definition set_flag :: "u32 \<Rightarrow> stack_frame \<Rightarrow> stack_frame" where
  "set_flag f sf = sf\<lparr>flags := flags sf OR f\<rparr>"

definition clear_flag :: "u32 \<Rightarrow> stack_frame \<Rightarrow> stack_frame" where
  "clear_flag f sf = sf\<lparr>flags := flags sf AND NOT f\<rparr>"

definition set_stolen :: "stack_frame \<Rightarrow> stack_frame" where
  "set_stolen sf = sf\<lparr>flags := flags sf OR CILK_FRAME_STOLEN\<rparr>"

definition set_unsynced :: "stack_frame \<Rightarrow> stack_frame" where
  "set_unsynced sf = sf\<lparr>flags := flags sf OR CILK_FRAME_UNSYNCHED\<rparr>"

definition set_synced :: "stack_frame \<Rightarrow> stack_frame" where
  "set_synced sf = sf\<lparr>flags := flags sf AND NOT CILK_FRAME_UNSYNCHED\<rparr>"

definition stolen :: "stack_frame \<Rightarrow> bool" where
  "stolen sf \<longleftrightarrow> flags sf AND CILK_FRAME_STOLEN \<noteq> 0"

definition synced :: "stack_frame \<Rightarrow> bool" where
  "synced sf \<longleftrightarrow> flags sf AND CILK_FRAME_UNSYNCHED = 0"

definition not_stolen :: "stack_frame \<Rightarrow> bool" where
  "not_stolen sf \<longleftrightarrow> flags sf AND CILK_FRAME_STOLEN = 0"

definition throwing :: "stack_frame \<Rightarrow> bool" where
  "throwing sf \<longleftrightarrow> flags sf AND CILK_FRAME_THROWING \<noteq> 0"

definition check_frame_magic :: "stack_frame \<Rightarrow> bool" where
  "check_frame_magic sf \<longleftrightarrow> frame_magic = magic sf"

text \<open>Each flag is one bit, so tests and updates of different flags do not interfere.\<close>

lemma flag_bits:
  "f AND CILK_FRAME_STOLEN = 0 \<longleftrightarrow> \<not> bit f 0"
  "f AND CILK_FRAME_UNSYNCHED = 0 \<longleftrightarrow> \<not> bit f 1"
  "f AND CILK_FRAME_DETACHED = 0 \<longleftrightarrow> \<not> bit f 2"
  "f AND CILK_FRAME_EXCEPTION_PENDING = 0 \<longleftrightarrow> \<not> bit f 3"
  "f AND CILK_FRAME_THROWING = 0 \<longleftrightarrow> \<not> bit f 4"
  "f AND CILK_FRAME_LAST = 0 \<longleftrightarrow> \<not> bit f 7"
  for f :: u32
proof -
  have one: "f AND push_bit n 1 = 0 \<longleftrightarrow> \<not> bit f n" if "n < 32" for n and f :: u32
  proof -
    have "bit (f AND push_bit n 1) k \<longleftrightarrow> k = n \<and> bit f n" for k
      using that by (auto simp: bit_simps)
    then show ?thesis by (metis bit_0_eq bot_apply bot_bool_def bit_eq_iff)
  qed
  have c: "CILK_FRAME_STOLEN = push_bit 0 1" "CILK_FRAME_UNSYNCHED = push_bit 1 1"
    "CILK_FRAME_DETACHED = push_bit 2 1" "CILK_FRAME_EXCEPTION_PENDING = push_bit 3 1"
    "CILK_FRAME_THROWING = push_bit 4 1" "CILK_FRAME_LAST = push_bit 7 1"
    by (simp_all add: flag_defs push_bit_eq_mult)
  show "f AND CILK_FRAME_STOLEN = 0 \<longleftrightarrow> \<not> bit f 0"
    "f AND CILK_FRAME_UNSYNCHED = 0 \<longleftrightarrow> \<not> bit f 1"
    "f AND CILK_FRAME_DETACHED = 0 \<longleftrightarrow> \<not> bit f 2"
    "f AND CILK_FRAME_EXCEPTION_PENDING = 0 \<longleftrightarrow> \<not> bit f 3"
    "f AND CILK_FRAME_THROWING = 0 \<longleftrightarrow> \<not> bit f 4"
    "f AND CILK_FRAME_LAST = 0 \<longleftrightarrow> \<not> bit f 7"
    unfolding c by (rule one; simp)+
qed

lemma flag_const_bits:
  "bit CILK_FRAME_STOLEN n \<longleftrightarrow> n = 0" "bit CILK_FRAME_UNSYNCHED n \<longleftrightarrow> n = 1"
  "bit CILK_FRAME_DETACHED n \<longleftrightarrow> n = 2" "bit CILK_FRAME_EXCEPTION_PENDING n \<longleftrightarrow> n = 3"
  "bit CILK_FRAME_THROWING n \<longleftrightarrow> n = 4" "bit CILK_FRAME_LAST n \<longleftrightarrow> n = 7"
proof -
  have one: "bit (push_bit k (1 :: u32)) n \<longleftrightarrow> n = k" if "k < 32" for k
    using that by (auto simp: bit_simps)
  have c: "CILK_FRAME_STOLEN = push_bit 0 1" "CILK_FRAME_UNSYNCHED = push_bit 1 1"
    "CILK_FRAME_DETACHED = push_bit 2 1" "CILK_FRAME_EXCEPTION_PENDING = push_bit 3 1"
    "CILK_FRAME_THROWING = push_bit 4 1" "CILK_FRAME_LAST = push_bit 7 1"
    by (simp_all add: flag_defs push_bit_eq_mult)
  show "bit CILK_FRAME_STOLEN n \<longleftrightarrow> n = 0" "bit CILK_FRAME_UNSYNCHED n \<longleftrightarrow> n = 1"
    "bit CILK_FRAME_DETACHED n \<longleftrightarrow> n = 2" "bit CILK_FRAME_EXCEPTION_PENDING n \<longleftrightarrow> n = 3"
    "bit CILK_FRAME_THROWING n \<longleftrightarrow> n = 4" "bit CILK_FRAME_LAST n \<longleftrightarrow> n = 7"
    unfolding c by (rule one; simp)+
qed

lemmas frame_flag_simps = has_flag_def set_flag_def clear_flag_def set_stolen_def set_unsynced_def
  set_synced_def stolen_def synced_def not_stolen_def throwing_def

lemma bit_not_u32: "n < 32 \<Longrightarrow> bit (NOT (w :: u32)) n \<longleftrightarrow> \<not> bit w n"
  by (simp add: bit_not_iff)

lemma flag_nonzero [simp]: "CILK_FRAME_STOLEN \<noteq> 0" "CILK_FRAME_UNSYNCHED \<noteq> 0"
  by (simp_all add: flag_defs)

lemma stolen_set_stolen [simp]: "stolen (set_stolen sf)" "not_stolen (set_stolen sf) = False"
  by (simp_all add: frame_flag_simps flag_bits bit_or_iff flag_const_bits)

lemma not_stolen_iff: "not_stolen sf \<longleftrightarrow> \<not> stolen sf"
  by (simp add: frame_flag_simps)

lemma synced_set [simp]: "synced (set_synced sf)" "\<not> synced (set_unsynced sf)"
  by (simp_all add: frame_flag_simps flag_bits bit_or_iff bit_and_iff bit_not_u32 flag_const_bits)

lemma flag_frames [simp]:
  "stolen (set_unsynced sf) = stolen sf" "stolen (set_synced sf) = stolen sf"
  "synced (set_stolen sf) = synced sf" "throwing (set_stolen sf) = throwing sf"
  "throwing (set_unsynced sf) = throwing sf" "throwing (set_synced sf) = throwing sf"
  by (simp_all add: frame_flag_simps flag_bits bit_or_iff bit_and_iff bit_not_u32 flag_const_bits)

section \<open>Fiber headers\<close>

record cilk_fiber =
  fiber_worker :: "worker_id option"
  current_stack_frame :: "nat option"
  header :: u64
  alloc_low :: u64
  stack_low :: u64

definition get_fiber_start :: "cilk_fiber \<Rightarrow> u64" where
  "get_fiber_start f = alloc_low f"

definition SIZEOF_FIBER :: u64 where "SIZEOF_FIBER = 128"

definition get_fiber_end :: "cilk_fiber \<Rightarrow> u64" where
  "get_fiber_end f = header f + SIZEOF_FIBER"

definition get_stack_start :: "cilk_fiber \<Rightarrow> u64" where
  "get_stack_start f = header f"

definition in_fiber :: "cilk_fiber \<Rightarrow> u64 \<Rightarrow> bool" where
  "in_fiber f addr \<longleftrightarrow> addr \<ge> stack_low f \<and> addr \<le> header f"

definition fiber_clear :: "cilk_fiber \<Rightarrow> cilk_fiber" where
  "fiber_clear f = f\<lparr>fiber_worker := None, current_stack_frame := None\<rparr>"

end
