(* ===== verification/Fiber_Pool.thy ===== *)
theory Fiber_Pool
  imports Prelude
begin

text \<open>
  Fiber pools (\<^verbatim>\<open>runtime/fiber-pool.cpp\<close>): each worker keeps a pool of free fibers, filled from and
  emptied into one shared pool in batches, and from there into the operating system.

  A fiber is named by a number.  The array \<open>fibers\<close> of a pool with its \<open>size\<close> is the list of its
  elements, last one first, so \<open>fibers[size++] = f\<close> is a cons and \<open>fibers[--size]\<close> the head and tail.
  Mapping a new stack is the operating system's: \<open>os_fibers\<close> hands out numbers never used before
  and remembers those not unmapped yet.  The mutex of the shared pool is its owner field: a lock
  taken while another worker holds it does not complete.
\<close>

section \<open>State\<close>

record fiber_pool_stats =
  in_use :: int
  max_in_use :: int
  max_free :: nat

record fiber_pool =
  pool_mutex_owner :: worker_id
  shared :: bool
  stack_size :: u64
  fibers :: "nat list"
  pool_capacity :: nat
  stats :: fiber_pool_stats

abbreviation pool_size :: "fiber_pool \<Rightarrow> nat" where
  "pool_size p \<equiv> length (fibers p)"

record os_fibers =
  next_fiber :: nat
  mapped :: "nat list"

definition BATCH_FRACTION :: nat where
  "BATCH_FRACTION = 2"

definition cilk_fiber_allocate :: "u64 \<Rightarrow> os_fibers \<Rightarrow> nat \<times> os_fibers" where
  "cilk_fiber_allocate stacksize os =
     (next_fiber os, os\<lparr>next_fiber := Suc (next_fiber os), mapped := next_fiber os # mapped os\<rparr>)"

definition cilk_fiber_deallocate :: "nat \<Rightarrow> os_fibers \<Rightarrow> os_fibers" where
  "cilk_fiber_deallocate f os = os\<lparr>mapped := remove1 f (mapped os)\<rparr>"

section \<open>Helpers\<close>

definition zero_stats :: fiber_pool_stats where
  "zero_stats = \<lparr>in_use = 0, max_in_use = 0, max_free = 0\<rparr>"

definition fiber_pool_stat_init :: "fiber_pool \<Rightarrow> fiber_pool" where
  "fiber_pool_stat_init pool = pool\<lparr>stats := zero_stats\<rparr>"

definition fiber_pool_init :: "u64 \<Rightarrow> nat \<Rightarrow> bool \<Rightarrow> fiber_pool" where
  "fiber_pool_init stacksize bufsize is_shared =
     \<lparr>pool_mutex_owner = NO_WORKER, shared = is_shared, stack_size = stacksize, fibers = [],
      pool_capacity = bufsize, stats = zero_stats\<rparr>"

definition fiber_pool_destroy :: "fiber_pool \<Rightarrow> fiber_pool option" where
  "fiber_pool_destroy pool = do {
     cilk_assert (pool_size pool = 0);
     Some pool
   }"

definition fiber_pool_assert_ownership :: "worker_id \<Rightarrow> fiber_pool \<Rightarrow> unit option" where
  "fiber_pool_assert_ownership self pool =
     (if shared pool then cilk_assert (pool_mutex_owner pool = self) else Some ())"

definition fiber_pool_assert_alienation :: "worker_id \<Rightarrow> fiber_pool \<Rightarrow> unit option" where
  "fiber_pool_assert_alienation self pool =
     (if shared pool then cilk_assert (pool_mutex_owner pool \<noteq> self) else Some ())"

definition fiber_pool_lock :: "worker_id \<Rightarrow> fiber_pool \<Rightarrow> fiber_pool option" where
  "fiber_pool_lock self pool =
     (if shared pool then do {
        fiber_pool_assert_alienation self pool;
        if pool_mutex_owner pool = NO_WORKER then Some (pool\<lparr>pool_mutex_owner := self\<rparr>) else None
      } else Some pool)"

definition fiber_pool_unlock :: "worker_id \<Rightarrow> fiber_pool \<Rightarrow> fiber_pool option" where
  "fiber_pool_unlock self pool =
     (if shared pool then do {
        fiber_pool_assert_ownership self pool;
        Some (pool\<lparr>pool_mutex_owner := NO_WORKER\<rparr>)
      } else Some pool)"

definition fiber_pool_increase_capacity ::
    "worker_id \<Rightarrow> fiber_pool \<Rightarrow> nat \<Rightarrow> fiber_pool option" where
  "fiber_pool_increase_capacity self pool new_size = do {
     fiber_pool_assert_ownership self pool;
     Some (if pool_capacity pool < new_size then pool\<lparr>pool_capacity := new_size\<rparr> else pool)
   }"

text \<open>The loops that move \<open>n\<close> fibers from one array to another, map \<open>n\<close> new ones, unmap \<open>n\<close>.\<close>

fun move_fibers :: "nat \<Rightarrow> nat list \<Rightarrow> nat list \<Rightarrow> nat list \<times> nat list" where
  "move_fibers (Suc n) (f # src) dst = move_fibers n src (f # dst)"
| "move_fibers _ src dst = (src, dst)"

fun map_fibers :: "nat \<Rightarrow> u64 \<Rightarrow> nat list \<Rightarrow> os_fibers \<Rightarrow> nat list \<times> os_fibers" where
  "map_fibers 0 stacksize fs os = (fs, os)"
| "map_fibers (Suc n) stacksize fs os =
     (let (f, os') = cilk_fiber_allocate stacksize os in map_fibers n stacksize (f # fs) os')"

fun unmap_fibers :: "nat \<Rightarrow> nat list \<Rightarrow> os_fibers \<Rightarrow> nat list \<times> os_fibers" where
  "unmap_fibers (Suc n) (f # fs) os = unmap_fibers n fs (cilk_fiber_deallocate f os)"
| "unmap_fibers _ fs os = (fs, os)"

text \<open>The statistics after fibers left or entered a pool.\<close>

definition stat_in_use :: "int \<Rightarrow> fiber_pool \<Rightarrow> fiber_pool" where
  "stat_in_use n pool =
     (let u = in_use (stats pool) + n
      in pool\<lparr>stats := (stats pool)\<lparr>in_use := u,
                max_in_use := (if u > max_in_use (stats pool) then u else max_in_use (stats pool))\<rparr>\<rparr>)"

definition stat_free :: "fiber_pool \<Rightarrow> fiber_pool" where
  "stat_free pool =
     (if pool_size pool > max_free (stats pool)
      then pool\<lparr>stats := (stats pool)\<lparr>max_free := pool_size pool\<rparr>\<rparr> else pool)"

section \<open>Batches\<close>

text \<open>The parent pool is \<open>None\<close> for the shared pool itself.\<close>

definition fiber_pool_allocate_batch ::
    "worker_id \<Rightarrow> fiber_pool \<Rightarrow> fiber_pool option \<Rightarrow> os_fibers \<Rightarrow> nat \<Rightarrow>
     (fiber_pool \<times> fiber_pool option \<times> os_fibers) option" where
  "fiber_pool_allocate_batch self pool parent os batch_size =
     (if batch_size = 0 then Some (pool, parent, os)
      else do {
        fiber_pool_assert_ownership self pool;
        pool1 \<leftarrow> fiber_pool_increase_capacity self pool (batch_size + pool_size pool);
        (pool2, parent2, from_parent) \<leftarrow>
          (case parent of
             None \<Rightarrow> Some (pool1, None, 0)
           | Some p \<Rightarrow> do {
               p1 \<leftarrow> fiber_pool_lock self p;
               let from_parent = (if pool_size p1 \<le> batch_size then pool_size p1 else batch_size);
               let (pfs, fs) = move_fibers from_parent (fibers p1) (fibers pool1);
               p2 \<leftarrow> fiber_pool_unlock self (stat_in_use (int from_parent) (p1\<lparr>fibers := pfs\<rparr>));
               Some (pool1\<lparr>fibers := fs\<rparr>, Some p2, from_parent)
             });
        let (fs, os') =
          (if batch_size > from_parent
           then map_fibers (batch_size - from_parent) (stack_size pool2) (fibers pool2) os
           else (fibers pool2, os));
        Some (stat_free (pool2\<lparr>fibers := fs\<rparr>), parent2, os')
      })"

definition fiber_pool_free_batch ::
    "worker_id \<Rightarrow> fiber_pool \<Rightarrow> fiber_pool option \<Rightarrow> os_fibers \<Rightarrow> nat \<Rightarrow>
     (fiber_pool \<times> fiber_pool option \<times> os_fibers) option" where
  "fiber_pool_free_batch self pool parent os batch_size = do {
     fiber_pool_assert_ownership self pool;
     cilk_assert (batch_size \<le> pool_size pool);
     (pool1, parent1, to_parent) \<leftarrow>
       (case parent of
          None \<Rightarrow> Some (pool, None, 0)
        | Some p \<Rightarrow> do {
            p1 \<leftarrow> fiber_pool_lock self p;
            let to_parent = (if batch_size \<le> pool_capacity p1 - pool_size p1 then batch_size
                             else pool_capacity p1 - pool_size p1);
            let (fs, pfs) = move_fibers to_parent (fibers pool) (fibers p1);
            let p2 = p1\<lparr>fibers := pfs\<rparr>;
            cilk_assert (pool_size p2 \<le> pool_capacity p2);
            let p3 = stat_free (p2\<lparr>stats := (stats p2)\<lparr>in_use := in_use (stats p2) - int to_parent\<rparr>\<rparr>);
            p4 \<leftarrow> fiber_pool_unlock self p3;
            Some (pool\<lparr>fibers := fs\<rparr>, Some p4, to_parent)
          });
     let (fs, os') =
       (if batch_size - to_parent > 0
        then unmap_fibers (batch_size - to_parent) (fibers pool1) os
        else (fibers pool1, os));
     Some (pool1\<lparr>fibers := fs\<rparr>, parent1, os')
   }"

definition fiber_pool_decrease_capacity ::
    "worker_id \<Rightarrow> fiber_pool \<Rightarrow> fiber_pool option \<Rightarrow> os_fibers \<Rightarrow> nat \<Rightarrow>
     (fiber_pool \<times> fiber_pool option \<times> os_fibers) option" where
  "fiber_pool_decrease_capacity self pool parent os new_size = do {
     fiber_pool_assert_ownership self pool;
     (pool1, parent1, os1) \<leftarrow>
       (if pool_size pool > new_size then do {
          (p, q, o1) \<leftarrow> fiber_pool_free_batch self pool parent os (pool_size pool - new_size);
          cilk_assert (pool_size p = new_size);
          Some (p, q, o1)
        } else Some (pool, parent, os));
     Some (if pool_capacity pool1 > new_size then pool1\<lparr>pool_capacity := new_size\<rparr> else pool1,
           parent1, os1)
   }"

section \<open>The pool operations of a worker\<close>

record fiber_options =
  opt_nproc :: nat
  opt_fiber_pool_cap :: nat
  opt_stacksize :: u64

definition cilk_fiber_pool_global_init :: "fiber_options \<Rightarrow> fiber_pool" where
  "cilk_fiber_pool_global_init options =
     fiber_pool_stat_init
       (fiber_pool_init (opt_stacksize options) (opt_nproc options * opt_fiber_pool_cap options mod 2 ^ 32) True)"

text \<open>The shared pool at shutdown: every fiber left in it is unmapped.\<close>

definition cilk_fiber_pool_global_terminate ::
    "fiber_pool \<Rightarrow> os_fibers \<Rightarrow> fiber_pool \<times> os_fibers" where
  "cilk_fiber_pool_global_terminate pool os =
     (let (fs, os') = unmap_fibers (pool_size pool) (fibers pool) os in (pool\<lparr>fibers := fs\<rparr>, os'))"

definition cilk_fiber_pool_per_worker_zero_init :: "fiber_pool \<Rightarrow> fiber_pool" where
  "cilk_fiber_pool_per_worker_zero_init pool = pool\<lparr>fibers := []\<rparr>"

definition cilk_fiber_pool_per_worker_init ::
    "worker_id \<Rightarrow> fiber_options \<Rightarrow> fiber_pool \<Rightarrow> os_fibers \<Rightarrow>
     (fiber_pool \<times> fiber_pool option \<times> os_fibers) option" where
  "cilk_fiber_pool_per_worker_init self options gpool os = do {
     let bufsize = opt_fiber_pool_cap options;
     let pool = fiber_pool_init (opt_stacksize options) bufsize False;
     cilk_assert (stack_size gpool = stack_size pool);
     fiber_pool_allocate_batch self (fiber_pool_stat_init pool) (Some gpool) os
       (bufsize div BATCH_FRACTION)
   }"

definition cilk_fiber_pool_per_worker_terminate ::
    "fiber_pool \<Rightarrow> os_fibers \<Rightarrow> fiber_pool \<times> os_fibers" where
  "cilk_fiber_pool_per_worker_terminate pool os =
     (let (fs, os') = unmap_fibers (pool_size pool) (fibers pool) os in (pool\<lparr>fibers := fs\<rparr>, os'))"

definition cilk_fiber_allocate_from_pool ::
    "worker_id \<Rightarrow> fiber_pool \<Rightarrow> fiber_pool option \<Rightarrow> os_fibers \<Rightarrow>
     (nat \<times> fiber_pool \<times> fiber_pool option \<times> os_fibers) option" where
  "cilk_fiber_allocate_from_pool self pool parent os =
     (if pool_capacity pool = 0 then
        (let (f, os') = cilk_fiber_allocate (stack_size pool) os in Some (f, pool, parent, os'))
      else do {
        (pool1, parent1, os1) \<leftarrow>
          (if pool_size pool = 0
           then fiber_pool_allocate_batch self pool parent os (pool_capacity pool div BATCH_FRACTION)
           else Some (pool, parent, os));
        (case fibers pool1 of
           [] \<Rightarrow> None
         | ret # fs \<Rightarrow> Some (ret, stat_in_use 1 (pool1\<lparr>fibers := fs\<rparr>), parent1, os1))
      })"

definition cilk_fiber_deallocate_to_pool ::
    "worker_id \<Rightarrow> nat option \<Rightarrow> fiber_pool \<Rightarrow> fiber_pool option \<Rightarrow> os_fibers \<Rightarrow>
     (fiber_pool \<times> fiber_pool option \<times> os_fibers) option" where
  "cilk_fiber_deallocate_to_pool self fiber_to_return pool parent os =
     (if pool_capacity pool = 0 then
        (case fiber_to_return of
           None \<Rightarrow> Some (pool, parent, os)
         | Some f \<Rightarrow> Some (pool, parent, cilk_fiber_deallocate f os))
      else do {
        (pool1, parent1, os1) \<leftarrow>
          (if pool_size pool = pool_capacity pool then do {
             (p, q, o1) \<leftarrow>
               fiber_pool_free_batch self pool parent os (pool_capacity pool div BATCH_FRACTION);
             cilk_assert (pool_capacity p - pool_size p \<ge> pool_capacity p div BATCH_FRACTION);
             Some (p, q, o1)
           } else Some (pool, parent, os));
        (case fiber_to_return of
           None \<Rightarrow> Some (pool1, parent1, os1)
         | Some f \<Rightarrow>
             (let pool2 = pool1\<lparr>fibers := f # fibers pool1\<rparr>
              in Some (stat_free (pool2\<lparr>stats := (stats pool2)\<lparr>in_use := in_use (stats pool2) - 1\<rparr>\<rparr>),
                       parent1, os1)))
      })"

section \<open>What the pools hold\<close>

definition parent_fibers :: "fiber_pool option \<Rightarrow> nat list" where
  "parent_fibers parent = (case parent of None \<Rightarrow> [] | Some p \<Rightarrow> fibers p)"

text \<open>The mapped fibers are those in the two pools and those in use, each once.\<close>

definition accounted :: "nat multiset \<Rightarrow> fiber_pool \<Rightarrow> fiber_pool option \<Rightarrow> os_fibers \<Rightarrow> bool" where
  "accounted used pool parent os \<longleftrightarrow>
     mset (mapped os) = mset (fibers pool) + mset (parent_fibers parent) + used \<and>
     distinct (mapped os) \<and> (\<forall>f\<in>set (mapped os). f < next_fiber os)"

definition pool_ok :: "fiber_pool \<Rightarrow> bool" where
  "pool_ok pool \<longleftrightarrow> \<not> shared pool \<and> pool_capacity pool \<noteq> 1 \<and> pool_size pool \<le> pool_capacity pool"

definition parent_ok :: "worker_id \<Rightarrow> fiber_pool option \<Rightarrow> bool" where
  "parent_ok self parent \<longleftrightarrow> (case parent of None \<Rightarrow> True
     | Some p \<Rightarrow> shared p \<and> pool_mutex_owner p = NO_WORKER \<and> self \<noteq> NO_WORKER \<and>
         pool_size p \<le> pool_capacity p)"

lemma move_fibers_spec:
  "n \<le> length src \<Longrightarrow> move_fibers n src dst = (drop n src, rev (take n src) @ dst)"
  by (induction n src dst rule: move_fibers.induct) auto

lemma move_fibers_mset:
  "n \<le> length src \<Longrightarrow> move_fibers n src dst = (src', dst') \<Longrightarrow>
   mset src' + mset dst' = mset src + mset dst \<and> length src' = length src - n \<and>
   length dst' = length dst + n"
  by (auto simp: move_fibers_spec) (metis append_take_drop_id mset_append union_commute)

lemma map_fibers_accounted:
  "map_fibers n sz fs os = (fs', os') \<Longrightarrow>
   mset (mapped os) = mset fs + rest \<Longrightarrow> distinct (mapped os) \<Longrightarrow>
   (\<forall>f\<in>set (mapped os). f < next_fiber os) \<Longrightarrow>
   mset (mapped os') = mset fs' + rest \<and> distinct (mapped os') \<and>
   (\<forall>f\<in>set (mapped os'). f < next_fiber os') \<and> length fs' = length fs + n"
proof (induction n arbitrary: fs os)
  case (Suc n)
  show ?case
    using Suc.IH [of "next_fiber os # fs"
        "os\<lparr>next_fiber := Suc (next_fiber os), mapped := next_fiber os # mapped os\<rparr>"] Suc.prems
    by (auto simp: cilk_fiber_allocate_def Let_def less_Suc_eq)
qed simp

lemma unmap_fibers_accounted:
  "unmap_fibers n fs os = (fs', os') \<Longrightarrow> n \<le> length fs \<Longrightarrow>
   mset (mapped os) = mset fs + rest \<Longrightarrow> distinct (mapped os) \<Longrightarrow>
   (\<forall>f\<in>set (mapped os). f < next_fiber os) \<Longrightarrow>
   mset (mapped os') = mset fs' + rest \<and> distinct (mapped os') \<and>
   (\<forall>f\<in>set (mapped os'). f < next_fiber os') \<and> length fs' = length fs - n \<and> fs' = drop n fs"
proof (induction n fs os rule: unmap_fibers.induct)
  case (1 n f fs os)
  have "set (remove1 f (mapped os)) \<subseteq> set (mapped os)" by (rule set_remove1_subset)
  then show ?case using 1 by (auto simp: cilk_fiber_deallocate_def)
qed auto

lemma stat_fields [simp]:
  "fibers (stat_in_use n p) = fibers p" "fibers (stat_free p) = fibers p"
  "pool_capacity (stat_in_use n p) = pool_capacity p" "pool_capacity (stat_free p) = pool_capacity p"
  "shared (stat_in_use n p) = shared p" "shared (stat_free p) = shared p"
  "pool_mutex_owner (stat_in_use n p) = pool_mutex_owner p"
  "pool_mutex_owner (stat_free p) = pool_mutex_owner p"
  by (simp_all add: stat_in_use_def stat_free_def Let_def)

text \<open>Filling a worker's pool: it gains exactly the batch, from the shared pool first.\<close>

lemma allocate_batch_ok:
  assumes p: "\<not> shared pool" and q: "parent_ok self parent"
    and a: "accounted used pool parent os" and n: "batch_size + pool_size pool \<le> pool_capacity pool"
  shows "\<exists>pool' parent' os'. fiber_pool_allocate_batch self pool parent os batch_size =
      Some (pool', parent', os') \<and> accounted used pool' parent' os' \<and> parent_ok self parent' \<and>
    pool_size pool' = pool_size pool + batch_size \<and> pool_capacity pool' = pool_capacity pool \<and>
    \<not> shared pool'"
proof (cases "batch_size = 0")
  case True
  then show ?thesis using assms by (simp add: fiber_pool_allocate_batch_def)
next
  case False
  have inc: "fiber_pool_increase_capacity self pool (batch_size + pool_size pool) = Some pool"
    using p n by (simp add: fiber_pool_increase_capacity_def fiber_pool_assert_ownership_def)
  have own: "fiber_pool_assert_ownership self pool = Some ()"
    using p by (simp add: fiber_pool_assert_ownership_def)
  show ?thesis
  proof (cases parent)
    case None
    obtain fs os' where m: "map_fibers batch_size (stack_size pool) (fibers pool) os = (fs, os')"
      by fastforce
    show ?thesis
      using map_fibers_accounted [OF m, of used] a None False inc own m p
      by (auto simp: fiber_pool_allocate_batch_def accounted_def parent_fibers_def parent_ok_def)
  next
    case (Some g)
    have g: "shared g" "pool_mutex_owner g = NO_WORKER" "self \<noteq> NO_WORKER"
      "pool_size g \<le> pool_capacity g" using q Some by (simp_all add: parent_ok_def)
    let ?k = "if pool_size g \<le> batch_size then pool_size g else batch_size"
    obtain pfs fs where mv: "move_fibers ?k (fibers g) (fibers pool) = (pfs, fs)" by fastforce
    have k: "?k \<le> length (fibers g)" by simp
    note mm = move_fibers_mset [OF k mv]
    let ?rest = "mset pfs + used"
    have a1: "mset (mapped os) = mset fs + ?rest"
      using a Some mm by (simp add: accounted_def parent_fibers_def ac_simps)
    obtain fs' os' where m: "(if batch_size > ?k then map_fibers (batch_size - ?k) (stack_size pool) fs os
        else (fs, os)) = (fs', os')" by fastforce
    have a2: "mset (mapped os') = mset fs' + ?rest \<and> distinct (mapped os') \<and>
        (\<forall>f\<in>set (mapped os'). f < next_fiber os') \<and> length fs' = length fs + (batch_size - ?k)"
    proof (cases "batch_size > ?k")
      case True
      then have "map_fibers (batch_size - ?k) (stack_size pool) fs os = (fs', os')" using m by simp
      from map_fibers_accounted [OF this a1] show ?thesis using a by (simp add: accounted_def)
    next
      case False
      then show ?thesis using m a a1 by (auto simp: accounted_def split: if_splits)
    qed
    let ?p = "stat_free (pool\<lparr>fibers := fs'\<rparr>)"
    let ?g = "(stat_in_use (int ?k) (g\<lparr>pool_mutex_owner := self, fibers := pfs\<rparr>))
      \<lparr>pool_mutex_owner := NO_WORKER\<rparr>"
    have lk: "fiber_pool_lock self g = Some (g\<lparr>pool_mutex_owner := self\<rparr>)"
      using g by (simp add: fiber_pool_lock_def fiber_pool_assert_alienation_def)
    have ul: "fiber_pool_unlock self (stat_in_use (int ?k) (g\<lparr>pool_mutex_owner := self, fibers := pfs\<rparr>))
        = Some ?g"
      using g by (simp add: fiber_pool_unlock_def fiber_pool_assert_ownership_def)
    have e: "fiber_pool_allocate_batch self pool parent os batch_size = Some (?p, Some ?g, os')"
      unfolding fiber_pool_allocate_batch_def Some
      using False mv ul m
      by (cases "pool_size g \<le> batch_size") (simp_all add: own inc lk Let_def split: if_splits)
    have "accounted used ?p (Some ?g) os'"
      using a2 by (simp add: accounted_def parent_fibers_def ac_simps)
    moreover have "parent_ok self (Some ?g)" using g mm by (simp add: parent_ok_def)
    moreover have "pool_size ?p = pool_size pool + batch_size" using a2 mm by simp
    ultimately show ?thesis using e p by auto
  qed
qed

lemma free_batch_ok:
  assumes p: "\<not> shared pool" and q: "parent_ok self parent"
    and a: "accounted used pool parent os" and n: "batch_size \<le> pool_size pool"
  shows "\<exists>pool' parent' os'. fiber_pool_free_batch self pool parent os batch_size =
      Some (pool', parent', os') \<and> accounted used pool' parent' os' \<and> parent_ok self parent' \<and>
    pool_size pool' = pool_size pool - batch_size \<and> pool_capacity pool' = pool_capacity pool \<and>
    \<not> shared pool'"
proof -
  have own: "fiber_pool_assert_ownership self pool = Some ()"
    using p by (simp add: fiber_pool_assert_ownership_def)
  show ?thesis
  proof (cases parent)
    case None
    obtain fs os' where m: "unmap_fibers batch_size (fibers pool) os = (fs, os')" by fastforce
    show ?thesis
    proof -
      have a1: "mset (mapped os) = mset (fibers pool) + used"
        using a None by (simp add: accounted_def parent_fibers_def)
      have r: "mset (mapped os') = mset fs + used \<and> distinct (mapped os') \<and>
          (\<forall>f\<in>set (mapped os'). f < next_fiber os') \<and> length fs = length (fibers pool) - batch_size"
        using unmap_fibers_accounted [OF m n a1] a by (simp add: accounted_def)
      have e: "fiber_pool_free_batch self pool parent os batch_size =
          Some (pool\<lparr>fibers := fs\<rparr>, None, os')"
        using None own m n by (cases batch_size) (simp_all add: fiber_pool_free_batch_def)
      show ?thesis using e r p by (simp add: accounted_def parent_fibers_def parent_ok_def)
    qed
  next
    case (Some g)
    have g: "shared g" "pool_mutex_owner g = NO_WORKER" "self \<noteq> NO_WORKER"
      "pool_size g \<le> pool_capacity g" using q Some by (simp_all add: parent_ok_def)
    let ?k = "if batch_size \<le> pool_capacity g - pool_size g then batch_size
      else pool_capacity g - pool_size g"
    obtain fs pfs where mv: "move_fibers ?k (fibers pool) (fibers g) = (fs, pfs)" by fastforce
    have k: "?k \<le> length (fibers pool)" using n by simp
    note mm = move_fibers_mset [OF k mv]
    let ?rest = "mset pfs + used"
    have a1: "mset (mapped os) = mset fs + ?rest"
      using a Some mm by (simp add: accounted_def parent_fibers_def ac_simps)
    obtain fs' os' where m: "(if batch_size - ?k > 0 then unmap_fibers (batch_size - ?k) fs os
        else (fs, os)) = (fs', os')" by fastforce
    have a2: "mset (mapped os') = mset fs' + ?rest \<and> distinct (mapped os') \<and>
        (\<forall>f\<in>set (mapped os'). f < next_fiber os') \<and> length fs' = length fs - (batch_size - ?k)"
    proof (cases "batch_size - ?k > 0")
      case True
      then have u: "unmap_fibers (batch_size - ?k) fs os = (fs', os')" using m by simp
      have le: "batch_size - ?k \<le> length fs" using mm n by simp
      from unmap_fibers_accounted [OF u le a1] show ?thesis using a by (simp add: accounted_def)
    next
      case False
      then show ?thesis using m a a1 by (auto simp: accounted_def split: if_splits)
    qed
    have cap: "length pfs \<le> pool_capacity g"
      using mm g(4) by (cases "batch_size \<le> pool_capacity g - pool_size g") simp_all
    let ?p = "pool\<lparr>fibers := fs'\<rparr>"
    let ?g1 = "g\<lparr>pool_mutex_owner := self, fibers := pfs\<rparr>"
    let ?g2 = "stat_free (?g1\<lparr>stats := (stats ?g1)\<lparr>in_use := in_use (stats ?g1) - int ?k\<rparr>\<rparr>)"
    let ?g = "?g2\<lparr>pool_mutex_owner := NO_WORKER\<rparr>"
    have lk: "fiber_pool_lock self g = Some (g\<lparr>pool_mutex_owner := self\<rparr>)"
      using g by (simp add: fiber_pool_lock_def fiber_pool_assert_alienation_def)
    have ul: "fiber_pool_unlock self ?g2 = Some ?g"
      using g by (simp add: fiber_pool_unlock_def fiber_pool_assert_ownership_def)
    have e: "fiber_pool_free_batch self pool parent os batch_size = Some (?p, Some ?g, os')"
      unfolding fiber_pool_free_batch_def Some
      using n cap m mv ul
      by (cases "batch_size \<le> pool_capacity g - pool_size g")
        (simp_all add: own lk Let_def split: if_splits)
    have "accounted used ?p (Some ?g) os'"
      using a2 by (simp add: accounted_def parent_fibers_def ac_simps)
    moreover have "parent_ok self (Some ?g)" using g cap by (simp add: parent_ok_def)
    moreover have "pool_size ?p = pool_size pool - batch_size" using a2 mm n by auto
    ultimately show ?thesis using e p by auto
  qed
qed

section \<open>The interface to the scheduler\<close>

text \<open>A source of fibers: what is handed out was not in use, and comes back without a trace.\<close>

locale fiber_source =
  fixes ok :: "nat multiset \<Rightarrow> 's \<Rightarrow> bool"
    and alloc :: "'s \<Rightarrow> (nat \<times> 's) option"
    and dealloc :: "nat \<Rightarrow> 's \<Rightarrow> 's option"
  assumes distinct_used: "ok used s \<Longrightarrow> count used f \<le> 1"
    and alloc_law: "ok used s \<Longrightarrow> \<exists>f s'. alloc s = Some (f, s') \<and> ok (add_mset f used) s'"
    and dealloc_law: "ok (add_mset f used) s \<Longrightarrow> \<exists>s'. dealloc f s = Some s' \<and> ok used s'"

context fiber_source
begin

lemma alloc_fresh:
  assumes "ok used s"
  shows "\<exists>f s'. alloc s = Some (f, s') \<and> ok (add_mset f used) s' \<and> f \<notin># used"
proof -
  obtain f s' where f: "alloc s = Some (f, s')" "ok (add_mset f used) s'"
    using alloc_law [OF assms] by blast
  have "count (add_mset f used) f \<le> 1" by (rule distinct_used [OF f(2)])
  then have "f \<notin># used" by (simp add: not_in_iff)
  then show ?thesis using f by blast
qed

lemma alloc_dealloc:
  assumes "ok used s"
  shows "\<exists>f s' s''. alloc s = Some (f, s') \<and> dealloc f s' = Some s'' \<and> ok used s''"
  using alloc_law [OF assms] dealloc_law by blast

end

definition pools_ok :: "worker_id \<Rightarrow> nat multiset \<Rightarrow> fiber_pool \<times> fiber_pool option \<times> os_fibers \<Rightarrow> bool" where
  "pools_ok self used s \<longleftrightarrow> (case s of (pool, parent, os) \<Rightarrow>
     pool_ok pool \<and> parent_ok self parent \<and> accounted used pool parent os)"

lemma allocate_from_pool_ok:
  assumes p: "pool_ok pool" and q: "parent_ok self parent" and a: "accounted used pool parent os"
  shows "\<exists>f pool' parent' os'. cilk_fiber_allocate_from_pool self pool parent os =
      Some (f, pool', parent', os') \<and> pool_ok pool' \<and> parent_ok self parent' \<and>
    accounted (add_mset f used) pool' parent' os' \<and> pool_capacity pool' = pool_capacity pool"
proof (cases "pool_capacity pool = 0")
  case True
  then show ?thesis
    using assms by (auto simp: cilk_fiber_allocate_from_pool_def cilk_fiber_allocate_def accounted_def
        Let_def less_Suc_eq)
next
  case cap: False
  have take: "\<exists>f pool' parent' os'. (case fibers pool1 of [] \<Rightarrow> None
         | ret # fs \<Rightarrow> Some (ret, stat_in_use 1 (pool1\<lparr>fibers := fs\<rparr>), parent1, os1)) =
        Some (f, pool', parent', os') \<and> pool_ok pool' \<and> parent_ok self parent' \<and>
      accounted (add_mset f used) pool' parent' os' \<and> pool_capacity pool' = pool_capacity pool"
    if "pool_ok pool1" "parent_ok self parent1" "accounted used pool1 parent1 os1"
      "0 < pool_size pool1" "pool_capacity pool1 = pool_capacity pool" for pool1 parent1 os1
    using that by (cases "fibers pool1") (auto simp: pool_ok_def accounted_def)
  show ?thesis
  proof (cases "pool_size pool = 0")
    case False
    then show ?thesis using take [OF assms] cap by (simp add: cilk_fiber_allocate_from_pool_def)
  next
    case True
    have half: "0 < pool_capacity pool div BATCH_FRACTION"
      using p cap by (simp add: pool_ok_def BATCH_FRACTION_def)
    have "pool_capacity pool div BATCH_FRACTION + pool_size pool \<le> pool_capacity pool"
      using True by simp
    then obtain pool1 parent1 os1 where b: "fiber_pool_allocate_batch self pool parent os
        (pool_capacity pool div BATCH_FRACTION) = Some (pool1, parent1, os1)"
      "accounted used pool1 parent1 os1" "parent_ok self parent1"
      "pool_size pool1 = pool_size pool + pool_capacity pool div BATCH_FRACTION"
      "pool_capacity pool1 = pool_capacity pool" "\<not> shared pool1"
      using allocate_batch_ok [of pool self parent used os] p q a unfolding pool_ok_def by blast
    have "pool_ok pool1" using b p True by (simp add: pool_ok_def)
    then show ?thesis using take [of pool1 parent1 os1] b half True cap
      by (simp add: cilk_fiber_allocate_from_pool_def)
  qed
qed

lemma deallocate_to_pool_ok:
  assumes p: "pool_ok pool" and q: "parent_ok self parent"
    and a: "accounted (add_mset f used) pool parent os"
  shows "\<exists>pool' parent' os'. cilk_fiber_deallocate_to_pool self (Some f) pool parent os =
      Some (pool', parent', os') \<and> pool_ok pool' \<and> parent_ok self parent' \<and>
    accounted used pool' parent' os' \<and> pool_capacity pool' = pool_capacity pool"
proof (cases "pool_capacity pool = 0")
  case True
  have "set (remove1 f (mapped os)) \<subseteq> set (mapped os)" by (rule set_remove1_subset)
  then show ?thesis
    using True assms by (auto simp: cilk_fiber_deallocate_to_pool_def cilk_fiber_deallocate_def accounted_def)
next
  case cap: False
  have put: "pool_ok (pool1\<lparr>fibers := f # fibers pool1\<rparr>) \<and>
      accounted used (pool1\<lparr>fibers := f # fibers pool1\<rparr>) parent1 os1"
    if "pool_ok pool1" "accounted (add_mset f used) pool1 parent1 os1"
      "pool_size pool1 < pool_capacity pool1" for pool1 parent1 os1
    using that by (auto simp: pool_ok_def accounted_def)
  show ?thesis
  proof (cases "pool_size pool = pool_capacity pool")
    case False
    then have "pool_size pool < pool_capacity pool" using p by (simp add: pool_ok_def)
    then show ?thesis using put [OF p a] q cap False
      by (auto simp: cilk_fiber_deallocate_to_pool_def Let_def pool_ok_def accounted_def)
  next
    case True
    have le: "pool_capacity pool div BATCH_FRACTION \<le> pool_size pool" using True by simp
    have ns: "\<not> shared pool" using p by (simp add: pool_ok_def)
    obtain pool1 parent1 os1 where b: "fiber_pool_free_batch self pool parent os
        (pool_capacity pool div BATCH_FRACTION) = Some (pool1, parent1, os1)"
      "accounted (add_mset f used) pool1 parent1 os1" "parent_ok self parent1"
      "pool_size pool1 = pool_size pool - pool_capacity pool div BATCH_FRACTION"
      "pool_capacity pool1 = pool_capacity pool" "\<not> shared pool1"
      using free_batch_ok [OF ns q a le] by blast
    have half: "0 < pool_capacity pool div BATCH_FRACTION"
      using p cap by (simp add: pool_ok_def BATCH_FRACTION_def)
    have ok1: "pool_ok pool1" using b p True by (simp add: pool_ok_def)
    have lt: "pool_size pool1 < pool_capacity pool1" using b half True cap by simp
    have ge: "pool_capacity pool1 - pool_size pool1 \<ge> pool_capacity pool1 div BATCH_FRACTION"
      using b True by simp
    show ?thesis using put [OF ok1 b(2) lt] b ge True cap
      by (auto simp: cilk_fiber_deallocate_to_pool_def Let_def pool_ok_def accounted_def)
  qed
qed

lemma accounted_count: "accounted used pool parent os \<Longrightarrow> count used f \<le> 1"
proof -
  assume a: "accounted used pool parent os"
  then have "distinct (mapped os)" by (simp add: accounted_def)
  then have "\<forall>f. count (mset (mapped os)) f = (if f \<in> set (mapped os) then 1 else 0)"
    by (rule distinct_count_atmost_1 [THEN iffD1])
  then have "count (mset (mapped os)) f \<le> 1" by simp
  then show ?thesis using a by (simp add: accounted_def)
qed

definition pool_alloc ::
    "worker_id \<Rightarrow> fiber_pool \<times> fiber_pool option \<times> os_fibers \<Rightarrow>
     (nat \<times> fiber_pool \<times> fiber_pool option \<times> os_fibers) option" where
  "pool_alloc self s = (case s of (pool, parent, os) \<Rightarrow> cilk_fiber_allocate_from_pool self pool parent os)"

definition pool_dealloc ::
    "worker_id \<Rightarrow> nat \<Rightarrow> fiber_pool \<times> fiber_pool option \<times> os_fibers \<Rightarrow>
     (fiber_pool \<times> fiber_pool option \<times> os_fibers) option" where
  "pool_dealloc self f s =
     (case s of (pool, parent, os) \<Rightarrow> cilk_fiber_deallocate_to_pool self (Some f) pool parent os)"

interpretation pools: fiber_source "pools_ok self" "pool_alloc self" "pool_dealloc self"
proof unfold_locales
  fix used s f assume "pools_ok self used s"
  moreover obtain pool parent os where "s = (pool, parent, os)" by (cases s)
  ultimately have "accounted used pool parent os" by (simp add: pools_ok_def)
  then show "count used f \<le> 1" by (rule accounted_count)
next
  fix used s assume s: "pools_ok self used s"
  obtain pool parent os where e: "s = (pool, parent, os)" by (cases s)
  obtain f pool' parent' os' where "cilk_fiber_allocate_from_pool self pool parent os =
      Some (f, pool', parent', os')" "pool_ok pool'" "parent_ok self parent'"
    "accounted (add_mset f used) pool' parent' os'"
    using allocate_from_pool_ok [of pool self parent used os] s by (auto simp: pools_ok_def e)
  then show "\<exists>f s'. pool_alloc self s = Some (f, s') \<and> pools_ok self (add_mset f used) s'"
    by (simp add: pools_ok_def pool_alloc_def e)
next
  fix f used s assume s: "pools_ok self (add_mset f used) s"
  obtain pool parent os where e: "s = (pool, parent, os)" by (cases s)
  obtain pool' parent' os' where "cilk_fiber_deallocate_to_pool self (Some f) pool parent os =
      Some (pool', parent', os')" "pool_ok pool'" "parent_ok self parent'"
    "accounted used pool' parent' os'"
    using deallocate_to_pool_ok [of pool self parent f used os] s by (auto simp: pools_ok_def e)
  then show "\<exists>s'. pool_dealloc self f s = Some s' \<and> pools_ok self used s'"
    by (simp add: pools_ok_def pool_dealloc_def e)
qed

end
