(* ===== verification/Closures.thy ===== *)
theory Closures
  imports Frames Fiber_Pool
begin

text \<open>
  The state of the scheduler and the operations on closures (\<^verbatim>\<open>runtime/closure.h\<close>, the \<open>Closure::\<close>
  functions of \<^verbatim>\<open>runtime/scheduler.cpp\<close>, \<^verbatim>\<open>runtime/busyclosure.h\<close>).

  The state is one record: the heaps of frames, fibers and closures, the workers with their local
  state, and the busy closure of each worker.  A lock is its owner field.  An operation returns
  \<open>None\<close> when an assertion fails, a null pointer is followed, or a lock it waits for is held.  A weak
  compare-and-swap may fail for no reason: the try operations take that choice as an argument.
  Reducer tables are values of a type \<open>'h\<close>; the deque pointers of a worker are indices into its
  shadow stack.
\<close>

section \<open>State\<close>

datatype closure_status =
    CLOSURE_RUNNING | CLOSURE_SUSPENDED | CLOSURE_RETURNING | CLOSURE_READY
  | CLOSURE_PRE_INVALID | CLOSURE_POST_INVALID

fun status_code :: "closure_status \<Rightarrow> nat" where
  "status_code CLOSURE_RUNNING = 42"
| "status_code CLOSURE_SUSPENDED = 43"
| "status_code CLOSURE_RETURNING = 44"
| "status_code CLOSURE_READY = 45"
| "status_code CLOSURE_PRE_INVALID = 46"
| "status_code CLOSURE_POST_INVALID = 47"

instantiation closure_status :: linorder
begin

definition less_eq_closure_status :: "closure_status \<Rightarrow> closure_status \<Rightarrow> bool" where
  "less_eq_closure_status a b \<longleftrightarrow> status_code a \<le> status_code b"

definition less_closure_status :: "closure_status \<Rightarrow> closure_status \<Rightarrow> bool" where
  "less_closure_status a b \<longleftrightarrow> status_code a < status_code b"

instance
proof
  fix a b :: closure_status
  show "a \<le> b \<Longrightarrow> b \<le> a \<Longrightarrow> a = b"
    by (cases a; cases b) (simp_all add: less_eq_closure_status_def)
qed (auto simp: less_eq_closure_status_def less_closure_status_def)

end

record 'h closure =
  cl_frame :: "nat option"
  cl_fiber :: "nat option"
  fiber_child :: "nat option"
  ext_fiber :: "nat option"
  ext_fiber_child :: "nat option"
  cl_owner :: worker_id
  cl_status :: closure_status
  exception_pending :: bool
  join_counter :: u32
  orig_rsp :: u64
  call_parent :: "nat option"
  spawn_parent :: "nat option"
  left_sib :: "nat option"
  right_sib :: "nat option"
  right_most_child :: "nat option"
  right_ht :: "'h option"
  child_ht :: "'h option"
  user_ht :: "'h option"
  cl_mutex :: worker_id

datatype worker_state = WORKER_IDLE | WORKER_SCHED | WORKER_STEAL | WORKER_RUN

record 'h worker =
  hyper_ht :: "'h option"
  extension :: u64
  ext_stack :: u64
  tail :: int
  exc :: int
  head :: int
  ltq_limit :: int
  shadow_stack :: "int \<Rightarrow> nat"

record 'h local_state =
  state :: worker_state
  provably_good_steal :: bool
  exiting :: bool
  returning :: bool
  rand_next :: u32
  wake_val :: u32
  lht :: "'h option"
  rht :: "'h option"
  pool :: fiber_pool

record busy_closure =
  bc_closure :: "nat option"
  bc_mutex :: worker_id

record 'h rts =
  frames :: "nat \<Rightarrow> stack_frame"
  fibs :: "nat \<Rightarrow> cilk_fiber"
  clos :: "nat \<Rightarrow> 'h closure"
  workers :: "worker_id \<Rightarrow> 'h worker"
  locals :: "worker_id \<Rightarrow> 'h local_state"
  busy :: "worker_id \<Rightarrow> busy_closure"
  gpool :: fiber_pool
  os :: os_fibers
  next_closure :: nat
  root_closure :: nat
  root_closure_initialized :: bool
  use_extension :: bool
  tls_fh :: "worker_id \<Rightarrow> nat option"

text \<open>A pointer that compares above every deque pointer.\<close>

definition EXCEPTION_INFINITY :: int where
  "EXCEPTION_INFINITY = 2 ^ 61 - 1"

definition upd_frame :: "nat \<Rightarrow> (stack_frame \<Rightarrow> stack_frame) \<Rightarrow> 'h rts \<Rightarrow> 'h rts" where
  "upd_frame p f s = s\<lparr>frames := (frames s)(p := f (frames s p))\<rparr>"

definition upd_fib :: "nat \<Rightarrow> (cilk_fiber \<Rightarrow> cilk_fiber) \<Rightarrow> 'h rts \<Rightarrow> 'h rts" where
  "upd_fib p f s = s\<lparr>fibs := (fibs s)(p := f (fibs s p))\<rparr>"

definition upd_cl :: "nat \<Rightarrow> ('h closure \<Rightarrow> 'h closure) \<Rightarrow> 'h rts \<Rightarrow> 'h rts" where
  "upd_cl p f s = s\<lparr>clos := (clos s)(p := f (clos s p))\<rparr>"

definition upd_wk :: "worker_id \<Rightarrow> ('h worker \<Rightarrow> 'h worker) \<Rightarrow> 'h rts \<Rightarrow> 'h rts" where
  "upd_wk w f s = s\<lparr>workers := (workers s)(w := f (workers s w))\<rparr>"

definition upd_loc :: "worker_id \<Rightarrow> ('h local_state \<Rightarrow> 'h local_state) \<Rightarrow> 'h rts \<Rightarrow> 'h rts" where
  "upd_loc w f s = s\<lparr>locals := (locals s)(w := f (locals s w))\<rparr>"

definition upd_busy :: "worker_id \<Rightarrow> (busy_closure \<Rightarrow> busy_closure) \<Rightarrow> 'h rts \<Rightarrow> 'h rts" where
  "upd_busy w f s = s\<lparr>busy := (busy s)(w := f (busy s w))\<rparr>"

text \<open>What each update reads and leaves alone: the frame conditions used by every proof.\<close>

lemma upd_fields [simp]:
  "frames (upd_frame p f s) = (frames s)(p := f (frames s p))"
  "frames (upd_fib p g s) = frames s" "frames (upd_cl p h s) = frames s"
  "frames (upd_wk w k s) = frames s" "frames (upd_loc w l s) = frames s"
  "frames (upd_busy w b s) = frames s"
  "fibs (upd_fib p g s) = (fibs s)(p := g (fibs s p))"
  "fibs (upd_frame p f s) = fibs s" "fibs (upd_cl p h s) = fibs s"
  "fibs (upd_wk w k s) = fibs s" "fibs (upd_loc w l s) = fibs s" "fibs (upd_busy w b s) = fibs s"
  "clos (upd_cl p h s) = (clos s)(p := h (clos s p))"
  "clos (upd_frame p f s) = clos s" "clos (upd_fib p g s) = clos s"
  "clos (upd_wk w k s) = clos s" "clos (upd_loc w l s) = clos s" "clos (upd_busy w b s) = clos s"
  "workers (upd_wk w k s) = (workers s)(w := k (workers s w))"
  "workers (upd_frame p f s) = workers s" "workers (upd_fib p g s) = workers s"
  "workers (upd_cl p h s) = workers s" "workers (upd_loc w l s) = workers s"
  "workers (upd_busy w b s) = workers s"
  "locals (upd_loc w l s) = (locals s)(w := l (locals s w))"
  "locals (upd_frame p f s) = locals s" "locals (upd_fib p g s) = locals s"
  "locals (upd_cl p h s) = locals s" "locals (upd_wk w k s) = locals s"
  "locals (upd_busy w b s) = locals s"
  "busy (upd_busy w b s) = (busy s)(w := b (busy s w))"
  "busy (upd_frame p f s) = busy s" "busy (upd_fib p g s) = busy s"
  "busy (upd_cl p h s) = busy s" "busy (upd_wk w k s) = busy s" "busy (upd_loc w l s) = busy s"
  by (simp_all add: upd_frame_def upd_fib_def upd_cl_def upd_wk_def upd_loc_def upd_busy_def)

lemma upd_globals [simp]:
  "gpool (upd_frame p f s) = gpool s" "gpool (upd_fib p g s) = gpool s" "gpool (upd_cl p h s) = gpool s"
  "gpool (upd_wk w k s) = gpool s" "gpool (upd_loc w l s) = gpool s" "gpool (upd_busy w b s) = gpool s"
  "os (upd_frame p f s) = os s" "os (upd_fib p g s) = os s" "os (upd_cl p h s) = os s"
  "os (upd_wk w k s) = os s" "os (upd_loc w l s) = os s" "os (upd_busy w b s) = os s"
  "next_closure (upd_frame p f s) = next_closure s" "next_closure (upd_fib p g s) = next_closure s"
  "next_closure (upd_cl p h s) = next_closure s" "next_closure (upd_wk w k s) = next_closure s"
  "next_closure (upd_loc w l s) = next_closure s" "next_closure (upd_busy w b s) = next_closure s"
  "root_closure (upd_frame p f s) = root_closure s" "root_closure (upd_fib p g s) = root_closure s"
  "root_closure (upd_cl p h s) = root_closure s" "root_closure (upd_wk w k s) = root_closure s"
  "root_closure (upd_loc w l s) = root_closure s" "root_closure (upd_busy w b s) = root_closure s"
  "use_extension (upd_frame p f s) = use_extension s" "use_extension (upd_fib p g s) = use_extension s"
  "use_extension (upd_cl p h s) = use_extension s" "use_extension (upd_wk w k s) = use_extension s"
  "use_extension (upd_loc w l s) = use_extension s" "use_extension (upd_busy w b s) = use_extension s"
  "root_closure_initialized (upd_frame p f s) = root_closure_initialized s"
  "root_closure_initialized (upd_fib p g s) = root_closure_initialized s"
  "root_closure_initialized (upd_cl p h s) = root_closure_initialized s"
  "root_closure_initialized (upd_wk w k s) = root_closure_initialized s"
  "root_closure_initialized (upd_loc w l s) = root_closure_initialized s"
  "root_closure_initialized (upd_busy w b s) = root_closure_initialized s"
  "tls_fh (upd_frame p f s) = tls_fh s" "tls_fh (upd_fib p g s) = tls_fh s"
  "tls_fh (upd_cl p h s) = tls_fh s" "tls_fh (upd_wk w k s) = tls_fh s"
  "tls_fh (upd_loc w l s) = tls_fh s" "tls_fh (upd_busy w b s) = tls_fh s"
  by (simp_all add: upd_frame_def upd_fib_def upd_cl_def upd_wk_def upd_loc_def upd_busy_def)

section \<open>Status and locks of a closure\<close>

definition has_children :: "'h closure \<Rightarrow> bool" where
  "has_children c \<longleftrightarrow> join_counter c \<noteq> 0"

definition set_status :: "nat \<Rightarrow> closure_status \<Rightarrow> 'h rts \<Rightarrow> 'h rts" where
  "set_status c to s = upd_cl c (cl_status_update (\<lambda>_. to)) s"

definition change_status :: "nat \<Rightarrow> closure_status \<Rightarrow> closure_status \<Rightarrow> 'h rts \<Rightarrow> 'h rts option" where
  "change_status c from_st to s = do {
     cilk_assert (cl_status (clos s c) = from_st);
     Some (set_status c to s)
   }"

definition make_ready :: "nat \<Rightarrow> 'h rts \<Rightarrow> 'h rts" where
  "make_ready c s = set_status c CLOSURE_READY s"

definition set_frame :: "nat \<Rightarrow> nat \<Rightarrow> 'h rts \<Rightarrow> 'h rts option" where
  "set_frame c sf s = do {
     cilk_assert (cl_frame (clos s c) = None);
     Some (upd_cl c (cl_frame_update (\<lambda>_. Some sf)) s)
   }"

definition clear_frame :: "nat \<Rightarrow> 'h rts \<Rightarrow> 'h rts" where
  "clear_frame c s = upd_cl c (cl_frame_update (\<lambda>_. None)) s"

definition live_status :: "closure_status \<Rightarrow> bool" where
  "live_status st \<longleftrightarrow> (case st of
     CLOSURE_RUNNING \<Rightarrow> True | CLOSURE_SUSPENDED \<Rightarrow> True | CLOSURE_RETURNING \<Rightarrow> True
   | CLOSURE_READY \<Rightarrow> True | CLOSURE_PRE_INVALID \<Rightarrow> False | CLOSURE_POST_INVALID \<Rightarrow> False)"

definition checkmagic :: "nat \<Rightarrow> 'h rts \<Rightarrow> unit option" where
  "checkmagic c s = (case cl_status (clos s c) of
     CLOSURE_RUNNING \<Rightarrow> Some () | CLOSURE_SUSPENDED \<Rightarrow> Some () | CLOSURE_RETURNING \<Rightarrow> Some ()
   | CLOSURE_READY \<Rightarrow> Some () | CLOSURE_POST_INVALID \<Rightarrow> None | CLOSURE_PRE_INVALID \<Rightarrow> None)"

fun status_to_string :: "closure_status \<Rightarrow> string" where
  "status_to_string CLOSURE_RUNNING = ''running''"
| "status_to_string CLOSURE_SUSPENDED = ''suspended''"
| "status_to_string CLOSURE_RETURNING = ''returning''"
| "status_to_string CLOSURE_READY = ''ready''"
| "status_to_string CLOSURE_PRE_INVALID = ''pre-invalid''"
| "status_to_string CLOSURE_POST_INVALID = ''post-invalid''"

definition assert_ownership :: "worker_id \<Rightarrow> nat \<Rightarrow> 'h rts \<Rightarrow> unit option" where
  "assert_ownership self c s = cilk_assert (cl_mutex (clos s c) = self)"

definition assert_alienation :: "worker_id \<Rightarrow> nat \<Rightarrow> 'h rts \<Rightarrow> unit option" where
  "assert_alienation self c s = cilk_assert (cl_mutex (clos s c) \<noteq> self)"

definition closure_lock :: "worker_id \<Rightarrow> nat \<Rightarrow> 'h rts \<Rightarrow> 'h rts option" where
  "closure_lock self c s = do {
     checkmagic c s;
     if cl_mutex (clos s c) = NO_WORKER then Some (upd_cl c (cl_mutex_update (\<lambda>_. self)) s) else None
   }"

definition closure_unlock :: "worker_id \<Rightarrow> nat \<Rightarrow> 'h rts \<Rightarrow> 'h rts option" where
  "closure_unlock self c s = do {
     checkmagic c s;
     assert_ownership self c s;
     Some (upd_cl c (cl_mutex_update (\<lambda>_. NO_WORKER)) s)
   }"

definition closure_trylock :: "bool \<Rightarrow> worker_id \<Rightarrow> nat \<Rightarrow> 'h rts \<Rightarrow> bool \<times> 'h rts" where
  "closure_trylock spurious self c s =
     (if \<not> live_status (cl_status (clos s c)) then (False, s)
      else if cl_mutex (clos s c) \<noteq> NO_WORKER then (False, s)
      else if spurious then (False, s)
      else (True, upd_cl c (cl_mutex_update (\<lambda>_. self)) s))"

section \<open>Busy closures\<close>

definition busy_assert_ownership :: "worker_id \<Rightarrow> worker_id \<Rightarrow> 'h rts \<Rightarrow> unit option" where
  "busy_assert_ownership self pn s = cilk_assert (bc_mutex (busy s pn) = self)"

definition busy_lock :: "worker_id \<Rightarrow> worker_id \<Rightarrow> 'h rts \<Rightarrow> 'h rts option" where
  "busy_lock self pn s =
     (if bc_mutex (busy s pn) = NO_WORKER then Some (upd_busy pn (bc_mutex_update (\<lambda>_. self)) s)
      else None)"

definition busy_lock_self :: "worker_id \<Rightarrow> 'h rts \<Rightarrow> 'h rts option" where
  "busy_lock_self self s = busy_lock self self s"

definition busy_unlock :: "worker_id \<Rightarrow> worker_id \<Rightarrow> 'h rts \<Rightarrow> 'h rts" where
  "busy_unlock self pn s = upd_busy pn (bc_mutex_update (\<lambda>_. NO_WORKER)) s"

definition busy_unlock_self :: "worker_id \<Rightarrow> 'h rts \<Rightarrow> 'h rts" where
  "busy_unlock_self self s = busy_unlock self self s"

definition busy_trylock :: "bool \<Rightarrow> worker_id \<Rightarrow> worker_id \<Rightarrow> 'h rts \<Rightarrow> bool \<times> 'h rts" where
  "busy_trylock spurious self pn s =
     (if bc_mutex (busy s pn) = NO_WORKER \<and> \<not> spurious
      then (True, upd_busy pn (bc_mutex_update (\<lambda>_. self)) s)
      else (False, s))"

definition busy_xtract :: "worker_id \<Rightarrow> worker_id \<Rightarrow> 'h rts \<Rightarrow> (nat option \<times> 'h rts) option" where
  "busy_xtract self pn s = do {
     busy_assert_ownership self pn s;
     Some (case bc_closure (busy s pn) of
       Some cl \<Rightarrow>
         (Some cl, upd_cl cl (cl_owner_update (\<lambda>_. NO_WORKER))
           (upd_busy pn (bc_closure_update (\<lambda>_. None)) s))
     | None \<Rightarrow> (None, s))
   }"

definition busy_peek :: "worker_id \<Rightarrow> worker_id \<Rightarrow> 'h rts \<Rightarrow> nat option option" where
  "busy_peek self pn s = do {
     busy_assert_ownership self pn s;
     Some (bc_closure (busy s pn))
   }"

definition busy_set :: "nat \<Rightarrow> worker_id \<Rightarrow> worker_id \<Rightarrow> 'h rts \<Rightarrow> 'h rts option" where
  "busy_set cl self pn s = do {
     busy_assert_ownership self pn s;
     cilk_assert (cl_owner (clos s cl) = NO_WORKER);
     cilk_assert (bc_closure (busy s pn) = None);
     Some (upd_cl cl (cl_owner_update (\<lambda>_. pn)) (upd_busy pn (bc_closure_update (\<lambda>_. Some cl)) s))
   }"

section \<open>Creation and destruction\<close>

definition new_closure :: "nat option \<Rightarrow> 'h closure" where
  "new_closure sf =
     \<lparr>cl_frame = sf, cl_fiber = None, fiber_child = None, ext_fiber = None, ext_fiber_child = None,
      cl_owner = NO_WORKER, cl_status = CLOSURE_PRE_INVALID, exception_pending = False,
      join_counter = 0, orig_rsp = 0, call_parent = None, spawn_parent = None, left_sib = None,
      right_sib = None, right_most_child = None, right_ht = None, child_ht = None, user_ht = None,
      cl_mutex = NO_WORKER\<rparr>"

text \<open>Memory for a closure comes from the internal allocator, which hands out a block that no live
  closure occupies: here, a number never used before.\<close>

definition closure_create :: "nat option \<Rightarrow> 'h rts \<Rightarrow> nat \<times> 'h rts" where
  "closure_create sf s =
     (next_closure s,
      s\<lparr>clos := (clos s)(next_closure s := new_closure sf), next_closure := Suc (next_closure s)\<rparr>)"

definition closure_destroy :: "nat \<Rightarrow> 'h rts \<Rightarrow> 'h rts option" where
  "closure_destroy c s = do {
     cilk_assert (left_sib (clos s c) = None);
     cilk_assert (right_sib (clos s c) = None);
     cilk_assert (right_most_child (clos s c) = None);
     cilk_assert (user_ht (clos s c) = None);
     cilk_assert (child_ht (clos s c) = None);
     cilk_assert (right_ht (clos s c) = None);
     Some (set_status c CLOSURE_POST_INVALID s)
   }"

section \<open>The closure tree\<close>

definition closure_suspend :: "worker_id \<Rightarrow> nat \<Rightarrow> 'h rts \<Rightarrow> 'h rts option" where
  "closure_suspend self c s = do {
     checkmagic c s;
     assert_ownership self c s;
     busy_assert_ownership self self s;
     sf \<leftarrow> cl_frame (clos s c);
     cilk_assert (stolen (frames s sf));
     s1 \<leftarrow> change_status c CLOSURE_RUNNING CLOSURE_SUSPENDED s;
     (cl1, s2) \<leftarrow> busy_xtract self self s1;
     cilk_assert (Some c = cl1);
     Some s2
   }"

definition suspend_victim :: "worker_id \<Rightarrow> worker_id \<Rightarrow> nat \<Rightarrow> 'h rts \<Rightarrow> 'h rts option" where
  "suspend_victim thief_id victim_id c s = do {
     checkmagic c s;
     assert_ownership thief_id c s;
     busy_assert_ownership thief_id victim_id s;
     s1 \<leftarrow> change_status c CLOSURE_RUNNING CLOSURE_SUSPENDED s;
     (cl1, s2) \<leftarrow> busy_xtract thief_id victim_id s1;
     cilk_assert (Some c = cl1);
     Some s2
   }"

definition remove_callee :: "nat \<Rightarrow> 'h rts \<Rightarrow> 'h rts option" where
  "remove_callee c s = do {
     cilk_assert (cl_status (clos s c) = CLOSURE_SUSPENDED);
     Some (upd_cl c (join_counter_update (\<lambda>n. n - 1)) s)
   }"

definition add_callee :: "nat \<Rightarrow> nat \<Rightarrow> 'h rts \<Rightarrow> 'h rts option" where
  "add_callee c new_callee s = do {
     cilk_assert (spawn_parent (clos s new_callee) = None);
     sf \<leftarrow> cl_frame (clos s new_callee);
     cilk_assert (\<not> has_flag CILK_FRAME_DETACHED (frames s sf));
     Some (upd_cl c (join_counter_update (\<lambda>n. n + 1)) s)
   }"

definition unlink_child :: "nat \<Rightarrow> 'h rts \<Rightarrow> 'h rts option" where
  "unlink_child c s = do {
     s1 \<leftarrow> (case left_sib (clos s c) of
       None \<Rightarrow> Some s
     | Some l \<Rightarrow> do {
         cilk_assert (right_sib (clos s l) = Some c);
         Some (upd_cl l (right_sib_update (\<lambda>_. right_sib (clos s c))) s)
       });
     s2 \<leftarrow> (case right_sib (clos s1 c) of
       None \<Rightarrow> Some s1
     | Some r \<Rightarrow> do {
         cilk_assert (left_sib (clos s1 r) = Some c);
         Some (upd_cl r (left_sib_update (\<lambda>_. left_sib (clos s1 c))) s1)
       });
     Some (upd_cl c (right_sib_update (\<lambda>_. None)) (upd_cl c (left_sib_update (\<lambda>_. None)) s2))
   }"

definition double_link_children :: "nat option \<Rightarrow> nat option \<Rightarrow> 'h rts \<Rightarrow> 'h rts option" where
  "double_link_children left right s = do {
     s1 \<leftarrow> (case left of
       None \<Rightarrow> Some s
     | Some l \<Rightarrow> do {
         cilk_assert (right_sib (clos s l) = None);
         Some (upd_cl l (right_sib_update (\<lambda>_. right)) s)
       });
     (case right of
       None \<Rightarrow> Some s1
     | Some r \<Rightarrow> do {
         cilk_assert (left_sib (clos s1 r) = None);
         Some (upd_cl r (left_sib_update (\<lambda>_. left)) s1)
       })
   }"

definition remove_child :: "worker_id \<Rightarrow> nat \<Rightarrow> nat \<Rightarrow> 'h rts \<Rightarrow> 'h rts option" where
  "remove_child self c child s = do {
     cilk_assert (spawn_parent (clos s child) = Some c);
     assert_ownership self c s;
     assert_ownership self child s;
     s1 \<leftarrow> (if right_most_child (clos s c) = Some child then do {
              cilk_assert (right_sib (clos s child) = None);
              Some (upd_cl c (right_most_child_update (\<lambda>_. left_sib (clos s child))) s)
            } else Some s);
     cilk_assert (right_ht (clos s1 child) = None);
     unlink_child child s1
   }"

definition add_child :: "worker_id \<Rightarrow> nat \<Rightarrow> nat \<Rightarrow> 'h rts \<Rightarrow> 'h rts option" where
  "add_child self c child s = do {
     assert_ownership self c s;
     assert_alienation self child s;
     s1 \<leftarrow> double_link_children (right_most_child (clos s c)) (Some child) s;
     Some (upd_cl c (right_most_child_update (\<lambda>_. Some child)) s1)
   }"

end
