(* ===== verification/Pedigrees.thy ===== *)
theory Pedigrees
  imports Prelude
begin

text \<open>
  Pedigrees and the deterministic random numbers built on them (runtime/pedigree-internal.h,
  runtime/pedigree_lib.cpp, runtime/pedigree_ext.cpp).  A pedigree frame lives on the extension stack
  of a worker or is the static root frame; \<open>ped_heap\<close> gives the frame at an address, and 0 is the null
  pointer.  The table of multipliers has 4096 entries; an access beyond it is \<open>None\<close>.
\<close>

section \<open>Arithmetic\<close>

definition DPRNG_PRIME :: u64 where
  "DPRNG_PRIME = - 59"

definition dprng_swap_halves :: "u64 \<Rightarrow> u64" where
  "dprng_swap_halves x = drop_bit 32 x OR push_bit 32 x"

definition dprng_mix_round :: "u64 \<Rightarrow> u64" where
  "dprng_mix_round x = dprng_swap_halves (x * (2 * x + 1))"

definition dprng_mix :: "u64 \<Rightarrow> u64" where
  "dprng_mix x = (dprng_mix_round ^^ 4) x"

definition dprng_mix_mod_p :: "u64 \<Rightarrow> u64" where
  "dprng_mix_mod_p x =
     (let y = dprng_mix x in y - (DPRNG_PRIME AND - (if y \<ge> DPRNG_PRIME then 1 else 0)))"

definition dprng_sum_mod_p :: "u64 \<Rightarrow> u64 \<Rightarrow> u64" where
  "dprng_sum_mod_p a b =
     (let z = a + b in if z < a \<or> z \<ge> DPRNG_PRIME then z - DPRNG_PRIME else z)"

section \<open>Frames\<close>

record pedigree_frame =
  ped_rank :: u64
  ped_parent :: u64
  frame_rank :: u64
  dprng_dotproduct :: u64
  dprng_depth :: u64

record ped_state =
  ped_heap :: "u64 \<Rightarrow> pedigree_frame"
  dprng_m_array :: "u64 list option"
  dprng_m_X :: u64
  dprng_seed :: u64

definition SIZEOF_PEDIGREE_FRAME :: u64 where
  "SIZEOF_PEDIGREE_FRAME = 40"

definition upd_ped :: "u64 \<Rightarrow> (pedigree_frame \<Rightarrow> pedigree_frame) \<Rightarrow> ped_state \<Rightarrow> ped_state" where
  "upd_ped f g s = s\<lparr>ped_heap := (ped_heap s)(f := g (ped_heap s f))\<rparr>"

definition multiplier :: "ped_state \<Rightarrow> u64 \<Rightarrow> u64 option" where
  "multiplier s i = do {
     ms \<leftarrow> dprng_m_array s;
     if unat i < length ms then Some (ms ! unat i) else None
   }"

section \<open>Initialisation\<close>

definition init_dprng :: "ped_state \<Rightarrow> ped_state" where
  "init_dprng s = s\<lparr>
     dprng_m_array := Some (map (\<lambda>i. dprng_mix_mod_p (dprng_seed s + of_nat i)) [0..<4096]),
     dprng_m_X := dprng_mix_mod_p (dprng_seed s + 4096)\<rparr>"

definition deinit_dprng :: "ped_state \<Rightarrow> ped_state" where
  "deinit_dprng s = s\<lparr>dprng_m_array := None\<rparr>"

definition root_frame :: pedigree_frame where
  "root_frame = \<lparr>ped_rank = 0, ped_parent = 0, frame_rank = 0, dprng_dotproduct = 0, dprng_depth = 0\<rparr>"

text \<open>The result is the extension that is registered for the worker.\<close>

definition pedigree_init :: "u64 \<Rightarrow> ped_state \<Rightarrow> u64 \<times> ped_state" where
  "pedigree_init root s = (root, upd_ped root (dprng_dotproduct_update (\<lambda>_. dprng_m_X s)) s)"

definition dprand_set_seed :: "u64 \<Rightarrow> ped_state \<Rightarrow> ped_state" where
  "dprand_set_seed seed s = init_dprng (s\<lparr>dprng_seed := seed\<rparr>)"

section \<open>Operations\<close>

definition bump_worker_rank :: "u64 \<Rightarrow> ped_state \<Rightarrow> ped_state option" where
  "bump_worker_rank frame s = do {
     let s1 = upd_ped frame (frame_rank_update (\<lambda>r. r + 1)) s;
     m \<leftarrow> multiplier s1 (dprng_depth (ped_heap s1 frame));
     Some (upd_ped frame (dprng_dotproduct_update (\<lambda>d. dprng_sum_mod_p d m)) s1)
   }"

definition get_dprand :: "u64 \<Rightarrow> ped_state \<Rightarrow> (u64 \<times> ped_state) option" where
  "get_dprand frame s = do {
     s1 \<leftarrow> bump_worker_rank frame s;
     Some (dprng_mix_mod_p (dprng_dotproduct (ped_heap s1 frame)), s1)
   }"

text \<open>The leaf node of the pedigree: a rank and the address of its parent node.\<close>

definition get_pedigree :: "u64 \<Rightarrow> ped_state \<Rightarrow> u64 \<times> u64" where
  "get_pedigree frame s = (frame_rank (ped_heap s frame), frame)"

definition extend_sync :: "u64 \<Rightarrow> ped_state \<Rightarrow> ped_state option" where
  "extend_sync extension s = do {
     let s1 = upd_ped extension (frame_rank_update (\<lambda>r. r + 1)) s;
     m \<leftarrow> multiplier s1 (dprng_depth (ped_heap s1 extension));
     Some (upd_ped extension (dprng_dotproduct_update (\<lambda>d. dprng_sum_mod_p d m)) s1)
   }"

definition push_pedigree_frame :: "u64 \<Rightarrow> u64" where
  "push_pedigree_frame ext_stack = ext_stack - SIZEOF_PEDIGREE_FRAME"

definition pop_pedigree_frame :: "u64 \<Rightarrow> u64" where
  "pop_pedigree_frame ext_stack = ext_stack + SIZEOF_PEDIGREE_FRAME"

text \<open>From the worker's extension stack and extension: the parent's and the child's extension, the new
  stack pointer and the state.\<close>

definition extend_spawn :: "u64 \<Rightarrow> u64 \<Rightarrow> ped_state \<Rightarrow> (u64 \<times> u64 \<times> u64 \<times> ped_state) option" where
  "extend_spawn ext_stack child_extension s = do {
     let parent = child_extension;
     let frame = push_pedigree_frame ext_stack;
     let s1 = upd_ped frame (ped_rank_update (\<lambda>_. frame_rank (ped_heap s parent))) s;
     let s2 = upd_ped frame (ped_parent_update (\<lambda>_. parent)) s1;
     let s3 = upd_ped frame (frame_rank_update (\<lambda>_. 0)) s2;
     let s4 = upd_ped frame (dprng_depth_update (\<lambda>_. dprng_depth (ped_heap s3 parent) + 1)) s3;
     let parent_dprng_dotproduct = dprng_dotproduct (ped_heap s4 parent);
     m \<leftarrow> multiplier s4 (dprng_depth (ped_heap s4 frame));
     let s5 = upd_ped frame (dprng_dotproduct_update (\<lambda>_. dprng_sum_mod_p parent_dprng_dotproduct m)) s4;
     let s6 = upd_ped parent (frame_rank_update (\<lambda>r. r + 1)) s5;
     m' \<leftarrow> multiplier s6 (dprng_depth (ped_heap s6 parent));
     let s7 = upd_ped parent (dprng_dotproduct_update (\<lambda>_. dprng_sum_mod_p parent_dprng_dotproduct m')) s6;
     Some (parent, frame, frame, s7)
   }"

definition extend_return_from_spawn :: "u64 \<Rightarrow> u64" where
  "extend_return_from_spawn ext_stack = pop_pedigree_frame ext_stack"

section \<open>Sums modulo the prime\<close>

lemma unat_DPRNG_PRIME: "unat DPRNG_PRIME = 2 ^ 64 - 59"
  by (simp add: DPRNG_PRIME_def)

lemma dprng_sum_mod_p_less: "a < DPRNG_PRIME \<Longrightarrow> b < DPRNG_PRIME \<Longrightarrow> dprng_sum_mod_p a b < DPRNG_PRIME"
  and unat_dprng_sum: "a < DPRNG_PRIME \<Longrightarrow> b < DPRNG_PRIME \<Longrightarrow>
    unat (dprng_sum_mod_p a b) = (unat a + unat b) mod (2 ^ 64 - 59)"
proof -
  assume ab: "a < DPRNG_PRIME" "b < DPRNG_PRIME"
  define x y where "x = unat a" and "y = unat b"
  have xy: "x < 2 ^ 64 - 59" "y < 2 ^ 64 - 59"
    using ab by (simp_all add: x_def y_def word_less_nat_alt unat_DPRNG_PRIME)
  have z: "unat (a + b) = (x + y) mod 2 ^ 64" by (simp add: unat_word_ariths x_def y_def)
  have cond: "(a + b < a \<or> a + b \<ge> DPRNG_PRIME) \<longleftrightarrow> x + y \<ge> 2 ^ 64 - 59"
  proof (cases "x + y < 2 ^ 64")
    case True
    then have "unat (a + b) = x + y" using z by simp
    then show ?thesis by (simp add: word_less_nat_alt word_le_nat_alt unat_DPRNG_PRIME flip: x_def)
  next
    case False
    then have "unat (a + b) = x + y - 2 ^ 64" using z xy by (simp add: mod_if)
    then have "a + b < a" using xy False by (simp add: word_less_nat_alt flip: x_def)
    with False show ?thesis by simp
  qed
  have "unat (dprng_sum_mod_p a b) = (x + y) mod (2 ^ 64 - 59)"
  proof (cases "x + y \<ge> 2 ^ 64 - 59")
    case True
    have "unat (a + b - DPRNG_PRIME) = ((x + y) mod 2 ^ 64 + 59) mod 2 ^ 64"
      by (simp add: DPRNG_PRIME_def unat_word_ariths x_def y_def)
    also have "\<dots> = (x + y + 59) mod 2 ^ 64" by (rule mod_add_left_eq)
    also have "\<dots> = x + y - (2 ^ 64 - 59)" using True xy by (simp add: mod_if)
    also have "\<dots> = (x + y) mod (2 ^ 64 - 59)" using True xy by (simp add: mod_if)
    finally show ?thesis using True cond by (simp add: dprng_sum_mod_p_def Let_def)
  next
    case False
    then have "\<not> (a + b < a \<or> a + b \<ge> DPRNG_PRIME)" using cond by blast
    then have "unat (dprng_sum_mod_p a b) = (x + y) mod 2 ^ 64" using z by (simp add: dprng_sum_mod_p_def Let_def)
    with False show ?thesis by simp
  qed
  then show "unat (dprng_sum_mod_p a b) = (unat a + unat b) mod (2 ^ 64 - 59)" by (simp add: x_def y_def)
  then show "dprng_sum_mod_p a b < DPRNG_PRIME" by (simp add: word_less_nat_alt unat_DPRNG_PRIME)
qed

lemma dprng_mix_mod_p_less: "dprng_mix_mod_p x < DPRNG_PRIME"
proof -
  define y where "y = dprng_mix x"
  have lt: "unat y < 2 ^ 64" using unsigned_less [of y] by simp
  show ?thesis
  proof (cases "y \<ge> DPRNG_PRIME")
    case True
    have "unat (y - DPRNG_PRIME) = unat y - unat DPRNG_PRIME" using True by (simp add: unat_sub)
    then show ?thesis using True lt
      by (simp add: dprng_mix_mod_p_def y_def [symmetric] word_less_nat_alt unat_DPRNG_PRIME)
  next
    case False
    then show ?thesis by (simp add: dprng_mix_mod_p_def y_def [symmetric])
  qed
qed

section \<open>The mixing function\<close>

lemma odd_cancel:
  fixes z u :: u64
  assumes "z * u = 0" "odd (unat u)"
  shows "z = 0"
proof -
  have "(unat z * unat u) mod 2 ^ 64 = 0"
    using arg_cong [OF assms(1), of unat] by (simp add: unat_word_ariths)
  then have "2 ^ 64 dvd unat z * unat u" by (simp add: mod_eq_0_iff_dvd)
  moreover have "coprime (2 ^ 64) (unat u)"
    using assms(2) unfolding coprime_power_left_iff coprime_left_2_iff_odd by blast
  ultimately have "2 ^ 64 dvd unat z" by (metis coprime_dvd_mult_left_iff)
  moreover have "unat z < 2 ^ 64" using unsigned_less [of z] by simp
  ultimately have "unat z = 0" by (metis dvd_imp_le linorder_not_le neq0_conv)
  then show ?thesis by (simp add: unat_eq_0)
qed

lemma times_odd_inj: "inj (\<lambda>x :: u64. x * (2 * x + 1))"
proof (rule injI)
  fix x y :: u64 assume "x * (2 * x + 1) = y * (2 * y + 1)"
  then have "(x - y) * (2 * (x + y) + 1) = 0" by (simp add: algebra_simps)
  moreover have "odd (unat (2 * (x + y) + 1))"
  proof -
    have "odd (unat (2 * z + 1))" for z :: u64
    proof -
      have "unat (2 * z + 1) = (2 * unat z + 1) mod 2 ^ 64" by (simp add: unat_word_ariths mod_simps)
      moreover have "odd ((2 * unat z + 1) mod 2 ^ 64)" by (subst dvd_mod_iff) simp_all
      ultimately show ?thesis by metis
    qed
    then show ?thesis .
  qed
  ultimately have "x - y = 0" by (rule odd_cancel)
  then show "x = y" by simp
qed

lemma swap_halves_twice: "dprng_swap_halves (dprng_swap_halves x) = x"
proof (rule bit_eqI)
  fix n :: nat
  show "bit (dprng_swap_halves (dprng_swap_halves x)) n \<longleftrightarrow> bit x n"
    by (cases "n < 32") (auto simp: dprng_swap_halves_def bit_simps dest: bit_imp_le_length)
qed

lemma dprng_mix_inj: "inj dprng_mix"
proof -
  have "inj dprng_swap_halves" by (rule inj_on_inverseI [of _ dprng_swap_halves]) (simp add: swap_halves_twice)
  then have "inj dprng_mix_round"
    using times_odd_inj unfolding dprng_mix_round_def inj_def by blast
  then have "inj (dprng_mix_round ^^ n)" for n by (induction n) (auto intro: inj_compose)
  then show ?thesis unfolding dprng_mix_def by (simp add: eta_contract_eq)
qed

end
