(* ===== verification/Scheduler.thy ===== *)
theory Scheduler
  imports Closures Pedigrees
begin

text \<open>
  The work-stealing scheduler (\<^verbatim>\<open>runtime/scheduler.cpp\<close>) and the entry points that compiled code
  calls (\<^verbatim>\<open>runtime/cilk2c_inlined.cpp\<close>): one definition per function, on the state of \<open>Closures\<close>.

  A handler runs under the locks it takes, so it is one step of the model; the race that the THE
  protocol resolves without a lock is modelled step by step in \<open>The_Protocol\<close>.  Where the code
  jumps instead of returning, the definition returns where to.
\<close>

section \<open>Helpers\<close>

definition rts_srand :: "worker_id \<Rightarrow> u32 \<Rightarrow> 'h rts \<Rightarrow> 'h rts" where
  "rts_srand w seed s = upd_loc w (rand_next_update (\<lambda>_. seed)) s"

definition update_rand_state :: "u32 \<Rightarrow> u32" where
  "update_rand_state st = st * 1103515245 + 12345"

definition get_rand :: "u32 \<Rightarrow> u32" where
  "get_rand st = drop_bit 16 st"

definition change_state :: "worker_id \<Rightarrow> worker_state \<Rightarrow> 'h rts \<Rightarrow> 'h rts option" where
  "change_state w st s = do {
     cilk_assert (state (locals s w) \<noteq> st);
     Some (upd_loc w (state_update (\<lambda>_. st)) s)
   }"

definition Closure_at_top_of_stack :: "worker_id \<Rightarrow> nat \<Rightarrow> 'h rts \<Rightarrow> bool" where
  "Closure_at_top_of_stack w frame s \<longleftrightarrow>
     head (workers s w) = tail (workers s w) \<and> stolen (frames s frame)"

definition get_worker_from_stack :: "nat \<Rightarrow> 'h rts \<Rightarrow> worker_id option" where
  "get_worker_from_stack sf s = do { f \<leftarrow> fh (frames s sf); fiber_worker (fibs s f) }"

definition fiber_alloc :: "worker_id \<Rightarrow> 'h rts \<Rightarrow> (nat \<times> 'h rts) option" where
  "fiber_alloc w s = do {
     (f, p, g, os') \<leftarrow> cilk_fiber_allocate_from_pool w (pool (locals s w)) (Some (gpool s)) (os s);
     g' \<leftarrow> g;
     Some (f, upd_fib f fiber_clear (upd_loc w (pool_update (\<lambda>_. p)) (s\<lparr>gpool := g', os := os'\<rparr>)))
   }"

definition fiber_dealloc :: "worker_id \<Rightarrow> nat \<Rightarrow> 'h rts \<Rightarrow> 'h rts option" where
  "fiber_dealloc w f s = do {
     (p, g, os') \<leftarrow>
       cilk_fiber_deallocate_to_pool w (Some f) (pool (locals s w)) (Some (gpool s)) (os s);
     g' \<leftarrow> g;
     Some (upd_fib f fiber_clear (upd_loc w (pool_update (\<lambda>_. p)) (s\<lparr>gpool := g', os := os'\<rparr>)))
   }"

definition fiber_dealloc_maybe :: "worker_id \<Rightarrow> nat option \<Rightarrow> 'h rts \<Rightarrow> 'h rts option" where
  "fiber_dealloc_maybe w f s = (case f of None \<Rightarrow> Some s | Some f' \<Rightarrow> fiber_dealloc w f' s)"

section \<open>The exception pointer\<close>

definition increment_exception_pointer :: "worker_id \<Rightarrow> worker_id \<Rightarrow> nat \<Rightarrow> 'h rts \<Rightarrow> 'h rts option" where
  "increment_exception_pointer self victim_w cl s = do {
     assert_ownership self cl s;
     cilk_assert (cl_status (clos s cl) = CLOSURE_RUNNING);
     Some (if exc (workers s victim_w) \<noteq> EXCEPTION_INFINITY
           then upd_wk victim_w (exc_update (\<lambda>e. e + 1)) s else s)
   }"

definition decrement_exception_pointer :: "worker_id \<Rightarrow> worker_id \<Rightarrow> nat \<Rightarrow> 'h rts \<Rightarrow> 'h rts option" where
  "decrement_exception_pointer self victim_w cl s = do {
     assert_ownership self cl s;
     Some (if exc (workers s victim_w) \<noteq> EXCEPTION_INFINITY
           then upd_wk victim_w (exc_update (\<lambda>e. e - 1)) s else s)
   }"

definition reset_exception_pointer :: "worker_id \<Rightarrow> worker_id \<Rightarrow> nat \<Rightarrow> 'h rts \<Rightarrow> 'h rts option" where
  "reset_exception_pointer w self cl s = do {
     assert_ownership self cl s;
     cilk_assert (cl_frame (clos s cl) = None \<or>
       (case cl_fiber (clos s cl) of None \<Rightarrow> False | Some f \<Rightarrow> fiber_worker (fibs s f) = Some w));
     Some (upd_wk w (\<lambda>wk. wk\<lparr>exc := head wk\<rparr>) s)
   }"

section \<open>Setting up a closure\<close>

definition setup_for_execution :: "worker_id \<Rightarrow> nat \<Rightarrow> 'h rts \<Rightarrow> 'h rts option" where
  "setup_for_execution w t s = do {
     f \<leftarrow> cl_fiber (clos s t);
     let s1 = upd_fib f (fiber_worker_update (\<lambda>_. Some w)) s;
     let s2 = set_status t CLOSURE_RUNNING s1;
     let s3 = upd_wk w (\<lambda>wk. wk\<lparr>head := 0, exc := 0, tail := 0\<rparr>) s2;
     sf \<leftarrow> cl_frame (clos s3 t);
     let s4 = upd_fib f (current_stack_frame_update (\<lambda>_. Some sf)) s3;
     let s5 = upd_frame sf (fh_update (\<lambda>_. Some f)) s4;
     Some (s5\<lparr>tls_fh := (tls_fh s5)(w := Some f)\<rparr>)
   }"

text \<open>The frame leaves its fiber for the one its children returned on.\<close>

definition swap_to_child_fiber :: "worker_id \<Rightarrow> nat \<Rightarrow> 'h rts \<Rightarrow> 'h rts option" where
  "swap_to_child_fiber w t s = do {
     s1 \<leftarrow> fiber_dealloc_maybe w (cl_fiber (clos s t)) s;
     let s2 = upd_cl t (\<lambda>c. c\<lparr>cl_fiber := fiber_child c, fiber_child := None\<rparr>) s1;
     if use_extension s2 then do {
       s' \<leftarrow> fiber_dealloc_maybe w (ext_fiber (clos s2 t)) s2;
       Some (upd_cl t (\<lambda>c. c\<lparr>ext_fiber := ext_fiber_child c, ext_fiber_child := None\<rparr>) s')
     } else Some s2
   }"

definition point_frame_at_fiber :: "worker_id \<Rightarrow> nat \<Rightarrow> 'h rts \<Rightarrow> 'h rts option" where
  "point_frame_at_fiber w t s = do {
     f \<leftarrow> cl_fiber (clos s t);
     sf \<leftarrow> cl_frame (clos s t);
     let s1 = upd_frame sf set_synced s;
     let s2 = s1\<lparr>tls_fh := (tls_fh s1)(w := Some f)\<rparr>;
     let s3 = upd_frame sf (fh_update (\<lambda>_. Some f)) s2;
     let s4 = upd_fib f (fiber_worker_update (\<lambda>_. Some w)) s3;
     cilk_assert (current_stack_frame (fibs s4 f) = Some sf);
     let s5 = upd_frame sf (sp_update (\<lambda>_. orig_rsp (clos s4 t))) s4;
     if use_extension s5 then do {
       ef \<leftarrow> ext_fiber (clos s5 t);
       Some (upd_wk w (\<lambda>wk. wk\<lparr>extension := frame_extension (frames s5 sf),
                              ext_stack := get_stack_start (fibs s5 ef)\<rparr>) s5)
     } else Some s5
   }"

definition setup_for_sync :: "worker_id \<Rightarrow> worker_id \<Rightarrow> nat \<Rightarrow> 'h rts \<Rightarrow> 'h rts option" where
  "setup_for_sync w self t s = do {
     assert_ownership self t s;
     cilk_assert (cl_fiber (clos s t) \<noteq> fiber_child (clos s t));
     s1 \<leftarrow> swap_to_child_fiber w t s;
     s2 \<leftarrow> point_frame_at_fiber w t s1;
     Some (upd_cl t (orig_rsp_update (\<lambda>_. 0)) s2)
   }"

definition setup_call_parent_resumption ::
    "worker_id \<Rightarrow> worker_id \<Rightarrow> nat \<Rightarrow> 'h rts \<Rightarrow> 'h rts option" where
  "setup_call_parent_resumption w self t s = do {
     busy_assert_ownership self self s;
     assert_ownership self t s;
     cilk_assert (head (workers s w) = tail (workers s w));
     change_status t CLOSURE_SUSPENDED CLOSURE_RUNNING s
   }"

section \<open>Returning\<close>

text \<open>Return of a full frame that was called, to its call parent.\<close>

definition set_return :: "worker_id \<Rightarrow> 'h rts \<Rightarrow> 'h rts option" where
  "set_return w s = do {
     s1 \<leftarrow> busy_lock_self w s;
     tp \<leftarrow> busy_peek w w s1;
     t \<leftarrow> tp;
     s2 \<leftarrow> closure_lock w t s1;
     cilk_assert (cl_status (clos s2 t) = CLOSURE_RUNNING);
     cilk_assert (\<not> has_children (clos s2 t));
     cilk_assert (child_ht (clos s2 t) = None \<and> right_ht (clos s2 t) = None);
     parent \<leftarrow> call_parent (clos s2 t);
     cilk_assert (spawn_parent (clos s2 t) = None);
     sf \<leftarrow> cl_frame (clos s2 t);
     cilk_assert (\<not> has_flag CILK_FRAME_DETACHED (frames s2 sf));
     (t1, s3) \<leftarrow> busy_xtract w w s2;
     cilk_assert (Some t = t1);
     cilk_assert (stolen (frames s3 sf));
     s4 \<leftarrow> busy_set parent w w s3;
     let s5 = clear_frame t s4;
     s6 \<leftarrow> closure_unlock w t s5;
     s7 \<leftarrow> closure_lock w parent s6;
     cilk_assert (cl_fiber (clos s7 parent) = cl_fiber (clos s7 t));
     let s8 = upd_cl t (cl_fiber_update (\<lambda>_. None)) s7;
     s9 \<leftarrow> (if use_extension s8 then do {
               cilk_assert (ext_fiber (clos s8 parent) = ext_fiber (clos s8 t));
               Some (upd_cl t (ext_fiber_update (\<lambda>_. None)) s8)
             } else Some s8);
     s10 \<leftarrow> remove_callee parent s9;
     s11 \<leftarrow> setup_call_parent_resumption w w parent s10;
     s12 \<leftarrow> closure_unlock w parent s11;
     closure_destroy t (busy_unlock_self w s12)
   }"

definition provably_good_steal_maybe ::
    "worker_id \<Rightarrow> worker_id \<Rightarrow> nat \<Rightarrow> 'h rts \<Rightarrow> (nat option \<times> 'h rts) option" where
  "provably_good_steal_maybe w self parent s = do {
     assert_ownership self parent s;
     cilk_assert (\<not> provably_good_steal (locals s w));
     if \<not> has_children (clos s parent) \<and> cl_status (clos s parent) = CLOSURE_SUSPENDED then do {
       cilk_assert (cl_frame (clos s parent) \<noteq> None);
       let s1 = upd_loc w (provably_good_steal_update (\<lambda>_. True)) s;
       s2 \<leftarrow> setup_for_sync w self parent s1;
       cilk_assert (cl_owner (clos s2 parent) = NO_WORKER);
       Some (Some parent, make_ready parent s2)
     } else Some (None, s)
   }"

section \<open>Entering and leaving frames\<close>

text \<open>Where control goes: on in the caller, into a new Cilk region, or out of the region.\<close>

datatype frame_outcome = Continues | Cilkifies nat | Uncilkifies nat

definition enter_frame :: "bool \<Rightarrow> worker_id \<Rightarrow> nat \<Rightarrow> 'h rts \<Rightarrow> 'h rts option" where
  "enter_frame need_to_cilkify w sf s = do {
     let s1 = upd_frame sf (flags_update (\<lambda>_. 0)) s;
     cilk_assert (\<not> need_to_cilkify);
     let s2 = upd_frame sf (magic_update (\<lambda>_. frame_magic)) s1;
     f \<leftarrow> tls_fh s2 w;
     let s3 = upd_frame sf (\<lambda>fr. fr\<lparr>fh := Some f,
        frame_call_parent := current_stack_frame (fibs s2 f)\<rparr>) s2;
     Some (upd_fib f (current_stack_frame_update (\<lambda>_. Some sf)) s3)
   }"

definition enter_frame_helper :: "nat \<Rightarrow> nat \<Rightarrow> bool \<Rightarrow> 'h rts \<Rightarrow> 'h rts option" where
  "enter_frame_helper sf parent spawner s = do {
     f \<leftarrow> fh (frames s parent);
     let s1 = upd_frame sf (\<lambda>fr. fr\<lparr>flags := 0, magic := frame_magic, fh := Some f\<rparr>) s;
     Some (if spawner
           then upd_fib f (current_stack_frame_update (\<lambda>_. Some sf))
                  (upd_frame sf (frame_call_parent_update (\<lambda>_. Some parent)) s1)
           else s1)
   }"

text \<open>What \<open>__cilkrts_extend_spawn\<close> does to the worker and the parent: the parent keeps the extension, the
  worker gets a new frame on its extension stack.  What it writes into the pedigree frames is in
  the theory of pedigrees.\<close>

definition detach :: "nat \<Rightarrow> nat \<Rightarrow> 'h rts \<Rightarrow> 'h rts option" where
  "detach sf parent s = do {
     w \<leftarrow> get_worker_from_stack sf s;
     cilk_assert (check_frame_magic (frames s sf));
     let s1 = (if use_extension s
               then upd_wk w (\<lambda>wk. wk\<lparr>ext_stack := push_pedigree_frame (ext_stack wk),
                        extension := push_pedigree_frame (ext_stack wk)\<rparr>)
                      (upd_frame parent (frame_extension_update (\<lambda>_. extension (workers s w))) s)
               else s);
     let s2 = upd_frame sf (\<lambda>fr. fr\<lparr>flags := flags fr OR CILK_FRAME_DETACHED\<rparr>) s1;
     cilk_assert (tail (workers s2 w) + 1 < ltq_limit (workers s2 w));
     Some (upd_wk w (\<lambda>wk. wk\<lparr>shadow_stack := (shadow_stack wk)(tail wk := parent), tail := tail wk + 1\<rparr>) s2)
   }"

definition leave_frame :: "nat \<Rightarrow> 'h rts \<Rightarrow> (frame_outcome \<times> 'h rts) option" where
  "leave_frame sf s = do {
     w \<leftarrow> get_worker_from_stack sf s;
     cilk_assert (check_frame_magic (frames s sf));
     f \<leftarrow> fh (frames s sf);
     let s1 = upd_fib f (current_stack_frame_update (\<lambda>_. frame_call_parent (frames s sf))) s;
     let s2 = upd_frame sf (frame_call_parent_update (\<lambda>_. None)) s1;
     if has_flag CILK_FRAME_LAST (frames s2 sf) then Some (Uncilkifies sf, s2)
     else if flags (frames s2 sf) = 0 then Some (Continues, s2)
     else do {
       cilk_assert (\<not> has_flag CILK_FRAME_DETACHED (frames s2 sf));
       if has_flag CILK_FRAME_STOLEN (frames s2 sf) then do {
         s3 \<leftarrow> set_return w s2;
         cilk_assert (check_frame_magic (frames s3 sf));
         Some (Continues, s3)
       } else Some (Continues, s2)
     }
   }"

text \<open>The victim's half of the THE protocol, without interference: \<open>True\<close> when \<open>E > T\<close> afterwards,
  so that the exception handler runs.\<close>

definition leave_frame_helper :: "nat \<Rightarrow> nat \<Rightarrow> bool \<Rightarrow> 'h rts \<Rightarrow> (bool \<times> 'h rts) option" where
  "leave_frame_helper sf parent spawner s = do {
     w \<leftarrow> get_worker_from_stack sf s;
     cilk_assert (check_frame_magic (frames s sf));
     f \<leftarrow> fh (frames s sf);
     let s1 = (if spawner then upd_fib f (current_stack_frame_update (\<lambda>_. Some parent)) s else s);
     let s2 = (if use_extension s1
               then upd_wk w (\<lambda>wk. wk\<lparr>ext_stack := extend_return_from_spawn (ext_stack wk),
                        extension := frame_extension (frames s1 parent)\<rparr>) s1 else s1);
     let s3 = upd_frame sf (frame_call_parent_update (\<lambda>_. None)) s2;
     cilk_assert (has_flag CILK_FRAME_DETACHED (frames s3 sf));
     let s4 = upd_wk w (tail_update (\<lambda>t. t - 1)) s3;
     let s5 = upd_frame sf (\<lambda>fr. fr\<lparr>flags := flags fr AND NOT CILK_FRAME_DETACHED\<rparr>) s4;
     Some (exc (workers s5 w) > tail (workers s5 w), s5)
   }"

section \<open>The return protocol of a spawned child\<close>

definition set_left_slot :: "nat \<Rightarrow> nat option \<Rightarrow> 'h option \<Rightarrow> 'h rts \<Rightarrow> 'h rts" where
  "set_left_slot parent left ht s =
     (case left of
        Some l \<Rightarrow> upd_cl l (right_ht_update (\<lambda>_. ht)) s
      | None \<Rightarrow> upd_cl parent (child_ht_update (\<lambda>_. ht)) s)"

definition left_slot :: "nat \<Rightarrow> nat option \<Rightarrow> 'h rts \<Rightarrow> 'h option" where
  "left_slot parent left s =
     (case left of Some l \<Rightarrow> right_ht (clos s l) | None \<Rightarrow> child_ht (clos s parent))"

text \<open>The left-holder logic for stacks at the end of a child.\<close>

definition pass_fiber_up :: "worker_id \<Rightarrow> nat \<Rightarrow> nat \<Rightarrow> 'h rts \<Rightarrow> 'h rts option" where
  "pass_fiber_up w parent child s = do {
     s1 \<leftarrow> (if left_sib (clos s child) \<noteq> None \<or> fiber_child (clos s parent) \<noteq> None then do {
              cilk_assert (fiber_child (clos s parent) \<noteq> cl_fiber (clos s child));
              s' \<leftarrow> fiber_dealloc_maybe w (cl_fiber (clos s child)) s;
              if use_extension s' then fiber_dealloc_maybe w (ext_fiber (clos s' child)) s' else Some s'
            } else do {
              f \<leftarrow> cl_fiber (clos s child);
              cilk_assert (cl_frame (clos s parent) = current_stack_frame (fibs s f));
              let s' = upd_cl parent (fiber_child_update (\<lambda>_. Some f)) s;
              Some (if use_extension s'
                    then upd_cl parent (ext_fiber_child_update (\<lambda>_. ext_fiber (clos s' child))) s'
                    else s')
            });
     Some (upd_cl child (\<lambda>c. c\<lparr>cl_fiber := None, ext_fiber := None\<rparr>) s1)
   }"

text \<open>Tables were found on the left or the right: the child runs again to merge them.\<close>

definition arrange_merge ::
    "worker_id \<Rightarrow> worker_id \<Rightarrow> nat \<Rightarrow> nat \<Rightarrow> 'h option \<Rightarrow> 'h option \<Rightarrow> 'h rts \<Rightarrow> 'h rts option" where
  "arrange_merge w self parent child lht0 rht0 s = do {
     let s1 = set_status child CLOSURE_RUNNING s;
     s2 \<leftarrow> closure_unlock self child s1;
     s3 \<leftarrow> closure_unlock self parent s2;
     let s4 = upd_loc w (\<lambda>l. l\<lparr>rht := rht0, lht := lht0\<rparr>) s3;
     s5 \<leftarrow> setup_for_execution w child s4;
     Some (upd_loc w (provably_good_steal_update (\<lambda>_. True)) s5)
   }"

text \<open>No table is in the way: the active table goes to the left, the frame the exception handler
  pushed is popped, the stack and the exception go to the parent, and the child is destroyed.\<close>

definition deposit_and_unlink :: "worker_id \<Rightarrow> worker_id \<Rightarrow> nat \<Rightarrow> nat \<Rightarrow> 'h rts \<Rightarrow> 'h rts option" where
  "deposit_and_unlink w self parent child s = do {
     let active_ht = hyper_ht (workers s w);
     let s1 = upd_wk w (hyper_ht_update (\<lambda>_. None)) s;
     let s2 = set_left_slot parent (left_sib (clos s child)) active_ht s1;
     fr \<leftarrow> cl_frame (clos s2 child);
     (_, s3) \<leftarrow> leave_frame fr s2;
     s4 \<leftarrow> pass_fiber_up w parent child s3;
     s5 \<leftarrow> (if exception_pending (clos s4 child) then do {
              pf \<leftarrow> cl_frame (clos s4 parent);
              Some (upd_frame pf (\<lambda>fr. fr\<lparr>flags := flags fr OR CILK_FRAME_EXCEPTION_PENDING\<rparr>)
                (upd_cl parent (exception_pending_update (\<lambda>_. True)) s4))
            } else Some s4);
     s6 \<leftarrow> remove_child self parent child s5;
     s7 \<leftarrow> closure_unlock self child s6;
     closure_destroy child s7
   }"

text \<open>The parent has one child less; if it was the last one and the parent waits at a sync, this
  worker resumes it with its tables.\<close>

definition release_parent :: "worker_id \<Rightarrow> worker_id \<Rightarrow> nat \<Rightarrow> 'h rts \<Rightarrow> (nat option \<times> 'h rts) option" where
  "release_parent w self parent s = do {
     cilk_assert (cl_status (clos s parent) \<noteq> CLOSURE_RETURNING);
     cilk_assert (cl_frame (clos s parent) \<noteq> None);
     cilk_assert (join_counter (clos s parent) \<noteq> 0);
     let s1 = upd_cl parent (join_counter_update (\<lambda>n. n - 1)) s;
     (res, s2) \<leftarrow> provably_good_steal_maybe w self parent s1;
     s3 \<leftarrow> (case res of
       None \<Rightarrow> Some s2
     | Some r \<Rightarrow> do {
         let ch = child_ht (clos s2 parent);
         let active = user_ht (clos s2 parent);
         let sa = upd_cl parent (\<lambda>c. c\<lparr>child_ht := None, user_ht := None\<rparr>) s2;
         cilk_assert (lht (locals sa w) = None);
         let sb = upd_loc w (lht_update (\<lambda>_. ch)) sa;
         let sc = upd_wk w (hyper_ht_update (\<lambda>_. active)) sb;
         setup_for_execution w r sc
       });
     s4 \<leftarrow> closure_unlock self parent s3;
     Some (res, s4)
   }"

definition Closure_return :: "worker_id \<Rightarrow> worker_id \<Rightarrow> nat \<Rightarrow> 'h rts \<Rightarrow> (nat option \<times> 'h rts) option" where
  "Closure_return w self child s = do {
     cilk_assert (join_counter (clos s child) = 0);
     cilk_assert (cl_status (clos s child) = CLOSURE_RETURNING);
     cilk_assert (cl_owner (clos s child) = NO_WORKER);
     assert_alienation self child s;
     cilk_assert (call_parent (clos s child) = None);
     parent \<leftarrow> spawn_parent (clos s child);
     cilk_assert (child_ht (clos s child) = None \<and> user_ht (clos s child) = None);
     s1 \<leftarrow> closure_lock self parent s;
     s2 \<leftarrow> closure_lock self child s1;
     let rht0 = right_ht (clos s2 child);
     let s3 = upd_cl child (right_ht_update (\<lambda>_. None)) s2;
     let left = left_sib (clos s3 child);
     let lht0 = left_slot parent left s3;
     let s4 = set_left_slot parent left None s3;
     if lht0 \<noteq> None \<or> rht0 \<noteq> None then do {
       s5 \<leftarrow> arrange_merge w self parent child lht0 rht0 s4;
       Some (Some child, s5)
     } else do {
       s5 \<leftarrow> deposit_and_unlink w self parent child s4;
       release_parent w self parent s5
     }
   }"

definition return_value :: "worker_id \<Rightarrow> worker_id \<Rightarrow> nat \<Rightarrow> 'h rts \<Rightarrow> (nat option \<times> 'h rts) option" where
  "return_value w self t s = do {
     cilk_assert (cl_status (clos s t) = CLOSURE_RETURNING);
     cilk_assert (call_parent (clos s t) = None);
     Closure_return w self t s
   }"

end
