(* ===== verification/Stealing.thy ===== *)
theory Stealing
  imports Scheduler
begin

text \<open>
  The rest of \<^verbatim>\<open>runtime/scheduler.cpp\<close>: reductions in a frame, the exception handler that a losing
  victim calls, the steal with its promotion of frames to closures, the slow path of \<open>cilk_sync\<close>, and
  the dispatch on a closure's status in \<open>do_what_it_says\<close>.

  \<open>merge\<close> stands for \<open>merge_two_hts\<close> run on this state: the reduce callbacks are user code, which may
  look up reducers and so leave new views in the worker's table, or move to another worker.
\<close>

section \<open>Reductions\<close>

type_synonym 'h merge = "'h option \<Rightarrow> 'h option \<Rightarrow> 'h rts \<Rightarrow> ('h option \<times> 'h rts) option"

text \<open>The loop that reduces the views a merge has created; the fuel bounds its rounds.\<close>

fun absorb_new_views ::
    "nat \<Rightarrow> 'h merge \<Rightarrow> nat \<Rightarrow> worker_id \<Rightarrow> 'h option \<Rightarrow> 'h rts \<Rightarrow> (worker_id \<times> 'h option \<times> 'h rts) option" where
  "absorb_new_views 0 merge sf w ht s = None"
| "absorb_new_views (Suc n) merge sf w ht s =
     (if ht = None then Some (w, ht, s)
      else do {
        w' \<leftarrow> get_worker_from_stack sf s;
        if hyper_ht (workers s w') = None then Some (w', ht, s)
        else do {
          let new_ht = hyper_ht (workers s w');
          (ht', s') \<leftarrow> merge ht new_ht (upd_wk w' (hyper_ht_update (\<lambda>_. None)) s);
          absorb_new_views n merge sf w' ht' s'
        }
      })"

text \<open>The merge with the left table, if there is one, and the merge with the right table.\<close>

definition reduce_left ::
    "nat \<Rightarrow> 'h merge \<Rightarrow> nat \<Rightarrow> worker_id \<Rightarrow> 'h option \<Rightarrow> 'h option \<Rightarrow> 'h rts \<Rightarrow>
     (worker_id \<times> 'h option \<times> 'h rts) option" where
  "reduce_left fuel merge sf w l ht s =
     (if l = None then Some (w, ht, s)
      else do { (h, s') \<leftarrow> merge l ht s; absorb_new_views fuel merge sf w h s' })"

definition reduce_right ::
    "nat \<Rightarrow> 'h merge \<Rightarrow> nat \<Rightarrow> worker_id \<Rightarrow> 'h option \<Rightarrow> 'h option \<Rightarrow> 'h rts \<Rightarrow>
     (worker_id \<times> 'h option \<times> 'h rts) option" where
  "reduce_right fuel merge sf w ht r s =
     (if r = None then Some (w, ht, s)
      else do { (h, s') \<leftarrow> merge ht r s; absorb_new_views fuel merge sf w h s' })"

definition do_reductions :: "nat \<Rightarrow> 'h merge \<Rightarrow> nat \<Rightarrow> 'h rts \<Rightarrow> 'h rts option" where
  "do_reductions fuel merge sf s = do {
     w \<leftarrow> get_worker_from_stack sf s;
     let l = lht (locals s w);
     let r = rht (locals s w);
     if l = None \<and> r = None then Some s
     else do {
       let s1 = upd_loc w (\<lambda>lo. lo\<lparr>lht := None, rht := None\<rparr>) s;
       let ht = hyper_ht (workers s1 w);
       let s2 = upd_wk w (hyper_ht_update (\<lambda>_. None)) s1;
       (w1, ht1, s3) \<leftarrow> reduce_left fuel merge sf w l ht s2;
       (w2, ht2, s4) \<leftarrow> reduce_right fuel merge sf w1 ht1 r s3;
       Some (upd_wk w2 (hyper_ht_update (\<lambda>_. ht2)) s4)
     }
   }"

text \<open>A spawned child that lost its parent returns through a frame of its own: \<open>sf\<close> is that frame.
  Each round jumps to the runtime with \<open>returning\<close> set; when the runtime finds tables to merge it
  resumes the frame, which merges them and tries again.\<close>

definition reductions_for_return_enter :: "bool \<Rightarrow> worker_id \<Rightarrow> nat \<Rightarrow> nat \<Rightarrow> 'h rts \<Rightarrow> 'h rts option" where
  "reductions_for_return_enter ntc w sf t s = do {
     s1 \<leftarrow> enter_frame ntc w sf s;
     let s2 = upd_cl t (cl_frame_update (\<lambda>_. Some sf)) s1;
     Some (upd_loc w (returning_update (\<lambda>_. True)) s2)
   }"

definition reductions_for_return_again :: "nat \<Rightarrow> 'h merge \<Rightarrow> nat \<Rightarrow> nat \<Rightarrow> 'h rts \<Rightarrow> 'h rts option" where
  "reductions_for_return_again fuel merge sf t s = do {
     s1 \<leftarrow> do_reductions fuel merge sf s;
     w \<leftarrow> get_worker_from_stack sf s1;
     s2 \<leftarrow> busy_lock_self w s1;
     cilk_assert (\<not> has_children (clos s2 t));
     let s3 = set_status t CLOSURE_RETURNING s2;
     Some (upd_loc w (returning_update (\<lambda>_. True)) s3)
   }"

section \<open>The exception handler\<close>

text \<open>\<open>save_exn x\<close> is the effect on the worker's table of storing \<open>x\<close> in the exception reducer's
  view.  \<open>frame_was_stolen\<close> is the branch taken when the victim lost; the result of the handler names the
  closure to return, in that case.\<close>

definition frame_was_stolen ::
    "(u64 \<Rightarrow> 'h option \<Rightarrow> 'h option) \<Rightarrow> worker_id \<Rightarrow> u64 \<Rightarrow> nat \<Rightarrow> 'h rts \<Rightarrow> 'h rts option" where
  "frame_was_stolen save_exn w exn t s = do {
     let s1 = (if exn \<noteq> 0
               then upd_cl t (exception_pending_update (\<lambda>_. True))
                      (upd_wk w (\<lambda>wk. wk\<lparr>hyper_ht := save_exn exn (hyper_ht wk)\<rparr>) s)
               else s);
     s2 \<leftarrow> (if cl_status (clos s1 t) = CLOSURE_RUNNING then do {
              cilk_assert (\<not> has_children (clos s1 t));
              Some (set_status t CLOSURE_RETURNING s1)
            } else Some s1);
     closure_unlock w t s2
   }"

definition exception_handler ::
    "(u64 \<Rightarrow> 'h option \<Rightarrow> 'h option) \<Rightarrow> worker_id \<Rightarrow> u64 \<Rightarrow> 'h rts \<Rightarrow> (nat option \<times> 'h rts) option" where
  "exception_handler save_exn w exn s = do {
     s1 \<leftarrow> busy_lock_self w s;
     tp \<leftarrow> busy_peek w w s1;
     t \<leftarrow> tp;
     s2 \<leftarrow> closure_lock w t s1;
     s3 \<leftarrow> reset_exception_pointer w w t s2;
     cilk_assert (cl_status (clos s3 t) = CLOSURE_RUNNING \<or> cl_status (clos s3 t) = CLOSURE_RETURNING);
     if head (workers s3 w) > tail (workers s3 w) then do {
       s4 \<leftarrow> frame_was_stolen save_exn w exn t s3;
       Some (Some t, s4)
     } else do {
       s4 \<leftarrow> closure_unlock w t s3;
       Some (None, busy_unlock_self w s4)
     }
   }"

section \<open>Stealing\<close>

definition trivial_stacklet :: "stack_frame \<Rightarrow> bool" where
  "trivial_stacklet sf = has_flag CILK_FRAME_DETACHED sf"

text \<open>The thief's half of Dekker's protocol, run without interference from the victim.\<close>

definition do_dekker_on :: "worker_id \<Rightarrow> worker_id \<Rightarrow> nat \<Rightarrow> 'h rts \<Rightarrow> (int option \<times> 'h rts) option" where
  "do_dekker_on self victim_w cl s = do {
     assert_ownership self cl s;
     s1 \<leftarrow> increment_exception_pointer self victim_w cl s;
     let h = head (workers s1 victim_w);
     let t = tail (workers s1 victim_w);
     if h \<ge> t then do {
       s2 \<leftarrow> decrement_exception_pointer self victim_w cl s1;
       Some (None, s2)
     } else Some (Some h, s1)
   }"

text \<open>The three cases of promotion: the frame was stolen before, a spawned expression, or a spawned
  function whose stacklet was never stolen.  The result is the spawn parent, the closure stolen and
  the state.\<close>

definition promote_parent ::
    "nat \<Rightarrow> nat \<Rightarrow> worker_id \<Rightarrow> worker_id \<Rightarrow> 'h rts \<Rightarrow> (nat \<times> nat option \<times> 'h rts) option" where
  "promote_parent frame_to_steal cl self pn s =
     (if cl_frame (clos s cl) = Some frame_to_steal then do {
        cilk_assert (stolen (frames s frame_to_steal));
        (r, s1) \<leftarrow> busy_xtract self pn s;
        Some (cl, r, s1)
      } else if trivial_stacklet (frames s frame_to_steal) then do {
        cilk_assert (not_stolen (frames s frame_to_steal));
        cp \<leftarrow> frame_call_parent (frames s frame_to_steal);
        cilk_assert (stolen (frames s cp));
        cilk_assert (flags (frames s frame_to_steal) AND CILK_FRAME_LAST = 0);
        let s1 = upd_frame frame_to_steal set_stolen s;
        s2 \<leftarrow> set_frame cl frame_to_steal s1;
        (r, s3) \<leftarrow> busy_xtract self pn s2;
        Some (cl, r, s3)
      } else do {
        let (sp, s1) = closure_create (Some frame_to_steal) s;
        let s2 = upd_frame frame_to_steal set_stolen s1;
        let s3 = set_status sp CLOSURE_RUNNING s2;
        s4 \<leftarrow> add_callee cl sp s3;
        let s5 = upd_cl sp (call_parent_update (\<lambda>_. Some cl)) s4;
        s6 \<leftarrow> suspend_victim self pn cl s5;
        s7 \<leftarrow> closure_unlock self cl s6;
        s8 \<leftarrow> closure_lock self sp s7;
        Some (sp, Some sp, s8)
      })"

text \<open>The new child: \<open>head\<close> moves past the stolen frame and the child becomes the victim's busy
  closure.  Returns the child and the stolen closure.\<close>

definition promote_child ::
    "int \<Rightarrow> worker_id \<Rightarrow> nat \<Rightarrow> worker_id \<Rightarrow> worker_id \<Rightarrow> 'h rts \<Rightarrow> (nat \<times> nat option \<times> 'h rts) option" where
  "promote_child h victim_w cl self pn s = do {
     busy_assert_ownership self pn s;
     assert_ownership self cl s;
     cilk_assert (cl_status (clos s cl) = CLOSURE_RUNNING);
     cilk_assert (cl_owner (clos s cl) = pn);
     cilk_assert (cl = root_closure s \<or> spawn_parent (clos s cl) \<noteq> None \<or> call_parent (clos s cl) \<noteq> None);
     let frame_to_steal = shadow_stack (workers s victim_w) h;
     (sp, res, s1) \<leftarrow> promote_parent frame_to_steal cl self pn s;
     let s2 = (if orig_rsp (clos s1 sp) = 0
               then upd_cl sp (orig_rsp_update (\<lambda>_. stack_frame.sp (frames s1 frame_to_steal))) s1 else s1);
     let (child, s3) = closure_create None s2;
     let s4 = upd_cl child (spawn_parent_update (\<lambda>_. Some sp)) s3;
     let s5 = set_status child CLOSURE_RUNNING s4;
     s6 \<leftarrow> add_child self sp child s5;
     let s7 = upd_cl sp (join_counter_update (\<lambda>n. n + 1)) s6;
     let s8 = upd_wk victim_w (head_update (\<lambda>_. h + 1)) s7;
     s9 \<leftarrow> busy_set child self pn s8;
     Some (child, res, s9)
   }"

definition finish_promote :: "worker_id \<Rightarrow> nat \<Rightarrow> 'h rts \<Rightarrow> 'h rts option" where
  "finish_promote self parent s = do {
     assert_ownership self parent s;
     sf \<leftarrow> cl_frame (clos s parent);
     cilk_assert (stolen (frames s sf));
     let s1 = upd_frame sf set_unsynced s;
     Some (make_ready parent s1)
   }"

definition extract_top_spawning_closure ::
    "int \<Rightarrow> worker_id \<Rightarrow> worker_id \<Rightarrow> nat \<Rightarrow> worker_id \<Rightarrow> worker_id \<Rightarrow> 'h rts \<Rightarrow> (nat \<times> 'h rts) option" where
  "extract_top_spawning_closure h w victim_w cl self victim_id s = do {
     let parent_fiber = cl_fiber (clos s cl);
     let parent_ext_fiber = ext_fiber (clos s cl);
     busy_assert_ownership self victim_id s;
     assert_ownership self cl s;
     cilk_assert (parent_fiber \<noteq> None);
     (child, res, s1) \<leftarrow> promote_child h victim_w cl self victim_id s;
     r \<leftarrow> res;
     (f, s2) \<leftarrow> fiber_alloc w s1;
     let s3 = upd_cl r (cl_fiber_update (\<lambda>_. Some f)) s2;
     s4 \<leftarrow> (if use_extension s3 then do {
              (ef, s') \<leftarrow> fiber_alloc w s3;
              Some (upd_cl r (ext_fiber_update (\<lambda>_. Some ef)) s')
            } else Some s3);
     assert_alienation self child s4;
     let s5 = upd_cl child (cl_fiber_update (\<lambda>_. parent_fiber)) s4;
     Some (r, if use_extension s5 then upd_cl child (ext_fiber_update (\<lambda>_. parent_ext_fiber)) s5 else s5)
   }"

text \<open>\<open>sp1\<close> and \<open>sp2\<close> say whether the two weak compare-and-swaps fail spuriously.\<close>

definition Closure_steal ::
    "bool \<Rightarrow> bool \<Rightarrow> worker_id \<Rightarrow> worker_id \<Rightarrow> worker_id \<Rightarrow> 'h rts \<Rightarrow> (nat option \<times> 'h rts) option" where
  "Closure_steal sp1 sp2 w self victim s =
     (if head (workers s victim) \<ge> tail (workers s victim) then Some (None, s)
      else let (got, s1) = busy_trylock sp1 self victim s in
      if \<not> got then Some (None, s1)
      else do {
        clp \<leftarrow> busy_peek self victim s1;
        (case clp of
           None \<Rightarrow> Some (None, busy_unlock self victim s1)
         | Some cl \<Rightarrow>
             let (got2, s2) = closure_trylock sp2 self cl s1 in
             if \<not> got2 then Some (None, busy_unlock self victim s2)
             else (case cl_status (clos s2 cl) of
               CLOSURE_RUNNING \<Rightarrow> do {
                 (hp, s3) \<leftarrow> do_dekker_on self victim cl s2;
                 (case hp of
                    Some h \<Rightarrow> do {
                      (res, s4) \<leftarrow> extract_top_spawning_closure h w victim cl self victim s3;
                      let s5 = busy_unlock self victim s4;
                      cilk_assert (cl_fiber (clos s5 res) \<noteq> None);
                      assert_ownership self res s5;
                      s6 \<leftarrow> finish_promote self res s5;
                      s7 \<leftarrow> setup_for_execution w res s6;
                      s8 \<leftarrow> closure_unlock self res s7;
                      Some (Some res, s8)
                    }
                  | None \<Rightarrow> do {
                      s4 \<leftarrow> closure_unlock self cl s3;
                      Some (None, busy_unlock self victim s4)
                    })
               }
             | CLOSURE_RETURNING \<Rightarrow> do {
                 s3 \<leftarrow> closure_unlock self cl s2;
                 Some (None, busy_unlock self victim s3)
               }
             | _ \<Rightarrow> do { cilk_assert (cl = root_closure s2); Some (None, s2) }))
      })"

section \<open>Running a closure\<close>

definition reset_stack_for_resume :: "nat \<Rightarrow> nat \<Rightarrow> 'h rts \<Rightarrow> 'h rts" where
  "reset_stack_for_resume f sf s = upd_frame sf (sp_update (\<lambda>_. get_stack_start (fibs s f))) s"

text \<open>The state in which \<open>longjmp_to_user_code\<close> jumps, and the frame it jumps to.\<close>

definition longjmp_to_user_code :: "worker_id \<Rightarrow> nat \<Rightarrow> 'h rts \<Rightarrow> (nat \<times> 'h rts) option" where
  "longjmp_to_user_code w t s = do {
     cilk_assert (state (locals s w) = WORKER_RUN);
     sf \<leftarrow> cl_frame (clos s t);
     f \<leftarrow> cl_fiber (clos s t);
     if provably_good_steal (locals s w) then do {
       cilk_assert (throwing (frames s sf) \<or>
         orig_rsp (clos s t) = 0 \<and>
         (has_flag CILK_FRAME_LAST (frames s sf) \<or> in_fiber (fibs s f) (fp (frames s sf))) \<and>
         in_fiber (fibs s f) (sp (frames s sf)));
       Some (sf, upd_loc w (provably_good_steal_update (\<lambda>_. False)) s)
     } else if t = root_closure s \<and> \<not> root_closure_initialized s then
       Some (sf, s\<lparr>root_closure_initialized := True\<rparr>)
     else do {
       let s1 = reset_stack_for_resume f sf s;
       if use_extension s1 then do {
         ef \<leftarrow> ext_fiber (clos s1 t);
         Some (sf, upd_wk w (\<lambda>wk. wk\<lparr>extension := frame_extension (frames s1 sf),
                                 ext_stack := get_stack_start (fibs s1 ef)\<rparr>) s1)
       } else Some (sf, s1)
     }
   }"

text \<open>\<open>Cilk_sync\<close>: true is \<open>SYNC_READY\<close>.\<close>

definition Cilk_sync :: "worker_id \<Rightarrow> nat \<Rightarrow> 'h rts \<Rightarrow> (bool \<times> 'h rts) option" where
  "Cilk_sync w frame s = do {
     s1 \<leftarrow> busy_lock_self w s;
     tp \<leftarrow> busy_peek w w s1;
     t \<leftarrow> tp;
     s2 \<leftarrow> closure_lock w t s1;
     cilk_assert (Closure_at_top_of_stack w frame s2);
     cilk_assert (cl_status (clos s2 t) = CLOSURE_RUNNING);
     cilk_assert (cl_frame (clos s2 t) = Some frame);
     cilk_assert (stolen (frames s2 frame));
     cilk_assert (user_ht (clos s2 t) = None);
     (ready, s3) \<leftarrow> (if has_children (clos s2 t) then do {
         sa \<leftarrow> fiber_dealloc_maybe w (cl_fiber (clos s2 t)) s2;
         sb \<leftarrow> (if use_extension sa then fiber_dealloc_maybe w (ext_fiber (clos sa t)) sa else Some sa);
         let sc = upd_cl t (\<lambda>c. c\<lparr>cl_fiber := None, ext_fiber := None\<rparr>) sb;
         let ht = hyper_ht (workers sc w);
         let sd = upd_wk w (hyper_ht_update (\<lambda>_. None)) sc;
         se \<leftarrow> closure_suspend w t sd;
         Some (False, upd_cl t (user_ht_update (\<lambda>_. ht)) se)
       } else do {
         sa \<leftarrow> setup_for_sync w w t s2;
         Some (True, sa)
       });
     s4 \<leftarrow> closure_unlock w t s3;
     let s5 = busy_unlock_self w s4;
     if ready \<and> child_ht (clos s5 t) \<noteq> None then do {
       cilk_assert (lht (locals s5 w) = None);
       Some (True, upd_cl t (child_ht_update (\<lambda>_. None))
                     (upd_loc w (lht_update (\<lambda>_. child_ht (clos s5 t))) s5))
     } else Some (ready, s5)
   }"

text \<open>\<open>__cilkrts_sync\<close> never returns: control goes to the frame, or to the scheduler loop.\<close>

datatype jump = To_frame nat | To_runtime

definition cilkrts_sync :: "nat \<Rightarrow> 'h rts \<Rightarrow> (jump \<times> 'h rts) option" where
  "cilkrts_sync sf s = do {
     w \<leftarrow> get_worker_from_stack sf s;
     cilk_assert (check_frame_magic (frames s sf));
     (ready, s1) \<leftarrow> Cilk_sync w sf s;
     Some (if ready then To_frame sf else To_runtime, s1)
   }"

section \<open>Dispatch\<close>

text \<open>\<open>do_what_it_says\<close> on a running closure up to the jump into user code, what it does when control
  comes back from user code (the result is the closure to continue with, and whether the region
  ended), and the dispatch on the status.\<close>

definition start_running :: "worker_id \<Rightarrow> nat \<Rightarrow> 'h rts \<Rightarrow> (nat \<times> 'h rts) option" where
  "start_running w t s = do {
     cilk_assert (cl_frame (clos s t) \<noteq> None);
     s1 \<leftarrow> busy_lock_self w s;
     s2 \<leftarrow> busy_set t w w s1;
     let s3 = busy_unlock_self w s2;
     s4 \<leftarrow> change_state w WORKER_RUN s3;
     longjmp_to_user_code w t s4
   }"

datatype came_back = Region_done | Next "nat option"

definition back_in_runtime :: "worker_id \<Rightarrow> 'h rts \<Rightarrow> (came_back \<times> 'h rts) option" where
  "back_in_runtime w s = do {
     let s1 = s\<lparr>tls_fh := (tls_fh s)(w := None)\<rparr>;
     s2 \<leftarrow> change_state w WORKER_SCHED s1;
     if exiting (locals s2 w) then Some (Region_done, upd_loc w (exiting_update (\<lambda>_. False)) s2)
     else if returning (locals s2 w) then do {
       let s3 = upd_loc w (returning_update (\<lambda>_. False)) s2;
       (t, s4) \<leftarrow> busy_xtract w w s3;
       Some (Next t, busy_unlock_self w s4)
     } else Some (Next None, s2)
   }"

datatype dispatched = Jumped nat | Came_back "nat option"

definition dispatch :: "worker_id \<Rightarrow> nat \<Rightarrow> 'h rts \<Rightarrow> (dispatched \<times> 'h rts) option" where
  "dispatch w t s =
     (case cl_status (clos s t) of
        CLOSURE_RUNNING \<Rightarrow> do { (sf, s1) \<leftarrow> start_running w t s; Some (Jumped sf, s1) }
      | CLOSURE_RETURNING \<Rightarrow> do { (t', s1) \<leftarrow> return_value w w t s; Some (Came_back t', s1) }
      | _ \<Rightarrow> None)"

text \<open>The loop \<open>do ... while (t)\<close>: it runs until it jumps to user code (the closure and frame to jump
  to) or has nothing to run.\<close>

fun do_what_it_says :: "nat \<Rightarrow> worker_id \<Rightarrow> nat \<Rightarrow> 'h rts \<Rightarrow> (nat option \<times> 'h rts) option" where
  "do_what_it_says 0 w t s = None"
| "do_what_it_says (Suc n) w t s = do {
     (r, s1) \<leftarrow> dispatch w t s;
     (case r of
        Jumped sf \<Rightarrow> Some (Some sf, s1)
      | Came_back None \<Rightarrow> Some (None, s1)
      | Came_back (Some t') \<Rightarrow> do_what_it_says n w t' s1)
   }"

definition do_what_it_says_boss :: "nat \<Rightarrow> worker_id \<Rightarrow> nat \<Rightarrow> 'h rts \<Rightarrow> (nat option \<times> 'h rts) option" where
  "do_what_it_says_boss fuel w t s = do {
     s1 \<leftarrow> setup_for_execution w t s;
     do_what_it_says fuel w t s1
   }"

end
