(* ===== verification/Closure_Tree.thy ===== *)
theory Closure_Tree
  imports Closures
begin

text \<open>
  The sibling lists of the closure tree.  \<open>child_row s p cs\<close> says that the spawned children of \<open>p\<close> are
  the list \<open>cs\<close>, oldest first: the list is doubly linked through \<open>left_sib\<close> and \<open>right_sib\<close>, ends at
  \<open>right_most_child\<close>, and every member names \<open>p\<close> as its spawn parent.  \<open>add_child\<close> appends to the
  list and \<open>remove_child\<close> deletes from it, wherever the child is.
\<close>

section \<open>Rows of children\<close>

definition opt_list :: "'a option \<Rightarrow> 'a list" where
  "opt_list x = (case x of None \<Rightarrow> [] | Some y \<Rightarrow> [y])"

definition first_of :: "'a list \<Rightarrow> 'a option" where
  "first_of xs = (case xs of [] \<Rightarrow> None | x # _ \<Rightarrow> Some x)"

definition last_of :: "'a option \<Rightarrow> 'a list \<Rightarrow> 'a option" where
  "last_of d xs = (if xs = [] then d else Some (last xs))"

lemma opt_list_simps [simp]: "opt_list None = []" "opt_list (Some x) = [x]"
  by (simp_all add: opt_list_def)

lemma first_of_simps [simp]: "first_of [] = None" "first_of (x # xs) = Some x"
  by (simp_all add: first_of_def)

lemma last_of_simps [simp]:
  "last_of d [] = d" "last_of d (x # xs) = last_of (Some x) xs" "last_of d (xs @ [x]) = Some x"
  by (simp_all add: last_of_def)

lemma last_of_append [simp]: "last_of d (xs @ ys) = last_of (last_of d xs) ys"
  by (simp add: last_of_def)

lemma first_of_append [simp]: "first_of (xs @ y # ys) = first_of (xs @ [y])"
  by (cases xs) simp_all

lemma last_of_in: "last_of None xs = Some y \<Longrightarrow> y \<in> set xs"
  by (auto simp: last_of_def split: if_splits)

lemma last_of_Some_cases: "last_of (Some a) xs = Some y \<Longrightarrow> y \<in> insert a (set xs)"
  by (auto simp: last_of_def split: if_splits)

fun linked :: "'h rts \<Rightarrow> nat option \<Rightarrow> nat list \<Rightarrow> bool" where
  "linked s l [] = True"
| "linked s l (c # cs) \<longleftrightarrow>
     left_sib (clos s c) = l \<and> right_sib (clos s c) = first_of cs \<and> linked s (Some c) cs"

definition child_row :: "'h rts \<Rightarrow> nat \<Rightarrow> nat list \<Rightarrow> bool" where
  "child_row s p cs \<longleftrightarrow>
     distinct cs \<and> p \<notin> set cs \<and> linked s None cs \<and>
     right_most_child (clos s p) = last_of None cs \<and>
     (\<forall>c \<in> set cs. spawn_parent (clos s c) = Some p)"

lemma linked_cong:
  assumes "\<And>c. c \<in> set cs \<Longrightarrow> left_sib (clos s' c) = left_sib (clos s c)"
    and "\<And>c. c \<in> set cs \<Longrightarrow> right_sib (clos s' c) = right_sib (clos s c)"
  shows "linked s' l cs \<longleftrightarrow> linked s l cs"
  using assms by (induction cs arbitrary: l) simp_all

text \<open>A segment of a longer list: the list with a given right neighbour of its last element.\<close>

fun segment :: "'h rts \<Rightarrow> nat option \<Rightarrow> nat list \<Rightarrow> nat option \<Rightarrow> bool" where
  "segment s l [] r = True"
| "segment s l (c # cs) r \<longleftrightarrow>
     left_sib (clos s c) = l \<and>
     right_sib (clos s c) = (case cs of [] \<Rightarrow> r | d # _ \<Rightarrow> Some d) \<and> segment s (Some c) cs r"

lemma segment_linked: "linked s l cs \<longleftrightarrow> segment s l cs None"
  by (induction cs arbitrary: l) (auto simp: first_of_def split: list.splits)

lemma segment_append:
  "segment s l (xs @ ys) r \<longleftrightarrow>
     segment s l xs (case ys of [] \<Rightarrow> r | d # _ \<Rightarrow> Some d) \<and> segment s (last_of l xs) ys r"
proof (induction xs arbitrary: l)
  case (Cons x xs)
  then show ?case by (cases xs; cases ys) auto
qed simp

lemma segment_cong:
  assumes "\<And>c. c \<in> set cs \<Longrightarrow> left_sib (clos s' c) = left_sib (clos s c)"
    and "\<And>c. c \<in> set cs \<Longrightarrow> right_sib (clos s' c) = right_sib (clos s c)"
  shows "segment s' l cs r \<longleftrightarrow> segment s l cs r"
  using assms by (induction cs arbitrary: l) simp_all

text \<open>Changing the right neighbour of the last element, or the left neighbour of the first.\<close>

lemma segment_relink_last:
  assumes "segment s l (xs @ [x]) r" "distinct (xs @ [x])"
    and "\<And>c. c \<in> set xs \<Longrightarrow> left_sib (clos s' c) = left_sib (clos s c)"
    and "\<And>c. c \<in> set xs \<Longrightarrow> right_sib (clos s' c) = right_sib (clos s c)"
    and "left_sib (clos s' x) = left_sib (clos s x)" "right_sib (clos s' x) = r'"
  shows "segment s' l (xs @ [x]) r'"
proof -
  have "segment s l xs (Some x)" and "left_sib (clos s x) = last_of l xs"
    using assms(1) by (simp_all add: segment_append)
  then have "segment s' l xs (Some x)" and "left_sib (clos s' x) = last_of l xs"
    using assms(3-5) by (simp_all add: segment_cong [where s' = s' and s = s])
  then show ?thesis using assms(6) by (simp add: segment_append)
qed

lemma segment_relink_first:
  assumes "segment s l (y # ys) r" "y \<notin> set ys"
    and "\<And>c. c \<in> set ys \<Longrightarrow> left_sib (clos s' c) = left_sib (clos s c)"
    and "\<And>c. c \<in> set ys \<Longrightarrow> right_sib (clos s' c) = right_sib (clos s c)"
    and "right_sib (clos s' y) = right_sib (clos s y)" "left_sib (clos s' y) = l'"
  shows "segment s' l' (y # ys) r"
  using assms by (simp add: segment_cong [where s' = s' and s = s])

section \<open>Adding a child\<close>

lemma same_but_clos: "\<exists>h. s = s\<lparr>clos := h\<rparr>" "\<exists>h. upd_cl a f s = s\<lparr>clos := h\<rparr>"
  by (rule exI [of _ "clos s"], simp) (simp add: upd_cl_def, blast)

lemma upd_cl_clos3: "\<exists>h. upd_cl a f (upd_cl b g (upd_cl c k s)) = s\<lparr>clos := h\<rparr>"
  by (simp add: upd_cl_def) blast

lemma child_row_rightmost:
  assumes "child_row s p cs" "right_most_child (clos s p) = Some l"
  obtains xs where "cs = xs @ [l]" "right_sib (clos s l) = None" "l \<noteq> p"
proof -
  have "cs \<noteq> []" using assms by (auto simp: child_row_def)
  then obtain xs x where cs: "cs = xs @ [x]" by (metis rev_exhaust)
  then have "x = l" using assms by (simp add: child_row_def)
  moreover have "right_sib (clos s x) = None"
    using assms cs by (simp add: child_row_def segment_linked segment_append)
  ultimately show ?thesis using that [of xs] cs assms by (auto simp: child_row_def)
qed

lemma add_child_row:
  assumes row: "child_row s p cs"
    and fresh: "child \<notin> set cs" "child \<noteq> p"
      "left_sib (clos s child) = None" "right_sib (clos s child) = None"
    and parent: "spawn_parent (clos s child) = Some p"
    and locks: "cl_mutex (clos s p) = self" "cl_mutex (clos s child) \<noteq> self"
  shows "\<exists>s'. add_child self p child s = Some s' \<and> child_row s' p (cs @ [child])
     \<and> (\<forall>c. c \<notin> insert p (insert child (set cs)) \<longrightarrow> clos s' c = clos s c)
     \<and> (\<forall>c. (clos s' c)\<lparr>left_sib := None, right_sib := None, right_most_child := None\<rparr>
            = (clos s c)\<lparr>left_sib := None, right_sib := None, right_most_child := None\<rparr>)
     \<and> (\<exists>f. s' = s\<lparr>clos := f\<rparr>)"
proof (cases cs rule: rev_cases)
  case Nil
  with row have rm: "right_most_child (clos s p) = None" by (simp add: child_row_def)
  show ?thesis using assms rm Nil
    by (auto simp: add_child_def double_link_children_def assert_ownership_def assert_alienation_def
        child_row_def upd_cl_def Let_def)
next
  case (snoc xs l)
  with row have rm: "right_most_child (clos s p) = Some l" by (simp add: child_row_def)
  from row snoc have r: "right_sib (clos s l) = None" and lp: "l \<noteq> p" and seg: "segment s None (xs @ [l]) None"
    and dist: "distinct (xs @ [l])"
    by (auto simp: child_row_def segment_linked segment_append)
  have lc: "l \<noteq> child" using fresh snoc by auto
  define s1 where "s1 = upd_cl l (right_sib_update (\<lambda>_. Some child)) s"
  define s2 where "s2 = upd_cl child (left_sib_update (\<lambda>_. Some l)) s1"
  define s3 where "s3 = upd_cl p (right_most_child_update (\<lambda>_. Some child)) s2"
  have run: "add_child self p child s = Some s3"
    using rm r locks fresh lc
    by (simp add: add_child_def double_link_children_def assert_ownership_def assert_alienation_def
        s1_def s2_def s3_def)
  have frame: "clos s3 c = clos s c" if "c \<in> set xs" for c
  proof -
    have "c \<noteq> l" "c \<noteq> child" using that dist fresh(1) snoc by auto
    moreover have "c \<noteq> p" using that row snoc by (auto simp: child_row_def)
    ultimately show ?thesis by (simp add: s1_def s2_def s3_def)
  qed
  have "segment s3 None (xs @ [l]) (Some child)"
    by (rule segment_relink_last [OF seg dist]) (use frame lc lp fresh in \<open>auto simp: s1_def s2_def s3_def\<close>)
  then have "linked s3 None (cs @ [child])"
    using snoc fresh lc by (simp add: segment_linked segment_append s1_def s2_def s3_def)
  moreover have "spawn_parent (clos s3 c) = Some p" if "c \<in> set (cs @ [child])" for c
    using that parent row by (auto simp: s1_def s2_def s3_def child_row_def)
  ultimately have "child_row s3 p (cs @ [child])"
    using fresh row snoc by (auto simp: child_row_def s3_def)
  moreover have "clos s3 c = clos s c" if "c \<notin> insert p (insert child (set cs))" for c
    using that snoc by (simp add: s1_def s2_def s3_def)
  moreover have "(clos s3 c)\<lparr>left_sib := None, right_sib := None, right_most_child := None\<rparr>
      = (clos s c)\<lparr>left_sib := None, right_sib := None, right_most_child := None\<rparr>" for c
    by (simp add: s1_def s2_def s3_def)
  moreover have "\<exists>f. s3 = s\<lparr>clos := f\<rparr>" unfolding s1_def s2_def s3_def by (rule upd_cl_clos3)
  ultimately show ?thesis using run by blast
qed

section \<open>Removing a child\<close>

lemma unlink_child_row:
  assumes seg: "segment s None (xs @ c # ys) None" and dist: "distinct (xs @ c # ys)"
  shows "\<exists>s'. unlink_child c s = Some s' \<and> segment s' None (xs @ ys) None
     \<and> left_sib (clos s' c) = None \<and> right_sib (clos s' c) = None
     \<and> (\<forall>d. (clos s' d)\<lparr>left_sib := None, right_sib := None\<rparr> = (clos s d)\<lparr>left_sib := None, right_sib := None\<rparr>)
     \<and> (\<forall>d. d \<notin> set (xs @ c # ys) \<longrightarrow> clos s' d = clos s d)
     \<and> (\<exists>f. s' = s\<lparr>clos := f\<rparr>)"
proof -
  have l: "left_sib (clos s c) = last_of None xs" and r: "right_sib (clos s c) = first_of ys"
    and sx: "segment s None xs (Some c)" and sy: "segment s (Some c) ys None"
    using seg by (auto simp: segment_append first_of_def split: list.splits)
  define s1 where "s1 = (case last_of None xs of None \<Rightarrow> s
     | Some a \<Rightarrow> upd_cl a (right_sib_update (\<lambda>_. first_of ys)) s)"
  define s2 where "s2 = (case first_of ys of None \<Rightarrow> s1
     | Some b \<Rightarrow> upd_cl b (left_sib_update (\<lambda>_. last_of None xs)) s1)"
  define s3 where "s3 = upd_cl c (right_sib_update (\<lambda>_. None)) (upd_cl c (left_sib_update (\<lambda>_. None)) s2)"
  have lr: "right_sib (clos s a) = Some c" if "last_of None xs = Some a" for a
    using that sx by (cases xs rule: rev_cases) (auto simp: segment_append)
  have rl: "left_sib (clos s b) = Some c" if "first_of ys = Some b" for b
    using that sy by (cases ys) auto
  have ne: "last_of None xs \<noteq> Some c" "first_of ys \<noteq> Some c"
    using dist by (auto dest!: last_of_in simp: first_of_def split: list.splits)
  have ab: "a \<noteq> b" if "last_of None xs = Some a" "first_of ys = Some b" for a b
    using that dist by (auto dest!: last_of_in simp: first_of_def split: list.splits)
  have s1c: "clos s1 c = clos s c" using ne by (auto simp: s1_def split: option.splits)
  have s1b: "left_sib (clos s1 b) = left_sib (clos s b)" for b
    by (auto simp: s1_def split: option.splits)
  have run: "unlink_child c s = Some s3"
  proof -
    have st1: "(case left_sib (clos s c) of None \<Rightarrow> Some s | Some a \<Rightarrow> do {
        cilk_assert (right_sib (clos s a) = Some c);
        Some (upd_cl a (right_sib_update (\<lambda>_. right_sib (clos s c))) s)}) = Some s1"
      by (cases "last_of None xs") (simp_all add: l r lr s1_def)
    have st2: "(case right_sib (clos s1 c) of None \<Rightarrow> Some s1 | Some b \<Rightarrow> do {
        cilk_assert (left_sib (clos s1 b) = Some c);
        Some (upd_cl b (left_sib_update (\<lambda>_. left_sib (clos s1 c))) s1)}) = Some s2"
      by (cases "first_of ys") (simp_all add: s1c s1b l r rl s2_def)
    show ?thesis unfolding unlink_child_def st1 by (simp add: st2 s3_def)
  qed
  have frame: "clos s3 d = clos s d" if "d \<noteq> c" "last_of None xs \<noteq> Some d" "first_of ys \<noteq> Some d" for d
    using that by (auto simp: s1_def s2_def s3_def split: option.splits)
  have at_l: "left_sib (clos s3 a) = left_sib (clos s a) \<and> right_sib (clos s3 a) = first_of ys"
    if "last_of None xs = Some a" for a
    using that ne ab by (cases "first_of ys") (auto simp: s1_def s2_def s3_def)
  have at_r: "right_sib (clos s3 b) = right_sib (clos s b) \<and> left_sib (clos s3 b) = last_of None xs"
    if "first_of ys = Some b" for b
    using that ne ab by (cases "last_of None xs") (auto simp: s1_def s2_def s3_def)
  have "segment s3 None xs (first_of ys)"
  proof (cases xs rule: rev_cases)
    case (snoc us a)
    have fr: "clos s3 d = clos s d" if "d \<in> set us" for d
      using that dist snoc by (intro frame) (auto simp: first_of_def split: list.splits)
    show ?thesis unfolding snoc
      by (rule segment_relink_last [OF sx [unfolded snoc]])
        (use fr dist snoc at_l [of a] in simp_all)
  qed simp
  moreover have "segment s3 (last_of None xs) ys None"
  proof (cases ys)
    case (Cons b us)
    have fr: "clos s3 d = clos s d" if "d \<in> set us" for d
      using that dist Cons by (intro frame) (auto dest!: last_of_in)
    show ?thesis unfolding Cons
      by (rule segment_relink_first [OF sy [unfolded Cons]])
        (use fr dist Cons at_r [of b] in simp_all)
  qed simp
  ultimately have "segment s3 None (xs @ ys) None"
    by (simp add: segment_append first_of_def split: list.splits)
  moreover have "clos s3 d = clos s d" if "d \<notin> set (xs @ c # ys)" for d
    using that by (intro frame) (auto dest!: last_of_in simp: first_of_def split: list.splits)
  moreover have "left_sib (clos s3 c) = None" "right_sib (clos s3 c) = None"
    by (simp_all add: s3_def)
  moreover have "(clos s3 d)\<lparr>left_sib := None, right_sib := None\<rparr> = (clos s d)\<lparr>left_sib := None, right_sib := None\<rparr>" for d
    by (simp add: s1_def s2_def s3_def split: option.split)
  moreover have "\<exists>f. s1 = s\<lparr>clos := f\<rparr>" "\<exists>f. s2 = s1\<lparr>clos := f\<rparr>"
    by (auto simp: s1_def s2_def same_but_clos split: option.split)
  then have "\<exists>f. s3 = s\<lparr>clos := f\<rparr>" by (auto simp: s3_def upd_cl_def)
  ultimately show ?thesis using run by blast
qed

lemma remove_child_row:
  assumes row: "child_row s p (xs @ c # ys)"
    and locks: "cl_mutex (clos s p) = self" "cl_mutex (clos s c) = self"
    and empty: "right_ht (clos s c) = None"
  shows "\<exists>s'. remove_child self p c s = Some s' \<and> child_row s' p (xs @ ys)
     \<and> left_sib (clos s' c) = None \<and> right_sib (clos s' c) = None
     \<and> (\<forall>d. (clos s' d)\<lparr>left_sib := None, right_sib := None, right_most_child := None\<rparr>
            = (clos s d)\<lparr>left_sib := None, right_sib := None, right_most_child := None\<rparr>)
     \<and> (\<forall>d. d \<noteq> p \<longrightarrow> right_most_child (clos s' d) = right_most_child (clos s d))
     \<and> (\<forall>d. d \<notin> insert p (set (xs @ c # ys)) \<longrightarrow> clos s' d = clos s d)
     \<and> (\<exists>f. s' = s\<lparr>clos := f\<rparr>)"
proof -
  define s1 where "s1 = (if right_most_child (clos s p) = Some c
     then upd_cl p (right_most_child_update (\<lambda>_. left_sib (clos s c))) s else s)"
  have seg: "segment s None (xs @ c # ys) None" and dist: "distinct (xs @ c # ys)"
    and rm: "right_most_child (clos s p) = last_of (Some c) ys" and pn: "p \<notin> set (xs @ c # ys)"
    using row by (auto simp: child_row_def segment_linked)
  have l: "left_sib (clos s c) = last_of None xs" and r: "right_sib (clos s c) = first_of ys"
    using seg by (auto simp: segment_append first_of_def split: list.splits)
  have is_last: "right_most_child (clos s p) = Some c \<longleftrightarrow> ys = []"
    using rm dist by (cases ys rule: rev_cases) auto
  have fr: "left_sib (clos s1 d) = left_sib (clos s d)" "right_sib (clos s1 d) = right_sib (clos s d)"
    "right_ht (clos s1 d) = right_ht (clos s d)" for d
    by (auto simp: s1_def)
  have "segment s1 None (xs @ c # ys) None" using seg fr segment_cong by metis
  from unlink_child_row [OF this dist] obtain s2 where un: "unlink_child c s1 = Some s2"
    and seg2: "segment s2 None (xs @ ys) None" "left_sib (clos s2 c) = None" "right_sib (clos s2 c) = None"
    and rest: "\<And>d. (clos s2 d)\<lparr>left_sib := None, right_sib := None\<rparr> = (clos s1 d)\<lparr>left_sib := None, right_sib := None\<rparr>"
    and out: "\<And>d. d \<notin> set (xs @ c # ys) \<Longrightarrow> clos s2 d = clos s1 d"
    and ex: "\<exists>f. s2 = s1\<lparr>clos := f\<rparr>" by blast
  have keep: "right_most_child (clos s2 d) = right_most_child (clos s1 d)"
    "spawn_parent (clos s2 d) = spawn_parent (clos s1 d)" for d
    using arg_cong [OF rest [of d], where f = right_most_child]
      arg_cong [OF rest [of d], where f = spawn_parent] by simp_all
  have run: "remove_child self p c s = Some s2"
    using locks empty row is_last un fr r pn
    by (cases "ys = []") (auto simp: remove_child_def assert_ownership_def child_row_def s1_def)
  have "right_most_child (clos s2 p) = last_of None (xs @ ys)"
    using keep rm is_last l by (cases ys rule: rev_cases) (auto simp: s1_def)
  moreover have "spawn_parent (clos s2 d) = Some p" if "d \<in> set (xs @ ys)" for d
    using that row keep by (auto simp: child_row_def s1_def)
  ultimately have "child_row s2 p (xs @ ys)"
    using seg2 dist pn by (auto simp: child_row_def segment_linked)
  moreover have "(clos s2 d)\<lparr>left_sib := None, right_sib := None, right_most_child := None\<rparr>
      = (clos s d)\<lparr>left_sib := None, right_sib := None, right_most_child := None\<rparr>" for d
    using arg_cong [OF rest [of d], where f = "right_most_child_update (\<lambda>_. None)"]
    by (cases "d = p") (simp_all add: s1_def)
  moreover have "right_most_child (clos s2 d) = right_most_child (clos s d)" if "d \<noteq> p" for d
    using that keep by (simp add: s1_def)
  moreover have "clos s2 d = clos s d" if "d \<notin> insert p (set (xs @ c # ys))" for d
    using that out by (auto simp: s1_def)
  moreover have "\<exists>f. s1 = s\<lparr>clos := f\<rparr>" by (auto simp: s1_def same_but_clos)
  then have "\<exists>f. s2 = s\<lparr>clos := f\<rparr>" using ex by auto
  ultimately show ?thesis using run seg2 by blast
qed

end
