(* ===== verification/Returning.thy ===== *)
theory Returning
  imports Scheduler Closure_Tree
begin

text \<open>
  What the return of a spawned child does to the reducer tables, the sibling lists and the locks.

  \<open>serial s p act cs\<close> lists the tables of the computation below \<open>p\<close> in serial order: the table
  deposited left of the first child, then for each child the tables of its own execution (\<open>act\<close>) and
  the one deposited right of it, and at the end the table of the parent's own continuation.
\<close>

section \<open>Steps that leave tables, links or locks alone\<close>

definition same_tables :: "'h rts \<Rightarrow> 'h rts \<Rightarrow> bool" where
  "same_tables s s' \<longleftrightarrow>
     (\<forall>c. child_ht (clos s' c) = child_ht (clos s c) \<and> right_ht (clos s' c) = right_ht (clos s c) \<and>
          user_ht (clos s' c) = user_ht (clos s c)) \<and>
     (\<forall>v. hyper_ht (workers s' v) = hyper_ht (workers s v)) \<and>
     (\<forall>v. lht (locals s' v) = lht (locals s v) \<and> rht (locals s' v) = rht (locals s v))"

definition same_links :: "'h rts \<Rightarrow> 'h rts \<Rightarrow> bool" where
  "same_links s s' \<longleftrightarrow>
     (\<forall>c. left_sib (clos s' c) = left_sib (clos s c) \<and> right_sib (clos s' c) = right_sib (clos s c) \<and>
          right_most_child (clos s' c) = right_most_child (clos s c) \<and>
          spawn_parent (clos s' c) = spawn_parent (clos s c) \<and>
          join_counter (clos s' c) = join_counter (clos s c))"

definition same_locks :: "'h rts \<Rightarrow> 'h rts \<Rightarrow> bool" where
  "same_locks s s' \<longleftrightarrow>
     (\<forall>c. cl_mutex (clos s' c) = cl_mutex (clos s c)) \<and> (\<forall>v. bc_mutex (busy s' v) = bc_mutex (busy s v))"

definition quiet :: "'h rts \<Rightarrow> 'h rts \<Rightarrow> bool" where
  "quiet s s' \<longleftrightarrow> same_tables s s' \<and> same_links s s' \<and> same_locks s s'"

lemmas quiet_defs = quiet_def same_tables_def same_links_def same_locks_def

lemma quiet_refl [simp]: "quiet s s"
  by (simp add: quiet_defs)

lemma quiet_trans [trans]: "quiet s s' \<Longrightarrow> quiet s' s'' \<Longrightarrow> quiet s s''"
  by (simp add: quiet_defs)

text \<open>Every result of a computation started in \<open>s\<close> is quiet with respect to \<open>s\<close>; the rules follow
  the structure of a computation.\<close>

definition all_quiet :: "'h rts \<Rightarrow> 'h rts option \<Rightarrow> bool" where
  "all_quiet s m \<longleftrightarrow> (\<forall>s'. m = Some s' \<longrightarrow> quiet s s')"

lemma all_quiet_bind_state:
  assumes "all_quiet s m" "\<And>s1. quiet s s1 \<Longrightarrow> all_quiet s (f s1)"
  shows "all_quiet s (Option.bind m f)"
  using assms by (auto simp: all_quiet_def bind_eq_Some_conv)

lemma all_quiet_bind: "(\<And>a. all_quiet s (f a)) \<Longrightarrow> all_quiet s (Option.bind m f)"
  by (auto simp: all_quiet_def bind_eq_Some_conv)

lemma all_quiet_let:
  assumes "quiet s e" "\<And>x. quiet s x \<Longrightarrow> all_quiet s (f x)"
  shows "all_quiet s (let x = e in f x)"
  using assms by simp

lemma all_quiet_let_any: "(\<And>x. all_quiet s (f x)) \<Longrightarrow> all_quiet s (let x = e in f x)"
  by simp

lemma all_quiet_some: "quiet s s' \<Longrightarrow> all_quiet s (Some s')"
  by (simp add: all_quiet_def)

lemma all_quiet_if: "all_quiet s m \<Longrightarrow> all_quiet s m' \<Longrightarrow> all_quiet s (if b then m else m')"
  by simp

lemma all_quiet_from: "quiet s s1 \<Longrightarrow> all_quiet s1 m \<Longrightarrow> all_quiet s m"
  by (auto simp: all_quiet_def intro: quiet_trans)

lemmas all_quiet_intros = all_quiet_if all_quiet_bind_state all_quiet_bind all_quiet_let all_quiet_let_any
  all_quiet_some

named_theorems quiet_steps \<open>operations that touch no table, link or lock\<close>

lemma quiet_upd [quiet_steps]:
  "quiet s s' \<Longrightarrow> quiet s (upd_frame p f s')" "quiet s s' \<Longrightarrow> quiet s (upd_fib p g s')"
  "quiet s s' \<Longrightarrow> quiet s (set_status c st s')" "quiet s s' \<Longrightarrow> quiet s (make_ready c s')"
  "quiet s s' \<Longrightarrow> quiet s (s'\<lparr>tls_fh := th\<rparr>)"
  by (simp_all add: quiet_defs set_status_def make_ready_def)

lemma quiet_if [quiet_steps]: "quiet s a \<Longrightarrow> quiet s b \<Longrightarrow> quiet s (if c then a else b)"
  by simp

lemma quiet_upd_loc [quiet_steps]:
  "quiet s s' \<Longrightarrow> (\<And>l. lht (f l) = lht l) \<Longrightarrow> (\<And>l. rht (f l) = rht l) \<Longrightarrow> quiet s (upd_loc w f s')"
  by (simp add: quiet_defs)

lemma quiet_upd_wk [quiet_steps]:
  "quiet s s' \<Longrightarrow> (\<And>k. hyper_ht (f k) = hyper_ht k) \<Longrightarrow> quiet s (upd_wk w f s')"
  by (simp add: quiet_defs)

lemma quiet_upd_cl [quiet_steps]:
  "quiet s s' \<Longrightarrow> (\<And>c. child_ht (f c) = child_ht c) \<Longrightarrow> (\<And>c. right_ht (f c) = right_ht c) \<Longrightarrow>
   (\<And>c. user_ht (f c) = user_ht c) \<Longrightarrow> (\<And>c. left_sib (f c) = left_sib c) \<Longrightarrow>
   (\<And>c. right_sib (f c) = right_sib c) \<Longrightarrow> (\<And>c. right_most_child (f c) = right_most_child c) \<Longrightarrow>
   (\<And>c. spawn_parent (f c) = spawn_parent c) \<Longrightarrow> (\<And>c. join_counter (f c) = join_counter c) \<Longrightarrow>
   (\<And>c. cl_mutex (f c) = cl_mutex c) \<Longrightarrow> quiet s (upd_cl p f s')"
  by (simp add: quiet_defs)

lemma fiber_dealloc_clos:
  assumes "fiber_dealloc w f s = Some s'"
  shows "clos s' = clos s" "workers s' = workers s" "frames s' = frames s" "busy s' = busy s" "quiet s s'"
  using assms by (auto simp: fiber_dealloc_def bind_eq_Some_conv quiet_defs)

lemma fiber_dealloc_maybe_clos:
  assumes "fiber_dealloc_maybe w f s = Some s'"
  shows "clos s' = clos s" "workers s' = workers s" "frames s' = frames s" "busy s' = busy s" "quiet s s'"
  using assms fiber_dealloc_clos by (auto simp: fiber_dealloc_maybe_def split: option.splits)

lemma fiber_dealloc_maybe_effect:
  assumes "fiber_dealloc_maybe w f s = Some s'"
  shows "clos s' = clos s \<and> workers s' = workers s \<and> frames s' = frames s \<and> busy s' = busy s \<and>
    (\<forall>v. lht (locals s' v) = lht (locals s v) \<and> rht (locals s' v) = rht (locals s v))"
  using fiber_dealloc_maybe_clos [OF assms] by (simp add: quiet_defs)

lemma all_quiet_fiber_dealloc_maybe: "quiet s s1 \<Longrightarrow> all_quiet s (fiber_dealloc_maybe w f s1)"
  unfolding all_quiet_def by (blast intro: quiet_trans fiber_dealloc_maybe_clos(5))

lemma quiet_setup_for_execution:
  assumes "setup_for_execution w t s = Some s'"
  shows "quiet s s'"
  using assms by (auto simp: setup_for_execution_def bind_eq_Some_conv Let_def quiet_defs set_status_def)

lemma quiet_setup_for_sync:
  assumes "setup_for_sync w self t s = Some s'"
  shows "quiet s s'"
proof -
  have "all_quiet s (setup_for_sync w self t s)"
    unfolding setup_for_sync_def swap_to_child_fiber_def point_frame_at_fiber_def
    by (intro all_quiet_intros all_quiet_fiber_dealloc_maybe quiet_steps quiet_refl | assumption | simp)+
  then show ?thesis using assms by (simp add: all_quiet_def)
qed

lemma quiet_leave_frame:
  assumes "leave_frame sf s = Some (r, s')" "flags (frames s sf) = 0"
  shows "clos s' = clos s" "workers s' = workers s" "quiet s s'"
  using assms
  by (auto simp: leave_frame_def bind_eq_Some_conv Let_def quiet_defs has_flag_def CILK_FRAME_LAST_def
      split: if_splits)

lemma quiet_pass_fiber_up:
  assumes "pass_fiber_up w parent child s = Some s'"
  shows "quiet s s'"
proof -
  have "all_quiet s (pass_fiber_up w parent child s)"
    unfolding pass_fiber_up_def
    by (intro all_quiet_intros all_quiet_fiber_dealloc_maybe quiet_steps quiet_refl | assumption | simp)+
  then show ?thesis using assms by (simp add: all_quiet_def)
qed


section \<open>The serial order of the tables\<close>

fun row_from :: "'h option \<Rightarrow> (nat \<Rightarrow> 'h list) \<Rightarrow> (nat \<Rightarrow> 'h option) \<Rightarrow> nat list \<Rightarrow> 'h list" where
  "row_from d act r [] = opt_list d"
| "row_from d act r (c # cs) = opt_list d @ act c @ row_from (r c) act r cs"

definition serial :: "'h rts \<Rightarrow> nat \<Rightarrow> (nat \<Rightarrow> 'h list) \<Rightarrow> nat list \<Rightarrow> 'h list" where
  "serial s p act cs =
     row_from (child_ht (clos s p)) act (\<lambda>c. right_ht (clos s c)) cs @ opt_list (user_ht (clos s p))"

text \<open>The row up to, and without, the slot left of the element that follows \<open>xs\<close>.\<close>

fun row_init :: "'h option \<Rightarrow> (nat \<Rightarrow> 'h list) \<Rightarrow> (nat \<Rightarrow> 'h option) \<Rightarrow> nat list \<Rightarrow> 'h list" where
  "row_init d act r [] = []"
| "row_init d act r (c # cs) = opt_list d @ act c @ row_init (r c) act r cs"

definition slot_after :: "'h option \<Rightarrow> (nat \<Rightarrow> 'h option) \<Rightarrow> nat list \<Rightarrow> 'h option" where
  "slot_after d r xs = (if xs = [] then d else r (last xs))"

lemma row_from_append:
  "row_from d act r (xs @ ys) = row_init d act r xs @ row_from (slot_after d r xs) act r ys"
  by (induction xs arbitrary: d) (auto simp: slot_after_def)

lemma row_from_slot: "row_from d act r cs = opt_list d @ row_from None act r cs"
  by (cases cs) simp_all

lemma row_from_cong:
  assumes "\<And>c. c \<in> set cs \<Longrightarrow> act' c = act c" "\<And>c. c \<in> set cs \<Longrightarrow> r' c = r c"
  shows "row_from d act' r' cs = row_from d act r cs"
  using assms by (induction cs arbitrary: d) simp_all

lemma row_init_cong:
  assumes "\<And>c. c \<in> set xs \<Longrightarrow> act' c = act c" "\<And>c. c \<in> set (butlast xs) \<Longrightarrow> r' c = r c"
    and "xs \<noteq> [] \<Longrightarrow> d' = d"
  shows "row_init d' act' r' xs = row_init d act r xs"
  using assms
proof (induction xs arbitrary: d d')
  case (Cons x xs)
  then show ?case by (cases xs) simp_all
qed simp

lemma slot_is_left_slot:
  assumes "child_row s p (xs @ c # ys)"
  shows "left_slot p (left_sib (clos s c)) s = slot_after (child_ht (clos s p)) (\<lambda>c. right_ht (clos s c)) xs"
proof -
  have "left_sib (clos s c) = last_of None xs"
    using assms by (simp add: child_row_def segment_linked segment_append)
  then show ?thesis by (cases xs rule: rev_cases) (simp_all add: left_slot_def slot_after_def)
qed

text \<open>Writing the slot left of \<open>c\<close> changes nothing else of the row.\<close>

lemma serial_split:
  assumes row: "child_row s p (xs @ c # ys)"
  shows "serial s p act (xs @ c # ys) =
     row_init (child_ht (clos s p)) act (\<lambda>c. right_ht (clos s c)) xs @
     opt_list (left_slot p (left_sib (clos s c)) s) @ act c @ opt_list (right_ht (clos s c)) @
     row_from None act (\<lambda>c. right_ht (clos s c)) ys @ opt_list (user_ht (clos s p))"
  unfolding serial_def row_from_append slot_is_left_slot [OF row]
  by (simp add: row_from_slot [of "right_ht (clos s c)"])

section \<open>A return that finds tables to merge\<close>

lemma arrange_merge_effect:
  assumes "arrange_merge w self p c l r s = Some s'"
  shows "(\<forall>d. child_ht (clos s' d) = child_ht (clos s d) \<and> right_ht (clos s' d) = right_ht (clos s d) \<and>
             user_ht (clos s' d) = user_ht (clos s d))"
    and "\<forall>v. hyper_ht (workers s' v) = hyper_ht (workers s v)"
    and "lht (locals s' w) = l" "rht (locals s' w) = r"
    and "same_links s s'"
    and "\<forall>d. cl_mutex (clos s' d) = (if d = p \<or> d = c then NO_WORKER else cl_mutex (clos s d))"
proof -
  define s1 where "s1 = set_status c CLOSURE_RUNNING s"
  obtain s2 s3 s5 where st: "closure_unlock self c s1 = Some s2" "closure_unlock self p s2 = Some s3"
    "setup_for_execution w c (upd_loc w (\<lambda>lo. lo\<lparr>rht := r, lht := l\<rparr>) s3) = Some s5"
    "s' = upd_loc w (provably_good_steal_update (\<lambda>_. True)) s5"
    using assms by (auto simp: arrange_merge_def bind_eq_Some_conv s1_def Let_def)
  have s3: "s3 = upd_cl p (cl_mutex_update (\<lambda>_. NO_WORKER)) (upd_cl c (cl_mutex_update (\<lambda>_. NO_WORKER)) s1)"
    using st(1,2) by (auto simp: closure_unlock_def bind_eq_Some_conv assert_ownership_def)
  have "quiet (upd_loc w (\<lambda>lo. lo\<lparr>rht := r, lht := l\<rparr>) s3) s'"
    using quiet_setup_for_execution [OF st(3)] st(4) by (simp add: quiet_defs)
  then show "(\<forall>d. child_ht (clos s' d) = child_ht (clos s d) \<and> right_ht (clos s' d) = right_ht (clos s d) \<and>
             user_ht (clos s' d) = user_ht (clos s d))"
    and "\<forall>v. hyper_ht (workers s' v) = hyper_ht (workers s v)"
    and "lht (locals s' w) = l" "rht (locals s' w) = r"
    and "same_links s s'"
    and "\<forall>d. cl_mutex (clos s' d) = (if d = p \<or> d = c then NO_WORKER else cl_mutex (clos s d))"
    by (simp_all add: quiet_defs s3 s1_def set_status_def)
qed

lemma child_row_links:
  assumes "same_links s s'"
  shows "child_row s' p cs \<longleftrightarrow> child_row s p cs"
proof -
  have "linked s' None cs \<longleftrightarrow> linked s None cs"
    by (rule linked_cong) (use assms in \<open>simp_all add: same_links_def\<close>)
  then show ?thesis using assms by (simp add: child_row_def same_links_def)
qed

text \<open>The state after both locks are taken and the two slots around the child are emptied.\<close>

definition slots_taken :: "worker_id \<Rightarrow> nat \<Rightarrow> nat \<Rightarrow> 'h rts \<Rightarrow> 'h rts" where
  "slots_taken self p c s =
     set_left_slot p (left_sib (clos s c)) None (upd_cl c (right_ht_update (\<lambda>_. None))
       (upd_cl c (cl_mutex_update (\<lambda>_. self)) (upd_cl p (cl_mutex_update (\<lambda>_. self)) s)))"

lemma closure_lock_effect:
  "closure_lock self c s = Some s' \<longleftrightarrow>
     live_status (cl_status (clos s c)) \<and> cl_mutex (clos s c) = NO_WORKER \<and>
     s' = upd_cl c (cl_mutex_update (\<lambda>_. self)) s"
  by (auto simp: closure_lock_def checkmagic_def live_status_def split: closure_status.splits)

lemma Closure_return_cases:
  assumes run: "Closure_return w self c s = Some (res, s')"
    and parent: "spawn_parent (clos s c) = Some p" and pc: "p \<noteq> c" "left_sib (clos s c) \<noteq> Some c"
  obtains
    (Merge) s5 where "left_slot p (left_sib (clos s c)) s \<noteq> None \<or> right_ht (clos s c) \<noteq> None"
      "arrange_merge w self p c (left_slot p (left_sib (clos s c)) s) (right_ht (clos s c))
         (slots_taken self p c s) = Some s'" "res = Some c"
  | (Deposit) s5 where "left_slot p (left_sib (clos s c)) s = None" "right_ht (clos s c) = None"
      "deposit_and_unlink w self p c (slots_taken self p c s) = Some s5"
      "release_parent w self p s5 = Some (res, s')"
proof -
  let ?s2 = "upd_cl c (cl_mutex_update (\<lambda>_. self)) (upd_cl p (cl_mutex_update (\<lambda>_. self)) s)"
  let ?s3 = "upd_cl c (right_ht_update (\<lambda>_. None)) ?s2"
  have left: "left_sib (clos ?s3 c) = left_sib (clos s c)" using pc by simp
  have slot: "left_slot p (left_sib (clos s c)) ?s3 = left_slot p (left_sib (clos s c)) s"
    using pc by (auto simp: left_slot_def split: option.splits)
  have r: "right_ht (clos ?s2 c) = right_ht (clos s c)" using pc by simp
  from run parent show ?thesis
    unfolding Closure_return_def
    using slot pc Merge Deposit
    by (auto simp: bind_eq_Some_conv assert_alienation_def closure_lock_effect Let_def
        slots_taken_def split: if_splits)
qed

lemma row_of_child:
  assumes "child_row s p (xs @ c # ys)"
  shows "left_sib (clos s c) = last_of None xs" "distinct (xs @ c # ys)" "p \<notin> set (xs @ c # ys)"
    "spawn_parent (clos s c) = Some p" "p \<noteq> c" "left_sib (clos s c) \<noteq> Some c"
proof -
  show l: "left_sib (clos s c) = last_of None xs" and d: "distinct (xs @ c # ys)"
    and "p \<notin> set (xs @ c # ys)" "spawn_parent (clos s c) = Some p" "p \<noteq> c"
    using assms by (auto simp: child_row_def segment_linked segment_append)
  show "left_sib (clos s c) \<noteq> Some c" using l d by (auto dest: last_of_in)
qed

lemma set_left_slot_fields [simp]:
  "child_ht (clos (set_left_slot p l h s) d) = (if d = p \<and> l = None then h else child_ht (clos s d))"
  "right_ht (clos (set_left_slot p l h s) d) = (if l = Some d then h else right_ht (clos s d))"
  "user_ht (clos (set_left_slot p l h s) d) = user_ht (clos s d)"
  "cl_mutex (clos (set_left_slot p l h s) d) = cl_mutex (clos s d)"
  "cl_frame (clos (set_left_slot p l h s) d) = cl_frame (clos s d)"
  "left_sib (clos (set_left_slot p l h s) d) = left_sib (clos s d)"
  "right_sib (clos (set_left_slot p l h s) d) = right_sib (clos s d)"
  "right_most_child (clos (set_left_slot p l h s) d) = right_most_child (clos s d)"
  "spawn_parent (clos (set_left_slot p l h s) d) = spawn_parent (clos s d)"
  "join_counter (clos (set_left_slot p l h s) d) = join_counter (clos s d)"
  "workers (set_left_slot p l h s) = workers s" "locals (set_left_slot p l h s) = locals s"
  "frames (set_left_slot p l h s) = frames s" "busy (set_left_slot p l h s) = busy s"
  by (auto simp: set_left_slot_def split: option.split)

lemma slots_taken_fields [simp]:
  assumes "p \<noteq> c"
  shows "child_ht (clos (slots_taken w p c s) d) =
      (if d = p \<and> left_sib (clos s c) = None then None else child_ht (clos s d))"
    "right_ht (clos (slots_taken w p c s) d) =
      (if d = c \<or> left_sib (clos s c) = Some d then None else right_ht (clos s d))"
    "user_ht (clos (slots_taken w p c s) d) = user_ht (clos s d)"
    "cl_mutex (clos (slots_taken w p c s) d) = (if d = p \<or> d = c then w else cl_mutex (clos s d))"
    "cl_frame (clos (slots_taken w p c s) d) = cl_frame (clos s d)"
    "workers (slots_taken w p c s) = workers s" "locals (slots_taken w p c s) = locals s"
    "frames (slots_taken w p c s) = frames s" "busy (slots_taken w p c s) = busy s"
    "same_links s (slots_taken w p c s)"
  using assms by (auto simp: slots_taken_def same_links_def)

text \<open>The row when only the two slots around \<open>c\<close> and the tables of \<open>c\<close> differ.\<close>

lemma serial_two_slots:
  assumes row: "child_row s p (xs @ c # ys)" and row': "child_row s' p (xs @ c # ys)"
    and others: "\<And>d. d \<noteq> p \<Longrightarrow> d \<noteq> c \<Longrightarrow> left_sib (clos s c) \<noteq> Some d \<Longrightarrow> right_ht (clos s' d) = right_ht (clos s d)"
    and first: "left_sib (clos s c) \<noteq> None \<Longrightarrow> child_ht (clos s' p) = child_ht (clos s p)"
    and user: "user_ht (clos s' p) = user_ht (clos s p)"
    and act: "\<And>d. d \<noteq> c \<Longrightarrow> act' d = act d"
    and local: "opt_list (left_slot p (left_sib (clos s' c)) s') @ act' c @ opt_list (right_ht (clos s' c)) =
                opt_list (left_slot p (left_sib (clos s c)) s) @ act c @ opt_list (right_ht (clos s c))"
  shows "serial s' p act' (xs @ c # ys) = serial s p act (xs @ c # ys)"
proof -
  note r = row_of_child [OF row]
  have "row_init (child_ht (clos s' p)) act' (\<lambda>c. right_ht (clos s' c)) xs =
        row_init (child_ht (clos s p)) act (\<lambda>c. right_ht (clos s c)) xs"
  proof (rule row_init_cong)
    fix d assume d: "d \<in> set (butlast xs)"
    have "left_sib (clos s c) \<noteq> Some d"
      using d r(1,2) by (cases xs rule: rev_cases) auto
    moreover have "d \<noteq> c" "d \<noteq> p" using d r(2,3) by (auto dest: in_set_butlastD)
    ultimately show "right_ht (clos s' d) = right_ht (clos s d)" using others by blast
  next
    show "act' d = act d" if "d \<in> set xs" for d
      by (rule act) (use that r(2) in auto)
    show "child_ht (clos s' p) = child_ht (clos s p)" if "xs \<noteq> []"
      using that first r(1) by (simp add: last_of_def)
  qed
  moreover have "row_from None act' (\<lambda>c. right_ht (clos s' c)) ys = row_from None act (\<lambda>c. right_ht (clos s c)) ys"
  proof (rule row_from_cong)
    fix d assume d: "d \<in> set ys"
    then have "d \<noteq> c" "d \<noteq> p" "left_sib (clos s c) \<noteq> Some d" using r(1-3) by (auto dest: last_of_in)
    then show "right_ht (clos s' d) = right_ht (clos s d)" "act' d = act d" using others act by blast+
  qed
  ultimately show ?thesis
    using local user unfolding serial_split [OF row] serial_split [OF row'] by simp
qed

lemma Closure_return_merge:
  assumes run: "Closure_return w self c s = Some (res, s')"
    and row: "child_row s p (xs @ c # ys)"
    and found: "left_slot p (left_sib (clos s c)) s \<noteq> None \<or> right_ht (clos s c) \<noteq> None"
  shows "res = Some c" "child_row s' p (xs @ c # ys)"
    "\<forall>v. hyper_ht (workers s' v) = hyper_ht (workers s v)"
    "serial s' p (act(c := opt_list (lht (locals s' w)) @ act c @ opt_list (rht (locals s' w)))) (xs @ c # ys)
       = serial s p act (xs @ c # ys)"
    "\<forall>d. cl_mutex (clos s' d) = (if d = p \<or> d = c then NO_WORKER else cl_mutex (clos s d))"
proof -
  note r = row_of_child [OF row]
  from Closure_return_cases [OF run r(4,5,6)] obtain s5 where
    am: "arrange_merge w self p c (left_slot p (left_sib (clos s c)) s) (right_ht (clos s c))
           (slots_taken self p c s) = Some s'" and res: "res = Some c"
    using found by metis
  note e = arrange_merge_effect [OF am]
  show "res = Some c" by (rule res)
  have links: "same_links s s'"
    using e(5) slots_taken_fields(10) [OF r(5), of s self] by (simp add: same_links_def)
  then show row': "child_row s' p (xs @ c # ys)" using row child_row_links by blast
  show "\<forall>v. hyper_ht (workers s' v) = hyper_ht (workers s v)"
    using e(2) r(5) by simp
  show "\<forall>d. cl_mutex (clos s' d) = (if d = p \<or> d = c then NO_WORKER else cl_mutex (clos s d))"
    using e(6) r(5) by simp
  have l': "left_sib (clos s' c) = left_sib (clos s c)" using links by (simp add: same_links_def)
  have "left_slot p (left_sib (clos s' c)) s' = None" "right_ht (clos s' c) = None"
    unfolding l' left_slot_def using e(1) r(5) by (auto split: option.split)
  then show "serial s' p (act(c := opt_list (lht (locals s' w)) @ act c @ opt_list (rht (locals s' w)))) (xs @ c # ys)
       = serial s p act (xs @ c # ys)"
    by (intro serial_two_slots [OF row row']) (use e(1,3,4) r(5) in auto)
qed

section \<open>A return that deposits its table\<close>

lemma remove_child_tables:
  assumes rm: "remove_child self p c s = Some s'" and row: "child_row s p (xs @ c # ys)"
  shows "child_row s' p (xs @ ys)" "same_tables s s'" "same_locks s s'"
    "\<forall>d. join_counter (clos s' d) = join_counter (clos s d)"
    "\<forall>d. cl_status (clos s' d) = cl_status (clos s d)"
    "\<forall>d. cl_frame (clos s' d) = cl_frame (clos s d)"
proof -
  have locks: "cl_mutex (clos s p) = self" "cl_mutex (clos s c) = self" and "right_ht (clos s c) = None"
    using rm row_of_child [OF row]
    by (auto simp: remove_child_def bind_eq_Some_conv assert_ownership_def split: if_splits)
  from remove_child_row [OF row this] rm obtain f where
    row': "child_row s' p (xs @ ys)" and s': "s' = s\<lparr>clos := f\<rparr>"
    and eq: "\<And>d. (clos s' d)\<lparr>left_sib := None, right_sib := None, right_most_child := None\<rparr>
                = (clos s d)\<lparr>left_sib := None, right_sib := None, right_most_child := None\<rparr>"
    by auto
  note g = arg_cong [OF eq]
  have f: "child_ht (clos s' d) = child_ht (clos s d)" "right_ht (clos s' d) = right_ht (clos s d)"
    "user_ht (clos s' d) = user_ht (clos s d)" "cl_mutex (clos s' d) = cl_mutex (clos s d)"
    "join_counter (clos s' d) = join_counter (clos s d)" "cl_status (clos s' d) = cl_status (clos s d)"
    "cl_frame (clos s' d) = cl_frame (clos s d)"
    for d
    using g [of child_ht d] g [of right_ht d] g [of user_ht d] g [of cl_mutex d]
      g [of join_counter d] g [of cl_status d] g [of cl_frame d] by simp_all
  show "child_row s' p (xs @ ys)" by (rule row')
  show "\<forall>d. join_counter (clos s' d) = join_counter (clos s d)"
    "\<forall>d. cl_status (clos s' d) = cl_status (clos s d)"
    "\<forall>d. cl_frame (clos s' d) = cl_frame (clos s d)" using f by simp_all
  show "same_tables s s'" "same_locks s s'"
    using f unfolding same_tables_def same_locks_def s' by simp_all
qed

lemma deposit_effect:
  assumes run: "deposit_and_unlink w self p c s = Some s'" and row: "child_row s p (xs @ c # ys)"
    and frame: "cl_frame (clos s c) = Some fr" "flags (frames s fr) = 0"
  shows "child_row s' p (xs @ ys)"
    "\<forall>d. right_ht (clos s' d) = (if left_sib (clos s c) = Some d then hyper_ht (workers s w) else right_ht (clos s d))"
    "\<forall>d. child_ht (clos s' d) =
       (if d = p \<and> left_sib (clos s c) = None then hyper_ht (workers s w) else child_ht (clos s d))"
    "\<forall>d. user_ht (clos s' d) = user_ht (clos s d)"
    "\<forall>d. join_counter (clos s' d) = join_counter (clos s d)"
    "\<forall>d. cl_mutex (clos s' d) = (if d = c then NO_WORKER else cl_mutex (clos s d))"
    "\<forall>v. hyper_ht (workers s' v) = (if v = w then None else hyper_ht (workers s v))"
    "\<forall>v. lht (locals s' v) = lht (locals s v) \<and> rht (locals s' v) = rht (locals s v)"
proof -
  define s1 where "s1 = upd_wk w (hyper_ht_update (\<lambda>_. None)) s"
  define s2 where "s2 = set_left_slot p (left_sib (clos s c)) (hyper_ht (workers s w)) s1"
  have s2c: "cl_frame (clos s2 c) = Some fr" "flags (frames s2 fr) = 0"
    using frame by (simp_all add: s2_def s1_def)
  obtain r s3 s4 s5 s6 s7 where st: "leave_frame fr s2 = Some (r, s3)" "pass_fiber_up w p c s3 = Some s4"
    "(if exception_pending (clos s4 c) then do {
              pf \<leftarrow> cl_frame (clos s4 p);
              Some (upd_frame pf (\<lambda>fr. fr\<lparr>flags := flags fr OR CILK_FRAME_EXCEPTION_PENDING\<rparr>)
                (upd_cl p (exception_pending_update (\<lambda>_. True)) s4))
            } else Some s4) = Some s5"
    "remove_child self p c s5 = Some s6" "closure_unlock self c s6 = Some s7" "closure_destroy c s7 = Some s'"
    using run s2c(1) unfolding deposit_and_unlink_def s2_def s1_def Let_def
    by (auto simp: bind_eq_Some_conv simp del: set_left_slot_fields)
  have q: "quiet s2 s5"
  proof -
    have "quiet s4 s5" using st(3) by (auto simp: bind_eq_Some_conv quiet_defs split: if_splits)
    then show ?thesis using quiet_leave_frame(3) [OF st(1) s2c(2)] quiet_pass_fiber_up [OF st(2)]
      by (blast intro: quiet_trans)
  qed
  have "same_links s s2" by (simp add: same_links_def s2_def s1_def)
  then have "same_links s s5" using q by (simp add: quiet_defs)
  then have row5: "child_row s5 p (xs @ c # ys)" using row child_row_links by blast
  note rem = remove_child_tables [OF st(4) row5]
  have end_: "s' = set_status c CLOSURE_POST_INVALID (upd_cl c (cl_mutex_update (\<lambda>_. NO_WORKER)) s6)"
    using st(5,6) by (auto simp: closure_unlock_def closure_destroy_def bind_eq_Some_conv)
  have "right_ht (clos s' d) = right_ht (clos s6 d)" "child_ht (clos s' d) = child_ht (clos s6 d)"
    "user_ht (clos s' d) = user_ht (clos s6 d)" "join_counter (clos s' d) = join_counter (clos s6 d)"
    "cl_mutex (clos s' d) = (if d = c then NO_WORKER else cl_mutex (clos s6 d))"
    "workers s' = workers s6" "locals s' = locals s6" for d
    by (simp_all add: end_ set_status_def)
  then have tail: "right_ht (clos s' d) = right_ht (clos s2 d)" "child_ht (clos s' d) = child_ht (clos s2 d)"
    "user_ht (clos s' d) = user_ht (clos s2 d)" "join_counter (clos s' d) = join_counter (clos s2 d)"
    "cl_mutex (clos s' d) = (if d = c then NO_WORKER else cl_mutex (clos s2 d))"
    "hyper_ht (workers s' v) = hyper_ht (workers s2 v)"
    "lht (locals s' v) = lht (locals s2 v)" "rht (locals s' v) = rht (locals s2 v)" for d v
    using rem(2-4) q by (simp_all add: quiet_defs)
  have "same_links s6 s'" by (simp add: same_links_def end_ set_status_def)
  then show "child_row s' p (xs @ ys)" using rem(1) child_row_links by blast
  show "\<forall>d. right_ht (clos s' d) = (if left_sib (clos s c) = Some d then hyper_ht (workers s w) else right_ht (clos s d))"
    "\<forall>d. child_ht (clos s' d) =
       (if d = p \<and> left_sib (clos s c) = None then hyper_ht (workers s w) else child_ht (clos s d))"
    "\<forall>d. user_ht (clos s' d) = user_ht (clos s d)"
    "\<forall>d. join_counter (clos s' d) = join_counter (clos s d)"
    "\<forall>d. cl_mutex (clos s' d) = (if d = c then NO_WORKER else cl_mutex (clos s d))"
    "\<forall>v. hyper_ht (workers s' v) = (if v = w then None else hyper_ht (workers s v))"
    "\<forall>v. lht (locals s' v) = lht (locals s v) \<and> rht (locals s' v) = rht (locals s v)"
    using tail by (simp_all add: s2_def s1_def)
qed

lemma serial_deposit:
  assumes row: "child_row s p (xs @ c # ys)"
    and empty: "left_slot p (left_sib (clos s c)) s = None" "right_ht (clos s c) = None"
    and r: "\<forall>d. d \<noteq> c \<longrightarrow> right_ht (clos s' d) = (if left_sib (clos s c) = Some d then h else right_ht (clos s d))"
    and ch: "child_ht (clos s' p) = (if left_sib (clos s c) = None then h else child_ht (clos s p))"
    and user: "user_ht (clos s' p) = user_ht (clos s p)"
  shows "serial s' p act (xs @ ys) = serial s p (act(c := opt_list h)) (xs @ c # ys)"
proof -
  note l = row_of_child [OF row]
  let ?act = "act(c := opt_list h)"
  have "row_init (child_ht (clos s' p)) act (\<lambda>d. right_ht (clos s' d)) xs =
        row_init (child_ht (clos s p)) ?act (\<lambda>d. right_ht (clos s d)) xs"
  proof (rule row_init_cong)
    fix d assume d: "d \<in> set (butlast xs)"
    have "left_sib (clos s c) \<noteq> Some d" "d \<noteq> c"
      using d l(1,2) by (cases xs rule: rev_cases; auto)+
    then show "right_ht (clos s' d) = right_ht (clos s d)" using r by simp
  next
    show "act d = ?act d" if "d \<in> set xs" for d using that l(2) by auto
    show "child_ht (clos s' p) = child_ht (clos s p)" if "xs \<noteq> []"
      using that ch l(1) by (simp add: last_of_def)
  qed
  moreover have "row_from None act (\<lambda>d. right_ht (clos s' d)) ys = row_from None ?act (\<lambda>d. right_ht (clos s d)) ys"
  proof (rule row_from_cong)
    fix d assume d: "d \<in> set ys"
    then have "d \<noteq> c" "left_sib (clos s c) \<noteq> Some d" using l(1,2) by (auto dest: last_of_in)
    then show "right_ht (clos s' d) = right_ht (clos s d)" "act d = ?act d" using r by simp_all
  qed
  moreover have "slot_after (child_ht (clos s' p)) (\<lambda>d. right_ht (clos s' d)) xs = h"
  proof (cases xs rule: rev_cases)
    case Nil
    then show ?thesis using ch l(1) by (simp add: slot_after_def)
  next
    case (snoc us a)
    then have "left_sib (clos s c) = Some a" "a \<noteq> c" using l by auto
    then show ?thesis using r snoc by (simp add: slot_after_def)
  qed
  ultimately show ?thesis
    unfolding serial_split [OF row] unfolding serial_def row_from_append
    using empty user by (simp add: row_from_slot [of h])
qed

section \<open>The parent after a return\<close>

lemma good_steal_effect:
  assumes "provably_good_steal_maybe w self p s = Some (res, s')"
  shows "quiet s s'" "res = None \<and> s' = s \<or> res = Some p \<and> join_counter (clos s p) = 0"
proof -
  show "res = None \<and> s' = s \<or> res = Some p \<and> join_counter (clos s p) = 0"
    using assms by (auto simp: provably_good_steal_maybe_def bind_eq_Some_conv has_children_def split: if_splits)
  have "quiet s s'" if "setup_for_sync w self p (upd_loc w (provably_good_steal_update (\<lambda>_. True)) s) = Some s2"
    "s' = make_ready p s2" for s2
  proof -
    have "quiet s (upd_loc w (provably_good_steal_update (\<lambda>_. True)) s)" by (intro quiet_steps quiet_refl) simp_all
    then show ?thesis using quiet_setup_for_sync [OF that(1)] unfolding that(2)
      by (intro quiet_steps) (rule quiet_trans)
  qed
  then show "quiet s s'"
    using assms by (auto simp: provably_good_steal_maybe_def bind_eq_Some_conv Let_def split: if_splits)
qed

lemma release_parent_effect:
  assumes "release_parent w self p s = Some (res, s')"
  shows "res = None \<and> same_tables s s' \<or>
     res = Some p \<and> join_counter (clos s p) = 1 \<and> lht (locals s' w) = child_ht (clos s p) \<and>
       hyper_ht (workers s' w) = user_ht (clos s p) \<and> rht (locals s' w) = rht (locals s w) \<and>
       (\<forall>d. child_ht (clos s' d) = (if d = p then None else child_ht (clos s d))) \<and>
       (\<forall>d. right_ht (clos s' d) = right_ht (clos s d)) \<and>
       (\<forall>d. user_ht (clos s' d) = (if d = p then None else user_ht (clos s d)))"
    and "\<forall>d. join_counter (clos s' d) = (if d = p then join_counter (clos s d) - 1 else join_counter (clos s d))"
    and "\<forall>d. cl_mutex (clos s' d) = (if d = p then NO_WORKER else cl_mutex (clos s d))"
    and "child_row s p cs \<Longrightarrow> child_row s' p cs"
proof -
  define s1 where "s1 = upd_cl p (join_counter_update (\<lambda>n. n - 1)) s"
  obtain s2 s3 where gs: "provably_good_steal_maybe w self p s1 = Some (res, s2)"
    and s3: "(case res of
       None \<Rightarrow> Some s2
     | Some r \<Rightarrow> do {
         let ch = child_ht (clos s2 p);
         let active = user_ht (clos s2 p);
         let sa = upd_cl p (\<lambda>c. c\<lparr>child_ht := None, user_ht := None\<rparr>) s2;
         cilk_assert (lht (locals sa w) = None);
         let sb = upd_loc w (lht_update (\<lambda>_. ch)) sa;
         let sc = upd_wk w (hyper_ht_update (\<lambda>_. active)) sb;
         setup_for_execution w r sc
       }) = Some s3" and un: "closure_unlock self p s3 = Some s'"
    and jc: "join_counter (clos s p) \<noteq> 0"
    using assms unfolding release_parent_def s1_def by (auto simp: bind_eq_Some_conv Let_def)
  note g = good_steal_effect [OF gs]
  have un': "s' = upd_cl p (cl_mutex_update (\<lambda>_. NO_WORKER)) s3"
    using un by (auto simp: closure_unlock_def bind_eq_Some_conv)
  have q1: "same_tables s s1" "same_locks s s1" by (simp_all add: quiet_defs s1_def)
  have "res = None \<and> quiet s2 s3 \<or>
    res = Some p \<and> join_counter (clos s p) = 1 \<and>
      quiet (upd_wk w (hyper_ht_update (\<lambda>_. user_ht (clos s2 p))) (upd_loc w (lht_update (\<lambda>_. child_ht (clos s2 p)))
        (upd_cl p (\<lambda>c. c\<lparr>child_ht := None, user_ht := None\<rparr>) s2))) s3"
    using g(2) s3 by (auto simp: Let_def bind_eq_Some_conv s1_def dest: quiet_setup_for_execution)
  then consider (None) "res = None" "quiet s2 s3"
    | (Some) "res = Some p" "join_counter (clos s p) = 1"
      "quiet (upd_wk w (hyper_ht_update (\<lambda>_. user_ht (clos s2 p))) (upd_loc w (lht_update (\<lambda>_. child_ht (clos s2 p)))
        (upd_cl p (\<lambda>c. c\<lparr>child_ht := None, user_ht := None\<rparr>) s2))) s3" by blast
  note cases = this
  have f1: "child_ht (clos s2 d) = child_ht (clos s d)" "right_ht (clos s2 d) = right_ht (clos s d)"
    "user_ht (clos s2 d) = user_ht (clos s d)" "hyper_ht (workers s2 v) = hyper_ht (workers s v)"
    "lht (locals s2 v) = lht (locals s v)" "rht (locals s2 v) = rht (locals s v)" for d v
    using g(1) by (simp_all add: quiet_defs s1_def)
  have f2: "join_counter (clos s2 d) = (if d = p then join_counter (clos s d) - 1 else join_counter (clos s d))"
    "cl_mutex (clos s2 d) = cl_mutex (clos s d)" "left_sib (clos s2 d) = left_sib (clos s d)"
    "right_sib (clos s2 d) = right_sib (clos s d)" "right_most_child (clos s2 d) = right_most_child (clos s d)"
    "spawn_parent (clos s2 d) = spawn_parent (clos s d)" for d
    using g(1) by (simp_all add: quiet_defs s1_def)
  have f3: "join_counter (clos s3 d) = join_counter (clos s2 d)" "cl_mutex (clos s3 d) = cl_mutex (clos s2 d)"
    "left_sib (clos s3 d) = left_sib (clos s2 d)" "right_sib (clos s3 d) = right_sib (clos s2 d)"
    "right_most_child (clos s3 d) = right_most_child (clos s2 d)"
    "spawn_parent (clos s3 d) = spawn_parent (clos s2 d)" for d
    by (cases rule: cases; simp add: quiet_defs)+
  show "\<forall>d. join_counter (clos s' d) = (if d = p then join_counter (clos s d) - 1 else join_counter (clos s d))"
    "\<forall>d. cl_mutex (clos s' d) = (if d = p then NO_WORKER else cl_mutex (clos s d))"
    by (simp_all add: un' f2 f3)
  show "child_row s' p cs" if row: "child_row s p cs"
  proof -
    have "linked s' None cs \<longleftrightarrow> linked s None cs" by (rule linked_cong) (simp_all add: un' f2 f3)
    moreover have "right_most_child (clos s' p) = right_most_child (clos s p)"
      "spawn_parent (clos s' d) = spawn_parent (clos s d)" for d
      by (simp_all add: un' f2 f3)
    ultimately show ?thesis using row by (simp add: child_row_def)
  qed
  show "res = None \<and> same_tables s s' \<or>
     res = Some p \<and> join_counter (clos s p) = 1 \<and> lht (locals s' w) = child_ht (clos s p) \<and>
       hyper_ht (workers s' w) = user_ht (clos s p) \<and> rht (locals s' w) = rht (locals s w) \<and>
       (\<forall>d. child_ht (clos s' d) = (if d = p then None else child_ht (clos s d))) \<and>
       (\<forall>d. right_ht (clos s' d) = right_ht (clos s d)) \<and>
       (\<forall>d. user_ht (clos s' d) = (if d = p then None else user_ht (clos s d)))"
  proof (cases rule: cases)
    case None
    then have "same_tables s s'" using f1 by (simp add: quiet_defs un')
    then show ?thesis using None by blast
  next
    case Some
    then show ?thesis using f1 by (simp add: quiet_defs un')
  qed
qed

section \<open>The return of a child, as a whole\<close>

lemma Closure_return_deposit:
  assumes run: "Closure_return w self c s = Some (res, s')"
    and row: "child_row s p (xs @ c # ys)"
    and empty: "left_slot p (left_sib (clos s c)) s = None" "right_ht (clos s c) = None"
    and frame: "cl_frame (clos s c) = Some fr" "flags (frames s fr) = 0"
  shows "child_row s' p (xs @ ys)"
    "join_counter (clos s' p) = join_counter (clos s p) - 1"
    "res = None \<and> hyper_ht (workers s' w) = None \<and>
       serial s' p act (xs @ ys) = serial s p (act(c := opt_list (hyper_ht (workers s w)))) (xs @ c # ys) \<or>
     res = Some p \<and> join_counter (clos s' p) = 0 \<and>
       opt_list (lht (locals s' w)) @ row_from None act (\<lambda>d. right_ht (clos s' d)) (xs @ ys) @
         opt_list (hyper_ht (workers s' w)) =
       serial s p (act(c := opt_list (hyper_ht (workers s w)))) (xs @ c # ys)"
    "\<forall>d. cl_mutex (clos s' d) = (if d = p \<or> d = c then NO_WORKER else cl_mutex (clos s d))"
proof -
  note r = row_of_child [OF row]
  let ?s = "slots_taken self p c s" and ?h = "hyper_ht (workers s w)"
  from Closure_return_cases [OF run r(4,5,6)] obtain s5 where
    dep: "deposit_and_unlink w self p c ?s = Some s5" and rel: "release_parent w self p s5 = Some (res, s')"
    using empty by metis
  have l: "left_sib (clos ?s c) = left_sib (clos s c)"
    using slots_taken_fields(10) [OF r(5), of s self] by (simp add: same_links_def)
  have row0: "child_row ?s p (xs @ c # ys)"
    using row slots_taken_fields(10) [OF r(5), of s self] child_row_links by blast
  have j0: "join_counter (clos ?s p) = join_counter (clos s p)"
    using slots_taken_fields(10) [OF r(5), of s self] by (simp add: same_links_def)
  have fr0: "cl_frame (clos ?s c) = Some fr" "flags (frames ?s fr) = 0" using frame r(5) by simp_all
  note d = deposit_effect [OF dep row0 fr0]
  note e = release_parent_effect [OF rel]
  show "child_row s' p (xs @ ys)" using e(4) d(1) by blast
  show j: "join_counter (clos s' p) = join_counter (clos s p) - 1" using e(2) d(5) j0 by simp
  show "\<forall>d. cl_mutex (clos s' d) = (if d = p \<or> d = c then NO_WORKER else cl_mutex (clos s d))"
    using e(3) d(6) r(5) by simp
  have ser: "serial s5 p act (xs @ ys) = serial s p (act(c := opt_list ?h)) (xs @ c # ys)"
    by (rule serial_deposit [OF row empty]) (use d(2-4) l r(5) empty in \<open>auto simp: left_slot_def\<close>)
  from e(1) show "res = None \<and> hyper_ht (workers s' w) = None \<and>
       serial s' p act (xs @ ys) = serial s p (act(c := opt_list ?h)) (xs @ c # ys) \<or>
     res = Some p \<and> join_counter (clos s' p) = 0 \<and>
       opt_list (lht (locals s' w)) @ row_from None act (\<lambda>d. right_ht (clos s' d)) (xs @ ys) @
         opt_list (hyper_ht (workers s' w)) =
       serial s p (act(c := opt_list ?h)) (xs @ c # ys)"
  proof (elim disjE conjE)
    assume "res = None" "same_tables s5 s'"
    moreover from this have "serial s' p act (xs @ ys) = serial s5 p act (xs @ ys)"
      by (simp add: serial_def same_tables_def)
    ultimately show ?thesis using ser d(7) by (simp add: same_tables_def)
  next
    assume a: "res = Some p" "join_counter (clos s5 p) = 1" "lht (locals s' w) = child_ht (clos s5 p)"
      "hyper_ht (workers s' w) = user_ht (clos s5 p)" "\<forall>d. right_ht (clos s' d) = right_ht (clos s5 d)"
    then have "join_counter (clos s' p) = 0" using e(2) by simp
    moreover have "opt_list (lht (locals s' w)) @ row_from None act (\<lambda>d. right_ht (clos s' d)) (xs @ ys) @
         opt_list (hyper_ht (workers s' w)) = serial s5 p act (xs @ ys)"
      using a by (simp add: serial_def row_from_slot [of "child_ht (clos s5 p)"])
    ultimately show ?thesis using a(1) ser by simp
  qed
qed

end
