(* ===== verification/Steal_Effects.thy ===== *)
theory Steal_Effects
  imports Stealing Returning
begin

text \<open>
  What a successful steal does: the oldest frame of the victim's deque becomes (the frame of) a closure
  that the thief runs, the victim keeps running its younger frames under a new child closure on the
  same fiber, and every lock taken on the way is released.
\<close>

section \<open>Promotion of the parent\<close>

definition fresh_closure :: "'h closure \<Rightarrow> bool" where
  "fresh_closure c \<longleftrightarrow> left_sib c = None \<and> right_sib c = None \<and> right_most_child c = None \<and>
     child_ht c = None \<and> right_ht c = None \<and> user_ht c = None \<and> join_counter c = 0"

lemma fresh_new [simp]: "fresh_closure (new_closure f)"
  by (simp add: fresh_closure_def new_closure_def)

text \<open>The part of a closure that promotion does not touch when the closure existed before.\<close>

definition kept_cl :: "'h closure \<Rightarrow> 'h closure \<Rightarrow> bool" where
  "kept_cl a b \<longleftrightarrow>
     left_sib b = left_sib a \<and> right_sib b = right_sib a \<and> right_most_child b = right_most_child a \<and>
     spawn_parent b = spawn_parent a \<and> cl_fiber b = cl_fiber a \<and> ext_fiber b = ext_fiber a \<and>
     child_ht b = child_ht a \<and> right_ht b = right_ht a \<and> user_ht b = user_ht a"

lemma kept_refl [simp]: "kept_cl a a"
  by (simp add: kept_cl_def)

lemma promote_parent_effect:
  assumes run: "promote_parent fts cl self pn s = Some (pa, res, s1)"
    and busy: "bc_closure (busy s pn) = Some cl"
    and old: "cl < next_closure s"
    and mine: "self \<noteq> NO_WORKER" "cl_mutex (clos s cl) = self" "cl_status (clos s cl) = CLOSURE_RUNNING"
  shows "res = Some pa" "cl_frame (clos s1 pa) = Some fts" "stolen (frames s1 fts)"
    and "pa = cl \<and> next_closure s1 = next_closure s \<and> join_counter (clos s1 pa) = join_counter (clos s cl) \<or>
      pa = next_closure s \<and> next_closure s1 = Suc (next_closure s) \<and> fresh_closure (clos s1 pa) \<and>
      call_parent (clos s1 pa) = Some cl \<and> join_counter (clos s1 cl) = join_counter (clos s cl) + 1 \<and>
      cl_status (clos s1 cl) = CLOSURE_SUSPENDED"
    and "\<forall>d < next_closure s. cl_mutex (clos s1 d) =
      (if d = pa then self else if d = cl then NO_WORKER else cl_mutex (clos s d))"
    and "cl_mutex (clos s1 pa) = self" "cl_owner (clos s1 pa) = NO_WORKER" "cl_status (clos s1 pa) = CLOSURE_RUNNING"
    and "\<forall>d < next_closure s. kept_cl (clos s d) (clos s1 d)"
    and "\<forall>v. bc_mutex (busy s1 v) = bc_mutex (busy s v)" "bc_closure (busy s1 pn) = None"
    and "workers s1 = workers s" "locals s1 = locals s" "fibs s1 = fibs s" "root_closure s1 = root_closure s"
proof -
  note d = run [unfolded promote_parent_def]
  have x: "busy_xtract self pn s' = Some (r, s'') \<Longrightarrow> bc_closure (busy s' pn) = Some cl \<Longrightarrow>
      r = Some cl \<and> s'' = upd_cl cl (cl_owner_update (\<lambda>_. NO_WORKER)) (upd_busy pn (bc_closure_update (\<lambda>_. None)) s')"
    for s' s'' :: "'a rts" and r
    by (auto simp: busy_xtract_def bind_eq_Some_conv)
  consider (A) "pa = cl" "res = Some cl" "stolen (frames s fts)" "cl_frame (clos s cl) = Some fts"
      "s1 = upd_cl cl (cl_owner_update (\<lambda>_. NO_WORKER)) (upd_busy pn (bc_closure_update (\<lambda>_. None)) s)"
    | (B) "pa = cl" "res = Some cl"
      "s1 = upd_cl cl (cl_owner_update (\<lambda>_. NO_WORKER)) (upd_busy pn (bc_closure_update (\<lambda>_. None))
         (upd_cl cl (cl_frame_update (\<lambda>_. Some fts)) (upd_frame fts set_stolen s)))"
    | (C) "pa = next_closure s" "res = Some pa"
      "s1 = upd_cl pa (cl_mutex_update (\<lambda>_. self)) (upd_cl cl (cl_mutex_update (\<lambda>_. NO_WORKER))
         (upd_cl cl (cl_owner_update (\<lambda>_. NO_WORKER)) (upd_busy pn (bc_closure_update (\<lambda>_. None))
         (upd_cl cl (cl_status_update (\<lambda>_. CLOSURE_SUSPENDED))
         (upd_cl pa (call_parent_update (\<lambda>_. Some cl)) (upd_cl cl (join_counter_update (\<lambda>n. n + 1))
         (upd_cl pa (cl_status_update (\<lambda>_. CLOSURE_RUNNING)) (upd_frame fts set_stolen
           (s\<lparr>clos := (clos s)(pa := new_closure (Some fts)), next_closure := Suc pa\<rparr>)))))))))"
  proof (cases "cl_frame (clos s cl) = Some fts")
    case True
    then show ?thesis using d x [OF _ busy] that(1) by (auto simp: bind_eq_Some_conv)
  next
    case F: False
    show ?thesis
    proof (cases "trivial_stacklet (frames s fts)")
      case True
      then show ?thesis using d F x busy that(2)
        by (auto simp: bind_eq_Some_conv set_frame_def Let_def)
    next
      case False
      then show ?thesis using d F x busy that(3) old
        by (auto simp: bind_eq_Some_conv Let_def closure_create_def add_callee_def suspend_victim_def
            change_status_def set_status_def closure_unlock_def closure_lock_effect)
    qed
  qed
  note cases = this
  have ne: "next_closure s \<noteq> cl" using old by simp
  show "res = Some pa" "cl_frame (clos s1 pa) = Some fts" "stolen (frames s1 fts)"
    by (cases rule: cases; use ne in \<open>simp add: new_closure_def\<close>)+
  show "pa = cl \<and> next_closure s1 = next_closure s \<and> join_counter (clos s1 pa) = join_counter (clos s cl) \<or>
      pa = next_closure s \<and> next_closure s1 = Suc (next_closure s) \<and> fresh_closure (clos s1 pa) \<and>
      call_parent (clos s1 pa) = Some cl \<and> join_counter (clos s1 cl) = join_counter (clos s cl) + 1 \<and>
      cl_status (clos s1 cl) = CLOSURE_SUSPENDED"
    by (cases rule: cases; use ne in \<open>simp add: new_closure_def fresh_closure_def\<close>)
  show "\<forall>d < next_closure s. cl_mutex (clos s1 d) =
      (if d = pa then self else if d = cl then NO_WORKER else cl_mutex (clos s d))"
    by (cases rule: cases; use ne mine in simp)
  show "cl_mutex (clos s1 pa) = self" "cl_owner (clos s1 pa) = NO_WORKER" "cl_status (clos s1 pa) = CLOSURE_RUNNING"
    by (cases rule: cases; use ne mine in \<open>simp add: new_closure_def\<close>)+
  show "\<forall>d < next_closure s. kept_cl (clos s d) (clos s1 d)"
    by (cases rule: cases; use ne in \<open>simp add: kept_cl_def\<close>)
  show "\<forall>v. bc_mutex (busy s1 v) = bc_mutex (busy s v)" "bc_closure (busy s1 pn) = None"
    and "workers s1 = workers s" "locals s1 = locals s" "fibs s1 = fibs s" "root_closure s1 = root_closure s"
    by (cases rule: cases; simp)+
qed

section \<open>Promotion of the child\<close>

lemma child_row_kept:
  assumes "child_row s p cs" "\<forall>d < n. kept_cl (clos s d) (clos s' d)" "p < n" "\<forall>d \<in> set cs. d < n"
  shows "child_row s' p cs"
proof -
  have k: "kept_cl (clos s d) (clos s' d)" if "d = p \<or> d \<in> set cs" for d using that assms by blast
  have "linked s' None cs \<longleftrightarrow> linked s None cs"
    by (rule linked_cong) (use k in \<open>auto simp: kept_cl_def\<close>)
  then show ?thesis using assms(1) k by (auto simp: child_row_def kept_cl_def)
qed

lemma promote_child_effect:
  assumes run: "promote_child h vw cl self pn s = Some (child, res, s')"
    and busy: "bc_closure (busy s pn) = Some cl"
    and old: "cl < next_closure s"
    and nw: "self \<noteq> NO_WORKER"
    and row: "child_row s cl cs" "\<forall>d \<in> set cs. d < next_closure s"
  obtains r where "res = Some r" "r = cl \<or> r = next_closure s" "next_closure s \<le> child" "child \<noteq> r"
    "cl_frame (clos s' r) = Some (shadow_stack (workers s vw) h)" "stolen (frames s' (shadow_stack (workers s vw) h))"
    "child_row s' r ((if r = cl then cs else []) @ [child])"
    "join_counter (clos s' r) = (if r = cl then join_counter (clos s cl) else 0) + 1"
    "r \<noteq> cl \<longrightarrow> call_parent (clos s' r) = Some cl \<and> join_counter (clos s' cl) = join_counter (clos s cl) + 1 \<and>
       cl_status (clos s' cl) = CLOSURE_SUSPENDED"
    "workers s' = (workers s)(vw := (workers s vw)\<lparr>head := h + 1\<rparr>)"
    "bc_closure (busy s' pn) = Some child" "cl_owner (clos s' child) = pn" "cl_status (clos s' child) = CLOSURE_RUNNING"
    "spawn_parent (clos s' child) = Some r" "cl_mutex (clos s' child) = NO_WORKER" "cl_mutex (clos s' r) = self"
    "child_ht (clos s' child) = None \<and> right_ht (clos s' child) = None \<and> user_ht (clos s' child) = None"
    "r \<noteq> cl \<longrightarrow> child_ht (clos s' r) = None \<and> right_ht (clos s' r) = None \<and> user_ht (clos s' r) = None"
    "\<forall>d < next_closure s. child_ht (clos s' d) = child_ht (clos s d) \<and> right_ht (clos s' d) = right_ht (clos s d) \<and>
       user_ht (clos s' d) = user_ht (clos s d)"
    "\<forall>d < next_closure s. cl_mutex (clos s' d) = (if d = r then self else if d = cl then NO_WORKER else cl_mutex (clos s d))"
    "\<forall>v. bc_mutex (busy s' v) = bc_mutex (busy s v)" "locals s' = locals s"
proof -
  define fts where "fts = shadow_stack (workers s vw) h"
  have pre: "cl_mutex (clos s cl) = self" "cl_status (clos s cl) = CLOSURE_RUNNING"
    using run by (auto simp: promote_child_def bind_eq_Some_conv assert_ownership_def)
  obtain pa res1 s1 where pp: "promote_parent fts cl self pn s = Some (pa, res1, s1)"
    and rest: "do {
       let s2 = (if orig_rsp (clos s1 pa) = 0
                 then upd_cl pa (orig_rsp_update (\<lambda>_. sp (frames s1 fts))) s1 else s1);
       let (child, s3) = closure_create None s2;
       let s4 = upd_cl child (spawn_parent_update (\<lambda>_. Some pa)) s3;
       let s5 = set_status child CLOSURE_RUNNING s4;
       s6 \<leftarrow> add_child self pa child s5;
       let s7 = upd_cl pa (join_counter_update (\<lambda>n. n + 1)) s6;
       let s8 = upd_wk vw (head_update (\<lambda>_. h + 1)) s7;
       s9 \<leftarrow> busy_set child self pn s8;
       Some (child, res1, s9)} = Some (child, res, s')"
    using run unfolding promote_child_def fts_def by (auto simp: bind_eq_Some_conv Let_def)
  note P = promote_parent_effect [OF pp busy old nw pre]
  define s2 where "s2 = (if orig_rsp (clos s1 pa) = 0
     then upd_cl pa (orig_rsp_update (\<lambda>_. sp (frames s1 fts))) s1 else s1)"
  define n where "n = next_closure s1"
  have n2: "next_closure s2 = n" by (simp add: s2_def n_def)
  define s5 where "s5 = set_status n CLOSURE_RUNNING (upd_cl n (spawn_parent_update (\<lambda>_. Some pa))
     (s2\<lparr>clos := (clos s2)(n := new_closure None), next_closure := Suc n\<rparr>))"
  have r2: "do {
       s6 \<leftarrow> add_child self pa n s5;
       let s7 = upd_cl pa (join_counter_update (\<lambda>n. n + 1)) s6;
       let s8 = upd_wk vw (head_update (\<lambda>_. h + 1)) s7;
       s9 \<leftarrow> busy_set n self pn s8;
       Some (n, res1, s9)} = Some (child, res, s')"
    using rest unfolding Let_def s2_def [symmetric] by (simp add: closure_create_def n2 s5_def Let_def)
  have n: "next_closure s \<le> n" "n \<noteq> pa" "pa \<le> next_closure s" "pa = cl \<or> pa = next_closure s"
    using P(4) old by (auto simp: n_def)
  have cl5: "clos s5 d = clos s1 d" if "d \<noteq> n" "d \<noteq> pa" for d
    using that by (simp add: s5_def s2_def set_status_def)
  have pa5: "(clos s5 pa)\<lparr>orig_rsp := 0\<rparr> = (clos s1 pa)\<lparr>orig_rsp := 0\<rparr>"
    using n(2) by (simp add: s5_def s2_def set_status_def)
  note g = arg_cong [OF pa5]
  have pf: "cl_frame (clos s5 pa) = cl_frame (clos s1 pa)" "cl_mutex (clos s5 pa) = cl_mutex (clos s1 pa)"
    "join_counter (clos s5 pa) = join_counter (clos s1 pa)" "child_ht (clos s5 pa) = child_ht (clos s1 pa)"
    "right_ht (clos s5 pa) = right_ht (clos s1 pa)" "user_ht (clos s5 pa) = user_ht (clos s1 pa)"
    "call_parent (clos s5 pa) = call_parent (clos s1 pa)" "kept_cl (clos s1 pa) (clos s5 pa)"
    using g [of cl_frame] g [of cl_mutex] g [of join_counter] g [of child_ht] g [of right_ht] g [of user_ht]
      g [of call_parent] g [of left_sib] g [of right_sib] g [of right_most_child] g [of spawn_parent]
      g [of cl_fiber] g [of ext_fiber]
    by (simp_all add: kept_cl_def)
  have n5: "clos s5 n = (new_closure None)\<lparr>spawn_parent := Some pa, cl_status := CLOSURE_RUNNING\<rparr>"
    by (simp add: s5_def set_status_def)
  define row0 where "row0 = (if pa = cl then cs else [])"
  have "\<forall>d<Suc (max pa (next_closure s - 1)). d \<noteq> n \<longrightarrow> kept_cl (clos s1 d) (clos s5 d)"
    using cl5 pf(8) by (metis kept_refl)
  have row5: "child_row s5 pa row0"
  proof (cases "pa = cl")
    case True
    have "child_row s1 cl cs" by (rule child_row_kept [OF row(1) P(9) old row(2)])
    moreover have "\<forall>d < next_closure s. kept_cl (clos s1 d) (clos s5 d)"
      using cl5 pf(8) n(1) by (metis kept_refl leD)
    ultimately show ?thesis using True old row(2) unfolding row0_def
      by (simp add: child_row_kept [where n = "next_closure s"])
  next
    case False
    then have "fresh_closure (clos s1 pa)" using P(4) by auto
    then have "right_most_child (clos s5 pa) = None" using pf(8) by (simp add: fresh_closure_def kept_cl_def)
    then show ?thesis using False by (simp add: row0_def child_row_def)
  qed
  have "n \<notin> set row0" using row(2) n(1) by (auto simp: row0_def)
  from add_child_row [OF row5 this n(2)] n5 pf(2) P(6) nw obtain s6 where
    ac: "add_child self pa n s5 = Some s6" and row6: "child_row s6 pa (row0 @ [n])"
    and eq6: "\<And>c. (clos s6 c)\<lparr>left_sib := None, right_sib := None, right_most_child := None\<rparr>
            = (clos s5 c)\<lparr>left_sib := None, right_sib := None, right_most_child := None\<rparr>"
    and ex6: "\<exists>f. s6 = s5\<lparr>clos := f\<rparr>"
    by (auto simp: new_closure_def)
  note g6 = arg_cong [OF eq6]
  have f6: "cl_frame (clos s6 d) = cl_frame (clos s5 d)" "cl_mutex (clos s6 d) = cl_mutex (clos s5 d)"
    "join_counter (clos s6 d) = join_counter (clos s5 d)" "child_ht (clos s6 d) = child_ht (clos s5 d)"
    "right_ht (clos s6 d) = right_ht (clos s5 d)" "user_ht (clos s6 d) = user_ht (clos s5 d)"
    "call_parent (clos s6 d) = call_parent (clos s5 d)" "spawn_parent (clos s6 d) = spawn_parent (clos s5 d)"
    "cl_status (clos s6 d) = cl_status (clos s5 d)" "cl_owner (clos s6 d) = cl_owner (clos s5 d)" for d
    using g6 [of cl_frame d] g6 [of cl_mutex d] g6 [of join_counter d] g6 [of child_ht d] g6 [of right_ht d]
      g6 [of user_ht d] g6 [of call_parent d] g6 [of spawn_parent d] g6 [of cl_status d] g6 [of cl_owner d]
    by simp_all
  have o6: "frames s6 = frames s1" "workers s6 = workers s1" "busy s6 = busy s1" "locals s6 = locals s1"
    using ex6 by (auto simp: s5_def s2_def set_status_def)
  have fin: "res = res1" "child = n" "s' = upd_cl n (cl_owner_update (\<lambda>_. pn)) (upd_busy pn (bc_closure_update (\<lambda>_. Some n))
      (upd_wk vw (head_update (\<lambda>_. h + 1)) (upd_cl pa (join_counter_update (\<lambda>n. n + 1)) s6)))"
    using r2 ac by (auto simp: Let_def busy_set_def bind_eq_Some_conv)
  have links: "linked s' None (row0 @ [n]) \<longleftrightarrow> linked s6 None (row0 @ [n])"
    by (rule linked_cong) (simp_all add: fin)
  show thesis
  proof (rule that [of pa])
    show "child_row s' pa ((if pa = cl then cs else []) @ [child])"
      using row6 links n(2) unfolding row0_def fin(2) by (simp add: child_row_def fin(3))
    show "\<forall>d < next_closure s. cl_mutex (clos s' d) = (if d = pa then self else if d = cl then NO_WORKER else cl_mutex (clos s d))"
      using P(5,6) n f6 cl5 pf(2) by (auto simp: fin(3))
    show "\<forall>d < next_closure s. child_ht (clos s' d) = child_ht (clos s d) \<and> right_ht (clos s' d) = right_ht (clos s d) \<and>
       user_ht (clos s' d) = user_ht (clos s d)"
    proof (intro allI impI)
      fix d assume d: "d < next_closure s"
      have "kept_cl (clos s1 d) (clos s5 d)" using cl5 [of d] pf(8) d n(1) by (cases "d = pa") auto
      then show "child_ht (clos s' d) = child_ht (clos s d) \<and> right_ht (clos s' d) = right_ht (clos s d) \<and>
       user_ht (clos s' d) = user_ht (clos s d)"
        using P(9) d f6 by (auto simp: fin(3) kept_cl_def)
    qed
    show "pa \<noteq> cl \<longrightarrow> call_parent (clos s' pa) = Some cl \<and> join_counter (clos s' cl) = join_counter (clos s cl) + 1 \<and>
       cl_status (clos s' cl) = CLOSURE_SUSPENDED"
    proof
      assume "pa \<noteq> cl"
      moreover from this have "cl \<noteq> n" "clos s5 cl = clos s1 cl" using old n(1) cl5 by auto
      ultimately show "call_parent (clos s' pa) = Some cl \<and> join_counter (clos s' cl) = join_counter (clos s cl) + 1 \<and>
       cl_status (clos s' cl) = CLOSURE_SUSPENDED"
        using P(4) f6 pf n(2) by (auto simp: fin(3))
    qed
    show "pa \<noteq> cl \<longrightarrow> child_ht (clos s' pa) = None \<and> right_ht (clos s' pa) = None \<and> user_ht (clos s' pa) = None"
      using P(4) f6 pf n(2) by (auto simp: fin(3) fresh_closure_def)
    show "join_counter (clos s' pa) = (if pa = cl then join_counter (clos s cl) else 0) + 1"
      using P(4) f6 pf n(2) old by (auto simp: fin(3) fresh_closure_def)
  qed (use P n n5 f6 o6 pf in \<open>simp_all add: fin fts_def new_closure_def\<close>)
qed

section \<open>The steal\<close>

lemma fiber_alloc_effect:
  assumes "fiber_alloc w s = Some (f, s')"
  shows "clos s' = clos s" "workers s' = workers s" "frames s' = frames s" "busy s' = busy s"
    "\<forall>v. lht (locals s' v) = lht (locals s v) \<and> rht (locals s' v) = rht (locals s v)"
  using assms by (auto simp: fiber_alloc_def bind_eq_Some_conv)

lemma fiber_alloc_keeps:
  assumes "fiber_alloc w s = Some (f, s')"
  shows "clos s' = clos s \<and> workers s' = workers s \<and> frames s' = frames s \<and> busy s' = busy s \<and>
    (\<forall>v. lht (locals s' v) = lht (locals s v) \<and> rht (locals s' v) = rht (locals s v))"
  using fiber_alloc_effect [OF assms] by blast

lemma extract_effect:
  assumes run: "extract_top_spawning_closure h w vw cl self pn s = Some (r, s')"
  obtains child s1 where "promote_child h vw cl self pn s = Some (child, Some r, s1)"
    "workers s' = workers s1" "frames s' = frames s1" "busy s' = busy s1"
    "\<forall>v. lht (locals s' v) = lht (locals s1 v) \<and> rht (locals s' v) = rht (locals s1 v)"
    "\<forall>d. (clos s' d)\<lparr>cl_fiber := None, ext_fiber := None\<rparr> = (clos s1 d)\<lparr>cl_fiber := None, ext_fiber := None\<rparr>"
    "cl_fiber (clos s' child) = cl_fiber (clos s cl)"
proof -
  obtain child res s1 f s2 s4 where st: "promote_child h vw cl self pn s = Some (child, res, s1)" "res = Some r"
    "fiber_alloc w s1 = Some (f, s2)"
    "(if use_extension s2 then do {
              (ef, s') \<leftarrow> fiber_alloc w (upd_cl r (cl_fiber_update (\<lambda>_. Some f)) s2);
              Some (upd_cl r (ext_fiber_update (\<lambda>_. Some ef)) s')
            } else Some (upd_cl r (cl_fiber_update (\<lambda>_. Some f)) s2)) = Some s4"
    "s' = (let s5 = upd_cl child (cl_fiber_update (\<lambda>_. cl_fiber (clos s cl))) s4 in
           if use_extension s5 then upd_cl child (ext_fiber_update (\<lambda>_. ext_fiber (clos s cl))) s5 else s5)"
    using run unfolding extract_top_spawning_closure_def by (auto simp: bind_eq_Some_conv Let_def)
  note a = fiber_alloc_effect [OF st(3)]
  have four: "workers s4 = workers s1 \<and> frames s4 = frames s1 \<and> busy s4 = busy s1 \<and>
    (\<forall>v. lht (locals s4 v) = lht (locals s1 v) \<and> rht (locals s4 v) = rht (locals s1 v)) \<and>
    (\<forall>d. (clos s4 d)\<lparr>cl_fiber := None, ext_fiber := None\<rparr> = (clos s1 d)\<lparr>cl_fiber := None, ext_fiber := None\<rparr>)"
    using st(4) a by (auto simp: bind_eq_Some_conv dest!: fiber_alloc_keeps split: if_splits)
  show thesis
    by (rule that [of child s1]) (use st(1,2) four in \<open>auto simp: st(5) Let_def\<close>)
qed

text \<open>A steal that returns a closure went all the way through Dekker's protocol and the promotion.\<close>

lemma Closure_steal_success:
  assumes run: "Closure_steal sp1 sp2 w self v s = Some (Some r, s')"
  obtains cl s4 s5 s6 s7 where "head (workers s v) < tail (workers s v)" "bc_closure (busy s v) = Some cl"
    "bc_mutex (busy s v) = NO_WORKER" "cl_mutex (clos s cl) = NO_WORKER" "cl_status (clos s cl) = CLOSURE_RUNNING"
    "\<not> sp1" "\<not> sp2"
    "extract_top_spawning_closure (head (workers s v)) w v cl self v s4 = Some (r, s5)"
    "s4 = (if exc (workers s v) \<noteq> EXCEPTION_INFINITY then upd_wk v (exc_update (\<lambda>e. e + 1)) else id)
            (upd_cl cl (cl_mutex_update (\<lambda>_. self)) (upd_busy v (bc_mutex_update (\<lambda>_. self)) s))"
    "finish_promote self r (busy_unlock self v s5) = Some s6" "setup_for_execution w r s6 = Some s7"
    "s' = upd_cl r (cl_mutex_update (\<lambda>_. NO_WORKER)) s7"
proof -
  from run have lt: "head (workers s v) < tail (workers s v)"
    by (auto simp: Closure_steal_def split: if_splits)
  then have nle: "\<not> tail (workers s v) \<le> head (workers s v)" by simp
  note run1 = run [unfolded Closure_steal_def, simplified nle if_False]
  have b: "\<not> sp1" "bc_mutex (busy s v) = NO_WORKER"
    using run1 by (auto simp: busy_trylock_def split: if_splits)
  define s1 where "s1 = upd_busy v (bc_mutex_update (\<lambda>_. self)) s"
  have bt: "busy_trylock sp1 self v s = (True, s1)" using b by (simp add: busy_trylock_def s1_def)
  have pk: "busy_peek self v s1 = Some (bc_closure (busy s v))"
    by (simp add: busy_peek_def busy_assert_ownership_def s1_def)
  obtain cl where cl: "bc_closure (busy s v) = Some cl"
    using run1 by (cases "bc_closure (busy s v)") (auto simp: bt pk Let_def)
  have fails: "closure_trylock sp2 self cl s1 = (False, s1)"
    if "sp2 \<or> cl_mutex (clos s cl) \<noteq> NO_WORKER \<or> \<not> live_status (cl_status (clos s cl))"
    using that by (auto simp: closure_trylock_def s1_def)
  have "closure_trylock sp2 self cl s1 \<noteq> (False, s1)"
  proof
    assume ct: "closure_trylock sp2 self cl s1 = (False, s1)"
    from run1 show False by (simp add: bt pk cl ct Let_def)
  qed
  then have t: "\<not> sp2" "cl_mutex (clos s cl) = NO_WORKER" "live_status (cl_status (clos s cl))"
    using fails by blast+
  define s2 where "s2 = upd_cl cl (cl_mutex_update (\<lambda>_. self)) s1"
  have ct: "closure_trylock sp2 self cl s1 = (True, s2)"
    using t by (simp add: closure_trylock_def s2_def s1_def)
  have st2: "cl_status (clos s2 cl) = cl_status (clos s cl)" "root_closure s2 = root_closure s"
    by (simp_all add: s2_def s1_def)
  have st: "cl_status (clos s cl) = CLOSURE_RUNNING"
    using run1 by (cases "cl_status (clos s cl)") (auto simp: bt pk cl ct st2 Let_def bind_eq_Some_conv)
  define s4 where "s4 = (if exc (workers s v) \<noteq> EXCEPTION_INFINITY then upd_wk v (exc_update (\<lambda>e. e + 1)) else id) s2"
  have dk: "do_dekker_on self v cl s2 = Some (Some (head (workers s v)), s4)"
    using st lt by (simp add: do_dekker_on_def assert_ownership_def increment_exception_pointer_def s2_def s1_def
        s4_def Let_def)
  from run1 st obtain s5 s6 s7 where
    "extract_top_spawning_closure (head (workers s v)) w v cl self v s4 = Some (r, s5)"
    "finish_promote self r (busy_unlock self v s5) = Some s6" "setup_for_execution w r s6 = Some s7"
    "closure_unlock self r s7 = Some s'"
    by (auto simp: bt pk cl ct dk st2 Let_def bind_eq_Some_conv)
  moreover from this(4) have "s' = upd_cl r (cl_mutex_update (\<lambda>_. NO_WORKER)) s7"
    by (auto simp: closure_unlock_def bind_eq_Some_conv)
  ultimately show thesis
    by (intro that [of cl s4 s5 s6 s7]) (use lt cl b t st in \<open>simp_all add: s4_def s2_def s1_def\<close>)
qed

lemma closure_eqD:
  assumes "a\<lparr>cl_fiber := None, ext_fiber := None\<rparr> = b\<lparr>cl_fiber := None, ext_fiber := None\<rparr>"
  shows "cl_frame a = cl_frame b" "cl_mutex a = cl_mutex b" "join_counter a = join_counter b"
    "child_ht a = child_ht b" "right_ht a = right_ht b" "user_ht a = user_ht b" "spawn_parent a = spawn_parent b"
    "call_parent a = call_parent b" "cl_status a = cl_status b" "cl_owner a = cl_owner b"
    "left_sib a = left_sib b" "right_sib a = right_sib b" "right_most_child a = right_most_child b"
  using arg_cong [OF assms, of cl_frame] arg_cong [OF assms, of cl_mutex] arg_cong [OF assms, of join_counter]
    arg_cong [OF assms, of child_ht] arg_cong [OF assms, of right_ht] arg_cong [OF assms, of user_ht]
    arg_cong [OF assms, of spawn_parent] arg_cong [OF assms, of call_parent] arg_cong [OF assms, of cl_status]
    arg_cong [OF assms, of cl_owner] arg_cong [OF assms, of left_sib] arg_cong [OF assms, of right_sib]
    arg_cong [OF assms, of right_most_child]
  by simp_all

lemma execution_effect:
  assumes "setup_for_execution w t s = Some s'"
  shows "frames s' = (case (cl_frame (clos s t), cl_fiber (clos s t)) of
      (Some sf, Some f) \<Rightarrow> (frames s)(sf := (frames s sf)\<lparr>fh := Some f\<rparr>) | _ \<Rightarrow> frames s)"
    "clos s' = (clos s)(t := (clos s t)\<lparr>cl_status := CLOSURE_RUNNING\<rparr>)"
    "workers s' = (workers s)(w := (workers s w)\<lparr>head := 0, exc := 0, tail := 0\<rparr>)"
    "busy s' = busy s" "locals s' = locals s"
  using assms by (auto simp: setup_for_execution_def bind_eq_Some_conv Let_def set_status_def)

lemma Closure_steal_effect:
  assumes run: "Closure_steal sp1 sp2 w self v s = Some (Some r, s')"
    and ids: "self \<noteq> NO_WORKER" "v \<noteq> w"
    and cl: "bc_closure (busy s v) = Some cl" "cl < next_closure s"
    and row: "child_row s cl cs" "\<forall>d \<in> set cs. d < next_closure s"
  obtains child where
    "r = cl \<or> r = next_closure s" "next_closure s \<le> child" "child \<noteq> r"
    "cl_frame (clos s' r) = Some (shadow_stack (workers s v) (head (workers s v)))"
    "stolen (frames s' (shadow_stack (workers s v) (head (workers s v))))"
    "\<not> synced (frames s' (shadow_stack (workers s v) (head (workers s v))))"
    "cl_status (clos s' r) = CLOSURE_RUNNING"
    "child_row s' r ((if r = cl then cs else []) @ [child])"
    "join_counter (clos s' r) = (if r = cl then join_counter (clos s cl) else 0) + 1"
    "head (workers s' v) = head (workers s v) + 1" "tail (workers s' v) = tail (workers s v)"
    "bc_closure (busy s' v) = Some child" "cl_owner (clos s' child) = v" "cl_status (clos s' child) = CLOSURE_RUNNING"
    "spawn_parent (clos s' child) = Some r" "cl_fiber (clos s' child) = cl_fiber (clos s cl)"
    "\<forall>u. hyper_ht (workers s' u) = hyper_ht (workers s u)"
    "child_ht (clos s' child) = None \<and> right_ht (clos s' child) = None \<and> user_ht (clos s' child) = None"
    "r \<noteq> cl \<longrightarrow> child_ht (clos s' r) = None \<and> right_ht (clos s' r) = None \<and> user_ht (clos s' r) = None"
    "\<forall>d < next_closure s. child_ht (clos s' d) = child_ht (clos s d) \<and> right_ht (clos s' d) = right_ht (clos s d) \<and>
       user_ht (clos s' d) = user_ht (clos s d)"
    "\<forall>d < next_closure s. cl_mutex (clos s' d) = cl_mutex (clos s d)"
    "cl_mutex (clos s' child) = NO_WORKER" "cl_mutex (clos s' r) = NO_WORKER"
    "\<forall>u. bc_mutex (busy s' u) = bc_mutex (busy s u)"
proof -
  let ?h = "head (workers s v)"
  obtain cl' s4 s5 s6 s7 where S: "bc_closure (busy s v) = Some cl'"
    "bc_mutex (busy s v) = NO_WORKER" "cl_mutex (clos s cl') = NO_WORKER"
    "extract_top_spawning_closure ?h w v cl' self v s4 = Some (r, s5)"
    "s4 = (if exc (workers s v) \<noteq> EXCEPTION_INFINITY then upd_wk v (exc_update (\<lambda>e. e + 1)) else id)
            (upd_cl cl' (cl_mutex_update (\<lambda>_. self)) (upd_busy v (bc_mutex_update (\<lambda>_. self)) s))"
    "finish_promote self r (busy_unlock self v s5) = Some s6" "setup_for_execution w r s6 = Some s7"
    "s' = upd_cl r (cl_mutex_update (\<lambda>_. NO_WORKER)) s7"
    by (rule Closure_steal_success [OF run]) blast
  have [simp]: "cl' = cl" using S(1) cl(1) by simp
  have nc4: "next_closure s4 = next_closure s" by (simp add: S(5))
  have c4: "clos s4 = (clos s)(cl := (clos s cl)\<lparr>cl_mutex := self\<rparr>)" by (simp add: S(5))
  have b4: "bc_closure (busy s4 v) = Some cl" using cl by (simp add: S(5))
  have w4: "shadow_stack (workers s4 u) = shadow_stack (workers s u)" "head (workers s4 u) = head (workers s u)"
    "tail (workers s4 u) = tail (workers s u)" "hyper_ht (workers s4 u) = hyper_ht (workers s u)" for u
    by (simp_all add: S(5))
  have "linked s4 None cs \<longleftrightarrow> linked s None cs" by (rule linked_cong) (simp_all add: c4)
  then have row4: "child_row s4 cl cs" using row(1) by (auto simp: child_row_def c4)
  from S(4) obtain child s1 where
    pc: "promote_child ?h v cl self v s4 = Some (child, Some r, s1)"
    and x: "workers s5 = workers s1" "frames s5 = frames s1" "busy s5 = busy s1"
      "\<forall>d. (clos s5 d)\<lparr>cl_fiber := None, ext_fiber := None\<rparr> = (clos s1 d)\<lparr>cl_fiber := None, ext_fiber := None\<rparr>"
      "cl_fiber (clos s5 child) = cl_fiber (clos s4 cl)"
    unfolding \<open>cl' = cl\<close> by (rule extract_effect)
  note xf = closure_eqD [OF x(4) [THEN spec]]
  show thesis
  proof (rule promote_child_effect [OF pc b4 _ ids(1) row4], goal_cases)
    case 1 then show ?case using cl nc4 by simp
  next
    case 2 then show ?case using row(2) nc4 by simp
  next
    case (3 r')
    then have [simp]: "r' = r" by simp
    define fts where "fts = shadow_stack (workers s v) ?h"
    note E = 3 [unfolded \<open>r' = r\<close> w4(1) fts_def [symmetric] nc4]
    have f5: "cl_frame (clos s5 r) = Some fts" using E(5) xf(1) by simp
    have s6: "s6 = make_ready r (upd_frame fts set_unsynced (busy_unlock self v s5))"
      using S(6) f5 by (auto simp: finish_promote_def bind_eq_Some_conv busy_unlock_def Let_def)
    note X = execution_effect [OF S(7)]
    have cs': "clos s' = (clos s5)(r := (clos s5 r)\<lparr>cl_status := CLOSURE_RUNNING, cl_mutex := NO_WORKER\<rparr>)"
      by (simp add: S(8) X(2) s6 make_ready_def set_status_def busy_unlock_def)
    have flags': "flags (frames s' fts) = flags (set_unsynced (frames s5 fts))"
      by (auto simp: S(8) X(1) s6 make_ready_def set_status_def busy_unlock_def split: option.split)
    have st': "stolen (frames s' fts) = stolen (set_unsynced (frames s5 fts))"
      "synced (frames s' fts) = synced (set_unsynced (frames s5 fts))"
      by (simp_all add: stolen_def synced_def flags')
    have wk': "workers s' u = (if u = w then (workers s5 w)\<lparr>head := 0, exc := 0, tail := 0\<rparr> else workers s5 u)" for u
      by (simp add: S(8) X(3) s6 make_ready_def set_status_def busy_unlock_def)
    have bs': "busy s' = (busy s5)(v := (busy s5 v)\<lparr>bc_mutex := NO_WORKER\<rparr>)"
      by (simp add: S(8) X(4) s6 make_ready_def set_status_def busy_unlock_def)
    have lk: "linked s' None ((if r = cl then cs else []) @ [child]) \<longleftrightarrow> linked s1 None ((if r = cl then cs else []) @ [child])"
      by (rule linked_cong) (simp_all add: cs' xf)
    show ?case
    proof (rule that [of child], unfold fts_def [symmetric])
      show "child_row s' r ((if r = cl then cs else []) @ [child])"
        using E(7) lk by (simp add: child_row_def cs' xf)
      show "\<forall>d<next_closure s. cl_mutex (clos s' d) = cl_mutex (clos s d)"
        using E(2,20) xf(2) S(3) by (auto simp: cs' c4)
      show "\<forall>d<next_closure s. child_ht (clos s' d) = child_ht (clos s d) \<and>
           right_ht (clos s' d) = right_ht (clos s d) \<and> user_ht (clos s' d) = user_ht (clos s d)"
        using E(19) xf(4-6) by (simp add: cs' c4)
      show "\<forall>u. bc_mutex (busy s' u) = bc_mutex (busy s u)"
        using E(21) x(3) S(2) by (auto simp: bs' S(5))
      show "\<forall>u. hyper_ht (workers s' u) = hyper_ht (workers s u)"
        using E(10) x(1) w4 by (auto simp: wk')
    qed (use E x xf w4 ids(2) in \<open>simp_all add: st' cs' wk' bs' c4\<close>)
  qed
qed

end
