(* ===== verification/Sync_Effects.thy ===== *)
theory Sync_Effects
  imports Stealing Returning
begin

text \<open>
  What a \<open>cilk_sync\<close> does to the closure and its tables (\<open>Cilk_sync\<close>), and what \<open>do_reductions\<close>
  computes: the left table, the active table and the right table, merged in that order, with the
  views that the merges themselves create absorbed in between.
\<close>

section \<open>Passing a sync\<close>

lemma swap_to_child_fiber_effect:
  assumes "swap_to_child_fiber w t s = Some s'"
  shows "workers s' = workers s" "frames s' = frames s" "busy s' = busy s"
    "cl_fiber (clos s' t) = fiber_child (clos s t)" "cl_frame (clos s' t) = cl_frame (clos s t)"
    "\<forall>c. cl_status (clos s' c) = cl_status (clos s c)"
  using assms by (auto simp: swap_to_child_fiber_def bind_eq_Some_conv Let_def dest!: fiber_dealloc_maybe_effect split: if_splits)

lemma point_frame_at_fiber_effect:
  assumes "point_frame_at_fiber w t s = Some s'" "cl_frame (clos s t) = Some sf"
  shows "clos s' = clos s" "busy s' = busy s" "flags (frames s' sf) = flags (set_synced (frames s sf))"
  using assms by (auto simp: point_frame_at_fiber_def bind_eq_Some_conv Let_def set_synced_def split: if_splits)

lemma setup_for_sync_effect:
  assumes "setup_for_sync w self t s = Some s'" "cl_frame (clos s t) = Some sf"
  shows "busy s' = busy s" "synced (frames s' sf)" "cl_fiber (clos s' t) = fiber_child (clos s t)"
    "\<forall>c. cl_status (clos s' c) = cl_status (clos s c)" "quiet s s'"
proof -
  obtain s1 s2 where st: "swap_to_child_fiber w t s = Some s1" "point_frame_at_fiber w t s1 = Some s2"
    "s' = upd_cl t (orig_rsp_update (\<lambda>_. 0)) s2"
    using assms by (auto simp: setup_for_sync_def bind_eq_Some_conv)
  note a = swap_to_child_fiber_effect [OF st(1)]
  have fr: "cl_frame (clos s1 t) = Some sf" using a(5) assms(2) by simp
  note b = point_frame_at_fiber_effect [OF st(2) fr]
  have "flags (frames s' sf) = flags (set_synced (frames s sf))" using b(3) a(2) st(3) by simp
  then have "synced (frames s' sf) = synced (set_synced (frames s sf))" by (simp add: synced_def)
  then show "synced (frames s' sf)" by simp
  show "busy s' = busy s" "cl_fiber (clos s' t) = fiber_child (clos s t)"
    "\<forall>c. cl_status (clos s' c) = cl_status (clos s c)"
    using a b st(3) by simp_all
  show "quiet s s'" by (rule quiet_setup_for_sync [OF assms(1)])
qed

section \<open>Waiting at a sync\<close>

lemma closure_suspend_effect:
  assumes "closure_suspend self c s = Some s'"
  shows "s' = upd_cl c (cl_owner_update (\<lambda>_. NO_WORKER)) (upd_busy self (bc_closure_update (\<lambda>_. None))
    (upd_cl c (cl_status_update (\<lambda>_. CLOSURE_SUSPENDED)) s))" "bc_closure (busy s self) = Some c"
  using assms
  by (auto simp: closure_suspend_def bind_eq_Some_conv change_status_def set_status_def busy_xtract_def split: option.splits)

text \<open>The branch of \<open>Cilk_sync\<close> with outstanding children, from the state with both locks.\<close>

lemma Cilk_sync_branches:
  assumes run: "Cilk_sync w frame s = Some (ready, s')" and busy: "bc_closure (busy s w) = Some t"
  obtains s2 s3 where
    "s2 = upd_cl t (cl_mutex_update (\<lambda>_. w)) (upd_busy w (bc_mutex_update (\<lambda>_. w)) s)"
    "bc_mutex (busy s w) = NO_WORKER" "cl_mutex (clos s t) = NO_WORKER" "cl_frame (clos s t) = Some frame"
    "cl_status (clos s t) = CLOSURE_RUNNING" "ready \<longleftrightarrow> join_counter (clos s t) = 0"
    "ready \<Longrightarrow> setup_for_sync w w t s2 = Some s3"
    "ready \<Longrightarrow> s' = (let s5 = busy_unlock_self w (upd_cl t (cl_mutex_update (\<lambda>_. NO_WORKER)) s3) in
        if child_ht (clos s5 t) \<noteq> None
        then upd_cl t (child_ht_update (\<lambda>_. None)) (upd_loc w (lht_update (\<lambda>_. child_ht (clos s5 t))) s5) else s5)"
    "\<not> ready \<Longrightarrow> \<exists>sa sb. fiber_dealloc_maybe w (cl_fiber (clos s2 t)) s2 = Some sa \<and>
        (if use_extension sa then fiber_dealloc_maybe w (ext_fiber (clos sa t)) sa else Some sa) = Some sb \<and>
        s3 = upd_cl t (user_ht_update (\<lambda>_. hyper_ht (workers s w)))
          (upd_cl t (cl_owner_update (\<lambda>_. NO_WORKER)) (upd_busy w (bc_closure_update (\<lambda>_. None))
            (upd_cl t (cl_status_update (\<lambda>_. CLOSURE_SUSPENDED))
              (upd_wk w (hyper_ht_update (\<lambda>_. None)) (upd_cl t (\<lambda>c. c\<lparr>cl_fiber := None, ext_fiber := None\<rparr>) sb)))))"
    "\<not> ready \<Longrightarrow> s' = busy_unlock_self w (upd_cl t (cl_mutex_update (\<lambda>_. NO_WORKER)) s3)"
proof -
  define s1 where "s1 = upd_busy w (bc_mutex_update (\<lambda>_. w)) s"
  define s2 where "s2 = upd_cl t (cl_mutex_update (\<lambda>_. w)) s1"
  have lk: "bc_mutex (busy s w) = NO_WORKER" "busy_lock_self w s = Some s1"
    using run by (auto simp: Cilk_sync_def bind_eq_Some_conv busy_lock_self_def busy_lock_def s1_def split: if_splits)
  have pk: "busy_peek w w s1 = Some (Some t)"
    using busy by (simp add: busy_peek_def busy_assert_ownership_def s1_def)
  have cl: "closure_lock w t s1 = Some s2" "cl_mutex (clos s t) = NO_WORKER"
  proof -
    obtain s2' where "closure_lock w t s1 = Some s2'"
      using run by (auto simp: Cilk_sync_def bind_eq_Some_conv lk pk)
    then show "closure_lock w t s1 = Some s2" "cl_mutex (clos s t) = NO_WORKER"
      by (simp_all add: closure_lock_effect s2_def) (simp_all add: s1_def)
  qed
  have hc: "has_children (clos s2 t) \<longleftrightarrow> join_counter (clos s t) \<noteq> 0" by (simp add: has_children_def s2_def s1_def)
  have c2: "cl_status (clos s2 t) = cl_status (clos s t)" "cl_frame (clos s2 t) = cl_frame (clos s t)"
    by (simp_all add: s2_def s1_def)
  have ck: "cl_frame (clos s t) = Some frame" "cl_status (clos s t) = CLOSURE_RUNNING"
    using run by (auto simp: Cilk_sync_def bind_eq_Some_conv lk pk cl c2)
  show thesis
  proof (cases "join_counter (clos s t) = 0")
    case True
    with run obtain s3 s4 where "setup_for_sync w w t s2 = Some s3" "closure_unlock w t s3 = Some s4" "ready"
      "s' = (let s5 = busy_unlock_self w s4 in
        if child_ht (clos s5 t) \<noteq> None
        then upd_cl t (child_ht_update (\<lambda>_. None)) (upd_loc w (lht_update (\<lambda>_. child_ht (clos s5 t))) s5) else s5)"
      by (auto simp: Cilk_sync_def bind_eq_Some_conv lk pk cl c2 hc Let_def split: if_splits)
    then show thesis using that [of s2 s3] lk cl ck True
      by (auto simp: s2_def s1_def closure_unlock_def bind_eq_Some_conv)
  next
    case False
    with run obtain sa sb se s4 where st: "fiber_dealloc_maybe w (cl_fiber (clos s2 t)) s2 = Some sa"
      "(if use_extension sa then fiber_dealloc_maybe w (ext_fiber (clos sa t)) sa else Some sa) = Some sb"
      "closure_suspend w t (upd_wk w (hyper_ht_update (\<lambda>_. None))
         (upd_cl t (\<lambda>c. c\<lparr>cl_fiber := None, ext_fiber := None\<rparr>) sb)) = Some se"
      "closure_unlock w t (upd_cl t (user_ht_update (\<lambda>_. hyper_ht (workers sb w))) se) = Some s4"
      "\<not> ready" "s' = busy_unlock_self w s4"
      by (auto simp: Cilk_sync_def bind_eq_Some_conv lk pk cl c2 hc Let_def)
    have "workers sa = workers s2" using fiber_dealloc_maybe_effect [OF st(1)] by blast
    moreover have "workers sb = workers sa"
      using st(2) fiber_dealloc_maybe_effect by (cases "use_extension sa") auto
    ultimately have "workers sb = workers s" by (simp add: s2_def s1_def)
    then show thesis using that [of s2 "upd_cl t (user_ht_update (\<lambda>_. hyper_ht (workers sb w))) se"] st lk cl ck False
        closure_suspend_effect [OF st(3)]
      by (auto simp: s2_def s1_def closure_unlock_def bind_eq_Some_conv)
  qed
qed

lemma Cilk_sync_result:
  assumes "Cilk_sync w frame s = Some (ready, s')" "bc_closure (busy s w) = Some t"
  shows "ready \<longleftrightarrow> join_counter (clos s t) = 0"
  by (rule Cilk_sync_branches [OF assms])

lemma Cilk_sync_ready:
  assumes run: "Cilk_sync w frame s = Some (True, s')" and busy: "bc_closure (busy s w) = Some t"
  shows "synced (frames s' frame) \<and> cl_status (clos s' t) = CLOSURE_RUNNING \<and>
     cl_fiber (clos s' t) = fiber_child (clos s t) \<and> hyper_ht (workers s' w) = hyper_ht (workers s w) \<and>
     child_ht (clos s' t) = None \<and> (child_ht (clos s t) \<noteq> None \<longrightarrow> lht (locals s' w) = child_ht (clos s t)) \<and>
     (\<forall>d. cl_mutex (clos s' d) = cl_mutex (clos s d)) \<and> (\<forall>v. bc_mutex (busy s' v) = bc_mutex (busy s v))"
proof (rule Cilk_sync_branches [OF assms], goal_cases)
  case (1 s2 s3)
  have fr2: "cl_frame (clos s2 t) = Some frame" using 1 by simp
  note e = setup_for_sync_effect [OF 1(7) [OF TrueI] fr2]
  have q: "child_ht (clos s3 t) = child_ht (clos s t)" "hyper_ht (workers s3 w) = hyper_ht (workers s w)"
    "cl_mutex (clos s3 d) = cl_mutex (clos s2 d)" for d
    using e(5) by (simp_all add: quiet_defs 1(1))
  have st: "cl_status (clos s3 t) = CLOSURE_RUNNING" "cl_fiber (clos s3 t) = fiber_child (clos s t)"
    using e(3,4) 1(5) by (simp_all add: 1(1))
  show ?case
    unfolding 1(8) [OF TrueI] using e(1,2) st q 1(2,3)
    by (cases "child_ht (clos s t)") (simp_all add: Let_def busy_unlock_self_def busy_unlock_def 1(1))
qed

lemma Cilk_sync_waits:
  assumes run: "Cilk_sync w frame s = Some (False, s')" and busy: "bc_closure (busy s w) = Some t"
  shows "cl_status (clos s' t) = CLOSURE_SUSPENDED \<and> cl_fiber (clos s' t) = None \<and>
     bc_closure (busy s' w) = None \<and> hyper_ht (workers s' w) = None \<and>
     user_ht (clos s' t) = hyper_ht (workers s w) \<and> child_ht (clos s' t) = child_ht (clos s t) \<and>
     (\<forall>d. cl_mutex (clos s' d) = cl_mutex (clos s d)) \<and> (\<forall>v. bc_mutex (busy s' v) = bc_mutex (busy s v))"
proof (rule Cilk_sync_branches [OF assms], goal_cases)
  case (1 s2 s3)
  from 1(9) obtain sa sb where d: "fiber_dealloc_maybe w (cl_fiber (clos s2 t)) s2 = Some sa"
    "(if use_extension sa then fiber_dealloc_maybe w (ext_fiber (clos sa t)) sa else Some sa) = Some sb"
    and s3: "s3 = upd_cl t (user_ht_update (\<lambda>_. hyper_ht (workers s w)))
        (upd_cl t (cl_owner_update (\<lambda>_. NO_WORKER)) (upd_busy w (bc_closure_update (\<lambda>_. None))
          (upd_cl t (cl_status_update (\<lambda>_. CLOSURE_SUSPENDED))
            (upd_wk w (hyper_ht_update (\<lambda>_. None)) (upd_cl t (\<lambda>c. c\<lparr>cl_fiber := None, ext_fiber := None\<rparr>) sb)))))"
    by blast
  have "clos sa = clos s2 \<and> busy sa = busy s2" using fiber_dealloc_maybe_effect [OF d(1)] by blast
  moreover have "clos sb = clos sa \<and> busy sb = busy sa"
    using d(2) fiber_dealloc_maybe_effect by (cases "use_extension sa") auto
  ultimately have b: "clos sb = clos s2" "busy sb = busy s2" by simp_all
  show ?case unfolding 1(10) [simplified] using 1(2,3)
    by (simp add: busy_unlock_self_def busy_unlock_def s3 b 1(1))
qed

section \<open>Reductions\<close>

text \<open>What the reductions rely on: a merge puts the left contents before the right, leaves the worker's
  state alone but for new views in its (empty) active table, and creates new views only finitely
  often, as bounded by \<open>budget\<close>.\<close>

definition contents :: "('h \<Rightarrow> 'a list) \<Rightarrow> 'h option \<Rightarrow> 'a list" where
  "contents seq h = (case h of None \<Rightarrow> [] | Some t \<Rightarrow> seq t)"

lemma contents_simps [simp]: "contents seq None = []" "contents seq (Some t) = seq t"
  by (simp_all add: contents_def)

definition merge_contract ::
    "'h merge \<Rightarrow> ('h \<Rightarrow> 'a list) \<Rightarrow> ('h rts \<Rightarrow> nat) \<Rightarrow> nat \<Rightarrow> worker_id \<Rightarrow> bool" where
  "merge_contract merge seq budget sf w \<longleftrightarrow>
     (\<forall>l r s. get_worker_from_stack sf s = Some w \<longrightarrow> l \<noteq> None \<or> r \<noteq> None \<longrightarrow> hyper_ht (workers s w) = None \<longrightarrow>
        (\<exists>h s'. merge l r s = Some (Some h, s') \<and> seq h = contents seq l @ contents seq r \<and>
           get_worker_from_stack sf s' = Some w \<and> lht (locals s' w) = lht (locals s w) \<and>
           rht (locals s' w) = rht (locals s w) \<and>
           (if hyper_ht (workers s' w) = None then budget s' \<le> budget s else budget s' < budget s))) \<and>
     (\<forall>s h. budget (upd_wk w (hyper_ht_update (\<lambda>_. h)) s) = budget s) \<and>
     (\<forall>s l r. budget (upd_loc w (\<lambda>lo. lo\<lparr>lht := l, rht := r\<rparr>) s) = budget s)"

lemma worker_upd [simp]:
  "get_worker_from_stack sf (upd_wk w f s) = get_worker_from_stack sf s"
  "get_worker_from_stack sf (upd_loc w g s) = get_worker_from_stack sf s"
  by (simp_all add: get_worker_from_stack_def)

lemma merge_step:
  assumes "merge_contract merge seq budget sf w" "get_worker_from_stack sf s = Some w"
    and "l \<noteq> None \<or> r \<noteq> None" "hyper_ht (workers s w) = None"
  obtains h s' where "merge l r s = Some (Some h, s')" "seq h = contents seq l @ contents seq r"
    "get_worker_from_stack sf s' = Some w" "lht (locals s' w) = lht (locals s w)" "rht (locals s' w) = rht (locals s w)"
    "if hyper_ht (workers s' w) = None then budget s' \<le> budget s else budget s' < budget s"
  using assms unfolding merge_contract_def by blast

lemma absorb_new_views_spec:
  assumes c: "merge_contract merge seq budget sf w"
  shows "get_worker_from_stack sf s = Some w \<Longrightarrow> budget s + 1 < fuel \<Longrightarrow>
    \<exists>h' s' new. absorb_new_views fuel merge sf w' (Some h) s = Some (w, Some h', s') \<and>
      seq h' = seq h @ new \<and> hyper_ht (workers s' w) = None \<and> get_worker_from_stack sf s' = Some w \<and>
      lht (locals s' w) = lht (locals s w) \<and> rht (locals s' w) = rht (locals s w) \<and> budget s' \<le> budget s \<and>
      (hyper_ht (workers s w) = None \<longrightarrow> new = [])"
proof (induction fuel arbitrary: w' h s)
  case (Suc n)
  show ?case
  proof (cases "hyper_ht (workers s w)")
    case None
    then show ?thesis using Suc.prems by simp
  next
    case (Some nw)
    let ?s = "upd_wk w (hyper_ht_update (\<lambda>_. None)) s"
    have ws: "get_worker_from_stack sf ?s = Some w" "hyper_ht (workers ?s w) = None" using Suc.prems by simp_all
    from merge_step [OF c ws(1) _ ws(2), of "Some h" "Some nw"] obtain h1 s1 where
      m: "merge (Some h) (Some nw) ?s = Some (Some h1, s1)" "seq h1 = seq h @ seq nw"
        "get_worker_from_stack sf s1 = Some w" "lht (locals s1 w) = lht (locals s w)"
        "rht (locals s1 w) = rht (locals s w)"
      and b: "if hyper_ht (workers s1 w) = None then budget s1 \<le> budget ?s else budget s1 < budget ?s"
      by auto
    have bs: "budget ?s = budget s" using c by (simp add: merge_contract_def)
    show ?thesis
    proof (cases "hyper_ht (workers s1 w) = None")
      case True
      obtain k where n: "n = Suc k" using Suc.prems by (cases n) auto
      have "absorb_new_views (Suc n) merge sf w' (Some h) s = Some (w, Some h1, s1)"
        using Suc.prems Some m True by (simp add: n)
      then show ?thesis using m b bs True Some by auto
    next
      case False
      then have "budget s1 < budget s" using b by (simp only: False if_False bs)
      then have "budget s1 + 1 < n" using Suc.prems by linarith
      from Suc.IH [OF m(3) this, of w h1] obtain h' s' new where
        "absorb_new_views n merge sf w (Some h1) s1 = Some (w, Some h', s')" "seq h' = seq h1 @ new"
        "hyper_ht (workers s' w) = None" "get_worker_from_stack sf s' = Some w"
        "lht (locals s' w) = lht (locals s1 w)" "rht (locals s' w) = rht (locals s1 w)" "budget s' \<le> budget s1"
        by auto
      then show ?thesis using Suc.prems Some m b bs False by (auto simp: Let_def)
    qed
  qed
qed simp

lemma merge_and_absorb:
  assumes c: "merge_contract merge seq budget sf w" and w: "get_worker_from_stack sf s = Some w"
    and ne: "l \<noteq> None \<or> r \<noteq> None" and none: "hyper_ht (workers s w) = None" and fuel: "budget s + 1 < fuel"
  shows "\<exists>h' s' new. do { (h, s') \<leftarrow> merge l r s; absorb_new_views fuel merge sf w h s' } = Some (w, Some h', s') \<and>
      seq h' = contents seq l @ contents seq r @ new \<and> hyper_ht (workers s' w) = None \<and>
      get_worker_from_stack sf s' = Some w \<and> lht (locals s' w) = lht (locals s w) \<and>
      rht (locals s' w) = rht (locals s w) \<and> budget s' \<le> budget s"
proof -
  obtain h s1 where m: "merge l r s = Some (Some h, s1)" "seq h = contents seq l @ contents seq r"
    "get_worker_from_stack sf s1 = Some w" "lht (locals s1 w) = lht (locals s w)" "rht (locals s1 w) = rht (locals s w)"
    and b: "if hyper_ht (workers s1 w) = None then budget s1 \<le> budget s else budget s1 < budget s"
    by (rule merge_step [OF c w ne none])
  have le: "budget s1 \<le> budget s" using b by (simp split: if_splits)
  then have "budget s1 + 1 < fuel" using fuel by simp
  from absorb_new_views_spec [OF c m(3) this, of w h] m le show ?thesis by fastforce
qed

lemma do_reductions_spec:
  assumes c: "merge_contract merge seq budget sf w" and w: "get_worker_from_stack sf s = Some w"
    and fuel: "budget s + 1 < fuel"
  shows "\<exists>s' new1 new2. do_reductions fuel merge sf s = Some s' \<and> lht (locals s' w) = None \<and> rht (locals s' w) = None \<and>
    contents seq (hyper_ht (workers s' w)) =
      contents seq (lht (locals s w)) @ contents seq (hyper_ht (workers s w)) @ new1 @
      contents seq (rht (locals s w)) @ new2"
proof -
  let ?l = "lht (locals s w)" and ?r = "rht (locals s w)" and ?h = "hyper_ht (workers s w)"
  define s2 where "s2 = upd_wk w (hyper_ht_update (\<lambda>_. None)) (upd_loc w (\<lambda>lo. lo\<lparr>lht := None, rht := None\<rparr>) s)"
  have s2: "get_worker_from_stack sf s2 = Some w" "hyper_ht (workers s2 w) = None" "budget s2 = budget s"
    "lht (locals s2 w) = None" "rht (locals s2 w) = None"
    using w c by (simp_all add: s2_def merge_contract_def)
  show ?thesis
  proof (cases "?l = None \<and> ?r = None")
    case True
    then have "do_reductions fuel merge sf s = Some s" using w by (simp add: do_reductions_def)
    then show ?thesis using True by (intro exI [of _ s] exI [of _ "[]"]) simp
  next
    case False
    have "\<exists>h1 s3 new1. reduce_left fuel merge sf w ?l ?h s2 = Some (w, h1, s3) \<and>
        contents seq h1 = contents seq ?l @ contents seq ?h @ new1 \<and> hyper_ht (workers s3 w) = None \<and>
        get_worker_from_stack sf s3 = Some w \<and> lht (locals s3 w) = None \<and> rht (locals s3 w) = None \<and> budget s3 \<le> budget s"
    proof (cases "?l = None")
      case True
      then show ?thesis using s2 by (auto simp: reduce_left_def)
    next
      case ln: False
      show ?thesis using merge_and_absorb [OF c s2(1) _ s2(2), of ?l ?h fuel] ln s2 fuel
        by (force simp: reduce_left_def case_prod_beta)
    qed
    then obtain h1 s3 new1 where st1: "reduce_left fuel merge sf w ?l ?h s2 = Some (w, h1, s3)"
      and h1: "contents seq h1 = contents seq ?l @ contents seq ?h @ new1" "hyper_ht (workers s3 w) = None"
        "get_worker_from_stack sf s3 = Some w" "lht (locals s3 w) = None" "rht (locals s3 w) = None" "budget s3 \<le> budget s"
      by blast
    have "\<exists>h2 s4 new2. reduce_right fuel merge sf w h1 ?r s3 = Some (w, h2, s4) \<and>
        contents seq h2 = contents seq h1 @ contents seq ?r @ new2 \<and> lht (locals s4 w) = None \<and> rht (locals s4 w) = None"
    proof (cases "?r = None")
      case True
      then show ?thesis using h1 by (auto simp: reduce_right_def)
    next
      case rn: False
      have "budget s3 + 1 < fuel" using fuel h1(6) by simp
      then show ?thesis using merge_and_absorb [OF c h1(3) _ h1(2), of h1 ?r fuel] rn h1
        by (force simp: reduce_right_def case_prod_beta)
    qed
    then obtain h2 s4 new2 where st2: "reduce_right fuel merge sf w h1 ?r s3 = Some (w, h2, s4)"
      and h2: "contents seq h2 = contents seq h1 @ contents seq ?r @ new2" "lht (locals s4 w) = None" "rht (locals s4 w) = None"
      by blast
    have "do_reductions fuel merge sf s = Some (upd_wk w (hyper_ht_update (\<lambda>_. h2)) s4)"
      using w False st1 st2 unfolding do_reductions_def Let_def s2_def by auto
    then show ?thesis using h1(1) h2 by (intro exI [of _ "upd_wk w (hyper_ht_update (\<lambda>_. h2)) s4"]) auto
  qed
qed

end
