(* ===== verification/The_Protocol.thy ===== *)
theory The_Protocol
  imports Stealing
begin

text \<open>
  The race between a victim that pops its deque and a thief that steals from it (\<^verbatim>\<open>__cilkrts_detach\<close> and
  \<^verbatim>\<open>__cilkrts_leave_frame_helper\<close> in \<^verbatim>\<open>runtime/cilk2c_inlined.cpp\<close>, \<^verbatim>\<open>do_dekker_on\<close>, \<^verbatim>\<open>promote_child\<close>
  and \<^verbatim>\<open>__cilkrts_exception_handler\<close> in \<^verbatim>\<open>runtime/scheduler.cpp\<close>), one shared access per step.

  The victim moves the tail \<open>T\<close>, the thief the head \<open>H\<close> and, before it looks at \<open>T\<close>, the exception
  pointer \<open>E\<close>; only a victim that finds \<open>E > T\<close> takes the lock.  The accesses that race (the stores and
  loads of \<open>T\<close> and \<open>E\<close>) are sequentially consistent in the code, by \<^verbatim>\<open>memory_order_seq_cst\<close> or the
  fence in \<^verbatim>\<open>do_dekker_on\<close>, so the steps interleave; the others happen under the lock, or to slots no
  one else reads.  Each frame pushed gets a number; \<open>popped\<close> and \<open>stolen_ids\<close> record who took it.
\<close>

section \<open>State\<close>

datatype victim_pc =
    V_run          \<comment> \<open>running user code\<close>
  | V_stored       \<comment> \<open>the parent is written to \<open>*tail\<close>, the tail not yet moved\<close>
  | V_popped       \<comment> \<open>the tail is decremented, \<open>exc\<close> not yet read\<close>
  | V_exception    \<comment> \<open>\<open>exc > tail\<close>: waiting for the lock in the exception handler\<close>
  | V_locked       \<comment> \<open>in the exception handler, with the lock\<close>
  | V_lost         \<comment> \<open>the parent was stolen: back to the runtime\<close>

datatype thief_pc =
    T_idle
  | T_locked       \<comment> \<open>has the locks on the busy closure and the closure\<close>
  | T_announced    \<comment> \<open>\<open>exc\<close> is incremented, \<open>tail\<close> not yet read\<close>
  | T_won          \<comment> \<open>read \<open>head < tail\<close>\<close>

record deque =
  hd_ptr :: int
  tl_ptr :: int
  ex_ptr :: int
  limit :: int
  slots :: "int \<Rightarrow> nat"
  pushed :: nat
  popped :: "nat list"
  stolen_ids :: "nat list"
  vpc :: victim_pc
  tpc :: thief_pc

definition initial_deque :: "int \<Rightarrow> deque" where
  "initial_deque lim = \<lparr>hd_ptr = 0, tl_ptr = 0, ex_ptr = 0, limit = lim, slots = (\<lambda>_. 0), pushed = 0,
     popped = [], stolen_ids = [], vpc = V_run, tpc = T_idle\<rparr>"

section \<open>Steps\<close>

text \<open>The victim in compiled code: \<open>detach\<close> is two stores, the epilogue of a spawn helper a store and a
  load.\<close>

inductive victim_step :: "deque \<Rightarrow> deque \<Rightarrow> bool" where
  detach_store: "vpc d = V_run \<Longrightarrow> tl_ptr d + 1 < limit d \<Longrightarrow>
     victim_step d (d\<lparr>slots := (slots d)(tl_ptr d := pushed d), vpc := V_stored\<rparr>)"
| detach_tail: "vpc d = V_stored \<Longrightarrow>
     victim_step d (d\<lparr>tl_ptr := tl_ptr d + 1, pushed := pushed d + 1, vpc := V_run\<rparr>)"
| leave_tail: "vpc d = V_run \<Longrightarrow> 0 < tl_ptr d \<Longrightarrow>
     victim_step d (d\<lparr>tl_ptr := tl_ptr d - 1, vpc := V_popped\<rparr>)"
| leave_fast: "vpc d = V_popped \<Longrightarrow> \<not> ex_ptr d > tl_ptr d \<Longrightarrow>
     victim_step d (d\<lparr>popped := slots d (tl_ptr d) # popped d, vpc := V_run\<rparr>)"
| leave_slow: "vpc d = V_popped \<Longrightarrow> ex_ptr d > tl_ptr d \<Longrightarrow>
     victim_step d (d\<lparr>vpc := V_exception\<rparr>)"

text \<open>The exception handler: it takes the lock, resets \<open>exc\<close> to \<open>head\<close> and compares; a stolen victim
  later starts over on an empty deque (\<open>setup_for_execution\<close>).\<close>

inductive handler_step :: "deque \<Rightarrow> deque \<Rightarrow> bool" where
  handler_lock: "vpc d = V_exception \<Longrightarrow> tpc d = T_idle \<Longrightarrow>
     handler_step d (d\<lparr>ex_ptr := hd_ptr d, vpc := V_locked\<rparr>)"
| handler_stolen: "vpc d = V_locked \<Longrightarrow> hd_ptr d > tl_ptr d \<Longrightarrow>
     handler_step d (d\<lparr>vpc := V_lost\<rparr>)"
| handler_false_alarm: "vpc d = V_locked \<Longrightarrow> \<not> hd_ptr d > tl_ptr d \<Longrightarrow>
     handler_step d (d\<lparr>popped := slots d (tl_ptr d) # popped d, vpc := V_run\<rparr>)"
| start_over: "vpc d = V_lost \<Longrightarrow> tpc d = T_idle \<Longrightarrow>
     handler_step d (d\<lparr>hd_ptr := 0, tl_ptr := 0, ex_ptr := 0, vpc := V_run\<rparr>)"

text \<open>The thief that holds the lock.  A lost victim has no busy closure any more, so no thief gets past
  the lock then.\<close>

inductive thief_step :: "deque \<Rightarrow> deque \<Rightarrow> bool" where
  thief_lock: "tpc d = T_idle \<Longrightarrow> vpc d \<notin> {V_locked, V_lost} \<Longrightarrow>
     thief_step d (d\<lparr>tpc := T_locked\<rparr>)"
| thief_announce: "tpc d = T_locked \<Longrightarrow>
     thief_step d (d\<lparr>ex_ptr := (if ex_ptr d \<noteq> EXCEPTION_INFINITY then ex_ptr d + 1 else ex_ptr d),
                    tpc := T_announced\<rparr>)"
| thief_win: "tpc d = T_announced \<Longrightarrow> \<not> hd_ptr d \<ge> tl_ptr d \<Longrightarrow>
     thief_step d (d\<lparr>tpc := T_won\<rparr>)"
| thief_fail: "tpc d = T_announced \<Longrightarrow> hd_ptr d \<ge> tl_ptr d \<Longrightarrow>
     thief_step d (d\<lparr>ex_ptr := (if ex_ptr d \<noteq> EXCEPTION_INFINITY then ex_ptr d - 1 else ex_ptr d),
                    tpc := T_idle\<rparr>)"
| thief_take: "tpc d = T_won \<Longrightarrow>
     thief_step d (d\<lparr>stolen_ids := slots d (hd_ptr d) # stolen_ids d, hd_ptr := hd_ptr d + 1, tpc := T_idle\<rparr>)"

definition deque_step :: "deque \<Rightarrow> deque \<Rightarrow> bool" where
  "deque_step d d' \<longleftrightarrow> victim_step d d' \<or> handler_step d d' \<or> thief_step d d'"

definition deque_reachable :: "int \<Rightarrow> deque \<Rightarrow> bool" where
  "deque_reachable lim d \<longleftrightarrow> deque_step\<^sup>*\<^sup>* (initial_deque lim) d"

inductive_cases victim_stepE: "victim_step d d'"
inductive_cases handler_stepE: "handler_step d d'"
inductive_cases thief_stepE: "thief_step d d'"

section \<open>Invariant\<close>

definition announced :: "deque \<Rightarrow> int" where
  "announced d = (if tpc d \<in> {T_announced, T_won} then 1 else 0)"

definition claimed :: "deque \<Rightarrow> int" where
  "claimed d = (if tpc d = T_won then 1 else 0)"

text \<open>The end of the part of the deque nobody has taken: a frame being popped still counts.\<close>

definition live_end :: "deque \<Rightarrow> int" where
  "live_end d = (if vpc d \<in> {V_popped, V_exception, V_locked, V_lost} then tl_ptr d + 1 else tl_ptr d)"

definition live_ids :: "deque \<Rightarrow> nat list" where
  "live_ids d = map (slots d) [hd_ptr d .. live_end d - 1]"

definition deque_ok :: "int \<Rightarrow> deque \<Rightarrow> bool" where
  "deque_ok lim d \<longleftrightarrow>
     limit d = lim \<and> 0 \<le> hd_ptr d \<and> live_end d < lim \<and>
     ex_ptr d = hd_ptr d + announced d \<and>
     hd_ptr d + claimed d \<le> live_end d \<and>
     (vpc d \<in> {V_locked, V_lost} \<longrightarrow> tpc d = T_idle) \<and>
     (vpc d = V_lost \<longrightarrow> hd_ptr d = live_end d) \<and>
     (vpc d = V_stored \<longrightarrow> slots d (tl_ptr d) = pushed d \<and> tl_ptr d + 1 < lim)"

lemmas deque_defs = deque_ok_def announced_def claimed_def live_end_def

lemma victim_step_ok:
  assumes "victim_step d d'" "deque_ok lim d"
  shows "deque_ok lim d'"
  using assms by (elim victim_stepE) (auto simp: deque_defs split: if_splits)

lemma handler_step_ok:
  assumes "handler_step d d'" "deque_ok lim d"
  shows "deque_ok lim d'"
  using assms by (elim handler_stepE) (auto simp: deque_defs split: if_splits)

lemma thief_step_ok:
  assumes "thief_step d d'" "deque_ok lim d" "lim < EXCEPTION_INFINITY"
  shows "deque_ok lim d'"
  using assms by (elim thief_stepE) (auto simp: deque_defs split: if_splits)

lemma deque_ok_initial: "0 < lim \<Longrightarrow> deque_ok lim (initial_deque lim)"
  by (simp add: deque_defs initial_deque_def)

section \<open>Who has taken what\<close>

definition all_accounted :: "deque \<Rightarrow> bool" where
  "all_accounted d \<longleftrightarrow> mset [0..<pushed d] = mset (popped d) + mset (stolen_ids d) + mset (live_ids d)"

text \<open>The frames still in the deque are younger than every frame stolen, and in order of age.\<close>

definition in_order :: "deque \<Rightarrow> bool" where
  "in_order d \<longleftrightarrow> sorted_wrt (<) (rev (stolen_ids d) @ live_ids d) \<and>
     (\<forall>i \<in> set (rev (stolen_ids d) @ live_ids d). i < pushed d)"

lemma upto_snoc: "i \<le> j \<Longrightarrow> [i .. j] = [i .. j - 1] @ [j]" for i j :: int
  by (rule upto_rec2)

lemma upto_cons: "i \<le> j \<Longrightarrow> [i .. j] = i # [i + 1 .. j]" for i j :: int
  by (rule upto_rec1)

lemma live_ids_cong:
  assumes "hd_ptr d' = hd_ptr d" "live_end d' = live_end d" "\<And>i. hd_ptr d \<le> i \<Longrightarrow> i < live_end d \<Longrightarrow> slots d' i = slots d i"
  shows "live_ids d' = live_ids d"
  using assms by (simp add: live_ids_def)

text \<open>A step moves at most one frame: into the deque at the end, out at the end to the victim, out at
  the front to the thief.\<close>

lemma step_moves:
  assumes step: "deque_step d d'" and ok: "deque_ok lim d"
  shows "(pushed d' = pushed d \<and> popped d' = popped d \<and> stolen_ids d' = stolen_ids d \<and> live_ids d' = live_ids d) \<or>
     (pushed d' = pushed d + 1 \<and> popped d' = popped d \<and> stolen_ids d' = stolen_ids d \<and>
        live_ids d' = live_ids d @ [pushed d]) \<or>
     (\<exists>i. pushed d' = pushed d \<and> popped d' = i # popped d \<and> stolen_ids d' = stolen_ids d \<and>
        live_ids d = live_ids d' @ [i]) \<or>
     (\<exists>i. pushed d' = pushed d \<and> popped d' = popped d \<and> stolen_ids d' = i # stolen_ids d \<and>
        live_ids d = i # live_ids d')"
  using step unfolding deque_step_def
proof (elim disjE)
  assume "victim_step d d'"
  then show ?thesis
  proof (cases rule: victim_step.cases)
    case detach_store
    then have "live_ids d' = live_ids d" by (simp add: live_ids_def live_end_def)
    then show ?thesis using detach_store by simp
  next
    case detach_tail
    then have "live_ids d' = live_ids d @ [pushed d]"
      using ok upto_snoc [of "hd_ptr d" "tl_ptr d"] by (simp add: live_ids_def deque_defs split: if_splits)
    then show ?thesis using detach_tail by simp
  next
    case leave_tail
    then have "live_ids d' = live_ids d" by (simp add: live_ids_def live_end_def)
    then show ?thesis using leave_tail by simp
  next
    case leave_fast
    then have "live_ids d = live_ids d' @ [slots d (tl_ptr d)]"
      using ok upto_snoc [of "hd_ptr d" "tl_ptr d"] by (simp add: live_ids_def deque_defs split: if_splits)
    then show ?thesis using leave_fast by simp
  next
    case leave_slow
    then have "live_ids d' = live_ids d" by (simp add: live_ids_def live_end_def)
    then show ?thesis using leave_slow by simp
  qed
next
  assume "handler_step d d'"
  then show ?thesis
  proof (cases rule: handler_step.cases)
    case handler_lock
    then have "live_ids d' = live_ids d" by (simp add: live_ids_def live_end_def)
    then show ?thesis using handler_lock by simp
  next
    case handler_stolen
    then have "live_ids d' = live_ids d" by (simp add: live_ids_def live_end_def)
    then show ?thesis using handler_stolen by simp
  next
    case handler_false_alarm
    then have "live_ids d = live_ids d' @ [slots d (tl_ptr d)]"
      using ok upto_snoc [of "hd_ptr d" "tl_ptr d"] by (simp add: live_ids_def deque_defs split: if_splits)
    then show ?thesis using handler_false_alarm by simp
  next
    case start_over
    then have "live_ids d = []" "live_ids d' = []"
      using ok by (simp_all add: live_ids_def deque_defs)
    then show ?thesis using start_over by simp
  qed
next
  assume "thief_step d d'"
  then show ?thesis
  proof (cases rule: thief_step.cases)
    case thief_take
    have "live_end d' = live_end d" using thief_take by (simp add: live_end_def)
    moreover have "hd_ptr d + 1 \<le> live_end d" using ok thief_take by (simp add: deque_ok_def claimed_def)
    ultimately have "live_ids d = slots d (hd_ptr d) # live_ids d'"
      using thief_take upto_cons [of "hd_ptr d" "live_end d - 1"] by (simp add: live_ids_def)
    then show ?thesis using thief_take by simp
  qed (simp_all add: live_ids_def live_end_def)
qed

lemma step_accounted:
  assumes "deque_step d d'" "deque_ok lim d" "all_accounted d"
  shows "all_accounted d'"
  using step_moves [OF assms(1,2)] assms(3) by (auto simp: all_accounted_def simp del: mset_upt)

lemma step_in_order:
  assumes "deque_step d d'" "deque_ok lim d" "in_order d"
  shows "in_order d'"
  using step_moves [OF assms(1,2)] assms(3) by (auto simp: in_order_def sorted_wrt_append less_Suc_eq)

lemma deque_invariant:
  assumes "deque_reachable lim d" "0 < lim" "lim < EXCEPTION_INFINITY"
  shows "deque_ok lim d \<and> all_accounted d \<and> in_order d"
  using assms(1) unfolding deque_reachable_def
proof (induction rule: rtranclp_induct)
  case base
  then show ?case using deque_ok_initial assms(2)
    by (simp add: all_accounted_def in_order_def live_ids_def live_end_def initial_deque_def)
next
  case (step y z)
  then show ?case
    using step_accounted step_in_order victim_step_ok handler_step_ok thief_step_ok assms(3)
    unfolding deque_step_def by metis
qed

text \<open>The conclusions, for the properties below.\<close>

lemma reachable_accounts:
  assumes "deque_reachable lim d" "0 < lim" "lim < EXCEPTION_INFINITY"
  shows "mset (popped d @ stolen_ids d @ live_ids d) = mset [0..<pushed d]"
  using deque_invariant [OF assms] by (simp add: all_accounted_def add.assoc)

section \<open>The handlers take the protocol's steps\<close>

definition same_pointers :: "worker_id \<Rightarrow> 'h rts \<Rightarrow> deque \<Rightarrow> bool" where
  "same_pointers w s d \<longleftrightarrow> hd_ptr d = head (workers s w) \<and> tl_ptr d = tail (workers s w) \<and> ex_ptr d = exc (workers s w)"

lemma two_steps: "R a b \<Longrightarrow> R b c \<Longrightarrow> R\<^sup>*\<^sup>* a c"
  by (meson r_into_rtranclp rtranclp.rtrancl_into_rtrancl)

text \<open>A concrete race: two frames are pushed, a thief wins the first while the victim pops both.\<close>

definition race :: deque where
  "race = \<lparr>hd_ptr = 1, tl_ptr = 0, ex_ptr = 1, limit = 8, slots = (\<lambda>_. 0)(0 := 0, 1 := 1), pushed = 2,
     popped = [1], stolen_ids = [0], vpc = V_locked, tpc = T_idle\<rparr>"

lemma reach_victim: "deque_reachable lim d \<Longrightarrow> victim_step d d' \<Longrightarrow> deque_reachable lim d'"
  and reach_handler: "deque_reachable lim d \<Longrightarrow> handler_step d d' \<Longrightarrow> deque_reachable lim d'"
  and reach_thief: "deque_reachable lim d \<Longrightarrow> thief_step d d' \<Longrightarrow> deque_reachable lim d'"
  unfolding deque_reachable_def by (auto simp: deque_step_def intro: rtranclp.rtrancl_into_rtrancl)

lemma race_reachable: "deque_reachable 8 race"
proof -
  have "deque_reachable 8 (initial_deque 8)" by (simp add: deque_reachable_def)
  note s0 = this [unfolded initial_deque_def]
  note s1 = reach_victim [OF s0 detach_store, simplified]
  note s2 = reach_victim [OF s1 detach_tail, simplified]
  note s3 = reach_victim [OF s2 detach_store, simplified]
  note s4 = reach_victim [OF s3 detach_tail, simplified]
  note s5 = reach_thief [OF s4 thief_lock, simplified]
  note s6 = reach_thief [OF s5 thief_announce, simplified]
  note s7 = reach_victim [OF s6 leave_tail, simplified]
  note s8 = reach_thief [OF s7 thief_win, simplified]
  note s9 = reach_victim [OF s8 leave_fast, simplified EXCEPTION_INFINITY_def, simplified]
  note s10 = reach_victim [OF s9 leave_tail, simplified]
  note s11 = reach_victim [OF s10 leave_slow, simplified]
  note s12 = reach_thief [OF s11 thief_take, simplified]
  note s13 = reach_handler [OF s12 handler_lock, simplified]
  show ?thesis using s13 by (simp add: race_def numeral_2_eq_2)
qed

text \<open>The pointers after each handler.\<close>

lemma leave_frame_helper_pointers:
  assumes "leave_frame_helper sf parent spawner s = Some (raised, s')" "get_worker_from_stack sf s = Some w"
  shows "head (workers s' w) = head (workers s w)" "tail (workers s' w) = tail (workers s w) - 1"
    "exc (workers s' w) = exc (workers s w)" "raised \<longleftrightarrow> exc (workers s w) > tail (workers s w) - 1"
  using assms unfolding leave_frame_helper_def
  by (cases spawner; cases "use_extension s"; auto simp: bind_eq_Some_conv Let_def)+

lemma do_dekker_pointers:
  assumes "do_dekker_on self v cl s = Some (r, s')" "exc (workers s v) + 1 < EXCEPTION_INFINITY"
  shows "head (workers s' v) = head (workers s v)" "tail (workers s' v) = tail (workers s v)"
    "r = (if head (workers s v) \<ge> tail (workers s v) then None else Some (head (workers s v)))"
    "exc (workers s' v) = (if r = None then exc (workers s v) else exc (workers s v) + 1)"
  using assms unfolding do_dekker_on_def increment_exception_pointer_def decrement_exception_pointer_def
  by (auto simp: bind_eq_Some_conv Let_def split: if_splits)

lemma closure_unlock_effect:
  assumes "closure_unlock self c s = Some s'"
  shows "s' = upd_cl c (cl_mutex_update (\<lambda>_. NO_WORKER)) s"
  using assms by (auto simp: closure_unlock_def bind_eq_Some_conv)

lemma frame_was_stolen_pointers:
  assumes "frame_was_stolen save_exn w exn t s = Some s'"
  shows "head (workers s' w) = head (workers s w) \<and> tail (workers s' w) = tail (workers s w) \<and>
    exc (workers s' w) = exc (workers s w)"
  using assms unfolding frame_was_stolen_def
  by (cases "exn = 0"; cases "cl_status (clos s t)")
    (auto simp: bind_eq_Some_conv Let_def set_status_def dest!: closure_unlock_effect)

lemma exception_handler_pointers:
  assumes "exception_handler save_exn w exn s = Some (r, s')"
  shows "head (workers s' w) = head (workers s w) \<and> tail (workers s' w) = tail (workers s w) \<and>
    exc (workers s' w) = head (workers s w) \<and> (r = None \<longleftrightarrow> \<not> head (workers s w) > tail (workers s w))"
proof -
  obtain s1 s2 s3 t where st: "busy_lock_self w s = Some s1" "closure_lock w t s1 = Some s2"
    "reset_exception_pointer w w t s2 = Some s3"
    and go: "(if head (workers s3 w) > tail (workers s3 w) then do {
       s4 \<leftarrow> frame_was_stolen save_exn w exn t s3;
       Some (Some t, s4)
     } else do {
       s4 \<leftarrow> closure_unlock w t s3;
       Some (None, busy_unlock_self w s4)
     }) = Some (r, s')"
    using assms unfolding exception_handler_def by (auto simp: bind_eq_Some_conv)
  have "workers s1 = workers s" using st(1) by (auto simp: busy_lock_self_def busy_lock_def split: if_splits)
  moreover have "workers s2 = workers s1" using st(2) by (auto simp: closure_lock_def bind_eq_Some_conv split: if_splits)
  moreover have "workers s3 = (workers s2)(w := (workers s2 w)\<lparr>exc := head (workers s2 w)\<rparr>)"
    using st(3) by (auto simp: reset_exception_pointer_def bind_eq_Some_conv)
  ultimately show ?thesis using go
    by (cases "head (workers s w) > tail (workers s w)")
      (auto simp: bind_eq_Some_conv busy_unlock_self_def busy_unlock_def
        dest!: frame_was_stolen_pointers closure_unlock_effect)
qed

section \<open>Correctness\<close>

text \<open>C1: In every reachable interleaving of the victim and the thieves, no frame is taken twice, and
  every frame pushed has been popped by the victim, or stolen, or is still in the deque.\<close>

theorem frames_taken_exactly_once:
  assumes "deque_reachable lim d" "0 < lim" "lim < EXCEPTION_INFINITY"
  shows "distinct (popped d @ stolen_ids d @ live_ids d) \<and>
    set (popped d @ stolen_ids d @ live_ids d) = {0..<pushed d}"
proof
  note m = reachable_accounts [OF assms]
  show "distinct (popped d @ stolen_ids d @ live_ids d)"
    using mset_eq_imp_distinct_iff [OF m] distinct_upt by blast
  show "set (popped d @ stolen_ids d @ live_ids d) = {0..<pushed d}"
    using mset_eq_setD [OF m] by simp
qed

theorem frames_taken_exactly_once_witness:
  "distinct (popped race @ stolen_ids race @ live_ids race) \<and>
   set (popped race @ stolen_ids race @ live_ids race) = {0..<2} \<and> stolen_ids race = [0]"
  using frames_taken_exactly_once [OF race_reachable] by (simp add: EXCEPTION_INFINITY_def race_def)

text \<open>Thieves take the oldest frame: the frames stolen so far were stolen in the order they were
  pushed, and each of them is older than every frame left in the deque.\<close>

theorem thieves_take_the_oldest:
  assumes "deque_reachable lim d" "0 < lim" "lim < EXCEPTION_INFINITY"
  shows "sorted_wrt (<) (rev (stolen_ids d) @ live_ids d)"
  using deque_invariant [OF assms] by (simp add: in_order_def)

theorem thieves_take_the_oldest_witness:
  "sorted_wrt (<) (rev (stolen_ids race) @ live_ids race) \<and> deque_reachable 8 race"
  using thieves_take_the_oldest [OF race_reachable] race_reachable by (simp add: EXCEPTION_INFINITY_def)



end
