(* ===== verification/Scheduler_Properties.thy ===== *)
theory Scheduler_Properties
  imports Steal_Effects Sync_Effects The_Protocol
begin

text \<open>
  The properties of the scheduler: the sibling lists, the serial order of reducer tables through
  returns, steals and syncs, reductions, and the locks.  The witnesses run the handlers on \<open>family\<close>, a
  parent with two children, and on \<open>victim\<close>, a worker with two frames in its deque.
\<close>

section \<open>Two small states\<close>

definition blank_frame :: stack_frame where
  "blank_frame = \<lparr>flags = 0, magic = frame_magic, fh = None, frame_call_parent = None, fp = 0, sp = 0,
     frame_extension = 0\<rparr>"

definition blank_fiber :: "worker_id \<Rightarrow> nat \<Rightarrow> cilk_fiber" where
  "blank_fiber w sf = \<lparr>fiber_worker = Some w, current_stack_frame = Some sf, header = 0, alloc_low = 0, stack_low = 0\<rparr>"

definition blank_worker :: "nat worker" where
  "blank_worker = \<lparr>hyper_ht = None, extension = 0, ext_stack = 0, tail = 0, exc = 0, head = 0, ltq_limit = 8,
     shadow_stack = (\<lambda>_. 0)\<rparr>"

definition blank_local :: "nat local_state" where
  "blank_local = \<lparr>state = WORKER_SCHED, provably_good_steal = False, exiting = False, returning = False,
     rand_next = 0, wake_val = 0, lht = None, rht = None, pool = fiber_pool_init 65536 0 False\<rparr>"

definition blank_rts :: "nat rts" where
  "blank_rts = \<lparr>frames = (\<lambda>_. blank_frame), fibs = (\<lambda>f. blank_fiber 0 f), clos = (\<lambda>_. new_closure None),
     workers = (\<lambda>_. blank_worker), locals = (\<lambda>_. blank_local),
     busy = (\<lambda>_. \<lparr>bc_closure = None, bc_mutex = NO_WORKER\<rparr>),
     gpool = fiber_pool_init 65536 8 True, os = \<lparr>next_fiber = 100, mapped = []\<rparr>, next_closure = 10,
     root_closure = 0, root_closure_initialized = True, use_extension = False, tls_fh = (\<lambda>_. None)\<rparr>"

text \<open>Closure 0 waits at a sync for its children 1 and 2; child 1 returns on worker 0 with table 7, and
  \<open>right\<close> is the table deposited between the children.\<close>

definition family :: "nat option \<Rightarrow> nat rts" where
  "family right =
     upd_cl 0 (\<lambda>c. c\<lparr>cl_status := CLOSURE_SUSPENDED, cl_frame := Some 0, join_counter := 2, right_most_child := Some 2,
                 user_ht := Some 9\<rparr>)
     (upd_cl 1 (\<lambda>c. c\<lparr>cl_status := CLOSURE_RETURNING, cl_frame := Some 1, cl_fiber := Some 1, spawn_parent := Some 0,
                 right_sib := Some 2, right_ht := right\<rparr>)
     (upd_cl 2 (\<lambda>c. c\<lparr>cl_status := CLOSURE_RUNNING, spawn_parent := Some 0, left_sib := Some 1\<rparr>)
     (upd_fib 1 (current_stack_frame_update (\<lambda>_. Some 1))
     (upd_frame 1 (\<lambda>f. f\<lparr>fh := Some 1, frame_call_parent := Some 0\<rparr>)
     (upd_frame 0 (flags_update (\<lambda>_. CILK_FRAME_STOLEN))
     (upd_wk 0 (hyper_ht_update (\<lambda>_. Some 7)) blank_rts))))))"

text \<open>Worker 1 runs closure 3, which has never been stolen from; frames 5 and 6 are in its deque.\<close>

definition victim :: "nat rts" where
  "victim =
     upd_cl 3 (\<lambda>c. c\<lparr>cl_status := CLOSURE_RUNNING, cl_frame := Some 4, cl_fiber := Some 3, spawn_parent := Some 0,
                 cl_owner := 1\<rparr>)
     (upd_frame 5 (fh_update (\<lambda>_. Some 3))
     (upd_busy 1 (bc_closure_update (\<lambda>_. Some 3))
     (upd_wk 1 (\<lambda>k. k\<lparr>hyper_ht := Some 7, tail := 2, shadow_stack := (\<lambda>_. 0)(0 := 5, 1 := 6)\<rparr>) blank_rts)))"

lemma the_run: "m \<noteq> None \<Longrightarrow> m = Some (fst (the m), snd (the m))"
  by auto

lemmas run_simps = Let_def Closure_steal_def busy_trylock_def busy_peek_def closure_trylock_def do_dekker_on_def
  increment_exception_pointer_def assert_ownership_def assert_alienation_def busy_assert_ownership_def
  extract_top_spawning_closure_def promote_child_def promote_parent_def trivial_stacklet_def
  closure_create_def add_callee_def suspend_victim_def change_status_def set_status_def
  closure_unlock_def closure_lock_def checkmagic_def busy_xtract_def add_child_def double_link_children_def
  busy_set_def fiber_alloc_def cilk_fiber_allocate_from_pool_def cilk_fiber_allocate_def fiber_pool_init_def
  busy_unlock_def finish_promote_def make_ready_def setup_for_execution_def new_closure_def live_status_def
  Closure_return_def left_slot_def set_left_slot_def arrange_merge_def deposit_and_unlink_def leave_frame_def
  pass_fiber_up_def remove_child_def unlink_child_def closure_destroy_def release_parent_def
  provably_good_steal_maybe_def has_children_def get_worker_from_stack_def check_frame_magic_def
  Cilk_sync_def busy_lock_self_def busy_lock_def Closure_at_top_of_stack_def busy_unlock_self_def
  setup_for_sync_def fiber_dealloc_maybe_def fiber_dealloc_def cilk_fiber_deallocate_to_pool_def
  cilk_fiber_deallocate_def closure_suspend_def
  NO_WORKER_def EXCEPTION_INFINITY_def flag_defs frame_flag_simps

lemmas example_simps = family_def victim_def blank_rts_def blank_frame_def blank_fiber_def blank_worker_def
  blank_local_def

section \<open>The closure tree\<close>

text \<open>Adding a child appends it to the parent's list of children and changes nothing else than the
  sibling links.\<close>

theorem add_child_appends:
  assumes "child_row s p cs" "child \<notin> set cs" "child \<noteq> p"
    and "left_sib (clos s child) = None" "right_sib (clos s child) = None"
    and "spawn_parent (clos s child) = Some p" "cl_mutex (clos s p) = self" "cl_mutex (clos s child) \<noteq> self"
  shows "\<exists>s'. add_child self p child s = Some s' \<and> child_row s' p (cs @ [child]) \<and>
    (\<forall>c. c \<notin> insert p (insert child (set cs)) \<longrightarrow> clos s' c = clos s c)"
  using add_child_row [OF assms(1-8)] by blast

lemma family_row: "child_row (family r) 0 [1, 2]"
  by (simp add: child_row_def example_simps new_closure_def)

theorem add_child_appends_witness:
  "\<exists>s'. add_child 0 0 5 (upd_cl 0 (cl_mutex_update (\<lambda>_. 0)) (upd_cl 5 (spawn_parent_update (\<lambda>_. Some 0)) (family None)))
     = Some s' \<and> child_row s' 0 [1, 2, 5]"
proof -
  have "child_row (upd_cl 0 (cl_mutex_update (\<lambda>_. 0)) (upd_cl 5 (spawn_parent_update (\<lambda>_. Some 0)) (family None))) 0 [1, 2]"
    by (simp add: child_row_def example_simps new_closure_def)
  from add_child_appends [OF this, of 5 0] show ?thesis
    by (simp add: example_simps new_closure_def NO_WORKER_def) blast
qed

text \<open>Removing a child deletes it from the parent's list, wherever it stands, and leaves the
  others linked in order.\<close>

theorem remove_child_deletes:
  assumes "child_row s p (xs @ c # ys)" "cl_mutex (clos s p) = self" "cl_mutex (clos s c) = self"
    and "right_ht (clos s c) = None"
  shows "\<exists>s'. remove_child self p c s = Some s' \<and> child_row s' p (xs @ ys) \<and>
    left_sib (clos s' c) = None \<and> right_sib (clos s' c) = None \<and>
    (\<forall>d. d \<notin> insert p (set (xs @ c # ys)) \<longrightarrow> clos s' d = clos s d)"
  using remove_child_row [OF assms] by blast

theorem remove_child_deletes_witness:
  "\<exists>s'. remove_child 0 0 1 (upd_cl 0 (cl_mutex_update (\<lambda>_. 0)) (upd_cl 1 (cl_mutex_update (\<lambda>_. 0)) (family None)))
     = Some s' \<and> child_row s' 0 [2]"
proof -
  have "child_row (upd_cl 0 (cl_mutex_update (\<lambda>_. 0)) (upd_cl 1 (cl_mutex_update (\<lambda>_. 0)) (family None))) 0 ([] @ 1 # [2])"
    by (simp add: child_row_def example_simps new_closure_def)
  from remove_child_deletes [OF this, of 0] show ?thesis
    by (simp add: example_simps new_closure_def) blast
qed

section \<open>Returns\<close>

text \<open>C31: When a returning child finds tables on its left or right, they are taken over by the
  worker to be merged around the child's own table, and the serial order of all tables below the
  parent is unchanged; both closures are unlocked again and no active table moves.\<close>

theorem return_with_tables_keeps_serial_order:
  assumes "Closure_return w self c s = Some (res, s')" "child_row s p (xs @ c # ys)"
    and "left_slot p (left_sib (clos s c)) s \<noteq> None \<or> right_ht (clos s c) \<noteq> None"
  shows "res = Some c \<and> child_row s' p (xs @ c # ys) \<and>
    (\<forall>v. hyper_ht (workers s' v) = hyper_ht (workers s v)) \<and>
    serial s' p (act(c := opt_list (lht (locals s' w)) @ act c @ opt_list (rht (locals s' w)))) (xs @ c # ys)
      = serial s p act (xs @ c # ys) \<and>
    (\<forall>d. cl_mutex (clos s' d) = (if d = p \<or> d = c then NO_WORKER else cl_mutex (clos s d)))"
  using Closure_return_merge [OF assms] by blast

theorem return_with_tables_keeps_serial_order_witness:
  "\<exists>s'. Closure_return 0 0 1 (family (Some 8)) = Some (Some 1, s') \<and> rht (locals s' 0) = Some 8 \<and>
    serial s' 0 ((\<lambda>_. [])(1 := [7, 8])) [1, 2] = serial (family (Some 8)) 0 ((\<lambda>_. [])(1 := [7])) [1, 2]"
proof -
  obtain s' where run: "Closure_return 0 0 1 (family (Some 8)) = Some (Some 1, s')"
    and h: "lht (locals s' 0) = None" "rht (locals s' 0) = Some 8"
    by (simp add: run_simps example_simps)
  have row: "child_row (family (Some 8)) 0 ([] @ 1 # [2])" using family_row by simp
  show ?thesis
    using return_with_tables_keeps_serial_order [OF run row, of "(\<lambda>_. [])(1 := [7])"] run h
    by (simp add: example_simps)
qed



section \<open>Steals\<close>

text \<open>C6: A successful steal takes the oldest frame of the victim's deque: the stolen closure is
  running with that frame, marked stolen and unsynced; the victim's head moves by one; the victim goes
  on under a new child of the stolen closure, appended to its children, on the fiber it was on; in
  the serial order the victim's table stands for that child; and every lock is as it was before.\<close>

theorem steal_takes_oldest_frame:
  assumes "Closure_steal sp1 sp2 w self v s = Some (Some r, s')" "self \<noteq> NO_WORKER" "v \<noteq> w"
    and "bc_closure (busy s v) = Some cl" "cl < next_closure s" "user_ht (clos s cl) = None"
    and "child_row s cl cs" "\<forall>d \<in> set cs. d < next_closure s"
  shows "\<exists>child. (r = cl \<or> r = next_closure s) \<and> next_closure s \<le> child \<and> child \<noteq> r \<and>
    cl_frame (clos s' r) = Some (shadow_stack (workers s v) (head (workers s v))) \<and>
    stolen (frames s' (shadow_stack (workers s v) (head (workers s v)))) \<and>
    \<not> synced (frames s' (shadow_stack (workers s v) (head (workers s v)))) \<and>
    cl_status (clos s' r) = CLOSURE_RUNNING \<and>
    head (workers s' v) = head (workers s v) + 1 \<and> tail (workers s' v) = tail (workers s v) \<and>
    bc_closure (busy s' v) = Some child \<and> cl_fiber (clos s' child) = cl_fiber (clos s cl) \<and>
    child_row s' r ((if r = cl then cs else []) @ [child]) \<and>
    serial s' r (act(child := opt_list (hyper_ht (workers s' v)))) ((if r = cl then cs else []) @ [child]) =
      (if r = cl then serial s cl act cs else []) @ opt_list (hyper_ht (workers s v)) \<and>
    (\<forall>d < next_closure s. cl_mutex (clos s' d) = cl_mutex (clos s d)) \<and>
    cl_mutex (clos s' child) = NO_WORKER \<and> cl_mutex (clos s' r) = NO_WORKER \<and>
    (\<forall>u. bc_mutex (busy s' u) = bc_mutex (busy s u))"
proof (rule Closure_steal_effect [OF assms(1-5,7,8)], goal_cases)
  case (1 child)
  note E = 1
  let ?row = "if r = cl then cs else []" and ?h = "hyper_ht (workers s v)"
  have hv: "hyper_ht (workers s' v) = ?h" using E(17) by simp
  have nr: "row_from d (act(child := opt_list ?h)) r0 (xs @ [child]) = row_from d act r0 xs @ opt_list ?h @ opt_list (r0 child)"
    if "child \<notin> set xs" for d r0 xs
    using that by (induction xs arbitrary: d) auto
  have notin: "child \<notin> set ?row" using E(2) assms(8) by auto
  have "serial s' r (act(child := opt_list ?h)) (?row @ [child]) = (if r = cl then serial s cl act cs else []) @ opt_list ?h"
  proof (cases "r = cl")
    case True
    have "row_from (child_ht (clos s' cl)) act (\<lambda>c. right_ht (clos s' c)) cs =
          row_from (child_ht (clos s cl)) act (\<lambda>c. right_ht (clos s c)) cs"
      using E(20) assms(5,8) row_from_cong [of cs act act "\<lambda>c. right_ht (clos s' c)" "\<lambda>c. right_ht (clos s c)"] by simp
    moreover have "user_ht (clos s' cl) = None" using E(20) assms(5,6) by simp
    ultimately show ?thesis using True E(18) nr notin assms(6) by (simp add: serial_def)
  next
    case False
    then show ?thesis using E(18,19) nr [of "[]"] by (simp add: serial_def)
  qed
  then show ?case using E hv by (intro exI [of _ child]) simp
qed

lemma victim_row: "child_row victim 3 []"
  by (simp add: child_row_def example_simps new_closure_def)

text \<open>The thief's run, in stages: the locks, Dekker's protocol, the extraction.\<close>

definition victim_locked :: "nat rts" where
  "victim_locked = upd_cl 3 (cl_mutex_update (\<lambda>_. 0)) (upd_busy 1 (bc_mutex_update (\<lambda>_. 0)) victim)"

definition victim_dekkered :: "nat rts" where
  "victim_dekkered = upd_wk 1 (exc_update (\<lambda>e. e + 1)) victim_locked"

lemma victim_extracted:
  "case extract_top_spawning_closure 0 0 1 3 0 1 victim_dekkered of None \<Rightarrow> False
   | Some (r, x) \<Rightarrow> r = 10 \<and> cl_frame (clos x 10) = Some 5 \<and> cl_mutex (clos x 10) = 0 \<and> stolen (frames x 5) \<and>
       cl_fiber (clos x 10) = Some 100"
  by code_simp

lemma victim_stolen: "\<exists>s'. Closure_steal False False 0 0 1 victim = Some (Some 10, s')"
proof -
  have locks: "busy_trylock False 0 1 victim = (True, upd_busy 1 (bc_mutex_update (\<lambda>_. 0)) victim)"
    "closure_trylock False 0 3 (upd_busy 1 (bc_mutex_update (\<lambda>_. 0)) victim) = (True, victim_locked)"
    "busy_peek 0 1 (upd_busy 1 (bc_mutex_update (\<lambda>_. 0)) victim) = Some (Some 3)"
    "cl_status (clos victim_locked 3) = CLOSURE_RUNNING" "\<not> head (workers victim 1) \<ge> tail (workers victim 1)"
    "do_dekker_on 0 1 3 victim_locked = Some (Some 0, victim_dekkered)"
    by (simp_all add: example_simps run_simps victim_locked_def victim_dekkered_def EXCEPTION_INFINITY_def)
  obtain x where "extract_top_spawning_closure 0 0 1 3 0 1 victim_dekkered = Some (10, x)" "cl_frame (clos x 10) = Some 5"
    "cl_mutex (clos x 10) = 0" "stolen (frames x 5)" "cl_fiber (clos x 10) = Some 100"
    using victim_extracted by (auto split: option.splits)
  then show ?thesis using locks
    by (simp add: Closure_steal_def busy_unlock_def finish_promote_def assert_ownership_def make_ready_def
        set_status_def setup_for_execution_def closure_unlock_def checkmagic_def Let_def)
qed

theorem steal_takes_oldest_frame_witness:
  "\<exists>s'. Closure_steal False False 0 0 1 victim = Some (Some 10, s') \<and> cl_frame (clos s' 10) = Some 5 \<and>
    head (workers s' 1) = 1 \<and> stolen (frames s' 5)"
proof -
  obtain s' where run: "Closure_steal False False 0 0 1 victim = Some (Some 10, s')" using victim_stolen by (rule exE)
  have "bc_closure (busy victim 1) = Some 3" "3 < next_closure victim" "user_ht (clos victim 3) = None"
    by (simp_all add: example_simps new_closure_def)
  note fact = steal_takes_oldest_frame [OF run _ _ this victim_row, of "\<lambda>_. []"]
  have "cl_frame (clos s' 10) = Some (shadow_stack (workers victim 1) (head (workers victim 1)))"
    by (rule exE [OF fact]) (simp_all add: NO_WORKER_def)
  moreover have "stolen (frames s' (shadow_stack (workers victim 1) (head (workers victim 1))))"
    by (rule exE [OF fact]) (simp_all add: NO_WORKER_def)
  moreover have "head (workers s' 1) = head (workers victim 1) + 1"
    by (rule exE [OF fact]) (simp_all add: NO_WORKER_def)
  ultimately show ?thesis using run by (simp add: example_simps)
qed

text \<open>A thief whose victim's busy closure is the root closure before it runs (ready or suspended)
  gives up without a closure, but unlike on every other failing path it keeps both the lock of the
  victim's busy closure and the lock of the root closure.\<close>

theorem steal_of_starting_root_keeps_locks:
  assumes "head (workers s v) < tail (workers s v)"
    and "bc_mutex (busy s v) = NO_WORKER" "bc_closure (busy s v) = Some (root_closure s)"
    and "cl_mutex (clos s (root_closure s)) = NO_WORKER"
    and "cl_status (clos s (root_closure s)) \<in> {CLOSURE_READY, CLOSURE_SUSPENDED}"
  shows "\<exists>s'. Closure_steal False False w self v s = Some (None, s') \<and>
    bc_mutex (busy s' v) = self \<and> cl_mutex (clos s' (root_closure s)) = self"
  using assms
  by (auto simp: Closure_steal_def busy_trylock_def busy_peek_def busy_assert_ownership_def
      closure_trylock_def live_status_def cilk_assert_def Let_def)

definition starting :: "nat rts" where
  "starting = upd_cl 0 (cl_status_update (\<lambda>_. CLOSURE_READY))
     (upd_busy 1 (bc_closure_update (\<lambda>_. Some 0)) (upd_wk 1 (tail_update (\<lambda>_. 1)) blank_rts))"

theorem steal_of_starting_root_keeps_locks_witness:
  "\<exists>s'. Closure_steal False False 0 0 1 starting = Some (None, s') \<and> bc_mutex (busy s' 1) = 0 \<and>
    cl_mutex (clos s' 0) = 0"
proof -
  have root: "root_closure starting = 0" by (simp add: starting_def example_simps)
  show ?thesis
    using steal_of_starting_root_keeps_locks [of starting 1 0 0]
    by (simp add: root) (simp add: starting_def example_simps new_closure_def NO_WORKER_def)
qed

section \<open>The deque of the runtime\<close>

text \<open>The victim about to leave the helper frame 7 of its last spawn, a deque in the same state, and the
  victim that found \<open>exc\<close> above its tail.\<close>

definition popping :: "nat rts" where
  "popping = upd_fib 3 (fiber_worker_update (\<lambda>_. Some 1))
     (upd_frame 7 (\<lambda>f. f\<lparr>fh := Some 3, flags := CILK_FRAME_DETACHED\<rparr>) victim)"

definition victim_deque :: deque where
  "victim_deque = (initial_deque 8)\<lparr>tl_ptr := 2, slots := (\<lambda>_. 0)(0 := 0, 1 := 1), pushed := 2\<rparr>"

definition robbed :: "nat rts" where
  "robbed = upd_wk 1 (\<lambda>k. k\<lparr>tail := 0, head := 1, exc := 1\<rparr>) popping"

lemma popping_pointers: "same_pointers 1 popping victim_deque" "get_worker_from_stack 7 popping = Some 1"
  by (simp_all add: popping_def example_simps same_pointers_def victim_deque_def initial_deque_def get_worker_from_stack_def)

text \<open>C33: The epilogue of a spawn helper is a run of the victim's steps: it decrements the tail, and
  calls the exception handler exactly when the victim finds \<open>exc > tail\<close>.\<close>

theorem leave_frame_helper_takes_victim_steps:
  assumes "leave_frame_helper sf parent spawner s = Some (raised, s')"
    and "get_worker_from_stack sf s = Some w" "same_pointers w s d" "vpc d = V_run" "0 < tail (workers s w)"
  shows "\<exists>d'. victim_step\<^sup>*\<^sup>* d d' \<and> same_pointers w s' d' \<and> vpc d' = (if raised then V_exception else V_run)"
proof -
  define d1 where "d1 = d\<lparr>tl_ptr := tl_ptr d - 1, vpc := V_popped\<rparr>"
  define d2 where "d2 = (if ex_ptr d > tl_ptr d - 1 then d1\<lparr>vpc := V_exception\<rparr>
     else d1\<lparr>popped := slots d (tl_ptr d - 1) # popped d, vpc := V_run\<rparr>)"
  have a: "victim_step d d1" unfolding d1_def by (rule leave_tail) (use assms in \<open>simp_all add: same_pointers_def\<close>)
  have b: "victim_step d1 d2"
    using leave_fast [of d1] leave_slow [of d1] by (auto simp: d1_def d2_def)
  have c: "same_pointers w s' d2 \<and> vpc d2 = (if raised then V_exception else V_run)"
    using leave_frame_helper_pointers [OF assms(1,2)] assms(3) by (simp add: same_pointers_def d2_def d1_def)
  show ?thesis using two_steps [of _ d d1 d2, OF a b] c by (intro exI [of _ d2] conjI) simp_all
qed

theorem leave_frame_helper_takes_victim_steps_witness:
  "\<exists>s' d'. leave_frame_helper 7 6 True popping = Some (False, s') \<and> victim_step\<^sup>*\<^sup>* victim_deque d' \<and>
    same_pointers 1 s' d' \<and> vpc d' = V_run"
proof -
  have "\<exists>s'. leave_frame_helper 7 6 True popping = Some (False, s')"
    by (simp add: leave_frame_helper_def popping_def example_simps Let_def get_worker_from_stack_def
        check_frame_magic_def frame_flag_simps flag_defs)
  then obtain s' where run: "leave_frame_helper 7 6 True popping = Some (False, s')" by (rule exE)
  have "vpc victim_deque = V_run" "0 < tail (workers popping 1)"
    by (simp_all add: victim_deque_def initial_deque_def popping_def example_simps)
  from leave_frame_helper_takes_victim_steps [OF run popping_pointers(2,1) this] run show ?thesis by auto
qed

text \<open>C34: The thief's half of Dekker's protocol is a run of the thief's steps and returns the head
  exactly when the thief has won.\<close>

theorem do_dekker_takes_thief_steps:
  assumes "do_dekker_on self v cl s = Some (r, s')"
    and "same_pointers v s d" "tpc d = T_locked" "exc (workers s v) + 1 < EXCEPTION_INFINITY"
  shows "\<exists>d'. thief_step\<^sup>*\<^sup>* d d' \<and> same_pointers v s' d' \<and>
    (case r of Some h \<Rightarrow> tpc d' = T_won \<and> h = hd_ptr d' | None \<Rightarrow> tpc d' = T_idle)"
proof -
  define d1 where "d1 = d\<lparr>ex_ptr := ex_ptr d + 1, tpc := T_announced\<rparr>"
  define d2 where "d2 = (if hd_ptr d \<ge> tl_ptr d then d1\<lparr>ex_ptr := ex_ptr d, tpc := T_idle\<rparr> else d1\<lparr>tpc := T_won\<rparr>)"
  have a: "thief_step d d1"
    using thief_announce [of d] assms by (simp add: d1_def same_pointers_def)
  have b: "thief_step d1 d2"
    using thief_win [of d1] thief_fail [of d1] assms by (auto simp: d1_def d2_def same_pointers_def)
  have c: "same_pointers v s' d2 \<and> (case r of Some h \<Rightarrow> tpc d2 = T_won \<and> h = hd_ptr d2 | None \<Rightarrow> tpc d2 = T_idle)"
    using do_dekker_pointers [OF assms(1,4)] assms(2) by (simp add: same_pointers_def d2_def d1_def)
  show ?thesis using two_steps [of _ d d1 d2, OF a b] c by (intro exI [of _ d2] conjI) simp_all
qed

theorem do_dekker_takes_thief_steps_witness:
  "\<exists>s' d'. do_dekker_on 0 1 3 victim_locked = Some (Some 0, s') \<and> thief_step\<^sup>*\<^sup>* (victim_deque\<lparr>tpc := T_locked\<rparr>) d' \<and>
    same_pointers 1 s' d' \<and> tpc d' = T_won"
proof -
  have run: "do_dekker_on 0 1 3 victim_locked = Some (Some 0, victim_dekkered)"
    by (simp add: example_simps run_simps victim_locked_def victim_dekkered_def EXCEPTION_INFINITY_def)
  have p: "same_pointers 1 victim_locked (victim_deque\<lparr>tpc := T_locked\<rparr>)" "tpc (victim_deque\<lparr>tpc := T_locked\<rparr>) = T_locked"
    "exc (workers victim_locked 1) + 1 < EXCEPTION_INFINITY"
    by (simp_all add: victim_locked_def example_simps same_pointers_def victim_deque_def initial_deque_def EXCEPTION_INFINITY_def)
  from do_dekker_takes_thief_steps [OF run p] run show ?thesis by auto
qed

text \<open>C35: The exception handler is a run of the handler's steps: it gives the closure back to the
  runtime exactly when the victim's frame was stolen.\<close>

theorem exception_handler_takes_handler_steps:
  assumes "exception_handler save_exn w exn s = Some (r, s')"
    and "same_pointers w s d" "vpc d = V_exception" "tpc d = T_idle"
  shows "\<exists>d'. handler_step\<^sup>*\<^sup>* d d' \<and> same_pointers w s' d' \<and> vpc d' = (if r = None then V_run else V_lost)"
proof -
  define d1 where "d1 = d\<lparr>ex_ptr := hd_ptr d, vpc := V_locked\<rparr>"
  define d2 where "d2 = (if hd_ptr d > tl_ptr d then d1\<lparr>vpc := V_lost\<rparr>
     else d1\<lparr>popped := slots d (tl_ptr d) # popped d, vpc := V_run\<rparr>)"
  have a: "handler_step d d1" unfolding d1_def by (rule handler_lock) (use assms in simp_all)
  have b: "handler_step d1 d2"
    using handler_stolen [of d1] handler_false_alarm [of d1] by (auto simp: d1_def d2_def)
  have c: "same_pointers w s' d2 \<and> vpc d2 = (if r = None then V_run else V_lost)"
    using exception_handler_pointers [OF assms(1)] assms(2) by (simp add: same_pointers_def d2_def d1_def)
  show ?thesis using two_steps [of _ d d1 d2, OF a b] c by (intro exI [of _ d2] conjI) simp_all
qed

theorem exception_handler_takes_handler_steps_witness:
  "\<exists>s' d'. exception_handler (\<lambda>_ h. h) 1 0 robbed = Some (Some 3, s') \<and>
    handler_step\<^sup>*\<^sup>* (victim_deque\<lparr>tl_ptr := 0, hd_ptr := 1, ex_ptr := 1, vpc := V_exception\<rparr>) d' \<and>
    same_pointers 1 s' d' \<and> vpc d' = V_lost"
proof -
  have "\<exists>s'. exception_handler (\<lambda>_ h. h) 1 0 robbed = Some (Some 3, s')"
    by (simp add: exception_handler_def reset_exception_pointer_def frame_was_stolen_def robbed_def popping_def
        example_simps run_simps)
  then obtain s' where run: "exception_handler (\<lambda>_ h. h) 1 0 robbed = Some (Some 3, s')" by (rule exE)
  let ?d = "victim_deque\<lparr>tl_ptr := 0, hd_ptr := 1, ex_ptr := 1, vpc := V_exception\<rparr>"
  have p: "same_pointers 1 robbed ?d" "vpc ?d = V_exception" "tpc ?d = T_idle"
    by (simp_all add: robbed_def popping_def example_simps same_pointers_def victim_deque_def initial_deque_def)
  from exception_handler_takes_handler_steps [OF run p] run show ?thesis by auto
qed

section \<open>A spawn that nobody steals\<close>

text \<open>The prologue, the detach and the epilogue of a spawn helper undo each other when no thief
  comes in between: the fiber is back on the parent's frame, the deque pointers are as before, the
  worker's extension and extension stack too, the helper's flags are clear and it has no call parent; no closure, lock, or other worker changes; and
  the exception handler runs only if \<open>exc\<close> was above the tail before.\<close>

theorem spawn_without_steal_restores:
  assumes "enter_frame_helper sf parent True s = Some s1" "detach sf parent s1 = Some s2"
    and "leave_frame_helper sf parent True s2 = Some (raised, s3)"
    and "sf \<noteq> parent" "fh (frames s parent) = Some f" "current_stack_frame (fibs s f) = Some parent"
    and "fiber_worker (fibs s f) = Some w"
  shows "fibs s3 = fibs s \<and> clos s3 = clos s \<and> busy s3 = busy s \<and> locals s3 = locals s \<and>
    head (workers s3 w) = head (workers s w) \<and> tail (workers s3 w) = tail (workers s w) \<and>
    exc (workers s3 w) = exc (workers s w) \<and> hyper_ht (workers s3 w) = hyper_ht (workers s w) \<and>
    extension (workers s3 w) = extension (workers s w) \<and> ext_stack (workers s3 w) = ext_stack (workers s w) \<and>
    shadow_stack (workers s3 w) (tail (workers s w)) = parent \<and>
    (\<forall>v. v \<noteq> w \<longrightarrow> workers s3 v = workers s v) \<and> (\<forall>g. g \<noteq> sf \<and> g \<noteq> parent \<longrightarrow> frames s3 g = frames s g) \<and>
    flags (frames s3 sf) = 0 \<and> frame_call_parent (frames s3 sf) = None \<and>
    flags (frames s3 parent) = flags (frames s parent) \<and>
    raised = (exc (workers s w) > tail (workers s w))"
proof -
  define t where "t = (if use_extension s
     then upd_wk w (\<lambda>wk. wk\<lparr>ext_stack := push_pedigree_frame (ext_stack wk),
              extension := push_pedigree_frame (ext_stack wk)\<rparr>)
            (upd_frame parent (frame_extension_update (\<lambda>_. extension (workers s1 w))) s1) else s1)"
  have s1: "s1 = upd_fib f (current_stack_frame_update (\<lambda>_. Some sf)) (upd_frame sf (frame_call_parent_update (\<lambda>_. Some parent))
      (upd_frame sf (\<lambda>fr. fr\<lparr>flags := 0, magic := frame_magic, fh := Some f\<rparr>) s))"
    using assms(1,5) by (simp add: enter_frame_helper_def Let_def)
  have w1: "get_worker_from_stack sf s1 = Some w" "check_frame_magic (frames s1 sf)"
    using assms(7) by (simp_all add: s1 get_worker_from_stack_def check_frame_magic_def)
  have s2: "s2 = upd_wk w (\<lambda>wk. wk\<lparr>shadow_stack := (shadow_stack wk)(tail wk := parent), tail := tail wk + 1\<rparr>)
      (upd_frame sf (\<lambda>fr. fr\<lparr>flags := flags fr OR CILK_FRAME_DETACHED\<rparr>) t)"
    using assms(2) w1 by (auto simp: detach_def Let_def t_def s1 split: if_splits)
  have w2: "get_worker_from_stack sf s2 = Some w" "check_frame_magic (frames s2 sf)" "fh (frames s2 sf) = Some f"
    using w1 assms(4) by (simp_all add: s2 t_def s1 get_worker_from_stack_def check_frame_magic_def)
  have fl: "(CILK_FRAME_DETACHED AND NOT CILK_FRAME_DETACHED) = 0" by simp
  show ?thesis using assms(3) w2 assms(4,6)
    by (auto simp: leave_frame_helper_def Let_def s2 t_def s1 fl fun_upd_idem_iff push_pedigree_frame_def
        extend_return_from_spawn_def pop_pedigree_frame_def split: if_splits)
qed

definition spawning :: "nat rts" where
  "spawning = upd_fib 3 (\<lambda>f. f\<lparr>fiber_worker := Some 1, current_stack_frame := Some 6\<rparr>)
     (upd_frame 6 (fh_update (\<lambda>_. Some 3)) victim)"

theorem spawn_without_steal_restores_witness:
  "\<exists>s1 s2 s3. enter_frame_helper 7 6 True spawning = Some s1 \<and> detach 7 6 s1 = Some s2 \<and>
     leave_frame_helper 7 6 True s2 = Some (False, s3) \<and> fibs s3 = fibs spawning \<and> tail (workers s3 1) = 2"
proof -
  have "\<exists>s1 s2 s3. enter_frame_helper 7 6 True spawning = Some s1 \<and> detach 7 6 s1 = Some s2 \<and>
     leave_frame_helper 7 6 True s2 = Some (False, s3)"
    by (simp add: leave_frame_helper_def enter_frame_helper_def detach_def spawning_def example_simps Let_def
        get_worker_from_stack_def check_frame_magic_def frame_flag_simps flag_defs)
  then obtain s1 s2 s3 where run: "enter_frame_helper 7 6 True spawning = Some s1" "detach 7 6 s1 = Some s2"
    "leave_frame_helper 7 6 True s2 = Some (False, s3)" by blast
  have "(7::nat) \<noteq> 6" "fh (frames spawning 6) = Some 3" "current_stack_frame (fibs spawning 3) = Some 6"
    "fiber_worker (fibs spawning 3) = Some 1" "tail (workers spawning 1) = 2"
    by (simp_all add: spawning_def example_simps)
  with spawn_without_steal_restores [OF run this(1-4)] run show ?thesis by auto
qed

section \<open>Syncs\<close>

text \<open>C19: A sync passes exactly when the closure has no outstanding children.  If it passes, the frame
  is synced, on the fiber its last child left, with the children's table on the left of the active
  one; if not, the closure is suspended without a fiber, off the worker, with the active table parked
  in it.  Both locks are released either way.\<close>

theorem sync_passes_iff_no_children:
  assumes "Cilk_sync w frame s = Some (ready, s')" "bc_closure (busy s w) = Some t"
  shows "(ready \<longleftrightarrow> join_counter (clos s t) = 0) \<and>
    (ready \<longrightarrow> synced (frames s' frame) \<and> cl_status (clos s' t) = CLOSURE_RUNNING \<and>
       cl_fiber (clos s' t) = fiber_child (clos s t) \<and> hyper_ht (workers s' w) = hyper_ht (workers s w) \<and>
       child_ht (clos s' t) = None \<and>
       (child_ht (clos s t) \<noteq> None \<longrightarrow> lht (locals s' w) = child_ht (clos s t))) \<and>
    (\<not> ready \<longrightarrow> cl_status (clos s' t) = CLOSURE_SUSPENDED \<and> cl_fiber (clos s' t) = None \<and>
       bc_closure (busy s' w) = None \<and> hyper_ht (workers s' w) = None \<and>
       user_ht (clos s' t) = hyper_ht (workers s w) \<and> child_ht (clos s' t) = child_ht (clos s t)) \<and>
    (\<forall>d. cl_mutex (clos s' d) = cl_mutex (clos s d)) \<and> (\<forall>v. bc_mutex (busy s' v) = bc_mutex (busy s v))"
proof (cases ready)
  case True
  then show ?thesis using Cilk_sync_result [OF assms] Cilk_sync_ready [OF _ assms(2), of frame s'] assms(1) by simp
next
  case False
  then show ?thesis using Cilk_sync_result [OF assms] Cilk_sync_waits [OF _ assms(2), of frame s'] assms(1) by simp
qed

text \<open>Worker 0 at a sync of closure 3, with one child outstanding.\<close>

definition at_sync :: "nat rts" where
  "at_sync =
     upd_cl 3 (\<lambda>c. c\<lparr>cl_status := CLOSURE_RUNNING, cl_frame := Some 4, cl_fiber := Some 3, join_counter := 1\<rparr>)
     (upd_busy 0 (bc_closure_update (\<lambda>_. Some 3))
     (upd_frame 4 (flags_update (\<lambda>_. 3))
     (upd_wk 0 (hyper_ht_update (\<lambda>_. Some 7)) blank_rts)))"

theorem sync_passes_iff_no_children_witness:
  "\<exists>s'. Cilk_sync 0 4 at_sync = Some (False, s') \<and> user_ht (clos s' 3) = Some 7 \<and> cl_status (clos s' 3) = CLOSURE_SUSPENDED"
proof -
  have "map_option fst (Cilk_sync 0 4 at_sync) = Some False" by code_simp
  then obtain s' where run: "Cilk_sync 0 4 at_sync = Some (False, s')" by auto
  have "bc_closure (busy at_sync 0) = Some 3" by (simp add: at_sync_def)
  from sync_passes_iff_no_children [OF run this] run show ?thesis
    by (simp add: at_sync_def)
qed

section \<open>Reductions\<close>





end
