(* ===== verification/Worker_Coord.thy ===== *)
theory Worker_Coord
  imports Fiber_Pool
begin

text \<open>
  The state shared by all workers and the routines that put thieves to sleep and wake them
  (\<^verbatim>\<open>runtime/global.h\<close>, \<^verbatim>\<open>runtime/global.cpp\<close>): the options read from the environment, the packed counter
  of disengaged and sentinel workers, the two maps between workers and indices, and the number of
  thieves asked to wake up.

  A compare-and-swap loop runs against other threads.  What they do between its load and its swap is a
  list of events, one per attempt: they write a value, or the weak compare-and-swap fails for no
  reason.  When the list is empty nobody interferes.  \<open>None\<close> is a failed assertion, an access out of
  bounds, or a wait that nobody ends.
\<close>

section \<open>State\<close>

record rts_options =
  stacksize :: u64
  nproc :: u32
  deqdepth :: u32
  fiber_pool_cap :: u32

datatype event_code = CILKIFY | UNCILKIFY | WAIT_CILKIFIED | WAIT_DISENGAGED | MORE_THIEVES | ALL_THIEVES

record scheduler_event =
  ev_time :: u64
  ev_code :: event_code
  ev_data :: "32 word"
  ev_worker :: worker_id

record global_state =
  options :: rts_options
  nworkers :: u32
  workers_started :: bool
  cilkified :: bool
  is_done :: bool
  terminating :: bool
  index_to_worker :: "worker_id list"
  worker_to_index :: "u32 list"
  index_lock :: bool
  disengaged_sentinel :: u64
  disengaged_thieves :: u32
  clock :: u64
  event_index :: u64
  events :: "scheduler_event list"

definition GET_DISENGAGED :: "u64 \<Rightarrow> u64" where
  "GET_DISENGAGED d = drop_bit 32 d"

definition GET_SENTINEL :: "u64 \<Rightarrow> u64" where
  "GET_SENTINEL d = d AND 0xffffffff"

definition DISENGAGED_SENTINEL :: "u64 \<Rightarrow> u32 \<Rightarrow> u64" where
  "DISENGAGED_SENTINEL a b = push_bit 32 a OR ucast b"

text \<open>An array access that the program may only make within bounds.\<close>

definition at_index :: "'a list \<Rightarrow> u32 \<Rightarrow> 'a option" where
  "at_index xs i = (if unat i < length xs then Some (xs ! unat i) else None)"

definition put_index :: "'a list \<Rightarrow> u32 \<Rightarrow> 'a \<Rightarrow> 'a list option" where
  "put_index xs i x = (if unat i < length xs then Some (xs[unat i := x]) else None)"

section \<open>Options\<close>

definition DEFAULT_OPTIONS :: rts_options where
  "DEFAULT_OPTIONS = \<lparr>stacksize = push_bit 20 1, nproc = 0, deqdepth = 1024, fiber_pool_cap = 8\<rparr>"

text \<open>\<open>strtol(s, NULL, 0)\<close>: white space, a sign, the base from the prefix, the longest run of digits, and
  saturation at the bounds of \<open>long\<close>.\<close>

definition is_space :: "char \<Rightarrow> bool" where
  "is_space c \<longleftrightarrow> (of_char c :: nat) \<in> {9, 10, 11, 12, 13, 32}"

definition digit_value :: "char \<Rightarrow> nat" where
  "digit_value c = (let n = of_char c in
     if 48 \<le> n \<and> n \<le> 57 then n - 48
     else if 97 \<le> n \<and> n \<le> 122 then n - 87
     else if 65 \<le> n \<and> n \<le> 90 then n - 55 else 36)"

fun digits :: "nat \<Rightarrow> int \<Rightarrow> string \<Rightarrow> int" where
  "digits b acc (c # s) = (if digit_value c < b then digits b (acc * int b + int (digit_value c)) s else acc)"
| "digits b acc [] = acc"

fun magnitude :: "string \<Rightarrow> int" where
  "magnitude (CHR ''0'' # x # c # s) =
     (if (x = CHR ''x'' \<or> x = CHR ''X'') \<and> digit_value c < 16 then digits 16 0 (c # s)
      else digits 8 0 (x # c # s))"
| "magnitude (CHR ''0'' # s) = digits 8 0 s"
| "magnitude s = digits 10 0 s"

definition saturate_long :: "int \<Rightarrow> int" where
  "saturate_long v = max (- (2 ^ 63)) (min (2 ^ 63 - 1) v)"

definition strtol :: "string \<Rightarrow> int" where
  "strtol s = saturate_long
     (case dropWhile is_space s of
        [] \<Rightarrow> 0
      | c # r \<Rightarrow> if c = CHR ''-'' then - magnitude r else if c = CHR ''+'' then magnitude r else magnitude (c # r))"

definition env_get_int :: "(string \<Rightarrow> string option) \<Rightarrow> string \<Rightarrow> int \<Rightarrow> int" where
  "env_get_int getenv var unset = (case getenv var of None \<Rightarrow> unset | Some s \<Rightarrow> strtol s)"

definition upd_options :: "(rts_options \<Rightarrow> rts_options) \<Rightarrow> global_state \<Rightarrow> global_state" where
  "upd_options f g = g\<lparr>options := f (options g)\<rparr>"

definition set_stacksize :: "global_state \<Rightarrow> u64 \<Rightarrow> global_state option" where
  "set_stacksize g n = do {
     cilk_assert (\<not> workers_started g);
     cilk_assert (n \<ge> 16384);
     cilk_assert (n \<le> 100 * 1024 * 1024);
     Some (upd_options (stacksize_update (\<lambda>_. n)) g)
   }"

definition set_deqdepth :: "global_state \<Rightarrow> u32 \<Rightarrow> global_state option" where
  "set_deqdepth g n = do {
     cilk_assert (\<not> workers_started g);
     cilk_assert (n \<ge> 1);
     cilk_assert (n \<le> 99999);
     Some (upd_options (deqdepth_update (\<lambda>_. n)) g)
   }"

definition set_fiber_pool_cap :: "global_state \<Rightarrow> u32 \<Rightarrow> global_state option" where
  "set_fiber_pool_cap g n = do {
     cilk_assert (\<not> workers_started g);
     cilk_assert (n \<le> 999999);
     Some (upd_options (fiber_pool_cap_update (\<lambda>_. n)) g)
   }"

definition set_nworkers :: "global_state \<Rightarrow> u32 \<Rightarrow> global_state option" where
  "set_nworkers g n = do {
     cilk_assert (\<not> workers_started g);
     cilk_assert (n \<le> nproc (options g));
     cilk_assert (n > 0);
     Some (g\<lparr>nworkers := n\<rparr>)
   }"

text \<open>\<open>cores\<close> is the size of the process's affinity mask, 0 if it cannot be read; \<open>online\<close> is
  \<open>sysconf(_SC_NPROCESSORS_ONLN)\<close>.\<close>

definition parse_nproc :: "int \<Rightarrow> int \<Rightarrow> int \<Rightarrow> global_state \<Rightarrow> global_state option" where
  "parse_nproc proc_override cores online g =
     (if nproc (options g) = 0 then
        Some (if proc_override > 0 then upd_options (nproc_update (\<lambda>_. word_of_int proc_override)) g
              else if cores > 0 then upd_options (nproc_update (\<lambda>_. word_of_int cores)) g
              else if cores = 0 \<and> online > 0 then upd_options (nproc_update (\<lambda>_. word_of_int online)) g
              else g)
      else do {
        cilk_assert (nproc (options g) < 10000);
        Some g
      })"

definition parse_rts_environment ::
    "(string \<Rightarrow> string option) \<Rightarrow> int \<Rightarrow> int \<Rightarrow> global_state \<Rightarrow> global_state option" where
  "parse_rts_environment getenv cores online g = do {
     let stack = (word_of_int (env_get_int getenv ''CILK_STACKSIZE'' 0) :: u64);
     g1 \<leftarrow> (if stack > 0 then set_stacksize g stack else Some g);
     let depth = (word_of_int (env_get_int getenv ''CILK_DEQDEPTH'' 0) :: u32);
     g2 \<leftarrow> (if depth > 0 then set_deqdepth g1 depth else Some g1);
     let cap = (word_of_int (env_get_int getenv ''CILK_FIBER_POOL'' (-1)) :: u32);
     g3 \<leftarrow> (if cap = 0 \<or> sint cap > 1 then set_fiber_pool_cap g2 cap else Some g2);
     parse_nproc (env_get_int getenv ''CILK_NWORKERS'' 0) cores online g3
   }"

definition global_state_allocate :: "u64 \<Rightarrow> global_state" where
  "global_state_allocate now = \<lparr>options = \<lparr>stacksize = 0, nproc = 0, deqdepth = 0, fiber_pool_cap = 0\<rparr>,
     nworkers = 0, workers_started = False, cilkified = False, is_done = False, terminating = False,
     index_to_worker = [], worker_to_index = [], index_lock = False, disengaged_sentinel = 0,
     disengaged_thieves = 0, clock = now, event_index = 0,
     events = replicate 1024 \<lparr>ev_time = 0, ev_code = CILKIFY, ev_data = 0, ev_worker = 0\<rparr>\<rparr>"

definition global_state_init ::
    "(string \<Rightarrow> string option) \<Rightarrow> int \<Rightarrow> int \<Rightarrow> u64 \<Rightarrow> global_state option" where
  "global_state_init getenv cores online now = do {
     let g = (global_state_allocate now)\<lparr>options := DEFAULT_OPTIONS\<rparr>;
     g1 \<leftarrow> parse_rts_environment getenv cores online g;
     let active_size = nproc (options g1);
     cilk_assert (active_size > 0);
     Some (g1\<lparr>nworkers := active_size, workers_started := False, is_done := False, cilkified := False,
        disengaged_sentinel := 0, terminating := False,
        index_to_worker := replicate (unat active_size) 0, worker_to_index := replicate (unat active_size) 0\<rparr>)
   }"

text \<open>The identity maps that \<open>workers_init\<close> writes.\<close>

definition init_index_maps :: "global_state \<Rightarrow> global_state" where
  "init_index_maps g =
     g\<lparr>index_to_worker := map of_nat [0..<unat (nproc (options g))],
       worker_to_index := map of_nat [0..<unat (nproc (options g))]\<rparr>"

text \<open>The workers visited by \<open>for_each_worker\<close> and \<open>for_each_worker_rev\<close>: those initialised.\<close>

definition for_each_worker :: "(nat \<Rightarrow> bool) \<Rightarrow> (nat \<Rightarrow> 's \<Rightarrow> 's) \<Rightarrow> global_state \<Rightarrow> 's \<Rightarrow> 's" where
  "for_each_worker valid fn g s =
     fold (\<lambda>i s. if valid i then fn i s else s) [0..<unat (nproc (options g))] s"

definition for_each_worker_rev :: "(nat \<Rightarrow> bool) \<Rightarrow> (nat \<Rightarrow> 's \<Rightarrow> 's) \<Rightarrow> global_state \<Rightarrow> 's \<Rightarrow> 's" where
  "for_each_worker_rev valid fn g s =
     fold (\<lambda>i s. if valid i then fn i s else s) (rev [0..<unat (nproc (options g))]) s"

section \<open>Events and the cilkified flag\<close>

definition record_event :: "event_code \<Rightarrow> 32 word \<Rightarrow> worker_id \<Rightarrow> global_state \<Rightarrow> global_state" where
  "record_event code dat self g =
     g\<lparr>events := (events g)[unat (event_index g mod 1024) :=
          \<lparr>ev_time = clock g, ev_code = code, ev_data = dat, ev_worker = self\<rparr>],
       event_index := event_index g + 1\<rparr>"

definition set_cilkified :: "global_state \<Rightarrow> global_state" where
  "set_cilkified g = (record_event CILKIFY 0 NO_WORKER g)\<lparr>cilkified := True\<rparr>"

definition signal_uncilkified :: "global_state \<Rightarrow> global_state" where
  "signal_uncilkified g = (record_event UNCILKIFY 0 NO_WORKER g)\<lparr>cilkified := False\<rparr>"

definition BUSY_LOOP_SPIN :: nat where
  "BUSY_LOOP_SPIN = 4096"

text \<open>The boss waits for the flag: \<open>seen\<close> are the values the other threads give it before each load of
  the spin loop, then before each return of the wait.\<close>

fun spin_while_cilkified :: "nat \<Rightarrow> bool list \<Rightarrow> global_state \<Rightarrow> bool \<times> bool list \<times> global_state" where
  "spin_while_cilkified 0 seen g = (False, seen, g)"
| "spin_while_cilkified (Suc n) [] g = (if \<not> cilkified g then (True, [], g) else spin_while_cilkified n [] g)"
| "spin_while_cilkified (Suc n) (b # seen) g =
     (if \<not> b then (True, seen, g\<lparr>cilkified := b\<rparr>) else spin_while_cilkified n seen (g\<lparr>cilkified := b\<rparr>))"

fun sleep_while_cilkified :: "bool list \<Rightarrow> global_state \<Rightarrow> global_state option" where
  "sleep_while_cilkified seen g =
     (if \<not> cilkified g then Some g
      else case seen of [] \<Rightarrow> None | b # seen' \<Rightarrow> sleep_while_cilkified seen' (g\<lparr>cilkified := b\<rparr>))"

definition wait_while_cilkified :: "bool list \<Rightarrow> global_state \<Rightarrow> global_state option" where
  "wait_while_cilkified seen g =
     (let (returned, seen', g') = spin_while_cilkified BUSY_LOOP_SPIN seen g
      in if returned then Some g'
         else sleep_while_cilkified seen' (record_event WAIT_CILKIFIED 0 NO_WORKER g'))"

section \<open>Waking and sleeping thieves\<close>

datatype interference = Writes u32 | Spurious

datatype wakeup = Wakes_none | Wakes_some nat | Wakes_all

definition notify :: "u64 \<Rightarrow> wakeup" where
  "notify to_wake = (if to_wake = 3 then Wakes_some 3 else if to_wake = 2 then Wakes_some 2
     else if to_wake = 1 then Wakes_some 1 else Wakes_all)"

text \<open>The strong compare-and-swap fails only when the value changed.\<close>

fun request_loop :: "interference list \<Rightarrow> worker_id \<Rightarrow> u32 \<Rightarrow> global_state \<Rightarrow> wakeup \<times> global_state" where
  "request_loop others self cnt g =
     (let max_requests = nworkers g div 2;
          copy = disengaged_thieves g;
          max_to_wake = max_requests - copy
      in if sint max_to_wake \<le> 0 then (Wakes_none, g)
         else
           let to_wake = (if sint max_to_wake < sint cnt then max_to_wake else cnt);
               wake = (notify (ucast to_wake),
                 record_event MORE_THIEVES to_wake self (g\<lparr>disengaged_thieves := copy + to_wake\<rparr>))
           in (case others of
                 [] \<Rightarrow> wake
               | Spurious # _ \<Rightarrow> wake
               | Writes v # others' \<Rightarrow>
                   if v = copy then wake
                   else request_loop others' self cnt (g\<lparr>disengaged_thieves := v\<rparr>)))"

definition request_more_thieves ::
    "interference list \<Rightarrow> worker_id \<Rightarrow> u32 \<Rightarrow> global_state \<Rightarrow> (wakeup \<times> global_state) option" where
  "request_more_thieves others self cnt g = do {
     cilk_assert (cnt > 0);
     Some (request_loop others self cnt g)
   }"

text \<open>A thief consumes one wake-up; with none left, it sleeps until another thread writes one.\<close>

fun thief_disengage :: "interference list \<Rightarrow> worker_id \<Rightarrow> global_state \<Rightarrow> (u32 \<times> global_state) option" where
  "thief_disengage others self g =
     (let val = disengaged_thieves g in
      if val \<noteq> 0 then
        (case others of
           [] \<Rightarrow> Some (val, g\<lparr>disengaged_thieves := val - 1\<rparr>)
         | Spurious # others' \<Rightarrow> thief_disengage others' self g
         | Writes v # others' \<Rightarrow>
             if v = val then Some (val, g\<lparr>disengaged_thieves := val - 1\<rparr>)
             else thief_disengage others' self (g\<lparr>disengaged_thieves := v\<rparr>))
      else
        (case others of
           [] \<Rightarrow> None
         | Spurious # others' \<Rightarrow> thief_disengage others' self (record_event WAIT_DISENGAGED 0 self g)
         | Writes v # others' \<Rightarrow>
             thief_disengage others' self ((record_event WAIT_DISENGAGED 0 self g)\<lparr>disengaged_thieves := v\<rparr>)))"

definition thief_wait :: "interference list \<Rightarrow> worker_id \<Rightarrow> global_state \<Rightarrow> (u32 \<times> global_state) option" where
  "thief_wait others self g = thief_disengage others self g"

definition wake_thieves :: "global_state \<Rightarrow> global_state" where
  "wake_thieves g = (record_event ALL_THIEVES 0 NO_WORKER g)\<lparr>disengaged_thieves := nworkers g - 1\<rparr>"

fun thief_should_wait :: "interference list \<Rightarrow> global_state \<Rightarrow> bool \<times> global_state" where
  "thief_should_wait others g =
     (let val = disengaged_thieves g in
      if val \<noteq> 0 then
        (case others of
           [] \<Rightarrow> (False, g\<lparr>disengaged_thieves := val - 1\<rparr>)
         | Spurious # others' \<Rightarrow> thief_should_wait others' g
         | Writes v # others' \<Rightarrow>
             if v = val then (False, g\<lparr>disengaged_thieves := val - 1\<rparr>)
             else thief_should_wait others' (g\<lparr>disengaged_thieves := v\<rparr>))
      else (True, g))"

definition sleep_thieves :: "global_state \<Rightarrow> global_state" where
  "sleep_thieves g = g\<lparr>disengaged_thieves := 0\<rparr>"

definition wake_all_disengaged :: "global_state \<Rightarrow> global_state" where
  "wake_all_disengaged g = (record_event ALL_THIEVES 0 NO_WORKER g)\<lparr>disengaged_thieves := 0x7fffffff\<rparr>"

section \<open>The index maps\<close>

definition swap_worker_with_target :: "worker_id \<Rightarrow> u32 \<Rightarrow> global_state \<Rightarrow> global_state option" where
  "swap_worker_with_target self target_index g = do {
     self_index \<leftarrow> at_index (worker_to_index g) self;
     target_worker \<leftarrow> at_index (index_to_worker g) target_index;
     i2w1 \<leftarrow> put_index (index_to_worker g) self_index target_worker;
     i2w2 \<leftarrow> put_index i2w1 target_index self;
     w2i1 \<leftarrow> put_index (worker_to_index g) target_worker self_index;
     w2i2 \<leftarrow> put_index w2i1 self target_index;
     Some (g\<lparr>index_to_worker := i2w2, worker_to_index := w2i2\<rparr>)
   }"

text \<open>The counters return the old value.  A signed increment is given as its 32 bits: shifted into the
  upper half, or sign-extended to 64.\<close>

definition add_to_disengaged :: "32 word \<Rightarrow> global_state \<Rightarrow> u64 \<times> global_state" where
  "add_to_disengaged val g =
     (disengaged_sentinel g,
      g\<lparr>disengaged_sentinel := disengaged_sentinel g + DISENGAGED_SENTINEL (scast val) 0\<rparr>)"

definition add_to_sentinels :: "32 word \<Rightarrow> global_state \<Rightarrow> u64 \<times> global_state" where
  "add_to_sentinels val g =
     (disengaged_sentinel g, g\<lparr>disengaged_sentinel := disengaged_sentinel g + scast val\<rparr>)"

definition lock_index :: "global_state \<Rightarrow> global_state option" where
  "lock_index g = (if index_lock g then None else Some (g\<lparr>index_lock := True\<rparr>))"

definition unlock_index :: "global_state \<Rightarrow> global_state" where
  "unlock_index g = g\<lparr>index_lock := False\<rparr>"

definition disengage_worker :: "u32 \<Rightarrow> worker_id \<Rightarrow> global_state \<Rightarrow> global_state option" where
  "disengage_worker nw self g = do {
     g1 \<leftarrow> lock_index g;
     let (d, g2) = add_to_disengaged 1 g1;
     let last_index = ucast ((ucast nw :: u64) - (drop_bit 32 d + 1));
     i \<leftarrow> at_index (worker_to_index g2) self;
     g3 \<leftarrow> (if i < last_index then swap_worker_with_target self last_index g2 else Some g2);
     Some (unlock_index g3)
   }"

definition reengage_worker :: "u32 \<Rightarrow> worker_id \<Rightarrow> global_state \<Rightarrow> global_state option" where
  "reengage_worker nw self g = do {
     g1 \<leftarrow> lock_index g;
     let (d, g2) = add_to_disengaged (-1) g1;
     let last_index = ucast ((ucast nw :: u64) - drop_bit 32 d);
     i \<leftarrow> at_index (worker_to_index g2) self;
     g3 \<leftarrow> (if i > last_index then swap_worker_with_target self last_index g2 else Some g2);
     Some (unlock_index g3)
   }"

end
