(* ===== verification/Coord_Properties.thy ===== *)
theory Coord_Properties
  imports Worker_Coord
begin

text \<open>
  Lemmas on the shared state: the two halves of the packed counter do not disturb each other, the index
  maps stay inverse to each other, and the workers at the end of the index map are those disengaged.
\<close>

section \<open>The packed counter\<close>

definition disengaged_count :: "global_state \<Rightarrow> nat" where
  "disengaged_count g = unat (GET_DISENGAGED (disengaged_sentinel g))"

definition sentinel_count :: "global_state \<Rightarrow> nat" where
  "sentinel_count g = unat (GET_SENTINEL (disengaged_sentinel g))"

lemma unat_GET_DISENGAGED: "unat (GET_DISENGAGED d) = unat d div 2 ^ 32"
  by (simp only: GET_DISENGAGED_def drop_bit_eq_div unat_div_distrib) simp

lemma GET_SENTINEL_take: "GET_SENTINEL d = take_bit 32 d"
proof -
  have "(0xffffffff :: u64) = mask 32" by (simp add: mask_eq_exp_minus_1)
  then show ?thesis by (simp only: GET_SENTINEL_def take_bit_eq_mask)
qed

lemma unat_GET_SENTINEL: "unat (GET_SENTINEL d) = unat d mod 2 ^ 32"
  by (simp only: GET_SENTINEL_take take_bit_eq_mod unat_mod_distrib) simp

lemma uint_GET:
  "uint (GET_DISENGAGED d) = uint d div 2 ^ 32" "uint (GET_SENTINEL d) = uint d mod 2 ^ 32"
  by (simp_all only: uint_nat unat_GET_DISENGAGED unat_GET_SENTINEL zdiv_int zmod_int of_nat_power of_nat_numeral)

lemma get_packed:
  "GET_DISENGAGED (DISENGAGED_SENTINEL a b) = take_bit 32 a" "GET_SENTINEL (DISENGAGED_SENTINEL a b) = ucast b"
proof -
  show "GET_DISENGAGED (DISENGAGED_SENTINEL a b) = take_bit 32 a"
    by (rule bit_eqI) (auto simp: GET_DISENGAGED_def DISENGAGED_SENTINEL_def bit_simps dest: bit_imp_le_length)
  show "GET_SENTINEL (DISENGAGED_SENTINEL a b) = ucast b"
    by (rule bit_eqI) (auto simp: GET_SENTINEL_take DISENGAGED_SENTINEL_def bit_simps dest: bit_imp_le_length)
qed

lemma uint_of_halves:
  assumes "0 \<le> a" "a < 2 ^ 32" "0 \<le> b" "b < 2 ^ 32" "d = word_of_int (a * 2 ^ 32 + b)"
  shows "uint (GET_DISENGAGED d) = a" "uint (GET_SENTINEL d) = b"
proof -
  have "a * 2 ^ 32 + b < 2 ^ 64" "0 \<le> a * 2 ^ 32 + b" using assms by simp_all
  then have "take_bit 64 (a * 2 ^ 32 + b) = a * 2 ^ 32 + b" by (intro take_bit_int_eq_self)
  moreover have "uint d = take_bit 64 (a * 2 ^ 32 + b)" unfolding assms(5) uint_word_of_int_eq by simp
  ultimately have "uint d = a * 2 ^ 32 + b" by simp
  then show "uint (GET_DISENGAGED d) = a" "uint (GET_SENTINEL d) = b" using assms by (simp_all add: uint_GET)
qed

lemma halves: "d = word_of_int (uint (GET_DISENGAGED d) * 2 ^ 32 + uint (GET_SENTINEL d))"
  using word_of_int_uint [of d] by (simp only: uint_GET div_mult_mod_eq)

lemma packed_increment: "DISENGAGED_SENTINEL (scast v) 0 = word_of_int (sint v * 2 ^ 32)" for v :: u32
proof -
  have "DISENGAGED_SENTINEL (scast v) 0 = push_bit 32 (word_of_int (sint v))"
    by (simp add: DISENGAGED_SENTINEL_def)
  also have "\<dots> = word_of_int (sint v) * word_of_int (2 ^ 32)" by (simp add: push_bit_eq_mult)
  finally show ?thesis by (simp only: wi_hom_mult)
qed

lemma add_to_disengaged_counts:
  assumes "0 \<le> int (disengaged_count g) + sint v" "int (disengaged_count g) + sint v < 2 ^ 32"
  shows "int (disengaged_count (snd (add_to_disengaged v g))) = int (disengaged_count g) + sint v"
    and "sentinel_count (snd (add_to_disengaged v g)) = sentinel_count g"
proof -
  let ?d = "disengaged_sentinel g" and ?d' = "disengaged_sentinel (snd (add_to_disengaged v g))"
  have sen: "uint (GET_SENTINEL ?d) < 2 ^ 32" by (simp add: uint_GET)
  have "?d' = ?d + word_of_int (sint v * 2 ^ 32)" by (simp only: add_to_disengaged_def packed_increment snd_conv) simp
  also have "\<dots> = word_of_int (uint (GET_DISENGAGED ?d) * 2 ^ 32 + uint (GET_SENTINEL ?d)) + word_of_int (sint v * 2 ^ 32)"
    by (rule arg_cong [where f = "\<lambda>x. x + _", OF halves])
  also have "\<dots> = word_of_int ((uint (GET_DISENGAGED ?d) + sint v) * 2 ^ 32 + uint (GET_SENTINEL ?d))"
    by (simp only: wi_hom_add [symmetric] algebra_simps)
  finally have d': "?d' = word_of_int ((uint (GET_DISENGAGED ?d) + sint v) * 2 ^ 32 + uint (GET_SENTINEL ?d))" .
  have b: "0 \<le> uint (GET_DISENGAGED ?d) + sint v" "uint (GET_DISENGAGED ?d) + sint v < 2 ^ 32"
    using assms by (simp_all only: disengaged_count_def uint_nat)
  note h = uint_of_halves [OF b uint_ge_0 sen d']
  show "int (disengaged_count (snd (add_to_disengaged v g))) = int (disengaged_count g) + sint v"
    using h(1) by (simp only: disengaged_count_def uint_nat)
  show "sentinel_count (snd (add_to_disengaged v g)) = sentinel_count g"
    using h(2) by (simp only: sentinel_count_def uint_nat)
qed

lemma add_to_sentinels_counts:
  assumes "0 \<le> int (sentinel_count g) + sint v" "int (sentinel_count g) + sint v < 2 ^ 32"
  shows "int (sentinel_count (snd (add_to_sentinels v g))) = int (sentinel_count g) + sint v"
    and "disengaged_count (snd (add_to_sentinels v g)) = disengaged_count g"
proof -
  let ?d = "disengaged_sentinel g" and ?d' = "disengaged_sentinel (snd (add_to_sentinels v g))"
  have dis: "uint (GET_DISENGAGED ?d) < 2 ^ 32"
    using uint_lt2p [of ?d] by (simp add: uint_GET)
  have "?d' = ?d + word_of_int (sint v)" by (simp add: add_to_sentinels_def)
  also have "\<dots> = word_of_int (uint (GET_DISENGAGED ?d) * 2 ^ 32 + uint (GET_SENTINEL ?d)) + word_of_int (sint v)"
    by (rule arg_cong [where f = "\<lambda>x. x + _", OF halves])
  also have "\<dots> = word_of_int (uint (GET_DISENGAGED ?d) * 2 ^ 32 + (uint (GET_SENTINEL ?d) + sint v))"
    by (simp only: wi_hom_add [symmetric] algebra_simps)
  finally have d': "?d' = word_of_int (uint (GET_DISENGAGED ?d) * 2 ^ 32 + (uint (GET_SENTINEL ?d) + sint v))" .
  have b: "0 \<le> uint (GET_SENTINEL ?d) + sint v" "uint (GET_SENTINEL ?d) + sint v < 2 ^ 32"
    using assms by (simp_all only: sentinel_count_def uint_nat)
  note h = uint_of_halves [OF uint_ge_0 dis b d']
  show "int (sentinel_count (snd (add_to_sentinels v g))) = int (sentinel_count g) + sint v"
    using h(2) by (simp only: sentinel_count_def uint_nat)
  show "disengaged_count (snd (add_to_sentinels v g)) = disengaged_count g"
    using h(1) by (simp only: disengaged_count_def uint_nat)
qed

lemma disengaged_drop_bit: "drop_bit 32 (disengaged_sentinel g) = of_nat (disengaged_count g)"
  by (simp add: disengaged_count_def GET_DISENGAGED_def)

lemma disengaged_count_bound: "disengaged_count g < 2 ^ 32"
proof -
  have "unat (disengaged_sentinel g) < 2 ^ 64" by (rule order.strict_trans2 [OF unsigned_less]) simp
  then show ?thesis by (simp add: disengaged_count_def unat_GET_DISENGAGED)
qed

section \<open>The index maps\<close>

definition index_of :: "global_state \<Rightarrow> nat \<Rightarrow> nat" where
  "index_of g w = unat (worker_to_index g ! w)"

definition worker_at :: "global_state \<Rightarrow> nat \<Rightarrow> nat" where
  "worker_at g i = unat (index_to_worker g ! i)"

definition maps_ok :: "nat \<Rightarrow> global_state \<Rightarrow> bool" where
  "maps_ok N g \<longleftrightarrow> N \<le> length (index_to_worker g) \<and> N \<le> length (worker_to_index g) \<and>
     (\<forall>i < N. worker_at g i < N \<and> index_of g (worker_at g i) = i) \<and>
     (\<forall>w < N. index_of g w < N \<and> worker_at g (index_of g w) = w)"

definition asleep :: "nat \<Rightarrow> global_state \<Rightarrow> nat set" where
  "asleep N g = {w. w < N \<and> N - disengaged_count g \<le> index_of g w}"

lemma swap_maps:
  assumes ok: "maps_ok N g" and self: "unat self < N" and t: "unat t < N"
  obtains g' where "swap_worker_with_target self t g = Some g'" "maps_ok N g'"
    "\<And>w. index_of g' w = (if w = unat self then unat t else if w = worker_at g (unat t) then index_of g (unat self)
        else index_of g w)"
    "disengaged_sentinel g' = disengaged_sentinel g" "index_lock g' = index_lock g" "nworkers g' = nworkers g"
    "disengaged_thieves g' = disengaged_thieves g"
proof -
  have len: "unat self < length (worker_to_index g)" "unat t < length (index_to_worker g)"
    "N \<le> length (index_to_worker g)" "N \<le> length (worker_to_index g)"
    using ok self t by (auto simp: maps_ok_def)
  have in1: "index_of g (unat self) < N" and in2: "worker_at g (unat t) < N"
    using ok self t by (auto simp: maps_ok_def)
  define g' where "g' = g\<lparr>index_to_worker := (index_to_worker g)
       [index_of g (unat self) := index_to_worker g ! unat t, unat t := self],
     worker_to_index := (worker_to_index g)
       [worker_at g (unat t) := worker_to_index g ! unat self, unat self := t]\<rparr>"
  have run: "swap_worker_with_target self t g = Some g'"
    using len in1 in2 by (simp add: swap_worker_with_target_def at_index_def put_index_def index_of_def worker_at_def g'_def)
  have ix: "index_of g' w = (if w = unat self then unat t else if w = worker_at g (unat t) then index_of g (unat self)
      else index_of g w)" for w
    using len in2 by (simp add: index_of_def g'_def nth_list_update)
  have wk: "worker_at g' i = (if i = unat t then unat self else if i = index_of g (unat self) then worker_at g (unat t)
      else worker_at g i)" for i
    using len in1 by (simp add: worker_at_def g'_def nth_list_update)
  have l': "length (index_to_worker g') = length (index_to_worker g)" "length (worker_to_index g') = length (worker_to_index g)"
    by (simp_all add: g'_def)
  have inv: "\<And>i. i < N \<Longrightarrow> worker_at g i < N \<and> index_of g (worker_at g i) = i"
    "\<And>w. w < N \<Longrightarrow> index_of g w < N \<and> worker_at g (index_of g w) = w"
    using ok by (simp_all add: maps_ok_def)
  have inj: "worker_at g i = worker_at g j \<Longrightarrow> i = j" if "i < N" "j < N" for i j
    using inv(1) that by metis
  have A: "worker_at g' i < N \<and> index_of g' (worker_at g' i) = i" if "i < N" for i
  proof (cases "i = unat t \<or> i = index_of g (unat self)")
    case True
    then show ?thesis unfolding ix wk using inv(1) [OF t] inv(2) [OF self] self by auto
  next
    case False
    then have "worker_at g i \<noteq> unat self" "worker_at g i \<noteq> worker_at g (unat t)"
      using inv(1) [OF that] inj [OF that t] by auto
    then show ?thesis unfolding ix wk using inv(1) [OF that] False by simp
  qed
  have B: "index_of g' w < N \<and> worker_at g' (index_of g' w) = w" if "w < N" for w
  proof (cases "w = unat self \<or> w = worker_at g (unat t)")
    case True
    then show ?thesis unfolding ix wk using inv(1) [OF t] inv(2) [OF self] t by auto
  next
    case False
    then have "index_of g w \<noteq> unat t" "index_of g w \<noteq> index_of g (unat self)"
      using inv(2) [OF that] inv(2) [OF self] by metis+
    then show ?thesis unfolding ix wk using inv(2) [OF that] False by simp
  qed
  have ok': "maps_ok N g'" unfolding maps_ok_def using A B len l' by simp
  show ?thesis by (rule that [OF run ok' ix]) (simp_all add: g'_def)
qed

text \<open>Disengaging puts the worker at the last index of the active part, reengaging at the first index
  after it; both then move the border over it.\<close>

lemma move_to_border:
  assumes ok: "maps_ok N g" and self: "unat self < N" and t: "unat t < N"
    and c: "b \<longrightarrow> swap_worker_with_target self t g = Some g'" "\<not> b \<longrightarrow> g' = g \<and> index_of g (unat self) = unat t"
  shows "maps_ok N g' \<and> index_of g' (unat self) = unat t \<and>
    (\<forall>w < N. w \<noteq> unat self \<longrightarrow> index_of g' w = (if index_of g w = unat t then index_of g (unat self) else index_of g w)) \<and>
    disengaged_sentinel g' = disengaged_sentinel g \<and> index_lock g' = index_lock g \<and> nworkers g' = nworkers g \<and>
    disengaged_thieves g' = disengaged_thieves g"
proof (cases b)
  case True
  obtain h where h: "swap_worker_with_target self t g = Some h" "maps_ok N h"
    "\<And>w. index_of h w = (if w = unat self then unat t else if w = worker_at g (unat t) then index_of g (unat self)
        else index_of g w)"
    "disengaged_sentinel h = disengaged_sentinel g" "index_lock h = index_lock g" "nworkers h = nworkers g"
    "disengaged_thieves h = disengaged_thieves g"
    by (rule swap_maps [OF ok self t]) blast
  have "g' = h" using c(1) True h(1) by simp
  moreover have "index_of h w = (if index_of g w = unat t then index_of g (unat self) else index_of g w)"
    if "w < N" "w \<noteq> unat self" for w
  proof -
    have "w = worker_at g (unat t) \<longleftrightarrow> index_of g w = unat t"
      using ok that(1) t unfolding maps_ok_def by metis
    then show ?thesis using h(3) [of w] that(2) by simp
  qed
  moreover have "index_of h (unat self) = unat t" using h(3) by simp
  ultimately show ?thesis using h(2,4-) by blast
next
  case False
  have "g' = g" and s: "index_of g (unat self) = unat t" using c(2) False by simp_all
  have only: "w = unat self" if "w < N" "index_of g w = unat t" for w
    using ok that s self unfolding maps_ok_def by metis
  show ?thesis unfolding \<open>g' = g\<close> using ok s only by (intro conjI allI impI) (simp_all split: if_split)
qed

end
