(* ===== verification/Thief_Sleep.thy ===== *)
theory Thief_Sleep
  imports Coord_Properties
begin

text \<open>
  When thieves sleep (\<^verbatim>\<open>runtime/worker_sleep.cpp\<close>, \<^verbatim>\<open>runtime/efficiency.h\<close>): a thief that fails to steal
  often enough counts itself as a sentinel, samples how many workers are active, and disengages itself
  when there are too many sentinels; a thief that finds work leaves the sentinels and may ask for more
  thieves.

  The local variables of a thief are the record \<open>history\<close>.  What other threads do to the shared state
  while a thief is disengaged, and between its load of the counters and its compare-and-swap, are
  arguments; so are the clock readings around a sleep.
\<close>

section \<open>Histories\<close>

definition HISTORY_LENGTH :: nat where "HISTORY_LENGTH = 32"
definition SENTINEL_COUNT_HISTORY :: u32 where "SENTINEL_COUNT_HISTORY = 4"
definition SENTINEL_THRESHOLD :: u32 where "SENTINEL_THRESHOLD = 128"
definition ATTEMPTS :: u32 where "ATTEMPTS = 4"
definition AS_RATIO :: int where "AS_RATIO = 2"
definition HISTORY_THRESHOLD :: int where "HISTORY_THRESHOLD = 3 * int HISTORY_LENGTH div 4"
definition DISENGAGE_THRESHOLD :: u32 where "DISENGAGE_THRESHOLD = word_of_int HISTORY_THRESHOLD * SENTINEL_THRESHOLD"
definition NAP_NSEC :: nat where "NAP_NSEC = 25000"
definition SLEEP_NSEC :: nat where "SLEEP_NSEC = NAP_NSEC"

lemmas sleep_consts = HISTORY_LENGTH_def SENTINEL_COUNT_HISTORY_def SENTINEL_THRESHOLD_def ATTEMPTS_def
  AS_RATIO_def HISTORY_THRESHOLD_def DISENGAGE_THRESHOLD_def NAP_NSEC_def SLEEP_NSEC_def

record history =
  inefficient_history :: u32
  efficient_history :: u32
  sentinel_count_history_tail :: u32
  recent_sentinel_count :: u32
  fails :: u32
  sample_threshold :: u32
  sentinel_count_history :: "u32 list"

text \<open>The array initializer \<open>{ 1 }\<close> sets the first element; the others are zero.\<close>

definition new_history :: history where
  "new_history = \<lparr>inefficient_history = 0, efficient_history = 0, sentinel_count_history_tail = 0,
     recent_sentinel_count = SENTINEL_COUNT_HISTORY, fails = 0, sample_threshold = SENTINEL_THRESHOLD,
     sentinel_count_history = [1, 0, 0, 0]\<rparr>"

definition popcount :: "u32 \<Rightarrow> int" where
  "popcount x = int (length (filter (bit x) [0..<32]))"

text \<open>A sample enters a history at the top bit.\<close>

definition push_sample :: "bool \<Rightarrow> u32 \<Rightarrow> u32" where
  "push_sample b h = drop_bit 1 h OR push_bit (HISTORY_LENGTH - 1) (of_bool b)"

definition record_sentinels :: "u32 \<Rightarrow> history \<Rightarrow> history option" where
  "record_sentinels cur h = do {
     old \<leftarrow> at_index (sentinel_count_history h) (sentinel_count_history_tail h);
     sch \<leftarrow> put_index (sentinel_count_history h) (sentinel_count_history_tail h) cur;
     Some (h\<lparr>recent_sentinel_count := recent_sentinel_count h - old + cur, sentinel_count_history := sch,
             sentinel_count_history_tail := (sentinel_count_history_tail h + 1) mod SENTINEL_COUNT_HISTORY\<rparr>)
   }"

section \<open>Worker counts\<close>

record worker_counts =
  active :: int
  sentinels :: int
  disengaged :: int

definition get_worker_counts :: "u64 \<Rightarrow> u32 \<Rightarrow> worker_counts option" where
  "get_worker_counts ds nw = do {
     let disengaged = (ucast (GET_DISENGAGED ds) :: u32);
     let sentinel = (ucast (GET_SENTINEL ds) :: u32);
     cilk_assert (disengaged < nw);
     cilk_assert (sentinel \<le> nw);
     cilk_assert (sentinel + disengaged \<le> nw);
     Some \<lparr>active = sint (nw - disengaged - sentinel), sentinels = uint sentinel, disengaged = uint disengaged\<rparr>
   }"

definition is_inefficient :: "worker_counts \<Rightarrow> bool" where
  "is_inefficient c \<longleftrightarrow> sentinels c > 1 \<and> active c \<ge> 1 \<and> active c * AS_RATIO < sentinels c * 1"

definition is_efficient :: "worker_counts \<Rightarrow> bool" where
  "is_efficient c \<longleftrightarrow> active c * 1 \<ge> sentinels c * AS_RATIO \<or> sentinels c \<le> 1"

definition get_scaled_elapsed :: "u32 \<Rightarrow> u32" where
  "get_scaled_elapsed elapsed = elapsed * (1 * SENTINEL_THRESHOLD) div (1 * 65536) div ATTEMPTS * ATTEMPTS"

section \<open>Disengaging\<close>

text \<open>\<open>meanwhile\<close> is what the others do to the shared state until the thief waits, \<open>waits\<close> what they
  write to the wake-up counter while it waits.\<close>

definition leave_stealing :: "worker_id \<Rightarrow> u64 \<Rightarrow> global_state \<Rightarrow> global_state option" where
  "leave_stealing self new_ds g = do {
     let last_index = ucast ((ucast (nworkers g) :: u64) - drop_bit 32 new_ds);
     i \<leftarrow> at_index (worker_to_index g) self;
     g1 \<leftarrow> (if i < last_index then swap_worker_with_target self last_index g else Some g);
     Some (unlock_index g1)
   }"

definition rejoin_stealing :: "worker_id \<Rightarrow> global_state \<Rightarrow> global_state option" where
  "rejoin_stealing self g = do {
     g1 \<leftarrow> lock_index g;
     let ds = disengaged_sentinel g1;
     let g2 = g1\<lparr>disengaged_sentinel := ds + DISENGAGED_SENTINEL (-1) 1\<rparr>;
     let last_index = ucast ((ucast (nworkers g2) :: u64) - GET_DISENGAGED ds);
     i \<leftarrow> at_index (worker_to_index g2) self;
     g3 \<leftarrow> (if i > last_index then swap_worker_with_target self last_index g2 else Some g2);
     Some (unlock_index g3)
   }"

definition try_to_disengage_thief ::
    "(global_state \<Rightarrow> global_state) \<Rightarrow> interference list \<Rightarrow> worker_id \<Rightarrow> u64 \<Rightarrow> global_state \<Rightarrow>
     (bool \<times> global_state) option" where
  "try_to_disengage_thief meanwhile waits self ds g =
     (if index_lock g then Some (False, g)
      else do {
        let g1 = g\<lparr>index_lock := True\<rparr>;
        let disengaged = (ucast (GET_DISENGAGED ds) :: u32);
        let sentinel = (ucast (GET_SENTINEL ds) :: u32);
        let new_ds = DISENGAGED_SENTINEL (ucast (disengaged + 1)) (sentinel - 1);
        if disengaged_sentinel g1 = ds then do {
          g2 \<leftarrow> leave_stealing self new_ds (g1\<lparr>disengaged_sentinel := new_ds\<rparr>);
          (_, g3) \<leftarrow> thief_disengage waits self (meanwhile g2);
          g4 \<leftarrow> rejoin_stealing self g3;
          Some (True, g4)
        } else Some (False, unlock_index g1)
      })"

text \<open>One element of \<open>others\<close> per round: what the others do between the load of the counters and the
  attempt; after the last round given, nobody interferes.\<close>

fun maybe_disengage_thief ::
    "(global_state \<Rightarrow> global_state) list \<Rightarrow> (global_state \<Rightarrow> global_state) \<Rightarrow> interference list \<Rightarrow>
     worker_id \<Rightarrow> u32 \<Rightarrow> global_state \<Rightarrow> (bool \<times> global_state) option" where
  "maybe_disengage_thief others meanwhile waits self nw g = do {
     let ds = disengaged_sentinel g;
     counts \<leftarrow> get_worker_counts ds nw;
     if is_inefficient counts then
       (case others of
          [] \<Rightarrow> do {
            (b, g') \<leftarrow> try_to_disengage_thief meanwhile waits self ds g;
            if b then Some (True, g') else None
          }
        | other # others' \<Rightarrow> do {
            (b, g') \<leftarrow> try_to_disengage_thief meanwhile waits self ds (other g);
            if b then Some (True, g') else maybe_disengage_thief others' meanwhile waits self nw g'
          })
     else Some (False, g)
   }"

section \<open>A thief that found work\<close>

text \<open>The new histories of a sentinel that found work, and how many thieves it asks for.\<close>

definition sample_success :: "worker_counts \<Rightarrow> history \<Rightarrow> (u32 \<times> u32 \<times> history) option" where
  "sample_success counts h =
     (if fails h \<ge> sample_threshold h then do {
        let ineff = push_sample (is_inefficient counts) (inefficient_history h);
        let eff = push_sample (is_efficient counts) (efficient_history h);
        h' \<leftarrow> record_sentinels (word_of_int (sentinels counts + 1)) h;
        Some (ineff, eff, h')
      } else Some (inefficient_history h, efficient_history h, h))"

definition requested_thieves :: "worker_id \<Rightarrow> u32 \<Rightarrow> u32 \<Rightarrow> history \<Rightarrow> (u32 \<times> history) option" where
  "requested_thieves self ineff eff h = do {
     let eff_diff = popcount eff - popcount ineff;
     if eff_diff < HISTORY_THRESHOLD then
       Some (0, h\<lparr>efficient_history := eff, inefficient_history := ineff\<rparr>)
     else do {
       let avg_sentinels = recent_sentinel_count h div SENTINEL_COUNT_HISTORY;
       cilk_assert (avg_sentinels \<noteq> 0);
       let request = word_of_int eff_diff div avg_sentinels;
       let remainder = word_of_int eff_diff mod avg_sentinels;
       let request' = (if remainder \<noteq> 0 then request + of_bool (self mod remainder \<noteq> 0) else request);
       Some (request', h\<lparr>efficient_history := 0, inefficient_history := 0\<rparr>)
     }
   }"

text \<open>At least one thief is requested when there is no sentinel left.\<close>

definition keep_a_sentinel :: "u32 \<Rightarrow> worker_counts \<Rightarrow> global_state \<Rightarrow> u32 \<Rightarrow> u32" where
  "keep_a_sentinel nw counts g request =
     (if request = 0 \<and> sentinels counts = 0 \<and> active counts < sint nw
         \<and> sint (disengaged_thieves g) < (active counts + 3) div 4
      then word_of_int ((active counts + 3) div 4 - sint (disengaged_thieves g)) else request)"

definition maybe_reengage_workers ::
    "interference list \<Rightarrow> worker_id \<Rightarrow> u32 \<Rightarrow> history \<Rightarrow> global_state \<Rightarrow> (history \<times> global_state) option" where
  "maybe_reengage_workers others self nw h g =
     (if fails h \<ge> SENTINEL_THRESHOLD then do {
        let (ds, g1) = add_to_sentinels (-1) g;
        counts \<leftarrow> get_worker_counts (ds - 1) nw;
        cilk_assert (active counts \<ge> 1);
        (ineff, eff, h1) \<leftarrow> sample_success counts h;
        (request, h2) \<leftarrow> requested_thieves self ineff eff h1;
        let request' = keep_a_sentinel nw counts g1 request;
        g2 \<leftarrow> (if sint request' > 0 then do {
                 (_, g') \<leftarrow> request_more_thieves others self request' g1;
                 Some g'
               } else Some g1);
        let f = (if fails h2 > SENTINEL_THRESHOLD then SENTINEL_THRESHOLD else fails h2);
        Some (h2\<lparr>fails := f, sample_threshold := f + SENTINEL_THRESHOLD\<rparr>, g2)
      } else Some (h, g))"

section \<open>A thief that found none\<close>

text \<open>\<open>sleep_env\<close> is what the thief observes while it may be disengaged: the other threads and the two
  clock readings.\<close>

record sleep_env =
  rounds :: "(global_state \<Rightarrow> global_state) list"
  while_asleep :: "global_state \<Rightarrow> global_state"
  wake_ups :: "interference list"
  start_time :: u64
  end_time :: u64

definition sample_failure :: "worker_counts \<Rightarrow> history \<Rightarrow> history option" where
  "sample_failure counts h = do {
     h1 \<leftarrow> record_sentinels (word_of_int (sentinels counts)) h;
     Some (h1\<lparr>efficient_history := push_sample (is_efficient counts) (efficient_history h1),
              inefficient_history := push_sample (is_inefficient counts) (inefficient_history h1)\<rparr>)
   }"

text \<open>The histories and the fail count after the thief was disengaged for some time.\<close>

definition forget_samples :: "u32 \<Rightarrow> global_state \<Rightarrow> history \<Rightarrow> history" where
  "forget_samples scaled g h =
     (if scaled > SENTINEL_THRESHOLD then
        (let samples = scaled div SENTINEL_THRESHOLD in
         if unat samples \<ge> HISTORY_LENGTH then
           (let cur = (ucast (GET_SENTINEL (disengaged_sentinel g)) :: u32)
            in h\<lparr>efficient_history := 0, inefficient_history := 0, sentinel_count_history := [cur, cur, cur, cur],
                 recent_sentinel_count := cur * SENTINEL_COUNT_HISTORY\<rparr>)
         else h\<lparr>efficient_history := drop_bit (unat samples) (efficient_history h),
                inefficient_history := drop_bit (unat samples) (inefficient_history h)\<rparr>)
      else h)"

definition after_disengaged :: "u64 \<Rightarrow> global_state \<Rightarrow> history \<Rightarrow> history" where
  "after_disengaged elapsed g h =
     (let scaled = get_scaled_elapsed (ucast elapsed);
          h1 = forget_samples scaled g h
      in h1\<lparr>fails := (if scaled < SENTINEL_THRESHOLD then fails h1 - scaled else DISENGAGE_THRESHOLD - SENTINEL_THRESHOLD),
            sample_threshold := SENTINEL_THRESHOLD\<rparr>)"

text \<open>The nap, if one is due: its length.\<close>

definition nap :: "u32 \<Rightarrow> u32 \<Rightarrow> nat option" where
  "nap nap_threshold f =
     (if f mod nap_threshold = 0 then Some (if f > nap_threshold then SLEEP_NSEC else NAP_NSEC) else None)"

definition max_fails :: "u32 \<Rightarrow> u32" where
  "max_fails nap_threshold = 2 * (if nap_threshold > DISENGAGE_THRESHOLD then nap_threshold else DISENGAGE_THRESHOLD)"

definition disengage_or_nap ::
    "sleep_env \<Rightarrow> worker_id \<Rightarrow> u32 \<Rightarrow> u32 \<Rightarrow> bool \<Rightarrow> history \<Rightarrow> global_state \<Rightarrow>
     (history \<times> nat option \<times> global_state) option" where
  "disengage_or_nap env self nw nap_threshold curr_ineff h g =
     (if self = 0 then Some (h, nap nap_threshold (fails h), g)
      else if curr_ineff \<and> popcount (inefficient_history h) - popcount (efficient_history h) > HISTORY_THRESHOLD then do {
        (b, g1) \<leftarrow> maybe_disengage_thief (rounds env) (while_asleep env) (wake_ups env) self nw g;
        if b then Some (after_disengaged (end_time env - start_time env) g1 h, None, g1)
        else Some (h, nap nap_threshold (fails h), g1)
      } else Some (h, nap nap_threshold (fails h), g))"

definition handle_failed_steal_attempts ::
    "sleep_env \<Rightarrow> worker_id \<Rightarrow> u32 \<Rightarrow> u32 \<Rightarrow> history \<Rightarrow> global_state \<Rightarrow>
     (history \<times> nat option \<times> global_state) option" where
  "handle_failed_steal_attempts env self nw nap_threshold h0 g =
     (let h = h0\<lparr>fails := fails h0 + ATTEMPTS\<rparr> in
      if fails h mod SENTINEL_THRESHOLD = 0 then
        if fails h > max_fails nap_threshold then
          Some (h\<lparr>fails := max_fails nap_threshold\<rparr>, Some SLEEP_NSEC, g)
        else do {
          let g1 = (if SENTINEL_THRESHOLD = fails h then snd (add_to_sentinels 1 g) else g);
          counts \<leftarrow> get_worker_counts (disengaged_sentinel g1) nw;
          h1 \<leftarrow> sample_failure counts h;
          disengage_or_nap env self nw nap_threshold (is_inefficient counts) h1 g1
        }
      else Some (h, None, g))"

definition go_to_sleep_maybe ::
    "sleep_env \<Rightarrow> interference list \<Rightarrow> worker_id \<Rightarrow> u32 \<Rightarrow> u32 \<Rightarrow> nat option \<Rightarrow> history \<Rightarrow> global_state \<Rightarrow>
     (history \<times> nat option \<times> global_state) option" where
  "go_to_sleep_maybe env others self nw nap_threshold t h g =
     (if t \<noteq> None then do {
        (h', g') \<leftarrow> maybe_reengage_workers others self nw h g;
        Some (h', None, g')
      } else handle_failed_steal_attempts env self nw nap_threshold h g)"

section \<open>Fail counts\<close>

definition decrease_fails_by_work :: "u64 \<Rightarrow> history \<Rightarrow> global_state \<Rightarrow> (history \<times> global_state) option" where
  "decrease_fails_by_work elapsed h g = do {
     let scaled = (ucast (get_scaled_elapsed (ucast elapsed)) :: u64);
     let f = (if scaled > ucast (fails h) then 0 else fails h - ucast scaled);
     cilk_assert (f mod ATTEMPTS = 0);
     let st = (if scaled > ucast (sample_threshold h) - ucast SENTINEL_THRESHOLD then SENTINEL_THRESHOLD
               else sample_threshold h - ucast scaled);
     let g' = (if f \<ge> SENTINEL_THRESHOLD then snd (add_to_sentinels 1 g) else g);
     Some (h\<lparr>fails := f, sample_threshold := st\<rparr>, g')
   }"

definition init_fails :: "u32 \<Rightarrow> global_state \<Rightarrow> u32 \<times> global_state" where
  "init_fails wake_val g =
     (if wake_val \<le> nworkers g div 2
      then (SENTINEL_THRESHOLD, g\<lparr>disengaged_sentinel := disengaged_sentinel g + 1\<rparr>)
      else (0, g))"

definition reset_fails :: "u32 \<Rightarrow> global_state \<Rightarrow> global_state" where
  "reset_fails f g = (if f \<ge> SENTINEL_THRESHOLD then snd (add_to_sentinels (-1) g) else g)"

section \<open>The work-stealing loop\<close>

definition update_rand_state :: "u32 \<Rightarrow> u32" where
  "update_rand_state s = s * 1103515245 + 12345"

definition get_rand :: "u32 \<Rightarrow> u32" where
  "get_rand s = drop_bit 16 s"

text \<open>A random victim other than the thief; the fuel bounds the redraws.\<close>

fun choose_victim :: "nat \<Rightarrow> u32 list \<Rightarrow> u32 \<Rightarrow> worker_id \<Rightarrow> u32 \<Rightarrow> (worker_id \<times> u32) option" where
  "choose_victim 0 i2w stealable self r = None"
| "choose_victim (Suc n) i2w stealable self r = do {
     cilk_assert (stealable \<noteq> 0);
     victim \<leftarrow> at_index i2w (get_rand r mod stealable);
     let r' = update_rand_state r;
     if victim = self then choose_victim n i2w stealable self r' else Some (victim, r')
   }"

text \<open>Up to \<open>n\<close> attempts; \<open>steal\<close> is \<open>Closure_steal\<close> on the state \<open>s\<close> of closures and deques.\<close>

fun attempt_steals ::
    "nat \<Rightarrow> nat \<Rightarrow> (worker_id \<Rightarrow> 's \<Rightarrow> (nat option \<times> 's) option) \<Rightarrow> u32 list \<Rightarrow> u32 \<Rightarrow> worker_id \<Rightarrow> u32 \<Rightarrow> 's \<Rightarrow>
     (nat option \<times> u32 \<times> 's) option" where
  "attempt_steals 0 fuel steal i2w stealable self r s = Some (None, r, s)"
| "attempt_steals (Suc n) fuel steal i2w stealable self r s = do {
     (victim, r') \<leftarrow> choose_victim fuel i2w stealable self r;
     (t, s') \<leftarrow> steal victim s;
     if t \<noteq> None then Some (t, r', s') else attempt_steals n fuel steal i2w stealable self r' s'
   }"

definition bit_length :: "u32 \<Rightarrow> nat" where
  "bit_length x = length (dropWhile (\<lambda>i. \<not> bit x i) (rev [0..<32]))"

text \<open>The factor by which a thief stretches its delay, about \<open>S / lg S\<close> for \<open>S\<close> recent sentinels.\<close>

definition sentinel_div_lg_sentinel :: "u32 \<Rightarrow> u32" where
  "sentinel_div_lg_sentinel sentinel =
     (let lg_sentinel = (if sentinel = 0 then 1 else of_nat (bit_length sentinel) :: u32)
      in if sentinel = 0 then 1 else drop_bit (bit_length lg_sentinel) sentinel)"

definition steal_delay :: "u32 \<Rightarrow> u32 \<Rightarrow> u32 \<Rightarrow> u64" where
  "steal_delay f stealable sentinel =
     (450 * 4 + (if f > stealable then 650 * 4 else 0)) * ucast (sentinel_div_lg_sentinel sentinel)"

definition NAP_THRESHOLD :: u32 where
  "NAP_THRESHOLD = SENTINEL_THRESHOLD * 64"

text \<open>What a thief does to its fail count and histories after it ran the closure it stole.\<close>

definition after_work :: "u64 \<Rightarrow> history \<Rightarrow> global_state \<Rightarrow> (history \<times> global_state) option" where
  "after_work elapsed h g =
     (if fails h > 2 * ATTEMPTS then do {
        (h1, g1) \<leftarrow> decrease_fails_by_work elapsed h g;
        Some (if fails h1 < SENTINEL_THRESHOLD
              then h1\<lparr>inefficient_history := 0, efficient_history := 0\<rparr> else h1, g1)
      } else Some (h\<lparr>fails := 0, sample_threshold := SENTINEL_THRESHOLD\<rparr>, g))"

text \<open>One round of the inner loop of \<open>worker_scheduler\<close>: it does nothing when this worker is the only
  one that is engaged; otherwise it tries to steal and then does its bookkeeping.\<close>

definition steal_round ::
    "nat \<Rightarrow> (worker_id \<Rightarrow> 's \<Rightarrow> (nat option \<times> 's) option) \<Rightarrow> sleep_env \<Rightarrow> interference list \<Rightarrow> worker_id \<Rightarrow> u32 \<Rightarrow>
     u32 \<Rightarrow> history \<Rightarrow> global_state \<Rightarrow> 's \<Rightarrow> (nat option \<times> u32 \<times> history \<times> global_state \<times> 's) option" where
  "steal_round fuel steal env others self nw r h g s = do {
     let disengaged = (ucast (GET_DISENGAGED (disengaged_sentinel g)) :: u32);
     let stealable = nw - disengaged;
     if stealable = 1 then Some (None, r, h, g, s)
     else do {
       (t, r', s') \<leftarrow> attempt_steals (unat ATTEMPTS) fuel steal (index_to_worker g) stealable self r s;
       (h', _, g') \<leftarrow> go_to_sleep_maybe env others self nw NAP_THRESHOLD t h g;
       Some (t, r', h', g', s')
     }
   }"

section \<open>A worker thread\<close>

definition rts_srand_seed :: "worker_id \<Rightarrow> u32" where
  "rts_srand_seed self = (self + 1) * 162347"

text \<open>One round of \<open>scheduler_thread_proc\<close> up to the work-stealing loop: the wake-up value, and whether
  the thread goes on to steal, ends, or starts over.\<close>

datatype thread_next = Exit_thread | Enter_scheduler | Wait_again

definition wait_for_region ::
    "interference list \<Rightarrow> (global_state \<Rightarrow> global_state) \<Rightarrow> interference list \<Rightarrow> worker_id \<Rightarrow> global_state \<Rightarrow>
     (u32 \<times> thread_next \<times> global_state) option" where
  "wait_for_region others meanwhile waits self g = do {
     let nw = nworkers g;
     let (wait, g1) = thief_should_wait others g;
     (wake_val, g2) \<leftarrow> (if wait then do {
          ga \<leftarrow> disengage_worker nw self g1;
          (v, gb) \<leftarrow> thief_wait waits self (meanwhile ga);
          gc \<leftarrow> reengage_worker nw self gb;
          Some (v, gc)
        } else Some (nw, g1));
     Some (wake_val, if terminating g2 then Exit_thread
           else if \<not> is_done g2 then Enter_scheduler else Wait_again, g2)
   }"

end
