(* ===== verification/Sleep_Properties.thy ===== *)
theory Sleep_Properties
  imports Thief_Sleep
begin

text \<open>
  The bookkeeping of thieves is right: a worker is counted as a sentinel exactly while it steals with
  at least \<open>SENTINEL_THRESHOLD\<close> failed attempts behind it, its histories stay well-formed (so the
  division by the average number of sentinels is safe), and the index maps stay inverse to each other
  with the disengaged workers at the end.
\<close>

declare thief_disengage.simps [simp del] thief_should_wait.simps [simp del] request_loop.simps [simp del]
  maybe_disengage_thief.simps [simp del]

section \<open>Well-formed histories\<close>

definition entry_sum :: "history \<Rightarrow> nat" where
  "entry_sum h = sum_list (map unat (sentinel_count_history h))"

definition counts_ok :: "history \<Rightarrow> bool" where
  "counts_ok h \<longleftrightarrow> length (sentinel_count_history h) = 4 \<and> unat (sentinel_count_history_tail h) < 4 \<and>
     (\<forall>x \<in> set (sentinel_count_history h). unat x \<le> 2 ^ 20 + 1) \<and>
     (entry_sum h \<ge> 1 \<and> unat (recent_sentinel_count h) = entry_sum h + 3 \<or>
      (\<forall>x \<in> set (sentinel_count_history h). x \<noteq> 0) \<and> unat (recent_sentinel_count h) = entry_sum h)"

definition hist_ok :: "history \<Rightarrow> bool" where
  "hist_ok h \<longleftrightarrow> counts_ok h \<and> unat (fails h) mod 4 = 0 \<and> unat (fails h) \<le> 16508 \<and>
     (fails h < SENTINEL_THRESHOLD \<longrightarrow> inefficient_history h = 0) \<and> sample_threshold h \<ge> SENTINEL_THRESHOLD"

definition counted :: "u32 \<Rightarrow> nat" where
  "counted f = (if f \<ge> SENTINEL_THRESHOLD then 1 else 0)"

lemma new_history_ok: "hist_ok new_history"
  by (simp add: hist_ok_def counts_ok_def new_history_def sleep_consts entry_sum_def)

lemma length4: "length xs = 4 \<longleftrightarrow> (\<exists>a b c d. xs = [a, b, c, d])"
  by (auto simp: numeral_eq_Suc length_Suc_conv)

lemma entry_sum_update:
  assumes "length xs = 4" "i < 4"
  shows "sum_list (map unat (xs[i := (y :: u32)])) + unat (xs ! i) = sum_list (map unat xs) + unat y"
proof -
  obtain a b c d where "xs = [a, b, c, d]" using assms(1) by (auto simp: length4)
  moreover have "i = 0 \<or> i = 1 \<or> i = 2 \<or> i = 3" using assms(2) by auto
  ultimately show ?thesis by auto
qed

lemma entry_sum_ge_all:
  assumes "length xs = 4" "\<forall>x \<in> set xs. (x :: u32) \<noteq> 0"
  shows "sum_list (map unat xs) \<ge> 4"
proof -
  have pos: "unat x \<ge> 1" if "x \<noteq> 0" for x :: u32 using that by (simp add: unat_gt_0 Suc_le_eq)
  obtain a b c d where "xs = [a, b, c, d]" using assms(1) by (auto simp: length4)
  then show ?thesis using assms(2) pos [of a] pos [of b] pos [of c] pos [of d] by simp
qed

lemma entry_sum_bound:
  assumes "length xs = 4" "\<forall>x \<in> set xs. unat (x :: u32) \<le> 2 ^ 20 + 1"
  shows "sum_list (map unat xs) \<le> 2 ^ 22 + 4"
proof -
  obtain a b c d where "xs = [a, b, c, d]" using assms(1) by (auto simp: length4)
  then show ?thesis using assms(2) by simp
qed

lemma counts_ok_average:
  assumes "counts_ok h"
  shows "recent_sentinel_count h div SENTINEL_COUNT_HISTORY \<noteq> 0"
proof -
  have "unat (recent_sentinel_count h) \<ge> 4"
    using assms entry_sum_ge_all [of "sentinel_count_history h"] by (auto simp: counts_ok_def entry_sum_def)
  then have "unat (recent_sentinel_count h div SENTINEL_COUNT_HISTORY) \<ge> 1"
    by (simp add: unat_div_distrib SENTINEL_COUNT_HISTORY_def)
  then show ?thesis by auto
qed

lemma record_sentinels_ok:
  assumes ok: "counts_ok h" and cur: "cur \<noteq> 0" "unat cur \<le> 2 ^ 20 + 1"
  obtains h' where "record_sentinels cur h = Some h'" "counts_ok h'"
    "fails h' = fails h" "sample_threshold h' = sample_threshold h"
    "inefficient_history h' = inefficient_history h" "efficient_history h' = efficient_history h"
proof -
  let ?xs = "sentinel_count_history h" and ?t = "unat (sentinel_count_history_tail h)"
  let ?r = "recent_sentinel_count h - ?xs ! ?t + cur"
  have len: "length ?xs = 4" "?t < 4" and bnd: "\<forall>x \<in> set ?xs. unat x \<le> 2 ^ 20 + 1"
    using ok by (auto simp: counts_ok_def)
  define h' where "h' = h\<lparr>recent_sentinel_count := ?r, sentinel_count_history := ?xs[?t := cur],
     sentinel_count_history_tail := (sentinel_count_history_tail h + 1) mod SENTINEL_COUNT_HISTORY\<rparr>"
  have run: "record_sentinels cur h = Some h'"
    using len by (simp add: record_sentinels_def at_index_def put_index_def h'_def)
  have up: "sum_list (map unat (?xs[?t := cur])) + unat (?xs ! ?t) = sum_list (map unat ?xs) + unat cur"
    by (rule entry_sum_update [OF len])
  have le: "unat (?xs ! ?t) \<le> sum_list (map unat ?xs)"
    using len member_le_sum_list [of "unat (?xs ! ?t)" "map unat ?xs"] by simp
  have big: "sum_list (map unat ?xs) \<le> 2 ^ 22 + 4" by (rule entry_sum_bound [OF len(1) bnd])
  have rec: "unat (recent_sentinel_count h) \<ge> sum_list (map unat ?xs)" "unat (recent_sentinel_count h) \<le> sum_list (map unat ?xs) + 3"
    using ok by (auto simp: counts_ok_def entry_sum_def)
  have r: "unat ?r = unat (recent_sentinel_count h) - unat (?xs ! ?t) + unat cur"
  proof -
    have "?xs ! ?t \<le> recent_sentinel_count h" using le rec by (simp add: word_le_nat_alt)
    then have "unat (recent_sentinel_count h - ?xs ! ?t) = unat (recent_sentinel_count h) - unat (?xs ! ?t)" by (rule unat_sub)
    moreover have "unat (recent_sentinel_count h) - unat (?xs ! ?t) + unat cur < 2 ^ 32" using rec big cur by simp
    ultimately show ?thesis by (simp add: unat_word_ariths)
  qed
  have set': "set (?xs[?t := cur]) \<subseteq> insert cur (set ?xs)" by (rule set_update_subset_insert)
  have s1: "unat cur \<ge> 1" using cur(1) by (simp add: unat_gt_0 Suc_le_eq)
  have tl: "unat ((sentinel_count_history_tail h + 1) mod SENTINEL_COUNT_HISTORY) < 4"
    by (simp add: SENTINEL_COUNT_HISTORY_def unat_mod_distrib)
  have "counts_ok h'"
    using ok up r le rec s1 tl set' cur bnd
    unfolding counts_ok_def entry_sum_def h'_def by auto
  then show ?thesis using that [OF run] by (simp add: h'_def)
qed

lemma popcount_push_0: "popcount (push_sample b 0) \<le> 1"
  by (cases b) (simp_all add: popcount_def push_sample_def HISTORY_LENGTH_def upt_rec bit_simps)

section \<open>The counter while a thief is away\<close>

lemma unat_GET_bounds: "unat (GET_SENTINEL d) < 2 ^ 32" "unat (GET_DISENGAGED d) < 2 ^ 32"
proof -
  have "unat d < 2 ^ 64" by (rule order.strict_trans2 [OF unsigned_less]) simp
  then show "unat (GET_SENTINEL d) < 2 ^ 32" "unat (GET_DISENGAGED d) < 2 ^ 32"
    by (simp_all add: unat_GET_SENTINEL unat_GET_DISENGAGED)
qed

lemma unat_ucast_GET:
  "unat (ucast (GET_SENTINEL d) :: u32) = unat (GET_SENTINEL d)"
  "unat (ucast (GET_DISENGAGED d) :: u32) = unat (GET_DISENGAGED d)"
  using unat_GET_bounds [of d] by (simp_all add: unsigned_ucast_eq take_bit_nat_eq_self)

lemma unat_u32: "unat (x :: u32) < 2 ^ 32"
  by (rule order.strict_trans2 [OF unsigned_less]) simp

lemma unat_ucast_up: "unat (ucast (x :: u32) :: u64) = unat x"
  using unat_u32 [of x] by (simp add: unsigned_ucast_eq take_bit_nat_eq_self)

lemma get_worker_counts_Some:
  assumes "get_worker_counts ds nw = Some c"
  shows "sentinels c = int (unat (GET_SENTINEL ds))" "disengaged c = int (unat (GET_DISENGAGED ds))"
    "unat (GET_SENTINEL ds) \<le> unat nw" "unat (GET_DISENGAGED ds) < unat nw"
proof -
  have c: "(ucast (GET_DISENGAGED ds) :: u32) < nw" "(ucast (GET_SENTINEL ds) :: u32) \<le> nw"
    "sentinels c = uint (ucast (GET_SENTINEL ds) :: u32)" "disengaged c = uint (ucast (GET_DISENGAGED ds) :: u32)"
    using assms by (auto simp: get_worker_counts_def Let_def bind_eq_Some_conv)
  show "sentinels c = int (unat (GET_SENTINEL ds))" "disengaged c = int (unat (GET_DISENGAGED ds))"
    using c(3,4) by (simp_all only: uint_nat unat_ucast_GET)
  show "unat (GET_SENTINEL ds) \<le> unat nw" "unat (GET_DISENGAGED ds) < unat nw"
    using c(1,2) by (simp_all only: word_le_nat_alt word_less_nat_alt unat_ucast_GET)
qed

lemma swap_keeps_counter:
  "swap_worker_with_target self t g = Some g' \<Longrightarrow> disengaged_sentinel g' = disengaged_sentinel g"
  by (auto simp: swap_worker_with_target_def bind_eq_Some_conv)

lemma leave_keeps_counter: "leave_stealing self d g = Some g' \<Longrightarrow> disengaged_sentinel g' = disengaged_sentinel g"
  by (auto simp: leave_stealing_def Let_def bind_eq_Some_conv unlock_index_def dest: swap_keeps_counter split: if_splits)

lemma record_event_counter [simp]: "disengaged_sentinel (record_event c d w g) = disengaged_sentinel g"
  by (simp add: record_event_def)

lemma thief_disengage_counter:
  "thief_disengage others self g = Some (v, g') \<Longrightarrow> disengaged_sentinel g' = disengaged_sentinel g"
proof (induction others self g rule: thief_disengage.induct)
  case (1 others self g)
  show ?case using "1.prems" "1.IH"
    by (auto simp: thief_disengage.simps [of others self g] Let_def split: if_splits list.splits interference.splits)
qed

lemma rejoin_counter:
  "rejoin_stealing self g = Some g' \<Longrightarrow> disengaged_sentinel g' = disengaged_sentinel g + DISENGAGED_SENTINEL (-1) 1"
  by (auto simp: rejoin_stealing_def lock_index_def Let_def bind_eq_Some_conv unlock_index_def
      dest: swap_keeps_counter split: if_splits)

lemma packed_leave:
  assumes "0 < unat (GET_SENTINEL d)" "unat (GET_DISENGAGED d) + 1 < 2 ^ 32"
  shows "DISENGAGED_SENTINEL (ucast ((ucast (GET_DISENGAGED d) :: u32) + 1)) ((ucast (GET_SENTINEL d) :: u32) - 1) +
    DISENGAGED_SENTINEL (-1) 1 = d"
proof -
  let ?a = "(ucast (GET_DISENGAGED d) :: u32) + 1" and ?b = "(ucast (GET_SENTINEL d) :: u32) - 1"
  let ?n = "DISENGAGED_SENTINEL (ucast ?a) ?b"
  have a: "unat ?a = unat (GET_DISENGAGED d) + 1"
    using assms(2) by (simp add: unat_word_ariths unat_ucast_GET)
  have b: "unat ?b = unat (GET_SENTINEL d) - 1"
    using assms(1) by (subst unat_sub) (simp_all add: word_le_nat_alt unat_ucast_GET)
  have hi: "uint (GET_DISENGAGED ?n) = uint (GET_DISENGAGED d) + 1"
  proof -
    have "GET_DISENGAGED ?n = ucast ?a" by (rule bit_eqI) (auto simp: get_packed bit_simps dest: bit_imp_le_length)
    then have "unat (GET_DISENGAGED ?n) = unat ?a" by (simp only: unat_ucast_up)
    then show ?thesis using a by (simp only: uint_nat)
  qed
  have lo: "uint (GET_SENTINEL ?n) = uint (GET_SENTINEL d) - 1"
  proof -
    have "unat (GET_SENTINEL ?n) = unat ?b" by (simp only: get_packed unat_ucast_up)
    then show ?thesis using b assms(1) by (simp only: uint_nat)
  qed
  have inc: "DISENGAGED_SENTINEL (-1) 1 = word_of_int (- (2 ^ 32) + 1)" by code_simp
  have "?n + DISENGAGED_SENTINEL (-1) 1 =
      word_of_int (uint (GET_DISENGAGED ?n) * 2 ^ 32 + uint (GET_SENTINEL ?n)) + word_of_int (- (2 ^ 32) + 1)"
    unfolding inc by (rule arg_cong [where f = "\<lambda>x. x + _", OF halves])
  also have "\<dots> = word_of_int (uint (GET_DISENGAGED d) * 2 ^ 32 + uint (GET_SENTINEL d))"
    unfolding hi lo by (simp only: wi_hom_add) (rule arg_cong [where f = word_of_int], simp)
  also have "\<dots> = d" by (rule halves [symmetric])
  finally show ?thesis .
qed

definition quiet_others :: "sleep_env \<Rightarrow> bool" where
  "quiet_others env \<longleftrightarrow> (\<forall>f \<in> insert (while_asleep env) (set (rounds env)). \<forall>g. disengaged_sentinel (f g) = disengaged_sentinel g)"

lemma try_to_disengage_counter:
  assumes run: "try_to_disengage_thief meanwhile waits self d g = Some (b, g')"
    and q: "\<And>g. disengaged_sentinel (meanwhile g) = disengaged_sentinel g"
    and c: "0 < unat (GET_SENTINEL d)" "unat (GET_DISENGAGED d) + 1 < 2 ^ 32"
  shows "disengaged_sentinel g' = disengaged_sentinel g"
proof (cases "b")
  case True
  then obtain g2 v g3 where
    s: "disengaged_sentinel g = d" "leave_stealing self (DISENGAGED_SENTINEL (ucast ((ucast (GET_DISENGAGED d) :: u32) + 1))
        ((ucast (GET_SENTINEL d) :: u32) - 1)) (g\<lparr>index_lock := True, disengaged_sentinel :=
        DISENGAGED_SENTINEL (ucast ((ucast (GET_DISENGAGED d) :: u32) + 1)) ((ucast (GET_SENTINEL d) :: u32) - 1)\<rparr>) = Some g2"
      "thief_disengage waits self (meanwhile g2) = Some (v, g3)" "rejoin_stealing self g3 = Some g'"
    using run by (auto simp: try_to_disengage_thief_def Let_def bind_eq_Some_conv split: if_splits)
  have "disengaged_sentinel g' = disengaged_sentinel g2 + DISENGAGED_SENTINEL (-1) 1"
    using rejoin_counter [OF s(4)] thief_disengage_counter [OF s(3)] q by simp
  also have "\<dots> = d" using leave_keeps_counter [OF s(2)] packed_leave [OF c] by simp
  finally show ?thesis using s(1) by simp
next
  case False
  then show ?thesis using run
    by (auto simp: try_to_disengage_thief_def Let_def bind_eq_Some_conv unlock_index_def split: if_splits)
qed

lemma maybe_disengage_counter:
  assumes "maybe_disengage_thief others meanwhile waits self nw g = Some (b, g')"
    and "\<And>f g. f \<in> insert meanwhile (set others) \<Longrightarrow> disengaged_sentinel (f g) = disengaged_sentinel g"
  shows "disengaged_sentinel g' = disengaged_sentinel g"
  using assms
proof (induction others meanwhile waits self nw g rule: maybe_disengage_thief.induct)
  case (1 others meanwhile waits self nw g)
  obtain c where c: "get_worker_counts (disengaged_sentinel g) nw = Some c"
    using 1(2) by (auto simp: maybe_disengage_thief.simps [of others] bind_eq_Some_conv Let_def)
  note w = get_worker_counts_Some [OF c]
  have room: "unat (GET_DISENGAGED (disengaged_sentinel g)) + 1 < 2 ^ 32"
    using w(4) unat_u32 [of nw] by simp
  show ?case
  proof (cases "is_inefficient c")
    case False
    then show ?thesis using 1(2) c by (simp add: maybe_disengage_thief.simps [of others] Let_def)
  next
    case True
    then have "1 < int (unat (GET_SENTINEL (disengaged_sentinel g)))" by (simp only: is_inefficient_def w(1))
    then have pos: "0 < unat (GET_SENTINEL (disengaged_sentinel g))" by linarith
    note t = try_to_disengage_counter [OF _ _ pos room]
    show ?thesis
    proof (cases others)
      case Nil
      then show ?thesis using 1(2,3) c True t by (auto simp: maybe_disengage_thief.simps [of "[]"] Let_def bind_eq_Some_conv split: if_splits)
    next
      case (Cons f fs)
      then obtain b1 g1 where r: "try_to_disengage_thief meanwhile waits self (disengaged_sentinel g) (f g) = Some (b1, g1)"
        "if b1 then (b, g') = (True, g1) else maybe_disengage_thief fs meanwhile waits self nw g1 = Some (b, g')"
        using 1(2) c True by (auto simp: maybe_disengage_thief.simps [of "f # fs"] Let_def bind_eq_Some_conv split: if_splits)
      have g1: "disengaged_sentinel g1 = disengaged_sentinel g" using t [OF r(1)] 1(3) Cons by simp
      show ?thesis
      proof (cases b1)
        case True
        then show ?thesis using r(2) g1 by simp
      next
        case False
        have "disengaged_sentinel g' = disengaged_sentinel g1"
          using 1(1) [OF refl c \<open>is_inefficient c\<close> Cons r(1) refl False] r(2) False 1(3) Cons by auto
        then show ?thesis using g1 by simp
      qed
    qed
  qed
qed

section \<open>Failed attempts\<close>

lemma unat_consts:
  "unat SENTINEL_THRESHOLD = 128" "unat ATTEMPTS = 4" "unat DISENGAGE_THRESHOLD = 3072"
  "unat (max_fails NAP_THRESHOLD) = 16384" "max_fails NAP_THRESHOLD = 16384"
  by code_simp+

lemma scaled_elapsed_multiple: "unat (get_scaled_elapsed e) mod 4 = 0"
proof -
  have "unat (x div ATTEMPTS * ATTEMPTS) = unat x div 4 * 4" for x :: u32
  proof -
    have "unat x div 4 * 4 < 2 ^ 32" using unat_u32 [of x] by (rule order.strict_trans1 [OF div_times_less_eq_dividend])
    then show ?thesis by (simp add: unat_word_ariths unat_div_distrib ATTEMPTS_def)
  qed
  then show ?thesis unfolding get_scaled_elapsed_def by simp
qed

lemma sentinel_count_counter: "disengaged_sentinel g' = disengaged_sentinel g \<Longrightarrow> sentinel_count g' = sentinel_count g"
  by (simp add: sentinel_count_def)

lemma sample_failure_ok:
  assumes c: "get_worker_counts ds nw = Some c" "unat nw \<le> 2 ^ 20" "0 < unat (GET_SENTINEL ds)" and ok: "counts_ok h"
    and run: "sample_failure c h = Some h1"
  shows "counts_ok h1 \<and> fails h1 = fails h \<and> sample_threshold h1 = sample_threshold h \<and>
    inefficient_history h1 = push_sample (is_inefficient c) (inefficient_history h)"
proof -
  note w = get_worker_counts_Some [OF c(1)]
  have cur: "word_of_int (sentinels c) = (of_nat (unat (GET_SENTINEL ds)) :: u32)"
    unfolding w(1) by (rule of_int_of_nat_eq)
  have un: "unat (of_nat (unat (GET_SENTINEL ds)) :: u32) = unat (GET_SENTINEL ds)"
    using unat_GET_bounds(1) [of ds] by (simp add: unat_ucast_GET)
  obtain h0 where h0: "record_sentinels (of_nat (unat (GET_SENTINEL ds))) h = Some h0" "counts_ok h0"
    "fails h0 = fails h" "sample_threshold h0 = sample_threshold h"
    "inefficient_history h0 = inefficient_history h" "efficient_history h0 = efficient_history h"
    by (rule record_sentinels_ok [OF ok, of "of_nat (unat (GET_SENTINEL ds))"]) (use un c w(3) in \<open>auto simp: unat_eq_zero\<close>)
  show ?thesis using run h0 unfolding sample_failure_def cur
    by (auto simp: counts_ok_def entry_sum_def)
qed

lemma forget_samples_ok:
  assumes "counts_ok h" "0 < sentinel_count g" "sentinel_count g \<le> 2 ^ 20"
  shows "counts_ok (forget_samples scaled g h)"
proof -
  let ?cur = "ucast (GET_SENTINEL (disengaged_sentinel g)) :: u32"
  have u: "unat ?cur = sentinel_count g" by (simp only: unat_ucast_GET sentinel_count_def)
  have n: "?cur \<noteq> 0" using u assms(2) by (metis less_irrefl unsigned_0)
  have "unat (?cur * SENTINEL_COUNT_HISTORY) = unat ?cur * 4"
    using assms(3) u by (simp add: unat_word_ariths SENTINEL_COUNT_HISTORY_def)
  then have "counts_ok (h\<lparr>sentinel_count_history := [?cur, ?cur, ?cur, ?cur], recent_sentinel_count := ?cur * SENTINEL_COUNT_HISTORY\<rparr>)"
    using assms n u by (auto simp: counts_ok_def entry_sum_def)
  then show ?thesis using assms(1) by (auto simp: forget_samples_def Let_def counts_ok_def entry_sum_def)
qed

lemma fails_after_disengaged:
  assumes "unat (fails h) mod 4 = 0" "unat (fails h) \<ge> 256" "unat (fails h) \<le> 16508"
  shows "unat (fails (after_disengaged e g h)) mod 4 = 0 \<and> unat (fails (after_disengaged e g h)) \<le> 16508 \<and>
    unat (fails (after_disengaged e g h)) \<ge> 128"
proof -
  let ?s = "get_scaled_elapsed (ucast e)"
  have f: "fails (forget_samples ?s g h) = fails h" by (simp add: forget_samples_def Let_def)
  show ?thesis
  proof (cases "?s < SENTINEL_THRESHOLD")
    case True
    then have s: "unat ?s < 128" by (simp add: word_less_nat_alt unat_consts)
    then have "?s \<le> fails h" using assms(2) by (simp add: word_le_nat_alt)
    then have "unat (fails h - ?s) = unat (fails h) - unat ?s" by (rule unat_sub)
    moreover have "(unat (fails h) - unat ?s) mod 4 = 0"
      using assms(1) scaled_elapsed_multiple [of "ucast e"] by (simp add: mod_eq_0_iff_dvd dvd_diff_nat)
    moreover have "128 \<le> unat (fails h) - unat ?s" "unat (fails h) - unat ?s \<le> 16508" using s assms(2,3) by linarith+
    ultimately show ?thesis using True f by (simp add: after_disengaged_def Let_def)
  next
    case False
    have "unat (DISENGAGE_THRESHOLD - SENTINEL_THRESHOLD) = 2944" by code_simp
    then show ?thesis using False f by (simp add: after_disengaged_def Let_def)
  qed
qed

lemma after_disengaged_other:
  "sample_threshold (after_disengaged e g h) = SENTINEL_THRESHOLD"
  "counts_ok (after_disengaged e g h) = counts_ok (forget_samples (get_scaled_elapsed (ucast e)) g h)"
  by (simp_all add: after_disengaged_def Let_def counts_ok_def entry_sum_def)

lemma ge_threshold: "f \<ge> SENTINEL_THRESHOLD \<longleftrightarrow> unat f \<ge> 128" "f < SENTINEL_THRESHOLD \<longleftrightarrow> unat f < 128" for f :: u32
  by (simp_all add: word_le_nat_alt word_less_nat_alt unat_consts)

lemma popcount_nonneg: "0 \<le> popcount x"
  by (simp add: popcount_def)

text \<open>What \<open>disengage_or_nap\<close> does to a sentinel.\<close>

lemma disengage_or_nap_ok:
  assumes run: "disengage_or_nap env self nw NAP_THRESHOLD b h g = Some (h', z, g')" and q: "quiet_others env"
    and ok: "counts_ok h" "unat (fails h) mod 4 = 0" "unat (fails h) \<le> 16508" "unat (fails h) \<ge> 128"
      "sample_threshold h \<ge> SENTINEL_THRESHOLD"
    and first: "unat (fails h) < 256 \<Longrightarrow> popcount (inefficient_history h) \<le> 1"
    and c: "0 < sentinel_count g" "sentinel_count g \<le> 2 ^ 20"
  shows "hist_ok h' \<and> fails h' \<ge> SENTINEL_THRESHOLD \<and> disengaged_sentinel g' = disengaged_sentinel g"
proof (cases "h' = h \<and> disengaged_sentinel g' = disengaged_sentinel g")
  case True
  then show ?thesis using ok by (auto simp: hist_ok_def ge_threshold)
next
  case False
  have keep: "maybe_disengage_thief (rounds env) (while_asleep env) (wake_ups env) self nw g = Some (d, g1) \<Longrightarrow>
      disengaged_sentinel g1 = disengaged_sentinel g" for d g1
    by (rule maybe_disengage_counter) (use q in \<open>auto simp: quiet_others_def\<close>)
  obtain g1 where r: "maybe_disengage_thief (rounds env) (while_asleep env) (wake_ups env) self nw g = Some (True, g1)"
    "g' = g1" "h' = after_disengaged (end_time env - start_time env) g1 h"
    "popcount (inefficient_history h) - popcount (efficient_history h) > HISTORY_THRESHOLD"
    using run False keep by (auto simp: disengage_or_nap_def bind_eq_Some_conv split: if_splits)
  have ds: "disengaged_sentinel g' = disengaged_sentinel g" using keep r(1,2) by simp
  have "unat (fails h) \<ge> 256"
    using first r(4) popcount_nonneg [of "efficient_history h"] by (force simp: sleep_consts)
  note f = fails_after_disengaged [OF ok(2) this ok(3)]
  have "counts_ok h'" unfolding r(3) after_disengaged_other
    by (rule forget_samples_ok) (use ok(1) c ds r(2) in \<open>simp_all add: sentinel_count_def\<close>)
  moreover have "\<not> unat (fails h') < 128" using f [of "end_time env - start_time env" g1] r(3) by (simp add: not_less)
  ultimately show ?thesis using f r(3) ds by (simp add: hist_ok_def ge_threshold after_disengaged_other)
qed

lemma failed_steals_ok:
  assumes "handle_failed_steal_attempts env self nw NAP_THRESHOLD h g = Some (h', z, g')"
    and "hist_ok h" "counted (fails h) \<le> sentinel_count g" "quiet_others env" "unat nw \<le> 2 ^ 20"
    and "sentinel_count g \<le> 2 ^ 20"
  shows "hist_ok h' \<and> sentinel_count g' + counted (fails h) = sentinel_count g + counted (fails h')"
proof -
  let ?h = "h\<lparr>fails := fails h + ATTEMPTS\<rparr>"
  have f: "unat (fails h) mod 4 = 0" "unat (fails h) \<le> 16508" and cnt: "counts_ok h"
    and st: "sample_threshold h \<ge> SENTINEL_THRESHOLD" and ineff: "unat (fails h) < 128 \<Longrightarrow> inefficient_history h = 0"
    using assms(2) by (auto simp: hist_ok_def ge_threshold)
  have fh: "unat (fails h + ATTEMPTS) = unat (fails h) + 4"
    using f by (simp add: unat_word_ariths unat_consts)
  have m: "fails h + ATTEMPTS \<noteq> 0" using fh by (metis add_is_0 unsigned_0 zero_neq_numeral)
  have mult: "(fails h + ATTEMPTS) mod SENTINEL_THRESHOLD = 0 \<longleftrightarrow> (unat (fails h) + 4) mod 128 = 0"
    using fh by (metis unat_consts(1) unat_eq_zero unat_mod_distrib)
  have hcnt: "counts_ok ?h" using cnt by (simp add: counts_ok_def entry_sum_def)
  consider (no) "(unat (fails h) + 4) mod 128 \<noteq> 0" | (top) "(unat (fails h) + 4) mod 128 = 0" "unat (fails h) + 4 > 16384"
    | (sample) "(unat (fails h) + 4) mod 128 = 0" "unat (fails h) + 4 \<le> 16384" by linarith
  then show ?thesis
  proof cases
    case no
    then have r: "h' = ?h" "g' = g" using assms(1) mult by (auto simp: handle_failed_steal_attempts_def Let_def)
    have "unat (fails h) \<noteq> 124" "unat (fails h) + 4 \<le> 16508" using no f by presburger+
    then show ?thesis using r hcnt f fh st ineff
      by (auto simp: hist_ok_def counted_def ge_threshold)
  next
    case top
    then have "fails h + ATTEMPTS > max_fails NAP_THRESHOLD" using fh by (simp add: word_less_nat_alt unat_consts)
    then have r: "h' = ?h\<lparr>fails := max_fails NAP_THRESHOLD\<rparr>" "g' = g"
      using assms(1) mult top by (auto simp: handle_failed_steal_attempts_def Let_def)
    have "counts_ok h'" using hcnt r(1) by (simp add: counts_ok_def entry_sum_def)
    then show ?thesis using r top st by (simp add: hist_ok_def counted_def ge_threshold unat_consts(4))
  next
    case sample
    define g1 where "g1 = (if SENTINEL_THRESHOLD = fails h + ATTEMPTS then snd (add_to_sentinels 1 g) else g)"
    have "\<not> fails h + ATTEMPTS > max_fails NAP_THRESHOLD" using fh sample by (simp add: word_less_nat_alt unat_consts(4))
    then obtain c h1 where r: "get_worker_counts (disengaged_sentinel g1) nw = Some c" "sample_failure c ?h = Some h1"
      "disengage_or_nap env self nw NAP_THRESHOLD (is_inefficient c) h1 g1 = Some (h', z, g')"
      using assms(1) mult sample by (auto simp: handle_failed_steal_attempts_def Let_def bind_eq_Some_conv g1_def)
    have eq: "SENTINEL_THRESHOLD = fails h + ATTEMPTS \<longleftrightarrow> unat (fails h) + 4 = 128"
      using fh unat_consts(1) word_eq_iff_unsigned [of SENTINEL_THRESHOLD "fails h + ATTEMPTS"] by (metis word_eq_iff_unsigned)
    have ge: "unat (fails h) + 4 \<ge> 128" using sample(1) by presburger
    have s1: "sentinel_count g1 + counted (fails h) = sentinel_count g + 1"
    proof (cases "unat (fails h) + 4 = 128")
      case True
      then have "sentinel_count g1 = sentinel_count g + 1"
        using add_to_sentinels_counts(1) [of g 1] assms(6) eq by (simp add: g1_def)
      then show ?thesis using True by (simp add: counted_def ge_threshold)
    next
      case False
      then have "unat (fails h) \<ge> 128" using ge sample(1) by presburger
      then show ?thesis using False eq by (simp add: g1_def counted_def ge_threshold)
    qed
    have pos: "0 < sentinel_count g1" using s1 assms(3) by linarith
    have le: "sentinel_count g1 \<le> 2 ^ 20" using get_worker_counts_Some(3) [OF r(1)] assms(5) by (simp add: sentinel_count_def)
    note h1 = sample_failure_ok [OF r(1) assms(5) pos [unfolded sentinel_count_def] hcnt r(2)]
    have first: "popcount (inefficient_history h1) \<le> 1" if "unat (fails h1) < 256"
    proof -
      have "unat (fails h) < 128" using that h1 fh sample(1) by simp presburger
      then show ?thesis using h1 ineff popcount_push_0 by simp
    qed
    have k1: "counts_ok h1" using h1 by blast
    have k2: "unat (fails h1) = unat (fails h) + 4" using h1 fh by simp
    have k3: "unat (fails h1) mod 4 = 0" unfolding k2 using f(1) by presburger
    have k4: "unat (fails h1) \<le> 16508" unfolding k2 using sample(2) by linarith
    have k5: "128 \<le> unat (fails h1)" unfolding k2 by (rule ge)
    have k6: "SENTINEL_THRESHOLD \<le> sample_threshold h1" using h1 st by simp
    have "hist_ok h' \<and> fails h' \<ge> SENTINEL_THRESHOLD \<and> disengaged_sentinel g' = disengaged_sentinel g1"
      by (rule disengage_or_nap_ok [OF r(3) assms(4) k1 k3 k4 k5 k6 first pos le])
    moreover from this have "sentinel_count g' = sentinel_count g1" by (intro sentinel_count_counter) blast
    ultimately show ?thesis using s1 by (simp add: counted_def)
  qed
qed

text \<open>A round of failed steals keeps the bookkeeping right, if no one else moves the counters
  meanwhile: the histories stay well-formed, and the number of sentinels changes exactly by what this
  worker's own fail count says, whether it crosses the threshold, naps, or is disengaged and woken.\<close>

theorem failed_steals_keep_sentinel_count:
  assumes "handle_failed_steal_attempts env self nw NAP_THRESHOLD h g = Some (h', z, g')"
    and "hist_ok h" "counted (fails h) \<le> sentinel_count g" "quiet_others env" "unat nw \<le> 2 ^ 20"
    and "sentinel_count g \<le> 2 ^ 20"
  shows "hist_ok h' \<and> sentinel_count g' + counted (fails h) = sentinel_count g + counted (fails h')"
  by (rule failed_steals_ok [OF assms])

section \<open>A successful attempt\<close>

lemma request_loop_counter: "disengaged_sentinel (snd (request_loop others self n g)) = disengaged_sentinel g"
proof (induction others self n g rule: request_loop.induct)
  case (1 others self cnt g)
  then show ?case
    by (auto simp: request_loop.simps [of others] Let_def split: list.split interference.split)
qed

lemma sample_success_ok:
  assumes c: "get_worker_counts ds nw = Some c" "unat nw \<le> 2 ^ 20" and ok: "counts_ok h"
  obtains i e h1 where "sample_success c h = Some (i, e, h1)" "counts_ok h1" "fails h1 = fails h"
    "sample_threshold h1 = sample_threshold h"
proof -
  note w = get_worker_counts_Some [OF c(1)]
  let ?cur = "word_of_int (sentinels c + 1) :: u32"
  have eq: "?cur = of_nat (unat (GET_SENTINEL ds) + 1)" unfolding w(1) by simp
  have un: "unat ?cur = unat (GET_SENTINEL ds) + 1"
    unfolding eq using w(3) c(2) by (subst unsigned_of_nat) (simp add: take_bit_nat_eq_self)
  have cur: "?cur \<noteq> 0" "unat ?cur \<le> 2 ^ 20 + 1" using un w(3) c(2) by auto
  show ?thesis
  proof (cases "fails h \<ge> sample_threshold h")
    case True
    obtain h1 where h1: "record_sentinels ?cur h = Some h1" "counts_ok h1" "fails h1 = fails h"
      "sample_threshold h1 = sample_threshold h"
      by (rule record_sentinels_ok [OF ok cur]) blast
    then show ?thesis using True by (intro that [of _ _ h1]) (simp_all add: sample_success_def Let_def)
  next
    case False
    then show ?thesis using ok by (intro that [of _ _ h]) (simp_all add: sample_success_def)
  qed
qed

lemma requested_thieves_ok:
  assumes "counts_ok h"
  obtains r h1 where "requested_thieves self i e h = Some (r, h1)" "counts_ok h1" "fails h1 = fails h"
    "sample_threshold h1 = sample_threshold h"
proof (cases "popcount e - popcount i < HISTORY_THRESHOLD")
  case True
  then show ?thesis using assms
    by (intro that [of 0 "h\<lparr>efficient_history := e, inefficient_history := i\<rparr>"])
      (simp_all add: requested_thieves_def counts_ok_def entry_sum_def)
next
  case False
  then show ?thesis using assms counts_ok_average [OF assms]
    by (intro that [of _ "h\<lparr>efficient_history := 0, inefficient_history := 0\<rparr>"])
      (simp_all add: requested_thieves_def Let_def counts_ok_def entry_sum_def)
qed

lemma maybe_reengage_ok:
  assumes h: "hist_ok h" and s: "counted (fails h) \<le> sentinel_count g" "sentinel_count g \<le> 2 ^ 20" "unat nw \<le> 2 ^ 20"
    and c: "fails h \<ge> SENTINEL_THRESHOLD \<Longrightarrow>
      \<exists>c. get_worker_counts (disengaged_sentinel g - 1) nw = Some c \<and> active c \<ge> 1"
  obtains h1 g1 where "maybe_reengage_workers others self nw h g = Some (h1, g1)" "hist_ok h1" "unat (fails h1) \<le> 128"
    "sentinel_count g1 + counted (fails h) = sentinel_count g"
proof (cases "fails h \<ge> SENTINEL_THRESHOLD")
  case False
  then show ?thesis using h by (intro that [of h g]) (simp_all add: maybe_reengage_workers_def counted_def ge_threshold)
next
  case True
  obtain c where c: "get_worker_counts (disengaged_sentinel g - 1) nw = Some c" "active c \<ge> 1" using assms(5) [OF True] by blast
  define g1 where "g1 = snd (add_to_sentinels (-1) g)"
  have a: "add_to_sentinels (-1) g = (disengaged_sentinel g, g1)" by (simp add: g1_def add_to_sentinels_def)
  have n1: "int (sentinel_count g1) = int (sentinel_count g) - 1"
    using add_to_sentinels_counts(1) [of g "-1"] s True by (simp add: g1_def counted_def)
  have cnt: "counts_ok h" using h by (simp add: hist_ok_def)
  obtain i e h1 where h1: "sample_success c h = Some (i, e, h1)" "counts_ok h1" "fails h1 = fails h"
    by (rule sample_success_ok [OF c(1) s(3) cnt])
  obtain r h2 where h2: "requested_thieves self i e h1 = Some (r, h2)" "counts_ok h2" "fails h2 = fails h1"
    by (rule requested_thieves_ok [OF h1(2)])
  let ?r = "keep_a_sentinel nw c g1 r"
  obtain g2 where g2: "(if sint ?r > 0 then do { (_, g') \<leftarrow> request_more_thieves others self ?r g1; Some g' } else Some g1) = Some g2"
    "disengaged_sentinel g2 = disengaged_sentinel g1"
  proof (cases "sint ?r > 0")
    case True
    then have "?r \<noteq> 0" by auto
    then show ?thesis using True that [of "snd (request_loop others self ?r g1)"] request_loop_counter
      by (auto simp: request_more_thieves_def word_gt_0 split_beta)
  qed (use that in simp)
  let ?f = "if fails h2 > SENTINEL_THRESHOLD then SENTINEL_THRESHOLD else fails h2"
  have f: "?f = SENTINEL_THRESHOLD" using True h1(3) h2(3) by auto
  define h3 where "h3 = h2\<lparr>fails := ?f, sample_threshold := ?f + SENTINEL_THRESHOLD\<rparr>"
  have run: "maybe_reengage_workers others self nw h g = Some (h3, g2)"
    using True a c h1(1) h2(1) g2(1) by (simp add: maybe_reengage_workers_def Let_def h3_def)
  have "SENTINEL_THRESHOLD \<le> SENTINEL_THRESHOLD + SENTINEL_THRESHOLD" by code_simp
  then have "hist_ok h3" using h2(2) unfolding h3_def f
    by (auto simp: hist_ok_def counts_ok_def entry_sum_def unat_consts)
  moreover have "unat (fails h3) \<le> 128" unfolding h3_def f by (simp add: unat_consts)
  moreover have "sentinel_count g2 = sentinel_count g1" by (simp only: sentinel_count_def g2(2))
  then have "sentinel_count g2 + counted (fails h) = sentinel_count g"
    using n1 True s(1) unfolding counted_def by (simp only: if_True)
  ultimately show ?thesis using that [OF run] by blast
qed

lemma after_work_ok:
  assumes h: "hist_ok h" and s: "sentinel_count g \<le> 2 ^ 20"
  obtains h1 g1 where "after_work elapsed h g = Some (h1, g1)" "hist_ok h1" "sentinel_count g1 = sentinel_count g + counted (fails h1)"
proof (cases "fails h > 2 * ATTEMPTS")
  case False
  have "unat (2 * ATTEMPTS) = 8" by code_simp
  then have "unat (fails h) < 128" using False by (simp add: word_less_nat_alt)
  then have "hist_ok (h\<lparr>fails := 0, sample_threshold := SENTINEL_THRESHOLD\<rparr>)"
    using h by (simp add: hist_ok_def ge_threshold counts_ok_def entry_sum_def)
  then show ?thesis using False
    by (intro that [of "h\<lparr>fails := 0, sample_threshold := SENTINEL_THRESHOLD\<rparr>" g])
      (simp_all add: after_work_def counted_def SENTINEL_THRESHOLD_def)
next
  case True
  let ?e = "get_scaled_elapsed (ucast elapsed)"
  let ?f = "if (ucast ?e :: u64) > ucast (fails h) then 0 else fails h - ucast (ucast ?e :: u64)"
  let ?st = "if (ucast ?e :: u64) > ucast (sample_threshold h) - ucast SENTINEL_THRESHOLD then SENTINEL_THRESHOLD
               else sample_threshold h - ucast (ucast ?e :: u64)"
  have dn: "ucast (ucast ?e :: u64) = ?e" by (rule bit_eqI) (auto simp: bit_simps)
  have gt: "(ucast ?e :: u64) > ucast (fails h) \<longleftrightarrow> unat ?e > unat (fails h)"
    by (simp only: word_less_nat_alt unat_ucast_up)
  have f: "unat ?f = unat (fails h) - unat ?e"
  proof (cases "unat ?e > unat (fails h)")
    case False
    then have "?e \<le> fails h" by (simp add: word_le_nat_alt)
    then show ?thesis using False gt dn by (simp add: unat_sub)
  qed (use gt in simp)
  have fm: "unat ?f mod 4 = 0"
    unfolding f using h scaled_elapsed_multiple [of "ucast elapsed"] by (simp add: hist_ok_def mod_eq_0_iff_dvd dvd_diff_nat)
  have fa: "?f mod ATTEMPTS = 0"
    using fm by (metis unat_consts(2) unat_eq_zero unat_mod_distrib)
  have st: "?st \<ge> SENTINEL_THRESHOLD"
  proof (cases "(ucast ?e :: u64) > ucast (sample_threshold h) - ucast SENTINEL_THRESHOLD")
    case False
    have sth: "unat (sample_threshold h) \<ge> 128" using h by (simp add: hist_ok_def ge_threshold)
    then have "unat (ucast (sample_threshold h) - ucast SENTINEL_THRESHOLD :: u64) = unat (sample_threshold h) - 128"
      by (subst unat_sub) (simp_all only: word_le_nat_alt unat_ucast_up unat_consts)
    then have le: "unat ?e \<le> unat (sample_threshold h) - 128"
      using False by (simp only: not_less word_le_nat_alt unat_ucast_up)
    then have "?e \<le> sample_threshold h" by (simp add: word_le_nat_alt)
    then show ?thesis using False dn le sth by (simp add: ge_threshold unat_sub)
  qed simp
  define g1 where "g1 = (if ?f \<ge> SENTINEL_THRESHOLD then snd (add_to_sentinels 1 g) else g)"
  define h0 where "h0 = h\<lparr>fails := ?f, sample_threshold := ?st\<rparr>"
  define h1 where "h1 = (if fails h0 < SENTINEL_THRESHOLD then h0\<lparr>inefficient_history := 0, efficient_history := 0\<rparr> else h0)"
  have run: "after_work elapsed h g = Some (h1, g1)"
    using True fa by (simp only: after_work_def decrease_fails_by_work_def Let_def g1_def h1_def h0_def) simp
  have f1: "fails h1 = ?f" by (simp add: h1_def h0_def)
  have "hist_ok h1"
    using h fm f st by (auto simp: hist_ok_def h1_def h0_def counts_ok_def entry_sum_def)
  moreover have "sentinel_count g1 = sentinel_count g + counted (fails h1)"
    using add_to_sentinels_counts(1) [of g 1] s unfolding f1 by (simp add: g1_def counted_def)
  ultimately show ?thesis using that [OF run] by blast
qed

text \<open>A thief that found work leaves the sentinels, never divides by zero while it decides how many
  thieves to ask for, and never fails its assertions if the counters fit the number of workers; when it
  comes back from the work its fail count is again a multiple of \<open>ATTEMPTS\<close>, and it is counted as a
  sentinel exactly if that count is still at the threshold.\<close>

theorem successful_steal_keeps_sentinel_count:
  assumes "hist_ok h" "counted (fails h) \<le> sentinel_count g" "sentinel_count g \<le> 2 ^ 20" "unat nw \<le> 2 ^ 20"
    and "fails h \<ge> SENTINEL_THRESHOLD \<Longrightarrow>
      \<exists>c. get_worker_counts (disengaged_sentinel g - 1) nw = Some c \<and> active c \<ge> 1"
  shows "\<exists>h1 g1 h2 g2. maybe_reengage_workers others self nw h g = Some (h1, g1) \<and>
    after_work elapsed h1 g1 = Some (h2, g2) \<and> hist_ok h2 \<and>
    sentinel_count g1 + counted (fails h) = sentinel_count g \<and>
    sentinel_count g2 = sentinel_count g1 + counted (fails h2)"
proof -
  obtain h1 g1 where 1: "maybe_reengage_workers others self nw h g = Some (h1, g1)" "hist_ok h1"
    "sentinel_count g1 + counted (fails h) = sentinel_count g"
    by (rule maybe_reengage_ok [OF assms])
  have "sentinel_count g1 \<le> 2 ^ 20" using 1(3) assms(3) by linarith
  then obtain h2 g2 where 2: "after_work elapsed h1 g1 = Some (h2, g2)" "hist_ok h2"
    "sentinel_count g2 = sentinel_count g1 + counted (fails h2)"
    by (rule after_work_ok [OF 1(2)])
  show ?thesis using 1 2 by blast
qed

text \<open>Eight workers, two of them sentinels; the thief below has just failed its 128th attempt.\<close>

definition eight_workers :: global_state where
  "eight_workers = (global_state_allocate 0)\<lparr>nworkers := 8, disengaged_sentinel := 2,
     index_to_worker := map of_nat [0..<8], worker_to_index := map of_nat [0..<8]\<rparr>"

definition undisturbed :: sleep_env where
  "undisturbed = \<lparr>rounds = [], while_asleep = (\<lambda>g. g), wake_ups = [Writes 1], start_time = 0, end_time = 1000\<rparr>"

theorem failed_steals_keep_sentinel_count_witness:
  "\<exists>h' z g'. handle_failed_steal_attempts undisturbed 3 8 NAP_THRESHOLD (new_history\<lparr>fails := 124\<rparr>) eight_workers =
     Some (h', z, g') \<and> fails h' = 128 \<and> sentinel_count g' = 3"
proof -
  let ?h = "new_history\<lparr>fails := 124\<rparr>"
  have "map_option (\<lambda>(h, z, g). fails h) (handle_failed_steal_attempts undisturbed 3 8 NAP_THRESHOLD ?h eight_workers) = Some 128"
    by code_simp
  then obtain h' z g' where run: "handle_failed_steal_attempts undisturbed 3 8 NAP_THRESHOLD ?h eight_workers = Some (h', z, g')"
    and f: "fails h' = 128" by auto
  have "hist_ok ?h" using new_history_ok by (simp add: hist_ok_def counts_ok_def entry_sum_def new_history_def)
  moreover have c: "counted (fails ?h) = 0" "counted 128 = 1" by (simp_all add: counted_def SENTINEL_THRESHOLD_def)
  moreover have s: "sentinel_count eight_workers = 2"
    by (simp add: sentinel_count_def eight_workers_def unat_GET_SENTINEL)
  moreover have "quiet_others undisturbed" by (simp add: quiet_others_def undisturbed_def)
  ultimately show ?thesis using failed_steals_keep_sentinel_count [OF run] run f by auto
qed

theorem successful_steal_keeps_sentinel_count_witness:
  "\<exists>h1 g1 h2 g2. maybe_reengage_workers [] 3 8 (new_history\<lparr>fails := 256\<rparr>) eight_workers = Some (h1, g1) \<and>
     after_work 1000000 h1 g1 = Some (h2, g2) \<and> sentinel_count g1 = 1 \<and> hist_ok h2"
proof -
  let ?h = "new_history\<lparr>fails := 256\<rparr>"
  have h: "hist_ok ?h" using new_history_ok by (simp add: hist_ok_def counts_ok_def entry_sum_def new_history_def SENTINEL_THRESHOLD_def)
  have c: "counted 256 = 1" by (simp add: counted_def SENTINEL_THRESHOLD_def)
  have s: "sentinel_count eight_workers = 2"
    by (simp add: sentinel_count_def eight_workers_def unat_GET_SENTINEL)
  have "map_option active (get_worker_counts (disengaged_sentinel eight_workers - 1) 8) = Some 7" by code_simp
  then have w: "\<exists>c. get_worker_counts (disengaged_sentinel eight_workers - 1) 8 = Some c \<and> active c \<ge> 1" by auto
  have b: "counted (fails ?h) \<le> sentinel_count eight_workers" "sentinel_count eight_workers \<le> 2 ^ 20"
    "unat (8 :: u32) \<le> 2 ^ 20" by (simp_all add: c s)
  from successful_steal_keeps_sentinel_count [OF h b w, of "[]" 3 1000000] show ?thesis using c s by auto
qed

end
