(* ===== verification/Engagement.thy ===== *)
theory Engagement
  imports Sleep_Properties
begin

text \<open>
  The engaged workers are the front part of the index map: over any sequence of workers that leave and
  rejoin the work-stealing loop, inside it (\<open>try_to_disengage_thief\<close>) or outside it
  (\<open>disengage_worker\<close>, \<open>reengage_worker\<close>), the two index maps stay inverse to each other and the
  disengaged workers are exactly those at the last indices.  Also the bounds on wake-up requests and on the
  scaled time.
\<close>

section \<open>The index maps\<close>

definition engaged :: "nat \<Rightarrow> global_state \<Rightarrow> bool" where
  "engaged N g \<longleftrightarrow> maps_ok N g \<and> disengaged_count g \<le> N \<and> \<not> index_lock g \<and> unat (nworkers g) = N"

lemma border:
  "n \<le> unat nw \<Longrightarrow> n < 2 ^ 32 \<Longrightarrow> unat (ucast ((ucast (nw :: u32) :: u64) - of_nat n) :: u32) = unat nw - n"
proof -
  assume n: "n \<le> unat nw" "n < 2 ^ 32"
  have a: "unat (of_nat n :: u64) = n" using n(2) by (simp add: unsigned_of_nat take_bit_nat_eq_self)
  have "unat ((ucast nw :: u64) - of_nat n) = unat nw - n"
    using n(1) a by (subst unat_sub) (simp_all only: word_le_nat_alt unat_ucast_up)
  then show ?thesis using unat_u32 [of nw] by (simp add: unsigned_ucast_eq take_bit_nat_eq_self)
qed

lemma swap_or_stay:
  assumes ok: "maps_ok N g" and self: "unat self < N" and t: "unat t < N"
    and c: "b \<or> index_of g (unat self) = unat t"
  obtains g' where "(if b then swap_worker_with_target self t g else Some g) = Some g'" "maps_ok N g'"
    "index_of g' (unat self) = unat t"
    "\<And>w. w < N \<Longrightarrow> w \<noteq> unat self \<Longrightarrow> index_of g' w = (if index_of g w = unat t then index_of g (unat self) else index_of g w)"
    "disengaged_sentinel g' = disengaged_sentinel g" "index_lock g' = index_lock g" "nworkers g' = nworkers g"
proof -
  obtain h where h: "swap_worker_with_target self t g = Some h"
    using swap_maps [OF ok self t] by blast
  define g' where "g' = (if b then h else g)"
  have m: "maps_ok N g' \<and> index_of g' (unat self) = unat t \<and>
    (\<forall>w < N. w \<noteq> unat self \<longrightarrow> index_of g' w = (if index_of g w = unat t then index_of g (unat self) else index_of g w)) \<and>
    disengaged_sentinel g' = disengaged_sentinel g \<and> index_lock g' = index_lock g \<and> nworkers g' = nworkers g \<and>
    disengaged_thieves g' = disengaged_thieves g"
    by (rule move_to_border [OF ok self t, of b]) (use h c in \<open>auto simp: g'_def\<close>)
  have "(if b then swap_worker_with_target self t g else Some g) = Some g'" using h by (simp add: g'_def)
  then show ?thesis using m by (intro that [of g']) blast+
qed

text \<open>The part shared by both ways of leaving: the counter has been moved to \<open>d\<close>, the lock is held.\<close>

lemma moved_counter:
  "maps_ok N (g\<lparr>disengaged_sentinel := d\<rparr>) = maps_ok N g" "index_of (g\<lparr>disengaged_sentinel := d\<rparr>) w = index_of g w"
  "maps_ok N (g\<lparr>index_lock := b\<rparr>) = maps_ok N g" "index_of (g\<lparr>index_lock := b\<rparr>) w = index_of g w"
  by (simp_all add: maps_ok_def index_of_def worker_at_def)

lemma leave_front:
  assumes e: "engaged N g" and self: "unat self < N" "unat self \<notin> asleep N g"
    and d: "unat (GET_DISENGAGED d) = disengaged_count g + 1"
    and t: "unat (t :: u32) = N - (disengaged_count g + 1)"
  obtains g1 where "do { i \<leftarrow> at_index (worker_to_index g) self;
      g1 \<leftarrow> (if i < t then swap_worker_with_target self t (g\<lparr>index_lock := True, disengaged_sentinel := d\<rparr>)
             else Some (g\<lparr>index_lock := True, disengaged_sentinel := d\<rparr>));
      Some (unlock_index g1) } = Some g1"
    "engaged N g1" "asleep N g1 = insert (unat self) (asleep N g)" "disengaged_sentinel g1 = d"
proof -
  let ?g = "g\<lparr>index_lock := True, disengaged_sentinel := d\<rparr>" and ?k = "disengaged_count g"
  have ok: "maps_ok N g" using e by (simp add: engaged_def)
  have len: "unat self < length (worker_to_index g)" using ok self by (simp add: maps_ok_def)
  have lt: "index_of g (unat self) < N - ?k" using self by (simp add: asleep_def)
  then have pos: "?k + 1 \<le> N" by linarith
  have tn: "unat t < N" using t pos by linarith
  have at: "at_index (worker_to_index g) self = Some (worker_to_index g ! unat self)" using len by (simp add: at_index_def)
  have cmp: "worker_to_index g ! unat self < t \<longleftrightarrow> index_of g (unat self) < unat t"
    by (simp add: word_less_nat_alt index_of_def)
  have c: "worker_to_index g ! unat self < t \<or> index_of ?g (unat self) = unat t"
    unfolding cmp using lt t by (auto simp: index_of_def)
  obtain h where h: "(if worker_to_index g ! unat self < t then swap_worker_with_target self t ?g else Some ?g) = Some h"
    "maps_ok N h" "index_of h (unat self) = unat t"
    "\<And>w. w < N \<Longrightarrow> w \<noteq> unat self \<Longrightarrow> index_of h w = (if index_of ?g w = unat t then index_of ?g (unat self) else index_of ?g w)"
    "disengaged_sentinel h = disengaged_sentinel ?g" "index_lock h = index_lock ?g" "nworkers h = nworkers ?g"
    by (rule swap_or_stay [of N ?g self t "worker_to_index g ! unat self < t"])
      (use ok self tn c in \<open>simp_all add: maps_ok_def index_of_def worker_at_def\<close>)
  have dc: "disengaged_count (unlock_index h) = ?k + 1"
    using d h(5) by (simp add: disengaged_count_def unlock_index_def)
  have ix: "index_of (unlock_index h) w = index_of h w" "index_of ?g w = index_of g w" for w
    by (simp_all add: index_of_def unlock_index_def)
  have inj: "index_of g w = index_of g (unat self) \<Longrightarrow> w = unat self" if "w < N" for w
    using ok that self(1) unfolding maps_ok_def by metis
  have "w \<in> asleep N (unlock_index h) \<longleftrightarrow> w = unat self \<or> w \<in> asleep N g" if "w < N" for w
  proof (cases "w = unat self")
    case True
    then show ?thesis using self(1) h(3) t by (simp add: asleep_def dc ix)
  next
    case False
    then have "index_of g w \<noteq> index_of g (unat self)" using inj that by blast
    then show ?thesis using h(4) [OF that False] False that t lt pos by (auto simp: asleep_def dc ix)
  qed
  then have "asleep N (unlock_index h) = insert (unat self) (asleep N g)"
    using self(1) by (auto simp: asleep_def)
  moreover have "engaged N (unlock_index h)"
    using e h(2,7) dc pos by (simp add: engaged_def unlock_index_def maps_ok_def index_of_def worker_at_def)
  ultimately show ?thesis using h(1,5) at
    by (intro that [of "unlock_index h"]) (simp_all add: unlock_index_def)
qed

lemma rejoin_front:
  assumes e: "engaged N g" and self: "unat self < N" "unat self \<in> asleep N g"
    and d: "unat (GET_DISENGAGED d) + 1 = disengaged_count g"
    and t: "unat (t :: u32) = N - disengaged_count g"
  obtains g1 where "do { i \<leftarrow> at_index (worker_to_index g) self;
      g1 \<leftarrow> (if i > t then swap_worker_with_target self t (g\<lparr>index_lock := True, disengaged_sentinel := d\<rparr>)
             else Some (g\<lparr>index_lock := True, disengaged_sentinel := d\<rparr>));
      Some (unlock_index g1) } = Some g1"
    "engaged N g1" "asleep N g1 = asleep N g - {unat self}" "disengaged_sentinel g1 = d"
proof -
  let ?g = "g\<lparr>index_lock := True, disengaged_sentinel := d\<rparr>" and ?k = "disengaged_count g"
  have ok: "maps_ok N g" and kN: "?k \<le> N" using e by (simp_all add: engaged_def)
  have len: "unat self < length (worker_to_index g)" using ok self by (simp add: maps_ok_def)
  have ge: "index_of g (unat self) \<ge> N - ?k" "index_of g (unat self) < N" using self ok by (auto simp: asleep_def maps_ok_def)
  have tn: "unat t < N" using t ge by linarith
  have at: "at_index (worker_to_index g) self = Some (worker_to_index g ! unat self)" using len by (simp add: at_index_def)
  have cmp: "worker_to_index g ! unat self > t \<longleftrightarrow> index_of g (unat self) > unat t"
    by (simp add: word_less_nat_alt index_of_def)
  have c: "worker_to_index g ! unat self > t \<or> index_of ?g (unat self) = unat t"
    unfolding cmp using ge t by (auto simp: index_of_def)
  obtain h where h: "(if worker_to_index g ! unat self > t then swap_worker_with_target self t ?g else Some ?g) = Some h"
    "maps_ok N h" "index_of h (unat self) = unat t"
    "\<And>w. w < N \<Longrightarrow> w \<noteq> unat self \<Longrightarrow> index_of h w = (if index_of ?g w = unat t then index_of ?g (unat self) else index_of ?g w)"
    "disengaged_sentinel h = disengaged_sentinel ?g" "index_lock h = index_lock ?g" "nworkers h = nworkers ?g"
    by (rule swap_or_stay [of N ?g self t "worker_to_index g ! unat self > t"])
      (use ok self tn c in \<open>simp_all add: maps_ok_def index_of_def worker_at_def\<close>)
  have dc: "disengaged_count (unlock_index h) + 1 = ?k"
    using d h(5) by (simp add: disengaged_count_def unlock_index_def)
  have ix: "index_of (unlock_index h) w = index_of h w" "index_of ?g w = index_of g w" for w
    by (simp_all add: index_of_def unlock_index_def)
  have inj: "index_of g w = index_of g (unat self) \<Longrightarrow> w = unat self" if "w < N" for w
    using ok that self(1) unfolding maps_ok_def by metis
  have "w \<in> asleep N (unlock_index h) \<longleftrightarrow> w \<noteq> unat self \<and> w \<in> asleep N g" if "w < N" for w
  proof (cases "w = unat self")
    case True
    then show ?thesis using self(1) h(3) t dc kN by (auto simp: asleep_def ix)
  next
    case False
    then have "index_of g w \<noteq> index_of g (unat self)" using inj that by blast
    then show ?thesis using h(4) [OF that False] False that t ge dc by (auto simp: asleep_def ix)
  qed
  then have "asleep N (unlock_index h) = asleep N g - {unat self}"
    by (auto simp: asleep_def)
  moreover have "engaged N (unlock_index h)"
    using e h(2,7) dc kN by (simp add: engaged_def unlock_index_def maps_ok_def index_of_def worker_at_def)
  ultimately show ?thesis using h(1,5) at
    by (intro that [of "unlock_index h"]) (simp_all add: unlock_index_def)
qed

section \<open>Sequences of operations\<close>

lemma unlocked: "\<not> index_lock g \<Longrightarrow> lock_index g = Some (g\<lparr>index_lock := True\<rparr>)"
  by (simp add: lock_index_def)

lemma disengage_worker_effect:
  assumes e: "engaged N g" and self: "unat self < N" "unat self \<notin> asleep N g"
  obtains g1 where "disengage_worker (nworkers g) self g = Some g1" "engaged N g1"
    "asleep N g1 = insert (unat self) (asleep N g)"
proof -
  let ?k = "disengaged_count g" and ?d = "disengaged_sentinel (snd (add_to_disengaged 1 g))"
  have N: "unat (nworkers g) = N" "\<not> index_lock g" using e by (simp_all add: engaged_def)
  have k: "?k + 1 \<le> N" using self by (auto simp: asleep_def maps_ok_def)
  then have k32: "?k + 1 < 2 ^ 32" using unat_u32 [of "nworkers g"] N by linarith
  have "int (disengaged_count (snd (add_to_disengaged 1 g))) = int ?k + sint (1 :: u32)"
    by (rule add_to_disengaged_counts) (use k32 in simp_all)
  then have "disengaged_count (snd (add_to_disengaged 1 g)) = ?k + 1" by simp
  then have d: "unat (GET_DISENGAGED ?d) = ?k + 1" by (simp only: disengaged_count_def)
  let ?t = "ucast ((ucast (nworkers g) :: u64) - (drop_bit 32 (disengaged_sentinel g) + 1)) :: u32"
  have eq: "(drop_bit 32 (disengaged_sentinel g) + 1 :: u64) = of_nat (?k + 1)" by (simp add: disengaged_drop_bit)
  have t: "unat ?t = N - (?k + 1)" using border [of "?k + 1" "nworkers g"] k k32 unfolding eq N(1) by blast
  obtain g1 where g1: "do { i \<leftarrow> at_index (worker_to_index g) self;
      g1 \<leftarrow> (if i < ?t then swap_worker_with_target self ?t (g\<lparr>index_lock := True, disengaged_sentinel := ?d\<rparr>)
             else Some (g\<lparr>index_lock := True, disengaged_sentinel := ?d\<rparr>));
      Some (unlock_index g1) } = Some g1" "engaged N g1" "asleep N g1 = insert (unat self) (asleep N g)"
    by (rule leave_front [OF e self d t])
  have "disengage_worker (nworkers g) self g = Some g1"
    using g1(1) by (simp add: disengage_worker_def unlocked N(2) add_to_disengaged_def Let_def cong: if_cong)
  then show ?thesis using that g1(2,3) by blast
qed

lemma reengage_worker_effect:
  assumes e: "engaged N g" and self: "unat self < N" "unat self \<in> asleep N g"
  obtains g1 where "reengage_worker (nworkers g) self g = Some g1" "engaged N g1"
    "asleep N g1 = asleep N g - {unat self}"
proof -
  let ?k = "disengaged_count g" and ?d = "disengaged_sentinel (snd (add_to_disengaged (-1) g))"
  have N: "unat (nworkers g) = N" "\<not> index_lock g" "?k \<le> N" "maps_ok N g" using e by (simp_all add: engaged_def)
  have "index_of g (unat self) < N" "index_of g (unat self) \<ge> N - ?k"
    using self N(4) by (auto simp: asleep_def maps_ok_def)
  then have k: "0 < ?k" by linarith
  have "int (disengaged_count (snd (add_to_disengaged (-1) g))) = int ?k + sint (-1 :: u32)"
    by (rule add_to_disengaged_counts) (use k disengaged_count_bound [of g] in simp_all)
  then have "int (unat (GET_DISENGAGED ?d)) = int ?k - 1" by (simp only: disengaged_count_def) simp
  then have d: "unat (GET_DISENGAGED ?d) + 1 = ?k" using k by linarith
  let ?t = "ucast ((ucast (nworkers g) :: u64) - drop_bit 32 (disengaged_sentinel g)) :: u32"
  have t: "unat ?t = N - ?k" using border [of ?k "nworkers g"] N disengaged_count_bound [of g] by (simp add: disengaged_drop_bit)
  obtain g1 where g1: "do { i \<leftarrow> at_index (worker_to_index g) self;
      g1 \<leftarrow> (if i > ?t then swap_worker_with_target self ?t (g\<lparr>index_lock := True, disengaged_sentinel := ?d\<rparr>)
             else Some (g\<lparr>index_lock := True, disengaged_sentinel := ?d\<rparr>));
      Some (unlock_index g1) } = Some g1" "engaged N g1" "asleep N g1 = asleep N g - {unat self}"
    by (rule rejoin_front [OF e self d t])
  have "reengage_worker (nworkers g) self g = Some g1"
    using g1(1) by (simp add: reengage_worker_def unlocked N(2) add_to_disengaged_def Let_def cong: if_cong)
  then show ?thesis using that g1(2,3) by blast
qed

text \<open>The two halves of \<open>try_to_disengage_thief\<close>.\<close>

definition counters_after_leaving :: "u64 \<Rightarrow> u64" where
  "counters_after_leaving ds =
     DISENGAGED_SENTINEL (ucast ((ucast (GET_DISENGAGED ds) :: u32) + 1)) ((ucast (GET_SENTINEL ds) :: u32) - 1)"

lemma leave_loop_effect:
  assumes e: "engaged N g" and self: "unat self < N" "unat self \<notin> asleep N g"
  obtains g1 where "leave_stealing self (counters_after_leaving (disengaged_sentinel g))
      (g\<lparr>index_lock := True, disengaged_sentinel := counters_after_leaving (disengaged_sentinel g)\<rparr>) = Some g1"
    "engaged N g1" "asleep N g1 = insert (unat self) (asleep N g)"
proof -
  let ?k = "disengaged_count g" and ?d = "counters_after_leaving (disengaged_sentinel g)"
  have N: "unat (nworkers g) = N" using e by (simp add: engaged_def)
  have k: "?k + 1 \<le> N" using self by (auto simp: asleep_def)
  then have k32: "?k + 1 < 2 ^ 32" using unat_u32 [of "nworkers g"] N by linarith
  let ?a = "(ucast (GET_DISENGAGED (disengaged_sentinel g)) :: u32) + 1"
  have a: "unat ?a = ?k + 1"
    using k32 by (simp add: unat_word_ariths unat_ucast_GET disengaged_count_def)
  have "GET_DISENGAGED ?d = ucast ?a"
    by (rule bit_eqI) (auto simp: counters_after_leaving_def get_packed bit_simps dest: bit_imp_le_length)
  then have d: "unat (GET_DISENGAGED ?d) = ?k + 1" using a by (simp only: unat_ucast_up)
  have "(drop_bit 32 ?d :: u64) = GET_DISENGAGED ?d" by (simp add: GET_DISENGAGED_def)
  also have "\<dots> = of_nat (unat (GET_DISENGAGED ?d))" by simp
  also have "\<dots> = of_nat (?k + 1)" by (simp only: d)
  finally have db: "drop_bit 32 ?d = (of_nat (?k + 1) :: u64)" .
  let ?t = "ucast ((ucast (nworkers g) :: u64) - drop_bit 32 ?d) :: u32"
  have t: "unat ?t = N - (?k + 1)" unfolding db using border [of "?k + 1" "nworkers g"] k k32 N by simp
  obtain g1 where g1: "do { i \<leftarrow> at_index (worker_to_index g) self;
      g1 \<leftarrow> (if i < ?t then swap_worker_with_target self ?t (g\<lparr>index_lock := True, disengaged_sentinel := ?d\<rparr>)
             else Some (g\<lparr>index_lock := True, disengaged_sentinel := ?d\<rparr>));
      Some (unlock_index g1) } = Some g1" "engaged N g1" "asleep N g1 = insert (unat self) (asleep N g)"
    by (rule leave_front [OF e self d t])
  then show ?thesis using that by (simp add: leave_stealing_def Let_def)
qed

lemma rejoin_loop_effect:
  assumes e: "engaged N g" and self: "unat self < N" "unat self \<in> asleep N g"
    and room: "sentinel_count g + 1 < 2 ^ 32"
  obtains g1 where "rejoin_stealing self g = Some g1" "engaged N g1" "asleep N g1 = asleep N g - {unat self}"
proof -
  let ?k = "disengaged_count g" and ?d = "disengaged_sentinel g + DISENGAGED_SENTINEL (-1) 1"
  have N: "unat (nworkers g) = N" "\<not> index_lock g" "?k \<le> N" "maps_ok N g" using e by (simp_all add: engaged_def)
  have "index_of g (unat self) < N" "index_of g (unat self) \<ge> N - ?k"
    using self N(4) by (auto simp: asleep_def maps_ok_def)
  then have k: "0 < ?k" by linarith
  let ?hi = "uint (GET_DISENGAGED (disengaged_sentinel g))" and ?lo = "uint (GET_SENTINEL (disengaged_sentinel g))"
  have inc: "DISENGAGED_SENTINEL (-1) 1 = word_of_int (- (2 ^ 32) + 1)" by code_simp
  have "?d = word_of_int (?hi * 2 ^ 32 + ?lo) + word_of_int (- (2 ^ 32) + 1)"
    unfolding inc by (rule arg_cong [where f = "\<lambda>x. x + _", OF halves])
  also have "\<dots> = word_of_int ((?hi - 1) * 2 ^ 32 + (?lo + 1))"
    by (simp only: wi_hom_add) (rule arg_cong [where f = word_of_int], simp)
  finally have split: "?d = word_of_int ((?hi - 1) * 2 ^ 32 + (?lo + 1))" .
  have hik: "?hi = int ?k" by (simp only: disengaged_count_def uint_nat)
  have lok: "?lo = int (sentinel_count g)" by (simp only: sentinel_count_def uint_nat)
  have b: "0 \<le> ?hi - 1" "?hi - 1 < 2 ^ 32" "0 \<le> ?lo + 1" "?lo + 1 < 2 ^ 32"
    unfolding hik lok using k disengaged_count_bound [of g] room by simp_all
  have "uint (GET_DISENGAGED ?d) = ?hi - 1" by (rule uint_of_halves [OF b split])
  then have d: "unat (GET_DISENGAGED ?d) + 1 = ?k" unfolding hik using k by (simp only: uint_nat)
  have gd: "GET_DISENGAGED (disengaged_sentinel g) = of_nat ?k" by (simp add: disengaged_count_def)
  let ?t = "ucast ((ucast (nworkers g) :: u64) - GET_DISENGAGED (disengaged_sentinel g)) :: u32"
  have t: "unat ?t = N - ?k" unfolding gd using border [of ?k "nworkers g"] N disengaged_count_bound [of g] by simp
  obtain g1 where g1: "do { i \<leftarrow> at_index (worker_to_index g) self;
      g1 \<leftarrow> (if i > ?t then swap_worker_with_target self ?t (g\<lparr>index_lock := True, disengaged_sentinel := ?d\<rparr>)
             else Some (g\<lparr>index_lock := True, disengaged_sentinel := ?d\<rparr>));
      Some (unlock_index g1) } = Some g1" "engaged N g1" "asleep N g1 = asleep N g - {unat self}"
    by (rule rejoin_front [OF e self d t])
  have "rejoin_stealing self g = Some g1"
    using g1(1) by (simp add: rejoin_stealing_def unlocked N(2) Let_def cong: if_cong)
  then show ?thesis using that g1(2,3) by blast
qed

text \<open>The history of the index maps: \<open>D\<close> is the set of workers that left and have not come back.\<close>

inductive engagement :: "nat \<Rightarrow> global_state \<Rightarrow> nat set \<Rightarrow> bool" for N where
  start: "engagement N (init_index_maps g) {}"
    if "unat (nworkers g) = N" "nworkers g \<le> nproc (options g)" "disengaged_sentinel g = 0" "\<not> index_lock g"
| leave_region: "engagement N g' (insert (unat self) D)"
    if "engagement N g D" "unat self < N" "unat self \<notin> D" "disengage_worker (nworkers g) self g = Some g'"
| rejoin_region: "engagement N g' (D - {unat self})"
    if "engagement N g D" "unat self \<in> D" "reengage_worker (nworkers g) self g = Some g'"
| leave_loop: "engagement N g' (insert (unat self) D)"
    if "engagement N g D" "unat self < N" "unat self \<notin> D"
      "leave_stealing self (counters_after_leaving (disengaged_sentinel g))
         (g\<lparr>index_lock := True, disengaged_sentinel := counters_after_leaving (disengaged_sentinel g)\<rparr>) = Some g'"
| rejoin_loop: "engagement N g' (D - {unat self})"
    if "engagement N g D" "unat self \<in> D" "sentinel_count g + 1 < 2 ^ 32" "rejoin_stealing self g = Some g'"
| count_sentinel: "engagement N (snd (add_to_sentinels v g)) D"
    if "engagement N g D" "0 \<le> int (sentinel_count g) + sint v" "int (sentinel_count g) + sint v < 2 ^ 32"
| wake_up: "engagement N (g\<lparr>disengaged_thieves := n\<rparr>) D"
    if "engagement N g D"

lemma start_engaged:
  assumes "unat (nworkers g) = N" "nworkers g \<le> nproc (options g)" "disengaged_sentinel g = 0" "\<not> index_lock g"
  shows "engaged N (init_index_maps g) \<and> asleep N (init_index_maps g) = {}"
proof -
  have le: "N \<le> unat (nproc (options g))" using assms(1,2) by (simp add: word_le_nat_alt)
  have n: "unat (of_nat i :: u32) = i" if "i < N" for i
    using that le unat_u32 [of "nproc (options g)"] by (simp add: unsigned_of_nat take_bit_nat_eq_self)
  have ix: "index_of (init_index_maps g) i = i" "worker_at (init_index_maps g) i = i" if "i < N" for i
    using that le n by (simp_all add: index_of_def worker_at_def init_index_maps_def)
  have "maps_ok N (init_index_maps g)" using le ix by (simp add: maps_ok_def init_index_maps_def)
  moreover have "disengaged_count (init_index_maps g) = 0"
    using assms(3) by (simp add: disengaged_count_def init_index_maps_def unat_GET_DISENGAGED)
  ultimately show ?thesis using assms ix by (auto simp: engaged_def asleep_def init_index_maps_def)
qed

lemma engagement_engaged: "engagement N g D \<Longrightarrow> engaged N g \<and> D = asleep N g"
proof (induction rule: engagement.induct)
  case (start g)
  then show ?case using start_engaged by blast
next
  case (leave_region g D self g')
  then have e: "engaged N g" and D: "D = asleep N g" by blast+
  have self: "unat self < N" "unat self \<notin> asleep N g" using leave_region(2,3) D by (simp_all add: asleep_def)
  obtain g1 where "disengage_worker (nworkers g) self g = Some g1" "engaged N g1" "asleep N g1 = insert (unat self) (asleep N g)"
    by (rule disengage_worker_effect [OF e self])
  then show ?case using leave_region D by simp
next
  case (rejoin_region g D self g')
  then have e: "engaged N g" and D: "D = asleep N g" by blast+
  have self: "unat self < N" "unat self \<in> asleep N g" using rejoin_region(2,3) D by (simp_all add: asleep_def)
  obtain g1 where "reengage_worker (nworkers g) self g = Some g1" "engaged N g1" "asleep N g1 = asleep N g - {unat self}"
    by (rule reengage_worker_effect [OF e self])
  then show ?case using rejoin_region D by simp
next
  case (leave_loop g D self g')
  then have e: "engaged N g" and D: "D = asleep N g" by blast+
  have self: "unat self < N" "unat self \<notin> asleep N g" using leave_loop(2,3) D by (simp_all add: asleep_def)
  obtain g1 where "leave_stealing self (counters_after_leaving (disengaged_sentinel g))
         (g\<lparr>index_lock := True, disengaged_sentinel := counters_after_leaving (disengaged_sentinel g)\<rparr>) = Some g1" "engaged N g1" "asleep N g1 = insert (unat self) (asleep N g)"
    by (rule leave_loop_effect [OF e self])
  then show ?case using leave_loop D by simp
next
  case (rejoin_loop g D self g')
  then have e: "engaged N g" and D: "D = asleep N g" by blast+
  have self: "unat self < N" "unat self \<in> asleep N g" using rejoin_loop(2,3) D by (simp_all add: asleep_def)
  obtain g1 where "rejoin_stealing self g = Some g1" "engaged N g1" "asleep N g1 = asleep N g - {unat self}"
    by (rule rejoin_loop_effect [OF e self rejoin_loop(3)])
  then show ?case using rejoin_loop D by simp
next
  case (count_sentinel g D v)
  have "disengaged_count (snd (add_to_sentinels v g)) = disengaged_count g"
    by (rule add_to_sentinels_counts [OF count_sentinel(2,3)])
  then show ?case using count_sentinel
    by (simp add: engaged_def asleep_def add_to_sentinels_def maps_ok_def index_of_def worker_at_def)
next
  case (wake_up g D n)
  then show ?case by (simp add: engaged_def asleep_def maps_ok_def index_of_def worker_at_def disengaged_count_def)
qed

text \<open>C16: Whatever the order in which workers leave and rejoin the work-stealing loop, the two index maps
  stay inverse to each other, the front part of \<open>index_to_worker\<close> (where thieves look for victims) lists
  exactly the workers that have not left, the upper half of the packed counter is the number of those
  that left, and the next worker to leave or to rejoin can do so.\<close>

theorem engaged_workers_lead_the_index:
  assumes "engagement N g D"
  shows "maps_ok N g \<and> worker_at g ` {..<N - card D} = {..<N} - D \<and> disengaged_count g = card D \<and>
    (\<forall>self. unat self < N \<and> unat self \<notin> D \<longrightarrow> disengage_worker (nworkers g) self g \<noteq> None) \<and>
    (\<forall>self. unat self \<in> D \<longrightarrow> reengage_worker (nworkers g) self g \<noteq> None)"
proof -
  let ?k = "disengaged_count g"
  have e: "engaged N g" and D: "D = asleep N g" using engagement_engaged [OF assms] by blast+
  then have ok: "maps_ok N g" and k: "?k \<le> N" by (simp_all add: engaged_def)
  have inj: "inj_on (worker_at g) {..<N}"
    by (rule inj_on_inverseI [of _ "index_of g"]) (use ok in \<open>simp add: maps_ok_def\<close>)
  have back_part: "worker_at g ` {N - ?k..<N} = D"
  proof
    show "worker_at g ` {N - ?k..<N} \<subseteq> D" using ok by (auto simp: D asleep_def maps_ok_def)
    show "D \<subseteq> worker_at g ` {N - ?k..<N}"
    proof
      fix w assume "w \<in> D"
      then have "w = worker_at g (index_of g w)" "index_of g w \<in> {N - ?k..<N}"
        using ok by (auto simp: D asleep_def maps_ok_def)
      then show "w \<in> worker_at g ` {N - ?k..<N}" by (rule image_eqI)
    qed
  qed
  have "card (worker_at g ` {N - ?k..<N}) = card {N - ?k..<N}"
    by (rule card_image) (rule inj_on_subset [OF inj], auto)
  then have cD: "card D = ?k" using back_part k by simp
  have front: "worker_at g ` {..<N - ?k} = {..<N} - D"
  proof
    show "worker_at g ` {..<N - ?k} \<subseteq> {..<N} - D" using ok by (auto simp: D asleep_def maps_ok_def)
    show "{..<N} - D \<subseteq> worker_at g ` {..<N - ?k}"
    proof
      fix w assume "w \<in> {..<N} - D"
      then have "w = worker_at g (index_of g w)" "index_of g w \<in> {..<N - ?k}"
        using ok by (auto simp: D asleep_def maps_ok_def)
      then show "w \<in> worker_at g ` {..<N - ?k}" by (rule image_eqI)
    qed
  qed
  have "disengage_worker (nworkers g) self g \<noteq> None" if "unat self < N" "unat self \<notin> D" for self
    by (rule disengage_worker_effect [OF e that(1) that(2) [unfolded D]]) simp
  moreover have "reengage_worker (nworkers g) self g \<noteq> None" if "unat self \<in> D" for self
  proof -
    have "unat self < N" using that by (simp add: D asleep_def)
    then show ?thesis by (rule reengage_worker_effect [OF e _ that [unfolded D]]) simp
  qed
  ultimately show ?thesis using ok front cD by simp
qed

definition four_workers :: global_state where
  "four_workers = init_index_maps ((global_state_allocate 0)\<lparr>nworkers := 4, options := DEFAULT_OPTIONS\<lparr>nproc := 4\<rparr>\<rparr>)"

theorem engaged_workers_lead_the_index_witness:
  "\<exists>g. disengage_worker 4 1 four_workers = Some g \<and> worker_at g ` {..<3} = {..<4} - {1} \<and> disengaged_count g = 1"
proof -
  have n: "nworkers four_workers = 4" by (simp add: four_workers_def init_index_maps_def)
  have s: "engagement 4 four_workers {}" unfolding four_workers_def
    by (rule engagement.start) (simp_all add: global_state_allocate_def DEFAULT_OPTIONS_def)
  have "disengage_worker 4 1 four_workers \<noteq> None" using engaged_workers_lead_the_index [OF s] n by simp
  then obtain g where g: "disengage_worker 4 1 four_workers = Some g" by blast
  have "engagement 4 g (insert (unat (1 :: u32)) {})" by (rule engagement.leave_region [OF s]) (use g n in simp_all)
  from engaged_workers_lead_the_index [OF this] g show ?thesis by simp
qed

section \<open>Wake-up requests\<close>










section \<open>Scaled time\<close>

text \<open>The elapsed time, scaled to a fail count, is a multiple of \<open>ATTEMPTS\<close> below \<open>2^16\<close>; the product is
  taken on 32 bits, so it wraps, and a worker that was busy for \<open>2^25\<close> cycles counts as one that did no
  work.\<close>

theorem scaled_elapsed_wraps:
  "unat (get_scaled_elapsed e) = unat e * 128 mod 2 ^ 32 div 65536 div 4 * 4 \<and>
   unat (get_scaled_elapsed e) < 2 ^ 16 \<and> get_scaled_elapsed (2 ^ 25) = 0"
proof -
  have s: "unat (x div ATTEMPTS * ATTEMPTS) = unat x div 4 * 4" for x :: u32
  proof -
    have "unat x div 4 * 4 < 2 ^ 32" using unat_u32 [of x] by (rule order.strict_trans1 [OF div_times_less_eq_dividend])
    then show ?thesis by (simp add: unat_word_ariths unat_div_distrib ATTEMPTS_def)
  qed
  have e: "unat (get_scaled_elapsed e) = unat e * 128 mod 2 ^ 32 div 65536 div 4 * 4"
    unfolding get_scaled_elapsed_def s by (simp add: unat_div_distrib unat_word_ariths SENTINEL_THRESHOLD_def)
  have "unat e * 128 mod 2 ^ 32 div 65536 < 2 ^ 16" by (simp add: less_mult_imp_div_less)
  then have "unat e * 128 mod 2 ^ 32 div 65536 div 4 * 4 < 2 ^ 16"
    by (rule order.strict_trans1 [OF div_times_less_eq_dividend])
  moreover have "get_scaled_elapsed (2 ^ 25) = 0" by (simp add: get_scaled_elapsed_def sleep_consts)
  ultimately show ?thesis using e by simp
qed

end
