(* ===== verification/Fiber_Properties.thy ===== *)
theory Fiber_Properties
  imports Engagement
begin

text \<open>
  From the environment to the last fiber: the options a process starts with keep the assertions of the
  fiber pools true, and over any sequence of allocations and releases no fiber is handed out twice and
  none is leaked; after shutdown only the fibers still in use are mapped.
\<close>

section \<open>Options\<close>

definition options_ok :: "global_state \<Rightarrow> bool" where
  "options_ok g \<longleftrightarrow> 16384 \<le> stacksize (options g) \<and> stacksize (options g) \<le> 104857600 \<and>
     1 \<le> deqdepth (options g) \<and> deqdepth (options g) \<le> 99999 \<and>
     fiber_pool_cap (options g) \<noteq> 1 \<and> fiber_pool_cap (options g) \<le> 999999"

lemma set_options_ok:
  "set_stacksize g n = Some g' \<Longrightarrow> options_ok g \<Longrightarrow> options_ok g'"
  "set_deqdepth g d = Some g' \<Longrightarrow> options_ok g \<Longrightarrow> options_ok g'"
  "set_fiber_pool_cap g c = Some g' \<Longrightarrow> options_ok g \<Longrightarrow> c \<noteq> 1 \<Longrightarrow> options_ok g'"
  "parse_nproc p cores online g = Some g' \<Longrightarrow> options_ok g \<Longrightarrow> options_ok g'"
  by (auto simp: set_stacksize_def set_deqdepth_def set_fiber_pool_cap_def parse_nproc_def options_ok_def
      upd_options_def split: if_splits)

lemma parse_options_ok:
  assumes run: "parse_rts_environment getenv cores online g = Some g'" and g: "options_ok g"
  shows "options_ok g'"
proof -
  let ?a = "word_of_int (env_get_int getenv ''CILK_STACKSIZE'' 0) :: u64"
    and ?d = "word_of_int (env_get_int getenv ''CILK_DEQDEPTH'' 0) :: u32"
    and ?c = "word_of_int (env_get_int getenv ''CILK_FIBER_POOL'' (-1)) :: u32"
  obtain g1 g2 g3 where s: "(if ?a > 0 then set_stacksize g ?a else Some g) = Some g1"
    "(if ?d > 0 then set_deqdepth g1 ?d else Some g1) = Some g2"
    "(if ?c = 0 \<or> sint ?c > 1 then set_fiber_pool_cap g2 ?c else Some g2) = Some g3"
    "parse_nproc (env_get_int getenv ''CILK_NWORKERS'' 0) cores online g3 = Some g'"
    using run unfolding parse_rts_environment_def Let_def bind_eq_Some_conv by blast
  have o1: "options_ok g1" using s(1) g set_options_ok(1) by (cases "?a > 0") auto
  have o2: "options_ok g2" using s(2) o1 set_options_ok(2) by (cases "?d > 0") auto
  have o3: "options_ok g3"
  proof (cases "?c = 0 \<or> sint ?c > 1")
    case True
    then have "?c \<noteq> 1" by auto
    then show ?thesis using s(3) True o2 set_options_ok(3) by auto
  next
    case False
    then show ?thesis using s(3) o2 by simp
  qed
  show ?thesis using s(4) o3 by (rule set_options_ok(4))
qed

lemma global_state_init_options:
  assumes "global_state_init getenv cores online now = Some g"
  shows "options_ok g \<and> 0 < nworkers g \<and> nworkers g = nproc (options g) \<and> disengaged_count g = 0 \<and> sentinel_count g = 0"
proof -
  obtain g1 where p: "parse_rts_environment getenv cores online ((global_state_allocate now)\<lparr>options := DEFAULT_OPTIONS\<rparr>) = Some g1"
    "0 < nproc (options g1)" "g = g1\<lparr>nworkers := nproc (options g1), workers_started := False, is_done := False, cilkified := False,
        disengaged_sentinel := 0, terminating := False,
        index_to_worker := replicate (unat (nproc (options g1))) 0, worker_to_index := replicate (unat (nproc (options g1))) 0\<rparr>"
    using assms by (auto simp: global_state_init_def Let_def bind_eq_Some_conv)
  have "options_ok ((global_state_allocate now)\<lparr>options := DEFAULT_OPTIONS\<rparr>)"
    by (simp add: options_ok_def DEFAULT_OPTIONS_def push_bit_eq_mult)
  then have "options_ok g1" by (rule parse_options_ok [OF p(1)])
  then show ?thesis using p(2,3)
    by (simp add: options_ok_def disengaged_count_def sentinel_count_def unat_GET_DISENGAGED unat_GET_SENTINEL)
qed

text \<open>Whatever the environment says, a process that gets through its initialisation has a stack size
  between 16 KB and 100 MB, a deque of 1 to 99,999 entries, and a fiber pool capacity that is not 1 and
  at most 999,999; it has at least one worker, and no one is disengaged.\<close>

theorem initialised_options_in_range:
  assumes "global_state_init getenv cores online now = Some g"
  shows "options_ok g \<and> 0 < nworkers g \<and> nworkers g = nproc (options g) \<and> disengaged_count g = 0 \<and> sentinel_count g = 0"
  by (rule global_state_init_options [OF assms])

theorem initialised_options_in_range_witness:
  "\<exists>g. global_state_init (\<lambda>v. if v = ''CILK_NWORKERS'' then Some '' 0x10'' else None) 0 4 0 = Some g \<and>
     options_ok g \<and> nworkers g = 16"
proof -
  have "map_option nworkers (global_state_init (\<lambda>v. if v = ''CILK_NWORKERS'' then Some '' 0x10'' else None) 0 4 0) = Some 16"
    by code_simp
  then obtain g where "global_state_init (\<lambda>v. if v = ''CILK_NWORKERS'' then Some '' 0x10'' else None) 0 4 0 = Some g" "nworkers g = 16"
    by auto
  then show ?thesis using initialised_options_in_range by blast
qed

section \<open>Fibers\<close>

definition pool_options :: "global_state \<Rightarrow> fiber_options" where
  "pool_options g = \<lparr>opt_nproc = unat (nproc (options g)), opt_fiber_pool_cap = unat (fiber_pool_cap (options g)),
     opt_stacksize = stacksize (options g)\<rparr>"

text \<open>What a worker does to its pool: it takes fibers, and gives one of those it holds back.\<close>

datatype pool_event = Take | Give nat

fun pool_run :: "worker_id \<Rightarrow> pool_event list \<Rightarrow> nat list \<Rightarrow> fiber_pool \<times> fiber_pool option \<times> os_fibers \<Rightarrow>
    (nat list \<times> fiber_pool \<times> fiber_pool option \<times> os_fibers) option" where
  "pool_run self [] held s = Some (held, s)"
| "pool_run self (Take # evs) held s = do { (f, s') \<leftarrow> pool_alloc self s; pool_run self evs (f # held) s' }"
| "pool_run self (Give i # evs) held s =
     (if i < length held then do {
        s' \<leftarrow> pool_dealloc self (held ! i) s;
        pool_run self evs (take i held @ drop (Suc i) held) s'
      } else None)"

fun legal_events :: "pool_event list \<Rightarrow> nat \<Rightarrow> bool" where
  "legal_events [] n = True"
| "legal_events (Take # evs) n = legal_events evs (Suc n)"
| "legal_events (Give i # evs) n = (i < n \<and> legal_events evs (n - 1))"

lemma pool_run_ok:
  "legal_events evs (length held) \<Longrightarrow> pools_ok self (mset held) s \<Longrightarrow>
   \<exists>held' s'. pool_run self evs held s = Some (held', s') \<and> pools_ok self (mset held') s'"
proof (induction self evs held s rule: pool_run.induct)
  case (2 self evs held s)
  obtain f s' where f: "pool_alloc self s = Some (f, s')" "pools_ok self (mset (f # held)) s'"
    using pools.alloc_fresh [OF 2(3)] by auto
  then show ?case using 2(1) [OF f(1) refl] 2(2) by simp
next
  case (3 self i evs held s)
  have split: "mset held = add_mset (held ! i) (mset (take i held @ drop (Suc i) held))"
    using 3(2) id_take_nth_drop [of i held] by (metis legal_events.simps(3) mset.simps(2) mset_append union_mset_add_mset_right)
  obtain s' where s': "pool_dealloc self (held ! i) s = Some s'" "pools_ok self (mset (take i held @ drop (Suc i) held)) s'"
    using pools.dealloc_law [OF 3(3) [unfolded split]] by blast
  have "length (take i held @ drop (Suc i) held) = length held - 1" using 3(2) by simp
  then show ?case using 3(1) [OF _ s'(1)] 3(2) s' by simp
qed simp

lemma worker_init_ok:
  assumes "opt_fiber_pool_cap opts \<noteq> 1" "self \<noteq> NO_WORKER" "g = cilk_fiber_pool_global_init opts"
  obtains pool parent os where "cilk_fiber_pool_per_worker_init self opts g \<lparr>next_fiber = 0, mapped = []\<rparr> = Some (pool, parent, os)"
    "pools_ok self {#} (pool, parent, os)"
proof -
  let ?p = "fiber_pool_stat_init (fiber_pool_init (opt_stacksize opts) (opt_fiber_pool_cap opts) False)"
  have b: "opt_fiber_pool_cap opts div BATCH_FRACTION + pool_size ?p \<le> pool_capacity ?p"
    by (simp add: fiber_pool_init_def fiber_pool_stat_init_def)
  have q: "parent_ok self (Some g)" "accounted {#} ?p (Some g) \<lparr>next_fiber = 0, mapped = []\<rparr>" "\<not> shared ?p"
    using assms by (simp_all add: parent_ok_def accounted_def parent_fibers_def cilk_fiber_pool_global_init_def
        fiber_pool_init_def fiber_pool_stat_init_def)
  obtain pool parent os where r: "fiber_pool_allocate_batch self ?p (Some g) \<lparr>next_fiber = 0, mapped = []\<rparr>
      (opt_fiber_pool_cap opts div BATCH_FRACTION) = Some (pool, parent, os)" "accounted {#} pool parent os"
    "parent_ok self parent" "pool_size pool = pool_size ?p + opt_fiber_pool_cap opts div BATCH_FRACTION"
    "pool_capacity pool = pool_capacity ?p" "\<not> shared pool"
    using allocate_batch_ok [OF q(3,1,2) b] by blast
  have "stack_size g = stack_size (fiber_pool_init (opt_stacksize opts) (opt_fiber_pool_cap opts) False)"
    using assms(3) by (simp add: cilk_fiber_pool_global_init_def fiber_pool_init_def fiber_pool_stat_init_def)
  then have run: "cilk_fiber_pool_per_worker_init self opts g \<lparr>next_fiber = 0, mapped = []\<rparr> = Some (pool, parent, os)"
    using r(1) by (simp add: cilk_fiber_pool_per_worker_init_def Let_def)
  have "pool_ok pool" using r(4,5,6) assms(1)
    by (simp add: pool_ok_def fiber_pool_init_def fiber_pool_stat_init_def)
  then show ?thesis using that [OF run] r(2,3) by (simp add: pools_ok_def)
qed

text \<open>Shutdown: the worker's pool is emptied, then the shared one.\<close>

definition shutdown_pools :: "fiber_pool \<times> fiber_pool option \<times> os_fibers \<Rightarrow> os_fibers" where
  "shutdown_pools s = (case s of (pool, parent, os) \<Rightarrow>
     let os1 = snd (cilk_fiber_pool_per_worker_terminate pool os) in
     case parent of None \<Rightarrow> os1 | Some g \<Rightarrow> snd (cilk_fiber_pool_global_terminate g os1))"

lemma shutdown_unmaps:
  assumes "pools_ok self used s"
  shows "mset (mapped (shutdown_pools s)) = used"
proof -
  obtain pool parent os where s: "s = (pool, parent, os)" by (cases s)
  have a: "mset (mapped os) = mset (fibers pool) + (mset (parent_fibers parent) + used)" "distinct (mapped os)"
    "\<forall>f\<in>set (mapped os). f < next_fiber os"
    using assms by (simp_all add: pools_ok_def s accounted_def)
  obtain fs os1 where u: "unmap_fibers (pool_size pool) (fibers pool) os = (fs, os1)" by fastforce
  note t = unmap_fibers_accounted [OF u _ a]
  have t1: "mset (mapped os1) = mset (parent_fibers parent) + used" "distinct (mapped os1)"
    "\<forall>f\<in>set (mapped os1). f < next_fiber os1" using t by simp_all
  have e1: "snd (cilk_fiber_pool_per_worker_terminate pool os) = os1"
    using u by (simp add: cilk_fiber_pool_per_worker_terminate_def)
  show ?thesis
  proof (cases parent)
    case None
    then show ?thesis using t1 e1 by (simp add: shutdown_pools_def s parent_fibers_def)
  next
    case (Some g)
    obtain gs os2 where v: "unmap_fibers (pool_size g) (fibers g) os1 = (gs, os2)" by fastforce
    have b: "mset (mapped os1) = mset (fibers g) + used" using t1(1) Some by (simp add: parent_fibers_def)
    have "mset (mapped os2) = used" using unmap_fibers_accounted [OF v _ b t1(2,3)] by simp
    then show ?thesis using v e1 Some by (simp add: shutdown_pools_def s cilk_fiber_pool_global_terminate_def)
  qed
qed

text \<open>C15: In a process that initialised, a worker that sets up its pool can take and give back fibers in
  any order: every operation succeeds, no fiber is held twice, and after shutdown exactly the fibers
  still held are mapped.\<close>

theorem fibers_neither_shared_nor_leaked:
  assumes "global_state_init getenv cores online now = Some g" "self \<noteq> NO_WORKER" "legal_events evs 0"
  shows "\<exists>s held s'. cilk_fiber_pool_per_worker_init self (pool_options g) (cilk_fiber_pool_global_init (pool_options g))
      \<lparr>next_fiber = 0, mapped = []\<rparr> = Some s \<and>
    pool_run self evs [] s = Some (held, s') \<and> distinct held \<and> mset (mapped (shutdown_pools s')) = mset held"
proof -
  let ?o = "pool_options g"
  have "fiber_pool_cap (options g) \<noteq> 1" using global_state_init_options [OF assms(1)] by (simp add: options_ok_def)
  then have cap: "opt_fiber_pool_cap ?o \<noteq> 1"
    using word_eq_iff_unsigned [of "fiber_pool_cap (options g)" 1, where 'a = nat] by (simp add: pool_options_def)
  obtain pool parent os where i: "cilk_fiber_pool_per_worker_init self ?o (cilk_fiber_pool_global_init ?o)
      \<lparr>next_fiber = 0, mapped = []\<rparr> = Some (pool, parent, os)" "pools_ok self {#} (pool, parent, os)"
    by (rule worker_init_ok [OF cap assms(2) refl])
  obtain held s' where h: "pool_run self evs [] (pool, parent, os) = Some (held, s')" "pools_ok self (mset held) s'"
    using pool_run_ok [of evs "[]" self "(pool, parent, os)"] assms(3) i(2) by auto
  have "count (mset held) f \<le> 1" for f by (rule pools.distinct_used [OF h(2)])
  then have "distinct held" by (metis count_mset_0_iff distinct_count_atmost_1 le_neq_implies_less less_one)
  then show ?thesis using i(1) h(1) shutdown_unmaps [OF h(2)] by blast
qed

theorem fibers_neither_shared_nor_leaked_witness:
  "\<exists>g s held s'. global_state_init (\<lambda>_. None) 4 4 0 = Some g \<and>
    cilk_fiber_pool_per_worker_init 0 (pool_options g) (cilk_fiber_pool_global_init (pool_options g))
      \<lparr>next_fiber = 0, mapped = []\<rparr> = Some s \<and>
    pool_run 0 [Take, Take, Take, Give 1, Take] [] s = Some (held, s') \<and> distinct held \<and>
    mset (mapped (shutdown_pools s')) = mset held"
proof -
  have "map_option nworkers (global_state_init (\<lambda>_. None) 4 4 0) = Some 4" by code_simp
  then obtain g where g: "global_state_init (\<lambda>_. None) 4 4 0 = Some g" by auto
  have "(0 :: worker_id) \<noteq> NO_WORKER" "legal_events [Take, Take, Take, Give 1, Take] 0"
    by (simp_all add: NO_WORKER_def)
  from fibers_neither_shared_nor_leaked [OF g this] g show ?thesis by blast
qed

end
