(* ===== verification/Internal_Malloc.thy ===== *)
theory Internal_Malloc
  imports Prelude
begin

text \<open>
  The size-class allocator of the runtime (runtime/internal-malloc.cpp): a global pool that carves
  blocks out of 32 KB chunks, a global set of free lists and one set of free lists per worker.

  Addresses are natural numbers and 0 is the null pointer.  A free list is the address of its first
  block; the link of each free block is stored in the block itself, so \<open>next_block\<close> is the memory the
  allocator writes into the blocks it owns.  \<open>unsigned\<close> fields are 32-bit words (\<open>mem_list_index\<close>
  starts at \<open>-1\<close>), signed counters are integers, byte counts of type \<open>size_t\<close> are natural numbers.  The
  system allocator is the argument \<open>sys\<close>: \<open>sys i n\<close> is the address that the \<open>i\<close>-th request of the run,
  for \<open>n\<close> bytes, gets.
\<close>

section \<open>Data\<close>

type_synonym addr = nat

datatype im_tag = IM_UNCLASSIFIED | IM_CLOSURE | IM_FIBER | IM_REDUCER_MAP

definition im_tags :: "im_tag list" where
  "im_tags = [IM_UNCLASSIFIED, IM_CLOSURE, IM_FIBER, IM_REDUCER_MAP]"

definition name_for_im_tag :: "im_tag \<Rightarrow> string" where
  "name_for_im_tag tag = (case tag of
     IM_UNCLASSIFIED \<Rightarrow> ''unclassified''
   | IM_CLOSURE \<Rightarrow> ''closure''
   | IM_FIBER \<Rightarrow> ''fiber''
   | IM_REDUCER_MAP \<Rightarrow> ''reducer map'')"

definition NUM_BUCKETS :: nat where
  "NUM_BUCKETS = 7"

definition bucket_sizes :: "nat list" where
  "bucket_sizes = [32, 64, 128, 256, 512, 1024, 2048]"

definition bucket_capacity :: "nat list" where
  "bucket_capacity = [256, 128, 64, 64, 32, 16, 8]"

definition MEM_LIST_SIZE :: u32 where
  "MEM_LIST_SIZE = 8"

definition INTERNAL_MALLOC_CHUNK_SIZE :: nat where
  "INTERNAL_MALLOC_CHUNK_SIZE = 32 * 1024"

definition SIZE_THRESH :: nat where
  "SIZE_THRESH = bucket_sizes ! (NUM_BUCKETS - 1)"

record global_im_pool =
  mem_begin :: addr
  mem_end :: addr
  mem_list :: "addr list"
  mem_list_index :: u32
  mem_list_size :: u32
  num_global_malloc :: nat
  pool_allocated :: nat
  pool_wasted :: nat

record im_bucket =
  free_list :: addr
  free_list_size :: u32
  free_list_limit :: u32
  bk_allocated :: int
  max_allocated :: int
  bk_wasted :: int

record cilk_im_desc =
  buckets :: "im_bucket list"
  used :: int
  num_malloc :: "im_tag \<Rightarrow> int"

text \<open>The part of the global state and of the workers that the allocator owns.  \<open>sys_requests\<close> numbers
  the requests to the system, \<open>sys_returned\<close> lists what was given back to it.\<close>

record im_state =
  im_pool :: global_im_pool
  im_desc :: cilk_im_desc
  im_nworkers :: nat
  worker_present :: "nat \<Rightarrow> bool"
  worker_desc :: "nat \<Rightarrow> cilk_im_desc"
  next_block :: "addr \<Rightarrow> addr"
  page_shift :: nat
  sys_requests :: nat
  sys_returned :: "(addr \<times> nat) list"

text \<open>A descriptor is the global one or a worker's; \<open>owner\<close> says which.\<close>

type_synonym owner = "nat option"

definition desc :: "owner \<Rightarrow> im_state \<Rightarrow> cilk_im_desc" where
  "desc own s = (case own of None \<Rightarrow> im_desc s | Some w \<Rightarrow> worker_desc s w)"

definition upd_desc :: "owner \<Rightarrow> (cilk_im_desc \<Rightarrow> cilk_im_desc) \<Rightarrow> im_state \<Rightarrow> im_state" where
  "upd_desc own f s = (case own of
     None \<Rightarrow> s\<lparr>im_desc := f (im_desc s)\<rparr>
   | Some w \<Rightarrow> s\<lparr>worker_desc := (worker_desc s)(w := f (worker_desc s w))\<rparr>)"

definition im_bin :: "owner \<Rightarrow> nat \<Rightarrow> im_state \<Rightarrow> im_bucket" where
  "im_bin own b s = buckets (desc own s) ! b"

definition upd_bucket :: "owner \<Rightarrow> nat \<Rightarrow> (im_bucket \<Rightarrow> im_bucket) \<Rightarrow> im_state \<Rightarrow> im_state" where
  "upd_bucket own b f = upd_desc own (buckets_update (\<lambda>bs. bs[b := f (bs ! b)]))"

section \<open>Helpers\<close>

definition is_page_aligned :: "im_state \<Rightarrow> nat \<Rightarrow> bool" where
  "is_page_aligned s sz = (take_bit (page_shift s) sz = 0)"

text \<open>The bucket of a size; \<open>-1\<close> as an unsigned integer when none is large enough.\<close>

definition size_to_bucket :: "nat \<Rightarrow> nat" where
  "size_to_bucket sz =
     (case find (\<lambda>i. sz \<le> bucket_sizes ! i) [0..<NUM_BUCKETS] of Some i \<Rightarrow> i | None \<Rightarrow> 2 ^ 32 - 1)"

definition bucket_to_size :: "nat \<Rightarrow> nat" where
  "bucket_to_size which_bucket = bucket_sizes ! which_bucket"

definition add_to_free_list :: "owner \<Rightarrow> nat \<Rightarrow> addr \<Rightarrow> im_state \<Rightarrow> im_state" where
  "add_to_free_list own b p s =
     upd_bucket own b (\<lambda>k. k\<lparr>free_list := p, free_list_size := free_list_size k + 1\<rparr>)
       (s\<lparr>next_block := (next_block s)(p := free_list (im_bin own b s))\<rparr>)"

definition remove_from_free_list :: "owner \<Rightarrow> nat \<Rightarrow> im_state \<Rightarrow> addr \<times> im_state" where
  "remove_from_free_list own b s =
     (let mem = free_list (im_bin own b s) in
      if mem \<noteq> 0
      then (mem, upd_bucket own b (\<lambda>k. k\<lparr>free_list := next_block s mem, free_list_size := free_list_size k - 1\<rparr>) s)
      else (mem, s))"

definition init_im_bucket :: "nat \<Rightarrow> im_bucket" where
  "init_im_bucket i = \<lparr>free_list = 0, free_list_size = 0, free_list_limit = of_nat (bucket_capacity ! i),
     bk_allocated = 0, max_allocated = 0, bk_wasted = 0\<rparr>"

definition init_im_buckets :: cilk_im_desc where
  "init_im_buckets = \<lparr>buckets = map init_im_bucket [0..<NUM_BUCKETS], used = 0, num_malloc = (\<lambda>_. 0)\<rparr>"

section \<open>The consistency checks\<close>

definition free_bytes :: "cilk_im_desc \<Rightarrow> nat" where
  "free_bytes d = (\<Sum>i\<leftarrow>[0..<NUM_BUCKETS]. unat (free_list_size (buckets d ! i)) * bucket_sizes ! i)"

definition wasted_bytes :: "cilk_im_desc \<Rightarrow> int" where
  "wasted_bytes d = (\<Sum>i\<leftarrow>[0..<NUM_BUCKETS]. bk_wasted (buckets d ! i))"

definition workers_used_and_free :: "im_state \<Rightarrow> int option" where
  "workers_used_and_free s =
     (let ws = filter (worker_present s) [0..<im_nworkers s];
          worker_free = (\<Sum>i\<leftarrow>ws. int (free_bytes (worker_desc s i)));
          worker_used = (\<Sum>i\<leftarrow>ws. used (worker_desc s i));
          worker_wasted = (\<Sum>i\<leftarrow>ws. wasted_bytes (worker_desc s i))
      in do {
        cilk_assert (worker_used \<ge> 0 \<and> worker_wasted \<ge> 0);
        Some (worker_used + worker_free + worker_wasted)
      })"

definition internal_malloc_global_check :: "im_state \<Rightarrow> unit option" where
  "internal_malloc_global_check s = do {
     cilk_assert (used (im_desc s) \<ge> 0);
     worker_total \<leftarrow> workers_used_and_free s;
     let global_used = used (im_desc s);
     let global_free = int (free_bytes (im_desc s));
     let global_available = int (mem_end (im_pool s)) - int (mem_begin (im_pool s));
     cilk_assert (global_used + global_free + global_available = int (pool_allocated (im_pool s)) \<and>
       global_used = worker_total)
   }"

definition assert_global_pool :: "global_im_pool \<Rightarrow> unit option" where
  "assert_global_pool p = do {
     cilk_assert (mem_list_index p < mem_list_size p);
     if pool_wasted p > 0 then cilk_assert (pool_wasted p < pool_allocated p) else Some ()
   }"

definition assert_bucket :: "im_bucket \<Rightarrow> unit option" where
  "assert_bucket k = do {
     cilk_assert ((free_list k \<noteq> 0) = (free_list_size k \<noteq> 0));
     cilk_assert (free_list_size k \<le> free_list_limit k);
     cilk_assert (bk_allocated k \<le> max_allocated k)
   }"

section \<open>The global pool\<close>

definition malloc_from_system :: "(nat \<Rightarrow> nat \<Rightarrow> addr) \<Rightarrow> nat \<Rightarrow> im_state \<Rightarrow> (addr \<times> im_state) option" where
  "malloc_from_system sys sz s =
     (let mem = sys (sys_requests s) sz in do {
        cilk_assert (mem \<noteq> 0);
        Some (mem, s\<lparr>sys_requests := sys_requests s + 1\<rparr>)
      })"

definition free_to_system :: "addr \<Rightarrow> nat \<Rightarrow> im_state \<Rightarrow> im_state" where
  "free_to_system p sz s = s\<lparr>sys_returned := sys_returned s @ [(p, sz)]\<rparr>"

definition grow_mem_list :: "global_im_pool \<Rightarrow> global_im_pool option" where
  "grow_mem_list p = do {
     cilk_assert (mem_list_size p > 0);
     let new_list_size = 2 * mem_list_size p;
     Some (p\<lparr>mem_list := mem_list p @ replicate (unat new_list_size - unat (mem_list_size p)) 0,
             mem_list_size := new_list_size\<rparr>)
   }"

definition extend_global_pool :: "(nat \<Rightarrow> nat \<Rightarrow> addr) \<Rightarrow> im_state \<Rightarrow> im_state option" where
  "extend_global_pool sys s = do {
     (mem, s1) \<leftarrow> malloc_from_system sys INTERNAL_MALLOC_CHUNK_SIZE s;
     let p = (im_pool s1)\<lparr>mem_begin := mem, mem_end := mem + INTERNAL_MALLOC_CHUNK_SIZE,
               pool_allocated := pool_allocated (im_pool s1) + INTERNAL_MALLOC_CHUNK_SIZE,
               mem_list_index := mem_list_index (im_pool s1) + 1\<rparr>;
     p1 \<leftarrow> (if mem_list_index p \<ge> mem_list_size p then grow_mem_list p else Some p);
     Some (s1\<lparr>im_pool := p1\<lparr>mem_list := (mem_list p1)[unat (mem_list_index p1) := mem]\<rparr>\<rparr>)
   }"

definition carve :: "(nat \<Rightarrow> nat \<Rightarrow> addr) \<Rightarrow> nat \<Rightarrow> im_state \<Rightarrow> (addr \<times> im_state) option" where
  "carve sys sz s = do {
     let p = im_pool s;
     s1 \<leftarrow> (if mem_begin p + sz > mem_end p
            then extend_global_pool sys
                   (s\<lparr>im_pool := p\<lparr>pool_wasted := pool_wasted p + (mem_end p - mem_begin p)\<rparr>\<rparr>)
            else Some s);
     let mem = mem_begin (im_pool s1);
     Some (mem, s1\<lparr>im_pool := (im_pool s1)\<lparr>mem_begin := mem + sz\<rparr>\<rparr>)
   }"

definition global_im_alloc ::
    "(nat \<Rightarrow> nat \<Rightarrow> addr) \<Rightarrow> nat \<Rightarrow> nat \<Rightarrow> im_state \<Rightarrow> (addr \<times> im_state) option" where
  "global_im_alloc sys sz which_bucket s = do {
     cilk_assert (sz \<le> SIZE_THRESH);
     cilk_assert (which_bucket < NUM_BUCKETS);
     let (mem, s1) = remove_from_free_list None which_bucket
           (upd_desc None (used_update (\<lambda>u. u + int sz)) s);
     if mem = 0 then carve sys sz s1 else Some (mem, s1)
   }"

definition global_im_pool_destroy :: "im_state \<Rightarrow> im_state" where
  "global_im_pool_destroy s =
     (let p = im_pool s;
          s1 = fold (\<lambda>i. free_to_system (mem_list p ! i) INTERNAL_MALLOC_CHUNK_SIZE) [0..<unat (mem_list_size p)] s
      in s1\<lparr>im_pool := p\<lparr>mem_list := [], mem_begin := 0, mem_end := 0, mem_list_index := - 1, mem_list_size := 0\<rparr>\<rparr>)"

text \<open>\<open>ffs\<close> of the page size less one is the number of its trailing zeros.\<close>

fun trailing_zeros :: "nat \<Rightarrow> nat \<Rightarrow> nat" where
  "trailing_zeros 0 n = 0"
| "trailing_zeros (Suc k) n = (if odd n then 0 else Suc (trailing_zeros k (n div 2)))"

definition cilk_internal_malloc_global_init :: "nat \<Rightarrow> im_state \<Rightarrow> im_state option" where
  "cilk_internal_malloc_global_init page_size s = do {
     shift \<leftarrow> (if page_shift s = 0 then do {
                 cilk_assert (2 ^ trailing_zeros 64 page_size = page_size);
                 Some (trailing_zeros 64 page_size)
               } else Some (page_shift s));
     Some (s\<lparr>page_shift := shift,
             im_pool := \<lparr>mem_begin = 0, mem_end = 0, mem_list = replicate (unat MEM_LIST_SIZE) 0,
               mem_list_index = - 1, mem_list_size = MEM_LIST_SIZE,
               num_global_malloc = num_global_malloc (im_pool s), pool_allocated = 0, pool_wasted = 0\<rparr>,
             im_desc := init_im_buckets\<rparr>)
   }"

definition cilk_internal_malloc_global_terminate :: "bool \<Rightarrow> im_state \<Rightarrow> unit option" where
  "cilk_internal_malloc_global_terminate debug_memory s =
     (if debug_memory then internal_malloc_global_check s else Some ())"

definition cilk_internal_malloc_global_destroy :: "im_state \<Rightarrow> im_state option" where
  "cilk_internal_malloc_global_destroy s = do {
     let s1 = global_im_pool_destroy s;
     cilk_assert (list_all (\<lambda>i. num_malloc (im_desc s1) i = 0) im_tags);
     Some s1
   }"

section \<open>The workers' free lists\<close>

fun allocate_loop :: "nat \<Rightarrow> (nat \<Rightarrow> nat \<Rightarrow> addr) \<Rightarrow> nat \<Rightarrow> nat \<Rightarrow> nat \<Rightarrow> im_state \<Rightarrow> im_state option" where
  "allocate_loop 0 sys w sz b s = Some s"
| "allocate_loop (Suc n) sys w sz b s = do {
     (p, s1) \<leftarrow> global_im_alloc sys sz b s;
     allocate_loop n sys w sz b (add_to_free_list (Some w) b p s1)
   }"

definition im_allocate_batch ::
    "(nat \<Rightarrow> nat \<Rightarrow> addr) \<Rightarrow> nat \<Rightarrow> nat \<Rightarrow> nat \<Rightarrow> im_state \<Rightarrow> im_state option" where
  "im_allocate_batch sys w sz b s = do {
     let batch_size = bucket_capacity ! b div 2;
     s1 \<leftarrow> allocate_loop batch_size sys w sz b s;
     Some (upd_bucket (Some w) b (\<lambda>k.
       let a = bk_allocated k + int batch_size
       in k\<lparr>bk_allocated := a, max_allocated := (if a > max_allocated k then a else max_allocated k)\<rparr>) s1)
   }"

fun free_loop :: "nat \<Rightarrow> nat \<Rightarrow> nat \<Rightarrow> nat \<Rightarrow> im_state \<Rightarrow> im_state" where
  "free_loop 0 w sz b s = s"
| "free_loop (Suc n) w sz b s =
     (let (mem, s1) = remove_from_free_list (Some w) b s in
      if mem = 0 then s1
      else free_loop n w sz b
        (upd_bucket (Some w) b (bk_allocated_update (\<lambda>a. a - 1))
          (upd_desc None (used_update (\<lambda>u. u - int sz)) (add_to_free_list None b mem s1))))"

definition im_free_batch :: "nat \<Rightarrow> nat \<Rightarrow> nat \<Rightarrow> im_state \<Rightarrow> im_state" where
  "im_free_batch w sz b s = free_loop (bucket_capacity ! b div 2) w sz b s"

definition cilk_internal_malloc ::
    "(nat \<Rightarrow> nat \<Rightarrow> addr) \<Rightarrow> nat \<Rightarrow> nat \<Rightarrow> im_tag \<Rightarrow> im_state \<Rightarrow> (addr \<times> im_state) option" where
  "cilk_internal_malloc sys w sz tag s =
     (let b = size_to_bucket sz in
      if b \<ge> NUM_BUCKETS then malloc_from_system sys sz s
      else let
        csize = bucket_to_size b;
        s1 = upd_desc (Some w) (\<lambda>d. d\<lparr>used := used d + int sz,
               num_malloc := (num_malloc d)(tag := num_malloc d tag + 1)\<rparr>) s;
        s2 = upd_bucket (Some w) b (bk_wasted_update (\<lambda>x. x + (int csize - int sz))) s1;
        (mem, s3) = remove_from_free_list (Some w) b s2
      in if mem \<noteq> 0 then Some (mem, s3)
         else do {
           s4 \<leftarrow> im_allocate_batch sys w csize b s3;
           let (mem, s5) = remove_from_free_list (Some w) b s4;
           cilk_assert (mem \<noteq> 0);
           Some (mem, s5)
         })"

text \<open>\<open>while (bucket->free_list_size > bucket->free_list_limit)\<close>; \<open>None\<close> if the loop never ends.\<close>

partial_function (option) trim_bucket :: "nat \<Rightarrow> nat \<Rightarrow> nat \<Rightarrow> im_state \<Rightarrow> im_state option" where
  [code]: "trim_bucket w csize b s =
     (if free_list_size (im_bin (Some w) b s) > free_list_limit (im_bin (Some w) b s)
      then trim_bucket w csize b (im_free_batch w csize b s)
      else Some s)"

definition cilk_internal_free :: "nat \<Rightarrow> addr \<Rightarrow> nat \<Rightarrow> im_tag \<Rightarrow> im_state \<Rightarrow> im_state option" where
  "cilk_internal_free w p sz tag s =
     (if sz > SIZE_THRESH then Some (free_to_system p sz s)
      else let
        s1 = upd_desc (Some w) (\<lambda>d. d\<lparr>used := used d - int sz,
               num_malloc := (num_malloc d)(tag := num_malloc d tag - 1)\<rparr>) s;
        b = size_to_bucket sz
      in do {
        cilk_assert (b < NUM_BUCKETS);
        let csize = bucket_to_size b;
        let s2 = upd_bucket (Some w) b (bk_wasted_update (\<lambda>x. x - (int csize - int sz))) s1;
        trim_bucket w csize b (add_to_free_list (Some w) b p s2)
      })"

definition cilk_internal_free_global :: "addr \<Rightarrow> nat \<Rightarrow> im_tag \<Rightarrow> im_state \<Rightarrow> im_state" where
  "cilk_internal_free_global p sz tag s =
     (let b = size_to_bucket sz in
      upd_desc None (\<lambda>d. d\<lparr>num_malloc := (num_malloc d)(tag := num_malloc d tag - 1),
          used := used d - int (bucket_to_size b)\<rparr>)
        (add_to_free_list None b p s))"

definition cilk_internal_malloc_per_worker_init :: "nat \<Rightarrow> im_state \<Rightarrow> im_state" where
  "cilk_internal_malloc_per_worker_init w s = upd_desc (Some w) (\<lambda>_. init_im_buckets) s"

text \<open>\<open>while (l->im_desc.buckets[i].free_list)\<close>\<close>

partial_function (option) drain_bucket :: "nat \<Rightarrow> nat \<Rightarrow> im_state \<Rightarrow> im_state option" where
  [code]: "drain_bucket w b s =
     (if free_list (im_bin (Some w) b s) \<noteq> 0
      then drain_bucket w b (im_free_batch w (bucket_to_size b) b s)
      else Some s)"

fun drain_buckets :: "nat list \<Rightarrow> nat \<Rightarrow> im_state \<Rightarrow> im_state option" where
  "drain_buckets [] w s = Some s"
| "drain_buckets (i # is) w s = do {
     assert_bucket (im_bin (Some w) i s);
     s1 \<leftarrow> drain_bucket w i s;
     drain_buckets is w s1
   }"

definition transfer_tag :: "nat \<Rightarrow> im_tag \<Rightarrow> im_state \<Rightarrow> im_state" where
  "transfer_tag w i s =
     upd_desc (Some w) (num_malloc_update (\<lambda>f. f(i := 0)))
       (upd_desc None (num_malloc_update (\<lambda>f. f(i := f i + num_malloc (worker_desc s w) i))) s)"

definition cilk_internal_malloc_per_worker_terminate :: "bool \<Rightarrow> nat \<Rightarrow> im_state \<Rightarrow> im_state option" where
  "cilk_internal_malloc_per_worker_terminate debug_slow w s = do {
     assert_global_pool (im_pool s);
     (if debug_slow then internal_malloc_global_check s else Some ());
     s1 \<leftarrow> drain_buckets [0..<NUM_BUCKETS] w s;
     let s2 = fold (transfer_tag w) im_tags s1;
     (if debug_slow then internal_malloc_global_check s2 else Some ());
     Some s2
   }"

definition cilk_internal_malloc_per_worker_destroy :: "nat \<Rightarrow> im_state \<Rightarrow> unit option" where
  "cilk_internal_malloc_per_worker_destroy w s =
     cilk_assert (list_all (\<lambda>i. free_list_size (im_bin (Some w) i s) = 0 \<and> free_list (im_bin (Some w) i s) = 0)
       [0..<NUM_BUCKETS])"

end
