(* ===== verification/Malloc_Blocks.thy ===== *)
theory Malloc_Blocks
  imports Internal_Malloc
begin

text \<open>
  The heap of the allocator seen as a set of blocks.  A block is an address with its size class;
  \<open>im_ok\<close> says that the linked free lists hold the blocks that \<open>fl\<close> names, that no two blocks overlap,
  wherever they are, that all of them lie in the carved part of the chunks, and that the byte
  counters of the pool account for every block.  The lemmas carry it through the primitive
  operations: take a block from a list or from the chunk, and put it on a list.
\<close>

section \<open>Blocks\<close>

type_synonym block = "addr \<times> nat"
type_synonym key = "owner \<times> nat"

definition extent :: "block \<Rightarrow> nat set" where
  "extent x = {fst x ..< fst x + bucket_sizes ! snd x}"

definition tagged :: "nat \<Rightarrow> addr list \<Rightarrow> block multiset" where
  "tagged b xs = image_mset (\<lambda>p. (p, b)) (mset xs)"

definition weight :: "block multiset \<Rightarrow> nat" where
  "weight M = (\<Sum>x\<in>#M. bucket_sizes ! snd x)"

definition apart :: "block multiset \<Rightarrow> bool" where
  "apart M \<longleftrightarrow> (\<forall>x y. {#x, y#} \<subseteq># M \<longrightarrow> extent x \<inter> extent y = {})"

definition keys :: "nat \<Rightarrow> key set" where
  "keys n = insert None (Some ` {..<n}) \<times> {..<NUM_BUCKETS}"

definition blocks :: "nat \<Rightarrow> (key \<Rightarrow> addr list) \<Rightarrow> block multiset \<Rightarrow> block multiset" where
  "blocks n fl L = (\<Sum>k\<in>keys n. tagged (snd k) (fl k)) + L"

definition global_blocks :: "(key \<Rightarrow> addr list) \<Rightarrow> block multiset" where
  "global_blocks fl = (\<Sum>b<NUM_BUCKETS. tagged b (fl (None, b)))"

lemma size_cases:
  assumes "b < NUM_BUCKETS"
  shows "bucket_sizes ! b = 2 ^ (b + 5) \<and> bucket_sizes ! b * (bucket_capacity ! b div 2) \<in> {4096, 8192} \<and>
    bucket_capacity ! b \<le> 256 \<and> 8 \<le> bucket_capacity ! b"
proof -
  have "b \<in> {0, 1, 2, 3, 4, 5, 6}" using assms by (auto simp: NUM_BUCKETS_def)
  then show ?thesis by (elim insertE emptyE) (simp_all add: bucket_sizes_def bucket_capacity_def)
qed

lemma size_pos: "b < NUM_BUCKETS \<Longrightarrow> 32 \<le> bucket_sizes ! b"
  using size_cases [of b] one_le_power [of "2 :: nat" b] by (simp add: power_add)

lemma size_le: "b < NUM_BUCKETS \<Longrightarrow> bucket_sizes ! b \<le> SIZE_THRESH"
  using size_cases [of b] power_increasing [of "b + 5" 11 "2 :: nat"]
  by (simp add: NUM_BUCKETS_def SIZE_THRESH_def bucket_sizes_def)

lemma size_dvd: "b < NUM_BUCKETS \<Longrightarrow> bucket_sizes ! b dvd 4096"
  using size_cases [of b] le_imp_power_dvd [of "b + 5" 12 "2 :: nat"] by (simp add: NUM_BUCKETS_def)

lemma finite_keys [simp]: "finite (keys n)"
  by (simp add: keys_def)

lemma weight_simps [simp]:
  "weight {#} = 0" "weight (add_mset x M) = bucket_sizes ! snd x + weight M" "weight (M + N) = weight M + weight N"
  by (simp_all add: weight_def)

lemma tagged_simps [simp]: "tagged b [] = {#}" "tagged b (x # xs) = add_mset (x, b) (tagged b xs)"
  by (simp_all add: tagged_def)

lemma sum_fun_upd:
  fixes h :: "'k \<Rightarrow> 'v \<Rightarrow> 'm :: comm_monoid_add"
  assumes "finite K" "k \<in> K"
  shows "(\<Sum>j\<in>K. h j ((f(k := v)) j)) + h k (f k) = (\<Sum>j\<in>K. h j (f j)) + h k v"
proof -
  have "(\<Sum>j\<in>K - {k}. h j ((f(k := v)) j)) = (\<Sum>j\<in>K - {k}. h j (f j))" by (rule sum.cong) auto
  then show ?thesis
    by (simp only: sum.remove [OF assms, of "\<lambda>j. h j ((f(k := v)) j)"] sum.remove [OF assms, of "\<lambda>j. h j (f j)"])
      (simp add: ac_simps)
qed

lemma blocks_push:
  assumes "k \<in> keys n"
  shows "blocks n (fl(k := p # fl k)) L = blocks n fl (add_mset (p, snd k) L)"
  using sum_fun_upd [OF finite_keys assms, of "\<lambda>k. tagged (snd k)" fl "p # fl k"]
  by (simp add: blocks_def)

lemma blocks_pop:
  assumes "k \<in> keys n" "fl k = p # ps"
  shows "blocks n (fl(k := ps)) (add_mset (p, snd k) L) = blocks n fl L"
  using sum_fun_upd [OF finite_keys assms(1), of "\<lambda>k. tagged (snd k)" fl ps] assms(2)
  by (simp add: blocks_def)

lemma global_push:
  assumes "b < NUM_BUCKETS"
  shows "weight (global_blocks (fl((None, b) := p # fl (None, b)))) = weight (global_blocks fl) + bucket_sizes ! b"
proof -
  have "global_blocks (fl((None, b) := v)) + tagged b (fl (None, b)) = global_blocks fl + tagged b v" for v
    using sum_fun_upd [of "{..<NUM_BUCKETS}" b "\<lambda>b. tagged b" "\<lambda>b. fl (None, b)" v] assms
    by (simp add: global_blocks_def fun_upd_def)
  from arg_cong [OF this, of weight "p # fl (None, b)"] show ?thesis by simp
qed

lemma global_pop:
  assumes "b < NUM_BUCKETS" "fl (None, b) = p # ps"
  shows "weight (global_blocks fl) = weight (global_blocks (fl((None, b) := ps))) + bucket_sizes ! b"
proof -
  have "(fl((None, b) := ps))((None, b) := p # (fl((None, b) := ps)) (None, b)) = fl" using assms(2) by (auto simp: fun_eq_iff)
  then show ?thesis using global_push [OF assms(1), of "fl((None, b) := ps)" p] by simp
qed

lemma global_other: "global_blocks (fl((Some w, b) := v)) = global_blocks fl"
  by (simp add: global_blocks_def)

lemma blocks_member:
  assumes "k \<in> keys n" "p \<in> set (fl k)"
  shows "(p, snd k) \<in># blocks n fl L"
  using assms by (auto simp: blocks_def tagged_def sum.remove [OF finite_keys assms(1)])

text \<open>A block in flight is on no free list.\<close>

lemma apart_not_listed:
  assumes "apart (blocks n fl (add_mset (p, b) L))" "b < NUM_BUCKETS" "k \<in> keys n"
  shows "p \<notin> set (fl k)"
proof
  assume "p \<in> set (fl k)"
  then have "(p, snd k) \<in># blocks n fl L" by (rule blocks_member [OF assms(3)])
  then have "{#(p, b), (p, snd k)#} \<subseteq># blocks n fl (add_mset (p, b) L)"
    by (auto simp: blocks_def)
  then have "extent (p, b) \<inter> extent (p, snd k) = {}" using assms(1) by (simp only: apart_def)
  moreover have "snd k < NUM_BUCKETS" using assms(3) by (auto simp: keys_def)
  ultimately show False using size_pos [OF assms(2)] size_pos [of "snd k"] by (simp add: extent_def)
qed

lemma apart_add:
  assumes "apart M" "\<And>y. y \<in># M \<Longrightarrow> extent x \<inter> extent y = {}"
  shows "apart (add_mset x M)"
  unfolding apart_def
proof (intro allI impI)
  fix y z assume sub: "{#y, z#} \<subseteq># add_mset x M"
  consider "y = x" "z \<in># M" | "z = x" "y \<in># M" | "{#y, z#} \<subseteq># M"
    using sub by (auto simp: insert_subset_eq_iff dest: in_diffD mset_subset_eq_insertD split: if_splits)
  then show "extent y \<inter> extent z = {}"
  proof cases
    case 1
    then show ?thesis using assms(2) by blast
  next
    case 2
    then show ?thesis using assms(2) by blast
  next
    case 3
    then show ?thesis using assms(1) by (simp only: apart_def)
  qed
qed

lemma apart_sub: "apart M \<Longrightarrow> N \<subseteq># M \<Longrightarrow> apart N"
  unfolding apart_def using subset_mset.order_trans by blast

section \<open>The invariant\<close>

fun chain :: "(addr \<Rightarrow> addr) \<Rightarrow> addr \<Rightarrow> addr list \<Rightarrow> bool" where
  "chain nx p [] = (p = 0)"
| "chain nx p (x # xs) = (p = x \<and> x \<noteq> 0 \<and> chain nx (nx x) xs)"

definition lists_ok :: "nat \<Rightarrow> (key \<Rightarrow> addr list) \<Rightarrow> im_state \<Rightarrow> bool" where
  "lists_ok n fl s \<longleftrightarrow> (\<forall>own b. (own, b) \<in> keys n \<longrightarrow>
     length (buckets (desc own s)) = NUM_BUCKETS \<and>
     chain (next_block s) (free_list (im_bin own b s)) (fl (own, b)) \<and>
     free_list_size (im_bin own b s) = of_nat (length (fl (own, b))))"

definition available :: "im_state \<Rightarrow> nat" where
  "available s = mem_end (im_pool s) - mem_begin (im_pool s)"

definition requested :: "(nat \<Rightarrow> nat \<Rightarrow> addr) \<Rightarrow> addr list \<Rightarrow> nat \<Rightarrow> bool" where
  "requested sys cs m \<longleftrightarrow> (\<forall>c\<in>set cs. \<exists>i < m. c = sys i INTERNAL_MALLOC_CHUNK_SIZE)"

lemma requested_Suc: "requested sys cs m \<Longrightarrow> requested sys cs (Suc m)"
  unfolding requested_def by (meson less_SucI)

definition im_pool_ok :: "(nat \<Rightarrow> nat \<Rightarrow> addr) \<Rightarrow> addr list \<Rightarrow> im_state \<Rightarrow> bool" where
  "im_pool_ok sys cs s \<longleftrightarrow>
     (let p = im_pool s in
      (if cs = [] then mem_begin p = 0 \<and> mem_end p = 0
       else last cs \<le> mem_begin p \<and> mem_begin p \<le> mem_end p \<and> mem_end p = last cs + INTERNAL_MALLOC_CHUNK_SIZE) \<and>
      (\<forall>c\<in>set cs. c \<noteq> 0) \<and> requested sys cs (sys_requests s) \<and>
      mem_list_index p = of_nat (length cs) - 1 \<and>
      mem_list p = cs @ replicate (unat (mem_list_size p) - length cs) 0 \<and>
      length cs \<le> unat (mem_list_size p) \<and> 0 < mem_list_size p \<and> unat (mem_list_size p) \<le> 8 + 2 * length cs \<and>
      pool_allocated p = INTERNAL_MALLOC_CHUNK_SIZE * length cs \<and> pool_wasted p = 0)"

definition placed :: "addr list \<Rightarrow> im_state \<Rightarrow> block \<Rightarrow> bool" where
  "placed cs s x \<longleftrightarrow> snd x < NUM_BUCKETS \<and> fst x \<noteq> 0 \<and>
     extent x \<inter> {mem_begin (im_pool s) ..< mem_end (im_pool s)} = {} \<and>
     (\<exists>c\<in>set cs. extent x \<subseteq> {c ..< c + INTERNAL_MALLOC_CHUNK_SIZE})"

definition heap_ok :: "(nat \<Rightarrow> nat \<Rightarrow> addr) \<Rightarrow> addr list \<Rightarrow> block multiset \<Rightarrow> im_state \<Rightarrow> bool" where
  "heap_ok sys cs B s \<longleftrightarrow> im_pool_ok sys cs s \<and> apart B \<and> (\<forall>x\<in>#B. placed cs s x) \<and>
     pool_allocated (im_pool s) = weight B + available s"

definition im_ok ::
    "(nat \<Rightarrow> nat \<Rightarrow> addr) \<Rightarrow> nat \<Rightarrow> addr list \<Rightarrow> (key \<Rightarrow> addr list) \<Rightarrow> block multiset \<Rightarrow> im_state \<Rightarrow> bool" where
  "im_ok sys n cs fl L s \<longleftrightarrow> lists_ok n fl s \<and> heap_ok sys cs (blocks n fl L) s \<and>
     used (im_desc s) + int (weight (global_blocks fl)) = int (weight (blocks n fl L))"

text \<open>What is relied on of the system: requests succeed, and the chunks it hands out do not overlap.\<close>

definition sys_ok :: "(nat \<Rightarrow> nat \<Rightarrow> addr) \<Rightarrow> bool" where
  "sys_ok sys \<longleftrightarrow> (\<forall>i m. sys i m \<noteq> 0) \<and>
     (\<forall>i j. i \<noteq> j \<longrightarrow>
       {sys i INTERNAL_MALLOC_CHUNK_SIZE ..< sys i INTERNAL_MALLOC_CHUNK_SIZE + INTERNAL_MALLOC_CHUNK_SIZE} \<inter>
       {sys j INTERNAL_MALLOC_CHUNK_SIZE ..< sys j INTERNAL_MALLOC_CHUNK_SIZE + INTERNAL_MALLOC_CHUNK_SIZE} = {})"

lemma chain_cong: "(\<forall>x\<in>set xs. nx x = nx' x) \<Longrightarrow> chain nx p xs = chain nx' p xs"
  by (induction xs arbitrary: p) auto

lemma bucket_upd:
  assumes "b < length (buckets (desc own s))"
  shows "im_bin own' b' (upd_bucket own b f s) =
    (if own' = own \<and> b' = b then f (im_bin own b s) else im_bin own' b' s)"
  using assms by (auto simp: im_bin_def upd_bucket_def upd_desc_def desc_def split: option.splits)

lemma desc_length_upd [simp]:
  "length (buckets (desc own' (upd_bucket own b f s))) = length (buckets (desc own' s))"
  by (auto simp: upd_bucket_def upd_desc_def desc_def split: option.splits)

lemma upd_desc_fields [simp]:
  "im_pool (upd_desc own f s) = im_pool s" "next_block (upd_desc own f s) = next_block s"
  "sys_requests (upd_desc own f s) = sys_requests s" "im_nworkers (upd_desc own f s) = im_nworkers s"
  "worker_present (upd_desc own f s) = worker_present s"
  by (simp_all add: upd_desc_def split: option.splits)

lemma upd_bucket_fields [simp]:
  "im_pool (upd_bucket own b f s) = im_pool s" "next_block (upd_bucket own b f s) = next_block s"
  "sys_requests (upd_bucket own b f s) = sys_requests s" "used (desc o' (upd_bucket own b f s)) = used (desc o' s)"
  "im_nworkers (upd_bucket own b f s) = im_nworkers s" "worker_present (upd_bucket own b f s) = worker_present s"
  "used (im_desc (upd_bucket own b f s)) = used (im_desc s)"
  by (auto simp: upd_bucket_def desc_def upd_desc_def split: option.splits)

lemma heap_ok_cong:
  "heap_ok sys cs B s \<Longrightarrow> im_pool s' = im_pool s \<Longrightarrow> sys_requests s' = sys_requests s \<Longrightarrow> heap_ok sys cs B s'"
  by (simp add: heap_ok_def im_pool_ok_def placed_def available_def)

lemma lists_ok_cong:
  "lists_ok n fl s \<Longrightarrow> next_block s' = next_block s \<Longrightarrow>
   (\<And>own. buckets (desc own s') = buckets (desc own s)) \<Longrightarrow> lists_ok n fl s'"
  by (simp add: lists_ok_def im_bin_def)

text \<open>The invariant ignores every other field.\<close>

lemma im_ok_cong:
  assumes "im_ok sys n cs fl L s"
    and "im_pool s' = im_pool s" "sys_requests s' = sys_requests s" "next_block s' = next_block s"
    and "used (im_desc s') = used (im_desc s)"
    and "\<And>own. length (buckets (desc own s')) = length (buckets (desc own s))"
    and "\<And>own b. (own, b) \<in> keys n \<Longrightarrow> free_list (im_bin own b s') = free_list (im_bin own b s) \<and>
      free_list_size (im_bin own b s') = free_list_size (im_bin own b s)"
  shows "im_ok sys n cs fl L s'"
  using assms heap_ok_cong [of sys cs "blocks n fl L" s s'] by (simp add: im_ok_def lists_ok_def)

section \<open>Lists\<close>

lemma lists_push:
  assumes "lists_ok n fl s" "(own, b) \<in> keys n" "p \<noteq> 0" "\<And>k. k \<in> keys n \<Longrightarrow> p \<notin> set (fl k)"
  shows "lists_ok n (fl((own, b) := p # fl (own, b))) (add_to_free_list own b p s)"
  unfolding lists_ok_def
proof (intro allI impI)
  fix own' b' assume k: "(own', b') \<in> keys n"
  let ?s = "add_to_free_list own b p s"
  have len: "length (buckets (desc own'' s)) = NUM_BUCKETS" if "(own'', b'') \<in> keys n" for own'' b''
    using assms(1) that by (auto simp: lists_ok_def)
  have b: "b < NUM_BUCKETS" using assms(2) by (simp add: keys_def)
  have same: "desc own'' (s\<lparr>next_block := g\<rparr>) = desc own'' s" "im_bin own'' b'' (s\<lparr>next_block := g\<rparr>) = im_bin own'' b'' s"
    for own'' b'' g by (simp_all add: desc_def im_bin_def split: option.splits)
  have bk: "im_bin own' b' ?s = (if own' = own \<and> b' = b
      then (im_bin own b s)\<lparr>free_list := p, free_list_size := free_list_size (im_bin own b s) + 1\<rparr> else im_bin own' b' s)"
    using b len [OF assms(2)] by (simp add: add_to_free_list_def bucket_upd same)
  have old: "chain (next_block s) (free_list (im_bin own'' b'' s)) (fl (own'', b''))"
    "free_list_size (im_bin own'' b'' s) = of_nat (length (fl (own'', b'')))" if "(own'', b'') \<in> keys n" for own'' b''
    using assms(1) that by (auto simp: lists_ok_def)
  have nx: "next_block ?s = (next_block s)(p := free_list (im_bin own b s))" by (simp add: add_to_free_list_def)
  have length_same: "length (buckets (desc own' ?s)) = length (buckets (desc own' s))"
    by (simp add: add_to_free_list_def same)
  have chains: "chain (next_block ?s) q (fl k) = chain (next_block s) q (fl k)" if "k \<in> keys n" for q k
    unfolding nx by (rule chain_cong) (use assms(4) [OF that] in auto)
  show "length (buckets (desc own' ?s)) = NUM_BUCKETS \<and>
      chain (next_block ?s) (free_list (im_bin own' b' ?s)) ((fl((own, b) := p # fl (own, b))) (own', b')) \<and>
      free_list_size (im_bin own' b' ?s) = of_nat (length ((fl((own, b) := p # fl (own, b))) (own', b')))"
    using old [OF k] old [OF assms(2)] chains [OF k] chains [OF assms(2)] assms(3) len [OF k] length_same
    by (auto simp: bk nx)
qed

lemma lists_pop:
  assumes "lists_ok n fl s" "(own, b) \<in> keys n" "fl (own, b) = p # ps"
  shows "\<exists>s'. remove_from_free_list own b s = (p, s') \<and> p \<noteq> 0 \<and> lists_ok n (fl((own, b) := ps)) s' \<and>
    s' = upd_bucket own b (\<lambda>k. k\<lparr>free_list := next_block s p, free_list_size := free_list_size k - 1\<rparr>) s"
proof -
  let ?s = "upd_bucket own b (\<lambda>k. k\<lparr>free_list := next_block s p, free_list_size := free_list_size k - 1\<rparr>) s"
  have old: "length (buckets (desc own' s)) = NUM_BUCKETS"
    "chain (next_block s) (free_list (im_bin own' b' s)) (fl (own', b'))"
    "free_list_size (im_bin own' b' s) = of_nat (length (fl (own', b')))" if "(own', b') \<in> keys n" for own' b'
    using assms(1) that by (auto simp: lists_ok_def)
  have "b < NUM_BUCKETS" using assms(2) by (simp add: keys_def)
  then have "lists_ok n (fl((own, b) := ps)) ?s"
    using old old [OF assms(2)] assms(3) by (auto simp: lists_ok_def bucket_upd)
  then show ?thesis using old(2) [OF assms(2)] assms(3) by (simp add: remove_from_free_list_def Let_def)
qed

lemma lists_empty:
  assumes "lists_ok n fl s" "(own, b) \<in> keys n" "fl (own, b) = []"
  shows "remove_from_free_list own b s = (0, s)"
  using assms by (auto simp: lists_ok_def remove_from_free_list_def Let_def dest!: spec)

section \<open>Chunks\<close>

lemma chunk_new:
  assumes "sys_ok sys" "c = sys i INTERNAL_MALLOC_CHUNK_SIZE" "i < m"
  shows "{c ..< c + INTERNAL_MALLOC_CHUNK_SIZE} \<inter>
    {sys m INTERNAL_MALLOC_CHUNK_SIZE ..< sys m INTERNAL_MALLOC_CHUNK_SIZE + INTERNAL_MALLOC_CHUNK_SIZE} = {}"
  using assms unfolding sys_ok_def by (metis less_irrefl)

lemma mem_list_append:
  "length cs < m \<Longrightarrow> (cs @ replicate (m - length cs) 0)[length cs := c] = (cs @ [c]) @ replicate (m - length (cs @ [c])) 0"
  by (cases "m - length cs") (auto simp: list_update_append)

lemma grow_if_full:
  assumes "length cs < 2 ^ 30" "mem_list_index p = of_nat (length cs)"
    "mem_list p = cs @ replicate (unat (mem_list_size p) - length cs) 0" "length cs \<le> unat (mem_list_size p)"
    "0 < mem_list_size p" "unat (mem_list_size p) \<le> 8 + 2 * length cs"
  shows "\<exists>m. (if mem_list_index p \<ge> mem_list_size p then grow_mem_list p else Some p) =
      Some (p\<lparr>mem_list := cs @ replicate (unat m - length cs) 0, mem_list_size := m\<rparr>) \<and>
    length cs < unat m \<and> 0 < m \<and> unat m \<le> 8 + 2 * (length cs + 1)"
proof (cases "mem_list_index p \<ge> mem_list_size p")
  case True
  have idx: "unat (mem_list_index p) = length cs"
    using assms(1,2) by (simp add: unat_of_nat)
  with True assms(4) have eq: "unat (mem_list_size p) = length cs" by (simp add: word_le_nat_alt)
  have pos: "0 < length cs" using assms(5) eq by (simp add: word_less_nat_alt)
  have dbl: "unat (2 * mem_list_size p) = 2 * length cs"
    using assms(1) eq by (simp add: unat_mult_lem [THEN iffD1] unat_word_ariths)
  with True pos eq assms show ?thesis
    by (intro exI [of _ "2 * mem_list_size p"]) (simp add: grow_mem_list_def word_less_nat_alt Let_def)
next
  case False
  then have "length cs < unat (mem_list_size p)"
    using assms(1,2) by (simp add: word_le_nat_alt unat_of_nat)
  with False assms show ?thesis by (intro exI [of _ "mem_list_size p"]) simp
qed

lemma extend_ok:
  assumes heap: "heap_ok sys cs B s" and sys: "sys_ok sys" and empty: "available s = 0" and few: "length cs < 2 ^ 30"
  shows "\<exists>c p. extend_global_pool sys s = Some (s\<lparr>sys_requests := sys_requests s + 1, im_pool := p\<rparr>) \<and>
    heap_ok sys (cs @ [c]) B (s\<lparr>sys_requests := sys_requests s + 1, im_pool := p\<rparr>) \<and>
    mem_begin p = c \<and> mem_end p = c + INTERNAL_MALLOC_CHUNK_SIZE \<and> c \<noteq> 0"
proof -
  define c where "c = sys (sys_requests s) INTERNAL_MALLOC_CHUNK_SIZE"
  define q where "q = (im_pool s)\<lparr>mem_begin := c, mem_end := c + INTERNAL_MALLOC_CHUNK_SIZE,
    pool_allocated := pool_allocated (im_pool s) + INTERNAL_MALLOC_CHUNK_SIZE,
    mem_list_index := mem_list_index (im_pool s) + 1\<rparr>"
  have pool: "im_pool_ok sys cs s" using heap by (simp add: heap_ok_def)
  have c0: "c \<noteq> 0" using sys by (simp add: c_def sys_ok_def)
  obtain m where m: "(if mem_list_index q \<ge> mem_list_size q then grow_mem_list q else Some q) =
      Some (q\<lparr>mem_list := cs @ replicate (unat m - length cs) 0, mem_list_size := m\<rparr>)"
    "length cs < unat m" "0 < m" "unat m \<le> 8 + 2 * (length cs + 1)"
    using grow_if_full [of cs q] few pool by (auto simp: q_def im_pool_ok_def Let_def)
  have idx: "unat (mem_list_index q) = length cs"
    using pool few by (simp add: q_def im_pool_ok_def Let_def unat_of_nat)
  define p where "p = q\<lparr>mem_list := (cs @ [c]) @ replicate (unat m - length (cs @ [c])) 0, mem_list_size := m\<rparr>"
  let ?s = "s\<lparr>sys_requests := sys_requests s + 1, im_pool := p\<rparr>"
  have "extend_global_pool sys s = Option.bind (if mem_list_index q \<ge> mem_list_size q then grow_mem_list q else Some q)
      (\<lambda>p1. Some (s\<lparr>sys_requests := sys_requests s + 1,
         im_pool := p1\<lparr>mem_list := (mem_list p1)[unat (mem_list_index p1) := c]\<rparr>\<rparr>))"
    using c0 by (simp add: extend_global_pool_def malloc_from_system_def c_def q_def Let_def)
  also have "\<dots> = Some ?s"
    unfolding m(1) using idx mem_list_append [OF m(2), of c] by (simp add: p_def)
  finally have run: "extend_global_pool sys s = Some ?s" .
  have old: "\<exists>i< sys_requests s. d = sys i INTERNAL_MALLOC_CHUNK_SIZE" if "d \<in> set cs" for d
    using pool that by (simp add: im_pool_ok_def requested_def Let_def)
  have "requested sys (cs @ [c]) (Suc (sys_requests s))"
    using pool requested_Suc by (auto simp: im_pool_ok_def requested_def Let_def c_def)
  then have "im_pool_ok sys (cs @ [c]) ?s"
    using pool m(2-4) c0 by (simp add: im_pool_ok_def p_def q_def Let_def)
  moreover have "placed (cs @ [c]) ?s x" if "x \<in># B" for x
  proof -
    have pl: "placed cs s x" using heap that by (simp add: heap_ok_def)
    then obtain d where d: "d \<in> set cs" "extent x \<subseteq> {d ..< d + INTERNAL_MALLOC_CHUNK_SIZE}"
      unfolding placed_def by blast
    obtain i where i: "i < sys_requests s" "d = sys i INTERNAL_MALLOC_CHUNK_SIZE" using old [OF d(1)] by blast
    have "{d ..< d + INTERNAL_MALLOC_CHUNK_SIZE} \<inter> {c ..< c + INTERNAL_MALLOC_CHUNK_SIZE} = {}"
      unfolding c_def by (rule chunk_new [OF sys i(2,1)])
    with d(2) have "extent x \<inter> {c ..< c + INTERNAL_MALLOC_CHUNK_SIZE} = {}" by blast
    with pl d show ?thesis by (simp add: placed_def p_def q_def)
  qed
  ultimately have "heap_ok sys (cs @ [c]) B ?s"
    using heap empty by (simp add: heap_ok_def available_def p_def q_def)
  with run c0 show ?thesis by (intro exI [of _ c] exI [of _ p]) (simp add: p_def q_def)
qed

lemma take_block:
  assumes heap: "heap_ok sys cs B s" and b: "b < NUM_BUCKETS" and fits: "bucket_sizes ! b \<le> available s"
  shows "heap_ok sys cs (add_mset (mem_begin (im_pool s), b) B)
      (s\<lparr>im_pool := (im_pool s)\<lparr>mem_begin := mem_begin (im_pool s) + bucket_sizes ! b\<rparr>\<rparr>)"
proof -
  let ?p = "mem_begin (im_pool s)" and ?e = "mem_end (im_pool s)"
  let ?s = "s\<lparr>im_pool := (im_pool s)\<lparr>mem_begin := ?p + bucket_sizes ! b\<rparr>\<rparr>"
  have pos: "0 < bucket_sizes ! b" using size_pos [OF b] by simp
  have room: "?p + bucket_sizes ! b \<le> ?e" using fits pos by (simp add: available_def)
  have pool: "im_pool_ok sys cs s" using heap by (simp add: heap_ok_def)
  then have cs: "cs \<noteq> []" using room pos by (auto simp: im_pool_ok_def Let_def)
  have chunk: "last cs \<le> ?p" "?e = last cs + INTERNAL_MALLOC_CHUNK_SIZE" using pool cs by (simp_all add: im_pool_ok_def Let_def)
  have "im_pool_ok sys cs ?s" using pool cs room by (simp add: im_pool_ok_def Let_def)
  moreover have "apart (add_mset (?p, b) B)"
  proof (rule apart_add)
    show "apart B" using heap by (simp add: heap_ok_def)
    fix y assume "y \<in># B"
    then have "extent y \<inter> {?p ..< ?e} = {}" using heap by (simp add: heap_ok_def placed_def)
    then show "extent (?p, b) \<inter> extent y = {}" using room by (auto simp: extent_def)
  qed
  moreover have "placed cs ?s y" if "y \<in># B" for y
  proof -
    have "placed cs s y" using heap that by (simp add: heap_ok_def)
    moreover have "{?p + bucket_sizes ! b ..< ?e} \<subseteq> {?p ..< ?e}" by auto
    ultimately show ?thesis by (auto simp: placed_def)
  qed
  moreover have "placed cs ?s (?p, b)"
  proof -
    have "last cs \<noteq> 0"
      using pool last_in_set [OF cs] by (simp add: im_pool_ok_def Let_def)
    then show ?thesis
      using b cs chunk room by (auto simp: placed_def extent_def intro!: bexI [of _ "last cs"])
  qed
  ultimately show ?thesis using heap room by (auto simp: heap_ok_def available_def)
qed

text \<open>What an allocation from the global pool leaves alone.\<close>

definition same_workers :: "im_state \<Rightarrow> im_state \<Rightarrow> bool" where
  "same_workers s s' \<longleftrightarrow> worker_desc s' = worker_desc s \<and> im_nworkers s' = im_nworkers s \<and>
     worker_present s' = worker_present s \<and> page_shift s' = page_shift s"

lemma carve_ok:
  assumes heap: "heap_ok sys cs B s" and sys: "sys_ok sys" and b: "b < NUM_BUCKETS"
    and dvd: "bucket_sizes ! b dvd available s" and few: "length cs < 2 ^ 30"
  shows "\<exists>p cs' s'. carve sys (bucket_sizes ! b) s = Some (p, s') \<and> p \<noteq> 0 \<and>
    heap_ok sys cs' (add_mset (p, b) B) s' \<and> length cs' \<le> length cs + 1 \<and>
    bucket_sizes ! b dvd available s' \<and> (available s' + bucket_sizes ! b) mod 4096 = available s mod 4096 \<and>
    same_workers s s' \<and> im_desc s' = im_desc s \<and> next_block s' = next_block s"
proof (cases "available s = 0")
  case False
  let ?p = "mem_begin (im_pool s)"
  let ?s = "s\<lparr>im_pool := (im_pool s)\<lparr>mem_begin := ?p + bucket_sizes ! b\<rparr>\<rparr>"
  from False dvd have fits: "bucket_sizes ! b \<le> available s" by (simp add: dvd_imp_le)
  have new: "heap_ok sys cs (add_mset (?p, b) B) ?s" by (rule take_block [OF heap b fits])
  then have p: "?p \<noteq> 0" by (simp add: heap_ok_def placed_def)
  have pos: "0 < bucket_sizes ! b" using size_pos [OF b] by simp
  have room: "\<not> mem_end (im_pool s) < ?p + bucket_sizes ! b" using fits pos by (simp add: available_def)
  have run: "carve sys (bucket_sizes ! b) s = Some (?p, ?s)"
    using room by (simp add: carve_def Let_def not_less [symmetric])
  have av: "available ?s + bucket_sizes ! b = available s" "available ?s = available s - bucket_sizes ! b"
    using fits pos by (simp_all add: available_def)
  show ?thesis
    by (rule exI [of _ ?p], rule exI [of _ cs], rule exI [of _ ?s])
      (use run p new av dvd in \<open>simp add: same_workers_def dvd_diff_nat\<close>)
next
  case True
  have nowaste: "s\<lparr>im_pool := (im_pool s)\<lparr>pool_wasted := pool_wasted (im_pool s) +
      (mem_end (im_pool s) - mem_begin (im_pool s))\<rparr>\<rparr> = s"
    using True by (simp add: available_def)
  have full: "\<not> mem_begin (im_pool s) + bucket_sizes ! b \<le> mem_end (im_pool s)"
    using True size_pos [OF b] by (simp add: available_def)
  obtain c p where ext: "extend_global_pool sys s = Some (s\<lparr>sys_requests := sys_requests s + 1, im_pool := p\<rparr>)"
    and heap': "heap_ok sys (cs @ [c]) B (s\<lparr>sys_requests := sys_requests s + 1, im_pool := p\<rparr>)"
    and p: "mem_begin p = c" "mem_end p = c + INTERNAL_MALLOC_CHUNK_SIZE" "c \<noteq> 0"
    using extend_ok [OF heap sys True few] by blast
  let ?t = "s\<lparr>sys_requests := sys_requests s + 1, im_pool := p\<rparr>"
  let ?s = "s\<lparr>sys_requests := sys_requests s + 1, im_pool := p\<lparr>mem_begin := c + bucket_sizes ! b\<rparr>\<rparr>"
  have av: "available ?t = INTERNAL_MALLOC_CHUNK_SIZE" using p by (simp add: available_def)
  have le: "bucket_sizes ! b \<le> 2048" using size_le [OF b] by (simp add: SIZE_THRESH_def NUM_BUCKETS_def bucket_sizes_def)
  have fits: "bucket_sizes ! b \<le> available ?t"
    unfolding av using le by (simp add: INTERNAL_MALLOC_CHUNK_SIZE_def)
  have new: "heap_ok sys (cs @ [c]) (add_mset (c, b) B) ?s"
    using take_block [OF heap' b fits] p(1) by simp
  have run: "carve sys (bucket_sizes ! b) s = Some (c, ?s)"
    using full p(1) by (simp add: carve_def nowaste ext Let_def)
  have av': "available ?s = 32768 - bucket_sizes ! b"
    using p by (simp add: available_def INTERNAL_MALLOC_CHUNK_SIZE_def)
  have "bucket_sizes ! b dvd 32768" using dvd_trans [OF size_dvd [OF b], of 32768] by simp
  then have "bucket_sizes ! b dvd available ?s" unfolding av' using le by (intro dvd_diff_nat) auto
  moreover have "(available ?s + bucket_sizes ! b) mod 4096 = available s mod 4096"
    unfolding av' True using le by simp
  ultimately show ?thesis
    by (intro exI [of _ c] exI [of _ "cs @ [c]"] exI [of _ ?s]) (use run p new in \<open>simp add: same_workers_def\<close>)
qed

section \<open>The four moves\<close>

text \<open>\<open>L\<close> holds the blocks that are on no list.\<close>

lemma push_worker:
  assumes "im_ok sys n cs fl (add_mset (p, b) L) s" "w < n" "b < NUM_BUCKETS"
  shows "im_ok sys n cs (fl((Some w, b) := p # fl (Some w, b))) L (add_to_free_list (Some w) b p s)"
proof -
  have k: "(Some w, b) \<in> keys n" using assms(2,3) by (simp add: keys_def)
  have heap: "heap_ok sys cs (blocks n fl (add_mset (p, b) L)) s" using assms(1) by (simp add: im_ok_def)
  then have "placed cs s (p, b)" by (simp add: heap_ok_def blocks_def)
  then have p0: "p \<noteq> 0" by (simp add: placed_def)
  have "apart (blocks n fl (add_mset (p, b) L))" using heap by (simp add: heap_ok_def)
  then have free: "p \<notin> set (fl j)" if "j \<in> keys n" for j using apart_not_listed [of n fl p b L j] assms(3) that by blast
  have lists: "lists_ok n fl s" using assms(1) by (simp add: im_ok_def)
  from lists_push [of n fl s "Some w" b p, OF lists k p0 free]
  have "lists_ok n (fl((Some w, b) := p # fl (Some w, b))) (add_to_free_list (Some w) b p s)" .
  moreover have "blocks n (fl((Some w, b) := p # fl (Some w, b))) L = blocks n fl (add_mset (p, b) L)"
    using blocks_push [OF k, of fl p L] by simp
  ultimately show ?thesis
    using assms(1) heap_ok_cong [OF heap, of "add_to_free_list (Some w) b p s"]
    by (simp add: im_ok_def global_other add_to_free_list_def)
qed

lemma pop_worker:
  assumes "im_ok sys n cs fl L s" "w < n" "b < NUM_BUCKETS" "fl (Some w, b) = p # ps"
  shows "\<exists>s'. remove_from_free_list (Some w) b s = (p, s') \<and> p \<noteq> 0 \<and>
    im_ok sys n cs (fl((Some w, b) := ps)) (add_mset (p, b) L) s' \<and>
    s' = upd_bucket (Some w) b (\<lambda>k. k\<lparr>free_list := next_block s p, free_list_size := free_list_size k - 1\<rparr>) s"
proof -
  have k: "(Some w, b) \<in> keys n" using assms(2,3) by (simp add: keys_def)
  have lists: "lists_ok n fl s" using assms(1) by (simp add: im_ok_def)
  obtain s' where s': "remove_from_free_list (Some w) b s = (p, s')" "p \<noteq> 0" "lists_ok n (fl((Some w, b) := ps)) s'"
    "s' = upd_bucket (Some w) b (\<lambda>k. k\<lparr>free_list := next_block s p, free_list_size := free_list_size k - 1\<rparr>) s"
    using lists_pop [OF lists k assms(4)] by blast
  have "blocks n (fl((Some w, b) := ps)) (add_mset (p, b) L) = blocks n fl L"
    using blocks_pop [of "(Some w, b)" n fl p ps L] k assms(4) by simp
  moreover have "heap_ok sys cs (blocks n fl L) s'"
    using assms(1) heap_ok_cong [of sys cs "blocks n fl L" s s'] s'(4) by (simp add: im_ok_def)
  ultimately show ?thesis using s' assms(1) by (simp add: im_ok_def global_other)
qed

lemma pop_empty:
  assumes "im_ok sys n cs fl L s" "w < n" "b < NUM_BUCKETS" "fl (Some w, b) = []"
  shows "remove_from_free_list (Some w) b s = (0, s)"
  using lists_empty [of n fl s "Some w" b] assms by (simp add: im_ok_def keys_def)

lemma release_global:
  assumes "im_ok sys n cs fl (add_mset (p, b) L) s" "b < NUM_BUCKETS"
  shows "im_ok sys n cs (fl((None, b) := p # fl (None, b))) L
    (upd_desc None (used_update (\<lambda>u. u - int (bucket_sizes ! b))) (add_to_free_list None b p s))"
proof -
  have k: "(None, b) \<in> keys n" using assms(2) by (simp add: keys_def)
  let ?t = "add_to_free_list None b p s"
  let ?s = "upd_desc None (used_update (\<lambda>u. u - int (bucket_sizes ! b))) ?t"
  have heap: "heap_ok sys cs (blocks n fl (add_mset (p, b) L)) s" using assms(1) by (simp add: im_ok_def)
  then have "placed cs s (p, b)" by (simp add: heap_ok_def blocks_def)
  then have p0: "p \<noteq> 0" by (simp add: placed_def)
  have "apart (blocks n fl (add_mset (p, b) L))" using heap by (simp add: heap_ok_def)
  then have free: "p \<notin> set (fl j)" if "j \<in> keys n" for j using apart_not_listed [of n fl p b L j] assms(2) that by blast
  have lists: "lists_ok n fl s" using assms(1) by (simp add: im_ok_def)
  from lists_push [of n fl s "None" b p, OF lists k p0 free]
  have "lists_ok n (fl((None, b) := p # fl (None, b))) ?t" .
  then have "lists_ok n (fl((None, b) := p # fl (None, b))) ?s"
    by (rule lists_ok_cong) (simp_all add: desc_def upd_desc_def split: option.splits)
  moreover have "blocks n (fl((None, b) := p # fl (None, b))) L = blocks n fl (add_mset (p, b) L)"
    using blocks_push [OF k, of fl p L] by simp
  moreover have "used (im_desc ?s) = used (im_desc s) - int (bucket_sizes ! b)"
    by (simp add: add_to_free_list_def upd_desc_def upd_bucket_def)
  moreover have "heap_ok sys cs (blocks n fl (add_mset (p, b) L)) ?s"
    using heap_ok_cong [OF heap, of ?s] by (simp add: add_to_free_list_def)
  ultimately show ?thesis
    using assms(1) global_push [OF assms(2), of fl p] by (simp add: im_ok_def)
qed

end
