(* ===== verification/Malloc_Batches.thy ===== *)
theory Malloc_Batches
  imports Malloc_Blocks
begin

text \<open>
  The batches in which the workers and the global pool exchange blocks, and the two operations of the
  client.  A batch of a size class is half its capacity, a multiple of 4096 bytes; so between the
  operations the global lists hold whole batches, the unused part of the chunk is a multiple of 4096
  bytes, and no chunk is abandoned before it is used up.
\<close>

text \<open>The fields of the workers that moving blocks does not touch.\<close>

definition books :: "im_state \<Rightarrow> nat \<times> (nat \<Rightarrow> bool) \<times> (nat \<Rightarrow> int \<times> int \<times> (nat \<Rightarrow> u32))" where
  "books s = (im_nworkers s, worker_present s, \<lambda>w.
     (used (worker_desc s w), wasted_bytes (worker_desc s w), \<lambda>b. free_list_limit (buckets (worker_desc s w) ! b)))"

lemma wasted_bytes_sum: "wasted_bytes d = (\<Sum>i<NUM_BUCKETS. bk_wasted (buckets d ! i))"
  by (simp add: wasted_bytes_def interv_sum_list_conv_sum_set_nat atLeast0LessThan)

lemma same_workers_books: "same_workers s s' \<Longrightarrow> books s' = books s"
  by (simp add: same_workers_def books_def)

lemma books_upd_bucket:
  assumes "\<And>k. bk_wasted (f k) = bk_wasted k \<and> free_list_limit (f k) = free_list_limit k"
  shows "books (upd_bucket own b f s) = books s"
proof -
  have "bk_wasted (bs[b := f (bs ! b)] ! i) = bk_wasted (bs ! i) \<and>
      free_list_limit (bs[b := f (bs ! b)] ! i) = free_list_limit (bs ! i)" for bs i
    using assms by (cases "b < length bs"; cases "i = b") (simp_all add: list_update_beyond)
  then show ?thesis
    by (auto simp: books_def upd_bucket_def upd_desc_def wasted_bytes_sum fun_eq_iff split: option.splits)
qed

lemma books_none: "books (upd_desc None f s) = books s"
  by (simp add: books_def upd_desc_def)

lemma books_add: "books (add_to_free_list own b p s) = books s"
proof -
  have "books (s\<lparr>next_block := g\<rparr>) = books s" for g by (simp add: books_def)
  then show ?thesis by (simp add: add_to_free_list_def books_upd_bucket)
qed

lemma available_cong: "im_pool s' = im_pool s \<Longrightarrow> available s' = available s"
  by (simp add: available_def)

lemma available_add [simp]: "available (add_to_free_list own b p s) = available s"
  by (simp add: available_def add_to_free_list_def)

section \<open>Allocating a batch\<close>

lemma global_alloc_ok:
  assumes ok: "im_ok sys n cs fl L s" and sys: "sys_ok sys" and b: "b < NUM_BUCKETS" and few: "length cs < 2 ^ 30"
    and dvd: "fl (None, b) = [] \<Longrightarrow> bucket_sizes ! b dvd available s"
  shows "\<exists>p cs' s'. global_im_alloc sys (bucket_sizes ! b) b s = Some (p, s') \<and>
    im_ok sys n cs' (fl((None, b) := tl (fl (None, b)))) (add_mset (p, b) L) s' \<and> length cs' \<le> length cs + 1 \<and>
    same_workers s s' \<and>
    (if fl (None, b) = [] then bucket_sizes ! b dvd available s' \<and>
       (available s' + bucket_sizes ! b) mod 4096 = available s mod 4096
     else available s' = available s)"
proof -
  let ?t = "upd_desc None (used_update (\<lambda>u. u + int (bucket_sizes ! b))) s"
  have k: "(None, b) \<in> keys n" using b by (simp add: keys_def)
  have "lists_ok n fl s" using ok by (simp add: im_ok_def)
  then have lists: "lists_ok n fl ?t"
    by (rule lists_ok_cong) (simp_all add: desc_def upd_desc_def split: option.splits)
  have heap: "heap_ok sys cs (blocks n fl L) ?t"
    using ok heap_ok_cong [of sys cs "blocks n fl L" s ?t] by (simp add: im_ok_def)
  have u: "used (im_desc ?t) + int (weight (global_blocks fl)) = int (weight (blocks n fl L)) + int (bucket_sizes ! b)"
    using ok by (simp add: im_ok_def upd_desc_def)
  have av: "available ?t = available s" by (rule available_cong) simp
  have t: "same_workers s ?t" by (simp add: same_workers_def upd_desc_def)
  show ?thesis
  proof (cases "fl (None, b)")
    case (Cons p ps)
    obtain s' where s': "remove_from_free_list None b ?t = (p, s')" "p \<noteq> 0" "lists_ok n (fl((None, b) := ps)) s'"
      "s' = upd_bucket None b (\<lambda>k. k\<lparr>free_list := next_block ?t p, free_list_size := free_list_size k - 1\<rparr>) ?t"
      using lists_pop [of n fl ?t None b p ps] lists k Cons by blast
    have bl: "blocks n (fl((None, b) := ps)) (add_mset (p, b) L) = blocks n fl L"
      using blocks_pop [of "(None, b)" n fl p ps L] k Cons by simp
    have heap': "heap_ok sys cs (blocks n fl L) s'"
      by (rule heap_ok_cong [OF heap]) (simp_all add: s'(4))
    have u': "used (im_desc s') = used (im_desc ?t)" by (simp add: s'(4))
    have "im_ok sys n cs (fl((None, b) := ps)) (add_mset (p, b) L) s'"
      using s'(3) heap' u u' global_pop [of b fl p ps] b Cons by (simp add: im_ok_def bl)
    moreover have "same_workers s s'" using t by (simp add: s'(4) same_workers_def upd_bucket_def upd_desc_def)
    moreover have "available s' = available s" using av by (simp add: s'(4) available_def)
    moreover have "global_im_alloc sys (bucket_sizes ! b) b s = Some (p, s')"
      using size_le [OF b] b s'(1,2) by (simp add: global_im_alloc_def)
    ultimately show ?thesis
      using Cons by (intro exI [of _ p] exI [of _ cs] exI [of _ s']) simp
  next
    case Nil
    have dvd': "bucket_sizes ! b dvd available ?t" using dvd [OF Nil] av by simp
    obtain p cs' s' where c: "carve sys (bucket_sizes ! b) ?t = Some (p, s')" "p \<noteq> 0"
      "heap_ok sys cs' (add_mset (p, b) (blocks n fl L)) s'" "length cs' \<le> length cs + 1"
      "bucket_sizes ! b dvd available s'" "(available s' + bucket_sizes ! b) mod 4096 = available ?t mod 4096"
      "same_workers ?t s'" "im_desc s' = im_desc ?t" "next_block s' = next_block ?t"
      using carve_ok [OF heap sys b dvd' few] by blast
    have run: "global_im_alloc sys (bucket_sizes ! b) b s = Some (p, s')"
      using size_le [OF b] b c(1) lists_empty [OF lists k Nil] by (simp add: global_im_alloc_def)
    have bl: "blocks n fl (add_mset (p, b) L) = add_mset (p, b) (blocks n fl L)" by (simp add: blocks_def)
    have "desc own s' = desc own ?t" for own
      using c(7,8) by (simp add: desc_def same_workers_def split: option.splits)
    then have "lists_ok n fl s'" using lists_ok_cong [OF lists c(9)] by simp
    then have "im_ok sys n cs' fl (add_mset (p, b) L) s'" using c(3,8) u by (simp add: im_ok_def bl)
    moreover have "fl((None, b) := tl (fl (None, b))) = fl" using Nil by (simp add: fun_upd_idem)
    moreover have "same_workers s s'" using t c(7) by (simp add: same_workers_def)
    ultimately show ?thesis
      using c(2,4-6) av run Nil
      by (intro exI [of _ p] exI [of _ cs'] exI [of _ s']) simp
  qed
qed

lemma allocate_loop_ok:
  assumes "im_ok sys n cs fl L s" "sys_ok sys" "w < n" "b < NUM_BUCKETS" "length cs + i < 2 ^ 30"
    and "if fl (None, b) = [] then bucket_sizes ! b dvd available s else i \<le> length (fl (None, b))"
  shows "\<exists>cs' fl' s'. allocate_loop i sys w (bucket_sizes ! b) b s = Some s' \<and> im_ok sys n cs' fl' L s' \<and>
    length cs' \<le> length cs + i \<and> books s' = books s \<and>
    length (fl' (Some w, b)) = length (fl (Some w, b)) + i \<and>
    (\<forall>k. k \<noteq> (None, b) \<and> k \<noteq> (Some w, b) \<longrightarrow> fl' k = fl k) \<and>
    length (fl' (None, b)) = length (fl (None, b)) - i \<and>
    (if fl (None, b) = [] then (available s' + i * bucket_sizes ! b) mod 4096 = available s mod 4096
     else available s' = available s)"
  using assms
proof (induction i arbitrary: cs fl s)
  case 0
  then show ?case by (intro exI [of _ cs] exI [of _ fl] exI [of _ s]) simp
next
  case (Suc i)
  let ?g = "fl (None, b)"
  obtain p cs1 s1 where a: "global_im_alloc sys (bucket_sizes ! b) b s = Some (p, s1)"
    "im_ok sys n cs1 (fl((None, b) := tl ?g)) (add_mset (p, b) L) s1"
    "length cs1 \<le> length cs + 1" "same_workers s s1"
    "if ?g = [] then bucket_sizes ! b dvd available s1 \<and>
       (available s1 + bucket_sizes ! b) mod 4096 = available s mod 4096 else available s1 = available s"
    using global_alloc_ok [of sys n cs fl L s b] Suc.prems by (auto split: if_splits)
  define fl1 where "fl1 = (fl((None, b) := tl ?g))((Some w, b) := p # fl (Some w, b))"
  let ?t = "add_to_free_list (Some w) b p s1"
  have ok: "im_ok sys n cs1 fl1 L ?t"
    using push_worker [OF a(2) Suc.prems(3,4)] by (simp add: fl1_def)
  have g1: "fl1 (None, b) = tl ?g" "length (fl1 (Some w, b)) = length (fl (Some w, b)) + 1" by (simp_all add: fl1_def)
  have g2: "\<forall>k. k \<noteq> (None, b) \<and> k \<noteq> (Some w, b) \<longrightarrow> fl1 k = fl k" by (simp add: fl1_def)
  show ?case
  proof (cases "i = 0")
    case True
    then show ?thesis
      using a ok g1 g2 books_add [of "Some w" b p s1] same_workers_books [OF a(4)]
      by (intro exI [of _ cs1] exI [of _ fl1] exI [of _ ?t]) simp
  next
    case False
    have "if fl1 (None, b) = [] then bucket_sizes ! b dvd available ?t else i \<le> length (fl1 (None, b))"
      using Suc.prems(6) a(5) False by (cases ?g) (auto simp: g1 split: if_splits)
    moreover have "length cs1 + i < 2 ^ 30" using a(3) Suc.prems(5) by simp
    ultimately obtain cs' fl' s' where r: "allocate_loop i sys w (bucket_sizes ! b) b ?t = Some s'"
      "im_ok sys n cs' fl' L s'" "length cs' \<le> length cs1 + i" "books s' = books ?t"
      "length (fl' (Some w, b)) = length (fl1 (Some w, b)) + i"
      "\<forall>k. k \<noteq> (None, b) \<and> k \<noteq> (Some w, b) \<longrightarrow> fl' k = fl1 k"
      "length (fl' (None, b)) = length (fl1 (None, b)) - i"
      "if fl1 (None, b) = [] then (available s' + i * bucket_sizes ! b) mod 4096 = available ?t mod 4096
       else available s' = available ?t"
      using Suc.IH [OF ok Suc.prems(2-4)] by blast
    have av: "if ?g = [] then (available s' + Suc i * bucket_sizes ! b) mod 4096 = available s mod 4096
       else available s' = available s"
    proof (cases "?g = []")
      case True
      then have "(available s' + i * bucket_sizes ! b) mod 4096 = available s1 mod 4096" using r(8) by (simp add: g1)
      then have "(available s' + i * bucket_sizes ! b + bucket_sizes ! b) mod 4096 = (available s1 + bucket_sizes ! b) mod 4096"
        by (rule mod_add_cong) simp
      with True a(5) show ?thesis by (simp add: ac_simps)
    next
      case False
      with \<open>i \<noteq> 0\<close> Suc.prems(6) have "tl ?g \<noteq> []" by (cases ?g) auto
      then show ?thesis using False r(8) a(5) by (simp add: g1)
    qed
    have run: "allocate_loop (Suc i) sys w (bucket_sizes ! b) b s = Some s'" using a(1) r(1) by simp
    have "books s' = books s" using r(4) books_add same_workers_books [OF a(4)] by simp
    then show ?thesis
      using run r(2,3,5-7) av a(3) g1 g2
      by (intro exI [of _ cs'] exI [of _ fl'] exI [of _ s']) simp
  qed
qed

definition whole_batches :: "(key \<Rightarrow> addr list) \<Rightarrow> im_state \<Rightarrow> bool" where
  "whole_batches fl s \<longleftrightarrow>
     (\<forall>b<NUM_BUCKETS. bucket_capacity ! b div 2 dvd length (fl (None, b))) \<and> 4096 dvd available s"

lemma im_ok_upd_bucket:
  assumes "im_ok sys n cs fl L s" "\<And>k. free_list (f k) = free_list k \<and> free_list_size (f k) = free_list_size k"
  shows "im_ok sys n cs fl L (upd_bucket own b f s)"
proof -
  have "free_list (bs[b := f (bs ! b)] ! i) = free_list (bs ! i) \<and>
      free_list_size (bs[b := f (bs ! b)] ! i) = free_list_size (bs ! i)" for bs i
    using assms(2) by (cases "b < length bs"; cases "i = b") (simp_all add: list_update_beyond)
  then show ?thesis
    by (intro im_ok_cong [OF assms(1)])
      (auto simp: im_bin_def upd_bucket_def upd_desc_def desc_def split: option.splits)
qed

lemma batch_facts:
  assumes "b < NUM_BUCKETS"
  shows "4096 dvd bucket_capacity ! b div 2 * bucket_sizes ! b" "0 < bucket_capacity ! b div 2"
    "bucket_capacity ! b div 2 \<le> 128" "bucket_capacity ! b div 2 * 2 = bucket_capacity ! b"
proof -
  have "b \<in> {0, 1, 2, 3, 4, 5, 6}" using assms by (auto simp: NUM_BUCKETS_def)
  then show "4096 dvd bucket_capacity ! b div 2 * bucket_sizes ! b" "0 < bucket_capacity ! b div 2"
    "bucket_capacity ! b div 2 \<le> 128" "bucket_capacity ! b div 2 * 2 = bucket_capacity ! b"
    by (elim insertE emptyE; simp add: bucket_sizes_def bucket_capacity_def)+
qed

lemma im_allocate_batch_ok:
  assumes ok: "im_ok sys n cs fl L s" and sys: "sys_ok sys" and w: "w < n" and b: "b < NUM_BUCKETS"
    and whole: "whole_batches fl s" and few: "length cs < 2 ^ 29"
  shows "\<exists>cs' fl' s'. im_allocate_batch sys w (bucket_sizes ! b) b s = Some s' \<and> im_ok sys n cs' fl' L s' \<and>
    whole_batches fl' s' \<and> books s' = books s \<and> length cs' \<le> length cs + 128 \<and>
    length (fl' (Some w, b)) = length (fl (Some w, b)) + bucket_capacity ! b div 2 \<and>
    (\<forall>k. k \<noteq> (None, b) \<and> k \<noteq> (Some w, b) \<longrightarrow> fl' k = fl k)"
proof -
  let ?c = "bucket_capacity ! b div 2" and ?g = "fl (None, b)"
  note c = batch_facts [OF b]
  have gdvd: "?c dvd length ?g" and adv: "4096 dvd available s" using whole b by (simp_all add: whole_batches_def)
  have "if ?g = [] then bucket_sizes ! b dvd available s else ?c \<le> length ?g"
    using dvd_trans [OF size_dvd [OF b] adv] gdvd by (simp add: dvd_imp_le)
  moreover have "length cs + ?c < 2 ^ 30" using few c(3) by simp
  ultimately obtain cs' fl' s1 where r: "allocate_loop ?c sys w (bucket_sizes ! b) b s = Some s1"
    "im_ok sys n cs' fl' L s1" "length cs' \<le> length cs + ?c" "books s1 = books s"
    "length (fl' (Some w, b)) = length (fl (Some w, b)) + ?c"
    "\<forall>k. k \<noteq> (None, b) \<and> k \<noteq> (Some w, b) \<longrightarrow> fl' k = fl k"
    "length (fl' (None, b)) = length ?g - ?c"
    "if ?g = [] then (available s1 + ?c * bucket_sizes ! b) mod 4096 = available s mod 4096
     else available s1 = available s"
    using allocate_loop_ok [OF ok sys w b, of ?c] by blast
  let ?f = "\<lambda>k. let a = bk_allocated k + int ?c
    in k\<lparr>bk_allocated := a, max_allocated := (if a > max_allocated k then a else max_allocated k)\<rparr>"
  let ?s = "upd_bucket (Some w) b ?f s1"
  have run: "im_allocate_batch sys w (bucket_sizes ! b) b s = Some ?s"
    by (simp add: im_allocate_batch_def r(1) Let_def)
  have ok': "im_ok sys n cs' fl' L ?s"
    by (rule im_ok_upd_bucket [OF r(2)]) (simp add: Let_def)
  have bk: "books ?s = books s"
    using r(4) by (subst books_upd_bucket) (simp_all add: Let_def)
  have "4096 dvd available s1"
  proof (cases "?g = []")
    case True
    then have "(available s1 + ?c * bucket_sizes ! b) mod 4096 = 0" using r(8) adv by (simp add: mod_eq_0_iff_dvd)
    then have "4096 dvd available s1 + ?c * bucket_sizes ! b" by (simp add: mod_eq_0_iff_dvd)
    then show ?thesis using c(1) dvd_add_left_iff by blast
  next
    case False
    then show ?thesis using r(8) adv by simp
  qed
  moreover have "available ?s = available s1" by (simp add: available_def)
  moreover have "bucket_capacity ! b' div 2 dvd length (fl' (None, b'))" if "b' < NUM_BUCKETS" for b'
    using whole that r(6,7) gdvd by (cases "b' = b") (simp_all add: whole_batches_def dvd_diff_nat)
  ultimately have "whole_batches fl' ?s" by (simp add: whole_batches_def)
  then show ?thesis
    using run ok' bk r(3,5,6) c(3) by (intro exI [of _ cs'] exI [of _ fl'] exI [of _ ?s]) simp
qed

section \<open>Returning a batch\<close>

lemma free_loop_ok:
  assumes "im_ok sys n cs fl L s" "w < n" "b < NUM_BUCKETS"
  shows "\<exists>fl'. im_ok sys n cs fl' L (free_loop i w (bucket_sizes ! b) b s) \<and>
    fl' (Some w, b) = drop i (fl (Some w, b)) \<and>
    length (fl' (None, b)) = length (fl (None, b)) + min i (length (fl (Some w, b))) \<and>
    (\<forall>k. k \<noteq> (None, b) \<and> k \<noteq> (Some w, b) \<longrightarrow> fl' k = fl k) \<and>
    available (free_loop i w (bucket_sizes ! b) b s) = available s \<and>
    books (free_loop i w (bucket_sizes ! b) b s) = books s"
  using assms
proof (induction i arbitrary: fl s)
  case 0
  then show ?case by (intro exI [of _ fl]) simp
next
  case (Suc i)
  show ?case
  proof (cases "fl (Some w, b)")
    case Nil
    then show ?thesis
      using Suc.prems pop_empty [OF Suc.prems(1-3) Nil] by (intro exI [of _ fl]) simp
  next
    case (Cons p ps)
    let ?pop = "\<lambda>k. k\<lparr>free_list := next_block s p, free_list_size := free_list_size k - 1\<rparr>"
    obtain s1 where s1: "remove_from_free_list (Some w) b s = (p, s1)" "p \<noteq> 0"
      "im_ok sys n cs (fl((Some w, b) := ps)) (add_mset (p, b) L) s1" "s1 = upd_bucket (Some w) b ?pop s"
      using pop_worker [OF Suc.prems Cons] by blast
    let ?fl = "(fl((Some w, b) := ps))((None, b) := p # (fl((Some w, b) := ps)) (None, b))"
    let ?s2 = "upd_desc None (used_update (\<lambda>u. u - int (bucket_sizes ! b))) (add_to_free_list None b p s1)"
    let ?s = "upd_bucket (Some w) b (bk_allocated_update (\<lambda>a. a - 1)) ?s2"
    have "im_ok sys n cs ?fl L ?s2" by (rule release_global [OF s1(3) Suc.prems(3)])
    then have ok: "im_ok sys n cs ?fl L ?s" by (rule im_ok_upd_bucket) simp
    have av: "available ?s = available s" by (simp add: available_def s1(4) add_to_free_list_def)
    have bk: "books ?s = books s"
      by (simp add: books_upd_bucket books_none books_add s1(4))
    have run: "free_loop (Suc i) w (bucket_sizes ! b) b s = free_loop i w (bucket_sizes ! b) b ?s"
      using s1(1,2) by simp
    obtain fl' where "im_ok sys n cs fl' L (free_loop i w (bucket_sizes ! b) b ?s)"
      "fl' (Some w, b) = drop i (?fl (Some w, b))"
      "length (fl' (None, b)) = length (?fl (None, b)) + min i (length (?fl (Some w, b)))"
      "\<forall>k. k \<noteq> (None, b) \<and> k \<noteq> (Some w, b) \<longrightarrow> fl' k = ?fl k"
      "available (free_loop i w (bucket_sizes ! b) b ?s) = available ?s"
      "books (free_loop i w (bucket_sizes ! b) b ?s) = books ?s"
      using Suc.IH [OF ok Suc.prems(2,3)] by blast
    then show ?thesis
      unfolding run using Cons av bk by (intro exI [of _ fl']) simp
  qed
qed

section \<open>The client\<close>

text \<open>\<open>live\<close> lists the blocks the clients hold, with the sizes they asked for.\<close>

definition live_blocks :: "(addr \<times> nat) list \<Rightarrow> block multiset" where
  "live_blocks live = mset (map (\<lambda>(p, sz). (p, size_to_bucket sz)) live)"

definition slack :: "nat \<Rightarrow> int" where
  "slack sz = int (bucket_to_size (size_to_bucket sz)) - int sz"

definition books_ok :: "nat \<Rightarrow> (addr \<times> nat) list \<Rightarrow> nat \<times> (nat \<Rightarrow> bool) \<times> (nat \<Rightarrow> int \<times> int \<times> (nat \<Rightarrow> u32)) \<Rightarrow> bool" where
  "books_ok n live bk \<longleftrightarrow> (case bk of (m, present, f) \<Rightarrow>
     m = n \<and> (\<forall>w<n. present w) \<and>
     (\<forall>w<n. \<forall>b<NUM_BUCKETS. snd (snd (f w)) b = of_nat (bucket_capacity ! b)) \<and>
     (\<Sum>w<n. fst (f w)) = (\<Sum>x\<leftarrow>live. int (snd x)) \<and>
     (\<Sum>w<n. fst (snd (f w))) = (\<Sum>x\<leftarrow>live. slack (snd x)))"

definition client_ok ::
    "(nat \<Rightarrow> nat \<Rightarrow> addr) \<Rightarrow> nat \<Rightarrow> addr list \<Rightarrow> (key \<Rightarrow> addr list) \<Rightarrow> (addr \<times> nat) list \<Rightarrow> im_state \<Rightarrow> bool" where
  "client_ok sys n cs fl live s \<longleftrightarrow> im_ok sys n cs fl (live_blocks live) s \<and> whole_batches fl s \<and>
     (\<forall>w<n. \<forall>b<NUM_BUCKETS. length (fl (Some w, b)) \<le> bucket_capacity ! b) \<and>
     books_ok n live (books s) \<and> (\<forall>x\<in>set live. snd x \<le> SIZE_THRESH)"

lemma size_to_bucket_small:
  assumes "sz \<le> SIZE_THRESH"
  shows "size_to_bucket sz < NUM_BUCKETS \<and> sz \<le> bucket_sizes ! size_to_bucket sz"
proof -
  have "find (\<lambda>i. sz \<le> bucket_sizes ! i) [0..<NUM_BUCKETS] \<noteq> None"
    using assms by (auto simp: find_None_iff SIZE_THRESH_def NUM_BUCKETS_def intro!: exI [of _ 6])
  then obtain i where "find (\<lambda>i. sz \<le> bucket_sizes ! i) [0..<NUM_BUCKETS] = Some i" by blast
  moreover from this have "i < NUM_BUCKETS" "sz \<le> bucket_sizes ! i" by (auto simp: find_Some_iff)
  ultimately show ?thesis by (simp add: size_to_bucket_def)
qed

lemma size_to_bucket_large: "sz > SIZE_THRESH \<Longrightarrow> size_to_bucket sz \<ge> NUM_BUCKETS"
proof -
  assume big: "sz > SIZE_THRESH"
  have "\<not> sz \<le> bucket_sizes ! i" if "i < NUM_BUCKETS" for i using size_le [OF that] big by simp
  then have "find (\<lambda>i. sz \<le> bucket_sizes ! i) [0..<NUM_BUCKETS] = None" by (auto simp: find_None_iff)
  then show ?thesis by (simp add: size_to_bucket_def NUM_BUCKETS_def)
qed

text \<open>What \<open>cilk_internal_malloc\<close> and \<open>cilk_internal_free\<close> book before they touch a list.\<close>

definition booked :: "nat \<Rightarrow> nat \<Rightarrow> int \<Rightarrow> int \<Rightarrow> im_tag \<Rightarrow> int \<Rightarrow> im_state \<Rightarrow> im_state" where
  "booked w b y x tag z s = upd_bucket (Some w) b (bk_wasted_update (\<lambda>v. v + x))
     (upd_desc (Some w) (\<lambda>d. d\<lparr>used := used d + y, num_malloc := (num_malloc d)(tag := num_malloc d tag + z)\<rparr>) s)"

lemma booked_im_ok: "im_ok sys n cs fl L s \<Longrightarrow> im_ok sys n cs fl L (booked w b y x tag z s)"
  unfolding booked_def
  by (rule im_ok_upd_bucket, erule im_ok_cong)
    (auto simp: im_bin_def desc_def upd_desc_def split: option.splits)

lemma booked_books:
  assumes "im_ok sys n cs fl L s" "w < n" "b < NUM_BUCKETS" "books_ok n live (books s)"
    and "(\<Sum>v\<leftarrow>live'. int (snd v)) = (\<Sum>v\<leftarrow>live. int (snd v)) + y"
    and "(\<Sum>v\<leftarrow>live'. slack (snd v)) = (\<Sum>v\<leftarrow>live. slack (snd v)) + x"
  shows "books_ok n live' (books (booked w b y x tag z s))"
proof -
  define m pr f where m_def: "m = im_nworkers s" and pr_def: "pr = worker_present s" and
    f: "f = (\<lambda>v. (used (worker_desc s v), wasted_bytes (worker_desc s v), \<lambda>b. free_list_limit (buckets (worker_desc s v) ! b)))"
  then have bk: "books s = (m, pr, f)" by (simp add: books_def)
  have len: "length (buckets (worker_desc s w)) = NUM_BUCKETS"
    using assms(1-3) by (auto simp: im_ok_def lists_ok_def keys_def desc_def dest!: spec [of _ "Some w"])
  have lim: "free_list_limit (bs[b := bk_wasted_update g (bs ! b)] ! i) = free_list_limit (bs ! i)" for bs :: "im_bucket list" and i g
    by (cases "b < length bs"; cases "i = b") (simp_all add: list_update_beyond)
  have "(\<Sum>i<NUM_BUCKETS. bk_wasted ((buckets (worker_desc s w))[b := bk_wasted_update (\<lambda>v. v + x) (buckets (worker_desc s w) ! b)] ! i))
    = (\<Sum>i<NUM_BUCKETS. bk_wasted (buckets (worker_desc s w) ! i) + (if i = b then x else 0))"
    using len by (intro sum.cong) (auto simp: nth_list_update)
  then have wst: "(\<Sum>i<NUM_BUCKETS. bk_wasted ((buckets (worker_desc s w))[b := bk_wasted_update (\<lambda>v. v + x) (buckets (worker_desc s w) ! b)] ! i))
    = (\<Sum>i<NUM_BUCKETS. bk_wasted (buckets (worker_desc s w) ! i)) + x"
    using assms(3) by (simp add: sum.distrib)
  let ?f = "f(w := (fst (f w) + y, fst (snd (f w)) + x, snd (snd (f w))))"
  have new: "books (booked w b y x tag z s) = (m, pr, ?f)"
    using wst lim
    by (simp add: books_def booked_def upd_bucket_def upd_desc_def wasted_bytes_sum fun_eq_iff m_def pr_def f)
  have "(\<Sum>v<n. fst (?f v)) = (\<Sum>v<n. fst (f v)) + y"
    using sum_fun_upd [of "{..<n}" w "\<lambda>_. fst" f "?f w"] assms(2) by simp
  moreover have "(\<Sum>v<n. fst (snd (?f v))) = (\<Sum>v<n. fst (snd (f v))) + x"
    using sum_fun_upd [of "{..<n}" w "\<lambda>_ u. fst (snd u)" f "?f w"] assms(2) by simp
  ultimately show ?thesis
    using assms(4-6) unfolding new bk by (simp add: books_ok_def)
qed

lemma malloc_ok:
  assumes ok: "client_ok sys n cs fl live s" and sys: "sys_ok sys" and w: "w < n" and few: "length cs < 2 ^ 29"
    and small: "sz \<le> SIZE_THRESH"
  shows "\<exists>p cs' fl' s'. cilk_internal_malloc sys w sz tag s = Some (p, s') \<and>
    client_ok sys n cs' fl' (live @ [(p, sz)]) s' \<and> length cs' \<le> length cs + 128"
proof -
  let ?b = "size_to_bucket sz"
  let ?t = "booked w ?b (int sz) (slack sz) tag 1 s"
  have b: "?b < NUM_BUCKETS" "sz \<le> bucket_sizes ! ?b" using size_to_bucket_small [OF small] by simp_all
  have im: "im_ok sys n cs fl (live_blocks live) ?t" using ok booked_im_ok by (simp add: client_ok_def)
  have bk: "books_ok n (live @ [(p, sz)]) (books ?t)" for p
    using ok booked_books [OF _ w b(1), of sys cs fl "live_blocks live" s live "live @ [(p, sz)]"]
    by (simp add: client_ok_def)
  have av: "available ?t = available s" by (simp add: available_def booked_def)
  have lens: "length (fl (Some v, b')) \<le> bucket_capacity ! b'" if "v < n" "b' < NUM_BUCKETS" for v b'
    using ok that by (simp add: client_ok_def)
  have run: "cilk_internal_malloc sys w sz tag s =
      (let (mem, s3) = remove_from_free_list (Some w) ?b ?t in
       if mem \<noteq> 0 then Some (mem, s3)
       else do { s4 \<leftarrow> im_allocate_batch sys w (bucket_sizes ! ?b) ?b s3;
                 let (mem, s5) = remove_from_free_list (Some w) ?b s4;
                 cilk_assert (mem \<noteq> 0);
                 Some (mem, s5) })"
    using b(1) by (simp add: cilk_internal_malloc_def booked_def slack_def bucket_to_size_def Let_def)
  have finish: "client_ok sys n cs' (fl'((Some w, ?b) := ps)) (live @ [(p, sz)]) u'"
    if "im_ok sys n cs' (fl'((Some w, ?b) := ps)) (add_mset (p, ?b) (live_blocks live)) u'" "whole_batches fl' u"
      "books u' = books ?t" "available u' = available u" "length ps \<le> bucket_capacity ! ?b"
      "\<forall>k. k \<noteq> (None, ?b) \<and> k \<noteq> (Some w, ?b) \<longrightarrow> fl' k = fl k" for cs' fl' ps p u u'
  proof -
    have "whole_batches (fl'((Some w, ?b) := ps)) u'" using that(2,4) by (simp add: whole_batches_def)
    moreover have "length ((fl'((Some w, ?b) := ps)) (Some v, b')) \<le> bucket_capacity ! b'" if "v < n" "b' < NUM_BUCKETS" for v b'
      using lens [OF that] \<open>length ps \<le> bucket_capacity ! ?b\<close> \<open>\<forall>k. _ k\<close> by auto
    moreover have "live_blocks (live @ [(p, sz)]) = add_mset (p, ?b) (live_blocks live)" by (simp add: live_blocks_def)
    moreover have "\<forall>x\<in>set (live @ [(p, sz)]). snd x \<le> SIZE_THRESH" using ok small by (simp add: client_ok_def)
    ultimately show ?thesis using that(1,3) bk [of p] unfolding client_ok_def by simp
  qed
  show ?thesis
  proof (cases "fl (Some w, ?b)")
    case (Cons p ps)
    obtain s' where s': "remove_from_free_list (Some w) ?b ?t = (p, s')" "p \<noteq> 0"
      "im_ok sys n cs (fl((Some w, ?b) := ps)) (add_mset (p, ?b) (live_blocks live)) s'"
      "s' = upd_bucket (Some w) ?b (\<lambda>k. k\<lparr>free_list := next_block ?t p, free_list_size := free_list_size k - 1\<rparr>) ?t"
      using pop_worker [OF im w b(1) Cons] by (elim exE conjE) (rule that)
    have "whole_batches fl s" using ok by (simp add: client_ok_def)
    moreover have "length ps \<le> bucket_capacity ! ?b" using lens [OF w b(1)] Cons by simp
    moreover have "books s' = books ?t" by (simp add: s'(4) books_upd_bucket)
    moreover have "available s' = available s" using av by (simp add: s'(4) available_def)
    ultimately have "client_ok sys n cs (fl((Some w, ?b) := ps)) (live @ [(p, sz)]) s'"
      by (intro finish [OF s'(3)]) simp_all
    moreover have "cilk_internal_malloc sys w sz tag s = Some (p, s')" using run s'(1,2) by simp
    ultimately show ?thesis
      by (intro exI [of _ p] exI [of _ cs] exI [of _ "fl((Some w, ?b) := ps)"] exI [of _ s'] conjI) simp_all
  next
    case Nil
    have "whole_batches fl ?t" using ok av by (simp add: client_ok_def whole_batches_def)
    then obtain cs' fl' s4 where r: "im_allocate_batch sys w (bucket_sizes ! ?b) ?b ?t = Some s4"
      "im_ok sys n cs' fl' (live_blocks live) s4" "whole_batches fl' s4" "books s4 = books ?t"
      "length cs' \<le> length cs + 128" "length (fl' (Some w, ?b)) = bucket_capacity ! ?b div 2"
      "\<forall>k. k \<noteq> (None, ?b) \<and> k \<noteq> (Some w, ?b) \<longrightarrow> fl' k = fl k"
      using im_allocate_batch_ok [OF im sys w b(1) _ few] Nil by auto
    obtain p ps where Cons: "fl' (Some w, ?b) = p # ps"
      using r(6) batch_facts(2) [OF b(1)] by (cases "fl' (Some w, ?b)") auto
    obtain s' where s': "remove_from_free_list (Some w) ?b s4 = (p, s')" "p \<noteq> 0"
      "im_ok sys n cs' (fl'((Some w, ?b) := ps)) (add_mset (p, ?b) (live_blocks live)) s'"
      "s' = upd_bucket (Some w) ?b (\<lambda>k. k\<lparr>free_list := next_block s4 p, free_list_size := free_list_size k - 1\<rparr>) s4"
      using pop_worker [OF r(2) w b(1) Cons] by (elim exE conjE) (rule that)
    have "length ps \<le> bucket_capacity ! ?b" using r(6) Cons by simp
    moreover have "books s' = books ?t" by (simp add: s'(4) books_upd_bucket r(4))
    moreover have "available s' = available s4" by (simp add: s'(4) available_def)
    ultimately have "client_ok sys n cs' (fl'((Some w, ?b) := ps)) (live @ [(p, sz)]) s'"
      by (intro finish [OF s'(3) r(3) _ _ _ r(7)])
    moreover have "cilk_internal_malloc sys w sz tag s = Some (p, s')"
      using run pop_empty [OF im w b(1) Nil] r(1) s'(1,2) by simp
    ultimately show ?thesis using r(5)
      by (intro exI [of _ p] exI [of _ cs'] exI [of _ "fl'((Some w, ?b) := ps)"] exI [of _ s'] conjI)
  qed
qed

lemma more_requests:
  assumes "client_ok sys n cs fl live s"
  shows "client_ok sys n cs fl live (s\<lparr>sys_requests := sys_requests s + 1\<rparr>)"
proof -
  let ?s = "s\<lparr>sys_requests := sys_requests s + 1\<rparr>"
  have im: "im_ok sys n cs fl (live_blocks live) s" using assms by (simp add: client_ok_def)
  then have pool: "im_pool_ok sys cs s" by (simp add: im_ok_def heap_ok_def)
  then have "requested sys cs (Suc (sys_requests s))" by (intro requested_Suc) (simp add: im_pool_ok_def Let_def)
  with pool have "im_pool_ok sys cs ?s" by (auto simp: im_pool_ok_def Let_def)
  moreover have "lists_ok n fl ?s"
  proof (rule lists_ok_cong)
    show "lists_ok n fl s" using im by (simp add: im_ok_def)
  qed (simp_all add: desc_def split: option.splits)
  ultimately have "im_ok sys n cs fl (live_blocks live) ?s"
    using im by (simp add: im_ok_def heap_ok_def placed_def available_def)
  moreover have "books ?s = books s" "available ?s = available s" by (simp_all add: books_def available_def)
  ultimately show ?thesis using assms by (simp add: client_ok_def whole_batches_def)
qed

lemma malloc_large:
  assumes "sys_ok sys" "sz > SIZE_THRESH"
  shows "\<exists>p. cilk_internal_malloc sys w sz tag s = Some (p, s\<lparr>sys_requests := sys_requests s + 1\<rparr>)"
  using assms size_to_bucket_large [OF assms(2)]
  by (simp add: cilk_internal_malloc_def malloc_from_system_def sys_ok_def Let_def)

section \<open>Freeing\<close>

lemma size_of_list:
  assumes "im_ok sys n cs fl L s" "w < n" "b < NUM_BUCKETS" "length (fl (Some w, b)) < 2 ^ 32"
    and "free_list_limit (buckets (worker_desc s w) ! b) = of_nat (bucket_capacity ! b)"
  shows "free_list_size (im_bin (Some w) b s) > free_list_limit (im_bin (Some w) b s) \<longleftrightarrow>
    length (fl (Some w, b)) > bucket_capacity ! b"
proof -
  have "free_list_size (im_bin (Some w) b s) = of_nat (length (fl (Some w, b)))"
    using assms(1-3) by (auto simp: im_ok_def lists_ok_def keys_def)
  moreover have "bucket_capacity ! b < 2 ^ 32" using size_cases [OF assms(3)] by simp
  ultimately show ?thesis
    using assms(4,5) by (simp add: im_bin_def desc_def word_less_nat_alt unat_of_nat)
qed

lemma trim_ok:
  assumes ok: "im_ok sys n cs fl L s" and w: "w < n" and b: "b < NUM_BUCKETS" and whole: "whole_batches fl s"
    and len: "length (fl (Some w, b)) \<le> bucket_capacity ! b + 1"
    and lim: "\<And>t. books t = books s \<Longrightarrow> free_list_limit (buckets (worker_desc t w) ! b) = of_nat (bucket_capacity ! b)"
  shows "\<exists>fl' s'. trim_bucket w (bucket_sizes ! b) b s = Some s' \<and> im_ok sys n cs fl' L s' \<and> whole_batches fl' s' \<and>
    books s' = books s \<and> length (fl' (Some w, b)) \<le> bucket_capacity ! b \<and>
    (\<forall>k. k \<noteq> (None, b) \<and> k \<noteq> (Some w, b) \<longrightarrow> fl' k = fl k)"
proof -
  have cap: "bucket_capacity ! b \<le> 256" "8 \<le> bucket_capacity ! b" using size_cases [OF b] by simp_all
  have small: "length (fl (Some w, b)) < 2 ^ 32" using len cap by simp
  show ?thesis
  proof (cases "length (fl (Some w, b)) > bucket_capacity ! b")
    case False
    then have "trim_bucket w (bucket_sizes ! b) b s = Some s"
      using size_of_list [of sys n cs fl L s w b, OF ok w b small lim] by (subst trim_bucket.simps) simp
    then show ?thesis using ok whole False by (intro exI [of _ fl] exI [of _ s]) simp
  next
    case True
    let ?c = "bucket_capacity ! b div 2"
    let ?s = "im_free_batch w (bucket_sizes ! b) b s"
    obtain fl' where r: "im_ok sys n cs fl' L ?s" "fl' (Some w, b) = drop ?c (fl (Some w, b))"
      "length (fl' (None, b)) = length (fl (None, b)) + min ?c (length (fl (Some w, b)))"
      "\<forall>k. k \<noteq> (None, b) \<and> k \<noteq> (Some w, b) \<longrightarrow> fl' k = fl k"
      "available ?s = available s" "books ?s = books s"
      using free_loop_ok [OF ok w b, of ?c, folded im_free_batch_def] by (elim exE conjE) (rule that)
    have len': "length (fl' (Some w, b)) \<le> bucket_capacity ! b" using r(2) len cap(2) by simp
    then have small': "length (fl' (Some w, b)) < 2 ^ 32" using cap by simp
    have "trim_bucket w (bucket_sizes ! b) b s = trim_bucket w (bucket_sizes ! b) b ?s"
      using size_of_list [of sys n cs fl L s w b, OF ok w b small lim] True by (subst trim_bucket.simps) simp
    also have "\<dots> = Some ?s"
      using size_of_list [of sys n cs fl' L ?s w b, OF r(1) w b small' lim] r(6) len' by (subst trim_bucket.simps) simp
    finally have run: "trim_bucket w (bucket_sizes ! b) b s = Some ?s" .
    have "bucket_capacity ! b' div 2 dvd length (fl' (None, b'))" if "b' < NUM_BUCKETS" for b'
      using whole that r(3,4) True by (cases "b' = b") (simp_all add: whole_batches_def)
    then have "whole_batches fl' ?s" using whole r(5) by (simp add: whole_batches_def)
    with run r(1,4,6) len' show ?thesis by (intro exI [of _ fl'] exI [of _ ?s] conjI)
  qed
qed

lemma free_ok:
  assumes ok: "client_ok sys n cs fl (xs @ (p, sz) # ys) s" and w: "w < n"
  shows "\<exists>fl' s'. cilk_internal_free w p sz tag s = Some s' \<and> client_ok sys n cs fl' (xs @ ys) s'"
proof -
  let ?b = "size_to_bucket sz" and ?L = "live_blocks (xs @ ys)"
  let ?t = "booked w ?b (- int sz) (- slack sz) tag (- 1) s"
  let ?u = "add_to_free_list (Some w) ?b p ?t"
  let ?fl = "fl((Some w, ?b) := p # fl (Some w, ?b))"
  have small: "sz \<le> SIZE_THRESH" using ok by (simp add: client_ok_def)
  have b: "?b < NUM_BUCKETS" using size_to_bucket_small [OF small] by simp
  have L: "live_blocks (xs @ (p, sz) # ys) = add_mset (p, ?b) ?L" by (simp add: live_blocks_def)
  have im: "im_ok sys n cs fl (add_mset (p, ?b) ?L) s" using ok by (simp add: client_ok_def L)
  have bk: "books_ok n (xs @ ys) (books ?t)"
    using ok by (intro booked_books [OF im w b, of "xs @ (p, sz) # ys"]) (simp_all add: client_ok_def)
  have lens: "length (fl (Some v, b')) \<le> bucket_capacity ! b'" if "v < n" "b' < NUM_BUCKETS" for v b'
    using ok that by (simp add: client_ok_def)
  have "whole_batches fl s" using ok by (simp add: client_ok_def)
  then have whole: "whole_batches ?fl ?u" by (simp add: whole_batches_def available_def booked_def add_to_free_list_def)
  have im': "im_ok sys n cs ?fl ?L ?u" by (rule push_worker [OF booked_im_ok [OF im] w b])
  have lim: "free_list_limit (buckets (worker_desc t w) ! ?b) = of_nat (bucket_capacity ! ?b)" if "books t = books ?u" for t
  proof -
    have "books_ok n (xs @ ys) (books t)" using bk that by (simp only: books_add)
    then show ?thesis using w b unfolding books_ok_def books_def by simp
  qed
  obtain fl' s' where r: "trim_bucket w (bucket_sizes ! ?b) ?b ?u = Some s'" "im_ok sys n cs fl' ?L s'"
    "whole_batches fl' s'" "books s' = books ?u" "length (fl' (Some w, ?b)) \<le> bucket_capacity ! ?b"
    "\<forall>k. k \<noteq> (None, ?b) \<and> k \<noteq> (Some w, ?b) \<longrightarrow> fl' k = ?fl k"
    using trim_ok [OF im' w b whole _ lim] lens [OF w b] by auto
  have "(\<lambda>v. v - (int (bucket_to_size ?b) - int sz)) = (\<lambda>v. v + - slack sz)" by (auto simp: slack_def)
  then have run: "cilk_internal_free w p sz tag s = Some s'"
    using small b r(1) by (simp add: cilk_internal_free_def booked_def bucket_to_size_def Let_def)
  have "length (fl' (Some v, b')) \<le> bucket_capacity ! b'" if "v < n" "b' < NUM_BUCKETS" for v b'
    using lens [OF that] r(5,6) by (cases "(v, b') = (w, ?b)") auto
  moreover have "\<forall>x\<in>set (xs @ ys). snd x \<le> SIZE_THRESH" using ok by (simp add: client_ok_def)
  ultimately show ?thesis
    using run r(2-4) bk by (intro exI [of _ fl'] exI [of _ s']) (simp add: client_ok_def books_add)
qed

end
