(* ===== verification/Malloc_Properties.thy ===== *)
theory Malloc_Properties
  imports Malloc_Batches
begin

text \<open>
  The properties of the allocator, over arbitrary sequences of allocations and releases by the
  workers.  \<open>live\<close> lists the blocks in use, with the sizes asked for; requests above \<open>SIZE_THRESH\<close> go to
  the system and are not listed.  A step is taken only while the pool is below 128 GB (\<open>2 ^ 37\<close> bytes):
  beyond that the 32-bit counters of the chunk list and of the free lists could wrap.
\<close>

definition im_blank :: "nat \<Rightarrow> im_state" where
  "im_blank n = \<lparr>im_pool = \<lparr>mem_begin = 0, mem_end = 0, mem_list = [], mem_list_index = 0, mem_list_size = 0,
       num_global_malloc = 0, pool_allocated = 0, pool_wasted = 0\<rparr>,
     im_desc = init_im_buckets, im_nworkers = n, worker_present = (\<lambda>w. w < n), worker_desc = (\<lambda>_. init_im_buckets),
     next_block = (\<lambda>_. 0), page_shift = 0, sys_requests = 0, sys_returned = []\<rparr>"

definition im_start :: "nat \<Rightarrow> nat \<Rightarrow> im_state option" where
  "im_start n page_size = do {
     s \<leftarrow> cilk_internal_malloc_global_init page_size (im_blank n);
     Some (fold cilk_internal_malloc_per_worker_init [0..<n] s)
   }"

datatype im_op = Alloc nat nat im_tag | Release nat nat im_tag

fun im_step :: "(nat \<Rightarrow> nat \<Rightarrow> addr) \<Rightarrow> im_op \<Rightarrow> (addr \<times> nat) list \<times> im_state \<Rightarrow> ((addr \<times> nat) list \<times> im_state) option" where
  "im_step sys (Alloc w sz tag) (live, s) =
     (if w < im_nworkers s \<and> pool_allocated (im_pool s) < 2 ^ 37
      then do { (p, s') \<leftarrow> cilk_internal_malloc sys w sz tag s;
                Some (if sz \<le> SIZE_THRESH then live @ [(p, sz)] else live, s') }
      else Some (live, s))"
| "im_step sys (Release w i tag) (live, s) =
     (if w < im_nworkers s \<and> i < length live
      then do { s' \<leftarrow> cilk_internal_free w (fst (live ! i)) (snd (live ! i)) tag s;
                Some (take i live @ drop (Suc i) live, s') }
      else Some (live, s))"

fun im_run :: "(nat \<Rightarrow> nat \<Rightarrow> addr) \<Rightarrow> im_op list \<Rightarrow> (addr \<times> nat) list \<times> im_state \<Rightarrow> ((addr \<times> nat) list \<times> im_state) option" where
  "im_run sys [] x = Some x"
| "im_run sys (e # es) x = Option.bind (im_step sys e x) (im_run sys es)"

section \<open>Every run keeps the invariant\<close>

lemma per_worker_init_same:
  fixes s :: im_state
  assumes "worker_desc s = (\<lambda>_. init_im_buckets)"
  shows "fold cilk_internal_malloc_per_worker_init ws s = s"
proof -
  have "cilk_internal_malloc_per_worker_init w s = s" for w
    using assms by (cases s) (simp add: cilk_internal_malloc_per_worker_init_def upd_desc_def fun_upd_idem)
  then show ?thesis by (induction ws) simp_all
qed

lemma start_ok:
  assumes "im_start n page_size = Some s"
  shows "client_ok sys n [] (\<lambda>_. []) [] s \<and> im_nworkers s = n"
proof -
  obtain sh where s: "s = (im_blank n)\<lparr>page_shift := sh,
      im_pool := \<lparr>mem_begin = 0, mem_end = 0, mem_list = replicate (unat MEM_LIST_SIZE) 0,
        mem_list_index = - 1, mem_list_size = MEM_LIST_SIZE,
        num_global_malloc = 0, pool_allocated = 0, pool_wasted = 0\<rparr>,
      im_desc := init_im_buckets\<rparr>"
    using assms
    by (auto simp: im_start_def cilk_internal_malloc_global_init_def per_worker_init_same im_blank_def
        split: bind_splits if_splits)
  have d: "desc own s = init_im_buckets" for own by (simp add: s im_blank_def desc_def split: option.splits)
  have bk: "im_bin own b s = init_im_bucket b" if "b < NUM_BUCKETS" for own b
    using that by (simp add: im_bin_def d init_im_buckets_def)
  have lists: "lists_ok n (\<lambda>_. []) s"
    using bk by (auto simp: lists_ok_def keys_def d init_im_bucket_def) (simp_all add: init_im_buckets_def)
  have empty: "blocks n (\<lambda>_. []) (live_blocks []) = {#}" "global_blocks (\<lambda>_. []) = {#}"
    by (simp_all add: blocks_def global_blocks_def live_blocks_def)
  have "im_pool_ok sys [] s"
    by (simp add: s im_pool_ok_def requested_def MEM_LIST_SIZE_def)
  then have im: "im_ok sys n [] (\<lambda>_. []) (live_blocks []) s"
    using lists by (simp add: im_ok_def heap_ok_def empty apart_def available_def s init_im_buckets_def)
  have "wasted_bytes init_im_buckets = 0"
    by (simp add: wasted_bytes_sum init_im_buckets_def init_im_bucket_def)
  then have "books_ok n [] (books s)"
    by (simp add: books_ok_def books_def s im_blank_def) (simp add: init_im_buckets_def init_im_bucket_def)
  with im show ?thesis
    by (simp add: client_ok_def whole_batches_def available_def) (simp add: s im_blank_def)
qed

lemma few_chunks:
  assumes "client_ok sys n cs fl live s" "pool_allocated (im_pool s) < 2 ^ 37"
  shows "length cs < 2 ^ 22"
  using assms by (simp add: client_ok_def im_ok_def heap_ok_def im_pool_ok_def Let_def INTERNAL_MALLOC_CHUNK_SIZE_def)

lemma client_nworkers: "client_ok sys n cs fl live s \<Longrightarrow> im_nworkers s = n"
  by (simp add: client_ok_def books_ok_def books_def)

lemma step_ok:
  assumes ok: "client_ok sys n cs fl live s" and sys: "sys_ok sys"
  shows "\<exists>cs' fl' live' s'. im_step sys e (live, s) = Some (live', s') \<and> client_ok sys n cs' fl' live' s'"
proof (cases e)
  case (Alloc w sz tag)
  show ?thesis
  proof (cases "w < im_nworkers s \<and> pool_allocated (im_pool s) < 2 ^ 37")
    case False
    with Alloc ok show ?thesis by (intro exI [of _ cs] exI [of _ fl] exI [of _ live] exI [of _ s]) auto
  next
    case True
    then have w: "w < n" and few: "length cs < 2 ^ 29"
      using client_nworkers [OF ok] few_chunks [OF ok] by simp_all
    show ?thesis
    proof (cases "sz \<le> SIZE_THRESH")
      case small: True
      obtain p cs' fl' s' where r: "cilk_internal_malloc sys w sz tag s = Some (p, s')"
        "client_ok sys n cs' fl' (live @ [(p, sz)]) s'"
        using malloc_ok [OF ok sys w few small, of tag] by (elim exE conjE) (rule that)
      then show ?thesis
        using Alloc True small
        by (intro exI [of _ cs'] exI [of _ fl'] exI [of _ "live @ [(p, sz)]"] exI [of _ s']) simp
    next
      case large: False
      obtain p where "cilk_internal_malloc sys w sz tag s = Some (p, s\<lparr>sys_requests := sys_requests s + 1\<rparr>)"
        using malloc_large [OF sys] large by (meson not_le)
      then show ?thesis
        using Alloc True large more_requests [OF ok]
        by (intro exI [of _ cs] exI [of _ fl] exI [of _ live] exI [of _ "s\<lparr>sys_requests := sys_requests s + 1\<rparr>"]) simp
    qed
  qed
next
  case (Release w i tag)
  show ?thesis
  proof (cases "w < im_nworkers s \<and> i < length live")
    case False
    with Release ok show ?thesis by (intro exI [of _ cs] exI [of _ fl] exI [of _ live] exI [of _ s]) auto
  next
    case True
    then have w: "w < n" using client_nworkers [OF ok] by simp
    have split: "live = take i live @ (fst (live ! i), snd (live ! i)) # drop (Suc i) live"
      using True by (simp add: id_take_nth_drop)
    have ok': "client_ok sys n cs fl (take i live @ (fst (live ! i), snd (live ! i)) # drop (Suc i) live) s"
      using ok split by simp
    obtain fl' s' where "cilk_internal_free w (fst (live ! i)) (snd (live ! i)) tag s = Some s'"
      "client_ok sys n cs fl' (take i live @ drop (Suc i) live) s'"
      using free_ok [OF ok' w, of tag] by (elim exE conjE) (rule that)
    then show ?thesis
      using Release True
      by (intro exI [of _ cs] exI [of _ fl'] exI [of _ "take i live @ drop (Suc i) live"] exI [of _ s']) simp
  qed
qed

lemma run_ok:
  assumes "client_ok sys n cs fl live s" "sys_ok sys"
  shows "\<exists>cs' fl' live' s'. im_run sys es (live, s) = Some (live', s') \<and> client_ok sys n cs' fl' live' s'"
  using assms
proof (induction es arbitrary: cs fl live s)
  case Nil
  then show ?case by auto
next
  case (Cons e es)
  obtain cs1 fl1 live1 s1 where "im_step sys e (live, s) = Some (live1, s1)" "client_ok sys n cs1 fl1 live1 s1"
    using step_ok [OF Cons.prems] by blast
  with Cons.IH [OF this(2) Cons.prems(2)] show ?case by simp
qed

lemma started_run:
  assumes "im_start n page_size = Some s" "sys_ok sys"
  obtains cs fl live s' where "im_run sys es ([], s) = Some (live, s')" "client_ok sys n cs fl live s'"
  using run_ok [OF conjunct1 [OF start_ok [OF assms(1)]] assms(2)] by blast

section \<open>Blocks in use never overlap\<close>

lemma live_apart:
  assumes ok: "client_ok sys n cs fl live s" and ij: "i < length live" "j < length live" "i \<noteq> j"
  shows "{fst (live ! i) ..< fst (live ! i) + snd (live ! i)} \<inter> {fst (live ! j) ..< fst (live ! j) + snd (live ! j)} = {}"
    and "fst (live ! i) \<noteq> 0"
proof -
  let ?x = "\<lambda>i. (fst (live ! i), size_to_bucket (snd (live ! i)))"
  have heap: "apart (blocks n fl (live_blocks live))" "\<forall>x\<in>#blocks n fl (live_blocks live). placed cs s x"
    using ok by (simp_all add: client_ok_def im_ok_def heap_ok_def)
  have sub: "live_blocks live \<subseteq># blocks n fl (live_blocks live)" by (simp add: blocks_def)
  have "map (\<lambda>(p, sz). (p, size_to_bucket sz)) live = map ?x [0..<length live]"
    by (rule nth_equalityI) (simp_all add: case_prod_beta)
  then have lb: "live_blocks live = mset (map ?x [0..<length live])" by (simp only: live_blocks_def)
  have "mset [i, j] \<subseteq># mset [0..<length live]"
    using ij by (simp add: insert_subset_eq_iff in_diff_count)
  then have "{#?x i, ?x j#} \<subseteq># live_blocks live"
    unfolding lb mset_map using image_mset_subseteq_mono [of "mset [i, j]" "mset [0..<length live]" ?x] by simp
  then have "{#?x i, ?x j#} \<subseteq># blocks n fl (live_blocks live)" using sub by (rule subset_mset.order_trans)
  then have "extent (?x i) \<inter> extent (?x j) = {}" using heap(1) by (simp only: apart_def)
  moreover have "{fst (live ! i) ..< fst (live ! i) + snd (live ! i)} \<subseteq> extent (?x i)" if "i < length live" for i
    using ok that size_to_bucket_small [of "snd (live ! i)"] by (auto simp: extent_def client_ok_def)
  ultimately show "{fst (live ! i) ..< fst (live ! i) + snd (live ! i)} \<inter> {fst (live ! j) ..< fst (live ! j) + snd (live ! j)} = {}"
    using ij by blast
  have "?x i \<in># blocks n fl (live_blocks live)"
    using \<open>{#?x i, ?x j#} \<subseteq># blocks n fl (live_blocks live)\<close> by (meson mset_subset_eqD union_single_eq_member)
  then show "fst (live ! i) \<noteq> 0" using heap(2) by (auto simp: placed_def)
qed

text \<open>C5: Starting from freshly initialised pools, every sequence of allocations and releases by the
  workers, in any order, returns, and the blocks in use afterwards do not overlap.\<close>

theorem blocks_in_use_disjoint:
  assumes "sys_ok sys" "im_start n page_size = Some s"
  shows "\<exists>live s'. im_run sys es ([], s) = Some (live, s') \<and>
    (\<forall>i < length live. \<forall>j < length live. i \<noteq> j \<longrightarrow>
      {fst (live ! i) ..< fst (live ! i) + snd (live ! i)} \<inter> {fst (live ! j) ..< fst (live ! j) + snd (live ! j)} = {})"
  by (rule started_run [OF assms(2,1), of es]) (auto dest: live_apart(1))

definition page_sys :: "nat \<Rightarrow> nat \<Rightarrow> addr" where
  "page_sys i m = 65536 * (i + 1)"

lemma page_sys_ok: "sys_ok page_sys"
proof -
  have "{65536 * (i + 1) ..< 65536 * (i + 1) + 32768} \<inter> {65536 * (j + 1) ..< 65536 * (j + 1) + 32768} = {}"
    if "i < j" for i j :: nat
    using that by auto
  then have "{65536 * (i + 1) ..< 65536 * (i + 1) + 32768} \<inter> {65536 * (j + 1) ..< 65536 * (j + 1) + 32768} = {}"
    if "i \<noteq> j" for i j :: nat
    using that by (cases i j rule: linorder_cases) (auto simp: Int_commute)
  then show ?thesis by (simp add: sys_ok_def page_sys_def INTERNAL_MALLOC_CHUNK_SIZE_def)
qed

section \<open>The books balance\<close>

lemma weight_tagged: "weight (tagged b xs) = length xs * bucket_sizes ! b"
  by (induction xs) simp_all

lemma weight_sum: "finite K \<Longrightarrow> weight (\<Sum>k\<in>K. f k) = (\<Sum>k\<in>K. weight (f k))"
  by (induction K rule: finite_induct) simp_all

lemma weight_blocks:
  "weight (blocks n fl L) = weight (global_blocks fl) +
     (\<Sum>w<n. \<Sum>b<NUM_BUCKETS. length (fl (Some w, b)) * bucket_sizes ! b) + weight L"
proof -
  have "weight (\<Sum>k\<in>keys n. tagged (snd k) (fl k)) = (\<Sum>own\<in>insert None (Some ` {..<n}). \<Sum>b<NUM_BUCKETS. length (fl (own, b)) * bucket_sizes ! b)"
    by (simp add: weight_sum weight_tagged keys_def sum.cartesian_product case_prod_beta')
  also have "\<dots> = (\<Sum>b<NUM_BUCKETS. length (fl (None, b)) * bucket_sizes ! b) +
      (\<Sum>w<n. \<Sum>b<NUM_BUCKETS. length (fl (Some w, b)) * bucket_sizes ! b)"
    by (subst sum.insert) (auto simp: sum.reindex)
  finally show ?thesis by (simp add: blocks_def global_blocks_def weight_sum weight_tagged)
qed

lemma weight_live:
  "int (weight (live_blocks live)) = (\<Sum>x\<leftarrow>live. int (snd x)) + (\<Sum>x\<leftarrow>live. slack (snd x))"
  by (induction live) (auto simp: live_blocks_def slack_def bucket_to_size_def)

lemma free_bytes_lists:
  assumes "im_ok sys n cs fl L s" "(own, 0) \<in> keys n"
    and "\<And>b. b < NUM_BUCKETS \<Longrightarrow> length (fl (own, b)) < 2 ^ 32"
  shows "free_bytes (desc own s) = (\<Sum>b<NUM_BUCKETS. length (fl (own, b)) * bucket_sizes ! b)"
proof -
  have "unat (free_list_size (buckets (desc own s) ! b)) = length (fl (own, b))" if "b < NUM_BUCKETS" for b
  proof -
    have "(own, b) \<in> keys n" using assms(2) that by (auto simp: keys_def)
    then have "free_list_size (im_bin own b s) = of_nat (length (fl (own, b)))"
      using assms(1) by (simp add: im_ok_def lists_ok_def)
    then show ?thesis using assms(3) [OF that] by (simp add: im_bin_def unat_of_nat)
  qed
  then show ?thesis by (simp add: free_bytes_def interv_sum_list_conv_sum_set_nat atLeast0LessThan)
qed

lemma check_passes:
  assumes ok: "client_ok sys n cs fl live s" and mem: "pool_allocated (im_pool s) < 2 ^ 37"
  shows "internal_malloc_global_check s = Some () \<and> pool_wasted (im_pool s) = 0"
proof -
  have im: "im_ok sys n cs fl (live_blocks live) s" and bk: "books_ok n live (books s)"
    and lens: "\<forall>w<n. \<forall>b<NUM_BUCKETS. length (fl (Some w, b)) \<le> bucket_capacity ! b"
    and small: "\<forall>x\<in>set live. snd x \<le> SIZE_THRESH" using ok by (simp_all add: client_ok_def)
  let ?B = "blocks n fl (live_blocks live)"
  let ?W = "\<lambda>w. \<Sum>b<NUM_BUCKETS. length (fl (Some w, b)) * bucket_sizes ! b"
  have alloc: "pool_allocated (im_pool s) = weight ?B + available s" and pool: "im_pool_ok sys cs s"
    and used: "used (im_desc s) + int (weight (global_blocks fl)) = int (weight ?B)"
    using im by (simp_all add: im_ok_def heap_ok_def)
  have G: "weight (global_blocks fl) = (\<Sum>b<NUM_BUCKETS. length (fl (None, b)) * bucket_sizes ! b)"
    by (simp add: global_blocks_def weight_sum weight_tagged)
  have "length (fl (None, b)) < 2 ^ 32" if "b < NUM_BUCKETS" for b
  proof -
    have "length (fl (None, b)) * bucket_sizes ! b \<le> weight (global_blocks fl)"
      unfolding G using that by (intro member_le_sum [of b _ "\<lambda>b. length (fl (None, b)) * bucket_sizes ! b"]) simp_all
    also have "\<dots> < 2 ^ 37" using alloc mem weight_blocks [of n fl "live_blocks live"] by simp
    finally have "length (fl (None, b)) * 32 < 2 ^ 37"
      by (rule le_less_trans [OF mult_le_mono2 [OF size_pos [OF that]]])
    then show ?thesis by simp
  qed
  then have gfree: "free_bytes (im_desc s) = weight (global_blocks fl)"
    using free_bytes_lists [OF im, of None] by (simp add: G keys_def NUM_BUCKETS_def desc_def)
  have wfree: "free_bytes (worker_desc s w) = ?W w" if "w < n" for w
  proof -
    have "length (fl (Some w, b)) < 2 ^ 32" if "b < NUM_BUCKETS" for b
    proof -
      have "length (fl (Some w, b)) \<le> bucket_capacity ! b" using lens \<open>w < n\<close> that by blast
      also have "\<dots> \<le> 256" using size_cases [OF that] by simp
      finally show ?thesis by simp
    qed
    then show ?thesis using free_bytes_lists [OF im, of "Some w"] that by (simp add: keys_def NUM_BUCKETS_def desc_def)
  qed
  have n: "im_nworkers s = n" "filter (worker_present s) [0..<n] = [0..<n]"
    using bk by (auto simp: books_ok_def books_def)
  have sums: "(\<Sum>i\<leftarrow>[0..<n]. used (worker_desc s i)) = (\<Sum>x\<leftarrow>live. int (snd x))"
    "(\<Sum>i\<leftarrow>[0..<n]. wasted_bytes (worker_desc s i)) = (\<Sum>x\<leftarrow>live. slack (snd x))"
    "(\<Sum>i\<leftarrow>[0..<n]. int (free_bytes (worker_desc s i))) = int (\<Sum>w<n. ?W w)"
    using bk wfree by (simp_all add: books_ok_def books_def interv_sum_list_conv_sum_set_nat atLeast0LessThan)
  have "0 \<le> slack (snd x)" if "x \<in> set live" for x
    using small that size_to_bucket_small [of "snd x"] by (simp add: slack_def bucket_to_size_def)
  then have nonneg: "0 \<le> (\<Sum>x\<leftarrow>live. int (snd x))" "0 \<le> (\<Sum>x\<leftarrow>live. slack (snd x))"
    by (auto intro!: sum_list_nonneg)
  have total: "used (im_desc s) = (\<Sum>x\<leftarrow>live. int (snd x)) + int (\<Sum>w<n. ?W w) + (\<Sum>x\<leftarrow>live. slack (snd x))"
    using used weight_live [of live] by (simp add: weight_blocks)
  have "0 \<le> used (im_desc s)" unfolding total by (intro add_nonneg_nonneg nonneg of_nat_0_le_iff)
  moreover have "mem_begin (im_pool s) \<le> mem_end (im_pool s)" "pool_wasted (im_pool s) = 0"
    using pool by (simp_all add: im_pool_ok_def Let_def split: if_splits)
  ultimately show ?thesis
    using total nonneg alloc used gfree
    by (simp add: internal_malloc_global_check_def workers_used_and_free_def n sums Let_def available_def)
qed

text \<open>C32: After every such run the leak check of the runtime passes: the bytes the workers hold, in use,
  free or lost to rounding, are the bytes the global pool has handed out, the chunks are exactly used
  up by used, free and still available bytes, and no remainder of a chunk was ever abandoned.\<close>

theorem leak_check_passes:
  assumes "sys_ok sys" "im_start n page_size = Some s" "im_run sys es ([], s) = Some (live, s')"
    and "pool_allocated (im_pool s') < 2 ^ 37"
  shows "internal_malloc_global_check s' = Some () \<and> pool_wasted (im_pool s') = 0"
  by (rule started_run [OF assms(2,1), of es]) (use assms(3,4) check_passes in auto)

section \<open>Shutting down\<close>

lemma free_list_of:
  assumes "im_ok sys n cs fl L s" "w < n" "b < NUM_BUCKETS"
  shows "free_list (im_bin (Some w) b s) \<noteq> 0 \<longleftrightarrow> fl (Some w, b) \<noteq> []"
    and "fl (Some w, b) = [] \<Longrightarrow> free_list_size (im_bin (Some w) b s) = 0"
  using assms by (cases "fl (Some w, b)"; auto simp: im_ok_def lists_ok_def keys_def dest!: spec [of _ "Some w"])+

lemma drain_ok:
  assumes "im_ok sys n cs fl L s" "w < n" "b < NUM_BUCKETS"
  shows "\<exists>fl' s'. drain_bucket w b s = Some s' \<and> im_ok sys n cs fl' L s' \<and> fl' (Some w, b) = [] \<and>
    length (fl' (None, b)) = length (fl (None, b)) + length (fl (Some w, b)) \<and>
    (\<forall>k. k \<noteq> (None, b) \<and> k \<noteq> (Some w, b) \<longrightarrow> fl' k = fl k)"
  using assms
proof (induction "length (fl (Some w, b))" arbitrary: fl s rule: less_induct)
  case less
  let ?c = "bucket_capacity ! b div 2"
  let ?s = "im_free_batch w (bucket_sizes ! b) b s"
  show ?case
  proof (cases "fl (Some w, b) = []")
    case True
    then have "drain_bucket w b s = Some s" using free_list_of(1) [OF less.prems] by (subst drain_bucket.simps) simp
    with True less.prems(1) show ?thesis by (intro exI [of _ fl] exI [of _ s]) simp
  next
    case False
    obtain fl1 where r: "im_ok sys n cs fl1 L ?s" "fl1 (Some w, b) = drop ?c (fl (Some w, b))"
      "length (fl1 (None, b)) = length (fl (None, b)) + min ?c (length (fl (Some w, b)))"
      "\<forall>k. k \<noteq> (None, b) \<and> k \<noteq> (Some w, b) \<longrightarrow> fl1 k = fl k"
      using free_loop_ok [OF less.prems, of ?c, folded im_free_batch_def] by (elim exE conjE) (rule that)
    have "length (fl1 (Some w, b)) < length (fl (Some w, b))"
      using r(2) False batch_facts(2) [OF less.prems(3)] by simp
    from less.hyps [OF this r(1) less.prems(2,3)] obtain fl' s' where d: "drain_bucket w b ?s = Some s'"
      "im_ok sys n cs fl' L s'" "fl' (Some w, b) = []"
      "length (fl' (None, b)) = length (fl1 (None, b)) + length (fl1 (Some w, b))"
      "\<forall>k. k \<noteq> (None, b) \<and> k \<noteq> (Some w, b) \<longrightarrow> fl' k = fl1 k" by (elim exE conjE) (rule that)
    have "drain_bucket w b s = Some s'"
      using d(1) False free_list_of(1) [OF less.prems] by (subst drain_bucket.simps) (simp add: bucket_to_size_def)
    with d r show ?thesis by (intro exI [of _ fl'] exI [of _ s']) (simp add: min_def)
  qed
qed

text \<open>C40: When a worker is terminated after any run, the loop that returns a bucket's free blocks to the
  global pool ends, and the bucket is empty afterwards: a null list and a count of zero, as the
  destruction of the worker demands.\<close>

theorem worker_buckets_drain:
  assumes "sys_ok sys" "im_start n page_size = Some s" "im_run sys es ([], s) = Some (live, s')"
    and "w < n" "b < NUM_BUCKETS"
  shows "\<exists>t. drain_bucket w b s' = Some t \<and>
    free_list (im_bin (Some w) b t) = 0 \<and> free_list_size (im_bin (Some w) b t) = 0"
proof -
  obtain cs fl where "client_ok sys n cs fl live s'"
    by (rule started_run [OF assms(2,1), of es]) (use assms(3) in auto)
  then have "im_ok sys n cs fl (live_blocks live) s'" by (simp add: client_ok_def)
  from drain_ok [OF this assms(4,5)] obtain fl' t where t: "drain_bucket w b s' = Some t"
    "im_ok sys n cs fl' (live_blocks live) t" "fl' (Some w, b) = []" by (elim exE conjE) (rule that)
  show ?thesis using t(1) free_list_of [OF t(2) assms(4,5)] t(3) by simp
qed

text \<open>Releasing a block of a worker through \<open>cilk_internal_free_global\<close>, as the destruction of the root
  closure does, turns a passing leak check into a failing one: the global count of handed-out bytes
  drops, but the worker's books still hold the block.\<close>

theorem global_free_breaks_leak_check:
  assumes "internal_malloc_global_check s = Some ()" "size_to_bucket sz < NUM_BUCKETS"
  shows "internal_malloc_global_check (cilk_internal_free_global p sz tag s) = None"
proof -
  let ?t = "cilk_internal_free_global p sz tag s"
  have "used (im_desc ?t) \<noteq> used (im_desc s)"
    using size_pos [OF assms(2)]
    by (simp add: cilk_internal_free_global_def bucket_to_size_def upd_desc_def add_to_free_list_def upd_bucket_def Let_def)
  moreover have "workers_used_and_free ?t = workers_used_and_free s"
    by (simp add: workers_used_and_free_def cilk_internal_free_global_def Let_def add_to_free_list_def upd_bucket_def upd_desc_def)
  moreover obtain t where "workers_used_and_free s = Some t" "used (im_desc s) = t"
    using assms(1) by (auto simp: internal_malloc_global_check_def Let_def split: bind_splits)
  ultimately show ?thesis
    by (simp add: internal_malloc_global_check_def Let_def cilk_assert_def)
qed

section \<open>A run of two workers\<close>

definition started :: im_state where
  "started = (im_blank 2)\<lparr>page_shift := 12,
     im_pool := \<lparr>mem_begin = 0, mem_end = 0, mem_list = replicate 8 0, mem_list_index = - 1, mem_list_size = 8,
       num_global_malloc = 0, pool_allocated = 0, pool_wasted = 0\<rparr>\<rparr>"

lemma numeral_unfold:
  "trailing_zeros (numeral k) n = (if odd n then 0 else Suc (trailing_zeros (pred_numeral k) (n div 2)))"
  "allocate_loop (numeral k) sys w sz b s = Option.bind (global_im_alloc sys sz b s)
     (\<lambda>(p, s1). allocate_loop (pred_numeral k) sys w sz b (add_to_free_list (Some w) b p s1))"
  by (simp_all add: numeral_eq_Suc)

lemma upt_7: "[0..<7] = [0, 1, 2, 3, 4, 5, 6 :: nat]"
  by (simp add: upt_rec)

lemma trailing: "trailing_zeros 64 4096 = 12"
  by (simp add: numeral_unfold)

lemma started_start: "im_start 2 4096 = Some started"
  by (simp add: im_start_def cilk_internal_malloc_global_init_def per_worker_init_same im_blank_def trailing
      started_def MEM_LIST_SIZE_def)

lemmas malloc_eval = im_blank_def desc_def upd_desc_def im_bin_def upd_bucket_def size_to_bucket_def bucket_to_size_def
  add_to_free_list_def remove_from_free_list_def init_im_bucket_def init_im_buckets_def malloc_from_system_def
  grow_mem_list_def extend_global_pool_def carve_def global_im_alloc_def im_allocate_batch_def cilk_internal_malloc_def
  bucket_sizes_def bucket_capacity_def NUM_BUCKETS_def SIZE_THRESH_def INTERNAL_MALLOC_CHUNK_SIZE_def MEM_LIST_SIZE_def

definition two_workers :: "im_op list" where
  "two_workers = [Alloc 0 2000 IM_FIBER, Alloc 1 1500 IM_CLOSURE, Release 1 0 IM_FIBER, Alloc 1 1100 IM_CLOSURE]"

lemma two_workers_run: "\<exists>s'. im_run page_sys two_workers ([], started) = Some ([(79872, 1500), (71680, 1100)], s') \<and>
    pool_allocated (im_pool s') = 32768"
  by (simp add: two_workers_def malloc_eval started_def page_sys_def upt_7 numeral_unfold Let_def
      cilk_internal_free_def trim_bucket.simps)

theorem blocks_in_use_disjoint_witness:
  "\<exists>live s'. im_run page_sys two_workers ([], started) = Some (live, s') \<and> length live = 2 \<and>
    {fst (live ! 0) ..< fst (live ! 0) + snd (live ! 0)} \<inter> {fst (live ! 1) ..< fst (live ! 1) + snd (live ! 1)} = {}"
proof -
  obtain live s' where run: "im_run page_sys two_workers ([], started) = Some (live, s')"
    and apart: "\<forall>i < length live. \<forall>j < length live. i \<noteq> j \<longrightarrow>
      {fst (live ! i) ..< fst (live ! i) + snd (live ! i)} \<inter> {fst (live ! j) ..< fst (live ! j) + snd (live ! j)} = {}"
    using blocks_in_use_disjoint [OF page_sys_ok started_start, of two_workers] by (elim exE conjE)
  have "length live = 2" using run two_workers_run by auto
  with run apart show ?thesis by (intro exI [of _ live] exI [of _ s']) simp
qed

theorem leak_check_passes_witness:
  "\<exists>live s'. im_run page_sys two_workers ([], started) = Some (live, s') \<and> internal_malloc_global_check s' = Some ()"
proof -
  obtain s' where run: "im_run page_sys two_workers ([], started) = Some ([(79872, 1500), (71680, 1100)], s')"
    and mem: "pool_allocated (im_pool s') = 32768" using two_workers_run by blast
  have "pool_allocated (im_pool s') < 2 ^ 37" unfolding mem by simp
  from leak_check_passes [OF page_sys_ok started_start run this] run show ?thesis by blast
qed

theorem worker_buckets_drain_witness:
  "\<exists>s' t. im_run page_sys two_workers ([], started) = Some ([(79872, 1500), (71680, 1100)], s') \<and>
    drain_bucket 1 6 s' = Some t \<and> free_list (im_bin (Some 1) 6 t) = 0"
proof -
  obtain s' where run: "im_run page_sys two_workers ([], started) = Some ([(79872, 1500), (71680, 1100)], s')"
    using two_workers_run by blast
  have "(1 :: nat) < 2" "6 < NUM_BUCKETS" by (simp_all add: NUM_BUCKETS_def)
  from worker_buckets_drain [OF page_sys_ok started_start run this] run show ?thesis by blast
qed

theorem global_free_breaks_leak_check_witness:
  "internal_malloc_global_check started = Some () \<and>
   internal_malloc_global_check (cilk_internal_free_global 4096 144 IM_CLOSURE started) = None"
proof -
  have sums: "free_bytes init_im_buckets = 0" "wasted_bytes init_im_buckets = 0" "used init_im_buckets = 0"
    by (simp_all add: free_bytes_def wasted_bytes_def init_im_buckets_def init_im_bucket_def NUM_BUCKETS_def upt_7)
  have "internal_malloc_global_check started = Some ()"
    by (simp add: internal_malloc_global_check_def workers_used_and_free_def started_def im_blank_def sums Let_def)
  moreover have "size_to_bucket 144 < NUM_BUCKETS"
    by (simp add: size_to_bucket_def bucket_sizes_def NUM_BUCKETS_def upt_7)
  ultimately show ?thesis using global_free_breaks_leak_check [of started 144 4096 IM_CLOSURE] by simp
qed

end
