(* ===== verification/Stealing_Loop.thy ===== *)
theory Stealing_Loop
  imports Sleep_Properties
begin

text \<open>
  The work-stealing loop as a whole (\<open>worker_scheduler\<close> with its callers \<open>boss_scheduler\<close> and
  \<open>non_boss_scheduler\<close> in \<^verbatim>\<open>runtime/scheduler.cpp\<close>).  A worker enters it with the fail count of
  \<open>init_fails\<close>, makes rounds until the region is done, runs what it stole, and gives its fail count back with
  \<open>reset_fails\<close>.  Between any two of its steps the other workers change the shared state; what the relation
  keeps of them is \<open>others\<close>, the number of workers other than this one that are counted as sentinels.
\<close>

section \<open>Steps\<close>










section \<open>The sentinel count\<close>












section \<open>Properties\<close>




end
