(* ===== verification/Lifecycle.thy ===== *)
theory Lifecycle
  imports Stealing Thief_Sleep Internal_Malloc
begin

text \<open>
  The life of the runtime (\<^verbatim>\<open>runtime/init.cpp\<close>): startup, the entry of a cilkified region by the boss
  thread, the exit by whichever worker finishes it, the boss's return to user code, and shutdown.  The
  state joins that of the scheduler, of the worker coordination and of the allocator.  Where two
  threads take turns, each turn is a definition of its own.
\<close>

section \<open>State\<close>

text \<open>\<open>valid_worker\<close> tells the workers initialised from the entries that still point to the dummy worker;
  \<open>threads\<close> are the threads created, by worker.\<close>

record 'h runtime =
  sched :: "'h rts"
  glob :: global_state
  im :: im_state
  valid_worker :: "nat \<Rightarrow> bool"
  threads :: "nat list"
  boss_initialized :: bool
  need_to_cilkify :: bool
  g_orig_rsp :: u64
  root_mem :: addr

definition upd_sched :: "('h rts \<Rightarrow> 'h rts) \<Rightarrow> 'h runtime \<Rightarrow> 'h runtime" where
  "upd_sched f g = g\<lparr>sched := f (sched g)\<rparr>"

definition upd_glob :: "(global_state \<Rightarrow> global_state) \<Rightarrow> 'h runtime \<Rightarrow> 'h runtime" where
  "upd_glob f g = g\<lparr>glob := f (glob g)\<rparr>"

definition fiber_options_of :: "rts_options \<Rightarrow> fiber_options" where
  "fiber_options_of opt = \<lparr>opt_nproc = unat (nproc opt), opt_fiber_pool_cap = unat (fiber_pool_cap opt),
     opt_stacksize = stacksize opt\<rparr>"

section \<open>Startup\<close>

definition worker_local_init :: "worker_id \<Rightarrow> 'h rts \<Rightarrow> 'h rts" where
  "worker_local_init w s =
     upd_loc w (\<lambda>l. l\<lparr>state := WORKER_IDLE, provably_good_steal := False, exiting := False, returning := False,
         rand_next := 0, wake_val := 0, lht := None, rht := None\<rparr>)
       (upd_wk w (shadow_stack_update (\<lambda>_ _. 0)) s)"

definition init_tls_worker :: "nat \<Rightarrow> 'h runtime \<Rightarrow> 'h runtime" where
  "init_tls_worker i g = (
     let w = of_nat i :: worker_id;
         s1 = worker_local_init w (sched g);
         s2 = upd_wk w (\<lambda>wk. wk\<lparr>extension := 0, ext_stack := 0,
                ltq_limit := int (unat (deqdepth (options (glob g)))), tail := 1, head := 1, exc := 1,
                hyper_ht := (if i \<noteq> 0 then None else hyper_ht wk)\<rparr>) s1;
         s3 = upd_loc w (pool_update cilk_fiber_pool_per_worker_zero_init) s2
     in g\<lparr>sched := s3, valid_worker := (valid_worker g)(i := True),
          im := cilk_internal_malloc_per_worker_init i (im g)\<rparr>)"

definition busy_init :: "'h runtime \<Rightarrow> 'h runtime" where
  "busy_init g = fold (\<lambda>i. upd_sched (upd_busy (of_nat i) (\<lambda>_. \<lparr>bc_closure = None, bc_mutex = NO_WORKER\<rparr>)))
     [0..<unat (nproc (options (glob g)))] g"

definition workers_init :: "'h runtime \<Rightarrow> 'h runtime" where
  "workers_init g = upd_glob init_index_maps
     (fold (\<lambda>i g. if i = 0 then init_tls_worker 0 g else g\<lparr>valid_worker := (valid_worker g)(i := False)\<rparr>)
       [0..<unat (nproc (options (glob g)))] g)"

text \<open>\<open>m\<close> is the memory before startup: the zeroed globals of the program, with the allocator's and the
  system's own state in it; \<open>sys\<close> is the system's allocator and \<open>sz\<close> the size of a closure.\<close>

definition cilkrts_startup ::
    "(nat \<Rightarrow> nat \<Rightarrow> addr) \<Rightarrow> nat \<Rightarrow> (string \<Rightarrow> string option) \<Rightarrow> int \<Rightarrow> int \<Rightarrow> u64 \<Rightarrow> nat \<Rightarrow> 'h runtime \<Rightarrow>
     'h runtime option" where
  "cilkrts_startup sys sz getenv cores online now page_size m = do {
     gs \<leftarrow> global_state_init getenv cores online now;
     i \<leftarrow> cilk_internal_malloc_global_init page_size (im m);
     let g = m\<lparr>glob := gs, im := i,
       sched := (sched m)\<lparr>root_closure_initialized := False,
         gpool := cilk_fiber_pool_global_init (fiber_options_of (options gs))\<rparr>, threads := []\<rparr>;
     let g1 = busy_init (workers_init g);
     (mem, i1) \<leftarrow> cilk_internal_malloc sys 0 sz IM_CLOSURE (im g1);
     cilk_assert (mem \<noteq> 0);
     let (t, s) = closure_create None (sched g1);
     let (f, os') = cilk_fiber_allocate (stacksize (options gs)) (os s);
     Some (g1\<lparr>sched := upd_cl t (cl_fiber_update (\<lambda>_. Some f)) (upd_fib f fiber_clear
       (s\<lparr>os := os', root_closure := t\<rparr>)), im := i1, root_mem := mem\<rparr>)
   }"

section \<open>Worker threads\<close>

definition threads_init :: "'h runtime \<Rightarrow> 'h runtime" where
  "threads_init g = (if 1 < sint (nworkers (glob g)) then g\<lparr>threads := 1 # threads g\<rparr> else g)"

text \<open>The first thread creates the others (\<open>init_threads_and_enter_scheduler\<close>; the affinity masks are
  in the theory of pinning).\<close>

definition start_other_threads :: "'h runtime \<Rightarrow> 'h runtime option" where
  "start_other_threads g = do {
     let n_threads = sint (nworkers (glob g));
     cilk_assert (n_threads > 0);
     Some (g\<lparr>threads := threads g @ [2..<nat n_threads]\<rparr>)
   }"

definition start_workers :: "'h runtime \<Rightarrow> 'h runtime" where
  "start_workers g = upd_glob (workers_started_update (\<lambda>_. True)) (threads_init g)"

text \<open>A join waits for its thread, which ends because \<open>terminate\<close> is set; joining a thread that was never
  created is an error.\<close>

definition stop_workers :: "'h runtime \<Rightarrow> 'h runtime option" where
  "stop_workers g = do {
     let g1 = upd_glob (terminating_update (\<lambda>_. True)) g;
     let g2 = upd_glob wake_all_disengaged g1;
     cilk_assert (list_all (\<lambda>i. i \<in> set (threads g2)) [1..<unat (nworkers (glob g2))]);
     Some (upd_glob (workers_started_update (\<lambda>_. False))
       (g2\<lparr>threads := filter (\<lambda>i. i \<notin> set [1..<unat (nworkers (glob g2))]) (threads g2)\<rparr>))
   }"

text \<open>What a worker thread does before its first wait.\<close>

definition scheduler_thread_init :: "nat \<Rightarrow> 'h runtime \<Rightarrow> 'h runtime option" where
  "scheduler_thread_init i g = do {
     let g1 = init_tls_worker i g;
     let w = (of_nat i :: worker_id);
     cilk_assert (w \<noteq> 0);
     (p, gp, os') \<leftarrow> cilk_fiber_pool_per_worker_init w (fiber_options_of (options (glob g1)))
        (gpool (sched g1)) (os (sched g1));
     gp' \<leftarrow> gp;
     Some (upd_sched (\<lambda>s. rts_srand w (rts_srand_seed w) (upd_loc w (pool_update (\<lambda>_. p)) (s\<lparr>gpool := gp', os := os'\<rparr>))) g1)
   }"

section \<open>Entering a region\<close>

definition initialize_boss :: "'h runtime \<Rightarrow> 'h runtime option" where
  "initialize_boss g = (if boss_initialized g then Some g else do {
     (p, gp, os') \<leftarrow> cilk_fiber_pool_per_worker_init 0 (fiber_options_of (options (glob g)))
        (gpool (sched g)) (os (sched g));
     gp' \<leftarrow> gp;
     let s1 = upd_loc 0 (\<lambda>l. l\<lparr>pool := p, rand_next := 162347\<rparr>) ((sched g)\<lparr>gpool := gp', os := os'\<rparr>);
     let s2 = (if use_extension s1 then
                 let (f, os'') = cilk_fiber_allocate (stacksize (options (glob g))) (os s1)
                 in upd_cl (root_closure s1) (ext_fiber_update (\<lambda>_. Some f)) (upd_fib f fiber_clear (s1\<lparr>os := os''\<rparr>))
               else s1);
     Some (g\<lparr>sched := s2, boss_initialized := True\<rparr>)
   })"

text \<open>The extension of the boss is handed to the root frame.\<close>

definition enter_extension :: "nat \<Rightarrow> 'h rts \<Rightarrow> 'h rts option" where
  "enter_extension sf s = (if use_extension s then do {
       ef \<leftarrow> ext_fiber (clos s (root_closure s));
       Some (upd_wk 0 (ext_stack_update (\<lambda>_. get_stack_start (fibs s ef)))
         (upd_frame sf (frame_extension_update (\<lambda>_. extension (workers s 0))) s))
     } else Some s)"

text \<open>Up to the call of \<open>do_what_it_says_boss\<close>.\<close>

definition invoke_cilkified_root :: "nat \<Rightarrow> 'h runtime \<Rightarrow> 'h runtime option" where
  "invoke_cilkified_root sf g = do {
     g1 \<leftarrow> initialize_boss g;
     let g2 = g1\<lparr>need_to_cilkify := False\<rparr>;
     let c = root_closure (sched g2);
     s3 \<leftarrow> enter_extension sf (sched g2);
     let s4 = make_ready c (s3\<lparr>root_closure_initialized := False\<rparr>);
     let g5 = g2\<lparr>g_orig_rsp := sp (frames s4 sf)\<rparr>;
     f \<leftarrow> cl_fiber (clos s4 c);
     let s6 = reset_stack_for_resume f sf s4;
     let s7 = upd_frame sf (set_flag CILK_FRAME_LAST) s6;
     let s8 = upd_frame sf set_stolen s7;
     s9 \<leftarrow> set_frame c sf (clear_frame c s8);
     cilk_assert (\<not> cilkified (glob g5));
     let g10 = upd_glob (\<lambda>x. (set_cilkified x)\<lparr>is_done := False\<rparr>) (g5\<lparr>sched := s9\<rparr>);
     let g11 = upd_glob wake_thieves g10;
     Some (if workers_started (glob g11) then g11 else start_workers g11)
   }"

section \<open>Leaving a region\<close>

datatype exit_outcome = Returns_to_user nat | Back_to_runtime

text \<open>Another worker than the boss hands its table and its extension to the boss.\<close>

definition hand_to_boss :: "worker_id \<Rightarrow> 'h rts \<Rightarrow> 'h rts" where
  "hand_to_boss w s = (
     let s1 = upd_loc w (exiting_update (\<lambda>_. True)) s;
         s2 = upd_wk 0 (hyper_ht_update (\<lambda>_. hyper_ht (workers s1 w))) s1;
         s3 = upd_wk w (hyper_ht_update (\<lambda>_. None)) s2;
         s4 = upd_wk 0 (extension_update (\<lambda>_. extension (workers s3 w))) s3
     in upd_wk w (extension_update (\<lambda>_. 0)) s4)"

definition exit_cilkified_root :: "worker_id \<Rightarrow> nat \<Rightarrow> 'h runtime \<Rightarrow> (exit_outcome \<times> 'h runtime) option" where
  "exit_cilkified_root w sf g = do {
     cilk_assert (state (locals (sched g) w) = WORKER_RUN);
     let g1 = upd_glob (\<lambda>x. (sleep_thieves x)\<lparr>is_done := True\<rparr>) g;
     let s2 = (if w \<noteq> 0 then hand_to_boss w (sched g1) else sched g1);
     s3 \<leftarrow> busy_lock_self w s2;
     let s4 = upd_busy w (bc_closure_update (\<lambda>_. None)) s3;
     let s5 = upd_cl (root_closure s4) (cl_owner_update (\<lambda>_. NO_WORKER)) s4;
     let s6 = busy_unlock_self w s5;
     cilk_assert (synced (frames s6 sf));
     let s7 = upd_frame sf (flags_update (\<lambda>_. 0)) s6;
     if w = 0 then do {
       let s8 = upd_loc 0 (state_update (\<lambda>_. WORKER_IDLE)) s7;
       let s9 = upd_frame sf (sp_update (\<lambda>_. g_orig_rsp g1)) s8;
       Some (Returns_to_user sf, upd_glob (cilkified_update (\<lambda>_. False)) (g1\<lparr>sched := s9, need_to_cilkify := True\<rparr>))
     } else Some (Back_to_runtime, g1\<lparr>sched := s7\<rparr>)
   }"

text \<open>The worker that finished, back in \<open>do_what_it_says\<close>.\<close>

definition worker_leaves_region :: "worker_id \<Rightarrow> 'h runtime \<Rightarrow> 'h runtime option" where
  "worker_leaves_region w g = do {
     (r, s) \<leftarrow> back_in_runtime w (sched g);
     (case r of Region_done \<Rightarrow> Some (upd_glob signal_uncilkified (g\<lparr>sched := s\<rparr>)) | Next _ \<Rightarrow> None)
   }"

text \<open>The boss: out of work it turns thief, and leaves the loop of thieves when the region is done; then it
  waits for the flag and restores the stack pointer of the frame.  \<open>f\<close> is its count of failed steals.\<close>

definition boss_becomes_thief :: "'h runtime \<Rightarrow> (u32 \<times> 'h runtime) option" where
  "boss_becomes_thief g = do {
     s1 \<leftarrow> change_state 0 WORKER_IDLE (sched g);
     s2 \<leftarrow> change_state 0 WORKER_SCHED s1;
     let (f, x) = init_fails (wake_val (locals s2 0)) (glob g);
     Some (f, g\<lparr>sched := s2, glob := x\<rparr>)
   }"

definition boss_stops_stealing :: "u32 \<Rightarrow> 'h runtime \<Rightarrow> 'h runtime option" where
  "boss_stops_stealing f g = do {
     cilk_assert (is_done (glob g));
     let g1 = upd_glob (reset_fails f) g;
     s \<leftarrow> change_state 0 WORKER_IDLE (sched g1);
     Some (g1\<lparr>sched := s\<rparr>)
   }"

definition boss_wait_helper :: "bool list \<Rightarrow> 'h runtime \<Rightarrow> (nat \<times> 'h runtime) option" where
  "boss_wait_helper seen g = do {
     sf \<leftarrow> cl_frame (clos (sched g) (root_closure (sched g)));
     x \<leftarrow> wait_while_cilkified seen (glob g);
     let g1 = g\<lparr>glob := x, need_to_cilkify := True\<rparr>;
     Some (sf, upd_sched (upd_frame sf (sp_update (\<lambda>_. g_orig_rsp g1))) g1)
   }"

text \<open>The end of a region, in the order the threads reach it: the worker exits, the boss, which was
  stealing, sees \<open>done\<close>, the worker signals, the boss wakes up.\<close>

definition end_region :: "u32 \<Rightarrow> bool list \<Rightarrow> worker_id \<Rightarrow> nat \<Rightarrow> 'h runtime \<Rightarrow> (nat \<times> 'h runtime) option" where
  "end_region nfails seen w sf g = do {
     (r, g1) \<leftarrow> exit_cilkified_root w sf g;
     (case r of
        Returns_to_user sf' \<Rightarrow> Some (sf', g1)
      | Back_to_runtime \<Rightarrow> do {
          g2 \<leftarrow> boss_stops_stealing nfails g1;
          g3 \<leftarrow> worker_leaves_region w g2;
          boss_wait_helper seen g3
        })
   }"

text \<open>The beginning of a region: until the boss jumps to the frame.\<close>

definition begin_region :: "nat \<Rightarrow> nat \<Rightarrow> 'h runtime \<Rightarrow> (nat option \<times> 'h runtime) option" where
  "begin_region fuel sf g = do {
     g1 \<leftarrow> invoke_cilkified_root sf g;
     (r, s) \<leftarrow> do_what_it_says_boss fuel 0 (root_closure (sched g1)) (sched g1);
     Some (r, g1\<lparr>sched := s\<rparr>)
   }"

section \<open>Events\<close>

fun event_name :: "event_code \<Rightarrow> string" where
  "event_name CILKIFY = ''cilkify''"
| "event_name UNCILKIFY = ''uncilkify''"
| "event_name WAIT_CILKIFIED = ''wait_cilkified''"
| "event_name WAIT_DISENGAGED = ''wait_disengaged''"
| "event_name MORE_THIEVES = ''more_thieves''"
| "event_name ALL_THIEVES = ''all_thieves''"

text \<open>The lines of \<open>print_events\<close>: microseconds, nanoseconds, name, worker (none for \<open>NO_WORKER\<close>), datum.\<close>

definition print_events :: "bool \<Rightarrow> u64 \<Rightarrow> global_state \<Rightarrow> (nat \<times> nat \<times> string \<times> worker_id option \<times> 32 word) list" where
  "print_events debug_disengage start g =
     (if \<not> debug_disengage then []
      else map (\<lambda>e. let t = ev_time e - start
                    in (unat (t div 1000), unat (t mod 1000), event_name (ev_code e),
                        if ev_worker e = NO_WORKER then None else Some (ev_worker e), ev_data e))
             (take (min (unat (event_index g)) (length (events g))) (events g)))"

section \<open>Shutdown\<close>

definition worker_terminate :: "bool \<Rightarrow> nat \<Rightarrow> 'h runtime \<Rightarrow> 'h runtime option" where
  "worker_terminate debug_slow i g = do {
     let w = (of_nat i :: worker_id);
     let (p, os') = cilk_fiber_pool_per_worker_terminate (pool (locals (sched g) w)) (os (sched g));
     let s1 = upd_loc w (pool_update (\<lambda>_. p)) ((sched g)\<lparr>os := os'\<rparr>);
     let s2 = upd_wk w (hyper_ht_update (\<lambda>_. None)) s1;
     i' \<leftarrow> cilk_internal_malloc_per_worker_terminate debug_slow i (im g);
     Some (g\<lparr>sched := s2, im := i'\<rparr>)
   }"

definition workers_terminate :: "bool \<Rightarrow> 'h runtime \<Rightarrow> 'h runtime option" where
  "workers_terminate debug_slow g =
     for_each_worker_rev (valid_worker g) (\<lambda>i r. Option.bind r (worker_terminate debug_slow i)) (glob g) (Some g)"

definition sum_allocations :: "cilk_im_desc \<Rightarrow> int list \<Rightarrow> int list" where
  "sum_allocations d counts = map2 (\<lambda>b c. c + bk_allocated b) (buckets d) counts"

definition worker_deinit :: "nat \<Rightarrow> 'h runtime \<Rightarrow> 'h runtime option" where
  "worker_deinit i g = (if \<not> valid_worker g i then Some g else do {
     cilk_internal_malloc_per_worker_destroy i (im g);
     Some (g\<lparr>valid_worker := (valid_worker g)(i := False)\<rparr>)
   })"

definition workers_deinit :: "bool \<Rightarrow> 'h runtime \<Rightarrow> 'h runtime option" where
  "workers_deinit debug_memory g = do {
     let allocations = for_each_worker_rev (valid_worker g) (\<lambda>i. sum_allocations (desc (Some i) (im g)))
           (glob g) (replicate NUM_BUCKETS 0);
     cilk_assert (debug_memory \<longrightarrow> list_all (\<lambda>c. c = 0) allocations);
     fold (\<lambda>i r. Option.bind r (worker_deinit i)) (rev [0..<unat (nproc (options (glob g)))]) (Some g)
   }"

definition busy_deinit :: "'h runtime \<Rightarrow> unit option" where
  "busy_deinit g = cilk_assert (list_all (\<lambda>i. bc_mutex (busy (sched g) (of_nat i)) = NO_WORKER)
     [0..<unat (nproc (options (glob g)))])"

definition global_state_terminate :: "bool \<Rightarrow> 'h runtime \<Rightarrow> 'h runtime option" where
  "global_state_terminate debug_memory g = do {
     let (p, os') = cilk_fiber_pool_global_terminate (gpool (sched g)) (os (sched g));
     cilk_internal_malloc_global_terminate debug_memory (im g);
     Some (g\<lparr>sched := (sched g)\<lparr>gpool := p, os := os'\<rparr>\<rparr>)
   }"

definition global_state_deinit :: "'h runtime \<Rightarrow> 'h runtime option" where
  "global_state_deinit g = do {
     p \<leftarrow> fiber_pool_destroy (gpool (sched g));
     i \<leftarrow> cilk_internal_malloc_global_destroy (im g);
     Some (upd_glob (\<lambda>x. x\<lparr>nworkers := 0, index_to_worker := [], worker_to_index := []\<rparr>)
       (g\<lparr>sched := (sched g)\<lparr>gpool := p\<rparr>, im := i, threads := []\<rparr>))
   }"

definition wrap_fiber_pool_destroy :: "nat \<Rightarrow> 'h runtime \<Rightarrow> 'h runtime option" where
  "wrap_fiber_pool_destroy i g = do {
     let w = (of_nat i :: worker_id);
     p \<leftarrow> fiber_pool_destroy (pool (locals (sched g) w));
     Some (upd_sched (upd_loc w (pool_update (\<lambda>_. p))) g)
   }"

text \<open>\<open>run_exit\<close> runs the exit functions that clients registered.\<close>

definition cilkrts_shutdown ::
    "nat \<Rightarrow> bool \<Rightarrow> bool \<Rightarrow> bool \<Rightarrow> ('h runtime \<Rightarrow> 'h runtime option) \<Rightarrow> 'h runtime \<Rightarrow> 'h runtime option" where
  "cilkrts_shutdown sz exception_reducer_empty debug_slow debug_memory run_exit g = do {
     cilk_assert exception_reducer_empty;
     g1 \<leftarrow> (if workers_started (glob g) then stop_workers g else Some g);
     g2 \<leftarrow> run_exit g1;
     let c = root_closure (sched g2);
     f \<leftarrow> cl_fiber (clos (sched g2) c);
     let s3 = (sched g2)\<lparr>os := cilk_fiber_deallocate f (os (sched g2))\<rparr>;
     let s4 = (case ext_fiber (clos s3 c) of
                 Some ef \<Rightarrow> if use_extension s3 then s3\<lparr>os := cilk_fiber_deallocate ef (os s3)\<rparr> else s3
               | None \<Rightarrow> s3);
     s5 \<leftarrow> closure_destroy c s4;
     g6 \<leftarrow> workers_terminate debug_slow 
        (g2\<lparr>sched := s5, im := cilk_internal_free_global (root_mem g2) sz IM_CLOSURE (im g2)\<rparr>);
     g7 \<leftarrow> for_each_worker (valid_worker g6) (\<lambda>i r. Option.bind r (wrap_fiber_pool_destroy i)) (glob g6) (Some g6);
     g8 \<leftarrow> global_state_terminate debug_memory g7;
     g9 \<leftarrow> workers_deinit debug_memory g8;
     busy_deinit g9;
     global_state_deinit g9
   }"

end
