(* ===== verification/Lifecycle_Properties.thy ===== *)
theory Lifecycle_Properties
  imports Lifecycle Fiber_Properties Malloc_Properties
begin

text \<open>
  Startup leaves the runtime idle, and a cilkified region takes an idle runtime to an idle runtime,
  whichever worker finishes it.
\<close>

section \<open>The idle runtime\<close>

text \<open>Between regions: no computation, the boss is idle with an empty busy closure, and the root closure
  has its fibers.\<close>

definition idle :: "'h runtime \<Rightarrow> bool" where
  "idle g = (let s = sched g; c = clos s (root_closure s) in
     \<not> cilkified (glob g) \<and> need_to_cilkify g \<and> 0 < nworkers (glob g) \<and>
     busy s 0 = \<lparr>bc_closure = None, bc_mutex = NO_WORKER\<rparr> \<and>
     state (locals s 0) = WORKER_IDLE \<and> \<not> provably_good_steal (locals s 0) \<and>
     cl_owner c = NO_WORKER \<and> cl_fiber c \<noteq> None \<and>
     initialize_boss g \<noteq> None \<and> (boss_initialized g \<and> use_extension s \<longrightarrow> ext_fiber c \<noteq> None))"

text \<open>The boss is about to run the frame of the region.\<close>

definition region_running :: "nat \<Rightarrow> 'h runtime \<Rightarrow> bool" where
  "region_running sf g = (let s = sched g; c = clos s (root_closure s) in
     cilkified (glob g) \<and> \<not> is_done (glob g) \<and> workers_started (glob g) \<and> \<not> need_to_cilkify g \<and>
     disengaged_thieves (glob g) = nworkers (glob g) - 1 \<and> boss_initialized g \<and>
     busy s 0 = \<lparr>bc_closure = Some (root_closure s), bc_mutex = NO_WORKER\<rparr> \<and> state (locals s 0) = WORKER_RUN \<and>
     0 < nworkers (glob g) \<and> \<not> provably_good_steal (locals s 0) \<and> (use_extension s \<longrightarrow> ext_fiber c \<noteq> None) \<and>
     cl_frame c = Some sf \<and> cl_status c = CLOSURE_RUNNING \<and>
     stolen (frames s sf) \<and> has_flag CILK_FRAME_LAST (frames s sf) \<and>
     (\<exists>f. cl_fiber c = Some f \<and> fh (frames s sf) = Some f \<and> sp (frames s sf) = get_stack_start (fibs s f)))"

text \<open>Worker \<open>w\<close> has returned to the root frame after its last sync; the boss, if it is another worker, is
  stealing.\<close>

definition finished :: "worker_id \<Rightarrow> nat \<Rightarrow> 'h runtime \<Rightarrow> bool" where
  "finished w sf g = (let s = sched g; c = clos s (root_closure s) in
     cilkified (glob g) \<and> 0 < nworkers (glob g) \<and> boss_initialized g \<and>
     state (locals s w) = WORKER_RUN \<and> bc_mutex (busy s w) = NO_WORKER \<and>
     synced (frames s sf) \<and> cl_frame c = Some sf \<and> cl_fiber c \<noteq> None \<and>
     (use_extension s \<longrightarrow> ext_fiber c \<noteq> None) \<and> \<not> provably_good_steal (locals s 0) \<and>
     (w \<noteq> 0 \<longrightarrow> state (locals s 0) \<in> {WORKER_SCHED, WORKER_STEAL} \<and>
        busy s 0 = \<lparr>bc_closure = None, bc_mutex = NO_WORKER\<rparr>))"

lemma busy_closure_eq: "b = \<lparr>bc_closure = c, bc_mutex = m\<rparr> \<longleftrightarrow> bc_closure b = c \<and> bc_mutex b = m"
  by (cases b) simp

lemma record_event_fields [simp]:
  "cilkified (record_event c d w g) = cilkified g" "is_done (record_event c d w g) = is_done g"
  "nworkers (record_event c d w g) = nworkers g" "workers_started (record_event c d w g) = workers_started g"
  "disengaged_thieves (record_event c d w g) = disengaged_thieves g" "options (record_event c d w g) = options g"
  by (simp_all add: record_event_def)

section \<open>A region begins\<close>

lemma initialize_boss_keeps:
  assumes "initialize_boss g = Some g1"
  shows "boss_initialized g1 \<and> glob g1 = glob g \<and> need_to_cilkify g1 = need_to_cilkify g \<and>
    frames (sched g1) = frames (sched g) \<and> busy (sched g1) = busy (sched g) \<and> workers (sched g1) = workers (sched g) \<and>
    root_closure (sched g1) = root_closure (sched g) \<and> use_extension (sched g1) = use_extension (sched g) \<and>
    state (locals (sched g1) 0) = state (locals (sched g) 0) \<and>
    provably_good_steal (locals (sched g1) 0) = provably_good_steal (locals (sched g) 0) \<and>
    cl_owner (clos (sched g1) c) = cl_owner (clos (sched g) c) \<and> cl_fiber (clos (sched g1) c) = cl_fiber (clos (sched g) c) \<and>
    (use_extension (sched g1) \<longrightarrow> \<not> boss_initialized g \<longrightarrow> ext_fiber (clos (sched g1) (root_closure (sched g1))) \<noteq> None) \<and>
    (boss_initialized g \<longrightarrow> g1 = g)"
  using assms
  by (auto simp: initialize_boss_def cilk_fiber_allocate_def upd_cl_def Let_def split: if_splits bind_splits prod.splits)

lemma root_frame_flags [simp]:
  "stolen (set_stolen x)" "has_flag CILK_FRAME_LAST (set_stolen x) = has_flag CILK_FRAME_LAST x"
  by (simp_all add: frame_flag_simps flag_bits bit_or_iff bit_and_iff flag_const_bits)

lemma last_frame_flag [simp]: "has_flag CILK_FRAME_LAST (set_flag CILK_FRAME_LAST x)"
  by (simp add: has_flag_def set_flag_def bit.conj_disj_distrib2) (simp add: CILK_FRAME_LAST_def)

lemma frame_flags_update [simp]:
  "stolen (fh_update g x) = stolen x" "stolen (sp_update h x) = stolen x"
  "has_flag k (fh_update g x) = has_flag k x" "has_flag k (sp_update h x) = has_flag k x"
  "fh (set_stolen x) = fh x" "sp (set_stolen x) = sp x" "sp (set_flag k x) = sp x" "fh (set_flag k x) = fh x"
  "synced (fh_update g x) = synced x" "synced (sp_update h x) = synced x"
  "synced (frame_extension_update e x) = synced x"
  by (simp_all add: stolen_def has_flag_def set_stolen_def set_flag_def synced_def)

lemma last_keeps_synced [simp]: "synced (set_flag CILK_FRAME_LAST x) = synced x"
  by (simp add: frame_flag_simps flag_bits bit_or_iff flag_const_bits)

lemma invoke_cilkified_root_result:
  assumes "idle g"
  shows "\<exists>g'. invoke_cilkified_root sf g = Some g' \<and> boss_initialized g' \<and> \<not> need_to_cilkify g' \<and>
    cilkified (glob g') \<and> \<not> is_done (glob g') \<and> workers_started (glob g') \<and>
    disengaged_thieves (glob g') = nworkers (glob g') - 1 \<and> g_orig_rsp g' = sp (frames (sched g) sf) \<and>
    0 < nworkers (glob g') \<and>
    (let s = sched g'; c = clos s (root_closure s) in
       (use_extension s \<longrightarrow> ext_fiber c \<noteq> None) \<and> synced (frames s sf) = synced (frames (sched g) sf) \<and>
       busy s 0 = \<lparr>bc_closure = None, bc_mutex = NO_WORKER\<rparr> \<and> state (locals s 0) = WORKER_IDLE \<and>
       \<not> provably_good_steal (locals s 0) \<and> \<not> root_closure_initialized s \<and> cl_owner c = NO_WORKER \<and>
       cl_frame c = Some sf \<and> stolen (frames s sf) \<and> has_flag CILK_FRAME_LAST (frames s sf) \<and>
       (\<exists>f. cl_fiber c = Some f \<and> sp (frames s sf) = get_stack_start (fibs s f)))"
proof -
  obtain g1 where b: "initialize_boss g = Some g1" using assms by (auto simp: idle_def Let_def)
  note k = initialize_boss_keeps [OF b]
  let ?s = "sched g1" and ?c = "root_closure (sched g1)"
  obtain f where f: "cl_fiber (clos ?s ?c) = Some f" using assms k [of ?c] by (auto simp: idle_def Let_def)
  obtain s3 where s3: "enter_extension sf ?s = Some s3" "clos s3 = clos ?s" "root_closure s3 = ?c" "fibs s3 = fibs ?s"
    "busy s3 = busy ?s" "locals s3 = locals ?s" "sp (frames s3 sf) = sp (frames ?s sf)"
    "synced (frames s3 sf) = synced (frames ?s sf)" "use_extension s3 \<longrightarrow> ext_fiber (clos ?s ?c) \<noteq> None"
  proof -
    have e: "use_extension ?s \<longrightarrow> ext_fiber (clos ?s ?c) \<noteq> None"
      using assms k [of ?c] by (cases "boss_initialized g") (auto simp: idle_def Let_def)
    show ?thesis
    proof (cases "use_extension ?s")
      case True
      with e obtain ef where "ext_fiber (clos ?s ?c) = Some ef" by auto
      with True e show ?thesis using that by (simp add: enter_extension_def)
    next
      case False
      then show ?thesis by (intro that) (auto simp: enter_extension_def)
    qed
  qed
  have pre: "\<not> cilkified (glob g1)" "busy ?s 0 = \<lparr>bc_closure = None, bc_mutex = NO_WORKER\<rparr>"
    "state (locals ?s 0) = WORKER_IDLE" "\<not> provably_good_steal (locals ?s 0)" "cl_owner (clos ?s ?c) = NO_WORKER"
    "boss_initialized g1" "sp (frames ?s sf) = sp (frames (sched g) sf)" "0 < nworkers (glob g1)"
    "frames ?s = frames (sched g)"
    using assms k [of ?c] by (auto simp: idle_def Let_def)
  show ?thesis
    using pre f s3(9)
    apply (simp add: invoke_cilkified_root_def b s3(1-8) Let_def upd_glob_def make_ready_def set_status_def
        set_frame_def clear_frame_def reset_stack_for_resume_def)
    apply (simp add: s3(1-8) Let_def upd_glob_def start_workers_def threads_init_def set_cilkified_def
        wake_thieves_def)
    done
qed

lemma begin_region_runs:
  assumes "idle g" "0 < fuel"
  shows "\<exists>g'. begin_region fuel sf g = Some (Some sf, g') \<and> region_running sf g' \<and>
    g_orig_rsp g' = sp (frames (sched g) sf) \<and> synced (frames (sched g') sf) = synced (frames (sched g) sf)"
proof -
  obtain n where n: "fuel = Suc n" using assms(2) by (cases fuel) auto
  obtain g1 where g1: "invoke_cilkified_root sf g = Some g1" and r: "boss_initialized g1" "\<not> need_to_cilkify g1"
    "cilkified (glob g1)" "\<not> is_done (glob g1)" "workers_started (glob g1)"
    "disengaged_thieves (glob g1) = nworkers (glob g1) - 1" "g_orig_rsp g1 = sp (frames (sched g) sf)"
    "0 < nworkers (glob g1)"
    "use_extension (sched g1) \<longrightarrow> ext_fiber (clos (sched g1) (root_closure (sched g1))) \<noteq> None"
    "synced (frames (sched g1) sf) = synced (frames (sched g) sf)"
    and s: "busy (sched g1) 0 = \<lparr>bc_closure = None, bc_mutex = NO_WORKER\<rparr>" "state (locals (sched g1) 0) = WORKER_IDLE"
    "\<not> provably_good_steal (locals (sched g1) 0)" "\<not> root_closure_initialized (sched g1)"
    "cl_owner (clos (sched g1) (root_closure (sched g1))) = NO_WORKER"
    "cl_frame (clos (sched g1) (root_closure (sched g1))) = Some sf" "stolen (frames (sched g1) sf)"
    "has_flag CILK_FRAME_LAST (frames (sched g1) sf)"
    "\<exists>f. cl_fiber (clos (sched g1) (root_closure (sched g1))) = Some f \<and>
       sp (frames (sched g1) sf) = get_stack_start (fibs (sched g1) f)"
    using invoke_cilkified_root_result [OF assms(1), of sf] unfolding Let_def by blast
  obtain f where f: "cl_fiber (clos (sched g1) (root_closure (sched g1))) = Some f"
    "sp (frames (sched g1) sf) = get_stack_start (fibs (sched g1) f)" using s(9) by blast
  show ?thesis
    using r s f
    by (simp add: begin_region_def g1 n do_what_it_says_boss_def setup_for_execution_def dispatch_def start_running_def
        busy_lock_self_def busy_lock_def busy_set_def busy_assert_ownership_def busy_unlock_self_def busy_unlock_def
        change_state_def longjmp_to_user_code_def Let_def set_status_def region_running_def
        get_stack_start_def)
qed

section \<open>A region ends\<close>

lemma idle_from:
  assumes "\<not> cilkified (glob g)" "need_to_cilkify g" "0 < nworkers (glob g)" "boss_initialized g"
    "busy (sched g) 0 = \<lparr>bc_closure = None, bc_mutex = NO_WORKER\<rparr>" "state (locals (sched g) 0) = WORKER_IDLE"
    "\<not> provably_good_steal (locals (sched g) 0)" "cl_owner (clos (sched g) (root_closure (sched g))) = NO_WORKER"
    "cl_fiber (clos (sched g) (root_closure (sched g))) \<noteq> None"
    "use_extension (sched g) \<longrightarrow> ext_fiber (clos (sched g) (root_closure (sched g))) \<noteq> None"
  shows "idle g"
  using assms by (simp add: idle_def Let_def initialize_boss_def)

lemma end_region_boss:
  assumes "finished 0 sf g"
  shows "\<exists>g'. end_region nf seen 0 sf g = Some (sf, g') \<and> idle g' \<and> is_done (glob g') \<and>
    disengaged_thieves (glob g') = 0 \<and> flags (frames (sched g') sf) = 0 \<and>
    sp (frames (sched g') sf) = g_orig_rsp g \<and> hyper_ht (workers (sched g') 0) = hyper_ht (workers (sched g) 0)"
  using assms
  by (simp add: finished_def Let_def end_region_def exit_cilkified_root_def busy_lock_self_def busy_lock_def
      busy_unlock_self_def busy_unlock_def upd_glob_def sleep_thieves_def idle_def initialize_boss_def busy_closure_eq)

lemma wait_returns: "\<not> cilkified g \<Longrightarrow> wait_while_cilkified [] g = Some g"
  by (simp add: wait_while_cilkified_def BUSY_LOOP_SPIN_def numeral_eq_Suc)

lemma reset_fails_fields [simp]:
  "cilkified (reset_fails f g) = cilkified g" "is_done (reset_fails f g) = is_done g"
  "nworkers (reset_fails f g) = nworkers g" "disengaged_thieves (reset_fails f g) = disengaged_thieves g"
  by (simp_all add: reset_fails_def add_to_sentinels_def Let_def)

lemma end_region_worker:
  assumes "finished w sf g" "w \<noteq> 0"
  shows "\<exists>g'. end_region nf [] w sf g = Some (sf, g') \<and> idle g' \<and> is_done (glob g') \<and>
    disengaged_thieves (glob g') = 0 \<and> flags (frames (sched g') sf) = 0 \<and>
    sp (frames (sched g') sf) = g_orig_rsp g \<and> hyper_ht (workers (sched g') 0) = hyper_ht (workers (sched g) w)"
proof -
  have w: "w \<noteq> 0" "0 \<noteq> w" "state (locals (sched g) 0) \<noteq> WORKER_IDLE"
    using assms by (auto simp: finished_def Let_def)
  show ?thesis
    using assms(1) w
    by (simp add: finished_def Let_def end_region_def exit_cilkified_root_def busy_lock_self_def busy_lock_def
      busy_unlock_self_def busy_unlock_def upd_glob_def sleep_thieves_def busy_closure_eq hand_to_boss_def
      boss_stops_stealing_def change_state_def worker_leaves_region_def back_in_runtime_def signal_uncilkified_def
      boss_wait_helper_def wait_returns upd_sched_def idle_def initialize_boss_def)
qed

section \<open>Startup\<close>

lemma workers_init_rest:
  "0 \<notin> set is \<Longrightarrow> sched (fold (\<lambda>i g. if i = 0 then init_tls_worker 0 g else g\<lparr>valid_worker := (valid_worker g)(i := False)\<rparr>) is g)
     = sched g \<and> glob (fold (\<lambda>i g. if i = 0 then init_tls_worker 0 g else g\<lparr>valid_worker := (valid_worker g)(i := False)\<rparr>) is g) = glob g
     \<and> need_to_cilkify (fold (\<lambda>i g. if i = 0 then init_tls_worker 0 g else g\<lparr>valid_worker := (valid_worker g)(i := False)\<rparr>) is g) = need_to_cilkify g
     \<and> boss_initialized (fold (\<lambda>i g. if i = 0 then init_tls_worker 0 g else g\<lparr>valid_worker := (valid_worker g)(i := False)\<rparr>) is g) = boss_initialized g
     \<and> im (fold (\<lambda>i g. if i = 0 then init_tls_worker 0 g else g\<lparr>valid_worker := (valid_worker g)(i := False)\<rparr>) is g) = im g"
  by (induction "is" arbitrary: g) auto

lemma workers_init_state:
  assumes "0 < nproc (options (glob g))"
  shows "sched (workers_init g) = sched (init_tls_worker 0 g)" "glob (workers_init g) = init_index_maps (glob g)"
    "need_to_cilkify (workers_init g) = need_to_cilkify g" "boss_initialized (workers_init g) = boss_initialized g"
    "im (workers_init g) = cilk_internal_malloc_per_worker_init 0 (im g)"
proof -
  have "0 < unat (nproc (options (glob g)))" using assms by (simp add: word_less_nat_alt)
  then have u: "[0..<unat (nproc (options (glob g)))] = 0 # [1..<unat (nproc (options (glob g)))]"
    by (simp add: upt_conv_Cons)
  have "glob (init_tls_worker 0 g) = glob g" "need_to_cilkify (init_tls_worker 0 g) = need_to_cilkify g"
    "boss_initialized (init_tls_worker 0 g) = boss_initialized g"
    "im (init_tls_worker 0 g) = cilk_internal_malloc_per_worker_init 0 (im g)"
    by (simp_all add: init_tls_worker_def Let_def)
  then show "sched (workers_init g) = sched (init_tls_worker 0 g)" "glob (workers_init g) = init_index_maps (glob g)"
    "need_to_cilkify (workers_init g) = need_to_cilkify g" "boss_initialized (workers_init g) = boss_initialized g"
    "im (workers_init g) = cilk_internal_malloc_per_worker_init 0 (im g)"
    unfolding workers_init_def u by (simp_all add: workers_init_rest upd_glob_def)
qed

definition same_but_busy :: "'h runtime \<Rightarrow> 'h runtime \<Rightarrow> bool" where
  "same_but_busy g g' \<longleftrightarrow> (\<exists>b. g' = g\<lparr>sched := (sched g)\<lparr>busy := b\<rparr>\<rparr>)"

lemma same_but_busy_trans: "same_but_busy g g' \<Longrightarrow> same_but_busy g' g'' \<Longrightarrow> same_but_busy g g''"
  by (auto simp: same_but_busy_def)

lemma busy_init_fold:
  "same_but_busy g (fold (\<lambda>i. upd_sched (upd_busy (of_nat i) (\<lambda>_. b))) is g) \<and>
   (busy (sched g) 0 = b \<or> 0 \<in> set is \<longrightarrow> busy (sched (fold (\<lambda>i. upd_sched (upd_busy (of_nat i) (\<lambda>_. b))) is g)) 0 = b)"
proof (induction "is" arbitrary: g)
  case Nil
  show ?case by (auto simp: same_but_busy_def intro!: exI [of _ "busy (sched g)"])
next
  case (Cons i "is")
  let ?g = "upd_sched (upd_busy (of_nat i) (\<lambda>_. b)) g"
  have "same_but_busy g ?g" by (auto simp: same_but_busy_def upd_sched_def upd_busy_def)
  moreover have "busy (sched g) 0 = b \<or> 0 = i \<Longrightarrow> busy (sched ?g) 0 = b" by (auto simp: upd_sched_def)
  ultimately show ?case using Cons [of ?g] same_but_busy_trans by (auto simp del: upd_fields)
qed

lemma boss_pool_init:
  assumes "distinct (mapped fibs0)" "\<forall>f \<in> set (mapped fibs0). f < next_fiber fibs0" "self \<noteq> NO_WORKER"
  shows "\<exists>p q os'. cilk_fiber_pool_per_worker_init self opts (cilk_fiber_pool_global_init opts) fibs0 = Some (p, Some q, os')"
proof -
  let ?p = "fiber_pool_stat_init (fiber_pool_init (opt_stacksize opts) (opt_fiber_pool_cap opts) False)"
    and ?g = "cilk_fiber_pool_global_init opts"
  have b: "opt_fiber_pool_cap opts div BATCH_FRACTION + pool_size ?p \<le> pool_capacity ?p"
    by (simp add: fiber_pool_init_def fiber_pool_stat_init_def)
  have q: "parent_ok self (Some ?g)" "accounted (mset (mapped fibs0)) ?p (Some ?g) fibs0" "\<not> shared ?p"
    using assms by (simp_all add: parent_ok_def accounted_def parent_fibers_def cilk_fiber_pool_global_init_def
        fiber_pool_init_def fiber_pool_stat_init_def)
  obtain p q os' where r: "fiber_pool_allocate_batch self ?p (Some ?g) fibs0 (opt_fiber_pool_cap opts div BATCH_FRACTION)
      = Some (p, q, os')" using allocate_batch_ok [OF q(3,1,2) b] by blast
  moreover have "q \<noteq> None" using r
    by (cases q) (auto simp: fiber_pool_allocate_batch_def Let_def split: if_splits bind_splits prod.splits)
  ultimately show ?thesis
    by (auto simp: cilk_fiber_pool_per_worker_init_def cilk_fiber_pool_global_init_def fiber_pool_init_def
        fiber_pool_stat_init_def Let_def)
qed

lemma startup_idle:
  assumes run: "cilkrts_startup sys sz getenv cores online now page_size m = Some g"
    and mapped: "distinct (mapped (os (sched m)))" "\<forall>f \<in> set (mapped (os (sched m))). f < next_fiber (os (sched m))"
    and m: "need_to_cilkify m" "\<not> boss_initialized m"
  shows "idle g"
proof -
  obtain gs i where gs: "global_state_init getenv cores online now = Some gs"
    and i: "cilk_internal_malloc_global_init page_size (im m) = Some i"
    using run by (auto simp: cilkrts_startup_def split: bind_splits)
  note opt = global_state_init_options [OF gs]
  have gs0: "\<not> cilkified gs" using gs
    by (auto simp: global_state_init_def Let_def split: bind_splits if_splits)
  let ?o = "fiber_options_of (options gs)"
  define g0 where "g0 = m\<lparr>glob := gs, im := i, sched := (sched m)\<lparr>root_closure_initialized := False,
         gpool := cilk_fiber_pool_global_init ?o\<rparr>, threads := []\<rparr>"
  define g1 where "g1 = workers_init g0"
  have np: "0 < nproc (options gs)" using opt by metis
  then have "0 < nproc (options (glob g0))" by (simp add: g0_def)
  note w = workers_init_state [OF this, folded g1_def]
  obtain b where b: "busy_init g1 = g1\<lparr>sched := (sched g1)\<lparr>busy := b\<rparr>\<rparr>" "b 0 = \<lparr>bc_closure = None, bc_mutex = NO_WORKER\<rparr>"
  proof -
    have "0 \<in> set [0..<unat (nproc (options (glob g1)))]"
      using np by (simp add: w g0_def init_index_maps_def word_less_nat_alt)
    with busy_init_fold [of g1 "\<lparr>bc_closure = None, bc_mutex = NO_WORKER\<rparr>" "[0..<unat (nproc (options (glob g1)))]"]
    show ?thesis using that by (auto simp: busy_init_def same_but_busy_def)
  qed
  obtain mem i1 where mem: "cilk_internal_malloc sys 0 sz IM_CLOSURE (im g1) = Some (mem, i1)" "mem \<noteq> 0"
    using run unfolding cilkrts_startup_def gs i
    by (auto simp: g0_def [symmetric] g1_def [symmetric] Let_def b split: bind_splits)
  let ?os = "os (sched m)"
  let ?os' = "\<lparr>next_fiber = Suc (next_fiber ?os), mapped = next_fiber ?os # mapped ?os\<rparr>"
  have os1: "os (sched g1) = ?os" and p1: "gpool (sched g1) = cilk_fiber_pool_global_init ?o"
    and l1: "state (locals (sched g1) 0) = WORKER_IDLE" "\<not> provably_good_steal (locals (sched g1) 0)"
    by (simp_all add: w init_tls_worker_def worker_local_init_def g0_def Let_def)
  have g: "glob g = glob g1 \<and> need_to_cilkify g = need_to_cilkify g1 \<and> boss_initialized g = boss_initialized g1 \<and>
     busy (sched g) = b \<and> os (sched g) = ?os' \<and>
     cl_fiber (clos (sched g) (root_closure (sched g))) = Some (next_fiber ?os) \<and>
     cl_owner (clos (sched g) (root_closure (sched g))) = NO_WORKER \<and> locals (sched g) = locals (sched g1) \<and>
     gpool (sched g) = gpool (sched g1)"
    using run unfolding cilkrts_startup_def gs i
    by (auto simp: g0_def [symmetric] g1_def [symmetric] Let_def b mem closure_create_def new_closure_def
        cilk_fiber_allocate_def os1 split: bind_splits)
  have "\<exists>p q os'. cilk_fiber_pool_per_worker_init 0 ?o (cilk_fiber_pool_global_init ?o) ?os' = Some (p, Some q, os')"
    by (rule boss_pool_init) (use mapped in \<open>auto simp: NO_WORKER_def less_Suc_eq\<close>)
  moreover have "options (glob g1) = options gs" "nworkers (glob g1) = nworkers gs" "cilkified (glob g1) = cilkified gs"
    by (simp_all add: w g0_def init_index_maps_def)
  ultimately show ?thesis
    using g w m gs0 opt l1 p1 b(2)
    by (auto simp: idle_def Let_def initialize_boss_def g0_def split: prod.splits)
qed

lemma startup_succeeds:
  assumes "global_state_init getenv cores online now = Some gs"
    "cilk_internal_malloc_global_init page_size (im m) = Some i"
    "cilk_internal_malloc sys 0 sz IM_CLOSURE (cilk_internal_malloc_per_worker_init 0 i) = Some (mem, i1)" "mem \<noteq> 0"
  shows "\<exists>g. cilkrts_startup sys sz getenv cores online now page_size m = Some g \<and> frames (sched g) = frames (sched m)"
proof -
  define g0 where "g0 = m\<lparr>glob := gs, im := i, sched := (sched m)\<lparr>root_closure_initialized := False,
         gpool := cilk_fiber_pool_global_init (fiber_options_of (options gs))\<rparr>, threads := []\<rparr>"
  define g1 where "g1 = workers_init g0"
  have "0 < nproc (options (glob g0))" using global_state_init_options [OF assms(1)] unfolding g0_def by simp metis
  note w = workers_init_state [OF this, folded g1_def]
  obtain b where b: "busy_init g1 = g1\<lparr>sched := (sched g1)\<lparr>busy := b\<rparr>\<rparr>"
    using busy_init_fold [of g1] by (auto simp: busy_init_def same_but_busy_def)
  have "frames (sched g1) = frames (sched m)"
    by (simp add: w init_tls_worker_def worker_local_init_def g0_def Let_def)
  then show ?thesis using assms
    by (simp add: cilkrts_startup_def g0_def [symmetric] g1_def [symmetric] b w Let_def closure_create_def
        cilk_fiber_allocate_def) (simp add: g0_def)
qed

section \<open>Regions\<close>

text \<open>The runtimes between two regions: after startup, and after each region, whatever the program did
  in it, as long as some worker came back to the root frame with everything synced and did not touch
  the saved stack pointer.\<close>

inductive between_regions :: "'h runtime \<Rightarrow> bool" where
  started: "need_to_cilkify m \<Longrightarrow> \<not> boss_initialized m \<Longrightarrow> distinct (mapped (os (sched m))) \<Longrightarrow>
     \<forall>f \<in> set (mapped (os (sched m))). f < next_fiber (os (sched m)) \<Longrightarrow>
     cilkrts_startup sys sz getenv cores online now page_size m = Some g \<Longrightarrow> between_regions g"
| region: "between_regions g \<Longrightarrow> begin_region fuel sf g = Some (Some sf, g1) \<Longrightarrow> finished w sf g2 \<Longrightarrow>
     g_orig_rsp g2 = g_orig_rsp g1 \<Longrightarrow> end_region nf [] w sf g2 = Some (sf', g3) \<Longrightarrow> between_regions g3"

lemma end_region_idle:
  assumes "finished w sf g"
  shows "\<exists>g'. end_region nf [] w sf g = Some (sf, g') \<and> idle g' \<and> is_done (glob g') \<and>
    disengaged_thieves (glob g') = 0 \<and> flags (frames (sched g') sf) = 0 \<and>
    sp (frames (sched g') sf) = g_orig_rsp g \<and> hyper_ht (workers (sched g') 0) = hyper_ht (workers (sched g) w)"
  using assms end_region_boss [of sf g nf "[]"] end_region_worker [of w sf g nf] by (cases "w = 0") blast+

lemma between_regions_idle: "between_regions g \<Longrightarrow> idle g"
proof (induction rule: between_regions.induct)
  case (started m sys sz getenv cores online now page_size g)
  then show ?case using startup_idle by blast
next
  case (region g fuel sf g1 w g2 nf sf' g3)
  then show ?case using end_region_idle [of w sf g2 nf] by auto
qed

text \<open>C3: After startup and after any number of regions the runtime is ready for the next: the boss wakes the
  thieves and runs the root frame on the fiber of the root closure; and whichever worker finishes the
  region, the boss returns to the frame with its stack pointer restored, its flags cleared and the
  reducer table of the finishing worker, to a runtime that is ready for the next region again.\<close>

theorem cilkified_regions_return:
  fixes g :: "'h runtime"
  assumes "between_regions g" "0 < fuel"
  shows "\<exists>g1. begin_region fuel sf g = Some (Some sf, g1) \<and> region_running sf g1 \<and>
    (\<forall>(g2 :: 'h runtime) w nf. finished w sf g2 \<longrightarrow> g_orig_rsp g2 = g_orig_rsp g1 \<longrightarrow>
      (\<exists>g3. end_region nf [] w sf g2 = Some (sf, g3) \<and> between_regions g3 \<and>
        \<not> cilkified (glob g3) \<and> is_done (glob g3) \<and> need_to_cilkify g3 \<and> disengaged_thieves (glob g3) = 0 \<and>
        bc_closure (busy (sched g3) 0) = None \<and> flags (frames (sched g3) sf) = 0 \<and>
        sp (frames (sched g3) sf) = sp (frames (sched g) sf) \<and>
        hyper_ht (workers (sched g3) 0) = hyper_ht (workers (sched g2) w)))"
proof -
  obtain g1 where g1: "begin_region fuel sf g = Some (Some sf, g1)" "region_running sf g1"
    "g_orig_rsp g1 = sp (frames (sched g) sf)"
    using begin_region_runs [OF between_regions_idle [OF assms(1)] assms(2)] by blast
  have "\<exists>g3. end_region nf [] w sf g2 = Some (sf, g3) \<and> between_regions g3 \<and>
        \<not> cilkified (glob g3) \<and> is_done (glob g3) \<and> need_to_cilkify g3 \<and> disengaged_thieves (glob g3) = 0 \<and>
        bc_closure (busy (sched g3) 0) = None \<and> flags (frames (sched g3) sf) = 0 \<and>
        sp (frames (sched g3) sf) = sp (frames (sched g) sf) \<and>
        hyper_ht (workers (sched g3) 0) = hyper_ht (workers (sched g2) w)"
    if f: "finished w sf g2" and rsp: "g_orig_rsp g2 = g_orig_rsp g1" for g2 :: "'h runtime" and w nf
  proof -
    obtain g3 where g3: "end_region nf [] w sf g2 = Some (sf, g3)" "idle g3" "is_done (glob g3)"
      "disengaged_thieves (glob g3) = 0" "flags (frames (sched g3) sf) = 0"
      "sp (frames (sched g3) sf) = g_orig_rsp g2" "hyper_ht (workers (sched g3) 0) = hyper_ht (workers (sched g2) w)"
      using end_region_idle [OF f, of nf] by blast
    have "between_regions g3" by (rule region [OF assms(1) g1(1) f rsp g3(1)])
    then show ?thesis using g3 g1(3) rsp by (auto simp: idle_def Let_def)
  qed
  then show ?thesis using g1 by blast
qed

text \<open>A region that does nothing: the boss comes back at once.\<close>

lemma empty_region_finishes: "region_running sf g \<Longrightarrow> synced (frames (sched g) sf) \<Longrightarrow> finished 0 sf g"
  by (auto simp: region_running_def finished_def Let_def)

definition blank_rts :: "'h rts" where
  "blank_rts = \<lparr>
     frames = (\<lambda>_. \<lparr>flags = 0, magic = frame_magic, fh = None, frame_call_parent = None, fp = 500, sp = 400, frame_extension = 0\<rparr>),
     fibs = (\<lambda>_. \<lparr>fiber_worker = None, current_stack_frame = None, header = 9000, alloc_low = 4096, stack_low = 8192\<rparr>),
     clos = (\<lambda>_. new_closure None),
     workers = (\<lambda>_. \<lparr>hyper_ht = None, extension = 0, ext_stack = 0, tail = 0, exc = 0, head = 0, ltq_limit = 0, shadow_stack = (\<lambda>_. 0)\<rparr>),
     locals = (\<lambda>_. \<lparr>state = WORKER_IDLE, provably_good_steal = False, exiting = False, returning = False, rand_next = 0,
       wake_val = 0, lht = None, rht = None, pool = fiber_pool_init 0 0 False\<rparr>),
     busy = (\<lambda>_. \<lparr>bc_closure = None, bc_mutex = 0\<rparr>), gpool = fiber_pool_init 0 0 False,
     os = \<lparr>next_fiber = 0, mapped = []\<rparr>, next_closure = 0, root_closure = 0, root_closure_initialized = False,
     use_extension = True, tls_fh = (\<lambda>_. None)\<rparr>"

definition blank_memory :: "unit runtime" where
  "blank_memory = \<lparr>sched = blank_rts, glob = global_state_allocate 0, im = im_blank 2, valid_worker = (\<lambda>_. False),
     threads = [], boss_initialized = False, need_to_cilkify = True, g_orig_rsp = 0, root_mem = 0\<rparr>"

lemma first_closure: "\<exists>mem s'. cilk_internal_malloc page_sys 0 256 IM_CLOSURE started = Some (mem, s') \<and> mem \<noteq> 0"
  by (simp add: malloc_eval started_def page_sys_def upt_7 numeral_unfold Let_def)

definition two_threads :: "string \<Rightarrow> string option" where
  "two_threads v = (if v = ''CILK_NWORKERS'' then Some ''2'' else None)"

lemma two_threads_init: "\<exists>gs. global_state_init two_threads 4 4 0 = Some gs"
proof -
  have "map_option nworkers (global_state_init two_threads 4 4 0) = Some 2" by code_simp
  then show ?thesis by auto
qed

lemma blank_starts: "\<exists>g. cilkrts_startup page_sys 256 two_threads 4 4 0 4096 blank_memory = Some g \<and> synced (frames (sched g) 7) \<and>
   sp (frames (sched g) 7) = 400"
proof -
  obtain gs where gs: "global_state_init two_threads 4 4 0 = Some gs" using two_threads_init by blast
  have i: "cilk_internal_malloc_global_init 4096 (im blank_memory) = Some started"
    using started_start by (simp add: im_start_def blank_memory_def per_worker_init_same im_blank_def
        cilk_internal_malloc_global_init_def split: if_splits)
  obtain mem s' where c: "cilk_internal_malloc page_sys 0 256 IM_CLOSURE (cilk_internal_malloc_per_worker_init 0 started)
      = Some (mem, s')" "mem \<noteq> 0"
    using first_closure per_worker_init_same [of started "[0]"] by (auto simp: started_def im_blank_def)
  obtain g where g: "cilkrts_startup page_sys 256 two_threads 4 4 0 4096 blank_memory = Some g"
    "frames (sched g) = frames (sched blank_memory)"
    using startup_succeeds [OF gs i c] by blast
  then show ?thesis by (simp add: blank_memory_def blank_rts_def synced_def)
qed

theorem cilkified_regions_return_witness:
  "\<exists>g g1 g3. cilkrts_startup page_sys 256 two_threads 4 4 0 4096 blank_memory = Some g \<and>
     begin_region 1 7 g = Some (Some 7, g1) \<and> cilkified (glob g1) \<and>
     end_region 0 [] 0 7 g1 = Some (7, g3) \<and> between_regions g3 \<and> sp (frames (sched g3) 7) = 400"
proof -
  obtain g where g: "cilkrts_startup page_sys 256 two_threads 4 4 0 4096 blank_memory = Some g" "synced (frames (sched g) 7)"
    "sp (frames (sched g) 7) = 400" using blank_starts by blast
  have b: "between_regions g" by (rule started [OF _ _ _ _ g(1)]) (simp_all add: blank_memory_def blank_rts_def)
  obtain g1 where g1: "begin_region 1 7 g = Some (Some 7, g1)" "region_running 7 g1"
    "\<And>(g2 :: unit runtime) w nf. finished w 7 g2 \<Longrightarrow> g_orig_rsp g2 = g_orig_rsp g1 \<Longrightarrow>
      \<exists>g3. end_region nf [] w 7 g2 = Some (7, g3) \<and> between_regions g3 \<and> sp (frames (sched g3) 7) = sp (frames (sched g) 7)"
    using cilkified_regions_return [OF b zero_less_one, of 7] by (elim exE conjE) (rule that, assumption, assumption, blast)
  have "synced (frames (sched g1) 7)"
    using begin_region_runs [OF between_regions_idle [OF b], of 1 7] g1(1) g(2) by auto
  from g1(3) [OF empty_region_finishes [OF g1(2) this] refl, of 0] g1 g show ?thesis
    by (auto simp: region_running_def Let_def)
qed

end
