(* ===== verification/Exceptions.thy ===== *)
theory Exceptions
  imports Lifecycle Reducers
begin

text \<open>
  Exceptions of parallel strands (\<^verbatim>\<open>runtime/personality.cpp\<close>, the exception functions of
  \<^verbatim>\<open>runtime/cilk2c.cpp\<close> and \<^verbatim>\<open>runtime/cilk2c_inlined.cpp\<close>).  An exception is the address of its object;
  it travels in a view of a reducer that the runtime registers for itself.  The unwinder and the
  standard library's personality are parameters: what a function raises or resumes is its result, and
  the reason code of the standard personality is an argument.
\<close>

section \<open>State\<close>

record closure_exception =
  exn :: u64
  reraise_cfa :: u64
  parent_rsp :: u64
  throwing_fiber :: "nat option"

text \<open>The memory of the views, the allocator's next address, and what has been given back: exceptions
  deleted by \<open>_Unwind_DeleteException\<close>, views freed, and fibers that a reduction released.\<close>

record exn_world =
  exn_views :: "u64 \<Rightarrow> closure_exception"
  next_view :: u64
  exn_deleted :: "u64 list"
  views_freed :: "u64 list"
  fibers_released :: "nat list"

record exn_state =
  e_sched :: "hyper_table rts"
  e_world :: exn_world

definition upd_view :: "u64 \<Rightarrow> (closure_exception \<Rightarrow> closure_exception) \<Rightarrow> exn_world \<Rightarrow> exn_world" where
  "upd_view v f w = w\<lparr>exn_views := (exn_views w)(v := f (exn_views w v))\<rparr>"

definition exn_view :: "u64 \<Rightarrow> exn_state \<Rightarrow> closure_exception" where
  "exn_view v st = exn_views (e_world st) v"

definition set_view :: "u64 \<Rightarrow> (closure_exception \<Rightarrow> closure_exception) \<Rightarrow> exn_state \<Rightarrow> exn_state" where
  "set_view v f st = st\<lparr>e_world := upd_view v f (e_world st)\<rparr>"

definition upd_esched :: "(hyper_table rts \<Rightarrow> hyper_table rts) \<Rightarrow> exn_state \<Rightarrow> exn_state" where
  "upd_esched f st = st\<lparr>e_sched := f (e_sched st)\<rparr>"

text \<open>The reducer is a static variable: its address is its key.\<close>

definition exception_reducer :: u64 where
  "exception_reducer = 4096"

section \<open>The exception reducer\<close>

definition no_exception :: closure_exception where
  "no_exception = \<lparr>exn = 0, reraise_cfa = 0, parent_rsp = 0, throwing_fiber = None\<rparr>"

text \<open>The variable itself is the leftmost view.\<close>

definition exception_reducer_is_empty :: "exn_world \<Rightarrow> bool" where
  "exception_reducer_is_empty w \<longleftrightarrow> exn (exn_views w exception_reducer) = 0"

text \<open>A vtable pointer and four pointers.\<close>

definition exn_view_size :: u64 where
  "exn_view_size = 40"

definition exn_identity :: "u64 \<Rightarrow> exn_world \<Rightarrow> u64 \<times> exn_world" where
  "exn_identity v w = (v, upd_view v (\<lambda>_. no_exception) w)"

definition exn_reduce :: "u64 \<Rightarrow> u64 \<Rightarrow> exn_world \<Rightarrow> exn_world" where
  "exn_reduce l r w = (let
     w1 = (if exn (exn_views w l) = 0
           then upd_view r (exn_update (\<lambda>_. 0)) (upd_view l (exn_update (\<lambda>_. exn (exn_views w r))) w) else w);
     w2 = (if exn (exn_views w1 r) \<noteq> 0
           then upd_view r (exn_update (\<lambda>_. 0)) (w1\<lparr>exn_deleted := exn_deleted w1 @ [exn (exn_views w1 r)]\<rparr>) else w1);
     w3 = upd_view l (reraise_cfa_update (\<lambda>_. reraise_cfa (exn_views w2 r))) w2;
     w4 = upd_view l (parent_rsp_update (\<lambda>_. parent_rsp (exn_views w3 r))) w3;
     w5 = (case throwing_fiber (exn_views w4 l) of
             Some f \<Rightarrow> w4\<lparr>fibers_released := fibers_released w4 @ [f]\<rparr> | None \<Rightarrow> w4)
     in upd_view l (throwing_fiber_update (\<lambda>_. throwing_fiber (exn_views w5 r))) w5)"

text \<open>The callbacks as the hash tables use them: calls on the exception reducer run the functions above,
  the others are those of the program.\<close>

definition exn_ops :: "exn_world reducer_ops \<Rightarrow> exn_world reducer_ops" where
  "exn_ops user = user\<lparr>
     op_reduce_base := (\<lambda>k l r w. if k = exception_reducer then exn_reduce l r w else op_reduce_base user k l r w),
     op_view_size := (\<lambda>k. if k = exception_reducer then exn_view_size else op_view_size user k),
     op_identity_base := (\<lambda>k v w. if k = exception_reducer then exn_identity v w else op_identity_base user k v w),
     op_alloc := (\<lambda>a sz w. (next_view w, w\<lparr>next_view := next_view w + sz\<rparr>)),
     op_free := (\<lambda>v w. w\<lparr>views_freed := views_freed w @ [v]\<rparr>)\<rparr>"

definition get_exception_reducer :: "exn_world reducer_ops \<Rightarrow> worker_id \<Rightarrow> exn_state \<Rightarrow> (u64 \<times> exn_state) option" where
  "get_exception_reducer user w st = do {
     (v, t, x) \<leftarrow> internal_reducer_lookup (exn_ops user) (hyper_ht (workers (e_sched st) w)) exception_reducer (e_world st);
     Some (v, upd_esched (upd_wk w (hyper_ht_update (\<lambda>_. t))) (st\<lparr>e_world := x\<rparr>))
   }"

text \<open>The outer \<open>None\<close> is an error, the inner one the null pointer.\<close>

definition get_exception_reducer_or_null :: "worker_id \<Rightarrow> exn_state \<Rightarrow> u64 option option" where
  "get_exception_reducer_or_null w st =
     (case hyper_ht (workers (e_sched st) w) of
        None \<Rightarrow> Some None
      | Some table \<Rightarrow> do {
          b \<leftarrow> find_hyperobject table exception_reducer;
          case b of
            None \<Rightarrow> Some None
          | Some i \<Rightarrow> do {
              cilk_assert (exception_reducer = key (get_bucket table i));
              v \<leftarrow> get_reducer_base (extra (data (get_bucket table i)));
              Some (Some v)
            }
        })"

definition clear_exception_reducer :: "worker_id \<Rightarrow> u64 \<Rightarrow> exn_state \<Rightarrow> exn_state option" where
  "clear_exception_reducer w exn_r st = do {
     cilk_assert (throwing_fiber (exn_view exn_r st) = None);
     let st1 = st\<lparr>e_world := (e_world st)\<lparr>views_freed := views_freed (e_world st) @ [exn_r]\<rparr>\<rparr>;
     t \<leftarrow> internal_reducer_remove (hyper_ht (workers (e_sched st1) w)) exception_reducer;
     Some (upd_esched (upd_wk w (hyper_ht_update (\<lambda>_. t))) st1)
   }"

text \<open>\<open>cilk_fiber_deallocate_to_pool\<close> by the worker.\<close>

definition release_fiber :: "worker_id \<Rightarrow> nat option \<Rightarrow> exn_state \<Rightarrow> exn_state option" where
  "release_fiber w f st = do {
     s \<leftarrow> fiber_dealloc_maybe w f (e_sched st);
     Some (st\<lparr>e_sched := s\<rparr>)
   }"

section \<open>The sync of an unwinding frame\<close>

text \<open>The first half of \<open>sync_in_personality\<close>, which ends in \<open>__cilkrts_sync\<close>: to the frame when it was
  ready, to the runtime otherwise.\<close>

definition save_for_unwinding :: "exn_world reducer_ops \<Rightarrow> worker_id \<Rightarrow> nat \<Rightarrow> u64 \<Rightarrow> exn_state \<Rightarrow> exn_state option" where
  "save_for_unwinding user w sf ue_header st = do {
     (exn_r, st1) \<leftarrow> get_exception_reducer user w st;
     let st2 = set_view exn_r (exn_update (\<lambda>_. ue_header)) st1;
     s3 \<leftarrow> busy_lock_self w (e_sched st2);
     tp \<leftarrow> busy_peek w w s3;
     t \<leftarrow> tp;
     s4 \<leftarrow> closure_lock w t s3;
     let st5 = set_view exn_r (parent_rsp_update (\<lambda>_. orig_rsp (clos s4 t))) (st2\<lparr>e_sched := s4\<rparr>);
     let s5 = upd_cl t (orig_rsp_update (\<lambda>_. sp (frames (e_sched st5) sf))) (e_sched st5);
     s6 \<leftarrow> closure_unlock w t s5;
     let st7 = st5\<lparr>e_sched := busy_unlock_self w s6\<rparr>;
     let st8 = (if throwing_fiber (exn_view exn_r st7) = None
                then upd_esched (upd_cl t (cl_fiber_update (\<lambda>_. None)))
                       (set_view exn_r (throwing_fiber_update (\<lambda>_. cl_fiber (clos (e_sched st7) t))) st7)
                else st7);
     Some (upd_esched (upd_frame sf (set_flag CILK_FRAME_THROWING)) st8)
   }"

definition sync_in_personality ::
    "exn_world reducer_ops \<Rightarrow> worker_id \<Rightarrow> nat \<Rightarrow> u64 \<Rightarrow> exn_state \<Rightarrow> (jump \<times> exn_state) option" where
  "sync_in_personality user w sf ue_header st = do {
     st1 \<leftarrow> save_for_unwinding user w sf ue_header st;
     (j, s) \<leftarrow> cilkrts_sync sf (e_sched st1);
     Some (j, st1\<lparr>e_sched := s\<rparr>)
   }"

section \<open>The personality function\<close>

datatype reason_code = URC_HANDLER_FOUND | URC_INSTALL_CONTEXT | URC_CONTINUE_UNWIND | URC_FATAL_PHASE1_ERROR

text \<open>What the function does: sync the frame first, call \<open>_Unwind_RaiseException\<close>, leave the region (and then
  resume unwinding with its own exception), or return.\<close>

datatype unwinding =
    Syncs jump
  | Raises u64
  | Leaves_region u64
  | Returns_code reason_code

text \<open>\<open>get_cfa\<close> of the context is \<open>cfa\<close>; \<open>std\<close> is what the standard personality returns.\<close>

definition note_reraise :: "u64 option \<Rightarrow> u64 \<Rightarrow> exn_state \<Rightarrow> bool \<times> exn_state" where
  "note_reraise exn_r cfa st = (case exn_r of
     None \<Rightarrow> (False, st)
   | Some v \<Rightarrow>
       let in_reraised_cfa = (reraise_cfa (exn_view v st) = cfa);
           skip_leaveframe = (reraise_cfa (exn_view v st) \<noteq> 0 \<and> \<not> in_reraised_cfa)
       in (skip_leaveframe,
           if in_reraised_cfa then set_view v (reraise_cfa_update (\<lambda>_. 0)) st else st))"

definition pending_exception :: "u64 option \<Rightarrow> u64 \<Rightarrow> exn_state \<Rightarrow> u64 option" where
  "pending_exception exn_r ue_header st = (case exn_r of
     None \<Rightarrow> None
   | Some v \<Rightarrow> if exn (exn_view v st) \<noteq> 0 \<and> exn (exn_view v st) \<noteq> ue_header then Some (exn (exn_view v st)) else None)"

definition leave_last_frame :: "worker_id \<Rightarrow> nat \<Rightarrow> u64 option \<Rightarrow> exn_state \<Rightarrow> exn_state option" where
  "leave_last_frame w sf exn_r st = do {
     st1 \<leftarrow> (case exn_r of
        None \<Rightarrow> Some st
      | Some v \<Rightarrow> do {
          sta \<leftarrow> release_fiber w (throwing_fiber (exn_view v st)) st;
          clear_exception_reducer w v (set_view v (throwing_fiber_update (\<lambda>_. None)) sta)
        });
     cilk_assert (check_frame_magic (frames (e_sched st1) sf));
     Some (upd_esched (upd_frame sf (frame_call_parent_update (\<lambda>_. None))) st1)
   }"

definition cleanup_phase ::
    "nat \<Rightarrow> u64 \<Rightarrow> u64 \<Rightarrow> reason_code \<Rightarrow> exn_state \<Rightarrow> (unwinding \<times> exn_state) option" where
  "cleanup_phase sf cfa ue_header std st = do {
     w \<leftarrow> get_worker_from_stack sf (e_sched st);
     let st1 = upd_esched (upd_frame sf (clear_flag CILK_FRAME_THROWING)) st;
     exn_r \<leftarrow> get_exception_reducer_or_null w st1;
     let (skip_leaveframe, st2) = note_reraise exn_r cfa st1;
     case pending_exception exn_r ue_header st2 of
       Some x \<Rightarrow> do {
         v \<leftarrow> exn_r;
         let st3 = set_view v (\<lambda>e. e\<lparr>exn := 0, reraise_cfa := cfa\<rparr>) st2;
         Some (Raises x, upd_esched (upd_frame sf (clear_flag CILK_FRAME_EXCEPTION_PENDING)) st3)
       }
     | None \<Rightarrow>
         let isSpawnHelper = has_flag CILK_FRAME_DETACHED (frames (e_sched st2) sf);
             isLastFrame = has_flag CILK_FRAME_LAST (frames (e_sched st2) sf)
         in if std = URC_CONTINUE_UNWIND \<and> \<not> isSpawnHelper \<and> \<not> skip_leaveframe then
              if isLastFrame then do {
                st3 \<leftarrow> leave_last_frame w sf exn_r st2;
                Some (Leaves_region ue_header, st3)
              } else do {
                (_, s) \<leftarrow> leave_frame sf (e_sched st2);
                let st3 = st2\<lparr>e_sched := s\<rparr>;
                Some (Returns_code std,
                  case exn_r of Some v \<Rightarrow> set_view v (parent_rsp_update (\<lambda>_. 0)) st3 | None \<Rightarrow> st3)
              }
            else Some (Returns_code std, st2)
   }"

datatype unwind_phase = Search_phase | Cleanup_phase | Other_phase

text \<open>The whole function; the frame is the current frame of the thread's fiber.  A frame with unsynced children
  goes through \<open>sync_in_personality\<close> first, and into \<open>cleanup_phase\<close> when it is resumed and has done its
  reductions.\<close>

definition cilk_personality_internal ::
    "exn_world reducer_ops \<Rightarrow> bool \<Rightarrow> unwind_phase \<Rightarrow> worker_id \<Rightarrow> u64 \<Rightarrow> u64 \<Rightarrow> reason_code \<Rightarrow> exn_state \<Rightarrow>
     (unwinding \<times> exn_state) option" where
  "cilk_personality_internal user ntc phase self cfa ue_header std st =
     (if ntc then Some (Returns_code std, st)
      else do {
        f \<leftarrow> tls_fh (e_sched st) self;
        w \<leftarrow> fiber_worker (fibs (e_sched st) f);
        cilk_assert (w = self);
        sf \<leftarrow> current_stack_frame (fibs (e_sched st) f);
        case phase of
          Search_phase \<Rightarrow> Some (Returns_code std, st)
        | Cleanup_phase \<Rightarrow>
            if \<not> synced (frames (e_sched st) sf) then do {
              (j, st1) \<leftarrow> sync_in_personality user w sf ue_header st;
              Some (Syncs j, st1)
            } else cleanup_phase sf cfa ue_header std st
        | Other_phase \<Rightarrow> Some (Returns_code URC_FATAL_PHASE1_ERROR, st)
      })"

section \<open>After a sync\<close>

text \<open>\<open>__cilkrts_check_exception_raise\<close> and \<open>__cilkrts_check_exception_resume\<close>: the exception that is
  raised (or resumed), if there is one.\<close>

definition check_exception_raise ::
    "exn_world reducer_ops \<Rightarrow> nat \<Rightarrow> exn_state \<Rightarrow> (u64 option \<times> exn_state) option" where
  "check_exception_raise user sf st = do {
     w \<leftarrow> get_worker_from_stack sf (e_sched st);
     (exn_r, st1) \<leftarrow> get_exception_reducer user w st;
     let x = exn (exn_view exn_r st1);
     st2 \<leftarrow> clear_exception_reducer w exn_r st1;
     let st3 = upd_esched (upd_frame sf (clear_flag CILK_FRAME_EXCEPTION_PENDING)) st2;
     Some (if x \<noteq> 0 then Some x else None, st3)
   }"

definition check_exception_resume ::
    "exn_world reducer_ops \<Rightarrow> nat \<Rightarrow> exn_state \<Rightarrow> (u64 option \<times> exn_state) option" where
  "check_exception_resume user sf st = do {
     w \<leftarrow> get_worker_from_stack sf (e_sched st);
     (exn_r, st1) \<leftarrow> get_exception_reducer user w st;
     let x = exn (exn_view exn_r st1);
     st2 \<leftarrow> clear_exception_reducer w exn_r st1;
     let st3 = upd_esched (upd_frame sf (clear_flag CILK_FRAME_EXCEPTION_PENDING)) st2;
     Some (if x \<noteq> 0 then Some x else None, st3)
   }"

text \<open>The rest of \<open>__cilk_sync\<close> when the frame is resumed after \<open>__cilkrts_do_reductions\<close>.\<close>

definition after_sync :: "exn_world reducer_ops \<Rightarrow> nat \<Rightarrow> exn_state \<Rightarrow> (u64 option \<times> exn_state) option" where
  "after_sync user sf st =
     (if has_flag CILK_FRAME_EXCEPTION_PENDING (frames (e_sched st) sf) then check_exception_raise user sf st
      else Some (None, st))"

section \<open>Landing pads\<close>

text \<open>\<open>__cilkrts_cleanup_fiber\<close>: \<open>True\<close> when it jumps to the frame on the fiber of the parent.\<close>

definition cleanup_fiber :: "nat \<Rightarrow> exn_state \<Rightarrow> (bool \<times> exn_state) option" where
  "cleanup_fiber sf st = do {
     w \<leftarrow> get_worker_from_stack sf (e_sched st);
     cilk_assert (synced (frames (e_sched st) sf));
     exn_r \<leftarrow> get_exception_reducer_or_null w st;
     (tf, rsp, st1) \<leftarrow> (case exn_r of
        None \<Rightarrow> Some (None, 0, st)
      | Some v \<Rightarrow> do {
          let tf = throwing_fiber (exn_view v st);
          let rsp = parent_rsp (exn_view v st);
          sta \<leftarrow> clear_exception_reducer w v (set_view v (throwing_fiber_update (\<lambda>_. None)) st);
          Some (tf, rsp, sta)
        });
     if rsp = 0 then do {
       st2 \<leftarrow> release_fiber w tf st1;
       Some (False, st2)
     } else do {
       let st2 = upd_esched (upd_frame sf (sp_update (\<lambda>_. rsp))) st1;
       st3 \<leftarrow> release_fiber w tf st2;
       Some (True, st3)
     }
   }"

text \<open>\<open>sel\<close> is 0 for a cleanup.\<close>

definition enter_landingpad :: "bool \<Rightarrow> nat \<Rightarrow> 32 word \<Rightarrow> exn_state \<Rightarrow> (bool \<times> exn_state) option" where
  "enter_landingpad ntc sf sel st =
     (if ntc then Some (False, st)
      else do {
        f \<leftarrow> fh (frames (e_sched st) sf);
        let st1 = upd_esched (upd_fib f (current_stack_frame_update (\<lambda>_. Some sf))) st;
        if sel = 0 then Some (False, st1) else cleanup_fiber sf st1
      })"

text \<open>\<open>__cilkrts_pause_frame\<close> after the return of \<open>__cilkrts_cleanup_fiber\<close>: \<open>True\<close> when the thief won, and
  the exception handler runs with \<open>exn\<close>.\<close>

definition pause_frame :: "nat \<Rightarrow> nat \<Rightarrow> bool \<Rightarrow> 'h rts \<Rightarrow> (bool \<times> 'h rts) option" where
  "pause_frame sf parent spawner s = do {
     w \<leftarrow> get_worker_from_stack sf s;
     cilk_assert (check_frame_magic (frames s sf));
     f \<leftarrow> fh (frames s sf);
     let s1 = (if spawner then upd_fib f (current_stack_frame_update (\<lambda>_. Some parent)) s else s);
     let s2 = upd_frame sf (frame_call_parent_update (\<lambda>_. None)) s1;
     if has_flag CILK_FRAME_DETACHED (frames s2 sf) then do {
       let s3 = (if use_extension s2
                 then upd_wk w (\<lambda>wk. wk\<lparr>ext_stack := extend_return_from_spawn (ext_stack wk),
                          extension := frame_extension (frames s2 parent)\<rparr>) s2 else s2);
       let s4 = upd_wk w (tail_update (\<lambda>t. t - 1)) s3;
       let s5 = upd_frame sf (clear_flag CILK_FRAME_DETACHED) s4;
       Some (exc (workers s5 w) > tail (workers s5 w), s5)
     } else Some (False, s2)
   }"

section \<open>The library interface\<close>

definition MAX_CALLBACKS :: nat where
  "MAX_CALLBACKS = 32"

record callback_table =
  init_callbacks :: "nat list"
  exit_callbacks :: "nat list"
  after_init :: bool

definition cilkrts_is_initialized :: "'a option \<Rightarrow> bool" where
  "cilkrts_is_initialized default_cilkrts \<longleftrightarrow> default_cilkrts \<noteq> None"

definition cilkrts_running_on_workers :: "bool \<Rightarrow> bool" where
  "cilkrts_running_on_workers ntc \<longleftrightarrow> \<not> ntc"

text \<open>A status and the table: 0 is success.\<close>

definition cilkrts_atinit :: "nat \<Rightarrow> callback_table \<Rightarrow> int \<times> callback_table" where
  "cilkrts_atinit cb t =
     (if length (init_callbacks t) \<ge> MAX_CALLBACKS \<or> after_init t then (-1, t)
      else (0, t\<lparr>init_callbacks := init_callbacks t @ [cb]\<rparr>))"

definition cilkrts_atexit :: "nat \<Rightarrow> callback_table \<Rightarrow> int \<times> callback_table" where
  "cilkrts_atexit cb t =
     (if length (exit_callbacks t) \<ge> MAX_CALLBACKS then (-1, t)
      else (0, t\<lparr>exit_callbacks := exit_callbacks t @ [cb]\<rparr>))"

text \<open>The order in which startup and shutdown call them.\<close>

definition run_init_callbacks :: "callback_table \<Rightarrow> nat list \<times> callback_table" where
  "run_init_callbacks t = (init_callbacks t, t\<lparr>after_init := True\<rparr>)"

definition run_exit_callbacks :: "callback_table \<Rightarrow> nat list" where
  "run_exit_callbacks t = rev (exit_callbacks t)"

definition register_extension :: "u64 \<Rightarrow> worker_id \<Rightarrow> 'h rts \<Rightarrow> 'h rts" where
  "register_extension ext w s = upd_wk w (extension_update (\<lambda>_. ext)) (s\<lparr>use_extension := True\<rparr>)"

definition get_extension :: "worker_id \<Rightarrow> 'h rts \<Rightarrow> u64" where
  "get_extension w s = extension (workers s w)"

section \<open>Grain sizes\<close>

text \<open>\<open>8 * __cilkrts_nproc\<close> is computed with 32 bits; the quotient is cut to the type of \<open>n\<close>.\<close>

definition cilk_for_grainsize_8 :: "u32 \<Rightarrow> 8 word \<Rightarrow> 8 word \<Rightarrow> 8 word" where
  "cilk_for_grainsize_8 np n bound =
     (let small = (ucast (ucast n div (8 * np)) :: 8 word)
      in if small \<le> 1 then 1 else if bound \<noteq> 0 \<and> bound < small then bound else small)"

definition cilk_for_grainsize_16 :: "u32 \<Rightarrow> 16 word \<Rightarrow> 16 word \<Rightarrow> 16 word" where
  "cilk_for_grainsize_16 np n bound =
     (let small = (ucast (ucast n div (8 * np)) :: 16 word)
      in if small \<le> 1 then 1
         else let large = (if bound \<noteq> 0 then bound else 2048) in if large < small then large else small)"

definition cilk_for_grainsize_32 :: "u32 \<Rightarrow> u32 \<Rightarrow> u32 \<Rightarrow> u32" where
  "cilk_for_grainsize_32 np n bound =
     (let small = n div (8 * np)
      in if small \<le> 1 then 1
         else let large = (if bound \<noteq> 0 then bound else 2048) in if large < small then large else small)"

definition cilk_for_grainsize_64 :: "u32 \<Rightarrow> u64 \<Rightarrow> u64 \<Rightarrow> u64" where
  "cilk_for_grainsize_64 np n bound =
     (let small = n div ucast (8 * np)
      in if small \<le> 1 then 1
         else let large = (if bound \<noteq> 0 then bound else 2048) in if large < small then large else small)"

end
