(* ===== verification/Exception_Properties.thy ===== *)
theory Exception_Properties
  imports Exceptions Reducer_Properties Lifecycle_Properties
begin

text \<open>
  What the exception reducer and the personality function guarantee: the exception that survives the
  reductions is the serially first, every other one is deleted once, and an exception that replaces the
  one being handled is raised once and leaves each frame once.
\<close>

section \<open>Reducing the views of strands\<close>

text \<open>The reductions of a sync, as a tree over the views of the strands in serial order: a node reduces
  the view of its right part into that of its left part, when both are reduced.\<close>

datatype view_tree = Strand u64 | Join view_tree view_tree

fun strands :: "view_tree \<Rightarrow> u64 list" where
  "strands (Strand v) = [v]"
| "strands (Join a b) = strands a @ strands b"

fun leftmost :: "view_tree \<Rightarrow> u64" where
  "leftmost (Strand v) = v"
| "leftmost (Join a b) = leftmost a"

fun reduce_tree :: "view_tree \<Rightarrow> exn_world \<Rightarrow> exn_world" where
  "reduce_tree (Strand v) w = w"
| "reduce_tree (Join a b) w = exn_reduce (leftmost a) (leftmost b) (reduce_tree b (reduce_tree a w))"

text \<open>The exceptions thrown by the strands, in serial order.\<close>

definition thrown :: "exn_world \<Rightarrow> u64 list \<Rightarrow> u64 list" where
  "thrown w vs = filter (\<lambda>x. x \<noteq> 0) (map (\<lambda>v. exn (exn_views w v)) vs)"

definition held_fibers :: "exn_world \<Rightarrow> u64 list \<Rightarrow> nat list" where
  "held_fibers w vs = List.map_filter (\<lambda>v. throwing_fiber (exn_views w v)) vs"

lemma strands_nonempty [simp]: "strands t \<noteq> []"
  by (induction t) simp_all

lemma leftmost_hd: "leftmost t = hd (strands t)"
  by (induction t) (simp_all add: hd_append)

lemma leftmost_in [simp]: "leftmost t \<in> set (strands t)"
  by (simp add: leftmost_hd)

lemma thrown_append: "thrown w (vs @ us) = thrown w vs @ thrown w us"
  by (simp add: thrown_def)

lemma held_append: "held_fibers w (vs @ us) = held_fibers w vs @ held_fibers w us"
  by (simp add: held_fibers_def map_filter_def)

lemma held_cong: "(\<And>v. v \<in> set vs \<Longrightarrow> exn_views w v = exn_views w' v) \<Longrightarrow> held_fibers w vs = held_fibers w' vs"
  by (induction vs) (auto simp: held_fibers_def List.map_filter_simps split: option.split)

lemma thrown_nonzero: "x \<in> set (thrown w vs) \<Longrightarrow> x \<noteq> 0"
  by (auto simp: thrown_def)

lemma exn_reduce_effect:
  assumes "l \<noteq> r"
  shows "exn_views (exn_reduce l r w) l = \<lparr>exn = (if exn (exn_views w l) = 0 then exn (exn_views w r) else exn (exn_views w l)),
      reraise_cfa = reraise_cfa (exn_views w r), parent_rsp = parent_rsp (exn_views w r),
      throwing_fiber = throwing_fiber (exn_views w r)\<rparr>"
    and "v \<noteq> l \<Longrightarrow> v \<noteq> r \<Longrightarrow> exn_views (exn_reduce l r w) v = exn_views w v"
    and "exn_deleted (exn_reduce l r w) = exn_deleted w @
      (if exn (exn_views w l) \<noteq> 0 \<and> exn (exn_views w r) \<noteq> 0 then [exn (exn_views w r)] else [])"
    and "fibers_released (exn_reduce l r w) = fibers_released w @ held_fibers w [l]"
  using assms
  by (cases "exn_views w l"; cases "throwing_fiber (exn_views w l)";
      simp add: exn_reduce_def upd_view_def Let_def held_fibers_def map_filter_def; fail)+

lemma reduce_tree_effect:
  assumes "distinct (strands t)"
  shows "let w' = reduce_tree t w in
    (\<forall>v. v \<notin> set (strands t) \<longrightarrow> exn_views w' v = exn_views w v) \<and>
    exn (exn_views w' (leftmost t)) = (case thrown w (strands t) of [] \<Rightarrow> 0 | x # _ \<Rightarrow> x) \<and>
    mset (exn_deleted w') = mset (exn_deleted w) + mset (tl (thrown w (strands t))) \<and>
    reraise_cfa (exn_views w' (leftmost t)) = reraise_cfa (exn_views w (last (strands t))) \<and>
    parent_rsp (exn_views w' (leftmost t)) = parent_rsp (exn_views w (last (strands t))) \<and>
    throwing_fiber (exn_views w' (leftmost t)) = throwing_fiber (exn_views w (last (strands t))) \<and>
    mset (fibers_released w') = mset (fibers_released w) + mset (held_fibers w (butlast (strands t)))"
  using assms
proof (induction t arbitrary: w)
  case (Strand v)
  then show ?case by (simp add: thrown_def held_fibers_def map_filter_def Let_def)
next
  case (Join a b)
  define w1 where "w1 = reduce_tree a w"
  define w2 where "w2 = reduce_tree b w1"
  have dis: "distinct (strands a)" "distinct (strands b)" "set (strands a) \<inter> set (strands b) = {}"
    using Join.prems by auto
  note A = Join.IH(1) [OF dis(1), of w, folded w1_def, unfolded Let_def]
  note B = Join.IH(2) [OF dis(2), of w1, folded w2_def, unfolded Let_def]
  have ne: "leftmost a \<noteq> leftmost b" using dis(3) leftmost_in by (metis IntI empty_iff)
  have viewa: "exn_views w2 v = exn_views w1 v" if "v \<in> set (strands a)" for v
    using B that dis(3) by blast
  have viewb: "exn_views w1 v = exn_views w v" if "v \<in> set (strands b)" for v
    using A that dis(3) by blast
  have tb: "thrown w1 (strands b) = thrown w (strands b)"
    using viewb by (simp add: thrown_def cong: map_cong)
  have hb: "held_fibers w1 (butlast (strands b)) = held_fibers w (butlast (strands b))"
    by (rule held_cong) (simp add: viewb in_set_butlastD)
  note R = exn_reduce_effect [OF ne, where w = w2]
  have la: "exn_views w2 (leftmost a) = exn_views w1 (leftmost a)" by (rule viewa) simp
  have lb: "exn_views w1 (last (strands b)) = exn_views w (last (strands b))" by (rule viewb) simp
  have fa: "held_fibers w2 [leftmost a] = held_fibers w [last (strands a)]"
    using A la by (simp add: held_fibers_def map_filter_def)
  have sa: "held_fibers w (strands a) = held_fibers w (butlast (strands a)) @ held_fibers w [last (strands a)]"
    by (simp flip: held_append)
  have zero: "(case thrown w vs of [] \<Rightarrow> 0 | x # _ \<Rightarrow> x) = 0 \<longleftrightarrow> thrown w vs = []" for vs
    using thrown_nonzero [of _ w vs] by (cases "thrown w vs") auto
  let ?X = "thrown w (strands a)" and ?Y = "thrown w (strands b)"
  have ea: "exn (exn_views w2 (leftmost a)) = (case ?X of [] \<Rightarrow> 0 | x # _ \<Rightarrow> x)" using A la by simp
  have eb: "exn (exn_views w2 (leftmost b)) = (case ?Y of [] \<Rightarrow> 0 | x # _ \<Rightarrow> x)" using B tb by simp
  have za: "(case ?X of [] \<Rightarrow> 0 | x # _ \<Rightarrow> x) = 0 \<longleftrightarrow> ?X = []" and zb: "(case ?Y of [] \<Rightarrow> 0 | x # _ \<Rightarrow> x) = 0 \<longleftrightarrow> ?Y = []"
    by (rule zero)+
  have w': "reduce_tree (Join a b) w = exn_reduce (leftmost a) (leftmost b) w2" by (simp add: w1_def w2_def)
  have first: "exn (exn_views (exn_reduce (leftmost a) (leftmost b) w2) (leftmost a)) =
      (case ?X @ ?Y of [] \<Rightarrow> 0 | x # _ \<Rightarrow> x)"
    using ea eb za by (cases ?X) (simp_all add: R(1))
  have gone: "mset (exn_deleted (exn_reduce (leftmost a) (leftmost b) w2)) = mset (exn_deleted w) + mset (tl (?X @ ?Y))"
    using A B ea eb za zb tb by (cases ?X; cases ?Y) (simp_all add: R(3))
  have keep: "exn_views (exn_reduce (leftmost a) (leftmost b) w2) v = exn_views w v"
    if "v \<notin> set (strands a)" "v \<notin> set (strands b)" for v
    using that A B R(2) [of v] leftmost_in by metis
  have fib: "mset (fibers_released (exn_reduce (leftmost a) (leftmost b) w2)) =
      mset (fibers_released w) + mset (held_fibers w (butlast (strands a @ strands b)))"
    using A B hb fa sa by (simp add: R(4) butlast_append held_append)
  show ?case unfolding w' Let_def
    using first gone keep fib B lb by (simp add: R(1) thrown_append)
qed

text \<open>C12: However the reductions of a sync are bracketed, the exception that remains in the leftmost view is
  the one of the serially first strand that threw, every other exception is deleted exactly once and
  it is not; the fiber of the last strand's throwing frame is kept and the fibers of the others are
  released once.\<close>

theorem first_exception_survives:
  assumes "distinct (strands t)" "w' = reduce_tree t w"
  shows "exn (exn_views w' (leftmost t)) = (case thrown w (strands t) of [] \<Rightarrow> 0 | x # _ \<Rightarrow> x) \<and>
    mset (exn_deleted w') = mset (exn_deleted w) + mset (tl (thrown w (strands t))) \<and>
    throwing_fiber (exn_views w' (leftmost t)) = throwing_fiber (exn_views w (last (strands t))) \<and>
    mset (fibers_released w') = mset (fibers_released w) + mset (held_fibers w (butlast (strands t)))"
  using reduce_tree_effect [OF assms(1), of w] by (simp add: Let_def assms(2))

definition three_strands :: exn_world where
  "three_strands = \<lparr>exn_views = (\<lambda>v. no_exception\<lparr>exn := (if v = 64 then 0 else v + 1), throwing_fiber := Some (unat v)\<rparr>),
     next_view = 1024, exn_deleted = [], views_freed = [], fibers_released = []\<rparr>"

theorem first_exception_survives_witness:
  "exn (exn_views (reduce_tree (Join (Strand 64) (Join (Strand 128) (Strand 192))) three_strands) 64) = 129 \<and>
   mset (exn_deleted (reduce_tree (Join (Strand 64) (Join (Strand 128) (Strand 192))) three_strands)) = {#193#}"
proof -
  let ?t = "Join (Strand 64) (Join (Strand 128) (Strand 192))"
  have d: "distinct (strands ?t)" by simp
  have th: "thrown three_strands (strands ?t) = [129, 193]" by (simp add: thrown_def three_strands_def)
  show ?thesis using first_exception_survives [OF d refl, of three_strands] th
    by (simp add: three_strands_def)
qed

section \<open>Raising in place of another exception\<close>

lemma get_worker_upd [simp]:
  "get_worker_from_stack sf (upd_frame f (clear_flag k) s) = get_worker_from_stack sf s"
  by (simp add: get_worker_from_stack_def clear_flag_def)

lemma exn_or_null_upd [simp]:
  "get_exception_reducer_or_null w (set_view v f st) = get_exception_reducer_or_null w st"
  "get_exception_reducer_or_null w (upd_esched (upd_frame sf g) st) = get_exception_reducer_or_null w st"
  by (simp_all add: get_exception_reducer_or_null_def set_view_def upd_esched_def cong: option.case_cong)

lemma view_upd [simp]:
  "exn_view u (set_view v f st) = (if u = v then f (exn_view v st) else exn_view u st)"
  "exn_view u (upd_esched g st) = exn_view u st" "e_sched (set_view v f st) = e_sched st"
  "e_sched (upd_esched g st) = g (e_sched st)"
  by (simp_all add: exn_view_def set_view_def upd_view_def upd_esched_def)



lemma other_flags_of_throwing [simp]:
  "has_flag CILK_FRAME_DETACHED (clear_flag CILK_FRAME_THROWING x) = has_flag CILK_FRAME_DETACHED x"
  "has_flag CILK_FRAME_LAST (clear_flag CILK_FRAME_THROWING x) = has_flag CILK_FRAME_LAST x"
  by (simp_all add: frame_flag_simps flag_bits bit_and_iff bit_not_u32 flag_const_bits)




definition throwing_table :: hyper_table where
  "throwing_table = \<lparr>capacity = 4, occupancy = 1, ins_rm_count = 0,
     buckets = \<lparr>key = exception_reducer, bhash = 0, data = \<lparr>view = 64, extra = ReducerBase 64\<rparr>\<rparr> # replicate 3 empty_bucket\<rparr>"

definition throwing_state :: exn_state where
  "throwing_state = \<lparr>e_sched = upd_wk 0 (hyper_ht_update (\<lambda>_. Some throwing_table))
       (upd_fib 0 (fiber_worker_update (\<lambda>_. Some 0))
         (blank_rts\<lparr>frames := (\<lambda>_. \<lparr>flags = CILK_FRAME_EXCEPTION_PENDING, magic = frame_magic, fh = Some 0, frame_call_parent = None,
            fp = 500, sp = 400, frame_extension = 0\<rparr>)\<rparr>)),
     e_world = \<lparr>exn_views = (\<lambda>_. no_exception\<lparr>exn := 129\<rparr>), next_view = 1024, exn_deleted = [], views_freed = [], fibers_released = []\<rparr>\<rparr>"

lemma throwing_worker: "get_worker_from_stack f (e_sched throwing_state) = Some 0"
  by (simp add: get_worker_from_stack_def throwing_state_def)


lemma throwing_view: "exn_view v throwing_state = no_exception\<lparr>exn := 129\<rparr>"
  by (simp add: exn_view_def throwing_state_def)


section \<open>Raising after a sync\<close>

text \<open>The worker's table and view hold nothing but exceptions that are not being thrown.\<close>

definition exception_entry :: "worker_id \<Rightarrow> exn_state \<Rightarrow> reducer_data option" where
  "exception_entry w st = table_view (get_local_hyper_table (hyper_ht (workers (e_sched st) w))) exception_reducer"

definition pending :: "worker_id \<Rightarrow> exn_state \<Rightarrow> u64 option" where
  "pending w st = (case exception_entry w st of
     Some d \<Rightarrow> (case extra d of ReducerBase v \<Rightarrow> if exn (exn_view v st) \<noteq> 0 then Some (exn (exn_view v st)) else None | _ \<Rightarrow> None)
   | None \<Rightarrow> None)"

lemma valid_exception_key: "is_valid exception_reducer"
  by (simp add: exception_reducer_def is_valid_def is_empty_def is_tombstone_def KEY_EMPTY_def KEY_DELETED_def)

lemma exception_lookup:
  assumes t: "table_takes (Suc n) (get_local_hyper_table ht)"
    and e: "\<forall>d. table_view (get_local_hyper_table ht) exception_reducer = Some d \<longrightarrow>
      (\<exists>v. extra d = ReducerBase v \<and> throwing_fiber (exn_views x v) = None)"
  shows "\<exists>v t1 x1. internal_reducer_lookup (exn_ops user) ht exception_reducer x = Some (v, Some t1, x1) \<and> ht_ok t1 \<and>
    (\<forall>k. k \<noteq> exception_reducer \<longrightarrow> table_view t1 k = table_view (get_local_hyper_table ht) k) \<and>
    throwing_fiber (exn_views x1 v) = None \<and>
    (case table_view (get_local_hyper_table ht) exception_reducer of
       Some d \<Rightarrow> extra d = ReducerBase v \<and> x1 = x | None \<Rightarrow> exn (exn_views x1 v) = 0)"
proof -
  let ?t = "get_local_hyper_table ht"
  obtain r where r: "find_hyperobject ?t exception_reducer = Some r" "case r of None \<Rightarrow> table_view ?t exception_reducer = None
      | Some i \<Rightarrow> live_bucket ?t i \<and> key (get_bucket ?t i) = exception_reducer \<and>
          table_view ?t exception_reducer = Some (data (get_bucket ?t i))"
    using table.lookup_law [OF t valid_exception_key] by blast
  have ok: "ht_ok ?t" using t by (simp add: table_takes_def)
  show ?thesis
  proof (cases r)
    case (Some i)
    with r e obtain v where "extra (data (get_bucket ?t i)) = ReducerBase v" "throwing_fiber (exn_views x v) = None" by auto
    with Some r ok show ?thesis by (simp add: internal_reducer_lookup_def Let_def)
  next
    case None
    let ?b = "\<lparr>key = exception_reducer, bhash = 0, data = \<lparr>view = next_view x, extra = ReducerBase (next_view x)\<rparr>\<rparr>"
    obtain t' where t': "insert_hyperobject ?t ?b = Some (t', True)" "table_takes n t'"
      "table_view t' = (table_view ?t)(exception_reducer \<mapsto> data ?b)"
      using table.ins_law [OF t, of ?b] valid_exception_key by auto
    then have "ht_ok t'" by (simp add: table_takes_def)
    with t' None r show ?thesis
      by (simp add: internal_reducer_lookup_def insert_new_view_0_def exn_ops_def exn_identity_def upd_view_def
          no_exception_def Let_def)
  qed
qed

lemma check_exception_raise_result:
  assumes w: "get_worker_from_stack sf (e_sched st) = Some w"
    and t: "table_takes (Suc n) (get_local_hyper_table (hyper_ht (workers (e_sched st) w)))"
    and e: "\<forall>d. exception_entry w st = Some d \<longrightarrow> (\<exists>v. extra d = ReducerBase v \<and> throwing_fiber (exn_view v st) = None)"
  shows "\<exists>st'. check_exception_raise user sf st = Some (pending w st, st') \<and> exception_entry w st' = None \<and>
    (\<forall>k. k \<noteq> exception_reducer \<longrightarrow> table_view (get_local_hyper_table (hyper_ht (workers (e_sched st') w))) k =
       table_view (get_local_hyper_table (hyper_ht (workers (e_sched st) w))) k) \<and>
    \<not> has_flag CILK_FRAME_EXCEPTION_PENDING (frames (e_sched st') sf)"
proof -
  let ?ht = "hyper_ht (workers (e_sched st) w)"
  obtain v t1 x1 where l: "internal_reducer_lookup (exn_ops user) ?ht exception_reducer (e_world st) = Some (v, Some t1, x1)"
    "ht_ok t1" "\<forall>k. k \<noteq> exception_reducer \<longrightarrow> table_view t1 k = table_view (get_local_hyper_table ?ht) k"
    "throwing_fiber (exn_views x1 v) = None"
    "case table_view (get_local_hyper_table ?ht) exception_reducer of
       Some d \<Rightarrow> extra d = ReducerBase v \<and> x1 = e_world st | None \<Rightarrow> exn (exn_views x1 v) = 0"
    using exception_lookup [OF t, of "e_world st" user] e by (auto simp: exception_entry_def exn_view_def)
  obtain t2 b where r: "remove_hyperobject t1 exception_reducer = Some (t2, b)" "table_view t2 = (table_view t1)(exception_reducer := None)"
    using remove_ok [OF l(2) valid_exception_key] by blast
  have p: "pending w st = (if exn (exn_views x1 v) \<noteq> 0 then Some (exn (exn_views x1 v)) else None)"
    using l(5) by (auto simp: pending_def exception_entry_def exn_view_def split: option.splits)
  have flag: "\<not> has_flag CILK_FRAME_EXCEPTION_PENDING (clear_flag CILK_FRAME_EXCEPTION_PENDING y)" for y
    by (simp add: frame_flag_simps flag_bits bit_and_iff bit_not_u32 flag_const_bits)
  show ?thesis using w l(1,3,4) r p flag
    by (simp add: check_exception_raise_def get_exception_reducer_def clear_exception_reducer_def internal_reducer_remove_def
        get_local_hyper_table_def exception_entry_def upd_esched_def exn_view_def Let_def)
qed

text \<open>C37: The check after a sync raises exactly the exception that the strand's view of the exception reducer
  holds, if any, and takes it out: afterwards there is no view and nothing pending, the frame's pending
  flag is clear, and the other reducers of the table are untouched.\<close>

theorem check_raises_pending_exception:
  assumes "get_worker_from_stack sf (e_sched st) = Some w"
    and "table_takes (Suc n) (get_local_hyper_table (hyper_ht (workers (e_sched st) w)))"
    and "\<forall>d. exception_entry w st = Some d \<longrightarrow> (\<exists>v. extra d = ReducerBase v \<and> throwing_fiber (exn_view v st) = None)"
  shows "\<exists>st'. check_exception_raise user sf st = Some (pending w st, st') \<and> exception_entry w st' = None \<and>
    (\<forall>k. k \<noteq> exception_reducer \<longrightarrow> table_view (get_local_hyper_table (hyper_ht (workers (e_sched st') w))) k =
       table_view (get_local_hyper_table (hyper_ht (workers (e_sched st) w))) k) \<and>
    \<not> has_flag CILK_FRAME_EXCEPTION_PENDING (frames (e_sched st') sf)"
  by (rule check_exception_raise_result [OF assms])

lemma throwing_table_ok: "small_ok throwing_table" "table_takes 1 throwing_table"
proof -
  show s: "small_ok throwing_table"
    using valid_exception_key by (simp add: small_ok_def throwing_table_def live_prefix_def)
  show "table_takes 1 throwing_table"
    using small_icap [OF s] s by (simp add: table_takes_def ht_ok_def keeps_room_def MIN_HT_CAPACITY_def throwing_table_def)
qed

lemma throwing_entry: "exception_entry 0 throwing_state = Some \<lparr>view = 64, extra = ReducerBase 64\<rparr>"
  using small_view [OF throwing_table_ok(1)] valid_exception_key
  by (simp add: exception_entry_def throwing_state_def get_local_hyper_table_def throwing_table_def live_prefix_def
      entries_def pairs_def)

theorem check_raises_pending_exception_witness:
  "\<forall>user. \<exists>st'. check_exception_raise user 7 throwing_state = Some (Some 129, st') \<and> exception_entry 0 st' = None"
proof
  fix user
  have t: "table_takes (Suc 0) (get_local_hyper_table (hyper_ht (workers (e_sched throwing_state) 0)))"
    using throwing_table_ok(2) by (simp add: throwing_state_def get_local_hyper_table_def)
  have "pending 0 throwing_state = Some 129"
    by (simp add: pending_def throwing_entry throwing_view no_exception_def)
  then show "\<exists>st'. check_exception_raise user 7 throwing_state = Some (Some 129, st') \<and> exception_entry 0 st' = None"
    using check_raises_pending_exception [OF throwing_worker t, of user 7] throwing_entry throwing_view
    by (auto simp: no_exception_def)
qed

end
