(* ===== verification/Pedigree_Properties.thy ===== *)
theory Pedigree_Properties
  imports Pedigrees
begin

text \<open>
  The runs of the pedigree extension and what they keep: the dot product of every live frame is a
  function of the seed and of the frame's pedigree alone, and two live frames never have the same
  pedigree.  Together they make \<open>__cilkrts_get_dprand\<close> independent of the schedule.
\<close>

section \<open>Runs\<close>

text \<open>A run holds the live frames and the memory.  A spawn is given the stack pointer of the fiber the
  child's frame is pushed on: it must be free.  A frame returns after its children.  The rank is a
  signed 64-bit integer in the source, its overflow is undefined: such an event is \<open>None\<close>.\<close>

datatype ped_event =
    PedSpawn u64 u64
  | PedSync u64
  | PedBump u64
  | PedReturn u64

definition rank_ok :: "u64 \<Rightarrow> ped_state \<Rightarrow> bool" where
  "rank_ok f s = (unat (frame_rank (ped_heap s f)) < 2 ^ 63 - 1)"

fun ped_step :: "ped_event \<Rightarrow> u64 list \<times> ped_state \<Rightarrow> (u64 list \<times> ped_state) option" where
  "ped_step (PedSpawn sp parent) (L, s) =
     (if parent \<in> set L \<and> push_pedigree_frame sp \<notin> set L \<and> push_pedigree_frame sp \<noteq> 0 \<and> rank_ok parent s
      then do { (_, child, _, s') \<leftarrow> extend_spawn sp parent s; Some (child # L, s') } else None)"
| "ped_step (PedSync f) (L, s) =
     (if f \<in> set L \<and> rank_ok f s then do { s' \<leftarrow> extend_sync f s; Some (L, s') } else None)"
| "ped_step (PedBump f) (L, s) =
     (if f \<in> set L \<and> rank_ok f s then do { (_, s') \<leftarrow> get_dprand f s; Some (L, s') } else None)"
| "ped_step (PedReturn f) (L, s) =
     (if f \<in> set L \<and> f \<noteq> last L \<and> (\<forall>g \<in> set L. ped_parent (ped_heap s g) \<noteq> f)
      then Some (removeAll f L, s) else None)"

fun ped_run :: "ped_event list \<Rightarrow> u64 list \<times> ped_state \<Rightarrow> (u64 list \<times> ped_state) option" where
  "ped_run [] st = Some st"
| "ped_run (e # es) st = do { st' \<leftarrow> ped_step e st; ped_run es st' }"

text \<open>The state after the library's constructor: the table of the seed, and the root frame.\<close>

definition ped_start :: "u64 \<Rightarrow> u64 \<Rightarrow> u64 list \<times> ped_state" where
  "ped_start root seed =
     ([root], snd (pedigree_init root (init_dprng
        \<lparr>ped_heap = (\<lambda>_. root_frame), dprng_m_array = None, dprng_m_X = 0, dprng_seed = seed\<rparr>)))"

section \<open>Pedigrees as lists\<close>

text \<open>The ranks a client reads by following \<open>__cilkrts_get_pedigree\<close> to the root, whose own node
  is left out.\<close>

fun ped_chain :: "nat \<Rightarrow> (u64 \<Rightarrow> pedigree_frame) \<Rightarrow> u64 \<Rightarrow> u64 list" where
  "ped_chain 0 h f = []"
| "ped_chain (Suc n) h f = ped_rank (h f) # ped_chain n h (ped_parent (h f))"

definition pedigree_ranks :: "(u64 \<Rightarrow> pedigree_frame) \<Rightarrow> u64 \<Rightarrow> u64 list" where
  "pedigree_ranks h f = frame_rank (h f) # ped_chain (unat (dprng_depth (h f))) h f"

text \<open>The dot product the library means to keep: level \<open>j\<close> contributes its rank times the \<open>j\<close>th
  multiplier, and once more for the spawn that opened it.\<close>

fun dot_of :: "u64 list \<Rightarrow> u64 list \<Rightarrow> nat" where
  "dot_of ms [] = 0"
| "dot_of ms (r # rs) =
     dot_of ms rs + (unat r + (if rs = [] then 0 else 1)) * unat (ms ! length rs)"

definition dot_value :: "u64 \<Rightarrow> u64 list \<Rightarrow> nat" where
  "dot_value seed rs =
     (unat (dprng_mix_mod_p (seed + 4096))
        + dot_of (map (\<lambda>i. dprng_mix_mod_p (seed + of_nat i)) [0..<4096]) rs) mod unat DPRNG_PRIME"

section \<open>The invariant\<close>

definition table_ok :: "u64 \<Rightarrow> ped_state \<Rightarrow> bool" where
  "table_ok seed s =
     (dprng_m_array s = Some (map (\<lambda>i. dprng_mix_mod_p (seed + of_nat i)) [0..<4096]))"

definition frame_ok :: "u64 \<Rightarrow> u64 \<Rightarrow> u64 list \<Rightarrow> (u64 \<Rightarrow> pedigree_frame) \<Rightarrow> u64 \<Rightarrow> bool" where
  "frame_ok root seed L h f =
     (f \<noteq> 0 \<and> unat (dprng_depth (h f)) < 4096 \<and> unat (frame_rank (h f)) < 2 ^ 63 \<and>
      dprng_dotproduct (h f) < DPRNG_PRIME \<and>
      unat (dprng_dotproduct (h f)) = dot_value seed (pedigree_ranks h f) \<and>
      (if f = root then dprng_depth (h f) = 0 \<and> ped_parent (h f) = 0
       else ped_parent (h f) \<in> set L \<and> ped_parent (h f) \<noteq> f \<and>
            unat (dprng_depth (h f)) = Suc (unat (dprng_depth (h (ped_parent (h f))))) \<and>
            unat (ped_rank (h f)) < unat (frame_rank (h (ped_parent (h f))))))"

definition ped_ok :: "u64 \<Rightarrow> u64 \<Rightarrow> u64 list \<times> ped_state \<Rightarrow> bool" where
  "ped_ok root seed st =
     (case st of (L, s) \<Rightarrow>
        L \<noteq> [] \<and> last L = root \<and> distinct L \<and> table_ok seed s \<and>
        (\<forall>f \<in> set L. frame_ok root seed L (ped_heap s) f) \<and>
        (\<forall>f \<in> set L. \<forall>g \<in> set L. f \<noteq> g \<longrightarrow> f \<noteq> root \<longrightarrow> g \<noteq> root \<longrightarrow>
            ped_parent (ped_heap s f) = ped_parent (ped_heap s g) \<longrightarrow>
            ped_rank (ped_heap s f) \<noteq> ped_rank (ped_heap s g)))"

lemma length_ped_chain [simp]: "length (ped_chain n h f) = n"
  by (induction n arbitrary: f) simp_all

lemma ped_chain_cong:
  assumes "\<And>f. f \<in> A \<Longrightarrow> ped_rank (h' f) = ped_rank (h f) \<and> ped_parent (h' f) = ped_parent (h f)"
    and "\<And>f. f \<in> A \<Longrightarrow> dprng_depth (h f) \<noteq> 0 \<Longrightarrow>
      ped_parent (h f) \<in> A \<and> unat (dprng_depth (h f)) = Suc (unat (dprng_depth (h (ped_parent (h f)))))"
    and "f \<in> A"
  shows "ped_chain (unat (dprng_depth (h f))) h' f = ped_chain (unat (dprng_depth (h f))) h f"
  using assms(3)
proof (induction "unat (dprng_depth (h f))" arbitrary: f)
  case 0
  then show ?case by simp
next
  case (Suc n)
  then have "dprng_depth (h f) \<noteq> 0" by auto
  note par = assms(2) [OF Suc.prems this]
  then have n: "n = unat (dprng_depth (h (ped_parent (h f))))" using Suc.hyps(2) by simp
  show ?case using Suc.hyps(1) [OF n] par assms(1) [OF Suc.prems] Suc.hyps(2) [symmetric] n by simp
qed

lemma dot_value_less: "dot_value seed rs < unat DPRNG_PRIME"
  by (simp add: dot_value_def unat_DPRNG_PRIME)

lemma multiplier_table:
  "table_ok seed s \<Longrightarrow> multiplier s d = (if unat d < 4096 then Some (dprng_mix_mod_p (seed + d)) else None)"
  by (simp add: multiplier_def table_ok_def)

text \<open>A step of the rank adds the multiplier of the level.\<close>

lemma dot_value_bump:
  assumes "length rs < 4096" "unat (r + 1) = Suc (unat r)" "a < DPRNG_PRIME" "unat a = dot_value seed (r # rs)"
  shows "unat (dprng_sum_mod_p a (dprng_mix_mod_p (seed + of_nat (length rs)))) = dot_value seed ((r + 1) # rs)"
  using assms by (simp add: unat_dprng_sum dprng_mix_mod_p_less dot_value_def unat_DPRNG_PRIME mod_simps algebra_simps)

text \<open>A spawn opens a level at rank 0.\<close>

lemma dot_value_spawn:
  assumes "length rs < 4096" "a < DPRNG_PRIME" "unat a = dot_value seed rs" "rs \<noteq> []"
  shows "unat (dprng_sum_mod_p a (dprng_mix_mod_p (seed + of_nat (length rs)))) = dot_value seed (0 # rs)"
  using assms by (simp add: unat_dprng_sum dprng_mix_mod_p_less dot_value_def unat_DPRNG_PRIME mod_simps algebra_simps)

section \<open>Preservation\<close>

definition bumped :: "u64 \<Rightarrow> pedigree_frame \<Rightarrow> pedigree_frame" where
  "bumped seed fr = fr\<lparr>frame_rank := frame_rank fr + 1,
     dprng_dotproduct := dprng_sum_mod_p (dprng_dotproduct fr) (dprng_mix_mod_p (seed + dprng_depth fr))\<rparr>"

lemma bumped_sel [simp]:
  "ped_rank (bumped seed fr) = ped_rank fr" "ped_parent (bumped seed fr) = ped_parent fr"
  "dprng_depth (bumped seed fr) = dprng_depth fr" "frame_rank (bumped seed fr) = frame_rank fr + 1"
  by (simp_all add: bumped_def)

lemma extend_sync_bumped:
  "table_ok seed s \<Longrightarrow> unat (dprng_depth (ped_heap s f)) < 4096 \<Longrightarrow>
    extend_sync f s = Some (s\<lparr>ped_heap := (ped_heap s)(f := bumped seed (ped_heap s f))\<rparr>)"
  by (cases "ped_heap s f")
    (simp add: extend_sync_def upd_ped_def table_ok_def Let_def bumped_def multiplier_def)

lemma bump_worker_rank_sync: "bump_worker_rank f s = extend_sync f s"
  by (simp add: bump_worker_rank_def extend_sync_def)

lemma rank_succ: "unat (r :: u64) < 2 ^ 63 - 1 \<Longrightarrow> unat (r + 1) = Suc (unat r)"
  by (simp add: unat_word_ariths)

lemma frame_ok_parent:
  "frame_ok root seed L h f \<Longrightarrow> dprng_depth (h f) \<noteq> 0 \<Longrightarrow> ped_parent (h f) \<in> set L \<and>
    unat (dprng_depth (h f)) = Suc (unat (dprng_depth (h (ped_parent (h f)))))"
  by (simp add: frame_ok_def split: if_splits)

lemma ped_ok_bump:
  assumes ok: "ped_ok root seed (L, s)" and f: "f \<in> set L" and r: "rank_ok f s"
  shows "ped_ok root seed (L, s\<lparr>ped_heap := (ped_heap s)(f := bumped seed (ped_heap s f))\<rparr>)"
proof -
  let ?h = "ped_heap s" and ?h' = "(ped_heap s)(f := bumped seed (ped_heap s f))"
  have fr: "frame_ok root seed L ?h g" if "g \<in> set L" for g
    using ok that by (simp add: ped_ok_def)
  have chain: "ped_chain (unat (dprng_depth (?h g))) ?h' g = ped_chain (unat (dprng_depth (?h g))) ?h g"
    if "g \<in> set L" for g
    by (rule ped_chain_cong [where A = "set L"]) (use that fr in \<open>auto dest: frame_ok_parent\<close>)
  have succ: "unat (frame_rank (?h f) + 1) = Suc (unat (frame_rank (?h f)))"
    using r by (intro rank_succ) (simp add: rank_ok_def)
  have "frame_ok root seed L ?h' g" if g: "g \<in> set L" for g
  proof (cases "g = f")
    case True
    note F = fr [OF f, unfolded frame_ok_def pedigree_ranks_def]
    have "unat (dprng_sum_mod_p (dprng_dotproduct (?h f)) (dprng_mix_mod_p (seed + dprng_depth (?h f))))
        = dot_value seed ((frame_rank (?h f) + 1) # ped_chain (unat (dprng_depth (?h f))) ?h f)"
      using dot_value_bump [of "ped_chain (unat (dprng_depth (?h f))) ?h f" "frame_rank (?h f)"
          "dprng_dotproduct (?h f)" seed] F succ by simp
    moreover have "unat (frame_rank (?h f)) < 2 ^ 63 - 1" using r by (simp add: rank_ok_def)
    ultimately show ?thesis using F True succ chain [OF f]
      by (auto simp: frame_ok_def pedigree_ranks_def bumped_def dprng_sum_mod_p_less dprng_mix_mod_p_less
          split: if_splits)
  next
    case False
    then show ?thesis using fr [OF g] chain [OF g] succ
      by (auto simp: frame_ok_def pedigree_ranks_def split: if_splits)
  qed
  then show ?thesis using ok by (auto simp: ped_ok_def table_ok_def)
qed

lemma ped_ok_add:
  assumes ok: "ped_ok root seed (L, s)" and p: "p \<in> set L" and c: "c \<notin> set L" "c \<noteq> 0"
    and new: "ped_parent fr = p" "frame_rank fr = 0" "dprng_dotproduct fr < DPRNG_PRIME"
      "unat (dprng_depth fr) = Suc (unat (dprng_depth (ped_heap s p)))" "unat (dprng_depth fr) < 4096"
      "unat (ped_rank fr) < unat (frame_rank (ped_heap s p))"
      "unat (dprng_dotproduct fr) =
         dot_value seed (0 # ped_rank fr # ped_chain (unat (dprng_depth (ped_heap s p))) (ped_heap s) p)"
    and uniq: "\<And>g. g \<in> set L \<Longrightarrow> g \<noteq> root \<Longrightarrow> ped_parent (ped_heap s g) = p \<Longrightarrow> ped_rank (ped_heap s g) \<noteq> ped_rank fr"
  shows "ped_ok root seed (c # L, s\<lparr>ped_heap := (ped_heap s)(c := fr)\<rparr>)"
proof -
  let ?h = "ped_heap s" and ?h' = "(ped_heap s)(c := fr)"
  have fr: "frame_ok root seed L ?h g" if "g \<in> set L" for g
    using ok that by (simp add: ped_ok_def)
  have root: "root \<in> set L" using ok by (auto simp: ped_ok_def)
  have chain: "ped_chain (unat (dprng_depth (?h g))) ?h' g = ped_chain (unat (dprng_depth (?h g))) ?h g"
    if "g \<in> set L" for g
    by (rule ped_chain_cong [where A = "set L"]) (use that fr c in \<open>auto dest: frame_ok_parent\<close>)
  have "frame_ok root seed (c # L) ?h' g" if g: "g \<in> set (c # L)" for g
  proof (cases "g = c")
    case True
    then show ?thesis using new c p root chain [OF p]
      by (auto simp: frame_ok_def pedigree_ranks_def)
  next
    case False
    then have gL: "g \<in> set L" using g by simp
    then show ?thesis using fr [OF gL] chain [OF gL] c False
      by (auto simp: frame_ok_def pedigree_ranks_def split: if_splits)
  qed
  moreover have "ped_rank (?h' f) \<noteq> ped_rank (?h' g)"
    if "f \<in> set (c # L)" "g \<in> set (c # L)" "f \<noteq> g" "f \<noteq> root" "g \<noteq> root" "ped_parent (?h' f) = ped_parent (?h' g)" for f g
  proof -
    have old: "ped_rank (?h f) \<noteq> ped_rank (?h g)"
      if "f \<in> set L" "g \<in> set L" "f \<noteq> g" "f \<noteq> root" "g \<noteq> root" "ped_parent (?h f) = ped_parent (?h g)" for f g
      using ok that unfolding ped_ok_def prod.case by blast
    note mem = that(1-3)
    consider "f = c" "g \<in> set L" | "g = c" "f \<in> set L" | "f \<in> set L" "g \<in> set L"
      using mem by auto
    then show ?thesis
    proof cases
      case 1
      then show ?thesis using that new(1) c uniq [of g] by auto
    next
      case 2
      then show ?thesis using that new(1) c uniq [of f] by auto
    next
      case 3
      then show ?thesis using that c old by auto
    qed
  qed
  ultimately show ?thesis using ok c unfolding ped_ok_def prod.case table_ok_def
    by (simp del: fun_upd_apply)
qed

text \<open>The frame of a spawned child.\<close>

definition child_frame :: "u64 \<Rightarrow> u64 \<Rightarrow> pedigree_frame \<Rightarrow> pedigree_frame" where
  "child_frame seed parent fr =
     \<lparr>ped_rank = frame_rank fr, ped_parent = parent, frame_rank = 0,
      dprng_dotproduct = dprng_sum_mod_p (dprng_dotproduct fr) (dprng_mix_mod_p (seed + (dprng_depth fr + 1))),
      dprng_depth = dprng_depth fr + 1\<rparr>"

lemma extend_spawn_frames:
  assumes "table_ok seed s" "push_pedigree_frame sp \<noteq> parent"
    and "unat (dprng_depth (ped_heap s parent)) < 4096"
    and "extend_spawn sp parent s = Some (p, c, sp', s')"
  shows "c = push_pedigree_frame sp \<and> unat (dprng_depth (ped_heap s parent)) < 4095 \<and>
    s' = s\<lparr>ped_heap := (ped_heap s)(parent := bumped seed (ped_heap s parent),
            c := child_frame seed parent (ped_heap s parent))\<rparr>"
proof -
  let ?h = "ped_heap s"
  have d: "unat (dprng_depth (?h parent) + 1) = Suc (unat (dprng_depth (?h parent)))"
    using assms(3) by (simp add: unat_word_ariths)
  have full: "fr\<lparr>ped_rank := a, ped_parent := b, frame_rank := c, dprng_depth := d, dprng_dotproduct := e\<rparr>
      = \<lparr>ped_rank = a, ped_parent = b, frame_rank = c, dprng_dotproduct = e, dprng_depth = d\<rparr>" for fr a b c d e
    by (cases fr) simp
  show ?thesis
    using assms d
    by (cases "?h parent")
      (auto simp: extend_spawn_def upd_ped_def multiplier_def table_ok_def Let_def bumped_def child_frame_def
         full fun_upd_twist add.commute split: bind_splits if_splits)
qed

lemma ped_ok_spawn:
  assumes ok: "ped_ok root seed (L, s)" and p: "p \<in> set L" and r: "rank_ok p s"
    and c: "c \<notin> set L" "c \<noteq> 0" and d: "unat (dprng_depth (ped_heap s p)) < 4095"
  shows "ped_ok root seed (c # L, s\<lparr>ped_heap := (ped_heap s)(p := bumped seed (ped_heap s p),
    c := child_frame seed p (ped_heap s p))\<rparr>)"
proof -
  let ?h = "ped_heap s"
  have fr: "frame_ok root seed L ?h g" if "g \<in> set L" for g
    using ok that by (simp add: ped_ok_def)
  note F = fr [OF p, unfolded frame_ok_def pedigree_ranks_def]
  let ?h1 = "?h(p := bumped seed (?h p))"
  have chain: "ped_chain (unat (dprng_depth (?h p))) ?h1 p = ped_chain (unat (dprng_depth (?h p))) ?h p"
    by (rule ped_chain_cong [where A = "set L"]) (use p fr in \<open>auto dest: frame_ok_parent\<close>)
  have succ: "unat (frame_rank (?h p) + 1) = Suc (unat (frame_rank (?h p)))"
    using r by (intro rank_succ) (simp add: rank_ok_def)
  have dsucc: "unat (dprng_depth (?h p) + 1) = Suc (unat (dprng_depth (?h p)))"
    using d by (simp add: unat_word_ariths)
  have dot: "unat (dprng_sum_mod_p (dprng_dotproduct (?h p)) (dprng_mix_mod_p (seed + (dprng_depth (?h p) + 1))))
      = dot_value seed (0 # frame_rank (?h p) # ped_chain (unat (dprng_depth (?h p))) ?h p)"
    using dot_value_spawn [of "frame_rank (?h p) # ped_chain (unat (dprng_depth (?h p))) ?h p"
        "dprng_dotproduct (?h p)" seed] F d by (simp add: add.commute)
  have less: "unat (ped_rank (?h g)) < unat (frame_rank (?h p))" if "g \<in> set L" "g \<noteq> root" "ped_parent (?h g) = p" for g
    using fr [OF that(1)] that by (simp add: frame_ok_def)
  have "ped_ok root seed (c # L, (s\<lparr>ped_heap := ?h1\<rparr>)\<lparr>ped_heap := (ped_heap (s\<lparr>ped_heap := ?h1\<rparr>))
      (c := child_frame seed p (?h p))\<rparr>)"
  proof (rule ped_ok_add [OF ped_ok_bump [OF ok p r] p c])
    show "dprng_dotproduct (child_frame seed p (?h p)) < DPRNG_PRIME"
      using F by (simp add: child_frame_def dprng_sum_mod_p_less dprng_mix_mod_p_less)
    show "unat (dprng_dotproduct (child_frame seed p (?h p))) = dot_value seed (0 # ped_rank (child_frame seed p (?h p)) #
        ped_chain (unat (dprng_depth (ped_heap (s\<lparr>ped_heap := ?h1\<rparr>) p))) (ped_heap (s\<lparr>ped_heap := ?h1\<rparr>)) p)"
      using dot chain by (simp add: child_frame_def)
  next
    fix g assume g: "g \<in> set L" "g \<noteq> root" "ped_parent (ped_heap (s\<lparr>ped_heap := ?h1\<rparr>) g) = p"
    then have "ped_parent (?h g) = p" by (simp split: if_splits)
    then show "ped_rank (ped_heap (s\<lparr>ped_heap := ?h1\<rparr>) g) \<noteq> ped_rank (child_frame seed p (?h p))"
      using less [OF g(1,2)] by (auto simp: child_frame_def)
  qed (use succ dsucc d in \<open>simp_all add: child_frame_def\<close>)
  then show ?thesis by simp
qed

lemma ped_ok_return:
  assumes ok: "ped_ok root seed (L, s)" and f: "f \<in> set L" "f \<noteq> last L"
    and leaf: "\<forall>g \<in> set L. ped_parent (ped_heap s g) \<noteq> f"
  shows "ped_ok root seed (removeAll f L, s)"
proof -
  have root: "root \<in> set (removeAll f L)" using ok f by (auto simp: ped_ok_def)
  then have ne: "removeAll f L \<noteq> []" by (metis empty_iff list.set(1))
  obtain L' where L': "L = L' @ [root]" using ok by (auto simp: ped_ok_def) (metis append_butlast_last_id)
  have "last (removeAll f L) = root" using L' f ok by (simp add: ped_ok_def)
  then show ?thesis using ok f leaf root ne
    by (auto simp: ped_ok_def frame_ok_def distinct_removeAll)
qed

lemma ped_ok_step: "ped_ok root seed st \<Longrightarrow> ped_step e st = Some st' \<Longrightarrow> ped_ok root seed st'"
proof -
  assume ok: "ped_ok root seed st" and step: "ped_step e st = Some st'"
  obtain L s where st: "st = (L, s)" by (cases st)
  have t: "table_ok seed s" using ok st by (simp add: ped_ok_def)
  have d: "unat (dprng_depth (ped_heap s f)) < 4096" if "f \<in> set L" for f
    using ok st that by (simp add: ped_ok_def frame_ok_def)
  show ?thesis
  proof (cases e)
    case (PedSpawn sp p)
    then have g: "p \<in> set L" "push_pedigree_frame sp \<notin> set L" "push_pedigree_frame sp \<noteq> 0" "rank_ok p s"
      and st1: "do { (_, child, _, s') \<leftarrow> extend_spawn sp p s; Some (child # L, s') } = Some st'"
      using step st by (simp_all split: if_splits)
    obtain q c sp' s' where sp: "extend_spawn sp p s = Some (q, c, sp', s')" and st': "st' = (c # L, s')"
      using st1 by (auto split: bind_splits)
    have "push_pedigree_frame sp \<noteq> p" using g by auto
    note fr = extend_spawn_frames [OF t this d [OF g(1)] sp]
    show ?thesis unfolding st' using fr ped_ok_spawn [OF ok [unfolded st] g(1,4,2,3)] by simp
  next
    case (PedSync f)
    then show ?thesis using step ok st
      by (auto simp: extend_sync_bumped [OF t d] split: if_splits intro: ped_ok_bump)
  next
    case (PedBump f)
    then show ?thesis using step ok st
      by (auto simp: get_dprand_def bump_worker_rank_sync extend_sync_bumped [OF t d] split: if_splits
          intro: ped_ok_bump)
  next
    case (PedReturn f)
    then show ?thesis using step ok st by (auto split: if_splits intro: ped_ok_return)
  qed
qed

lemma ped_ok_run: "ped_run es st = Some st' \<Longrightarrow> ped_ok root seed st \<Longrightarrow> ped_ok root seed st'"
  by (induction es arbitrary: st) (auto split: bind_splits dest: ped_ok_step)

lemma ped_ok_start: "root \<noteq> 0 \<Longrightarrow> ped_ok root seed (ped_start root seed)"
  using dprng_mix_mod_p_less [of "seed + 4096"]
  by (simp add: ped_ok_def ped_start_def pedigree_init_def init_dprng_def upd_ped_def table_ok_def frame_ok_def
      root_frame_def pedigree_ranks_def dot_value_def word_less_nat_alt)

section \<open>Consequences\<close>

text \<open>Live frames are told apart by their chain of spawn ranks.\<close>

lemma ped_chain_distinct:
  assumes ok: "ped_ok root seed (L, s)"
    and "f \<in> set L" "g \<in> set L" "dprng_depth (ped_heap s f) = dprng_depth (ped_heap s g)"
    and "ped_chain (unat (dprng_depth (ped_heap s f))) (ped_heap s) f = ped_chain (unat (dprng_depth (ped_heap s f))) (ped_heap s) g"
  shows "f = g"
  using assms(2-)
proof (induction "unat (dprng_depth (ped_heap s f))" arbitrary: f g)
  case 0
  then have "f = root" "g = root" using ok
    by (auto simp: ped_ok_def frame_ok_def unat_eq_0 split: if_splits)
  then show ?case by simp
next
  case (Suc n)
  let ?h = "ped_heap s"
  have fr: "frame_ok root seed L ?h x" if "x \<in> set L" for x using ok that by (simp add: ped_ok_def)
  have ne: "f \<noteq> root" "g \<noteq> root" "dprng_depth (?h f) \<noteq> 0" "dprng_depth (?h g) \<noteq> 0"
    using Suc.hyps(2) Suc.prems fr by (auto simp: frame_ok_def split: if_splits)
  note pf = frame_ok_parent [OF fr [OF Suc.prems(1)] ne(3)] and pg = frame_ok_parent [OF fr [OF Suc.prems(2)] ne(4)]
  have n: "n = unat (dprng_depth (?h (ped_parent (?h f))))" using Suc.hyps(2) pf by simp
  have "ped_parent (?h f) = ped_parent (?h g)"
    by (rule Suc.hyps(1) [OF n]) (use pf pg Suc.prems(3,4) Suc.hyps(2) [symmetric] n in \<open>auto simp flip: word_unat_eq_iff\<close>)
  moreover have "ped_rank (?h f) = ped_rank (?h g)" using Suc.prems(4) Suc.hyps(2) [symmetric] by simp
  ultimately show ?case using ok Suc.prems(1,2) ne by (auto simp: ped_ok_def)
qed

text \<open>C13: No two live pedigree frames of a run carry the same pedigree: whatever was spawned, synced,
  bumped and returned before, the list of ranks a client reads from a frame identifies it.\<close>

theorem pedigrees_unique:
  assumes "root \<noteq> 0" "ped_run es (ped_start root seed) = Some (L, s)" "f \<in> set L" "g \<in> set L"
    and "pedigree_ranks (ped_heap s) f = pedigree_ranks (ped_heap s) g"
  shows "f = g"
proof -
  have ok: "ped_ok root seed (L, s)" using ped_ok_run [OF assms(2) ped_ok_start [OF assms(1)]] .
  have "length (pedigree_ranks (ped_heap s) f) = length (pedigree_ranks (ped_heap s) g)" using assms(5) by simp
  then have d: "unat (dprng_depth (ped_heap s f)) = unat (dprng_depth (ped_heap s g))" by (simp add: pedigree_ranks_def)
  show ?thesis
    by (rule ped_chain_distinct [OF ok assms(3,4)])
      (use assms(5) d in \<open>simp_all add: pedigree_ranks_def word_unat_eq_iff\<close>)
qed

lemmas ped_eval = ped_start_def pedigree_init_def init_dprng_def upd_ped_def multiplier_def rank_ok_def
  root_frame_def extend_spawn_def extend_sync_def get_dprand_def bump_worker_rank_def
  push_pedigree_frame_def SIZEOF_PEDIGREE_FRAME_def

lemma pedigrees_unique_witness:
  "fst (the (ped_run [PedSpawn 1000 8, PedSpawn 2000 8] (ped_start 8 5))) = [1960, 960, 8] \<and>
   pedigree_ranks (ped_heap (snd (the (ped_run [PedSpawn 1000 8, PedSpawn 2000 8] (ped_start 8 5))))) 960
     \<noteq> pedigree_ranks (ped_heap (snd (the (ped_run [PedSpawn 1000 8, PedSpawn 2000 8] (ped_start 8 5))))) 1960"
proof -
  let ?r = "ped_run [PedSpawn 1000 8, PedSpawn 2000 8] (ped_start 8 5)"
  have L: "\<exists>s. ?r = Some ([1960, 960, 8], s)" by (simp add: ped_eval Let_def)
  then obtain s where s: "?r = Some ([1960, 960, 8], s)" by blast
  show ?thesis using pedigrees_unique [OF _ s, of 960 1960] unfolding s by auto
qed

text \<open>C21: The pseudo-random number a strand draws depends on the seed and on its pedigree alone: in any two
  runs with the same seed, however their spawns, syncs and returns were interleaved and wherever
  the frames were placed, two frames with the same pedigree draw the same number.\<close>

theorem dprand_deterministic:
  assumes "root \<noteq> 0" "ped_run es (ped_start root seed) = Some (L, s)" "f \<in> set L"
    and "root' \<noteq> 0" "ped_run es' (ped_start root' seed) = Some (L', s')" "f' \<in> set L'"
    and "pedigree_ranks (ped_heap s) f = pedigree_ranks (ped_heap s') f'"
  shows "map_option fst (get_dprand f s) = map_option fst (get_dprand f' s') \<and> get_dprand f s \<noteq> None"
proof -
  have ok: "ped_ok root seed (L, s)" using ped_ok_run [OF assms(2) ped_ok_start [OF assms(1)]] .
  have ok': "ped_ok root' seed (L', s')" using ped_ok_run [OF assms(5) ped_ok_start [OF assms(4)]] .
  have t: "table_ok seed s" "table_ok seed s'" using ok ok' by (simp_all add: ped_ok_def)
  have fr: "frame_ok root seed L (ped_heap s) f" "frame_ok root' seed L' (ped_heap s') f'"
    using ok ok' assms by (simp_all add: ped_ok_def)
  have "length (pedigree_ranks (ped_heap s) f) = length (pedigree_ranks (ped_heap s') f')" using assms(7) by simp
  then have d: "dprng_depth (ped_heap s f) = dprng_depth (ped_heap s' f')"
    by (simp add: pedigree_ranks_def word_unat_eq_iff)
  have "dprng_dotproduct (ped_heap s f) = dprng_dotproduct (ped_heap s' f')"
    using fr assms(7) by (simp add: frame_ok_def word_unat_eq_iff)
  then show ?thesis using fr d t
    by (simp add: get_dprand_def bump_worker_rank_sync extend_sync_bumped frame_ok_def bumped_def)
qed

lemma dprand_deterministic_witness:
  "\<exists>s s'. ped_run [PedSpawn 1000 8, PedSync 960] (ped_start 8 5) = Some ([960, 8], s) \<and>
     ped_run [PedSpawn 3000 8, PedSpawn 4000 8, PedSync 2960] (ped_start 8 5) = Some ([3960, 2960, 8], s') \<and>
     map_option fst (get_dprand 960 s) = map_option fst (get_dprand 2960 s')"
proof -
  let ?r = "ped_run [PedSpawn 1000 8, PedSync 960] (ped_start 8 5)"
    and ?r' = "ped_run [PedSpawn 3000 8, PedSpawn 4000 8, PedSync 2960] (ped_start 8 5)"
  have "\<exists>s. ?r = Some ([960, 8], s) \<and> pedigree_ranks (ped_heap s) 960 = [1, 0]"
    by (simp add: ped_eval pedigree_ranks_def Let_def)
  moreover have "\<exists>s. ?r' = Some ([3960, 2960, 8], s) \<and> pedigree_ranks (ped_heap s) 2960 = [1, 0]"
    by (simp add: ped_eval pedigree_ranks_def Let_def)
  ultimately obtain s s' where s: "?r = Some ([960, 8], s)" "?r' = Some ([3960, 2960, 8], s')"
    and p: "pedigree_ranks (ped_heap s) 960 = [1, 0]" "pedigree_ranks (ped_heap s') 2960 = [1, 0]" by blast
  then show ?thesis using dprand_deterministic [OF _ s(1) _ _ s(2), of 960 2960] by auto
qed

end
