(* ===== verification/Pinning.thy ===== *)
theory Pinning
  imports Worker_Coord
begin

text \<open>
  The assignment of processors to worker threads (\<open>move_bit\<close>, \<open>fill_worker_mask_and_get_next_cpu\<close> and
  \<open>init_threads_and_enter_scheduler\<close> of \<^verbatim>\<open>runtime/init.cpp\<close>).  A processor set is a set of processor numbers;
  the operating system's call that pins a thread is the list of pairs of worker and set it is made with.
\<close>

section \<open>Processor sets\<close>

type_synonym cpu_set = "nat set"

definition CPU_SETSIZE :: nat where
  "CPU_SETSIZE = 1024"

definition CPU_ISSET :: "nat \<Rightarrow> cpu_set \<Rightarrow> bool" where
  "CPU_ISSET cpu s \<longleftrightarrow> cpu < CPU_SETSIZE \<and> cpu \<in> s"

definition CPU_SET :: "nat \<Rightarrow> cpu_set \<Rightarrow> cpu_set" where
  "CPU_SET cpu s = (if cpu < CPU_SETSIZE then insert cpu s else s)"

definition CPU_CLR :: "nat \<Rightarrow> cpu_set \<Rightarrow> cpu_set" where
  "CPU_CLR cpu s = (if cpu < CPU_SETSIZE then s - {cpu} else s)"

definition move_bit :: "nat \<Rightarrow> cpu_set \<times> cpu_set \<Rightarrow> cpu_set \<times> cpu_set" where
  "move_bit cpu sets = (case sets of (to, from) \<Rightarrow>
     if CPU_ISSET cpu from then (CPU_SET cpu to, CPU_CLR cpu from) else (to, from))"

text \<open>\<open>while (!CPU_ISSET(cpu, unassigned_mask)) ++cpu\<close>; \<open>None\<close> if it never ends.\<close>

partial_function (option) next_cpu :: "nat \<Rightarrow> cpu_set \<Rightarrow> nat option" where
  [code]: "next_cpu cpu unassigned =
     (if CPU_ISSET cpu unassigned then Some cpu else next_cpu (Suc cpu) unassigned)"

definition fill_worker_mask_and_get_next_cpu ::
    "nat \<Rightarrow> cpu_set \<Rightarrow> nat \<Rightarrow> nat \<Rightarrow> nat \<Rightarrow> (cpu_set \<times> cpu_set \<times> nat) option" where
  "fill_worker_mask_and_get_next_cpu cpu_start unassigned group_size step_in step_out = do {
     cpu \<leftarrow> next_cpu cpu_start unassigned;
     let unassigned1 = CPU_CLR cpu unassigned;
     let worker_mask = CPU_SET cpu {};
     let (mask, unassigned2) =
       fold (\<lambda>off. move_bit (cpu + off * step_in)) [1..<group_size] (worker_mask, unassigned1);
     Some (mask, unassigned2, cpu + step_out)
   }"

section \<open>Pinning the workers\<close>

text \<open>The number of processors to spread over and the strategy: \<open>strategy\<close> is the default of the platform,
  \<open>affinity\<close> the process's processors if they can be read.\<close>

definition pin_settings :: "(string \<Rightarrow> string option) \<Rightarrow> nat \<Rightarrow> cpu_set option \<Rightarrow> nat \<times> nat" where
  "pin_settings getenv strategy affinity =
     (let available_cores = (case affinity of Some s \<Rightarrow> card s | None \<Rightarrow> 0);
          pin = env_get_int getenv ''CILK_PIN'' 0
      in if pin = 1 then (available_cores, 0)
         else if pin = 2 then (available_cores, 1)
         else if pin = 3 then (0, strategy)
         else (available_cores, strategy))"

text \<open>The loop over the workers that the first thread starts.\<close>

fun pin_loop :: "nat list \<Rightarrow> nat \<Rightarrow> nat \<Rightarrow> nat \<Rightarrow> nat \<Rightarrow> cpu_set \<Rightarrow> (nat \<times> cpu_set) list option" where
  "pin_loop [] group_size step_in step_out cpu unassigned = Some []"
| "pin_loop (w # ws) group_size step_in step_out cpu unassigned = do {
     (mask, unassigned', cpu') \<leftarrow> fill_worker_mask_and_get_next_cpu cpu unassigned group_size step_in step_out;
     pins \<leftarrow> pin_loop ws group_size step_in step_out cpu' unassigned';
     Some ((w, mask) # pins)
   }"

definition pin_threads ::
    "(string \<Rightarrow> string option) \<Rightarrow> nat \<Rightarrow> cpu_set option \<Rightarrow> nat \<Rightarrow> (nat \<times> cpu_set) list option" where
  "pin_threads getenv strategy affinity n_threads = do {
     cilk_assert (n_threads > 0);
     let (available_cores, pin_strategy) = pin_settings getenv strategy affinity;
     if n_threads > available_cores then Some []
     else do {
       let group_size = available_cores div n_threads;
       let (step_in, step_out) = (if pin_strategy \<noteq> 0 then (1, group_size) else (n_threads, 1));
       let process_mask = the affinity;
       (my_mask, unassigned, cpu) \<leftarrow> fill_worker_mask_and_get_next_cpu 0 process_mask group_size step_in step_out;
       pins \<leftarrow> pin_loop [2..<n_threads] group_size step_in step_out cpu unassigned;
       Some (pins @ [(1, my_mask)])
     }
   }"

section \<open>One group\<close>

lemma next_cpu_least:
  assumes "\<forall>c \<in> s. start \<le> c" "s \<noteq> {}" "s \<subseteq> {..<CPU_SETSIZE}"
  shows "next_cpu start s = Some (Min s)"
proof -
  have fin: "finite s" using assms(3) finite_subset by blast
  then have min: "Min s \<in> s" using assms(2) by (rule Min_in)
  have "next_cpu k s = Some (Min s)" if "k \<le> Min s" for k
    using that
  proof (induction "Min s - k" arbitrary: k)
    case 0
    then show ?case using min assms(3) by (subst next_cpu.simps) (auto simp: CPU_ISSET_def)
  next
    case (Suc n)
    then have "k \<notin> s" using fin by (metis Min_le Suc_neq_Zero diff_is_0_eq)
    then show ?case using Suc.hyps(1) [of "Suc k"] Suc.hyps(2)
      by (subst next_cpu.simps) (simp add: CPU_ISSET_def)
  qed
  then show ?thesis using assms(1) min by blast
qed

lemma fold_move_bit:
  assumes "from \<subseteq> {..<CPU_SETSIZE}"
  shows "fold (\<lambda>off. move_bit (c + off * step)) offs (to, from)
    = (to \<union> (from \<inter> (\<lambda>off. c + off * step) ` set offs), from - (\<lambda>off. c + off * step) ` set offs)"
  using assms
proof (induction offs arbitrary: to "from")
  case (Cons x offs)
  have "from - {c + x * step} \<subseteq> {..<CPU_SETSIZE}" using Cons.prems by blast
  then show ?case using Cons
    by (cases "c + x * step \<in> from") (auto simp: move_bit_def CPU_ISSET_def CPU_SET_def CPU_CLR_def)
qed simp

lemma fill_group:
  assumes start: "\<forall>c \<in> u. start \<le> c" and ne: "u \<noteq> {}" and u: "u \<subseteq> {..<CPU_SETSIZE}" and g: "0 < group_size"
    and steps: "step_out = 1 \<or> step_in = 1 \<and> step_out = group_size"
  shows "\<exists>mask u' cpu'. fill_worker_mask_and_get_next_cpu start u group_size step_in step_out = Some (mask, u', cpu') \<and>
    mask \<noteq> {} \<and> mask \<subseteq> u \<and> u' = u - mask \<and> card mask \<le> group_size \<and> (\<forall>c \<in> u'. cpu' \<le> c)"
proof -
  let ?c = "Min u"
  have fin: "finite u" using u finite_subset by blast
  then have c: "?c \<in> u" "\<And>x. x \<in> u \<Longrightarrow> ?c \<le> x" using ne by auto
  let ?I = "(\<lambda>off. ?c + off * step_in) ` {1..<group_size}"
  have lt: "?c < CPU_SETSIZE" using c(1) u by auto
  have sub: "u - {?c} \<subseteq> {..<CPU_SETSIZE}" using u by blast
  have run: "fill_worker_mask_and_get_next_cpu start u group_size step_in step_out =
      Some ({?c} \<union> ((u - {?c}) \<inter> ?I), (u - {?c}) - ?I, ?c + step_out)"
    using lt fold_move_bit [OF sub, of ?c step_in "[1..<group_size]" "{?c}"]
    by (simp add: fill_worker_mask_and_get_next_cpu_def next_cpu_least [OF start ne u] CPU_SET_def CPU_CLR_def Let_def)
  have "card ({?c} \<union> ((u - {?c}) \<inter> ?I)) \<le> card (insert ?c ?I)"
    by (rule card_mono) auto
  also have "\<dots> \<le> Suc (card ?I)" by (simp add: card_insert_if)
  also have "\<dots> \<le> group_size" using card_image_le [of "{1..<group_size}" "\<lambda>off. ?c + off * step_in"] g by simp
  finally have card: "card ({?c} \<union> ((u - {?c}) \<inter> ?I)) \<le> group_size" .
  have "?c + step_out \<le> x" if x: "x \<in> (u - {?c}) - ?I" for x
  proof -
    have "?c < x" using c(2) x by (metis DiffD1 DiffD2 le_neq_implies_less singletonI)
    moreover have "?c + group_size \<le> x" if "step_in = 1"
    proof (rule ccontr)
      assume "\<not> ?c + group_size \<le> x"
      then have "x = ?c + (x - ?c) * step_in \<and> x - ?c \<in> {1..<group_size}" using that \<open>?c < x\<close> by auto
      then have "x \<in> ?I" by blast
      with x show False by blast
    qed
    ultimately show ?thesis using steps by auto
  qed
  then show ?thesis using run c(1) card by blast
qed

section \<open>Every worker\<close>

text \<open>Each worker takes at most \<open>group_size\<close> processors, so the next one finds some left above its start.\<close>

lemma pin_loop_disjoint:
  assumes "\<forall>c \<in> u. cpu \<le> c" "u \<subseteq> {..<CPU_SETSIZE}" "group_size * length ws \<le> card u" "0 < group_size"
    and "step_out = 1 \<or> step_in = 1 \<and> step_out = group_size"
  shows "\<exists>pins. pin_loop ws group_size step_in step_out cpu u = Some pins \<and> map fst pins = ws \<and>
    (\<forall>(w, mask) \<in> set pins. mask \<noteq> {} \<and> mask \<subseteq> u \<and> card mask \<le> group_size) \<and>
    (\<forall>i < length pins. \<forall>j < i. snd (pins ! i) \<inter> snd (pins ! j) = {})"
  using assms(1-3)
proof (induction ws arbitrary: u cpu)
  case (Cons w ws)
  have fin: "finite u" using Cons.prems(2) finite_subset by blast
  have "0 < card u" using Cons.prems(3) assms(4) by (simp add: less_le_trans)
  then have "u \<noteq> {}" by auto
  then obtain mask u' cpu' where f: "fill_worker_mask_and_get_next_cpu cpu u group_size step_in step_out = Some (mask, u', cpu')"
    and m: "mask \<noteq> {}" "mask \<subseteq> u" "u' = u - mask" "card mask \<le> group_size" "\<forall>c \<in> u'. cpu' \<le> c"
    using fill_group [OF Cons.prems(1) _ Cons.prems(2) assms(4,5)] by blast
  have "card u' = card u - card mask" using m fin by (metis card_Diff_subset finite_subset)
  then have "group_size * length ws \<le> card u'" using Cons.prems(3) m(4) by (simp add: algebra_simps)
  moreover have "u' \<subseteq> {..<CPU_SETSIZE}" using m(3) Cons.prems(2) by blast
  ultimately obtain pins where p: "pin_loop ws group_size step_in step_out cpu' u' = Some pins" "map fst pins = ws"
    "\<forall>(w, mask) \<in> set pins. mask \<noteq> {} \<and> mask \<subseteq> u' \<and> card mask \<le> group_size"
    "\<forall>i < length pins. \<forall>j < i. snd (pins ! i) \<inter> snd (pins ! j) = {}"
    using Cons.IH [of u' cpu'] m(5) by blast
  have "snd (((w, mask) # pins) ! i) \<inter> snd (((w, mask) # pins) ! j) = {}" if ij: "i < Suc (length pins)" "j < i" for i j
  proof (cases j)
    case 0
    then have "pins ! (i - 1) \<in> set pins" using ij by simp
    then have "snd (pins ! (i - 1)) \<subseteq> u'" using p(3) by (auto simp: case_prod_beta dest: bspec)
    then show ?thesis using 0 ij m(3) by (cases i) auto
  next
    case (Suc k)
    then show ?thesis using p(4) ij by (cases i) auto
  qed
  moreover have "\<forall>(w', mask') \<in> set pins. mask' \<subseteq> u" using p(3) m(3) by auto
  ultimately show ?case using f p m by (auto simp: case_prod_beta)
qed simp

text \<open>With as many workers as processors or fewer, every worker thread but the boss is pinned to its own
  group of processors of the process: the groups are not empty, do not overlap, and have at most
  cores / workers members, for either strategy; the search for the next free processor ends.  With more
  workers than processors, or with CILK_PIN=3, no thread is pinned.\<close>

theorem workers_pinned_apart:
  assumes "1 < n_threads" "process_mask \<subseteq> {..<CPU_SETSIZE}"
  shows "\<exists>pins. pin_threads getenv strategy (Some process_mask) n_threads = Some pins \<and>
    (if env_get_int getenv ''CILK_PIN'' 0 \<noteq> 3 \<and> n_threads \<le> card process_mask
     then map fst pins = [2..<n_threads] @ [1] else pins = []) \<and>
    (\<forall>(w, mask) \<in> set pins. mask \<noteq> {} \<and> mask \<subseteq> process_mask \<and> card mask \<le> card process_mask div n_threads) \<and>
    (\<forall>i < length pins. \<forall>j < i. snd (pins ! i) \<inter> snd (pins ! j) = {})"
proof -
  obtain av st where set: "pin_settings getenv strategy (Some process_mask) = (av, st)" by fastforce
  have av: "av = (if env_get_int getenv ''CILK_PIN'' 0 = 3 then 0 else card process_mask)"
    using set by (auto simp: pin_settings_def Let_def split: if_splits)
  show ?thesis
  proof (cases "n_threads > av")
    case True
    then show ?thesis using assms(1) set av by (auto simp: pin_threads_def)
  next
    case False
    then have n: "n_threads \<le> card process_mask" "env_get_int getenv ''CILK_PIN'' 0 \<noteq> 3" "av = card process_mask"
      using av assms(1) by (auto split: if_splits)
    let ?g = "card process_mask div n_threads"
    define si so where "si = (if st \<noteq> 0 then 1 else n_threads)" and "so = (if st \<noteq> 0 then ?g else 1)"
    have g: "0 < ?g" using n assms(1) by (simp add: div_greater_zero_iff)
    have steps: "so = 1 \<or> si = 1 \<and> so = ?g" by (simp add: si_def so_def)
    have gn: "?g * n_threads \<le> card process_mask" by (rule div_times_less_eq_dividend)
    have ne: "process_mask \<noteq> {}" using n assms(1) by auto
    have fin: "finite process_mask" using assms(2) finite_subset by blast
    obtain mask u cpu where f: "fill_worker_mask_and_get_next_cpu 0 process_mask ?g si so = Some (mask, u, cpu)"
      and m: "mask \<noteq> {}" "mask \<subseteq> process_mask" "u = process_mask - mask" "card mask \<le> ?g" "\<forall>c \<in> u. cpu \<le> c"
      using fill_group [OF _ ne assms(2) g steps, of 0] by auto
    have "card u = card process_mask - card mask" using m fin by (metis card_Diff_subset finite_subset)
    moreover have "?g * (n_threads - 2) + ?g \<le> ?g * n_threads"
      using assms(1) by (simp add: diff_mult_distrib2)
    ultimately have "?g * length [2..<n_threads] \<le> card u" using gn m(4) by (simp only: length_upt)
    moreover have "u \<subseteq> {..<CPU_SETSIZE}" using m(3) assms(2) by blast
    ultimately obtain pins where p: "pin_loop [2..<n_threads] ?g si so cpu u = Some pins" "map fst pins = [2..<n_threads]"
      "\<forall>(w, mask) \<in> set pins. mask \<noteq> {} \<and> mask \<subseteq> u \<and> card mask \<le> ?g"
      "\<forall>i < length pins. \<forall>j < i. snd (pins ! i) \<inter> snd (pins ! j) = {}"
      using pin_loop_disjoint [OF m(5) _ _ g steps] by blast
    have run: "pin_threads getenv strategy (Some process_mask) n_threads = Some (pins @ [(1, mask)])"
      using assms(1) False f p(1) n(3) set
      by (cases "st = 0") (simp_all add: pin_threads_def Let_def si_def so_def)
    have "snd ((pins @ [(1, mask)]) ! i) \<inter> snd ((pins @ [(1, mask)]) ! j) = {}" if "i < Suc (length pins)" "j < i" for i j
    proof (cases "i < length pins")
      case True
      then show ?thesis using that p(4) by (simp add: nth_append)
    next
      case False
      then have "i = length pins" using that by simp
      moreover have "pins ! j \<in> set pins" using that False by simp
      then have "snd (pins ! j) \<subseteq> u" using p(3) by (auto simp: case_prod_beta dest: bspec)
      ultimately show ?thesis using that m(3) by (auto simp: nth_append)
    qed
    moreover have "\<forall>(w, mask) \<in> set pins. mask \<subseteq> process_mask" using p(3) m(3) by auto
    ultimately show ?thesis using run p n m by (auto simp: case_prod_beta)
  qed
qed

theorem workers_pinned_apart_witness:
  "\<exists>pins. pin_threads (\<lambda>_. None) 0 (Some {0, 1, 2, 5, 6, 7, 9}) 3 = Some pins \<and> map fst pins = [2, 1] \<and>
     snd (pins ! 1) \<inter> snd (pins ! 0) = {}"
proof -
  have "{0, 1, 2, 5, 6, 7, 9} \<subseteq> {..<CPU_SETSIZE}" by (simp add: CPU_SETSIZE_def)
  from workers_pinned_apart [OF _ this, of 3 "\<lambda>_. None" 0] obtain pins where
    "pin_threads (\<lambda>_. None) 0 (Some {0, 1, 2, 5, 6, 7, 9}) 3 = Some pins" "map fst pins = [2, 1]"
    "\<forall>i < length pins. \<forall>j < i. snd (pins ! i) \<inter> snd (pins ! j) = {}"
    by (auto simp: env_get_int_def upt_rec)
  moreover from this(2) have "length pins = 2" by (metis length_map length_Cons list.size(3) One_nat_def Suc_1)
  ultimately show ?thesis by auto
qed

end
