(* ===== verification/Fiber_Stacks.thy ===== *)
theory Fiber_Stacks
  imports Frames
begin

text \<open>
  The memory of a fiber (\<^verbatim>\<open>runtime/fiber.cpp\<close>): the stack that \<open>make_stack\<close> maps, with a guard page at
  its low end and the header at its high end, and its release; and the calls that tell the address
  sanitizer of a switch between fibers.  \<open>mmap\<close> and \<open>munmap\<close> are the system's: the address of a mapping is
  an argument, the pair of address and length that is unmapped is the result.
\<close>

section \<open>Stacks\<close>

definition MIN_NUM_PAGES_PER_STACK :: u64 where
  "MIN_NUM_PAGES_PER_STACK = 4"

definition MAX_NUM_PAGES_PER_STACK :: u64 where
  "MAX_NUM_PAGES_PER_STACK = 2000"

definition stack_pages :: "nat \<Rightarrow> u64 \<Rightarrow> u64" where
  "stack_pages page_shift stack_size =
     (let n = drop_bit page_shift (stack_size + push_bit page_shift 1 - 1)
      in if n < MIN_NUM_PAGES_PER_STACK then MIN_NUM_PAGES_PER_STACK
         else if n > MAX_NUM_PAGES_PER_STACK then MAX_NUM_PAGES_PER_STACK else n)"

text \<open>The failure of \<open>mmap\<close>, all ones, is fatal.  The other fields of the header keep what the memory holds.\<close>

definition MAP_FAILED :: u64 where
  "MAP_FAILED = - 1"

definition make_stack :: "nat \<Rightarrow> (u64 \<Rightarrow> u64) \<Rightarrow> u64 \<Rightarrow> cilk_fiber \<Rightarrow> cilk_fiber option" where
  "make_stack page_shift mmap stack_size mem = do {
     let page_size = (push_bit page_shift 1 :: u64);
     let pages = stack_pages page_shift stack_size;
     let low = mmap (pages * page_size);
     cilk_assert (low \<noteq> MAP_FAILED);
     let alloc_high = low + pages * page_size;
     let stack_high = alloc_high - SIZEOF_FIBER;
     Some (mem\<lparr>header := stack_high, alloc_low := low, stack_low := low + page_size\<rparr>)
   }"

definition free_stack :: "cilk_fiber \<Rightarrow> u64 \<times> u64" where
  "free_stack f = (alloc_low f, get_fiber_end f - get_fiber_start f)"

definition cilk_fiber_map :: "nat \<Rightarrow> (u64 \<Rightarrow> u64) \<Rightarrow> u64 \<Rightarrow> cilk_fiber \<Rightarrow> cilk_fiber option" where
  "cilk_fiber_map page_shift mmap stacksize mem =
     map_option fiber_clear (make_stack page_shift mmap stacksize mem)"

text \<open>\<open>addr\<close> is the address of the current frame, 0 for none.\<close>

definition cilk_fiber_unmap :: "u64 \<Rightarrow> cilk_fiber \<Rightarrow> (u64 \<times> u64) option" where
  "cilk_fiber_unmap addr f = do {
     cilk_assert (\<not> in_fiber f addr);
     Some (free_stack f)
   }"

definition cilk_fiber_unmap_global :: "cilk_fiber \<Rightarrow> u64 \<times> u64" where
  "cilk_fiber_unmap_global f = free_stack f"

section \<open>The address sanitizer\<close>

text \<open>Fake stacks are opaque values.  A save goes to the thread's variable, to the field of a fiber, or to
  whatever address a value names.\<close>

datatype save_slot = Thread_slot | Fiber_slot nat | At_address u64

datatype asan_call =
    Start_switch save_slot u64 u64
  | Finish_switch u64 bool
  | Poison_region u64 u64
  | Unpoison_region u64 u64

record asan_thread =
  thread_fake_stack :: u64
  fiber_fake_stack :: "nat \<Rightarrow> u64"
  old_thread_stack :: u64
  old_thread_stacksize :: u64
  current_fiber :: "nat option"
  on_fiber :: bool
  calls :: "asan_call list"

definition asan_call :: "asan_call \<Rightarrow> asan_thread \<Rightarrow> asan_thread" where
  "asan_call c t = t\<lparr>calls := calls t @ [c]\<rparr>"

definition sanitizer_start_switch_fiber ::
    "bool \<Rightarrow> (nat \<Rightarrow> cilk_fiber) \<Rightarrow> nat option \<Rightarrow> asan_thread \<Rightarrow> asan_thread option" where
  "sanitizer_start_switch_fiber have_fn fib fiber t =
     (if \<not> have_fn then Some t
      else case fiber of
        Some f \<Rightarrow>
          let low = stack_low (fib f); sz = get_stack_start (fib f) - stack_low (fib f)
          in if \<not> on_fiber t then Some ((asan_call (Start_switch Thread_slot low sz) t)\<lparr>current_fiber := Some f\<rparr>)
             else do {
               c \<leftarrow> current_fiber t;
               Some ((asan_call (Start_switch (At_address (fiber_fake_stack t c)) low sz) t)\<lparr>current_fiber := Some f\<rparr>)
             }
      | None \<Rightarrow>
          Some (case current_fiber t of
            Some c \<Rightarrow> (asan_call (Start_switch (Fiber_slot c) (old_thread_stack t) (old_thread_stacksize t)) t)
                        \<lparr>current_fiber := None\<rparr>
          | None \<Rightarrow> asan_call (Start_switch Thread_slot (old_thread_stack t) (old_thread_stacksize t)) t))"

text \<open>\<open>old\<close> is the stack the sanitizer reports for the thread.\<close>

definition sanitizer_finish_switch_fiber :: "bool \<Rightarrow> u64 \<times> u64 \<Rightarrow> asan_thread \<Rightarrow> asan_thread" where
  "sanitizer_finish_switch_fiber have_fn old t =
     (if \<not> have_fn then t
      else case current_fiber t of
        Some c \<Rightarrow>
          if \<not> on_fiber t
          then (asan_call (Finish_switch (fiber_fake_stack t c) True) t)
                 \<lparr>old_thread_stack := fst old, old_thread_stacksize := snd old, on_fiber := True\<rparr>
          else asan_call (Finish_switch (fiber_fake_stack t c) False) t
      | None \<Rightarrow> (asan_call (Finish_switch (thread_fake_stack t) False) t)\<lparr>on_fiber := False\<rparr>)"

definition sanitizer_unpoison_fiber :: "bool \<Rightarrow> cilk_fiber \<Rightarrow> asan_thread \<Rightarrow> asan_thread" where
  "sanitizer_unpoison_fiber have_fn f t =
     (if have_fn then asan_call (Unpoison_region (stack_low f) (get_stack_start f - stack_low f)) t else t)"

definition sanitizer_poison_fiber :: "bool \<Rightarrow> cilk_fiber \<Rightarrow> asan_thread \<Rightarrow> asan_thread" where
  "sanitizer_poison_fiber have_fn f t =
     (if have_fn then asan_call (Poison_region (stack_low f) (get_stack_start f - stack_low f)) t else t)"

section \<open>Layout\<close>

lemma page_power: "page_shift \<le> 20 \<Longrightarrow> (2 :: nat) ^ page_shift \<le> 2 ^ 20"
  by (rule power_increasing) simp_all

lemma page_size_unat: "page_shift \<le> 20 \<Longrightarrow> unat (push_bit page_shift 1 :: u64) = 2 ^ page_shift"
  by (frule page_power) (simp add: unsigned_push_bit_eq push_bit_nat_def take_bit_nat_eq_self_iff del: push_bit_of_1)

lemma stack_pages_range: "4 \<le> unat (stack_pages s n)" "unat (stack_pages s n) \<le> 2000"
proof -
  have "MIN_NUM_PAGES_PER_STACK \<le> stack_pages s n" "stack_pages s n \<le> MAX_NUM_PAGES_PER_STACK"
    by (auto simp: stack_pages_def Let_def MIN_NUM_PAGES_PER_STACK_def MAX_NUM_PAGES_PER_STACK_def)
  then show "4 \<le> unat (stack_pages s n)" "unat (stack_pages s n) \<le> 2000"
    by (simp_all add: word_le_nat_alt MIN_NUM_PAGES_PER_STACK_def MAX_NUM_PAGES_PER_STACK_def)
qed

text \<open>Up to the cap, the pages cover the size asked for.\<close>

lemma stack_pages_cover:
  assumes "page_shift \<le> 20" "unat n \<le> 2000 * 2 ^ page_shift"
  shows "unat n \<le> unat (stack_pages page_shift n) * 2 ^ page_shift"
proof -
  let ?p = "2 ^ page_shift :: nat"
  let ?u = "drop_bit page_shift (n + push_bit page_shift 1 - 1)"
  have p: "?p \<le> 2 ^ 20" "0 < ?p" using page_power [OF assms(1)] by simp_all
  have "unat (n + (push_bit page_shift 1 - 1)) = unat n + (?p - 1)"
  proof -
    have "unat (push_bit page_shift 1 - 1 :: u64) = ?p - 1"
      using p by (subst unat_sub)
        (simp_all add: word_le_nat_alt page_size_unat [OF assms(1)] del: push_bit_of_1)
    then show ?thesis using assms(2) p by (subst unat_add_lem [THEN iffD1]) simp_all
  qed
  then have u: "unat ?u = (unat n + (?p - 1)) div ?p"
    by (simp add: unat_drop_bit_eq drop_bit_nat_def add_diff_eq)
  have cover: "unat n \<le> unat ?u * ?p"
  proof -
    have "unat n + (?p - 1) < ((unat n + (?p - 1)) div ?p + 1) * ?p"
      using p(2) dividend_less_div_times [of ?p "unat n + (?p - 1)"] by simp
    then show ?thesis unfolding u by simp
  qed
  have cap: "unat ?u \<le> 2000"
  proof -
    have "unat n + (?p - 1) < 2001 * ?p" using assms(2) p(2) by linarith
    then show ?thesis unfolding u using less_mult_imp_div_less [of _ 2001 ?p] by force
  qed
  show ?thesis
  proof (cases "?u < MIN_NUM_PAGES_PER_STACK")
    case True
    with cover show ?thesis
      by (simp add: stack_pages_def Let_def word_less_nat_alt MIN_NUM_PAGES_PER_STACK_def)
        (meson le_trans mult_le_mono1 less_imp_le_nat)
  next
    case False
    with cover cap show ?thesis
      by (simp add: stack_pages_def Let_def word_less_nat_alt MIN_NUM_PAGES_PER_STACK_def
          MAX_NUM_PAGES_PER_STACK_def)
  qed
qed

lemma stack_bytes_unat:
  assumes "page_shift \<le> 20"
  shows "unat (stack_pages page_shift n * push_bit page_shift 1)
    = unat (stack_pages page_shift n) * 2 ^ page_shift" (is "unat ?b = ?r")
proof -
  have "?r \<le> 2000 * 2 ^ 20"
    using stack_pages_range(2) page_power [OF assms] by (rule mult_le_mono)
  then show ?thesis
    by (subst unat_mult_lem [THEN iffD1])
      (simp_all add: page_size_unat [OF assms] del: push_bit_of_1)
qed

lemma make_stack_layout:
  fixes low :: u64 and mmap :: "u64 \<Rightarrow> u64" and page_shift :: nat and sz :: u64 and mem :: cilk_fiber
  defines "low \<equiv> mmap (stack_pages page_shift sz * push_bit page_shift 1)"
  assumes ps: "12 \<le> page_shift" "page_shift \<le> 20"
    and fits: "unat low + unat (stack_pages page_shift sz) * 2 ^ page_shift < 2 ^ 64"
  shows "\<exists>f. make_stack page_shift mmap sz mem = Some f
    \<and> alloc_low f = low
    \<and> unat (stack_low f) = unat low + 2 ^ page_shift
    \<and> unat (header f) + unat SIZEOF_FIBER = unat low + unat (stack_pages page_shift sz) * 2 ^ page_shift
    \<and> stack_low f < header f
    \<and> get_fiber_end f - get_fiber_start f = stack_pages page_shift sz * push_bit page_shift 1"
proof -
  let ?p = "2 ^ page_shift :: nat"
  let ?len = "stack_pages page_shift sz * push_bit page_shift 1 :: u64"
  let ?f = "mem\<lparr>header := low + ?len - SIZEOF_FIBER, alloc_low := low, stack_low := low + push_bit page_shift 1\<rparr>"
  define m where "m = unat (stack_pages page_shift sz) * ?p"
  have len: "unat ?len = m" unfolding m_def by (rule stack_bytes_unat [OF ps(2)])
  have p: "2 ^ 12 \<le> ?p" using ps(1) by (rule power_increasing) simp
  have big: "4 * ?p \<le> m" unfolding m_def using stack_pages_range(1) by (rule mult_le_mono1)
  have fits: "unat low + m < 2 ^ 64" using fits by (simp add: m_def)
  have end_: "unat (low + ?len) = unat low + m"
    using fits len by (subst unat_add_lem [THEN iffD1]) simp_all
  have hd: "unat (low + ?len - SIZEOF_FIBER) + unat SIZEOF_FIBER = unat low + m"
    using end_ p big by (subst unat_sub) (simp_all add: word_le_nat_alt SIZEOF_FIBER_def)
  have sl: "unat (low + push_bit page_shift 1) = unat low + ?p"
    using fits big p by (subst unat_add_lem [THEN iffD1]) (simp_all add: page_size_unat [OF ps(2)] del: push_bit_of_1)
  have lt: "low + push_bit page_shift 1 < low + ?len - SIZEOF_FIBER"
    using hd sl big p unfolding word_less_nat_alt by (simp add: SIZEOF_FIBER_def)
  have "low \<noteq> MAP_FAILED"
  proof
    assume "low = MAP_FAILED"
    then have "unat low = 2 ^ 64 - 1" by (simp add: MAP_FAILED_def unsigned_minus_1_eq_mask mask_eq_exp_minus_1)
    with fits big p show False by simp
  qed
  then have "make_stack page_shift mmap sz mem = Some ?f"
    by (simp add: make_stack_def Let_def low_def cilk_assert_def)
  then show ?thesis
    using hd sl lt unfolding m_def by (auto simp: get_fiber_end_def get_fiber_start_def)
qed

section \<open>Properties\<close>

text \<open>
  C36: allocating a fiber maps between 4 and 2000 pages, at least the size asked for when that is no more than
  2000 pages.  The lowest page is left as a guard, the header occupies the last 128 bytes, the stack lies
  strictly between them, the fiber starts with no worker and no frame, and releasing the fiber unmaps
  exactly the address and the length that were mapped.
\<close>

theorem stack_map_unmap:
  fixes page_shift :: nat and mmap :: "u64 \<Rightarrow> u64" and sz :: u64 and mem :: cilk_fiber
  assumes "12 \<le> page_shift" "page_shift \<le> 20"
    and "unat (mmap (stack_pages page_shift sz * push_bit page_shift 1))
      + unat (stack_pages page_shift sz) * 2 ^ page_shift < 2 ^ 64"
  shows "\<exists>f. cilk_fiber_map page_shift mmap sz mem = Some f
    \<and> 4 \<le> unat (stack_pages page_shift sz) \<and> unat (stack_pages page_shift sz) \<le> 2000
    \<and> (unat sz \<le> 2000 * 2 ^ page_shift \<longrightarrow> unat sz \<le> unat (stack_pages page_shift sz) * 2 ^ page_shift)
    \<and> unat (stack_low f) = unat (alloc_low f) + 2 ^ page_shift
    \<and> unat (header f) + unat SIZEOF_FIBER
        = unat (alloc_low f) + unat (stack_pages page_shift sz) * 2 ^ page_shift
    \<and> stack_low f < header f
    \<and> fiber_worker f = None \<and> current_stack_frame f = None
    \<and> cilk_fiber_unmap_global f
        = (mmap (stack_pages page_shift sz * push_bit page_shift 1), stack_pages page_shift sz * push_bit page_shift 1)"
proof -
  from make_stack_layout [of page_shift mmap sz mem, OF assms] obtain f where f:
    "make_stack page_shift mmap sz mem = Some f"
    "alloc_low f = mmap (stack_pages page_shift sz * push_bit page_shift 1)"
    "unat (stack_low f) = unat (mmap (stack_pages page_shift sz * push_bit page_shift 1)) + 2 ^ page_shift"
    "unat (header f) + unat SIZEOF_FIBER
      = unat (mmap (stack_pages page_shift sz * push_bit page_shift 1)) + unat (stack_pages page_shift sz) * 2 ^ page_shift"
    "stack_low f < header f"
    "get_fiber_end f - get_fiber_start f = stack_pages page_shift sz * push_bit page_shift 1"
    by blast
  show ?thesis
    by (rule exI [of _ "fiber_clear f"])
      (use f stack_pages_range stack_pages_cover [OF assms(2), of sz] in
        \<open>auto simp: cilk_fiber_map_def fiber_clear_def cilk_fiber_unmap_global_def free_stack_def
           get_fiber_end_def get_fiber_start_def\<close>)
qed

lemma stack_map_unmap_witness:
  "\<exists>f. cilk_fiber_map 12 (\<lambda>_. 0x7f0000000000) 1048576
      \<lparr>fiber_worker = None, current_stack_frame = None, header = 0, alloc_low = 0, stack_low = 0\<rparr> = Some f
    \<and> cilk_fiber_unmap_global f = (0x7f0000000000, 1048576)
    \<and> unat (header f) + 128 = unat (alloc_low f) + 1048576"
  using stack_map_unmap [of 12 "\<lambda>_. 0x7f0000000000" 1048576
      "\<lparr>fiber_worker = None, current_stack_frame = None, header = 0, alloc_low = 0, stack_low = 0\<rparr>"]
  by (auto simp: stack_pages_def Let_def MIN_NUM_PAGES_PER_STACK_def MAX_NUM_PAGES_PER_STACK_def SIZEOF_FIBER_def)

text \<open>Above the cap the size asked for is not reached: 100 MB, which the option accepts, gives 8 MB.\<close>

lemma large_stack_capped: "stack_pages 12 104857600 = 2000"
  by (simp add: stack_pages_def Let_def MIN_NUM_PAGES_PER_STACK_def MAX_NUM_PAGES_PER_STACK_def)

text \<open>Switching from one fiber to another saves through the value of the save field, not into the field.\<close>

lemma fiber_to_fiber_saves_through_value:
  assumes "on_fiber t" "current_fiber t = Some c"
  shows "map_option (last \<circ> calls) (sanitizer_start_switch_fiber True fib (Some f) t)
    = Some (Start_switch (At_address (fiber_fake_stack t c)) (stack_low (fib f))
        (get_stack_start (fib f) - stack_low (fib f)))"
  using assms by (simp add: sanitizer_start_switch_fiber_def asan_call_def Let_def)

end
