(* ===== verification/Sched_Stats.thy ===== *)
theory Sched_Stats
  imports Prelude
begin

text \<open>
  Scheduling statistics (\<^verbatim>\<open>runtime/sched_stats.h\<close>, \<^verbatim>\<open>runtime/sched_stats.cpp\<close>): the timers of a worker and
  of the boss, with the assertions that check their use, the report, and the places where the scheduler,
  the thief sleep and the entry and exit of a Cilkified region start, switch and stop a worker's timers.  A
  reading of the clock is an argument.  The report's arithmetic on doubles is a parameter.
\<close>

section \<open>The timers of a worker\<close>

datatype timing_type =
    INTERVAL_WORK
  | INTERVAL_SCHED
  | INTERVAL_IDLE
  | INTERVAL_SLEEP
  | INTERVAL_SLEEP_UNCILK
  | INTERVAL_CILKIFY_ENTER
  | INTERVAL_CILKIFY_EXIT

definition timing_types :: "timing_type list" where
  "timing_types = [INTERVAL_WORK, INTERVAL_SCHED, INTERVAL_IDLE, INTERVAL_SLEEP, INTERVAL_SLEEP_UNCILK,
     INTERVAL_CILKIFY_ENTER, INTERVAL_CILKIFY_EXIT]"

fun enum_to_str :: "timing_type \<Rightarrow> string" where
  "enum_to_str INTERVAL_WORK = ''working''"
| "enum_to_str INTERVAL_SCHED = ''scheduling''"
| "enum_to_str INTERVAL_IDLE = ''idling''"
| "enum_to_str INTERVAL_SLEEP = ''sleep (sched)''"
| "enum_to_str INTERVAL_SLEEP_UNCILK = ''sleep (uncilk)''"
| "enum_to_str INTERVAL_CILKIFY_ENTER = ''cilkify (enter)''"
| "enum_to_str INTERVAL_CILKIFY_EXIT = ''cilkify (exit)''"

record sched_stats =
  stat_time :: "timing_type \<Rightarrow> u64"
  stat_count :: "timing_type \<Rightarrow> u64"
  stat_begin :: "timing_type \<Rightarrow> u64"
  stat_end :: "timing_type \<Rightarrow> u64"
  stat_steals :: u64
  stat_repos :: u64
  stat_reeng_rqsts :: u64
  stat_onesen_rqsts :: u64

definition cilk_sched_stats_init :: sched_stats where
  "cilk_sched_stats_init = \<lparr>stat_time = (\<lambda>_. 0), stat_count = (\<lambda>_. 0), stat_begin = (\<lambda>_. 0), stat_end = (\<lambda>_. 0),
     stat_steals = 0, stat_repos = 0, stat_reeng_rqsts = 0, stat_onesen_rqsts = 0\<rparr>"

definition cilk_start_timing :: "timing_type \<Rightarrow> u64 \<Rightarrow> sched_stats \<Rightarrow> sched_stats option" where
  "cilk_start_timing t now s = do {
     cilk_assert (stat_begin s t = 0);
     Some (s\<lparr>stat_end := (stat_end s)(t := 0), stat_begin := (stat_begin s)(t := now)\<rparr>)
   }"

definition cilk_stop_timing :: "timing_type \<Rightarrow> u64 \<Rightarrow> sched_stats \<Rightarrow> sched_stats option" where
  "cilk_stop_timing t now s = do {
     cilk_assert (stat_end s t = 0);
     cilk_assert (now \<ge> stat_begin s t);
     Some (s\<lparr>stat_end := (stat_end s)(t := now),
             stat_time := (stat_time s)(t := stat_time s t + (now - stat_begin s t)),
             stat_count := (stat_count s)(t := stat_count s t + 1),
             stat_begin := (stat_begin s)(t := 0)\<rparr>)
   }"

text \<open>The clock is read twice: once to stop the first timer and again to start the second.\<close>

definition cilk_switch_timing ::
    "timing_type \<Rightarrow> timing_type \<Rightarrow> u64 \<Rightarrow> u64 \<Rightarrow> sched_stats \<Rightarrow> sched_stats option" where
  "cilk_switch_timing t1 t2 now now2 s = do {
     cilk_assert (stat_end s t1 = 0);
     cilk_assert (now \<ge> stat_begin s t1);
     let s = s\<lparr>stat_end := (stat_end s)(t1 := now),
               stat_time := (stat_time s)(t1 := stat_time s t1 + (now - stat_begin s t1)),
               stat_count := (stat_count s)(t1 := stat_count s t1 + 1),
               stat_begin := (stat_begin s)(t1 := 0)\<rparr>;
     cilk_assert (stat_begin s t2 = 0);
     Some (s\<lparr>stat_end := (stat_end s)(t2 := 0), stat_begin := (stat_begin s)(t2 := now2)\<rparr>)
   }"

definition cilk_drop_timing :: "timing_type \<Rightarrow> sched_stats \<Rightarrow> sched_stats option" where
  "cilk_drop_timing t s = do {
     cilk_assert (stat_begin s t \<noteq> 0);
     Some (s\<lparr>stat_begin := (stat_begin s)(t := 0)\<rparr>)
   }"

lemma switch_is_stop_start:
  "cilk_switch_timing t1 t2 now now2 s = do { s \<leftarrow> cilk_stop_timing t1 now s; cilk_start_timing t2 now2 s }"
  by (cases "stat_end s t1 = 0"; cases "stat_begin s t1 \<le> now")
    (simp_all add: cilk_switch_timing_def cilk_stop_timing_def cilk_start_timing_def Let_def)

section \<open>The boss and the report\<close>

record 'd global_sched_stats =
  boss_waiting :: u64
  boss_wait_count :: u64
  boss_begin :: u64
  exit_time :: u64
  boss_end :: u64
  all_steals :: u64
  all_repos :: u64
  all_reeng_rqsts :: u64
  all_onesen_rqsts :: u64
  all_time :: "timing_type \<Rightarrow> 'd"
  all_count :: "timing_type \<Rightarrow> u64"

definition cilk_global_sched_stats_init :: "'d \<Rightarrow> 'd global_sched_stats" where
  "cilk_global_sched_stats_init zero =
     \<lparr>boss_waiting = 0, boss_wait_count = 0, boss_begin = 0, exit_time = 0, boss_end = 0,
      all_steals = 0, all_repos = 0, all_reeng_rqsts = 0, all_onesen_rqsts = 0,
      all_time = (\<lambda>_. zero), all_count = (\<lambda>_. 0)\<rparr>"

definition cilk_boss_start_timing :: "u64 \<Rightarrow> 'd global_sched_stats \<Rightarrow> 'd global_sched_stats option" where
  "cilk_boss_start_timing now s = do {
     cilk_assert (boss_begin s = 0);
     Some (s\<lparr>boss_begin := now, boss_end := 0\<rparr>)
   }"

definition cilk_boss_stop_timing :: "u64 \<Rightarrow> 'd global_sched_stats \<Rightarrow> 'd global_sched_stats option" where
  "cilk_boss_stop_timing now s = do {
     cilk_assert (boss_end s = 0);
     cilk_assert (now \<ge> boss_begin s);
     cilk_assert (now \<ge> exit_time s);
     let last = (if exit_time s > boss_begin s then exit_time s else boss_begin s);
     Some (s\<lparr>boss_end := now,
             boss_waiting := boss_waiting s + (now - last),
             boss_wait_count := boss_wait_count s + 1,
             boss_begin := 0,
             exit_time := 0\<rparr>)
   }"

definition cilk_exit_worker_timing :: "u64 \<Rightarrow> 'd global_sched_stats \<Rightarrow> 'd global_sched_stats option" where
  "cilk_exit_worker_timing now s = do {
     cilk_assert (exit_time s = 0);
     Some (s\<lparr>exit_time := now\<rparr>)
   }"

definition sched_stats_reset_worker :: "sched_stats \<Rightarrow> sched_stats" where
  "sched_stats_reset_worker s =
     s\<lparr>stat_time := (\<lambda>_. 0), stat_count := (\<lambda>_. 0),
       stat_steals := 0, stat_repos := 0, stat_reeng_rqsts := 0, stat_onesen_rqsts := 0\<rparr>"

text \<open>What is printed, by format: the string in a column, the two header strings, the worker's number, a time
  with its count, a count.\<close>

datatype 'd printed =
    COL string
  | HDR string string
  | WORKER_HDR string worker_id
  | FIELD 'd u64
  | COUNT_HDR string
  | COUNT u64
  | Newline

record 'd arith =
  zero_d :: 'd
  plus_d :: "'d \<Rightarrow> 'd \<Rightarrow> 'd"
  nsec_to_sec :: "u64 \<Rightarrow> 'd"

definition sched_stats_print_worker ::
    "'d arith \<Rightarrow> worker_id \<times> sched_stats \<Rightarrow> 'd global_sched_stats \<times> 'd printed list
      \<Rightarrow> 'd global_sched_stats \<times> 'd printed list" where
  "sched_stats_print_worker a w st = (case w of (self, l) \<Rightarrow>
     let (g, out) = st;
         (g, out) = foldl (\<lambda>(g, out) t.
             let tmp = nsec_to_sec a (stat_time l t); n = stat_count l t
             in (g\<lparr>all_time := (all_time g)(t := plus_d a (all_time g t) tmp),
                   all_count := (all_count g)(t := all_count g t + n)\<rparr>, out @ [FIELD tmp n]))
           (g, out @ [WORKER_HDR ''Worker'' self]) timing_types;
         g = g\<lparr>all_steals := all_steals g + stat_steals l,
               all_repos := all_repos g + stat_repos l,
               all_reeng_rqsts := all_reeng_rqsts g + stat_reeng_rqsts l,
               all_onesen_rqsts := all_onesen_rqsts g + stat_onesen_rqsts l\<rparr>
     in (g, out @ [COUNT (stat_steals l), COUNT (stat_repos l), COUNT (stat_reeng_rqsts l),
                   COUNT (stat_onesen_rqsts l), Newline]))"

definition cilk_sched_stats_print ::
    "'d arith \<Rightarrow> 'd global_sched_stats \<Rightarrow> (worker_id \<times> sched_stats) list
      \<Rightarrow> 'd global_sched_stats \<times> (worker_id \<times> sched_stats) list \<times> 'd printed list" where
  "cilk_sched_stats_print a g workers =
     (let g = g\<lparr>all_time := (\<lambda>_. zero_d a), all_count := (\<lambda>_. 0),
               all_steals := 0, all_repos := 0, all_reeng_rqsts := 0, all_onesen_rqsts := 0\<rparr>;
          boss = [COL ''Boss waiting:'', FIELD (nsec_to_sec a (boss_waiting g)) (boss_wait_count g), Newline];
          g = g\<lparr>boss_waiting := 0, boss_wait_count := 0\<rparr>;
          head = COL '''' # map (\<lambda>t. HDR (enum_to_str t) ''count'') timing_types
            @ [COUNT_HDR ''steals'', COUNT_HDR ''reposses'', COUNT_HDR ''reengs'', COUNT_HDR ''onesen'', Newline];
          (g, out) = foldl (\<lambda>st w. sched_stats_print_worker a w st) (g, boss @ head) workers;
          total = COL ''Total:'' # map (\<lambda>t. FIELD (all_time g t) (all_count g t)) timing_types
            @ [COUNT (all_steals g), COUNT (all_repos g), COUNT (all_reeng_rqsts g), COUNT (all_onesen_rqsts g),
               Newline]
      in (g, map (\<lambda>(self, l). (self, sched_stats_reset_worker l)) workers, out @ total))"

section \<open>Where the timers are used\<close>

text \<open>
  The places of a worker thread between two uses of its timers.  The boss is outside a region, enters one,
  executes closures, runs user code, and steals; another worker sleeps until a region starts and then steals.
  \<open>Seeking_alone\<close> is the place reached by the \<open>continue\<close> taken when only one worker can be stolen from.
\<close>

datatype place =
    Thread_start
  | Asleep
  | Awake
  | Outside_region
  | Entering_region
  | Executing
  | In_user_code
  | Loop_head
  | Seeking
  | Seeking_alone
  | Attempting
  | Got_work
  | No_work

datatype timing_call =
    Start_timing timing_type
  | Stop_timing timing_type
  | Switch_timing timing_type timing_type
  | Drop_timing timing_type

text \<open>\<open>moves boss p\<close> lists, for every way on from place \<open>p\<close>, the calls on the way and the place reached.\<close>

definition seeking_moves :: "(timing_call list \<times> place) list" where
  "seeking_moves =
     [([Start_timing INTERVAL_SCHED, Start_timing INTERVAL_IDLE], Attempting),
      ([Start_timing INTERVAL_SCHED], Loop_head),
      ([Start_timing INTERVAL_SCHED], Executing)]"

fun moves :: "bool \<Rightarrow> place \<Rightarrow> (timing_call list \<times> place) list" where
  "moves boss Thread_start = [([Start_timing INTERVAL_SLEEP_UNCILK], Asleep)]"
| "moves boss Asleep = [([Stop_timing INTERVAL_SLEEP_UNCILK], Awake)]"
| "moves boss Awake = [([Start_timing INTERVAL_SCHED], Loop_head), ([Start_timing INTERVAL_SLEEP_UNCILK], Asleep)]"
| "moves boss Outside_region = [([Start_timing INTERVAL_CILKIFY_ENTER], Entering_region)]"
| "moves boss Entering_region = [([Switch_timing INTERVAL_CILKIFY_ENTER INTERVAL_SCHED], Executing)]"
| "moves boss Executing =
     ([Switch_timing INTERVAL_SCHED INTERVAL_WORK], In_user_code) # ([], Loop_head)
     # (if boss then [([Stop_timing INTERVAL_SCHED, Start_timing INTERVAL_SCHED], Loop_head)] else [])"
| "moves boss In_user_code =
     [([Switch_timing INTERVAL_WORK INTERVAL_SCHED], Executing),
      if boss
      then ([Switch_timing INTERVAL_WORK INTERVAL_CILKIFY_EXIT, Stop_timing INTERVAL_CILKIFY_EXIT], Outside_region)
      else ([Switch_timing INTERVAL_WORK INTERVAL_CILKIFY_EXIT, Stop_timing INTERVAL_CILKIFY_EXIT,
             Start_timing INTERVAL_WORK, Switch_timing INTERVAL_WORK INTERVAL_SCHED], Executing)]"
| "moves boss Loop_head =
     [([Stop_timing INTERVAL_SCHED], Seeking),
      ([], Loop_head),
      ([Stop_timing INTERVAL_SCHED], if boss then Outside_region else Awake)]"
| "moves boss Seeking = seeking_moves"
| "moves boss Seeking_alone = seeking_moves"
| "moves boss Attempting =
     [([], Seeking_alone),
      ([Stop_timing INTERVAL_SCHED, Drop_timing INTERVAL_IDLE], Got_work),
      ([Stop_timing INTERVAL_IDLE, Drop_timing INTERVAL_SCHED], No_work)]"
| "moves boss Got_work = [([], Seeking)]"
| "moves boss No_work = [([Start_timing INTERVAL_SLEEP, Stop_timing INTERVAL_SLEEP], Seeking)]"

fun readings :: "timing_call \<Rightarrow> nat" where
  "readings (Start_timing t) = 1"
| "readings (Stop_timing t) = 1"
| "readings (Switch_timing t1 t2) = 2"
| "readings (Drop_timing t) = 0"

fun do_calls :: "timing_call list \<Rightarrow> u64 list \<Rightarrow> sched_stats \<Rightarrow> sched_stats option" where
  "do_calls [] rs s = Some s"
| "do_calls (Start_timing t # cs) (r # rs) s = do { s \<leftarrow> cilk_start_timing t r s; do_calls cs rs s }"
| "do_calls (Stop_timing t # cs) (r # rs) s = do { s \<leftarrow> cilk_stop_timing t r s; do_calls cs rs s }"
| "do_calls (Switch_timing t1 t2 # cs) (r # r2 # rs) s =
     do { s \<leftarrow> cilk_switch_timing t1 t2 r r2 s; do_calls cs rs s }"
| "do_calls (Drop_timing t # cs) rs s = do { s \<leftarrow> cilk_drop_timing t s; do_calls cs rs s }"
| "do_calls _ _ s = None"

text \<open>The states of a worker's timers: the thread starts when the clock reads \<open>t0\<close>, and every later reading is at
  least the one before.\<close>

inductive timed :: "bool \<Rightarrow> u64 \<Rightarrow> place \<Rightarrow> sched_stats \<Rightarrow> u64 \<Rightarrow> bool" for boss t0 where
  timed_start: "timed boss t0 (if boss then Outside_region else Thread_start) cilk_sched_stats_init t0"
| timed_move:
    "timed boss t0 p s now \<Longrightarrow> (cs, q) \<in> set (moves boss p) \<Longrightarrow>
     length rs = sum_list (map readings cs) \<Longrightarrow> sorted (now # rs) \<Longrightarrow>
     do_calls cs rs s = Some s' \<Longrightarrow> timed boss t0 q s' (last (now # rs))"

section \<open>The set of running timers\<close>

text \<open>The abstraction: which timers run.  Starting a running timer fails, and so does stopping or dropping one
  that does not run.\<close>

fun abs_calls :: "timing_call list \<Rightarrow> timing_type set \<Rightarrow> timing_type set option" where
  "abs_calls [] R = Some R"
| "abs_calls (Start_timing t # cs) R = (if t \<in> R then None else abs_calls cs (insert t R))"
| "abs_calls (Stop_timing t # cs) R = (if t \<in> R then abs_calls cs (R - {t}) else None)"
| "abs_calls (Switch_timing t1 t2 # cs) R =
     (if t1 \<in> R \<and> t2 \<notin> R - {t1} then abs_calls cs (insert t2 (R - {t1})) else None)"
| "abs_calls (Drop_timing t # cs) R = (if t \<in> R then abs_calls cs (R - {t}) else None)"

fun running_at :: "place \<Rightarrow> timing_type set" where
  "running_at Asleep = {INTERVAL_SLEEP_UNCILK}"
| "running_at Entering_region = {INTERVAL_CILKIFY_ENTER}"
| "running_at Executing = {INTERVAL_SCHED}"
| "running_at In_user_code = {INTERVAL_WORK}"
| "running_at Loop_head = {INTERVAL_SCHED}"
| "running_at Attempting = {INTERVAL_SCHED, INTERVAL_IDLE}"
| "running_at Seeking_alone = {INTERVAL_SCHED, INTERVAL_IDLE}"
| "running_at _ = {}"

text \<open>The timers of \<open>R\<close> run, none was started after \<open>now\<close>, and what a timer has accumulated fits between \<open>t0\<close>
  and its last start.\<close>

definition timers_ok :: "u64 \<Rightarrow> timing_type set \<Rightarrow> u64 \<Rightarrow> sched_stats \<Rightarrow> bool" where
  "timers_ok t0 R now s \<longleftrightarrow> 0 < t0 \<and> t0 \<le> now
     \<and> (\<forall>t. (stat_begin s t \<noteq> 0 \<longleftrightarrow> t \<in> R)
          \<and> (t \<in> R \<longrightarrow> stat_end s t = 0 \<and> stat_begin s t \<le> now
               \<and> unat (stat_time s t) + unat t0 \<le> unat (stat_begin s t))
          \<and> unat (stat_time s t) + unat t0 \<le> unat now)"

lemma timers_ok_init: "0 < t0 \<Longrightarrow> timers_ok t0 {} t0 cilk_sched_stats_init"
  by (simp add: timers_ok_def cilk_sched_stats_init_def)

lemma timers_ok_start:
  assumes ok: "timers_ok t0 R now s" and r: "now \<le> r" "t \<notin> R"
  shows "\<exists>s'. cilk_start_timing t r s = Some s' \<and> timers_ok t0 (insert t R) r s'"
proof -
  have "r \<noteq> 0" using ok r(1) by (auto simp: timers_ok_def)
  moreover have "unat now \<le> unat r" using r(1) by (simp add: word_le_nat_alt)
  ultimately show ?thesis
    using ok r by (auto simp: timers_ok_def cilk_start_timing_def cilk_assert_def intro: order_trans)
qed

lemma unat_plus_le: "unat (a + b :: 'a :: len word) \<le> unat a + unat b"
  by (simp add: unat_word_ariths)

lemma timers_ok_stop:
  assumes ok: "timers_ok t0 R now s" and r: "now \<le> r" "t \<in> R"
  shows "\<exists>s'. cilk_stop_timing t r s = Some s' \<and> timers_ok t0 (R - {t}) r s'"
proof -
  have t: "stat_end s t = 0" "stat_begin s t \<le> r" "unat (stat_time s t) + unat t0 \<le> unat (stat_begin s t)"
    using ok r by (auto simp: timers_ok_def)
  have "unat (r - stat_begin s t) = unat r - unat (stat_begin s t)" using t(2) by (rule unat_diff_no_wrap)
  moreover have "unat (stat_begin s t) \<le> unat r" using t(2) by (simp add: word_le_nat_alt)
  ultimately have "unat (stat_time s t + (r - stat_begin s t)) + unat t0 \<le> unat r"
    using t(3) unat_plus_le [of "stat_time s t" "r - stat_begin s t"] by linarith
  moreover have "unat now \<le> unat r" using r(1) by (simp add: word_le_nat_alt)
  ultimately show ?thesis
    using ok r t by (auto simp: timers_ok_def cilk_stop_timing_def cilk_assert_def intro: order_trans)
qed

lemma timers_ok_drop:
  assumes "timers_ok t0 R now s" "t \<in> R"
  shows "\<exists>s'. cilk_drop_timing t s = Some s' \<and> timers_ok t0 (R - {t}) now s'"
  using assms by (auto simp: timers_ok_def cilk_drop_timing_def cilk_assert_def)

lemma timers_ok_switch:
  assumes ok: "timers_ok t0 R now s" and r: "now \<le> r" "r \<le> r2" "t1 \<in> R" "t2 \<notin> R - {t1}"
  shows "\<exists>s'. cilk_switch_timing t1 t2 r r2 s = Some s' \<and> timers_ok t0 (insert t2 (R - {t1})) r2 s'"
proof -
  from timers_ok_stop [OF ok r(1,3)] obtain s1
    where s1: "cilk_stop_timing t1 r s = Some s1" "timers_ok t0 (R - {t1}) r s1" by blast
  from timers_ok_start [OF s1(2) r(2,4)] show ?thesis by (simp add: switch_is_stop_start s1(1))
qed

text \<open>The timers of the code implement the set of running timers.\<close>

lemma do_calls_refines:
  "abs_calls cs R = Some R' \<Longrightarrow> timers_ok t0 R now s \<Longrightarrow>
   length rs = sum_list (map readings cs) \<Longrightarrow> sorted (now # rs) \<Longrightarrow>
   \<exists>s'. do_calls cs rs s = Some s' \<and> timers_ok t0 R' (last (now # rs)) s'"
proof (induction cs arbitrary: R now rs s)
  case Nil
  then show ?case by simp
next
  case (Cons c cs)
  show ?case
  proof (cases c)
    case (Start_timing t)
    with Cons.prems obtain r rs' where rs: "rs = r # rs'" by (cases rs) auto
    from Start_timing Cons.prems rs have c: "t \<notin> R" "now \<le> r" "abs_calls cs (insert t R) = Some R'"
      by (auto split: if_splits)
    from timers_ok_start [OF Cons.prems(2) c(2,1)] obtain s1
      where s1: "cilk_start_timing t r s = Some s1" "timers_ok t0 (insert t R) r s1" by blast
    from Cons.IH [OF c(3) s1(2), of rs'] Cons.prems Start_timing rs s1(1) show ?thesis by simp
  next
    case (Stop_timing t)
    with Cons.prems obtain r rs' where rs: "rs = r # rs'" by (cases rs) auto
    from Stop_timing Cons.prems rs have c: "t \<in> R" "now \<le> r" "abs_calls cs (R - {t}) = Some R'"
      by (auto split: if_splits)
    from timers_ok_stop [OF Cons.prems(2) c(2,1)] obtain s1
      where s1: "cilk_stop_timing t r s = Some s1" "timers_ok t0 (R - {t}) r s1" by blast
    from Cons.IH [OF c(3) s1(2), of rs'] Cons.prems Stop_timing rs s1(1) show ?thesis by simp
  next
    case (Switch_timing t1 t2)
    with Cons.prems obtain r r2 rs' where rs: "rs = r # r2 # rs'"
      by (cases rs; cases "tl rs") auto
    from Switch_timing Cons.prems rs
    have c: "t1 \<in> R" "t2 \<notin> R - {t1}" "now \<le> r" "r \<le> r2" "abs_calls cs (insert t2 (R - {t1})) = Some R'"
      by (auto split: if_splits)
    from timers_ok_switch [OF Cons.prems(2) c(3,4,1,2)] obtain s1
      where s1: "cilk_switch_timing t1 t2 r r2 s = Some s1" "timers_ok t0 (insert t2 (R - {t1})) r2 s1" by blast
    from Cons.IH [OF c(5) s1(2), of rs'] Cons.prems Switch_timing rs s1(1) show ?thesis by simp
  next
    case (Drop_timing t)
    from Drop_timing Cons.prems have c: "t \<in> R" "abs_calls cs (R - {t}) = Some R'"
      by (auto split: if_splits)
    from timers_ok_drop [OF Cons.prems(2) c(1)] obtain s1
      where s1: "cilk_drop_timing t s = Some s1" "timers_ok t0 (R - {t}) now s1" by blast
    from Cons.IH [OF c(2) s1(2), of rs] Cons.prems Drop_timing s1(1) show ?thesis by simp
  qed
qed

text \<open>Every move from a place other than \<open>Seeking_alone\<close> takes the timers that run there to those that run at
  the place it reaches.\<close>

lemma moves_running:
  "(cs, q) \<in> set (moves boss p) \<Longrightarrow> p \<noteq> Seeking_alone \<Longrightarrow> abs_calls cs (running_at p) = Some (running_at q)"
  by (cases p) (auto simp: seeking_moves_def split: if_splits)

lemma seeking_alone_restarts:
  "(cs, q) \<in> set (moves boss Seeking_alone) \<Longrightarrow> \<exists>cs'. cs = Start_timing INTERVAL_SCHED # cs'"
  by (auto simp: seeking_moves_def)

lemma start_running_fails: "stat_begin s t \<noteq> 0 \<Longrightarrow> do_calls (Start_timing t # cs) rs s = None"
  by (cases rs) (simp_all add: cilk_start_timing_def)

lemma timed_timers_ok:
  assumes "0 < t0" "timed boss t0 p s now"
  shows "timers_ok t0 (running_at p) now s"
  using assms(2)
proof induction
  case timed_start
  then show ?case using timers_ok_init [OF assms(1)] by simp
next
  case (timed_move p s now cs q rs s')
  show ?case
  proof (cases "p = Seeking_alone")
    case True
    with timed_move.hyps seeking_alone_restarts obtain cs' where cs: "cs = Start_timing INTERVAL_SCHED # cs'"
      by blast
    from timed_move.IH True have "stat_begin s INTERVAL_SCHED \<noteq> 0" by (simp add: timers_ok_def)
    with start_running_fails timed_move.hyps cs show ?thesis by simp
  next
    case False
    from do_calls_refines [OF moves_running [OF timed_move.hyps(2) False] timed_move.IH timed_move.hyps(3,4)]
    show ?thesis using timed_move.hyps(5) by auto
  qed
qed

text \<open>A worker can move on from every place but \<open>Seeking_alone\<close>.\<close>

lemma timed_advances:
  assumes "\<exists>s. timed boss t0 p s now" "0 < t0" "p \<noteq> Seeking_alone" "(cs, q) \<in> set (moves boss p)"
    and "length rs = sum_list (map readings cs)" "sorted (now # rs)"
  shows "\<exists>s. timed boss t0 q s (last (now # rs))"
proof -
  from assms(1) obtain s where s: "timed boss t0 p s now" by blast
  from do_calls_refines [OF moves_running [OF assms(4,3)] timed_timers_ok [OF assms(2) s] assms(5,6)]
  show ?thesis using timed_move [OF s assms(4-6)] by blast
qed

lemma entered_region: "\<exists>s. timed True 5 Entering_region s 10"
proof -
  have "\<exists>s. timed True 5 Outside_region s 5" using timed_start [of True 5] by auto
  from timed_advances [OF this, of "[Start_timing INTERVAL_CILKIFY_ENTER]" Entering_region "[10]"] show ?thesis by simp
qed

text \<open>The place after the \<open>continue\<close> is reached: the boss runs out of work and can steal from one worker only.\<close>

lemma single_stealable_reached: "\<exists>s. timed True 5 Seeking_alone s 32"
proof -
  have "\<exists>s. timed True 5 Executing s 21"
    using timed_advances [OF entered_region, of "[Switch_timing INTERVAL_CILKIFY_ENTER INTERVAL_SCHED]"
        Executing "[20, 21]"] by simp
  from timed_advances [OF this, of "[]" Loop_head "[]"] have "\<exists>s. timed True 5 Loop_head s 21" by simp
  from timed_advances [OF this, of "[Stop_timing INTERVAL_SCHED]" Seeking "[30]"]
  have "\<exists>s. timed True 5 Seeking s 30" by simp
  from timed_advances [OF this, of "[Start_timing INTERVAL_SCHED, Start_timing INTERVAL_IDLE]" Attempting "[31, 32]"]
  have "\<exists>s. timed True 5 Attempting s 32" by (simp add: seeking_moves_def)
  from timed_advances [OF this, of "[]" Seeking_alone "[]"] show ?thesis by simp
qed

text \<open>When a region was ended by another worker, the boss has waited since the later of the start of its wait and
  the end of the region, in either order, and the timers are ready for the next region.\<close>

lemma boss_waits_since_later:
  assumes "boss_begin g = 0" "exit_time g = 0" "0 < r1" "r1 \<le> r2" "r2 \<le> r3"
  shows "do { g \<leftarrow> cilk_boss_start_timing r1 g; g \<leftarrow> cilk_exit_worker_timing r2 g; cilk_boss_stop_timing r3 g }
      = Some (g\<lparr>boss_waiting := boss_waiting g + (r3 - r2), boss_wait_count := boss_wait_count g + 1,
               boss_end := r3\<rparr>)"
    and "do { g \<leftarrow> cilk_exit_worker_timing r1 g; g \<leftarrow> cilk_boss_start_timing r2 g; cilk_boss_stop_timing r3 g }
      = Some (g\<lparr>boss_waiting := boss_waiting g + (r3 - r2), boss_wait_count := boss_wait_count g + 1,
               boss_end := r3\<rparr>)"
proof -
  have "r1 \<le> r3" "r1 < r2 \<or> r1 = r2" using assms(4,5) by auto
  then show "do { g \<leftarrow> cilk_boss_start_timing r1 g; g \<leftarrow> cilk_exit_worker_timing r2 g; cilk_boss_stop_timing r3 g }
      = Some (g\<lparr>boss_waiting := boss_waiting g + (r3 - r2), boss_wait_count := boss_wait_count g + 1,
               boss_end := r3\<rparr>)"
    and "do { g \<leftarrow> cilk_exit_worker_timing r1 g; g \<leftarrow> cilk_boss_start_timing r2 g; cilk_boss_stop_timing r3 g }
      = Some (g\<lparr>boss_waiting := boss_waiting g + (r3 - r2), boss_wait_count := boss_wait_count g + 1,
               boss_end := r3\<rparr>)"
    using assms by (auto simp: cilk_boss_start_timing_def cilk_exit_worker_timing_def cilk_boss_stop_timing_def Let_def)
qed

text \<open>The report's totals are the sums over the workers.  It sets the workers' totals to zero and leaves the
  running timers running.\<close>

lemma print_worker_all_count:
  "all_count (fst (sched_stats_print_worker a w st)) t = all_count (fst st) t + stat_count (snd w) t"
  "all_steals (fst (sched_stats_print_worker a w st)) = all_steals (fst st) + stat_steals (snd w)"
  by (cases w; cases st; cases t; simp add: sched_stats_print_worker_def timing_types_def Let_def)+

lemma print_workers_all_count:
  "all_count (fst (foldl (\<lambda>st w. sched_stats_print_worker a w st) st ws)) t
     = all_count (fst st) t + (\<Sum>w \<leftarrow> ws. stat_count (snd w) t)"
  "all_steals (fst (foldl (\<lambda>st w. sched_stats_print_worker a w st) st ws))
     = all_steals (fst st) + (\<Sum>w \<leftarrow> ws. stat_steals (snd w))"
  by (induction ws arbitrary: st) (simp_all add: print_worker_all_count)

lemma report_totals:
  assumes "cilk_sched_stats_print a g ws = (g', ws', out)"
  shows "all_count g' t = (\<Sum>w \<leftarrow> ws. stat_count (snd w) t)"
    and "all_steals g' = (\<Sum>w \<leftarrow> ws. stat_steals (snd w))"
    and "ws' = map (apsnd (\<lambda>l. cilk_sched_stats_init\<lparr>stat_begin := stat_begin l, stat_end := stat_end l\<rparr>)) ws"
proof -
  from assms show "all_count g' t = (\<Sum>w \<leftarrow> ws. stat_count (snd w) t)"
    "all_steals g' = (\<Sum>w \<leftarrow> ws. stat_steals (snd w))"
    by (auto simp: cilk_sched_stats_print_def Let_def split: prod.splits
        dest!: arg_cong [of _ _ fst] simp: print_workers_all_count)
  from assms show "ws' = map (apsnd (\<lambda>l. cilk_sched_stats_init\<lparr>stat_begin := stat_begin l, stat_end := stat_end l\<rparr>)) ws"
    by (auto simp: cilk_sched_stats_print_def Let_def sched_stats_reset_worker_def cilk_sched_stats_init_def
        split: prod.splits)
qed

section \<open>Properties\<close>

text \<open>
  C27: with a clock that never goes back, the timing assertions of a worker hold on every way through the
  scheduler, thief sleep and the entry and exit of a Cilkified region, with one exception: from the place that
  the \<open>continue\<close> of the only stealable worker leads to, every way on fails.  The timers that run at each place are
  those the place names, and no timer has accumulated more than the time since the thread started.
\<close>

theorem timing_assertions_hold:
  fixes boss :: bool and t0 now :: u64 and s :: sched_stats
  assumes "0 < t0" "timed boss t0 p s now"
    and "(cs, q) \<in> set (moves boss p)" "length rs = sum_list (map readings cs)" "sorted (now # rs)"
  shows "{t. stat_begin s t \<noteq> 0} = running_at p
    \<and> (\<forall>t. unat (stat_time s t) \<le> unat now - unat t0)
    \<and> (do_calls cs rs s \<noteq> None \<longleftrightarrow> p \<noteq> Seeking_alone)"
proof -
  have ok: "timers_ok t0 (running_at p) now s" by (rule timed_timers_ok [OF assms(1,2)])
  have "do_calls cs rs s \<noteq> None \<longleftrightarrow> p \<noteq> Seeking_alone"
  proof (cases "p = Seeking_alone")
    case True
    with seeking_alone_restarts assms(3) obtain cs' where "cs = Start_timing INTERVAL_SCHED # cs'" by blast
    with True start_running_fails [of s INTERVAL_SCHED] ok show ?thesis by (simp add: timers_ok_def)
  next
    case False
    from do_calls_refines [OF moves_running [OF assms(3) False] ok assms(4,5)] False show ?thesis by auto
  qed
  moreover have "unat (stat_time s t) \<le> unat now - unat t0" for t
  proof -
    have "unat (stat_time s t) + unat t0 \<le> unat now" using ok by (simp add: timers_ok_def)
    then show ?thesis by linarith
  qed
  moreover have "{t. stat_begin s t \<noteq> 0} = running_at p" using ok by (auto simp: timers_ok_def)
  ultimately show ?thesis by blast
qed

lemma timing_assertions_hold_witness:
  "\<exists>s. timed True 5 Entering_region s 10
    \<and> do_calls [Switch_timing INTERVAL_CILKIFY_ENTER INTERVAL_SCHED] [20, 21] s \<noteq> None"
proof -
  obtain s where s: "timed True 5 Entering_region s 10" using entered_region by blast
  from timing_assertions_hold [OF _ s, of "[Switch_timing INTERVAL_CILKIFY_ENTER INTERVAL_SCHED]" Executing "[20, 21]"]
  show ?thesis using s by auto
qed

end
