(* ===== verification/Debug_Log.thy ===== *)
theory Debug_Log
  imports Prelude "HOL-Library.Char_ord"
begin

text \<open>
  Alerts (\<^verbatim>\<open>runtime/debug.h\<close>, \<^verbatim>\<open>runtime/debug.cpp\<close>): the levels and how a setting is parsed, and the log that
  collects messages in a buffer of 5,000 bytes before they are written to standard error.  The results of
  \<open>strdup\<close> and \<open>malloc\<close> and the formatted text of a message are arguments; a string of the model is a C string
  without its terminating NUL.
\<close>

section \<open>Levels\<close>

definition ALERT_LVL :: u32 where "ALERT_LVL = 0x3d03"

definition ALERT_NONE :: u32 where "ALERT_NONE = 0x0000"
definition ALERT_FIBER :: u32 where "ALERT_FIBER = 0x0001"
definition ALERT_FIBER_SUMMARY :: u32 where "ALERT_FIBER_SUMMARY = 0x0002"
definition ALERT_MEMORY :: u32 where "ALERT_MEMORY = 0x0004"
definition ALERT_SYNC :: u32 where "ALERT_SYNC = 0x0010"
definition ALERT_SCHED :: u32 where "ALERT_SCHED = 0x0020"
definition ALERT_STEAL :: u32 where "ALERT_STEAL = 0x0040"
definition ALERT_RETURN :: u32 where "ALERT_RETURN = 0x0080"
definition ALERT_EXCEPT :: u32 where "ALERT_EXCEPT = 0x0100"
definition ALERT_CFRAME :: u32 where "ALERT_CFRAME = 0x0200"
definition ALERT_REDUCE :: u32 where "ALERT_REDUCE = 0x0400"
definition ALERT_REDUCE_ID :: u32 where "ALERT_REDUCE_ID = 0x0800"
definition ALERT_BOOT :: u32 where "ALERT_BOOT = 0x1000"
definition ALERT_START :: u32 where "ALERT_START = 0x2000"
definition ALERT_CLOSURE :: u32 where "ALERT_CLOSURE = 0x4000"
definition ALERT_NOBUF :: u32 where "ALERT_NOBUF = 0x80000000"

lemmas alert_masks = ALERT_NONE_def ALERT_FIBER_def ALERT_FIBER_SUMMARY_def ALERT_MEMORY_def ALERT_SYNC_def
  ALERT_SCHED_def ALERT_STEAL_def ALERT_RETURN_def ALERT_EXCEPT_def ALERT_CFRAME_def ALERT_REDUCE_def
  ALERT_REDUCE_ID_def ALERT_BOOT_def ALERT_START_def ALERT_CLOSURE_def ALERT_NOBUF_def

definition ALERT_ENABLED :: "u32 \<Rightarrow> u32 \<Rightarrow> bool" where
  "ALERT_ENABLED level flag \<longleftrightarrow> level AND (ALERT_LVL AND flag) \<noteq> 0"

record alert_level_t =
  name :: string
  mask_value :: u32

definition alert_table :: "alert_level_t list" where
  "alert_table =
     [\<lparr>name = ''none'', mask_value = ALERT_NONE\<rparr>,
      \<lparr>name = ''fiber'', mask_value = ALERT_FIBER\<rparr>,
      \<lparr>name = ''memory'', mask_value = ALERT_MEMORY\<rparr>,
      \<lparr>name = ''sync'', mask_value = ALERT_SYNC\<rparr>,
      \<lparr>name = ''sched'', mask_value = ALERT_SCHED\<rparr>,
      \<lparr>name = ''steal'', mask_value = ALERT_STEAL\<rparr>,
      \<lparr>name = ''return'', mask_value = ALERT_RETURN\<rparr>,
      \<lparr>name = ''except'', mask_value = ALERT_EXCEPT\<rparr>,
      \<lparr>name = ''cframe'', mask_value = ALERT_CFRAME\<rparr>,
      \<lparr>name = ''reduce'', mask_value = ALERT_REDUCE\<rparr>,
      \<lparr>name = ''reduce_id'', mask_value = ALERT_REDUCE_ID\<rparr>,
      \<lparr>name = ''boot'', mask_value = ALERT_BOOT\<rparr>,
      \<lparr>name = ''start'', mask_value = ALERT_START\<rparr>,
      \<lparr>name = ''closure'', mask_value = ALERT_CLOSURE\<rparr>,
      \<lparr>name = ''nobuf'', mask_value = ALERT_NOBUF\<rparr>]"

section \<open>The C library's part\<close>

definition to_lower :: "char \<Rightarrow> nat" where
  "to_lower c = (if 65 \<le> (of_char c :: nat) \<and> (of_char c :: nat) \<le> 90 then of_char c + 32 else of_char c)"

fun strcasecmp :: "string \<Rightarrow> string \<Rightarrow> int" where
  "strcasecmp [] [] = 0"
| "strcasecmp [] (d # ds) = - int (to_lower d)"
| "strcasecmp (c # cs) [] = int (to_lower c)"
| "strcasecmp (c # cs) (d # ds) =
     (if to_lower c = to_lower d then strcasecmp cs ds else int (to_lower c) - int (to_lower d))"

text \<open>The pieces \<open>strtok\<close> returns one after the other: the nonempty ones between separators.\<close>

fun tokens_from :: "char \<Rightarrow> string \<Rightarrow> string \<Rightarrow> string list" where
  "tokens_from sep acc [] = (if acc = [] then [] else [acc])"
| "tokens_from sep acc (c # cs) =
     (if c = sep then (if acc = [] then [] else [acc]) @ tokens_from sep [] cs
      else tokens_from sep (acc @ [c]) cs)"

definition strtok_all :: "char \<Rightarrow> string \<Rightarrow> string list" where
  "strtok_all sep s = tokens_from sep [] s"

definition digit_of :: "char \<Rightarrow> nat" where
  "digit_of c = (let n = of_char c :: nat in
     if 48 \<le> n \<and> n \<le> 57 then n - 48
     else if 97 \<le> n \<and> n \<le> 122 then n - 87
     else if 65 \<le> n \<and> n \<le> 90 then n - 55 else 99)"

fun digits_value :: "nat \<Rightarrow> nat \<Rightarrow> string \<Rightarrow> nat \<times> string" where
  "digits_value base v [] = (v, [])"
| "digits_value base v (c # cs) =
     (if digit_of c < base then digits_value base (v * base + digit_of c) cs else (v, c # cs))"

definition is_space :: "char \<Rightarrow> bool" where
  "is_space c \<longleftrightarrow> (of_char c :: nat) = 32 \<or> (9 \<le> (of_char c :: nat) \<and> (of_char c :: nat) \<le> 13)"

text \<open>\<open>strtol\<close> in base 0: the value, kept within \<open>long\<close>, and what is left; \<open>None\<close> when there is no number.\<close>

definition strtol_0 :: "string \<Rightarrow> (int \<times> string) option" where
  "strtol_0 s =
     (let s1 = dropWhile is_space s;
          neg = (s1 \<noteq> [] \<and> hd s1 = CHR ''-'');
          s2 = (if s1 \<noteq> [] \<and> hd s1 \<in> {CHR ''-'', CHR ''+''} then tl s1 else s1);
          hex = (length s2 \<ge> 3 \<and> s2 ! 0 = CHR ''0'' \<and> s2 ! 1 \<in> {CHR ''x'', CHR ''X''} \<and> digit_of (s2 ! 2) < 16);
          base = (if hex then 16 else if s2 \<noteq> [] \<and> hd s2 = CHR ''0'' then 8 else 10);
          s3 = (if hex then drop 2 s2 else s2);
          (v, rest) = digits_value base 0 s3
      in if rest = s3 then None
         else Some (max (- (2 ^ 63)) (min (2 ^ 63 - 1) (if neg then - int v else int v)), rest))"

section \<open>Parsing a setting\<close>

definition alert_name_comparison :: "alert_level_t \<Rightarrow> alert_level_t \<Rightarrow> int" where
  "alert_name_comparison left right = strcasecmp (name left) (name right)"

text \<open>The level and what is printed to standard error.\<close>

definition parse_alert_level_str :: "string \<Rightarrow> u32 \<times> string" where
  "parse_alert_level_str alert_str =
     (case find (\<lambda>e. alert_name_comparison \<lparr>name = alert_str, mask_value = ALERT_NONE\<rparr> e = 0) alert_table of
        Some e \<Rightarrow> (mask_value e, [])
      | None \<Rightarrow> (ALERT_NONE, ''Invalid CILK_ALERT value: '' @ alert_str @ [CHR 10]))"

definition or_level :: "u32 \<times> string \<Rightarrow> string \<Rightarrow> u32 \<times> string" where
  "or_level acc alert_str =
     (let (m, msg) = parse_alert_level_str alert_str in (fst acc OR m, snd acc @ msg))"

definition parse_alert_level_csv :: "bool \<Rightarrow> string \<Rightarrow> u32 \<Rightarrow> string \<Rightarrow> u32 \<times> string" where
  "parse_alert_level_csv copied strerror current alert_csv =
     (if \<not> copied
      then (current, ''Cilk: unable to copy CILK_ALERT settings ('' @ strerror @ '')'' @ [CHR 10])
      else case strtok_all CHR '','' alert_csv of
        [] \<Rightarrow> (ALERT_NONE, [])
      | alert_str # others \<Rightarrow>
          if length alert_str = length alert_csv
          then let (lvl, number) = (case strtol_0 alert_str of
                       None \<Rightarrow> (0, False)
                     | Some (v, rest) \<Rightarrow> (word_of_int v, rest = []))
               in if lvl = 0 \<and> \<not> number then or_level (lvl, []) alert_str else (lvl, [])
          else foldl or_level (ALERT_NONE, []) (alert_str # others))"

section \<open>The log\<close>

record alert_state =
  alert_level :: u32
  alert_log_size :: u64
  alert_log_offset :: u64
  alert_log :: "string option"
  stderr :: string

definition alert_start :: alert_state where
  "alert_start = \<lparr>alert_level = 0, alert_log_size = 0, alert_log_offset = 0, alert_log = None, stderr = []\<rparr>"

definition flush_alert_log :: "alert_state \<Rightarrow> alert_state" where
  "flush_alert_log s =
     (if ALERT_LVL = 0 then s
      else case alert_log s of
        None \<Rightarrow> s
      | Some buf \<Rightarrow>
          let s = (if alert_log_offset s > 0
                   then s\<lparr>stderr := stderr s @ take (unat (alert_log_offset s)) buf, alert_log_offset := 0\<rparr>
                   else s)
          in s\<lparr>alert_log_size := 0, alert_log := None\<rparr>)"

text \<open>\<open>allocated\<close> says whether \<open>malloc\<close> returns memory.\<close>

definition set_alert_level :: "bool \<Rightarrow> u32 \<Rightarrow> alert_state \<Rightarrow> alert_state" where
  "set_alert_level allocated level s =
     (let s = s\<lparr>alert_level := level\<rparr>
      in if level = 0 then flush_alert_log s
         else if level AND ALERT_NOBUF \<noteq> 0 then s
         else if alert_log s = None
         then s\<lparr>alert_log_size := 5000, alert_log := (if allocated then Some (replicate 5000 CHR '' '') else None)\<rparr>
         else s)"

definition set_alert_level_from_str ::
    "bool \<Rightarrow> string \<Rightarrow> bool \<Rightarrow> string option \<Rightarrow> alert_state \<Rightarrow> alert_state" where
  "set_alert_level_from_str copied strerror allocated alert_csv s =
     (case alert_csv of
        None \<Rightarrow> s
      | Some csv \<Rightarrow>
          let (lvl, msg) = parse_alert_level_csv copied strerror (alert_level s) csv
          in set_alert_level allocated lvl (s\<lparr>stderr := stderr s @ msg\<rparr>))"

fun decimal :: "nat \<Rightarrow> string" where
  "decimal n = (if n < 10 then [char_of (48 + n)] else decimal (n div 10) @ [char_of (48 + n mod 10)])"

declare decimal.simps [simp del]

text \<open>\<open>"[W%02u]: "\<close>\<close>

definition worker_prefix :: "worker_id \<Rightarrow> string" where
  "worker_prefix self = ''[W'' @ (if self < 10 then ''0'' else []) @ decimal (unat self) @ '']: ''"

text \<open>A copy into the buffer: \<open>None\<close> when it does not fit.\<close>

definition write_at :: "nat \<Rightarrow> string \<Rightarrow> string \<Rightarrow> string option" where
  "write_at off bytes buf =
     (if off + length bytes \<le> length buf
      then Some (take off buf @ bytes @ drop (off + length bytes) buf) else None)"

definition cilkrts_alert :: "u32 \<Rightarrow> worker_id option \<Rightarrow> string \<Rightarrow> alert_state \<Rightarrow> alert_state option" where
  "cilkrts_alert lvl w text s =
     (if ALERT_LVL AND lvl = 0 then Some s
      else do {
        let prefix = (case w of None \<Rightarrow> [] | Some self \<Rightarrow> worker_prefix self);
        cilk_assert (w \<noteq> None \<longrightarrow> 7 \<le> length prefix \<and> length prefix < 10);
        let body = take 199 text;
        let size1 = of_nat (length prefix); let size2 = of_nat (length body);
        case alert_log s of
          Some buf \<Rightarrow> do {
            let (s, buf) =
              (if alert_log_offset s + size1 + size2 + 1 \<ge> alert_log_size s
               then (s\<lparr>stderr := stderr s @ take (unat (alert_log_offset s)) buf, alert_log_offset := 0\<rparr>,
                     replicate (unat (alert_log_offset s)) CHR '' '' @ drop (unat (alert_log_offset s)) buf)
               else (s, buf));
            buf \<leftarrow> write_at (unat (alert_log_offset s)) prefix buf;
            buf \<leftarrow> write_at (unat (alert_log_offset s + size1)) body buf;
            buf \<leftarrow> write_at (unat (alert_log_offset s + size1 + size2)) [CHR 10] buf;
            Some (s\<lparr>alert_log := Some buf, alert_log_offset := alert_log_offset s + (size1 + size2 + 1)\<rparr>)
          }
        | None \<Rightarrow> Some (s\<lparr>stderr := stderr s @ prefix @ body @ [CHR 10]\<rparr>)
      })"

text \<open>The macro through which the runtime calls it.\<close>

definition alert_macro :: "u32 \<Rightarrow> worker_id option \<Rightarrow> string \<Rightarrow> alert_state \<Rightarrow> alert_state option" where
  "alert_macro code w text s =
     (if alert_level s AND (code AND ALERT_LVL) \<noteq> 0 then cilkrts_alert code w text s else Some s)"

text \<open>What \<open>cilkrts_bug\<close> prints before it aborts: the log of a worker is flushed first.\<close>

definition cilkrts_bug :: "worker_id option \<Rightarrow> string \<Rightarrow> alert_state \<Rightarrow> alert_state" where
  "cilkrts_bug w text s =
     (let s = (case w of
                 Some self \<Rightarrow> let s = flush_alert_log s in s\<lparr>stderr := stderr s @ worker_prefix self\<rparr>
               | None \<Rightarrow> s)
      in s\<lparr>stderr := stderr s @ text @ [CHR 10]\<rparr>)"

definition cilk_die_internal :: "string \<Rightarrow> alert_state \<Rightarrow> alert_state" where
  "cilk_die_internal text s =
     (let s = flush_alert_log s in s\<lparr>stderr := stderr s @ ''Fatal error: '' @ text @ [CHR 10]\<rparr>)"

section \<open>What reaches standard error\<close>

datatype log_op =
    Set_alert_level bool u32
  | Flush_alert_log
  | Alert u32 "worker_id option" string

fun log_step :: "log_op \<Rightarrow> alert_state \<Rightarrow> alert_state option" where
  "log_step (Set_alert_level allocated level) s = Some (set_alert_level allocated level s)"
| "log_step Flush_alert_log s = Some (flush_alert_log s)"
| "log_step (Alert code w text) s = alert_macro code w text s"

fun log_run :: "log_op list \<Rightarrow> alert_state \<Rightarrow> alert_state option" where
  "log_run [] s = Some s"
| "log_run (c # cs) s = do { s \<leftarrow> log_step c s; log_run cs s }"

text \<open>The specification knows no buffer: the lines of the alerts whose level is enabled, one after the other.\<close>

definition alert_line :: "worker_id option \<Rightarrow> string \<Rightarrow> string" where
  "alert_line w text = (case w of None \<Rightarrow> [] | Some self \<Rightarrow> worker_prefix self) @ take 199 text @ [CHR 10]"

fun log_spec :: "log_op list \<Rightarrow> u32 \<Rightarrow> string" where
  "log_spec [] level = []"
| "log_spec (Set_alert_level allocated level # cs) old_level = log_spec cs level"
| "log_spec (Flush_alert_log # cs) level = log_spec cs level"
| "log_spec (Alert code w text # cs) level =
     (if ALERT_ENABLED level code then alert_line w text else []) @ log_spec cs level"

fun op_ok :: "log_op \<Rightarrow> bool" where
  "op_ok (Alert code (Some self) text) \<longleftrightarrow> self < 10000"
| "op_ok _ \<longleftrightarrow> True"

definition log_ok :: "alert_state \<Rightarrow> bool" where
  "log_ok s \<longleftrightarrow> (case alert_log s of
     None \<Rightarrow> True
   | Some buf \<Rightarrow> length buf = 5000 \<and> alert_log_size s = 5000 \<and> unat (alert_log_offset s) \<le> 5000)
   \<and> (alert_log s = None \<longrightarrow> alert_log_offset s = 0)"

definition buffered :: "alert_state \<Rightarrow> string" where
  "buffered s = (case alert_log s of None \<Rightarrow> [] | Some buf \<Rightarrow> take (unat (alert_log_offset s)) buf)"

definition log_view :: "alert_state \<Rightarrow> u32 \<times> string" where
  "log_view s = (alert_level s, stderr s @ buffered s)"

lemma decimal_length_le: "n < 10 ^ Suc k \<Longrightarrow> length (decimal n) \<le> Suc k"
proof (induction k arbitrary: n)
  case 0
  then show ?case by (simp add: decimal.simps [of n])
next
  case (Suc k)
  have "n div 10 < 10 ^ Suc k" using Suc.prems by (simp add: less_mult_imp_div_less mult.commute)
  from Suc.IH [OF this] show ?case by (simp add: decimal.simps [of n])
qed

lemma decimal_length_ge: "0 < length (decimal n)" "10 \<le> n \<Longrightarrow> 2 \<le> length (decimal n)"
proof -
  have pos: "0 < length (decimal m)" for m by (subst decimal.simps) simp
  then show "0 < length (decimal n)" .
  show "10 \<le> n \<Longrightarrow> 2 \<le> length (decimal n)"
    using pos [of "n div 10"] by (subst decimal.simps) (simp add: Suc_le_eq)
qed

lemma worker_prefix_length:
  assumes "self < 10000"
  shows "7 \<le> length (worker_prefix self)" "length (worker_prefix self) < 10"
proof -
  have n: "unat self < 10 ^ Suc 3" using assms by (simp add: word_less_nat_alt)
  have u: "self < 10 \<longleftrightarrow> unat self < 10" by (simp add: word_less_nat_alt)
  show "7 \<le> length (worker_prefix self)"
    using decimal_length_ge [of "unat self"] by (cases "unat self < 10") (auto simp: worker_prefix_def u Suc_le_eq)
  show "length (worker_prefix self) < 10"
    using decimal_length_le [OF n] decimal_length_le [of "unat self" 0]
    by (cases "unat self < 10") (auto simp: worker_prefix_def u)
qed

text \<open>Three copies one after the other are one copy of the line.\<close>

lemma write_line:
  assumes "off + length p + length b + 1 \<le> length buf"
  shows "\<exists>buf1 buf2 buf3. write_at off p buf = Some buf1 \<and> write_at (off + length p) b buf1 = Some buf2
    \<and> write_at (off + length p + length b) [c] buf2 = Some buf3 \<and> length buf3 = length buf
    \<and> take (off + (length p + length b + 1)) buf3 = take off buf @ p @ b @ [c]"
  using assms by (simp add: write_at_def)

lemma flush_view:
  assumes "log_ok s"
  shows "log_ok (flush_alert_log s)" "log_view (flush_alert_log s) = log_view s"
    "buffered (flush_alert_log s) = []" "alert_level (flush_alert_log s) = alert_level s"
  using assms
  by (auto simp: flush_alert_log_def ALERT_LVL_def log_ok_def log_view_def buffered_def Let_def word_greater_zero_iff
      split: option.splits)

lemma set_level_view:
  assumes "log_ok s"
  shows "log_ok (set_alert_level a l s)" "log_view (set_alert_level a l s) = (l, snd (log_view s))"
proof -
  have ok: "log_ok (s\<lparr>alert_level := l\<rparr>)" using assms by (simp add: log_ok_def split: option.splits)
  show "log_ok (set_alert_level a l s)"
    using assms flush_view [OF ok]
    by (auto simp: set_alert_level_def Let_def log_ok_def split: option.splits)
  show "log_view (set_alert_level a l s) = (l, snd (log_view s))"
    using assms flush_view [OF ok]
    by (auto simp: set_alert_level_def Let_def log_ok_def log_view_def buffered_def split: option.splits)
qed

text \<open>The buffered branch, from the offset \<open>off\<close> left by the test for room.\<close>

lemma write_alert:
  fixes p b buf :: string and off :: u64
  assumes "length p < 10" "length b \<le> 199" "length buf = 5000" "unat off + length p + length b + 1 \<le> 5000"
  defines "n1 \<equiv> of_nat (length p) :: u64" and "n2 \<equiv> of_nat (length b) :: u64"
  shows "\<exists>buf1 buf2 buf3. write_at (unat off) p buf = Some buf1 \<and> write_at (unat (off + n1)) b buf1 = Some buf2
    \<and> write_at (unat (off + n1 + n2)) [c] buf2 = Some buf3 \<and> length buf3 = 5000
    \<and> unat (off + (n1 + n2 + 1)) \<le> 5000
    \<and> take (unat (off + (n1 + n2 + 1))) buf3 = take (unat off) buf @ p @ b @ [c]"
proof -
  have n: "unat n1 = length p" "unat n2 = length b"
    using assms(1,2) by (simp_all add: n1_def n2_def unsigned_of_nat take_bit_nat_eq_self_iff)
  have a1: "unat (off + n1) = unat off + length p"
    using assms(4) n by (subst unat_add_lem [THEN iffD1]) simp_all
  have a2: "unat (off + n1 + n2) = unat off + length p + length b"
    using assms(4) n a1 by (subst unat_add_lem [THEN iffD1]) simp_all
  have "unat (off + n1 + n2 + 1) = unat off + length p + length b + 1"
    using assms(4) a2 by (subst unat_add_lem [THEN iffD1]) simp_all
  then have a3: "unat (off + (n1 + n2 + 1)) = unat off + (length p + length b + 1)"
    by (simp add: add.assoc)
  from write_line [of "unat off" p b buf c] assms(3,4) show ?thesis
    unfolding a1 a2 a3 by auto
qed

lemma alert_room:
  assumes "length p < 10" "length b \<le> 199" "unat off \<le> 5000"
    and "\<not> off + of_nat (length p) + of_nat (length b) + 1 \<ge> (5000 :: u64)"
  shows "unat off + length p + length b + 1 \<le> 5000"
proof -
  have "unat (of_nat (length p) :: u64) = length p" "unat (of_nat (length b) :: u64) = length b"
    using assms(1,2) by (simp_all add: unsigned_of_nat take_bit_nat_eq_self_iff)
  then have "unat (off + of_nat (length p) + of_nat (length b) + 1) = unat off + length p + length b + 1"
    using assms(1-3) by (simp add: unat_word_ariths)
  then show ?thesis using assms(4) by (simp add: word_le_nat_alt)
qed

lemma cilkrts_alert_view:
  assumes ok: "log_ok s" and w: "op_ok (Alert code w text)" and on: "ALERT_LVL AND code \<noteq> 0"
  shows "\<exists>s'. cilkrts_alert code w text s = Some s' \<and> log_ok s'
    \<and> log_view s' = (alert_level s, snd (log_view s) @ alert_line w text)"
proof -
  define p where "p = (case w of None \<Rightarrow> [] | Some self \<Rightarrow> worker_prefix self)"
  define b where "b = take 199 text"
  have p: "length p < 10" "w \<noteq> None \<longrightarrow> 7 \<le> length p"
    using worker_prefix_length w by (auto simp: p_def split: option.splits)
  have b: "length b \<le> 199" by (simp add: b_def)
  have line: "alert_line w text = p @ b @ [CHR 10]" by (simp add: alert_line_def p_def b_def)
  show ?thesis
  proof (cases "alert_log s")
    case None
    then show ?thesis using ok on p unfolding line
      by (simp add: cilkrts_alert_def Let_def log_ok_def log_view_def buffered_def flip: p_def b_def)
  next
    case (Some buf)
    have buf: "length buf = 5000" "alert_log_size s = 5000" "unat (alert_log_offset s) \<le> 5000"
      using ok Some by (simp_all add: log_ok_def)
    show ?thesis
    proof (cases "alert_log_offset s + of_nat (length p) + of_nat (length b) + 1 \<ge> 5000")
      case True
      define buf0 where "buf0 = replicate (unat (alert_log_offset s)) CHR '' '' @ drop (unat (alert_log_offset s)) buf"
      have "length buf0 = 5000" using buf by (simp add: buf0_def)
      from write_alert [OF p(1) b this, of 0 "CHR 10"] p(1) b obtain buf1 buf2 buf3 where
        "write_at 0 p buf0 = Some buf1" "write_at (unat (of_nat (length p) :: u64)) b buf1 = Some buf2"
        "write_at (unat (of_nat (length p) + of_nat (length b) :: u64)) [CHR 10] buf2 = Some buf3" "length buf3 = 5000"
        "unat (of_nat (length p) + of_nat (length b) + 1 :: u64) \<le> 5000"
        "take (unat (of_nat (length p) + of_nat (length b) + 1 :: u64)) buf3 = p @ b @ [CHR 10]"
        by auto
      then show ?thesis using ok on p Some True buf unfolding line
        by (simp add: cilkrts_alert_def Let_def log_ok_def log_view_def buffered_def flip: p_def b_def buf0_def)
    next
      case False
      from alert_room [OF p(1) b buf(3) False]
      have "unat (alert_log_offset s) + length p + length b + 1 \<le> 5000" .
      from write_alert [OF p(1) b buf(1) this, where c = "CHR 10"] show ?thesis
        using ok on p Some False buf unfolding line
        by (auto simp: cilkrts_alert_def Let_def log_ok_def log_view_def buffered_def simp flip: p_def b_def)
    qed
  qed
qed

lemma alert_view:
  assumes ok: "log_ok s" and w: "op_ok (Alert code w text)"
  shows "\<exists>s'. alert_macro code w text s = Some s' \<and> log_ok s'
    \<and> log_view s' = (alert_level s, snd (log_view s) @
        (if ALERT_ENABLED (alert_level s) code then alert_line w text else []))"
proof (cases "ALERT_ENABLED (alert_level s) code")
  case True
  then have "alert_level s AND (code AND ALERT_LVL) \<noteq> 0" "ALERT_LVL AND code \<noteq> 0"
    by (auto simp: ALERT_ENABLED_def and.commute)
  with cilkrts_alert_view [OF ok w] True show ?thesis by (simp add: alert_macro_def)
next
  case False
  then have "alert_level s AND (code AND ALERT_LVL) = 0" by (simp add: ALERT_ENABLED_def and.commute)
  with ok False show ?thesis by (simp add: alert_macro_def log_view_def)
qed

lemma log_run_view:
  "log_ok s \<Longrightarrow> list_all op_ok cs \<Longrightarrow>
   \<exists>s'. log_run cs s = Some s' \<and> log_ok s' \<and> snd (log_view s') = snd (log_view s) @ log_spec cs (alert_level s)"
proof (induction cs arbitrary: s)
  case Nil
  then show ?case by simp
next
  case (Cons c cs)
  show ?case
  proof (cases c)
    case (Set_alert_level a l)
    note v = set_level_view [OF Cons.prems(1), of a l]
    from v(2) have "alert_level (set_alert_level a l s) = l" by (simp add: log_view_def)
    with v Cons.IH [OF v(1)] Cons.prems(2) Set_alert_level show ?thesis by auto
  next
    case Flush_alert_log
    note v = flush_view [OF Cons.prems(1)]
    from v Cons.IH [OF v(1)] Cons.prems(2) Flush_alert_log show ?thesis by auto
  next
    case (Alert code w msg)
    with alert_view [OF Cons.prems(1), of code w msg] Cons.prems(2) obtain s1
      where s1: "alert_macro code w msg s = Some s1" "log_ok s1"
        "log_view s1 = (alert_level s, snd (log_view s) @
          (if ALERT_ENABLED (alert_level s) code then alert_line w msg else []))" by auto
    from s1(3) have "alert_level s1 = alert_level s" by (simp add: log_view_def)
    with s1 Cons.IH [OF s1(2)] Cons.prems(2) Alert show ?thesis by auto
  qed
qed

text \<open>An alert that asks for no buffer has no effect on a log that has one.\<close>

lemma nobuf_keeps_buffer:
  "log_run [Set_alert_level True ALERT_BOOT, Set_alert_level True (ALERT_BOOT OR ALERT_NOBUF), Alert ALERT_BOOT None ''x'']
     alert_start = Some s \<Longrightarrow> stderr s = [] \<and> take 2 (buffered s) = [CHR ''x'', CHR 10]"
  by (auto simp: set_alert_level_def alert_start_def Let_def alert_masks alert_macro_def ALERT_LVL_def
      cilkrts_alert_def write_at_def buffered_def)

section \<open>What a setting means\<close>

fun join :: "char \<Rightarrow> string list \<Rightarrow> string" where
  "join sep [] = []"
| "join sep [s] = s"
| "join sep (s # ss) = s @ sep # join sep ss"

lemma tokens_from_append: "sep \<notin> set t \<Longrightarrow> tokens_from sep acc (t @ s) = tokens_from sep (acc @ t) s"
  by (induction t arbitrary: acc) auto

lemma strtok_join: "\<forall>t \<in> set ts. t \<noteq> [] \<and> sep \<notin> set t \<Longrightarrow> strtok_all sep (join sep ts) = ts"
proof (induction sep ts rule: join.induct)
  case (1 sep)
  then show ?case by (simp add: strtok_all_def)
next
  case (2 sep t)
  then show ?case using tokens_from_append [of sep t "[]" "[]"] by (simp add: strtok_all_def)
next
  case (3 sep t u us)
  then show ?case using tokens_from_append [of sep t "[]" "sep # join sep (u # us)"] by (simp add: strtok_all_def)
qed

lemma table_entry_found:
  "e \<in> set alert_table \<Longrightarrow> parse_alert_level_str (name e) = (mask_value e, [])"
proof -
  have "list_all (\<lambda>e. parse_alert_level_str (name e) = (mask_value e, [])) alert_table" by code_simp
  then show "e \<in> set alert_table \<Longrightarrow> ?thesis" by (simp add: list_all_iff)
qed

lemma table_entry_not_number: "e \<in> set alert_table \<Longrightarrow> strtol_0 (name e) = None"
proof -
  have "list_all (\<lambda>e. strtol_0 (name e) = None) alert_table" by code_simp
  then show "e \<in> set alert_table \<Longrightarrow> ?thesis" by (simp add: list_all_iff)
qed

lemma table_entry_token: "e \<in> set alert_table \<Longrightarrow> name e \<noteq> [] \<and> CHR '','' \<notin> set (name e)"
  by (auto simp: alert_table_def)

lemma or_levels:
  "set es \<subseteq> set alert_table \<Longrightarrow>
   foldl or_level (m, []) (map name es) = (foldl (OR) m (map mask_value es), [])"
  by (induction es arbitrary: m) (auto simp: or_level_def table_entry_found)

lemma join_longer: "us \<noteq> [] \<Longrightarrow> length t < length (join sep (t # us))"
  by (cases us) auto

lemma alert_names_parse:
  assumes "set es \<subseteq> set alert_table"
  shows "parse_alert_level_csv True err cur (join CHR '','' (map name es)) = (foldl (OR) 0 (map mask_value es), [])"
proof (cases es)
  case Nil
  then show ?thesis by (simp add: parse_alert_level_csv_def strtok_all_def ALERT_NONE_def)
next
  case (Cons e es')
  have tok: "strtok_all CHR '','' (join CHR '','' (map name es)) = map name es"
    by (rule strtok_join) (use assms table_entry_token in auto)
  show ?thesis
  proof (cases es')
    case Nil
    with Cons assms tok show ?thesis
      by (simp add: parse_alert_level_csv_def table_entry_not_number or_level_def table_entry_found)
  next
    case (Cons f fs)
    with \<open>es = e # es'\<close> have "length (name e) < length (join CHR '','' (map name es))"
      using join_longer [of "map name es'" "name e"] by simp
    with \<open>es = e # es'\<close> tok or_levels [OF assms, of 0] show ?thesis
      by (simp add: parse_alert_level_csv_def ALERT_NONE_def)
  qed
qed

text \<open>A single setting that begins with a number is that number, whatever follows it.\<close>

lemma number_with_rest_accepted: "parse_alert_level_csv True err cur ''16fiber'' = (16, [])"
proof -
  have "strtol_0 ''16fiber'' = Some (16, ''fiber'')" "strtok_all CHR '','' ''16fiber'' = [''16fiber'']"
    by code_simp+
  then show ?thesis by (simp add: parse_alert_level_csv_def)
qed

section \<open>Properties\<close>

text \<open>
  C28: whatever the order of alerts, changes of the level and flushes, with worker numbers below 10,000: no write
  leaves the buffer and no assertion fails; what was written to standard error, followed by what the buffer
  holds, is the sequence of the lines of the enabled alerts in order, and a flush writes all of it.
\<close>

theorem alerts_in_order:
  assumes "list_all op_ok cs"
  shows "\<exists>s. log_run cs alert_start = Some s
    \<and> stderr s @ buffered s = log_spec cs 0
    \<and> stderr (flush_alert_log s) = log_spec cs 0
    \<and> length (buffered s) \<le> 5000"
proof -
  have "log_ok alert_start" "alert_level alert_start = 0" "snd (log_view alert_start) = []"
    by (simp_all add: alert_start_def log_ok_def log_view_def buffered_def)
  with log_run_view [OF this(1) assms] obtain s where s: "log_run cs alert_start = Some s" "log_ok s"
    "stderr s @ buffered s = log_spec cs 0" by (auto simp: log_view_def)
  moreover from flush_view [OF s(2)] s(3) have "stderr (flush_alert_log s) = log_spec cs 0"
    by (simp add: log_view_def)
  moreover have "length (buffered s) \<le> 5000"
    using s(2) by (auto simp: log_ok_def buffered_def split: option.splits)
  ultimately show ?thesis by blast
qed

lemma decimal_3: "decimal 3 = ''3''"
  by code_simp

lemma alerts_in_order_witness:
  "\<exists>s. log_run [Set_alert_level True ALERT_BOOT, Alert ALERT_BOOT (Some 3) ''up'', Alert ALERT_SCHED None ''no'']
      alert_start = Some s
    \<and> stderr (flush_alert_log s) = ''[W03]: up'' @ [CHR 10]"
  using alerts_in_order [of "[Set_alert_level True ALERT_BOOT, Alert ALERT_BOOT (Some 3) ''up'',
      Alert ALERT_SCHED None ''no'']"]
  by (auto simp: ALERT_ENABLED_def alert_masks ALERT_LVL_def alert_line_def worker_prefix_def decimal_3)

end
