(* ===== verification/Cell_Memory.thy ===== *)
theory Cell_Memory
  imports Prelude
begin

text \<open>
  The memory of the programs under \<open>handcomp_test/\<close>: a partial map from the index of an array element
  to its value. A pointer into an array is the index of the element it points to, so pointer
  arithmetic is integer arithmetic; a cell outside every array has no value, and a load, a store or a
  \<open>memcpy\<close> that touches such a cell is \<open>None\<close>, as is a \<open>memcpy\<close> of overlapping ranges or of a negative
  number of elements (converted to \<open>size_t\<close>, it asks for almost the whole address space).

  \<open>seg m lo hi\<close> reads the elements of the closed range \<open>[lo, hi]\<close> and \<open>put m d xs\<close> writes a list from
  \<open>d\<close> on: the contracts of the test programs are equations over these two.

  A \<open>cilk_spawn\<close> is \<open>spawned\<close>: when the continuation is stolen it runs before or beside the child, and
  the flag says which of the two strands comes first. A program that is correct for every flag does
  not depend on what the scheduler does with its continuations.
\<close>

type_synonym 'a cells = "int \<Rightarrow> 'a option"

definition store_cell :: "'a cells \<Rightarrow> int \<Rightarrow> 'a \<Rightarrow> 'a cells option" where
  "store_cell m p v = (if m p = None then None else Some (m(p \<mapsto> v)))"

primrec copy_cells :: "nat \<Rightarrow> 'a cells \<Rightarrow> int \<Rightarrow> int \<Rightarrow> 'a cells option" where
  "copy_cells 0 m d s = Some m"
| "copy_cells (Suc n) m d s = do {
     v \<leftarrow> m s;
     m \<leftarrow> store_cell m d v;
     copy_cells n m (d + 1) (s + 1)
   }"

definition memcpy_cells :: "'a cells \<Rightarrow> int \<Rightarrow> int \<Rightarrow> int \<Rightarrow> 'a cells option" where
  "memcpy_cells m d s n =
     (if n < 0 \<or> (0 < n \<and> d < s + n \<and> s < d + n) then None else copy_cells (nat n) m d s)"

definition spawned :: "bool \<Rightarrow> ('m \<Rightarrow> 'm option) \<Rightarrow> ('m \<Rightarrow> 'm option) \<Rightarrow> 'm \<Rightarrow> 'm option" where
  "spawned stolen child cont m =
     (if stolen then Option.bind (cont m) child else Option.bind (child m) cont)"

section \<open>Ranges of the memory\<close>

definition seg :: "'a cells \<Rightarrow> int \<Rightarrow> int \<Rightarrow> 'a list" where
  "seg m lo hi = map (\<lambda>i. the (m i)) [lo..hi]"

definition allocated :: "'a cells \<Rightarrow> int \<Rightarrow> int \<Rightarrow> bool" where
  "allocated m lo hi \<longleftrightarrow> (\<forall>i. lo \<le> i \<and> i \<le> hi \<longrightarrow> m i \<noteq> None)"

definition put :: "'a cells \<Rightarrow> int \<Rightarrow> 'a list \<Rightarrow> 'a cells" where
  "put m d xs = (\<lambda>i. if d \<le> i \<and> i < d + int (length xs) then Some (xs ! nat (i - d)) else m i)"

definition apart :: "int \<Rightarrow> int \<Rightarrow> int \<Rightarrow> int \<Rightarrow> bool" where
  "apart lo hi lo' hi' \<longleftrightarrow> hi < lo' \<or> hi' < lo \<or> hi < lo \<or> hi' < lo'"

lemma store_cell_Some: "m p = Some x \<Longrightarrow> store_cell m p v = Some (m(p \<mapsto> v))"
  by (simp add: store_cell_def)

lemma allocated_get: "allocated m lo hi \<Longrightarrow> lo \<le> i \<Longrightarrow> i \<le> hi \<Longrightarrow> m i = Some (the (m i))"
  by (auto simp: allocated_def)

lemma allocated_store:
  "allocated m lo hi \<Longrightarrow> lo \<le> p \<Longrightarrow> p \<le> hi \<Longrightarrow> store_cell m p v = Some (m(p \<mapsto> v))"
  by (auto simp: allocated_def store_cell_def)

lemma allocated_upd [intro]: "allocated m lo hi \<Longrightarrow> allocated (m(p \<mapsto> v)) lo hi"
  by (auto simp: allocated_def)

lemma allocated_sub: "allocated m lo hi \<Longrightarrow> lo \<le> lo' \<Longrightarrow> hi' \<le> hi \<Longrightarrow> allocated m lo' hi'"
  by (auto simp: allocated_def)

lemma allocated_put [simp]: "allocated m lo hi \<Longrightarrow> allocated (put m d xs) lo hi"
  by (auto simp: allocated_def put_def)

lemma seg_empty [simp]: "hi < lo \<Longrightarrow> seg m lo hi = []"
  by (simp add: seg_def)

lemma seg_step: "lo \<le> hi \<Longrightarrow> seg m lo hi = the (m lo) # seg m (lo + 1) hi"
  by (simp add: seg_def upto_rec1)

lemma seg_one [simp]: "seg m lo lo = [the (m lo)]"
  by (simp add: seg_def)

lemma length_seg [simp]: "length (seg m lo hi) = nat (hi - lo + 1)"
  by (simp add: seg_def)

lemma nth_seg: "i < nat (hi - lo + 1) \<Longrightarrow> seg m lo hi ! i = the (m (lo + int i))"
  by (simp add: seg_def)

lemma set_seg: "set (seg m lo hi) = {the (m i) |i. lo \<le> i \<and> i \<le> hi}"
  by (auto simp: seg_def)

lemma seg_cong: "(\<And>i. lo \<le> i \<Longrightarrow> i \<le> hi \<Longrightarrow> m i = m' i) \<Longrightarrow> seg m lo hi = seg m' lo hi"
  by (simp add: seg_def)

lemma seg_append:
  assumes "lo \<le> k + 1" "k \<le> hi"
  shows "seg m lo hi = seg m lo k @ seg m (k + 1) hi"
proof (cases "lo \<le> k")
  case True
  then have "[lo..hi] = [lo..k] @ [k + 1..hi]" using assms by (intro upto_split2) auto
  then show ?thesis by (simp add: seg_def)
next
  case False
  then have "lo = k + 1" using assms by simp
  then show ?thesis by simp
qed

lemma put_Nil [simp]: "put m d [] = m"
  by (rule ext) (auto simp: put_def)

lemma put_Cons: "put m d (x # xs) = put (m(d \<mapsto> x)) (d + 1) xs"
proof (rule ext)
  fix i
  show "put m d (x # xs) i = put (m(d \<mapsto> x)) (d + 1) xs i"
  proof (cases "i \<le> d")
    case True
    then show ?thesis by (auto simp: put_def)
  next
    case False
    then have "nat (i - d) = Suc (nat (i - (d + 1)))" by simp
    then show ?thesis using False by (auto simp: put_def)
  qed
qed

lemma put_append: "put m d (xs @ ys) = put (put m d xs) (d + int (length xs)) ys"
proof (induction xs arbitrary: m d)
  case Nil
  then show ?case by simp
next
  case (Cons x xs)
  have "d + 1 + int (length xs) = d + int (length (x # xs))" by simp
  then show ?case by (simp only: append_Cons put_Cons Cons.IH)
qed

lemma put_outside: "i < d \<or> d + int (length xs) \<le> i \<Longrightarrow> put m d xs i = m i"
  by (auto simp: put_def)

lemma put_inside: "d \<le> i \<Longrightarrow> i < d + int (length xs) \<Longrightarrow> put m d xs i = Some (xs ! nat (i - d))"
  by (auto simp: put_def)

lemma seg_put_apart:
  "apart lo hi d (d + int (length xs) - 1) \<Longrightarrow> seg (put m d xs) lo hi = seg m lo hi"
  by (auto intro!: seg_cong simp: put_def apart_def)

lemma seg_put_same: "hi = d + int (length xs) - 1 \<Longrightarrow> seg (put m d xs) d hi = xs"
  by (rule nth_equalityI) (auto simp: nth_seg put_inside)

lemma seg_put_whole: "length xs = nat (hi - lo + 1) \<Longrightarrow> seg (put m lo xs) lo hi = xs"
  by (rule nth_equalityI) (auto simp: nth_seg put_inside)

lemma put_put_same: "length xs = length ys \<Longrightarrow> put (put m d xs) d ys = put m d ys"
  by (rule ext) (simp add: put_def)

lemma put_seg_same [simp]: "allocated m lo hi \<Longrightarrow> put m lo (seg m lo hi) = m"
  by (rule ext) (auto simp: put_def nth_seg allocated_def)

lemma put_commute:
  "apart d (d + int (length xs) - 1) e (e + int (length ys) - 1) \<Longrightarrow>
   put (put m d xs) e ys = put (put m e ys) d xs"
  by (rule ext) (auto simp: put_def apart_def)

lemma eq_putI:
  assumes "\<And>i. i < lo \<or> hi < i \<Longrightarrow> m' i = m i" "allocated m' lo hi"
  shows "m' = put m lo (seg m' lo hi)"
proof (rule ext)
  fix i
  show "m' i = put m lo (seg m' lo hi) i"
  proof (cases "lo \<le> i \<and> i \<le> hi")
    case True
    then have "put m lo (seg m' lo hi) i = Some (seg m' lo hi ! nat (i - lo))"
      by (intro put_inside) auto
    also have "\<dots> = Some (the (m' i))" using True by (subst nth_seg) auto
    finally show ?thesis using True assms(2) by (auto simp: allocated_def)
  next
    case False
    then show ?thesis using assms(1)[of i] by (auto simp: put_def)
  qed
qed

lemma copy_cells_put:
  assumes "allocated m s (s + int n - 1)" "allocated m d (d + int n - 1)"
    "apart s (s + int n - 1) d (d + int n - 1)"
  shows "copy_cells n m d s = Some (put m d (seg m s (s + int n - 1)))"
  using assms
proof (induction n arbitrary: m d s)
  case 0
  then show ?case by simp
next
  case (Suc n)
  obtain v where v: "m s = Some v" using Suc.prems(1) by (auto simp: allocated_def)
  have st: "store_cell m d v = Some (m(d \<mapsto> v))"
    by (rule allocated_store[OF Suc.prems(2)]) auto
  have a: "seg (m(d \<mapsto> v)) (s + 1) (s + 1 + int n - 1) = seg m (s + 1) (s + int (Suc n) - 1)"
    using Suc.prems(3) by (auto intro!: seg_cong simp: apart_def)
  have "copy_cells n (m(d \<mapsto> v)) (d + 1) (s + 1) =
      Some (put (m(d \<mapsto> v)) (d + 1) (seg (m(d \<mapsto> v)) (s + 1) (s + 1 + int n - 1)))"
    using Suc.prems by (intro Suc.IH) (auto simp: allocated_def apart_def)
  then show ?case using v st a by (simp add: seg_step[of s] put_Cons)
qed

lemma memcpy_cells_put:
  assumes "0 \<le> n" "allocated m s (s + n - 1)" "allocated m d (d + n - 1)"
    "apart s (s + n - 1) d (d + n - 1)"
  shows "memcpy_cells m d s n = Some (put m d (seg m s (s + n - 1)))"
  using assms copy_cells_put[of m s "nat n" d] by (auto simp: memcpy_cells_def apart_def)

lemma memcpy_cells_negative: "n < 0 \<Longrightarrow> memcpy_cells m d s n = None"
  by (simp add: memcpy_cells_def)

section \<open>Spawns\<close>

lemma spawned_cong [fundef_cong]:
  assumes "st = st'" "m = m'" "\<And>x. child x = child' x" "\<And>x. cont x = cont' x"
  shows "spawned st child cont m = spawned st' child' cont' m'"
  using assms by (simp add: spawned_def bind_eq_None_conv cong: Option.bind_cong)

lemma spawned_mono [partial_function_mono]:
  assumes "\<And>x. option.mono_body (\<lambda>f. child f x)" "\<And>x. option.mono_body (\<lambda>f. cont f x)"
  shows "option.mono_body (\<lambda>f. spawned st (child f) (cont f) m)"
  unfolding spawned_def using assms by (cases st) (auto intro!: bind_mono)

text \<open>Two strands that write disjoint ranges and do not read what the other writes give the same
memory in both orders; this is what makes a spawn independent of the scheduler.\<close>

lemma spawned_disjoint:
  assumes "child m = Some (put m d xs)" "cont m = Some (put m e ys)"
    "child (put m e ys) = Some (put (put m e ys) d xs)"
    "cont (put m d xs) = Some (put (put m d xs) e ys)"
    "apart d (d + int (length xs) - 1) e (e + int (length ys) - 1)"
  shows "spawned st child cont m = Some (put (put m d xs) e ys)"
  using assms put_commute[OF assms(5), of m] by (simp add: spawned_def)

text \<open>Strands whose effects on the memories of interest are functions that commute.\<close>

lemma spawned_commuting:
  assumes "\<And>M. P M \<Longrightarrow> child M = Some (F M) \<and> P (F M)" "\<And>M. P M \<Longrightarrow> cont M = Some (G M) \<and> P (G M)"
    "\<And>M. P M \<Longrightarrow> F (G M) = G (F M)" "P m"
  shows "spawned st child cont m = Some (G (F m)) \<and> P (G (F m))"
  using assms by (simp add: spawned_def)

lemma four_spawned:
  assumes c: "\<And>M. P M \<Longrightarrow> c0 M = Some (F0 M) \<and> P (F0 M)" "\<And>M. P M \<Longrightarrow> c1 M = Some (F1 M) \<and> P (F1 M)"
      "\<And>M. P M \<Longrightarrow> c2 M = Some (F2 M) \<and> P (F2 M)" "\<And>M. P M \<Longrightarrow> c3 M = Some (F3 M) \<and> P (F3 M)"
    and com: "\<And>M. P M \<Longrightarrow> F0 (F1 M) = F1 (F0 M)" "\<And>M. P M \<Longrightarrow> F0 (F2 M) = F2 (F0 M)"
      "\<And>M. P M \<Longrightarrow> F0 (F3 M) = F3 (F0 M)" "\<And>M. P M \<Longrightarrow> F1 (F2 M) = F2 (F1 M)"
      "\<And>M. P M \<Longrightarrow> F1 (F3 M) = F3 (F1 M)" "\<And>M. P M \<Longrightarrow> F2 (F3 M) = F3 (F2 M)"
    and m: "P m"
  shows "spawned st0 c0 (spawned st1 c1 (spawned st2 c2 c3)) m = Some (F3 (F2 (F1 (F0 m)))) \<and>
    P (F3 (F2 (F1 (F0 m))))"
proof -
  have p: "P M \<Longrightarrow> P (F0 M)" "P M \<Longrightarrow> P (F1 M)" "P M \<Longrightarrow> P (F2 M)" "P M \<Longrightarrow> P (F3 M)" for M
    using c by blast+
  have c23: "spawned st2 c2 c3 M = Some (F3 (F2 M)) \<and> P (F3 (F2 M))" if "P M" for M
    by (rule spawned_commuting[where P = P and F = F2 and G = F3, OF c(3,4) com(6) that])
  have e1: "F1 (F3 (F2 M)) = F3 (F2 (F1 M))" if "P M" for M
    using com(4)[OF that] com(5)[OF p(3)[OF that]] by simp
  have c123: "spawned st1 c1 (spawned st2 c2 c3) M = Some (F3 (F2 (F1 M))) \<and> P (F3 (F2 (F1 M)))"
    if "P M" for M
    by (rule spawned_commuting[where P = P and F = F1 and G = "\<lambda>M. F3 (F2 M)", OF c(2) c23 e1 that])
  have e0: "F0 (F3 (F2 (F1 M))) = F3 (F2 (F1 (F0 M)))" if "P M" for M
    using com(1)[OF that] com(2)[OF p(2)[OF that]] com(3)[OF p(3)[OF p(2)[OF that]]] by simp
  show ?thesis
    by (rule spawned_commuting[where P = P and F = F0 and G = "\<lambda>M. F3 (F2 (F1 M))", OF c(1) c123 e0 m])
qed

end
