(* ===== verification/Test_Options.thy ===== *)
theory Test_Options
  imports Debug_Log
begin

text \<open>
  What the test programs share: the command-line options of \<open>handcomp_test/getoptions.cpp\<close> and the
  timing library \<open>handcomp_test/ktiming.cpp\<close>.

  \<open>get_options\<close> takes an array of specifiers, an array of their types ended by 0, and one variable per
  specifier; a specifier that is found sets its variable, and the arguments it used are blanked, so
  that what is left at the end is reported as invalid. \<open>atof\<close> is a parameter; \<open>atoi\<close> and \<open>atol\<close> read
  decimal digits after optional blanks and a sign. The floating-point statistics of \<open>ktiming.cpp\<close> are
  not modelled; its integer part is.
\<close>

section \<open>Decimal numbers\<close>

definition atol :: "string \<Rightarrow> int" where
  "atol s =
     (let s1 = dropWhile is_space s;
          neg = (s1 \<noteq> [] \<and> hd s1 = CHR ''-'');
          s2 = (if s1 \<noteq> [] \<and> hd s1 \<in> {CHR ''-'', CHR ''+''} then tl s1 else s1);
          v = int (fst (digits_value 10 0 s2))
      in max (- (2 ^ 63)) (min (2 ^ 63 - 1) (if neg then - v else v)))"

definition atoi :: "string \<Rightarrow> int" where
  "atoi s = signed_take_bit 31 (atol s)"

section \<open>Options\<close>

definition INTARG :: nat where "INTARG = 1"
definition DOUBLEARG :: nat where "DOUBLEARG = 2"
definition LONGARG :: nat where "LONGARG = 3"
definition BOOLARG :: nat where "BOOLARG = 4"
definition STRINGARG :: nat where "STRINGARG = 5"
definition BENCHMARK :: nat where "BENCHMARK = 6"

datatype 'd opt_var = Int_var int | Double_var 'd | Long_var int | String_var string

text \<open>The loop of the options with a value: every occurrence of the specifier with an argument after it
sets the variable.\<close>

primrec scan_pairs ::
    "nat \<Rightarrow> nat \<Rightarrow> string \<Rightarrow> (string \<Rightarrow> 'v) \<Rightarrow> string list \<Rightarrow> 'v \<Rightarrow> string list \<times> 'v" where
  "scan_pairs 0 i spec conv argv v = (argv, v)"
| "scan_pairs (Suc k) i spec conv argv v =
     (if argv ! i = spec
      then scan_pairs k (i + 1) spec conv (argv[i := [], i + 1 := []]) (conv (argv ! (i + 1)))
      else scan_pairs k (i + 1) spec conv argv v)"

primrec scan_flags :: "nat \<Rightarrow> nat \<Rightarrow> string \<Rightarrow> string list \<Rightarrow> int \<Rightarrow> string list \<times> int" where
  "scan_flags 0 i spec argv v = (argv, v)"
| "scan_flags (Suc k) i spec argv v =
     (if argv ! i = spec then scan_flags k (i + 1) spec (argv[i := []]) 1
      else scan_flags k (i + 1) spec argv v)"

definition benchmark_level :: "string \<Rightarrow> int" where
  "benchmark_level s =
     (let v = 2;
          v = (if s = ''short'' then 1 else v);
          v = (if s = ''medium'' then 2 else v)
      in if s = ''long'' then 3 else v)"

primrec scan_benchmark :: "nat \<Rightarrow> nat \<Rightarrow> string \<Rightarrow> string list \<Rightarrow> int \<Rightarrow> string list \<times> int" where
  "scan_benchmark 0 i spec argv v = (argv, v)"
| "scan_benchmark (Suc k) i spec argv v =
     (if argv ! i = spec
      then (if i + 1 < length argv
            then scan_benchmark k (i + 1) spec (argv[i + 1 := [], i := []]) (benchmark_level (argv ! (i + 1)))
            else scan_benchmark k (i + 1) spec (argv[i := []]) 2)
      else scan_benchmark k (i + 1) spec argv v)"

definition read_option ::
    "(string \<Rightarrow> 'd) \<Rightarrow> nat \<Rightarrow> string \<Rightarrow> string list \<Rightarrow> 'd opt_var \<Rightarrow> string list \<times> 'd opt_var" where
  "read_option atof type spec argv var =
     (let pairs = length argv - 2; args = length argv - 1 in
      if type = INTARG then scan_pairs pairs 1 spec (\<lambda>a. Int_var (atoi a)) argv var
      else if type = DOUBLEARG then scan_pairs pairs 1 spec (\<lambda>a. Double_var (atof a)) argv var
      else if type = LONGARG then scan_pairs pairs 1 spec (\<lambda>a. Long_var (atol a)) argv var
      else if type = BOOLARG then map_prod id Int_var (scan_flags args 1 spec argv 0)
      else if type = STRINGARG then scan_pairs pairs 1 spec String_var argv var
      else map_prod id Int_var (scan_benchmark args 1 spec argv 0))"

text \<open>The specifiers are used up in step with the types; running out of specifiers or variables first
reads past their arrays. A type that is none of the six uses no variable.\<close>

fun options_loop ::
    "(string \<Rightarrow> 'd) \<Rightarrow> nat list \<Rightarrow> string list \<Rightarrow> string list \<Rightarrow> 'd opt_var list \<Rightarrow> (string list \<times> 'd opt_var list) option"
  where
  "options_loop atof [] specs argv vars = None"
| "options_loop atof (type # types) specs argv vars =
     (if type = 0 then Some (argv, vars)
      else case specs of
        [] \<Rightarrow> None
      | spec # specs' \<Rightarrow>
          if type > BENCHMARK then options_loop atof types specs' argv vars
          else (case vars of
              [] \<Rightarrow> None
            | var # vars' \<Rightarrow> do {
                let (argv, var) = read_option atof type spec argv var;
                (argv, vars) \<leftarrow> options_loop atof types specs' argv vars';
                Some (argv, var # vars)
              }))"

definition invalid_option :: "string \<Rightarrow> string" where
  "invalid_option arg = CHR 10 # ''Invalid option: '' @ arg @ [CHR 10]"

definition get_options ::
    "(string \<Rightarrow> 'd) \<Rightarrow> string list \<Rightarrow> string list \<Rightarrow> nat list \<Rightarrow> 'd opt_var list \<Rightarrow> ('d opt_var list \<times> string list) option"
  where
  "get_options atof argv specs types vars = do {
     (argv, vars) \<leftarrow> options_loop atof types specs argv vars;
     Some (vars, map invalid_option (filter (\<lambda>a. a \<noteq> []) (tl argv)))
   }"

section \<open>Timing\<close>

definition ktiming_getmark :: "u64 \<Rightarrow> u64 \<Rightarrow> u64" where
  "ktiming_getmark tv_sec tv_nsec = tv_nsec + tv_sec * 1000 * 1000 * 1000"

definition ktiming_diff_nsec :: "u64 \<Rightarrow> u64 \<Rightarrow> u64" where
  "ktiming_diff_nsec start end' = end' - start"

text \<open>The integer part of \<open>print_runtime_helper\<close>: the sum of the times and their average, a division
by the number of times.\<close>

definition average_runtime :: "u64 list \<Rightarrow> u64 option" where
  "average_runtime nsec_elapsed =
     (let total = fold (\<lambda>t total. total + t) nsec_elapsed 0; size' = of_nat (length nsec_elapsed) :: u64
      in if size' = 0 then None else Some (total div size'))"

text \<open>The times of \<open>k\<close> runs, from the marks of the clock before and after each.\<close>

definition elapsed_times :: "(nat \<Rightarrow> u64) \<Rightarrow> nat \<Rightarrow> u64 list" where
  "elapsed_times clock k = map (\<lambda>i. ktiming_diff_nsec (clock (2 * i)) (clock (2 * i + 1))) [0..<k]"

lemma average_of_no_times: "average_runtime [] = None"
  by (simp add: average_runtime_def)

lemma average_of_times: "ts \<noteq> [] \<Longrightarrow> length ts < 2 ^ 31 \<Longrightarrow> \<exists>ave. average_runtime ts = Some ave"
  by (auto simp: average_runtime_def Let_def word_of_nat_eq_0_iff dest: nat_dvd_not_less)

lemma elapsed_times_average:
  "0 < k \<Longrightarrow> k < 2 ^ 31 \<Longrightarrow> \<exists>ave. average_runtime (elapsed_times clock k) = Some ave"
  using average_of_times[of "elapsed_times clock k"] by (simp add: elapsed_times_def)

text \<open>Two marks of a clock whose seconds fit differ by the time between them.\<close>

lemma ktiming_diff_getmark:
  assumes "s < 2 ^ 33" "s' < 2 ^ 33" "ns < 10 ^ 9" "ns' < 10 ^ 9" "s * 10 ^ 9 + ns \<le> s' * 10 ^ 9 + ns'"
  shows "unat (ktiming_diff_nsec (ktiming_getmark (of_nat s) (of_nat ns)) (ktiming_getmark (of_nat s') (of_nat ns'))) =
    (s' * 10 ^ 9 + ns') - (s * 10 ^ 9 + ns)"
proof -
  have m: "ktiming_getmark (of_nat a) (of_nat b) = of_nat (a * 10 ^ 9 + b)" for a b
    by (simp add: ktiming_getmark_def)
  have "of_nat (s' * 10 ^ 9 + ns') - of_nat (s * 10 ^ 9 + ns) =
      (of_nat ((s' * 10 ^ 9 + ns') - (s * 10 ^ 9 + ns)) :: u64)"
    by (rule of_nat_diff[symmetric]) (rule assms(5))
  moreover have "(s' * 10 ^ 9 + ns') - (s * 10 ^ 9 + ns) < 2 ^ 64" using assms by simp
  ultimately show ?thesis
    unfolding ktiming_diff_nsec_def m by (simp add: unsigned_of_nat take_bit_nat_eq_self_iff)
qed

section \<open>Reading back what was written\<close>

lemma digits_value_append:
  "list_all (\<lambda>c. digit_of c < base) xs \<Longrightarrow>
   digits_value base v (xs @ ys) = digits_value base (fst (digits_value base v xs)) ys"
  by (induction xs arbitrary: v) auto

lemma digit_of_char: "d < 10 \<Longrightarrow> digit_of (char_of (48 + d)) = d"
  by (simp add: digit_of_def Let_def)

lemma decimal_digits: "list_all (\<lambda>c. digit_of c < 10 \<and> 48 \<le> (of_char c :: nat) \<and> (of_char c :: nat) \<le> 57) (decimal n)"
proof (induction n rule: decimal.induct)
  case (1 n)
  have c: "d < 10 \<Longrightarrow> (of_char (char_of (48 + d)) :: nat) = 48 + d" for d :: nat by simp
  show ?case
  proof (cases "n < 10")
    case True
    then show ?thesis by (subst decimal.simps) (simp add: digit_of_char c)
  next
    case False
    then show ?thesis using 1 by (subst decimal.simps) (simp add: digit_of_char c)
  qed
qed

lemma digits_value_decimal: "digits_value 10 0 (decimal n) = (n, [])"
proof (induction n rule: decimal.induct)
  case (1 n)
  show ?case
  proof (cases "n < 10")
    case True
    then show ?thesis by (subst decimal.simps) (simp add: digit_of_char)
  next
    case False
    have "list_all (\<lambda>c. digit_of c < 10) (decimal (n div 10))"
      using decimal_digits[of "n div 10"] by (auto simp: list_all_iff)
    from digits_value_append[OF this, of 0 "[char_of (48 + n mod 10)]"] show ?thesis
      using 1 False by (subst decimal.simps) (simp add: digit_of_char)
  qed
qed

lemma decimal_nonempty: "decimal n \<noteq> []"
  by (subst decimal.simps) simp

lemma atol_decimal:
  assumes "n < 2 ^ 63"
  shows "atol (decimal n) = int n"
proof -
  obtain c cs where d: "decimal n = c # cs" using decimal_nonempty by (cases "decimal n") auto
  then have c: "48 \<le> (of_char c :: nat)" "(of_char c :: nat) \<le> 57"
    using decimal_digits[of n] by auto
  have "\<not> is_space c" using c by (auto simp: is_space_def)
  moreover have "c \<noteq> CHR ''-''" "c \<noteq> CHR ''+''" using c by auto
  ultimately have "atol (decimal n) = max (- (2 ^ 63)) (min (2 ^ 63 - 1) (int n))"
    using digits_value_decimal[of n] by (simp add: atol_def Let_def d)
  then show ?thesis using assms by simp
qed

text \<open>The command line that says what a test program with the options \<open>-n size\<close>, \<open>-c\<close> and \<open>-h\<close> is to
do, and that it is read back.\<close>

definition benchmark_args :: "nat option \<Rightarrow> bool \<Rightarrow> bool \<Rightarrow> string list" where
  "benchmark_args n check help =
     (case n of None \<Rightarrow> [] | Some k \<Rightarrow> [''-n'', decimal k]) @
     (if check then [''-c''] else []) @ (if help then [''-h''] else [])"

definition specifiers :: "string list" where
  "specifiers = [''-n'', ''-c'', ''-h'']"

definition opt_types :: "nat list" where
  "opt_types = [LONGARG, BOOLARG, BOOLARG, 0]"

lemma decimal_not_option: "decimal k \<noteq> CHR ''-'' # cs"
proof
  assume "decimal k = CHR ''-'' # cs"
  then show False using decimal_digits[of k] by simp
qed

lemma benchmark_args_read:
  assumes "\<forall>k. n = Some k \<longrightarrow> k < 2 ^ 63"
  shows "get_options atof (prog # benchmark_args n check help) specifiers opt_types
      [Long_var size0, Int_var check0, Int_var help0] =
    Some ([Long_var (case n of None \<Rightarrow> size0 | Some k \<Rightarrow> int k), Int_var (of_bool check), Int_var (of_bool help)], [])"
proof -
  note d = get_options_def specifiers_def opt_types_def benchmark_args_def read_option_def
    INTARG_def DOUBLEARG_def LONGARG_def BOOLARG_def STRINGARG_def BENCHMARK_def Let_def decimal_not_option
  show ?thesis
  proof (cases n)
    case None
    then show ?thesis by (cases check; cases "help") (simp_all add: d)
  next
    case (Some k)
    then show ?thesis
      using atol_decimal[of k] assms by (cases check; cases "help") (simp_all add: d decimal_nonempty numeral_2_eq_2)
  qed
qed

section \<open>Types of the variables and reported arguments\<close>

definition var_has_type :: "nat \<Rightarrow> 'd opt_var \<Rightarrow> bool" where
  "var_has_type type var \<longleftrightarrow> 1 \<le> type \<and> type \<le> BENCHMARK \<and>
     (case var of
        Int_var i \<Rightarrow> type = INTARG \<or> type = BOOLARG \<or> type = BENCHMARK
      | Double_var d \<Rightarrow> type = DOUBLEARG
      | Long_var i \<Rightarrow> type = LONGARG
      | String_var s \<Rightarrow> type = STRINGARG)"

lemmas type_code_defs = INTARG_def DOUBLEARG_def LONGARG_def BOOLARG_def STRINGARG_def BENCHMARK_def

lemma scan_pairs_keeps: "P v \<Longrightarrow> (\<And>a. P (conv a)) \<Longrightarrow> P (snd (scan_pairs k i spec conv argv v))"
  by (induction k arbitrary: i argv v) auto

lemma read_option_type:
  assumes v: "var_has_type type var"
  shows "var_has_type type (snd (read_option atof type spec argv var))"
proof -
  have codes: "type = INTARG \<or> type = DOUBLEARG \<or> type = LONGARG \<or> type = BOOLARG \<or> type = STRINGARG \<or> type = BENCHMARK"
    using v by (auto simp: var_has_type_def type_code_defs)
  have new: "var_has_type INTARG (Int_var i :: 'a opt_var)" "var_has_type BOOLARG (Int_var i :: 'a opt_var)"
    "var_has_type BENCHMARK (Int_var i :: 'a opt_var)" "var_has_type DOUBLEARG (Double_var d :: 'a opt_var)"
    "var_has_type LONGARG (Long_var i :: 'a opt_var)" "var_has_type STRINGARG (String_var s :: 'a opt_var)"
    for i s d
    by (simp_all add: var_has_type_def type_code_defs)
  have pairs: "var_has_type type (snd (scan_pairs k i spec conv argv var))"
    if "\<And>a. var_has_type type (conv a)" for k i and conv :: "string \<Rightarrow> 'a opt_var"
    by (rule scan_pairs_keeps) (use v that in auto)
  have "INTARG \<noteq> DOUBLEARG" "INTARG \<noteq> LONGARG" "INTARG \<noteq> BOOLARG" "INTARG \<noteq> STRINGARG" "INTARG \<noteq> BENCHMARK"
    "DOUBLEARG \<noteq> LONGARG" "DOUBLEARG \<noteq> BOOLARG" "DOUBLEARG \<noteq> STRINGARG" "DOUBLEARG \<noteq> BENCHMARK"
    "LONGARG \<noteq> BOOLARG" "LONGARG \<noteq> STRINGARG" "LONGARG \<noteq> BENCHMARK" "BOOLARG \<noteq> STRINGARG"
    "BOOLARG \<noteq> BENCHMARK" "STRINGARG \<noteq> BENCHMARK"
    by (simp_all add: type_code_defs)
  then show ?thesis
    using codes pairs new unfolding read_option_def Let_def by (elim disjE) (simp_all add: snd_map_prod)
qed

text \<open>Arguments that neither are the specifier nor follow it are left alone.\<close>

definition untouched :: "string \<Rightarrow> string list \<Rightarrow> string list \<Rightarrow> bool" where
  "untouched spec argv argv' \<longleftrightarrow> length argv' = length argv \<and>
     (\<forall>i < length argv. argv' ! i \<noteq> argv ! i \<longrightarrow> argv' ! i = []) \<and>
     (\<forall>i < length argv. 0 < i \<and> argv ! i \<noteq> spec \<and> argv ! (i - 1) \<noteq> spec \<longrightarrow> argv' ! i = argv ! i)"

lemma untouched_refl: "untouched spec argv argv"
  by (simp add: untouched_def)

text \<open>Blanking a specifier that was found, and perhaps its successor.\<close>

lemma untouched_blank:
  assumes "untouched spec argv0 argv" "0 < i" "spec \<noteq> []" "argv ! i = spec"
    and b: "b \<in> {argv[i := []], argv[i := [], i + 1 := []], argv[i + 1 := [], i := []]}"
  shows "untouched spec argv0 b"
proof (cases "i < length argv")
  case False
  then have "b = argv" using b by (auto simp: list_update_beyond)
  then show ?thesis using assms(1) by simp
next
  case True
  have orig: "argv0 ! i = spec" using assms(1,3,4) True unfolding untouched_def by metis
  have len: "length b = length argv" using b by auto
  have nth: "b ! j = [] \<and> (j = i \<or> j = i + 1) \<or> b ! j = argv ! j" if "j < length argv" for j
    using b that by (cases "j = i"; cases "j = i + 1") auto
  show ?thesis
    unfolding untouched_def
  proof (intro conjI allI impI)
    show "length b = length argv0" using len assms(1) by (simp add: untouched_def)
    show "b ! j = []" if "j < length argv0" "b ! j \<noteq> argv0 ! j" for j
      using nth[of j] that assms(1) unfolding untouched_def by metis
    show "b ! j = argv0 ! j"
      if "j < length argv0" "0 < j \<and> argv0 ! j \<noteq> spec \<and> argv0 ! (j - 1) \<noteq> spec" for j
    proof -
      have "j \<noteq> i" "j \<noteq> i + 1" using that orig by auto
      then show ?thesis using nth[of j] that assms(1) unfolding untouched_def by metis
    qed
  qed
qed

lemma scan_pairs_untouched:
  assumes "untouched spec argv0 argv" "0 < i" "spec \<noteq> []"
  shows "untouched spec argv0 (fst (scan_pairs k i spec conv argv v))"
  using assms
proof (induction k arbitrary: i argv v)
  case 0
  then show ?case by simp
next
  case (Suc k)
  have "untouched spec argv0 (argv[i := [], i + 1 := []])" if "argv ! i = spec"
    by (rule untouched_blank[OF Suc.prems(1,2,3) that]) auto
  then show ?case using Suc by simp
qed

lemma scan_flags_untouched:
  assumes "untouched spec argv0 argv" "0 < i" "spec \<noteq> []"
  shows "untouched spec argv0 (fst (scan_flags k i spec argv v))"
  using assms
proof (induction k arbitrary: i argv v)
  case 0
  then show ?case by simp
next
  case (Suc k)
  have "untouched spec argv0 (argv[i := []])" if "argv ! i = spec"
    by (rule untouched_blank[OF Suc.prems(1,2,3) that]) auto
  then show ?case using Suc by simp
qed

lemma scan_benchmark_untouched:
  assumes "untouched spec argv0 argv" "0 < i" "spec \<noteq> []"
  shows "untouched spec argv0 (fst (scan_benchmark k i spec argv v))"
  using assms
proof (induction k arbitrary: i argv v)
  case 0
  then show ?case by simp
next
  case (Suc k)
  have "untouched spec argv0 (argv[i := []])" "untouched spec argv0 (argv[i + 1 := [], i := []])" if "argv ! i = spec"
    by (rule untouched_blank[OF Suc.prems(1,2,3) that], auto)+
  then show ?case using Suc by simp
qed

lemma read_option_untouched:
  "spec \<noteq> [] \<Longrightarrow> untouched spec argv (fst (read_option atof type spec argv var))"
  unfolding read_option_def Let_def
  by (simp add: fst_map_prod scan_pairs_untouched scan_flags_untouched scan_benchmark_untouched untouched_refl)

lemma options_loop_types:
  assumes "list_all2 var_has_type types vars" "length specs = length types" "[] \<notin> set specs"
  shows "\<exists>argv' vars'. options_loop atof (types @ [0]) specs argv vars = Some (argv', vars') \<and>
    list_all2 var_has_type types vars' \<and> length argv' = length argv \<and>
    (\<forall>i < length argv. 0 < i \<and> argv ! i \<notin> set specs \<and> argv ! (i - 1) \<notin> set specs \<longrightarrow> argv' ! i = argv ! i)"
  using assms
proof (induction types arbitrary: vars specs argv)
  case Nil
  then show ?case by simp
next
  case (Cons type types)
  obtain var vs where v: "vars = var # vs" "var_has_type type var" "list_all2 var_has_type types vs"
    using Cons.prems(1) by (auto simp: list_all2_Cons1)
  obtain spec ss where sp: "specs = spec # ss" "length ss = length types" "[] \<notin> set ss" "spec \<noteq> []"
    using Cons.prems(2,3) by (cases specs) auto
  obtain argv1 var1 where r: "read_option atof type spec argv var = (argv1, var1)" by fastforce
  have t1: "var_has_type type var1" using read_option_type[OF v(2), of atof spec argv] r by simp
  have u: "untouched spec argv argv1" using read_option_untouched[OF sp(4), of argv atof type var] r by simp
  obtain argv' vs' where IH: "options_loop atof (types @ [0]) ss argv1 vs = Some (argv', vs')"
      "list_all2 var_has_type types vs'" "length argv' = length argv1"
      "\<forall>i < length argv1. 0 < i \<and> argv1 ! i \<notin> set ss \<and> argv1 ! (i - 1) \<notin> set ss \<longrightarrow> argv' ! i = argv1 ! i"
    using Cons.IH[OF v(3) sp(2,3)] by blast
  have "argv' ! i = argv ! i" if i: "i < length argv" "0 < i" "argv ! i \<notin> set specs" "argv ! (i - 1) \<notin> set specs" for i
  proof -
    have "argv1 ! i = argv ! i" using u i sp(1) by (auto simp: untouched_def)
    moreover have "argv1 ! (i - 1) \<notin> set ss"
    proof (cases "argv1 ! (i - 1) = argv ! (i - 1)")
      case True
      then show ?thesis using i sp(1) by auto
    next
      case False
      then have "argv1 ! (i - 1) = []" using u i(1) by (auto simp: untouched_def)
      then show ?thesis using sp(3) by simp
    qed
    moreover have "length argv1 = length argv" using u by (simp add: untouched_def)
    ultimately show ?thesis using IH(4) i sp(1) by auto
  qed
  moreover have "type \<noteq> 0" "\<not> BENCHMARK < type" using v(2) by (auto simp: var_has_type_def)
  then have "options_loop atof ((type # types) @ [0]) specs argv vars = Some (argv', var1 # vs')"
    using IH(1) r by (simp add: v(1) sp(1))
  ultimately show ?case using IH(2,3) t1 u by (auto simp: untouched_def)
qed

section \<open>Properties\<close>



text \<open>No argument is ignored silently: one that is no specifier and does not follow one is reported
as invalid.\<close>

theorem unknown_arguments_reported:
  assumes "list_all2 var_has_type types vars" "length specs = length types" "[] \<notin> set specs"
    and "0 < i" "i < length argv" "argv ! i \<notin> set specs" "argv ! (i - 1) \<notin> set specs" "argv ! i \<noteq> []"
  shows "\<exists>vars' msgs. get_options atof argv specs (types @ [0]) vars = Some (vars', msgs) \<and>
    invalid_option (argv ! i) \<in> set msgs"
proof -
  obtain argv' vars' where o: "options_loop atof (types @ [0]) specs argv vars = Some (argv', vars')"
      "length argv' = length argv" "argv' ! i = argv ! i"
    using options_loop_types[OF assms(1-3), of atof argv] assms(4-7) by blast
  have "argv' ! i \<in> set (tl argv')"
    using assms(4,5) o(2) by (cases argv') (auto simp: nth_Cons' intro!: nth_mem)
  then show ?thesis using o assms(8) by (auto simp: get_options_def)
qed

lemma unknown_arguments_reported_witness:
  "\<exists>vars' msgs. get_options (\<lambda>_. 0 :: int) [''prog'', ''-n'', ''7'', ''-x''] specifiers opt_types
      [Long_var 1024, Int_var 0, Int_var 0] = Some (vars', msgs) \<and> invalid_option ''-x'' \<in> set msgs"
  using unknown_arguments_reported[of "[LONGARG, BOOLARG, BOOLARG]" "[Long_var 1024, Int_var 0, Int_var 0]" specifiers
      3 "[''prog'', ''-n'', ''7'', ''-x'']" "\<lambda>_. 0 :: int"]
  by (simp add: specifiers_def opt_types_def var_has_type_def type_code_defs)

text \<open>What the comment of \<open>getoptions.h\<close> says of \<open>-benchmark long\<close> is another number.\<close>

lemma benchmark_long: "benchmark_level ''long'' = 3"
  by (simp add: benchmark_level_def)

end
