(* ===== verification/Cilksort.thy ===== *)
theory Cilksort
  imports Cell_Memory Test_Options
begin

text \<open>
  The program \<open>handcomp_test/cilksort.cpp\<close>, a parallel mergesort over the spawn primitives of the
  runtime: quicksort with a switch to insertion sort below \<open>QUICKSIZE\<close> elements, the sequential merge
  with its fast and its slow loop, the binary search that splits a merge, the parallel merge, the
  parallel sort, and the loops of \<open>main\<close> that fill, scramble and check the array.

  An \<open>ELM\<close> is a \<open>long\<close> that is only compared and copied, so it is an \<open>int\<close> here; a pointer is the index
  of its cell. A loop or recursion whose end depends on the contents of the array is a
  \<open>partial_function\<close>, so that not returning is \<open>None\<close>, as is a load or a store outside the arrays. A
  schedule says of every spawn, named by its path in the spawn tree, whether its continuation is
  stolen and runs first. Frames, detach and the epilogues are modelled in the theories of the
  scheduler.
\<close>

type_synonym elm = int
type_synonym emem = "elm cells"
type_synonym schedule = "nat list \<Rightarrow> bool"

definition under :: "schedule \<Rightarrow> nat \<Rightarrow> schedule" where
  "under s k = (\<lambda>p. s (k # p))"

definition MERGESIZE :: int where "MERGESIZE = 1024"
definition QUICKSIZE :: int where "QUICKSIZE = 1024"
definition INSERTIONSIZE :: int where "INSERTIONSIZE = 20"

section \<open>Random numbers\<close>

definition my_rand :: "u64 \<Rightarrow> u64" where
  "my_rand rand_nxt = rand_nxt * 1103515245 + 12345"

definition my_srand :: "u64 \<Rightarrow> u64" where
  "my_srand seed = seed"

section \<open>Quicksort\<close>

definition med3 :: "elm \<Rightarrow> elm \<Rightarrow> elm \<Rightarrow> elm" where
  "med3 a b c =
     (if a < b then (if b < c then b else if a < c then c else a)
      else (if b > c then b else if a > c then c else a))"

definition choose_pivot :: "emem \<Rightarrow> int \<Rightarrow> int \<Rightarrow> elm option" where
  "choose_pivot m low high = do {
     a \<leftarrow> m low;
     b \<leftarrow> m high;
     c \<leftarrow> m (low + (high - low) div 2);
     Some (med3 a b c)
   }"

partial_function (option) scan_high :: "emem \<Rightarrow> elm \<Rightarrow> int \<Rightarrow> (int \<times> elm) option" where
  "scan_high m pivot curr_high = do {
     h \<leftarrow> m curr_high;
     if h > pivot then scan_high m pivot (curr_high - 1) else Some (curr_high, h)
   }"

partial_function (option) scan_low :: "emem \<Rightarrow> elm \<Rightarrow> int \<Rightarrow> (int \<times> elm) option" where
  "scan_low m pivot curr_low = do {
     l \<leftarrow> m curr_low;
     if l < pivot then scan_low m pivot (curr_low + 1) else Some (curr_low, l)
   }"

partial_function (option) seqpart_loop ::
    "emem \<Rightarrow> elm \<Rightarrow> int \<Rightarrow> int \<Rightarrow> (emem \<times> int) option" where
  "seqpart_loop m pivot curr_low curr_high = do {
     (curr_high, h) \<leftarrow> scan_high m pivot curr_high;
     (curr_low, l) \<leftarrow> scan_low m pivot curr_low;
     if curr_low \<ge> curr_high then Some (m, curr_high)
     else do {
       m \<leftarrow> store_cell m curr_high l;
       m \<leftarrow> store_cell m curr_low h;
       seqpart_loop m pivot (curr_low + 1) (curr_high - 1)
     }
   }"

definition seqpart :: "emem \<Rightarrow> int \<Rightarrow> int \<Rightarrow> (emem \<times> int) option" where
  "seqpart m low high = do {
     pivot \<leftarrow> choose_pivot m low high;
     (m, curr_high) \<leftarrow> seqpart_loop m pivot low high;
     Some (m, if curr_high < high then curr_high else curr_high - 1)
   }"

function insertion_shift :: "emem \<Rightarrow> int \<Rightarrow> elm \<Rightarrow> int \<Rightarrow> (emem \<times> int) option" where
  "insertion_shift m low a p =
     (if p \<ge> low then do {
        b \<leftarrow> m p;
        if b > a then do {
          m \<leftarrow> store_cell m (p + 1) b;
          insertion_shift m low a (p - 1)
        } else Some (m, p)
      } else Some (m, p))"
  by pat_completeness auto
termination by (relation "measure (\<lambda>(m, low, a, p). nat (p + 1 - low))") auto

function insertion_loop :: "emem \<Rightarrow> int \<Rightarrow> int \<Rightarrow> int \<Rightarrow> emem option" where
  "insertion_loop m low high q =
     (if q \<le> high then do {
        a \<leftarrow> m q;
        (m, p) \<leftarrow> insertion_shift m low a (q - 1);
        m \<leftarrow> store_cell m (p + 1) a;
        insertion_loop m low high (q + 1)
      } else Some m)"
  by pat_completeness auto
termination by (relation "measure (\<lambda>(m, low, high, q). nat (high + 1 - q))") auto

declare insertion_shift.simps [simp del] insertion_loop.simps [simp del]

definition insertion_sort :: "emem \<Rightarrow> int \<Rightarrow> int \<Rightarrow> emem option" where
  "insertion_sort m low high = insertion_loop m low high (low + 1)"

partial_function (option) seqquick :: "emem \<Rightarrow> int \<Rightarrow> int \<Rightarrow> emem option" where
  "seqquick m low high =
     (if high - low \<ge> INSERTIONSIZE then do {
        (m, p) \<leftarrow> seqpart m low high;
        m \<leftarrow> seqquick m low p;
        seqquick m (p + 1) high
      } else insertion_sort m low high)"

section \<open>Sequential merge\<close>

partial_function (option) seqmerge_fast ::
    "emem \<Rightarrow> int \<Rightarrow> int \<Rightarrow> int \<Rightarrow> int \<Rightarrow> int \<Rightarrow> elm \<Rightarrow> elm \<Rightarrow> (emem \<times> int \<times> int \<times> int) option" where
  "seqmerge_fast m low1 high1 low2 high2 lowdest a1 a2 =
     (if a1 < a2 then do {
        m \<leftarrow> store_cell m lowdest a1;
        a1 \<leftarrow> m (low1 + 1);
        if low1 + 1 \<ge> high1 then Some (m, low1 + 1, low2, lowdest + 1)
        else seqmerge_fast m (low1 + 1) high1 low2 high2 (lowdest + 1) a1 a2
      } else do {
        m \<leftarrow> store_cell m lowdest a2;
        a2 \<leftarrow> m (low2 + 1);
        if low2 + 1 \<ge> high2 then Some (m, low1, low2 + 1, lowdest + 1)
        else seqmerge_fast m low1 high1 (low2 + 1) high2 (lowdest + 1) a1 a2
      })"

partial_function (option) seqmerge_slow ::
    "emem \<Rightarrow> int \<Rightarrow> int \<Rightarrow> int \<Rightarrow> int \<Rightarrow> int \<Rightarrow> elm \<Rightarrow> elm \<Rightarrow> (emem \<times> int \<times> int \<times> int) option" where
  "seqmerge_slow m low1 high1 low2 high2 lowdest a1 a2 =
     (if a1 < a2 then do {
        m \<leftarrow> store_cell m lowdest a1;
        if low1 + 1 > high1 then Some (m, low1 + 1, low2, lowdest + 1)
        else do {
          a1 \<leftarrow> m (low1 + 1);
          seqmerge_slow m (low1 + 1) high1 low2 high2 (lowdest + 1) a1 a2
        }
      } else do {
        m \<leftarrow> store_cell m lowdest a2;
        if low2 + 1 > high2 then Some (m, low1, low2 + 1, lowdest + 1)
        else do {
          a2 \<leftarrow> m (low2 + 1);
          seqmerge_slow m low1 high1 (low2 + 1) high2 (lowdest + 1) a1 a2
        }
      })"

definition seqmerge :: "emem \<Rightarrow> int \<Rightarrow> int \<Rightarrow> int \<Rightarrow> int \<Rightarrow> int \<Rightarrow> emem option" where
  "seqmerge m low1 high1 low2 high2 lowdest = do {
     (m, low1, low2, lowdest) \<leftarrow>
       (if low1 < high1 \<and> low2 < high2 then do {
          a1 \<leftarrow> m low1;
          a2 \<leftarrow> m low2;
          seqmerge_fast m low1 high1 low2 high2 lowdest a1 a2
        } else Some (m, low1, low2, lowdest));
     (m, low1, low2, lowdest) \<leftarrow>
       (if low1 \<le> high1 \<and> low2 \<le> high2 then do {
          a1 \<leftarrow> m low1;
          a2 \<leftarrow> m low2;
          seqmerge_slow m low1 high1 low2 high2 lowdest a1 a2
        } else Some (m, low1, low2, lowdest));
     if low1 > high1 then memcpy_cells m lowdest low2 (high2 - low2 + 1)
     else memcpy_cells m lowdest low1 (high1 - low1 + 1)
   }"

section \<open>Parallel merge and sort\<close>

partial_function (option) binsplit :: "emem \<Rightarrow> elm \<Rightarrow> int \<Rightarrow> int \<Rightarrow> int option" where
  "binsplit m val low high =
     (if low \<noteq> high then do {
        v \<leftarrow> m (low + (high - low + 1) div 2);
        if val \<le> v then binsplit m val low (low + (high - low + 1) div 2 - 1)
        else binsplit m val (low + (high - low + 1) div 2) high
      } else do {
        v \<leftarrow> m low;
        Some (if v > val then low - 1 else low)
      })"

partial_function (option) cilkmerge ::
    "schedule \<Rightarrow> emem \<Rightarrow> int \<Rightarrow> int \<Rightarrow> int \<Rightarrow> int \<Rightarrow> int \<Rightarrow> emem option" where
  "cilkmerge s m low1 high1 low2 high2 lowdest =
     (let (low1, high1, low2, high2) =
        (if high2 - low2 > high1 - low1 then (low2, high2, low1, high1) else (low1, high1, low2, high2))
      in
      if high1 < low1 then memcpy_cells m lowdest low2 (high2 - low2)
      else if high2 - low2 < MERGESIZE then seqmerge m low1 high1 low2 high2 lowdest
      else do {
        let split1 = (high1 - low1 + 1) div 2 + low1;
        pivot \<leftarrow> m split1;
        split2 \<leftarrow> binsplit m pivot low2 high2;
        let lowsize = split1 - low1 + split2 - low2;
        m \<leftarrow> store_cell m (lowdest + lowsize + 1) pivot;
        spawned (s [0])
          (\<lambda>m. cilkmerge (under s 0) m low1 (split1 - 1) low2 split2 lowdest)
          (\<lambda>m. cilkmerge (under s 1) m (split1 + 1) high1 (split2 + 1) high2 (lowdest + lowsize + 2))
          m
      })"

function cilksort :: "schedule \<Rightarrow> emem \<Rightarrow> int \<Rightarrow> int \<Rightarrow> int \<Rightarrow> emem option" where
  "cilksort s m low tmp sz =
     (if sz < QUICKSIZE then seqquick m low (low + sz - 1)
      else
        let quarter = sz div 4;
          A = low; tmpA = tmp;
          B = A + quarter; tmpB = tmpA + quarter;
          C = B + quarter; tmpC = tmpB + quarter;
          D = C + quarter; tmpD = tmpC + quarter
        in do {
          m \<leftarrow> spawned (s [0]) (\<lambda>m. cilksort (under s 0) m A tmpA quarter)
                (spawned (s [1]) (\<lambda>m. cilksort (under s 1) m B tmpB quarter)
                  (spawned (s [2]) (\<lambda>m. cilksort (under s 2) m C tmpC quarter)
                    (\<lambda>m. cilksort (under s 3) m D tmpD (sz - 3 * quarter)))) m;
          m \<leftarrow> spawned (s [4]) (\<lambda>m. cilkmerge (under s 4) m A (A + quarter - 1) B (B + quarter - 1) tmpA)
                (\<lambda>m. cilkmerge (under s 5) m C (C + quarter - 1) D (low + sz - 1) tmpC) m;
          cilkmerge (under s 6) m tmpA (tmpC - 1) tmpC (tmpA + sz - 1) A
        })"
  by pat_completeness auto
termination by (relation "measure (\<lambda>(s, m, low, tmp, sz). nat sz)") (auto simp: QUICKSIZE_def)

declare cilksort.simps [simp del]

section \<open>The program\<close>

definition swap_cells :: "emem \<Rightarrow> int \<Rightarrow> int \<Rightarrow> emem option" where
  "swap_cells m p q = do {
     t \<leftarrow> m p;
     b \<leftarrow> m q;
     m \<leftarrow> store_cell m p b;
     store_cell m q t
   }"

function scramble_loop :: "u64 \<Rightarrow> emem \<Rightarrow> int \<Rightarrow> u64 \<Rightarrow> u64 \<Rightarrow> (u64 \<times> emem) option" where
  "scramble_loop rand_nxt m arr sz i =
     (if i < sz then do {
        let rand_nxt = my_rand rand_nxt;
        m \<leftarrow> swap_cells m (arr + uint i) (arr + uint (rand_nxt mod sz));
        scramble_loop rand_nxt m arr sz (i + 1)
      } else Some (rand_nxt, m))"
  by pat_completeness auto
termination
  by (relation "measure (\<lambda>(r, m, arr, sz, i). unat sz - unat i)")
    (auto simp: unat_Suc_no_wrap word_less_unat)

definition scramble_array :: "u64 \<Rightarrow> emem \<Rightarrow> int \<Rightarrow> u64 \<Rightarrow> (u64 \<times> emem) option" where
  "scramble_array rand_nxt m arr sz = scramble_loop rand_nxt m arr sz 0"

function fill_loop :: "emem \<Rightarrow> int \<Rightarrow> u64 \<Rightarrow> u64 \<Rightarrow> emem option" where
  "fill_loop m arr sz i =
     (if i < sz then do {
        m \<leftarrow> store_cell m (arr + uint i) (sint i);
        fill_loop m arr sz (i + 1)
      } else Some m)"
  by pat_completeness auto
termination
  by (relation "measure (\<lambda>(m, arr, sz, i). unat sz - unat i)")
    (auto simp: unat_Suc_no_wrap word_less_unat)

declare scramble_loop.simps [simp del] fill_loop.simps [simp del]

definition fill_array :: "emem \<Rightarrow> int \<Rightarrow> u64 \<Rightarrow> (u64 \<times> emem) option" where
  "fill_array m arr sz = do {
     let rand_nxt = my_srand 1;
     m \<leftarrow> fill_loop m arr sz 0;
     scramble_array rand_nxt m arr sz
   }"

primrec cilksort_timed :: "nat \<Rightarrow> schedule \<Rightarrow> emem \<Rightarrow> int \<Rightarrow> int \<Rightarrow> int \<Rightarrow> emem option" where
  "cilksort_timed 0 s m arr tmp sz = Some m"
| "cilksort_timed (Suc n) s m arr tmp sz = do {
     (rand_nxt, m) \<leftarrow> fill_array m arr (of_int sz);
     m \<leftarrow> cilksort (under s n) m arr tmp sz;
     cilksort_timed n s m arr tmp sz
   }"

primrec check_loop :: "nat \<Rightarrow> emem \<Rightarrow> int \<Rightarrow> int \<Rightarrow> bool \<Rightarrow> bool option" where
  "check_loop 0 m arr i success = Some success"
| "check_loop (Suc n) m arr i success = do {
     v \<leftarrow> m (arr + i);
     check_loop n m arr (i + 1) (success \<and> v = i)
   }"

text \<open>\<open>main\<close>: the options, the timed runs with the marks of the clock, the average of the times, and the
check. The result is the exit code and the verdict of the check, if it was asked for.\<close>

definition cilksort_main ::
    "(string \<Rightarrow> 'd) \<Rightarrow> (nat \<Rightarrow> u64) \<Rightarrow> nat \<Rightarrow> schedule \<Rightarrow> emem \<Rightarrow> int \<Rightarrow> int \<Rightarrow> string list \<Rightarrow> int \<Rightarrow>
     (int \<times> bool option) option" where
  "cilksort_main atof clock timing_count s m array tmp argv help0 = do {
     (vars, messages) \<leftarrow> get_options atof argv specifiers opt_types [Long_var 10000000, Int_var 0, Int_var help0];
     case vars of
       [Long_var sz, Int_var check, Int_var help] \<Rightarrow>
         if help \<noteq> 0 then Some (-1, None)
         else do {
           m \<leftarrow> cilksort_timed timing_count s m array tmp sz;
           average \<leftarrow> average_runtime (elapsed_times clock timing_count);
           if check \<noteq> 0 then do {
             success \<leftarrow> check_loop (nat sz) m array 0 True;
             Some (0, Some success)
           } else Some (0, None)
         }
     | _ \<Rightarrow> None
   }"

end
