(* ===== verification/Cilkmerge.thy ===== *)
theory Cilkmerge
  imports Cilksort_Merge
begin

text \<open>
  The parallel merge: the binary search splits the shorter range around the median of the longer one,
  and the two halves, written below and above the median's final place, may run in either order.
  The contract of a merge routine is a locale; the routine's client, the last phase of \<open>cilksort\<close>, is
  proved once inside it, and both merges are instances.
\<close>

section \<open>Sorted ranges\<close>

lemma sort_mset_cong: "mset xs = mset ys \<Longrightarrow> sort xs = sort ys"
  by (metis mset_sort properties_for_sort sorted_sort)

lemma sort_append_sorted:
  assumes "sorted xs" "sorted ys" "\<And>x y. x \<in> set xs \<Longrightarrow> y \<in> set ys \<Longrightarrow> x \<le> y" "mset zs = mset xs + mset ys"
  shows "sort zs = xs @ ys"
  by (rule properties_for_sort) (use assms in \<open>auto simp: sorted_append\<close>)

lemma sorted_seg_iff:
  "sorted (seg m lo hi) \<longleftrightarrow> (\<forall>i j. lo \<le> i \<longrightarrow> i \<le> j \<longrightarrow> j \<le> hi \<longrightarrow> the (m i) \<le> the (m j))"
    (is "?L \<longleftrightarrow> ?R")
proof
  assume s: ?L
  show ?R
  proof (intro allI impI)
    fix i j assume b: "lo \<le> i" "i \<le> j" "j \<le> hi"
    have "seg m lo hi ! nat (i - lo) \<le> seg m lo hi ! nat (j - lo)"
      by (rule sorted_nth_mono[OF s]) (use b in auto)
    then show "the (m i) \<le> the (m j)" using b by (simp add: nth_seg)
  qed
next
  assume ?R
  then show ?L by (auto simp: sorted_iff_nth_mono nth_seg)
qed

lemma sorted_seg_sub: "sorted (seg m lo hi) \<Longrightarrow> lo \<le> lo' \<Longrightarrow> hi' \<le> hi \<Longrightarrow> sorted (seg m lo' hi')"
  unfolding sorted_seg_iff by fastforce

section \<open>The binary search\<close>

lemma binsplit_splits:
  assumes "low \<le> high" "allocated m low high" "sorted (seg m low high)"
  shows "\<exists>p. binsplit m val low high = Some p \<and> low - 1 \<le> p \<and> p \<le> high \<and>
    (\<forall>i. low \<le> i \<and> i \<le> p \<longrightarrow> the (m i) \<le> val) \<and> (\<forall>i. p < i \<and> i \<le> high \<longrightarrow> val \<le> the (m i))"
  using assms
proof (induction "nat (high - low)" arbitrary: low high rule: less_induct)
  case less
  show ?case
  proof (cases "low = high")
    case True
    obtain v where "m high = Some v" using less.prems True by (auto simp: allocated_def)
    then have "binsplit m val low high = Some (if v > val then low - 1 else low)" "the (m high) = v"
      using True by (subst binsplit.simps, simp_all)
    moreover have "i = high" if "high - 1 < i" "i \<le> high" for i using that by simp
    then have "val \<le> the (m i)" if "v > val" "high - 1 < i" "i \<le> high" for i
      using that calculation(2) by fastforce
    ultimately show ?thesis
      by (intro exI[of _ "if v > val then low - 1 else low"]) (use True in auto)
  next
    case False
    define mid where "mid = low + (high - low + 1) div 2"
    have b: "low < mid" "mid \<le> high" using less.prems(1) False by (auto simp: mid_def)
    obtain v where v: "m mid = Some v"
      using allocated_get[OF less.prems(2) less_imp_le[OF b(1)] b(2)] by blast
    have mono: "the (m i) \<le> the (m j)" if "low \<le> i" "i \<le> j" "j \<le> high" for i j
      using less.prems(3) that by (auto simp: sorted_seg_iff)
    show ?thesis
    proof (cases "val \<le> v")
      case le: True
      have "\<exists>p. binsplit m val low (mid - 1) = Some p \<and> low - 1 \<le> p \<and> p \<le> mid - 1 \<and>
          (\<forall>i. low \<le> i \<and> i \<le> p \<longrightarrow> the (m i) \<le> val) \<and> (\<forall>i. p < i \<and> i \<le> mid - 1 \<longrightarrow> val \<le> the (m i))"
        using b less.prems by (intro less.hyps) (auto intro: allocated_sub sorted_seg_sub)
      then obtain p where p: "binsplit m val low (mid - 1) = Some p" "low - 1 \<le> p" "p \<le> mid - 1"
        "\<forall>i. low \<le> i \<and> i \<le> p \<longrightarrow> the (m i) \<le> val" "\<forall>i. p < i \<and> i \<le> mid - 1 \<longrightarrow> val \<le> the (m i)"
        by blast
      have "val \<le> the (m i)" if "p < i" "i \<le> high" for i
        using p(5) mono[of mid i] b that v le by (cases "i \<le> mid - 1") auto
      moreover have "binsplit m val low high = Some p"
        using False v le p(1) by (subst binsplit.simps) (simp add: mid_def)
      ultimately show ?thesis using p b by (intro exI[of _ p]) auto
    next
      case gt: False
      have "\<exists>p. binsplit m val mid high = Some p \<and> mid - 1 \<le> p \<and> p \<le> high \<and>
          (\<forall>i. mid \<le> i \<and> i \<le> p \<longrightarrow> the (m i) \<le> val) \<and> (\<forall>i. p < i \<and> i \<le> high \<longrightarrow> val \<le> the (m i))"
        using b less.prems by (intro less.hyps) (auto intro: allocated_sub sorted_seg_sub)
      then obtain p where p: "binsplit m val mid high = Some p" "mid - 1 \<le> p" "p \<le> high"
        "\<forall>i. mid \<le> i \<and> i \<le> p \<longrightarrow> the (m i) \<le> val" "\<forall>i. p < i \<and> i \<le> high \<longrightarrow> val \<le> the (m i)"
        by blast
      have "the (m i) \<le> val" if "low \<le> i" "i \<le> p" for i
        using p(3,4) mono[of i mid] b that v gt by (cases "mid \<le> i") auto
      moreover have "binsplit m val low high = Some p"
        using False v gt p(1) by (subst binsplit.simps) (simp add: mid_def)
      ultimately show ?thesis using p b by (intro exI[of _ p]) auto
    qed
  qed
qed

section \<open>The contract of a merge\<close>

lemma merge_ready_sub:
  assumes "merge_ready m l1 h1 l2 h2 d"
    "l1 \<le> a1" "b1 \<le> h1" "a1 \<le> b1 + 1" "l2 \<le> a2" "b2 \<le> h2" "a2 \<le> b2 + 1"
    "d \<le> e" "e + (b1 - a1 + 1) + (b2 - a2 + 1) \<le> d + (h1 - l1 + 1) + (h2 - l2 + 1)"
  shows "merge_ready m a1 b1 a2 b2 e"
proof -
  note r = assms(1)[unfolded merge_ready_def]
  have "apart a1 b1 e (e + (b1 - a1 + 1) + (b2 - a2 + 1) - 1)"
    "apart a2 b2 e (e + (b1 - a1 + 1) + (b2 - a2 + 1) - 1)"
    using r assms(2-) by (auto simp: apart_def)
  then show ?thesis using r assms(2-) by (auto simp: merge_ready_def intro: allocated_sub)
qed

lemma merge_ready_mono:
  "merge_ready m l1 h1 l2 h2 d \<Longrightarrow> (\<And>i. m i \<noteq> None \<Longrightarrow> M i \<noteq> None) \<Longrightarrow> merge_ready M l1 h1 l2 h2 d"
  by (auto simp: merge_ready_def allocated_def)

locale merge_routine =
  fixes merge :: "'s \<Rightarrow> emem \<Rightarrow> int \<Rightarrow> int \<Rightarrow> int \<Rightarrow> int \<Rightarrow> int \<Rightarrow> emem option"
  assumes merges: "merge_ready m l1 h1 l2 h2 d \<Longrightarrow> sorted (seg m l1 h1) \<Longrightarrow> sorted (seg m l2 h2) \<Longrightarrow>
    l1 \<le> h1 \<Longrightarrow> l2 \<le> h2 \<Longrightarrow>
    merge s m l1 h1 l2 h2 d = Some (put m d (sort (seg m l1 h1 @ seg m l2 h2)))"
begin

text \<open>Two merges spawned side by side, with disjoint sources and destinations.\<close>

lemma two_merges:
  assumes r1: "merge_ready m a1 b1 a2 b2 d" and r2: "merge_ready m a3 b3 a4 b4 e"
    and ne: "a1 \<le> b1" "a2 \<le> b2" "a3 \<le> b3" "a4 \<le> b4"
    and so: "sorted (seg m a1 b1)" "sorted (seg m a2 b2)" "sorted (seg m a3 b3)" "sorted (seg m a4 b4)"
    and e: "d + (b1 - a1 + 1) + (b2 - a2 + 1) - 1 < e"
    and ap: "apart a1 b1 e (e + (b3 - a3 + 1) + (b4 - a4 + 1) - 1)"
      "apart a2 b2 e (e + (b3 - a3 + 1) + (b4 - a4 + 1) - 1)"
      "apart a3 b3 d (d + (b1 - a1 + 1) + (b2 - a2 + 1) - 1)"
      "apart a4 b4 d (d + (b1 - a1 + 1) + (b2 - a2 + 1) - 1)"
  shows "spawned st (\<lambda>m. merge s m a1 b1 a2 b2 d) (\<lambda>m. merge s' m a3 b3 a4 b4 e) m =
    Some (put (put m d (sort (seg m a1 b1 @ seg m a2 b2))) e (sort (seg m a3 b3 @ seg m a4 b4)))"
proof (rule spawned_disjoint)
  define X where "X = sort (seg m a1 b1 @ seg m a2 b2)"
  define Y where "Y = sort (seg m a3 b3 @ seg m a4 b4)"
  have lX: "int (length X) = (b1 - a1 + 1) + (b2 - a2 + 1)"
    and lY: "int (length Y) = (b3 - a3 + 1) + (b4 - a4 + 1)"
    using ne by (simp_all add: X_def Y_def)
  have sX: "seg (put m d X) a3 b3 = seg m a3 b3" "seg (put m d X) a4 b4 = seg m a4 b4"
    using ap(3,4) by (auto intro!: seg_put_apart simp: lX algebra_simps)
  have sY: "seg (put m e Y) a1 b1 = seg m a1 b1" "seg (put m e Y) a2 b2 = seg m a2 b2"
    using ap(1,2) by (auto intro!: seg_put_apart simp: lY algebra_simps)
  show "merge s m a1 b1 a2 b2 d = Some (put m d (sort (seg m a1 b1 @ seg m a2 b2)))"
    by (rule merges[OF r1 so(1,2) ne(1,2)])
  show "merge s' m a3 b3 a4 b4 e = Some (put m e (sort (seg m a3 b3 @ seg m a4 b4)))"
    by (rule merges[OF r2 so(3,4) ne(3,4)])
  have "merge_ready (put m e Y) a1 b1 a2 b2 d"
    by (rule merge_ready_mono[OF r1]) (auto simp: put_def)
  from merges[OF this _ _ ne(1,2)] show
    "merge s (put m e (sort (seg m a3 b3 @ seg m a4 b4))) a1 b1 a2 b2 d =
     Some (put (put m e (sort (seg m a3 b3 @ seg m a4 b4))) d (sort (seg m a1 b1 @ seg m a2 b2)))"
    using so by (simp add: sY Y_def[symmetric])
  have "merge_ready (put m d X) a3 b3 a4 b4 e"
    by (rule merge_ready_mono[OF r2]) (auto simp: put_def)
  from merges[OF this _ _ ne(3,4)] show
    "merge s' (put m d (sort (seg m a1 b1 @ seg m a2 b2))) a3 b3 a4 b4 e =
     Some (put (put m d (sort (seg m a1 b1 @ seg m a2 b2))) e (sort (seg m a3 b3 @ seg m a4 b4)))"
    using so by (simp add: sX X_def[symmetric])
  show "apart d (d + int (length (sort (seg m a1 b1 @ seg m a2 b2))) - 1) e
      (e + int (length (sort (seg m a3 b3 @ seg m a4 b4))) - 1)"
    using e ne by (simp add: apart_def)
qed

end

section \<open>The parallel merge\<close>

lemma put_eq_None: "put m d xs i = None \<longleftrightarrow> m i = None \<and> \<not> (d \<le> i \<and> i < d + int (length xs))"
  by (simp add: put_def)

lemma put_upd_commute:
  "p < d \<or> d + int (length xs) \<le> p \<Longrightarrow> put (m(p \<mapsto> v)) d xs = (put m d xs)(p \<mapsto> v)"
  by (rule ext) (auto simp: put_def)

definition split_merge :: "schedule \<Rightarrow> emem \<Rightarrow> int \<Rightarrow> int \<Rightarrow> int \<Rightarrow> int \<Rightarrow> int \<Rightarrow> emem option" where
  "split_merge s m low1 high1 low2 high2 d =
     (if high1 < low1 then memcpy_cells m d low2 (high2 - low2)
      else if high2 - low2 < MERGESIZE then seqmerge m low1 high1 low2 high2 d
      else do {
        let split1 = (high1 - low1 + 1) div 2 + low1;
        pivot \<leftarrow> m split1;
        split2 \<leftarrow> binsplit m pivot low2 high2;
        let lowsize = split1 - low1 + split2 - low2;
        m \<leftarrow> store_cell m (d + lowsize + 1) pivot;
        spawned (s [0])
          (\<lambda>m. cilkmerge (under s 0) m low1 (split1 - 1) low2 split2 d)
          (\<lambda>m. cilkmerge (under s 1) m (split1 + 1) high1 (split2 + 1) high2 (d + lowsize + 2))
          m
      })"

lemma cilkmerge_split:
  "cilkmerge s m l1 h1 l2 h2 d =
     (if h2 - l2 > h1 - l1 then split_merge s m l2 h2 l1 h1 d else split_merge s m l1 h1 l2 h2 d)"
  by (subst cilkmerge.simps) (simp add: split_merge_def)

lemma split_merge_step:
  fixes m :: emem and k p l1 l2 d :: int
  defines "x \<equiv> d + (k - l1 + p - l2) + 1" and "e \<equiv> the (m k)"
  assumes r: "merge_ready m l1 h1 l2 h2 d" and k: "l1 \<le> k" "k \<le> h1" and p: "l2 - 1 \<le> p" "p \<le> h2"
    and IH: "\<And>s M. (\<And>i. m i \<noteq> None \<Longrightarrow> M i \<noteq> None) \<Longrightarrow>
        seg M l1 (k - 1) = seg m l1 (k - 1) \<Longrightarrow> seg M l2 p = seg m l2 p \<Longrightarrow>
        cilkmerge s M l1 (k - 1) l2 p d = Some (put M d (sort (seg m l1 (k - 1) @ seg m l2 p)))"
      "\<And>s M. (\<And>i. m i \<noteq> None \<Longrightarrow> M i \<noteq> None) \<Longrightarrow>
        seg M (k + 1) h1 = seg m (k + 1) h1 \<Longrightarrow> seg M (p + 1) h2 = seg m (p + 1) h2 \<Longrightarrow>
        cilkmerge s M (k + 1) h1 (p + 1) h2 (x + 1) =
          Some (put M (x + 1) (sort (seg m (k + 1) h1 @ seg m (p + 1) h2)))"
  shows "spawned st (\<lambda>m. cilkmerge s m l1 (k - 1) l2 p d)
      (\<lambda>m. cilkmerge s' m (k + 1) h1 (p + 1) h2 (x + 1)) (m(x \<mapsto> e)) =
    Some (put m d (sort (seg m l1 (k - 1) @ seg m l2 p) @ e #
      sort (seg m (k + 1) h1 @ seg m (p + 1) h2)))" (is "_ = Some (put m d (?X @ e # ?Y))")
proof -
  define dl where "dl = d + (h1 - l1 + 1) + (h2 - l2 + 1) - 1"
  have lX: "int (length ?X) = (k - l1) + (p - l2 + 1)"
    and lY: "int (length ?Y) = (h1 - k) + (h2 - p)"
    using k p by simp_all
  have xd: "x = d + int (length ?X)" unfolding lX by (simp add: x_def)
  have yd: "x + int (length ?Y) = dl" unfolding lY by (simp add: x_def dl_def)
  have ap: "apart l1 h1 d dl" "apart l2 h2 d dl"
    using r by (simp_all add: merge_ready_def dl_def)
  have out: "i < d \<or> dl < i" if "l1 \<le> i \<and> i \<le> h1 \<or> l2 \<le> i \<and> i \<le> h2" for i
    using ap that k by (auto simp: apart_def dl_def)
  have X0: "0 \<le> int (length ?X)" "0 \<le> int (length ?Y)" by simp_all
  have seg1: "seg M a b = seg m a b" if "\<And>i. i < d \<or> dl < i \<Longrightarrow> M i = m i"
      "l1 \<le> a \<and> b \<le> h1 \<or> l2 \<le> a \<and> b \<le> h2" for M a b
    by (rule seg_cong) (use that out in auto)
  have fr: "(m(x \<mapsto> e)) i = m i" "put (m(x \<mapsto> e)) d ?X i = m i" "put (m(x \<mapsto> e)) (x + 1) ?Y i = m i"
    if "i < d \<or> dl < i" for i
  proof -
    have "i \<noteq> x" "i < d \<or> d + int (length ?X) \<le> i" "i < x + 1 \<or> x + 1 + int (length ?Y) \<le> i"
      using that xd yd X0 by linarith+
    then show "(m(x \<mapsto> e)) i = m i" "put (m(x \<mapsto> e)) d ?X i = m i" "put (m(x \<mapsto> e)) (x + 1) ?Y i = m i"
      by (simp_all add: put_outside)
  qed
  have "spawned st (\<lambda>m. cilkmerge s m l1 (k - 1) l2 p d)
      (\<lambda>m. cilkmerge s' m (k + 1) h1 (p + 1) h2 (x + 1)) (m(x \<mapsto> e)) =
    Some (put (put (m(x \<mapsto> e)) d ?X) (x + 1) ?Y)"
  proof (rule spawned_disjoint)
    show "cilkmerge s (m(x \<mapsto> e)) l1 (k - 1) l2 p d = Some (put (m(x \<mapsto> e)) d ?X)"
      by (rule IH(1)[OF _ seg1[OF fr(1)] seg1[OF fr(1)]]) (use k p in simp_all)
    show "cilkmerge s' (m(x \<mapsto> e)) (k + 1) h1 (p + 1) h2 (x + 1) = Some (put (m(x \<mapsto> e)) (x + 1) ?Y)"
      by (rule IH(2)[OF _ seg1[OF fr(1)] seg1[OF fr(1)]]) (use k p in simp_all)
    show "cilkmerge s (put (m(x \<mapsto> e)) (x + 1) ?Y) l1 (k - 1) l2 p d =
        Some (put (put (m(x \<mapsto> e)) (x + 1) ?Y) d ?X)"
      by (rule IH(1)[OF _ seg1[OF fr(3)] seg1[OF fr(3)]]) (use k p in \<open>simp_all add: put_eq_None\<close>)
    show "cilkmerge s' (put (m(x \<mapsto> e)) d ?X) (k + 1) h1 (p + 1) h2 (x + 1) =
        Some (put (put (m(x \<mapsto> e)) d ?X) (x + 1) ?Y)"
      by (rule IH(2)[OF _ seg1[OF fr(2)] seg1[OF fr(2)]]) (use k p in \<open>simp_all add: put_eq_None\<close>)
    show "apart d (d + int (length ?X) - 1) (x + 1) (x + 1 + int (length ?Y) - 1)"
      unfolding xd apart_def by linarith
  qed
  also have "put (m(x \<mapsto> e)) d ?X = (put m d ?X)(x \<mapsto> e)"
    by (rule put_upd_commute) (simp add: xd)
  also have "put ((put m d ?X)(x \<mapsto> e)) (x + 1) ?Y = put m d (?X @ e # ?Y)"
    by (simp only: put_append put_Cons xd)
  finally show ?thesis .
qed

lemma cilkmerge_put:
  assumes "merge_ready m l1 h1 l2 h2 d" "sorted (seg m l1 h1)" "sorted (seg m l2 h2)" "l1 \<le> h1 \<or> l2 \<le> h2"
  shows "cilkmerge s m l1 h1 l2 h2 d = Some (put m d (sort (seg m l1 h1 @ seg m l2 h2)))"
  using assms
proof (induction "nat (h1 - l1 + 1) + nat (h2 - l2 + 1)" arbitrary: s m l1 h1 l2 h2 d rule: less_induct)
  case less
  have main: "split_merge s m a1 b1 a2 b2 d = Some (put m d (sort (seg m a1 b1 @ seg m a2 b2)))"
    if r: "merge_ready m a1 b1 a2 b2 d" and so: "sorted (seg m a1 b1)" "sorted (seg m a2 b2)"
      and ge: "b2 - a2 \<le> b1 - a1" and ne: "a1 \<le> b1"
      and sz: "nat (b1 - a1 + 1) + nat (b2 - a2 + 1) = nat (h1 - l1 + 1) + nat (h2 - l2 + 1)"
    for a1 b1 a2 b2
  proof (cases "b2 - a2 < MERGESIZE")
    case True
    then show ?thesis
      using seqmerge_put[OF r] mrg_sort[OF so] ne by (simp add: split_merge_def)
  next
    case False
    then have big: "1024 \<le> b2 - a2" "1024 \<le> b1 - a1" using ge by (auto simp: MERGESIZE_def)
    define k where "k = (b1 - a1 + 1) div 2 + a1"
    have k: "a1 < k" "k < b1" using big by (auto simp: k_def)
    have mk: "m k = Some (the (m k))" using merge_ready_get[OF r, of k] k by simp
    have al2: "allocated m a2 b2" using r by (simp add: merge_ready_def)
    obtain p where p: "binsplit m (the (m k)) a2 b2 = Some p" "a2 - 1 \<le> p" "p \<le> b2"
      "\<And>i. a2 \<le> i \<Longrightarrow> i \<le> p \<Longrightarrow> the (m i) \<le> the (m k)"
      "\<And>i. p < i \<Longrightarrow> i \<le> b2 \<Longrightarrow> the (m k) \<le> the (m i)"
      using binsplit_splits[OF _ al2 so(2), of "the (m k)"] big by auto
    define x where "x = d + (k - a1 + p - a2) + 1"
    have al: "allocated m d (d + (b1 - a1 + 1) + (b2 - a2 + 1) - 1)" using r by (simp add: merge_ready_def)
    have sx: "store_cell m x (the (m k)) = Some (m(x \<mapsto> the (m k)))"
      by (rule allocated_store[OF al]) (use k p(2,3) in \<open>auto simp: x_def\<close>)
    let ?X = "sort (seg m a1 (k - 1) @ seg m a2 p)"
    let ?Y = "sort (seg m (k + 1) b1 @ seg m (p + 1) b2)"
    have split: "seg m a1 b1 = seg m a1 (k - 1) @ the (m k) # seg m (k + 1) b1"
        "seg m a2 b2 = seg m a2 p @ seg m (p + 1) b2"
      using seg_append[of a1 "k - 1" b1 m] seg_append[of a2 p b2 m] k p(2,3) by (simp_all add: seg_step)
    have mono: "the (m i) \<le> the (m j)" if "a1 \<le> i" "i \<le> j" "j \<le> b1" for i j
      using so(1) that by (auto simp: sorted_seg_iff)
    have lo: "y \<le> the (m k)" if "y \<in> set ?X" for y
      using that mono[of _ k] p(4) k by (auto simp: set_seg)
    have hi: "the (m k) \<le> y" if "y \<in> set ?Y" for y
      using that mono[of k] p(5) k by (auto simp: set_seg)
    have "sort (seg m a1 b1 @ seg m a2 b2) = ?X @ the (m k) # ?Y"
      by (rule sort_append_sorted) (use lo hi split in \<open>auto intro: order_trans\<close>)
    moreover have "spawned (s [0])
        (\<lambda>m. cilkmerge (under s 0) m a1 (k - 1) a2 p d)
        (\<lambda>m. cilkmerge (under s 1) m (k + 1) b1 (p + 1) b2 (x + 1)) (m(x \<mapsto> the (m k))) =
      Some (put m d (?X @ the (m k) # ?Y))"
      unfolding x_def
    proof (rule split_merge_step[OF r])
      show "a1 \<le> k" "k \<le> b1" "a2 - 1 \<le> p" "p \<le> b2" using k p(2,3) by auto
      show "cilkmerge s M a1 (k - 1) a2 p d = Some (put M d ?X)"
        if "\<And>i. m i \<noteq> None \<Longrightarrow> M i \<noteq> None" "seg M a1 (k - 1) = seg m a1 (k - 1)" "seg M a2 p = seg m a2 p"
        for s M
      proof -
        have "merge_ready m a1 (k - 1) a2 p d"
          by (rule merge_ready_sub[OF r]) (use k p(2,3) in auto)
        then have "merge_ready M a1 (k - 1) a2 p d" using that(1) by (rule merge_ready_mono)
        moreover have "sorted (seg m a1 (k - 1))" "sorted (seg m a2 p)"
          using so k p(3) by (auto intro: sorted_seg_sub)
        ultimately show ?thesis
          using less.hyps[where ?l1.0 = a1 and ?h1.0 = "k - 1" and ?l2.0 = a2 and ?h2.0 = p and m = M and d = d and s = s] that(2,3) k p(2,3) sz by simp
      qed
      show "cilkmerge s M (k + 1) b1 (p + 1) b2 (d + (k - a1 + p - a2) + 1 + 1) =
          Some (put M (d + (k - a1 + p - a2) + 1 + 1) ?Y)"
        if "\<And>i. m i \<noteq> None \<Longrightarrow> M i \<noteq> None" "seg M (k + 1) b1 = seg m (k + 1) b1"
          "seg M (p + 1) b2 = seg m (p + 1) b2" for s M
      proof -
        have "merge_ready m (k + 1) b1 (p + 1) b2 (d + (k - a1 + p - a2) + 1 + 1)"
          by (rule merge_ready_sub[OF r]) (use k p(2,3) in auto)
        then have "merge_ready M (k + 1) b1 (p + 1) b2 (d + (k - a1 + p - a2) + 1 + 1)"
          using that(1) by (rule merge_ready_mono)
        moreover have "sorted (seg m (k + 1) b1)" "sorted (seg m (p + 1) b2)"
          using so k p(2) by (auto intro: sorted_seg_sub)
        ultimately show ?thesis
          using less.hyps[where ?l1.0 = "k + 1" and ?h1.0 = b1 and ?l2.0 = "p + 1" and ?h2.0 = b2 and m = M and s = s] that(2,3) k p(2,3) sz by simp
      qed
    qed
    moreover have "split_merge s m a1 b1 a2 b2 d = spawned (s [0])
        (\<lambda>m. cilkmerge (under s 0) m a1 (k - 1) a2 p d)
        (\<lambda>m. cilkmerge (under s 1) m (k + 1) b1 (p + 1) b2 (x + 1)) (m(x \<mapsto> the (m k)))"
    proof -
      obtain e where e: "m k = Some e" using mk by blast
      have "d + (k - a1 + p - a2) + 2 = x + 1" by (simp add: x_def)
      then show ?thesis
        unfolding split_merge_def Let_def k_def[symmetric]
        using False ne p(1) sx
        by (simp only: e option.sel bind.bind_lunit x_def[symmetric] if_False linorder_not_less[THEN iffD2])
    qed
    ultimately show ?thesis by (simp only:)
  qed
  have b: "l1 \<le> h1 + 1" "l2 \<le> h2 + 1" using merge_ready_bounds[OF less.prems(1)] .
  show ?case
  proof (cases "h2 - l2 > h1 - l1")
    case True
    have "split_merge s m l2 h2 l1 h1 d = Some (put m d (sort (seg m l2 h2 @ seg m l1 h1)))"
      by (rule main[OF merge_ready_swap[OF less.prems(1)] less.prems(3,2)])
        (use less.prems(4) True b in auto)
    moreover have "sort (seg m l2 h2 @ seg m l1 h1) = sort (seg m l1 h1 @ seg m l2 h2)"
      by (rule sort_mset_cong) simp
    ultimately show ?thesis using True by (simp add: cilkmerge_split)
  next
    case False
    have "split_merge s m l1 h1 l2 h2 d = Some (put m d (sort (seg m l1 h1 @ seg m l2 h2)))"
      by (rule main[OF less.prems(1,2,3)]) (use less.prems(4) False b in auto)
    then show ?thesis using False by (simp add: cilkmerge_split)
  qed
qed

interpretation seqmerge_unit: merge_routine "\<lambda>_ :: unit. seqmerge"
  by unfold_locales (simp add: seqmerge_put mrg_sort)

interpretation pmerge: merge_routine cilkmerge
  by unfold_locales (simp add: cilkmerge_put)

text \<open>The early return of \<open>cilkmerge\<close> for an empty range is reached only when both ranges are empty,
and then asks \<open>memcpy\<close> for a negative number of elements.\<close>

lemma cilkmerge_both_empty: "cilkmerge s m l1 (l1 - 1) l2 (l2 - 1) d = None"
  by (simp add: cilkmerge_split split_merge_def memcpy_cells_negative)

end
