(* ===== verification/Cilksort_Quick.thy ===== *)
theory Cilksort_Quick
  imports Cilkmerge
begin

text \<open>
  The sequential sorts of \<open>cilksort.cpp\<close>: insertion sort shifts the sorted prefix, the partition's two
  scans are stopped by sentinels and so stay inside the range, and quicksort writes the sorted list
  of the range over the range and touches nothing else.
\<close>

section \<open>Insertion sort\<close>

lemma insertion_shift_put:
  assumes "low \<le> p + 1" "allocated m low (p + 1)" "sorted (seg m low p)"
  shows "Option.bind (insertion_shift m low a p) (\<lambda>(m, p). store_cell m (p + 1) a) =
    Some (put m low (sort (seg m low p @ [a])))"
  using assms
proof (induction "nat (p + 1 - low)" arbitrary: p m rule: less_induct)
  case less
  have last: "sort (seg m low p @ [a]) = seg m low p @ [a]" if "\<forall>x \<in> set (seg m low p). x \<le> a"
    by (rule sort_append_sorted) (use that less.prems in auto)
  have fin: "put m low (seg m low p @ [a]) = m(p + 1 \<mapsto> a)"
    using less.prems put_seg_same[of m low p] allocated_sub[of m low "p + 1" low p]
    by (simp add: put_append put_Cons)
  show ?case
  proof (cases "low \<le> p")
    case False
    then have "low = p + 1" using less.prems(1) by simp
    then show ?thesis
      using less.prems(2) allocated_store[of m low "p + 1" "p + 1" a]
      by (subst insertion_shift.simps) (simp add: put_Cons)
  next
    case True
    obtain b where b: "m p = Some b" using allocated_get[OF less.prems(2) True] by auto
    have le: "x \<le> b" if "x \<in> set (seg m low p)" for x
      using less.prems(3) that b by (fastforce simp: sorted_seg_iff set_seg)
    have st: "store_cell m (p + 1) v = Some (m(p + 1 \<mapsto> v))" for v
      by (rule allocated_store[OF less.prems(2)]) (use True in auto)
    show ?thesis
    proof (cases "b > a")
      case False
      then have "\<forall>x \<in> set (seg m low p). x \<le> a" using le by force
      then show ?thesis
        using True b False last fin st by (subst insertion_shift.simps) simp
    next
      case gt: True
      define M where "M = m(p + 1 \<mapsto> b)"
      have segM: "seg M low (p - 1) = seg m low (p - 1)" by (rule seg_cong) (auto simp: M_def)
      have split: "seg m low p = seg m low (p - 1) @ [b]"
        using seg_append[of low "p - 1" p m] True b by simp
      have IH: "Option.bind (insertion_shift M low a (p - 1)) (\<lambda>(m, p). store_cell m (p + 1) a) =
          Some (put M low (sort (seg m low (p - 1) @ [a])))"
        using less.hyps[of "p - 1" M] less.prems True segM
        by (simp add: M_def allocated_upd allocated_sub[of m low "p + 1"] sorted_seg_sub[of m low p])
      have "sort (seg m low p @ [a]) = sort (seg m low (p - 1) @ [a]) @ [b]"
        by (rule sort_append_sorted) (use gt le split in auto)
      moreover have "put M low (sort (seg m low (p - 1) @ [a])) =
          put m low (sort (seg m low (p - 1) @ [a]) @ [b])"
        unfolding M_def using True by (subst put_upd_commute) (simp_all add: put_append put_Cons add.commute)
      ultimately show ?thesis
        using IH True b gt st[of b] by (subst insertion_shift.simps) (simp add: M_def)
    qed
  qed
qed

lemma insertion_loop_put:
  assumes "low < q" "q \<le> high + 1" "allocated m low high" "sorted (seg m low (q - 1))"
  shows "insertion_loop m low high q = Some (put m low (sort (seg m low high)))"
  using assms
proof (induction "nat (high + 1 - q)" arbitrary: q m rule: less_induct)
  case less
  show ?case
  proof (cases "q \<le> high")
    case False
    then have "high = q - 1" using less.prems(2) by simp
    then have "sort (seg m low high) = seg m low high" using less.prems(4) by (simp add: sorted_sort_id)
    then show ?thesis using less.prems(3) False by (subst insertion_loop.simps) simp
  next
    case True
    obtain a where a: "m q = Some a" using allocated_get[OF less.prems(3), of q] less.prems True by auto
    define xs where "xs = sort (seg m low (q - 1) @ [a])"
    have sh: "Option.bind (insertion_shift m low a (q - 1)) (\<lambda>(m, p). store_cell m (p + 1) a) =
        Some (put m low xs)"
      unfolding xs_def
      by (rule insertion_shift_put) (use less.prems True in \<open>auto intro: allocated_sub\<close>)
    have len: "int (length xs) = q + 1 - low" using less.prems by (simp add: xs_def)
    have seg: "seg (put m low xs) low q = xs" by (rule seg_put_same) (simp add: len)
    have rest: "seg (put m low xs) (q + 1) high = seg m (q + 1) high"
      by (rule seg_put_apart) (simp add: len apart_def)
    have all: "seg (put m low xs) low high = xs @ seg m (q + 1) high"
      using seg_append[of low q high "put m low xs"] seg rest True less.prems by simp
    have all': "seg m low high = seg m low (q - 1) @ a # seg m (q + 1) high"
      using seg_append[of low "q - 1" high m] True less.prems a by (simp add: seg_step)
    have "insertion_loop (put m low xs) low high (q + 1) =
        Some (put (put m low xs) low (sort (seg (put m low xs) low high)))"
      by (rule less.hyps) (use less.prems True seg in \<open>auto simp: xs_def\<close>)
    also have "sort (seg (put m low xs) low high) = sort (seg m low high)"
      by (rule sort_mset_cong) (simp only: all all', simp add: xs_def)
    also have "put (put m low xs) low (sort (seg m low high)) = put m low (sort (seg m low high))"
    proof (rule ext)
      fix i show "put (put m low xs) low (sort (seg m low high)) i = put m low (sort (seg m low high)) i"
        using True len by (auto simp: put_def)
    qed
    finally have L: "insertion_loop (put m low xs) low high (q + 1) = Some (put m low (sort (seg m low high)))" .
    obtain m' p' where "insertion_shift m low a (q - 1) = Some (m', p')"
      using sh by (cases "insertion_shift m low a (q - 1)") auto
    then show ?thesis using sh L True a by (subst insertion_loop.simps) simp
  qed
qed

lemma insertion_sort_put:
  assumes "allocated m low high" "low \<le> high + 1"
  shows "insertion_sort m low high = Some (put m low (sort (seg m low high)))"
proof (cases "low \<le> high")
  case True
  then show ?thesis
    unfolding insertion_sort_def using assms by (intro insertion_loop_put) auto
next
  case False
  then show ?thesis by (simp add: insertion_sort_def insertion_loop.simps)
qed

section \<open>The partition\<close>

lemma med3_cases: "med3 a b c = a \<or> med3 a b c = b \<or> med3 a b c = c"
  by (simp add: med3_def)

text \<open>The pivot is an element of the range, so each scan has a sentinel.\<close>

lemma choose_pivot_in:
  assumes "allocated m low high" "low \<le> high"
  shows "\<exists>i v. choose_pivot m low high = Some v \<and> low \<le> i \<and> i \<le> high \<and> m i = Some v"
proof -
  define k where "k = low + (high - low) div 2"
  have k: "low \<le> k" "k \<le> high" using assms(2) by (auto simp: k_def)
  obtain a b c where "m low = Some a" "m high = Some b" "m k = Some c"
    using allocated_get[OF assms(1)] assms(2) k by blast
  then have "choose_pivot m low high = Some (med3 a b c)"
    and "m low = Some a" "m high = Some b" "m k = Some c"
    by (simp_all add: choose_pivot_def k_def[symmetric])
  then show ?thesis
    using med3_cases[of a b c] assms(2) k by (metis order_refl)
qed

lemma scan_high_stops:
  assumes "allocated m i ch" "i \<le> ch" "the (m i) \<le> pivot"
  shows "\<exists>p. scan_high m pivot ch = Some (p, the (m p)) \<and> i \<le> p \<and> p \<le> ch \<and>
    the (m p) \<le> pivot \<and> (\<forall>j. p < j \<and> j \<le> ch \<longrightarrow> pivot < the (m j))"
  using assms
proof (induction "nat (ch - i)" arbitrary: ch rule: less_induct)
  case less
  obtain h where h: "m ch = Some h" using allocated_get[OF less.prems(1,2)] by auto
  show ?case
  proof (cases "h > pivot")
    case False
    then show ?thesis using h less.prems by (intro exI[of _ ch]) (subst scan_high.simps, simp)
  next
    case True
    then have "i < ch" using less.prems h by (cases "i = ch") auto
    moreover have "allocated m i (ch - 1)" using less.prems(1) by (rule allocated_sub) auto
    ultimately obtain p where p: "scan_high m pivot (ch - 1) = Some (p, the (m p))" "i \<le> p" "p \<le> ch - 1"
      "the (m p) \<le> pivot" "\<forall>j. p < j \<and> j \<le> ch - 1 \<longrightarrow> pivot < the (m j)"
      using less.hyps[of "ch - 1"] less.prems(3) by auto
    have "pivot < the (m j)" if "p < j" "j \<le> ch" for j
      using p(5) that h True by (cases "j = ch") auto
    then show ?thesis using p h True by (intro exI[of _ p]) (subst scan_high.simps, simp)
  qed
qed

lemma scan_low_stops:
  assumes "allocated m cl i" "cl \<le> i" "pivot \<le> the (m i)"
  shows "\<exists>q. scan_low m pivot cl = Some (q, the (m q)) \<and> cl \<le> q \<and> q \<le> i \<and>
    pivot \<le> the (m q) \<and> (\<forall>j. cl \<le> j \<and> j < q \<longrightarrow> the (m j) < pivot)"
  using assms
proof (induction "nat (i - cl)" arbitrary: cl rule: less_induct)
  case less
  obtain l where l: "m cl = Some l"
    using allocated_get[OF less.prems(1) order_refl less.prems(2)] by auto
  show ?case
  proof (cases "l < pivot")
    case False
    then show ?thesis using l less.prems by (intro exI[of _ cl]) (subst scan_low.simps, simp)
  next
    case True
    then have "cl < i" using less.prems l by (cases "i = cl") auto
    moreover have "allocated m (cl + 1) i" using less.prems(1) by (rule allocated_sub) auto
    ultimately obtain q where q: "scan_low m pivot (cl + 1) = Some (q, the (m q))" "cl + 1 \<le> q" "q \<le> i"
      "pivot \<le> the (m q)" "\<forall>j. cl + 1 \<le> j \<and> j < q \<longrightarrow> the (m j) < pivot"
      using less.hyps[of "cl + 1"] less.prems(3) by auto
    have "the (m j) < pivot" if "cl \<le> j" "j < q" for j
      using q(5) that l True by (cases "j = cl") auto
    then show ?thesis using q l True by (intro exI[of _ q]) (subst scan_low.simps, simp)
  qed
qed

lemma seg_upd:
  assumes "lo \<le> p" "p \<le> hi"
  shows "seg (m(p \<mapsto> v)) lo hi = (seg m lo hi)[nat (p - lo) := v]"
  by (rule nth_equalityI) (use assms in \<open>auto simp: nth_seg nth_list_update\<close>)

lemma mset_seg_exchange:
  assumes "lo \<le> p" "p \<le> hi" "lo \<le> q" "q \<le> hi" "m p = Some h" "m q = Some l"
  shows "mset (seg (m(p \<mapsto> l, q \<mapsto> h)) lo hi) = mset (seg m lo hi)"
proof -
  have "seg (m(p \<mapsto> l, q \<mapsto> h)) lo hi =
      (seg m lo hi)[nat (p - lo) := seg m lo hi ! nat (q - lo), nat (q - lo) := seg m lo hi ! nat (p - lo)]"
    using assms by (simp add: seg_upd nth_seg)
  also have "mset \<dots> = mset (seg m lo hi)" by (rule mset_swap) (use assms in auto)
  finally show ?thesis .
qed

text \<open>What the loop of the partition keeps: the cells it has passed lie on their side of the pivot, and
each scan still has a sentinel ahead of it.\<close>

definition part_inv :: "emem \<Rightarrow> int \<Rightarrow> int \<Rightarrow> elm \<Rightarrow> int \<Rightarrow> int \<Rightarrow> bool" where
  "part_inv m low high pivot cl ch \<longleftrightarrow>
     allocated m low high \<and> low \<le> cl \<and> ch \<le> high \<and>
     (\<forall>i. low \<le> i \<and> i < cl \<longrightarrow> the (m i) \<le> pivot) \<and> (\<forall>i. ch < i \<and> i \<le> high \<longrightarrow> pivot \<le> the (m i)) \<and>
     (\<exists>i. low \<le> i \<and> i \<le> ch \<and> the (m i) \<le> pivot) \<and> (\<exists>i. cl \<le> i \<and> i \<le> high \<and> pivot \<le> the (m i))"

definition parted :: "emem \<Rightarrow> emem \<Rightarrow> int \<Rightarrow> int \<Rightarrow> elm \<Rightarrow> int \<Rightarrow> bool" where
  "parted m m' low high pivot p \<longleftrightarrow>
     low \<le> p \<and> p \<le> high \<and> allocated m' low high \<and> (\<forall>i. i < low \<or> high < i \<longrightarrow> m' i = m i) \<and>
     mset (seg m' low high) = mset (seg m low high) \<and>
     (\<forall>i. low \<le> i \<and> i \<le> p \<longrightarrow> the (m' i) \<le> pivot) \<and> (\<forall>i. p < i \<and> i \<le> high \<longrightarrow> pivot \<le> the (m' i)) \<and>
     (p = high \<longrightarrow> pivot \<le> the (m' high))"

lemma seqpart_loop_parts:
  assumes "part_inv m low high pivot cl ch"
  shows "\<exists>m' p. seqpart_loop m pivot cl ch = Some (m', p) \<and> parted m m' low high pivot p"
  using assms
proof (induction "nat (ch - cl + 1)" arbitrary: m cl ch rule: less_induct)
  case less
  note inv = less.prems[unfolded part_inv_def]
  obtain i where i: "low \<le> i" "i \<le> ch" "the (m i) \<le> pivot" using inv by blast
  obtain j where j: "cl \<le> j" "j \<le> high" "pivot \<le> the (m j)" using inv by blast
  have al: "allocated m low high" using inv by blast
  obtain p where p: "scan_high m pivot ch = Some (p, the (m p))" "i \<le> p" "p \<le> ch" "the (m p) \<le> pivot"
    "\<forall>k. p < k \<and> k \<le> ch \<longrightarrow> pivot < the (m k)"
    using scan_high_stops[of m i ch pivot] i inv allocated_sub[OF al, of i ch] by auto
  obtain q where q: "scan_low m pivot cl = Some (q, the (m q))" "cl \<le> q" "q \<le> j" "pivot \<le> the (m q)"
    "\<forall>k. cl \<le> k \<and> k < q \<longrightarrow> the (m k) < pivot"
    using scan_low_stops[of m cl j pivot] j inv allocated_sub[OF al, of cl j] by auto
  have rng: "low \<le> p" "p \<le> high" "low \<le> q" "q \<le> high" using i j p(2,3) q(2,3) inv by auto
  have below: "the (m k) \<le> pivot" if "low \<le> k" "k < q" for k
    using that inv q(5) by (cases "k < cl") (auto intro: less_imp_le)
  have above: "pivot \<le> the (m k)" if "p < k" "k \<le> high" for k
    using that inv p(5) by (cases "k \<le> ch") (auto intro: less_imp_le)
  show ?case
  proof (cases "q \<ge> p")
    case True
    have "the (m k) \<le> pivot" if "low \<le> k" "k \<le> p" for k
      using below[of k] that True p(4) by (cases "k = p") auto
    moreover have "pivot \<le> the (m high)" if "p = high"
      using that True rng(4) q(4) by (metis antisym)
    ultimately have "parted m m low high pivot p"
      unfolding parted_def using rng al above by blast
    moreover have "seqpart_loop m pivot cl ch = Some (m, p)"
      using p(1) q(1) True by (subst seqpart_loop.simps) simp
    ultimately show ?thesis by blast
  next
    case False
    define M where "M = m(p \<mapsto> the (m q), q \<mapsto> the (m p))"
    have st: "store_cell m p (the (m q)) = Some (m(p \<mapsto> the (m q)))"
        "store_cell (m(p \<mapsto> the (m q))) q (the (m p)) = Some M"
      unfolding M_def using al rng by (auto intro!: allocated_store[where lo = low and hi = high])
    have Mi: "the (M k) = (if k = q then the (m p) else if k = p then the (m q) else the (m k))" for k
      by (simp add: M_def)
    have "part_inv M low high pivot (q + 1) (p - 1)"
      unfolding part_inv_def
    proof (intro conjI allI impI)
      show "allocated M low high" using al by (simp add: M_def allocated_upd)
      show "the (M k) \<le> pivot" if "low \<le> k \<and> k < q + 1" for k
        using that below[of k] p(4) False by (auto simp: Mi)
      show "pivot \<le> the (M k)" if "p - 1 < k \<and> k \<le> high" for k
        using that above[of k] q(4) False by (auto simp: Mi)
      show "\<exists>i\<ge>low. i \<le> p - 1 \<and> the (M i) \<le> pivot"
        by (rule exI[of _ q]) (use rng False p(4) in \<open>auto simp: Mi\<close>)
      show "\<exists>i\<ge>q + 1. i \<le> high \<and> pivot \<le> the (M i)"
        by (rule exI[of _ p]) (use rng False q(4) in \<open>auto simp: Mi\<close>)
    qed (use rng in auto)
    then obtain m' r where m': "seqpart_loop M pivot (q + 1) (p - 1) = Some (m', r)"
        "parted M m' low high pivot r"
      using less.hyps[of "p - 1" "q + 1" M] p(3) q(2) False by auto
    have "mset (seg M low high) = mset (seg m low high)"
      unfolding M_def by (rule mset_seg_exchange) (use rng al allocated_get in auto)
    then have "parted m m' low high pivot r"
      using m'(2) rng by (auto simp: parted_def M_def)
    moreover have "seqpart_loop m pivot cl ch = Some (m', r)"
      using p(1) q(1) False st m'(1) by (subst seqpart_loop.simps) simp
    ultimately show ?thesis by blast
  qed
qed

lemma seqpart_parts:
  assumes "allocated m low high" "low < high"
  shows "\<exists>m' p v. seqpart m low high = Some (m', p) \<and> low \<le> p \<and> p < high \<and> allocated m' low high \<and>
    (\<forall>i. i < low \<or> high < i \<longrightarrow> m' i = m i) \<and> mset (seg m' low high) = mset (seg m low high) \<and>
    (\<forall>i. low \<le> i \<and> i \<le> p \<longrightarrow> the (m' i) \<le> v) \<and> (\<forall>i. p < i \<and> i \<le> high \<longrightarrow> v \<le> the (m' i))"
proof -
  obtain i v where v: "choose_pivot m low high = Some v" "low \<le> i" "i \<le> high" "m i = Some v"
    using choose_pivot_in[OF assms(1)] assms(2) by auto
  have "part_inv m low high v low high"
    unfolding part_inv_def using assms v by (auto intro!: exI[of _ i])
  then obtain m' p where p: "seqpart_loop m v low high = Some (m', p)" "parted m m' low high v p"
    using seqpart_loop_parts by blast
  have "seqpart m low high = Some (m', if p < high then p else p - 1)"
    using v(1) p(1) by (simp add: seqpart_def)
  moreover have "v \<le> the (m' i)" if "p - 1 < i" "i \<le> high" "\<not> p < high" for i
    using that p(2) by (cases "i = high") (auto simp: parted_def)
  ultimately show ?thesis
    using p(2) assms(2)
    by (intro exI[of _ m'] exI[of _ "if p < high then p else p - 1"] exI[of _ v])
      (cases "p < high"; simp add: parted_def)
qed

section \<open>Quicksort\<close>

lemma seqquick_put:
  assumes "allocated m low high" "low \<le> high + 1"
  shows "seqquick m low high = Some (put m low (sort (seg m low high)))"
  using assms
proof (induction "nat (high - low)" arbitrary: m low high rule: less_induct)
  case less
  show ?case
  proof (cases "high - low \<ge> INSERTIONSIZE")
    case False
    then show ?thesis using insertion_sort_put[OF less.prems] by (subst seqquick.simps) simp
  next
    case True
    then have lh: "low < high" by (simp add: INSERTIONSIZE_def)
    obtain m' p v where p: "seqpart m low high = Some (m', p)" "low \<le> p" "p < high"
        "allocated m' low high" "\<And>i. i < low \<or> high < i \<Longrightarrow> m' i = m i"
        "mset (seg m' low high) = mset (seg m low high)"
        "\<And>i. low \<le> i \<Longrightarrow> i \<le> p \<Longrightarrow> the (m' i) \<le> v" "\<And>i. p < i \<Longrightarrow> i \<le> high \<Longrightarrow> v \<le> the (m' i)"
      using seqpart_parts[OF less.prems(1) lh] by blast
    define X where "X = sort (seg m' low p)"
    define Y where "Y = sort (seg m' (p + 1) high)"
    have lX: "int (length X) = p + 1 - low" using p(2) by (simp add: X_def)
    have L: "seqquick m' low p = Some (put m' low X)"
      unfolding X_def by (rule less.hyps) (use p(2,3,4) in \<open>auto intro: allocated_sub\<close>)
    have "seg (put m' low X) (p + 1) high = seg m' (p + 1) high"
      by (rule seg_put_apart) (simp add: lX apart_def)
    moreover have "seqquick (put m' low X) (p + 1) high =
        Some (put (put m' low X) (p + 1) (sort (seg (put m' low X) (p + 1) high)))"
      by (rule less.hyps) (use p(2,3) allocated_sub[OF p(4), of "p + 1" high] in auto)
    ultimately have H: "seqquick (put m' low X) (p + 1) high = Some (put m' low (X @ Y))"
      by (simp add: put_append lX Y_def)
    have "x \<le> y" if "x \<in> set X" "y \<in> set Y" for x y
    proof (rule order_trans)
      show "x \<le> v" using that(1) p(7) by (auto simp: X_def set_seg)
      show "v \<le> y" using that(2) p(8) by (auto simp: Y_def set_seg)
    qed
    then have "sort (seg m' low high) = X @ Y"
      by (intro sort_append_sorted)
        (use p(2,3) seg_append[of low p high m'] in \<open>simp_all add: X_def Y_def\<close>)
    then have XY: "X @ Y = sort (seg m low high)" using sort_mset_cong[OF p(6)] by simp
    have "put m' low (X @ Y) = put (put m low (seg m' low high)) low (X @ Y)"
      using eq_putI[of low high m' m] p(4,5) by simp
    also have "\<dots> = put m low (X @ Y)"
      by (rule put_put_same) (simp add: XY)
    finally show ?thesis using True p(1) L H XY by (subst seqquick.simps) simp
  qed
qed

end
