(* ===== verification/Cilksort_Sort.thy ===== *)
theory Cilksort_Sort
  imports Cilksort_Quick
begin

text \<open>
  The parallel sort: what a call leaves in the array and in the scratch array is a function of what
  the array held, \<open>sorted_block\<close>, so the effects of sorts of disjoint blocks commute and the three
  spawns of the four quarters may run in any order.
\<close>

section \<open>The effect of a sort\<close>

definition scratch_after :: "emem \<Rightarrow> int \<Rightarrow> int \<Rightarrow> int \<Rightarrow> elm list" where
  "scratch_after m low tmp n =
     (if n < QUICKSIZE then seg m tmp (tmp + n - 1)
      else sort (seg m low (low + 2 * (n div 4) - 1)) @ sort (seg m (low + 2 * (n div 4)) (low + n - 1)))"

definition sorted_block :: "int \<Rightarrow> int \<Rightarrow> int \<Rightarrow> emem \<Rightarrow> emem" where
  "sorted_block low tmp n m =
     put (put m tmp (scratch_after m low tmp n)) low (sort (seg m low (low + n - 1)))"

definition sort_ready :: "int \<Rightarrow> int \<Rightarrow> int \<Rightarrow> emem \<Rightarrow> bool" where
  "sort_ready low tmp n m \<longleftrightarrow>
     0 \<le> n \<and> allocated m low (low + n - 1) \<and> allocated m tmp (tmp + n - 1) \<and>
     apart low (low + n - 1) tmp (tmp + n - 1)"

lemma quarter_bounds: "0 \<le> n \<Longrightarrow> 0 \<le> n div 4 \<and> 4 * (n div 4) \<le> (n :: int)"
  by linarith

lemma length_scratch_after [simp]: "0 \<le> n \<Longrightarrow> length (scratch_after m low tmp n) = nat n"
  by (auto simp: scratch_after_def QUICKSIZE_def)

lemma allocated_sorted_block [simp]: "allocated m lo hi \<Longrightarrow> allocated (sorted_block low tmp n m) lo hi"
  by (simp add: sorted_block_def)

lemma sort_ready_sorted_block [simp]:
  "sort_ready low tmp n m \<Longrightarrow> sort_ready low tmp n (sorted_block l t k m)"
  by (simp add: sort_ready_def)

lemma sort_ready_sub:
  "sort_ready low tmp n m \<Longrightarrow> 0 \<le> off \<Longrightarrow> 0 \<le> k \<Longrightarrow> off + k \<le> n \<Longrightarrow>
    sort_ready (low + off) (tmp + off) k m"
  by (auto simp: sort_ready_def apart_def intro: allocated_sub)

lemma sorted_block_outside:
  assumes "0 \<le> n" "i < low \<or> low + n \<le> i" "i < tmp \<or> tmp + n \<le> i"
  shows "sorted_block low tmp n m i = m i"
  using assms by (auto simp: sorted_block_def put_def)

lemma seg_sorted_block:
  assumes "0 \<le> n"
  shows "seg (sorted_block low tmp n m) low (low + n - 1) = sort (seg m low (low + n - 1))"
  unfolding sorted_block_def by (rule seg_put_whole) (use assms in simp)

lemma seg_sorted_block_apart:
  assumes "0 \<le> n" "apart lo hi low (low + n - 1)" "apart lo hi tmp (tmp + n - 1)"
  shows "seg (sorted_block low tmp n m) lo hi = seg m lo hi"
  by (rule seg_cong, rule sorted_block_outside) (use assms in \<open>auto simp: apart_def\<close>)

text \<open>Sorts of disjoint parts of the array, each with its part of the scratch array, commute.\<close>

lemma sorted_block_commute:
  assumes r: "sort_ready low tmp n m" and o: "0 \<le> o1" "0 \<le> k1" "o1 + k1 \<le> o2" "0 \<le> k2" "o2 + k2 \<le> n"
  shows "sorted_block (low + o1) (tmp + o1) k1 (sorted_block (low + o2) (tmp + o2) k2 m) =
    sorted_block (low + o2) (tmp + o2) k2 (sorted_block (low + o1) (tmp + o1) k1 m)"
proof -
  have d: "i < low \<or> low + n \<le> i \<or> i < tmp \<or> tmp + n \<le> i" for i
    using r by (auto simp: sort_ready_def apart_def)
  have s1: "seg (sorted_block (low + o2) (tmp + o2) k2 m) a b = seg m a b"
    if "low + o1 \<le> a \<and> b < low + o2 \<or> tmp + o1 \<le> a \<and> b < tmp + o2" for a b
  proof (rule seg_cong)
    fix i assume "a \<le> i" "i \<le> b"
    then show "sorted_block (low + o2) (tmp + o2) k2 m i = m i"
      by (intro sorted_block_outside) (use o d[of i] that in auto)
  qed
  have s2: "seg (sorted_block (low + o1) (tmp + o1) k1 m) a b = seg m a b"
    if "low + o1 + k1 \<le> a \<and> b < low + n \<or> tmp + o1 + k1 \<le> a \<and> b < tmp + n" for a b
  proof (rule seg_cong)
    fix i assume "a \<le> i" "i \<le> b"
    then show "sorted_block (low + o1) (tmp + o1) k1 m i = m i"
      by (intro sorted_block_outside) (use o d[of i] that in auto)
  qed
  have sc1: "scratch_after (sorted_block (low + o2) (tmp + o2) k2 m) (low + o1) (tmp + o1) k1 =
      scratch_after m (low + o1) (tmp + o1) k1"
    unfolding scratch_after_def using o quarter_bounds[OF o(2)] by (auto simp: s1)
  have sc2: "scratch_after (sorted_block (low + o1) (tmp + o1) k1 m) (low + o2) (tmp + o2) k2 =
      scratch_after m (low + o2) (tmp + o2) k2"
    unfolding scratch_after_def using o quarter_bounds[OF o(4)] by (auto simp: s2)
  have e1: "sorted_block (low + o1) (tmp + o1) k1 (sorted_block (low + o2) (tmp + o2) k2 m) =
      put (put (sorted_block (low + o2) (tmp + o2) k2 m) (tmp + o1) (scratch_after m (low + o1) (tmp + o1) k1))
        (low + o1) (sort (seg m (low + o1) (low + o1 + k1 - 1)))"
    using o by (subst sorted_block_def) (simp add: sc1 s1)
  have e2: "sorted_block (low + o2) (tmp + o2) k2 (sorted_block (low + o1) (tmp + o1) k1 m) =
      put (put (sorted_block (low + o1) (tmp + o1) k1 m) (tmp + o2) (scratch_after m (low + o2) (tmp + o2) k2))
        (low + o2) (sort (seg m (low + o2) (low + o2 + k2 - 1)))"
    using o by (subst sorted_block_def) (simp add: sc2 s2)
  show ?thesis
  proof (rule ext)
    fix i
    show "sorted_block (low + o1) (tmp + o1) k1 (sorted_block (low + o2) (tmp + o2) k2 m) i =
      sorted_block (low + o2) (tmp + o2) k2 (sorted_block (low + o1) (tmp + o1) k1 m) i"
      unfolding e1 e2 unfolding sorted_block_def put_def
      using o d[of i] by auto
  qed
qed

section \<open>The sort\<close>

lemma quarters_spawned:
  assumes r: "sort_ready low tmp n m" and q: "0 \<le> q" "4 * q \<le> n"
    and sub: "\<And>s M off k. sort_ready low tmp n M \<Longrightarrow> 0 \<le> off \<Longrightarrow> 0 \<le> k \<Longrightarrow> off + k \<le> n \<Longrightarrow>
        k = q \<or> k = n - 3 * q \<Longrightarrow>
        cilksort s M (low + off) (tmp + off) k = Some (sorted_block (low + off) (tmp + off) k M)"
  shows "spawned st0 (\<lambda>m. cilksort s0 m (low + 0) (tmp + 0) q)
      (spawned st1 (\<lambda>m. cilksort s1 m (low + q) (tmp + q) q)
        (spawned st2 (\<lambda>m. cilksort s2 m (low + 2 * q) (tmp + 2 * q) q)
          (\<lambda>m. cilksort s3 m (low + 3 * q) (tmp + 3 * q) (n - 3 * q)))) m =
    Some (sorted_block (low + 3 * q) (tmp + 3 * q) (n - 3 * q)
      (sorted_block (low + 2 * q) (tmp + 2 * q) q
        (sorted_block (low + q) (tmp + q) q (sorted_block (low + 0) (tmp + 0) q m))))"
proof -
  let ?P = "sort_ready low tmp n"
  let ?F = "\<lambda>off k. sorted_block (low + off) (tmp + off) k"
  have S: "cilksort s M (low + off) (tmp + off) k = Some (?F off k M) \<and> ?P (?F off k M)"
    if "?P M" "0 \<le> off" "off + k \<le> n" "k = q \<or> k = n - 3 * q" for s M off k
    using sub[OF that(1,2) _ that(3,4)] that q by auto
  have C: "?F o1 k1 (?F o2 k2 M) = ?F o2 k2 (?F o1 k1 M)"
    if "?P M" "0 \<le> o1" "0 \<le> k1" "o1 + k1 \<le> o2" "0 \<le> k2" "o2 + k2 \<le> n" for o1 k1 o2 k2 M
    using sorted_block_commute that by blast
  show ?thesis
    by (rule four_spawned[where P = ?P and ?F0.0 = "?F 0 q" and ?F1.0 = "?F q q" and ?F2.0 = "?F (2 * q) q" and
        ?F3.0 = "?F (3 * q) (n - 3 * q)", THEN conjunct1]) ((rule S; use q in simp) | (rule C; use q in simp) | rule r)+
qed

text \<open>The two merges of the sorted quarters and the merge of the sorted halves back into the array.\<close>

lemma halves_merged:
  fixes q n low tmp :: int
  assumes r: "sort_ready low tmp n m" and q: "0 < q" "4 * q \<le> n"
    and so: "sorted (seg m low (low + q - 1))" "sorted (seg m (low + q) (low + 2 * q - 1))"
      "sorted (seg m (low + 2 * q) (low + 3 * q - 1))" "sorted (seg m (low + 3 * q) (low + n - 1))"
  shows "Option.bind
      (spawned st (\<lambda>m. cilkmerge s m low (low + q - 1) (low + q) (low + q + q - 1) tmp)
        (\<lambda>m. cilkmerge s' m (low + 2 * q) (low + 2 * q + q - 1) (low + 3 * q) (low + n - 1) (tmp + 2 * q)) m)
      (\<lambda>m. cilkmerge s'' m tmp (tmp + 2 * q - 1) (tmp + 2 * q) (tmp + n - 1) low) =
    Some (put (put m tmp (sort (seg m low (low + 2 * q - 1)) @ sort (seg m (low + 2 * q) (low + n - 1))))
      low (sort (seg m low (low + n - 1))))"
proof -
  note R = r[unfolded sort_ready_def]
  have al: "allocated m low (low + n - 1)" "allocated m tmp (tmp + n - 1)" using R by auto
  have rd: "merge_ready m a b c d e"
    if "low \<le> a" "b \<le> low + n - 1" "a \<le> b + 1" "low \<le> c" "d \<le> low + n - 1" "c \<le> d + 1"
      "tmp \<le> e" "e + (b - a + 1) + (d - c + 1) - 1 \<le> tmp + n - 1" for a b c d e
    unfolding merge_ready_def
    using that R q allocated_sub[OF al(1), of a b] allocated_sub[OF al(1), of c d]
      allocated_sub[OF al(2), of e "e + (b - a + 1) + (d - c + 1) - 1"]
    by (auto simp: apart_def)
  have lt: "apart a b c d" if "low \<le> a" "b \<le> low + n - 1" "tmp \<le> c" "d \<le> tmp + n - 1" for a b c d
    using that R q by (auto simp: apart_def)
  have ab: "seg m low (low + q - 1) @ seg m (low + q) (low + 2 * q - 1) = seg m low (low + 2 * q - 1)"
    using seg_append[of low "low + q - 1" "low + 2 * q - 1" m] q by simp
  have cd: "seg m (low + 2 * q) (low + 3 * q - 1) @ seg m (low + 3 * q) (low + n - 1) = seg m (low + 2 * q) (low + n - 1)"
    using seg_append[of "low + 2 * q" "low + 3 * q - 1" "low + n - 1" m] q by simp
  have abcd: "seg m low (low + n - 1) = seg m low (low + 2 * q - 1) @ seg m (low + 2 * q) (low + n - 1)"
    using seg_append[of low "low + 2 * q - 1" "low + n - 1" m] q by simp
  have qs: "low + q + q - 1 = low + 2 * q - 1" "low + 2 * q + q - 1 = low + 3 * q - 1" by simp_all
  define X where "X = sort (seg m low (low + 2 * q - 1))"
  define Y where "Y = sort (seg m (low + 2 * q) (low + n - 1))"
  have lX: "int (length X) = 2 * q" and lY: "int (length Y) = n - 2 * q" using q by (simp_all add: X_def Y_def)
  have "spawned st (\<lambda>m. cilkmerge s m low (low + q - 1) (low + q) (low + 2 * q - 1) tmp)
        (\<lambda>m. cilkmerge s' m (low + 2 * q) (low + 3 * q - 1) (low + 3 * q) (low + n - 1) (tmp + 2 * q)) m =
      Some (put (put m tmp (sort (seg m low (low + q - 1) @ seg m (low + q) (low + 2 * q - 1)))) (tmp + 2 * q)
        (sort (seg m (low + 2 * q) (low + 3 * q - 1) @ seg m (low + 3 * q) (low + n - 1))))"
    by (rule pmerge.two_merges[OF rd rd _ _ _ _ so _ lt lt lt lt]) (use q in auto)
  then have step2: "spawned st (\<lambda>m. cilkmerge s m low (low + q - 1) (low + q) (low + q + q - 1) tmp)
        (\<lambda>m. cilkmerge s' m (low + 2 * q) (low + 2 * q + q - 1) (low + 3 * q) (low + n - 1) (tmp + 2 * q)) m =
      Some (put m tmp (X @ Y))"
    unfolding qs by (simp only: ab cd put_append lX X_def[symmetric] Y_def[symmetric])
  let ?M = "put m tmp (X @ Y)"
  have sM: "seg ?M tmp (tmp + n - 1) = X @ Y" by (rule seg_put_same) (simp add: lX lY)
  have "seg ?M tmp (tmp + 2 * q - 1) @ seg ?M (tmp + 2 * q) (tmp + n - 1) = X @ Y"
    using seg_append[of tmp "tmp + 2 * q - 1" "tmp + n - 1" ?M] q sM by simp
  moreover have "length (seg ?M tmp (tmp + 2 * q - 1)) = length X" using lX by simp
  ultimately have sX: "seg ?M tmp (tmp + 2 * q - 1) = X" "seg ?M (tmp + 2 * q) (tmp + n - 1) = Y"
    by (auto simp: append_eq_append_conv)
  have "merge_ready ?M tmp (tmp + 2 * q - 1) (tmp + 2 * q) (tmp + n - 1) low"
    unfolding merge_ready_def
    using q R al allocated_sub[OF al(2), of tmp "tmp + 2 * q - 1"]
      allocated_sub[OF al(2), of "tmp + 2 * q" "tmp + n - 1"]
    by (auto simp: apart_def)
  then have "cilkmerge s'' ?M tmp (tmp + 2 * q - 1) (tmp + 2 * q) (tmp + n - 1) low =
      Some (put ?M low (sort (X @ Y)))"
    using q by (subst cilkmerge_put) (simp_all add: sX, simp_all add: X_def Y_def)
  moreover have "sort (X @ Y) = sort (seg m low (low + n - 1))"
    by (rule sort_mset_cong) (simp add: X_def Y_def abcd)
  ultimately show ?thesis using step2 by (simp add: X_def Y_def)
qed

lemma cilksort_sorted_block:
  assumes "sort_ready low tmp n m"
  shows "cilksort s m low tmp n = Some (sorted_block low tmp n m)"
  using assms
proof (induction "nat n" arbitrary: s m low tmp n rule: less_induct)
  case less
  note R = less.prems[unfolded sort_ready_def]
  show ?case
  proof (cases "n < QUICKSIZE")
    case True
    have "cilksort s m low tmp n = Some (put m low (sort (seg m low (low + n - 1))))"
      using True R seqquick_put[of m low "low + n - 1"] by (subst cilksort.simps) simp
    moreover have "put m tmp (scratch_after m low tmp n) = m"
      using True R by (simp add: scratch_after_def)
    ultimately show ?thesis by (simp add: sorted_block_def)
  next
    case False
    define q where "q = n div 4"
    have q: "0 < q" "4 * q \<le> n" "nat q < nat n" "nat (n - 3 * q) < nat n"
      using False by (auto simp: q_def QUICKSIZE_def)
    define m1 where "m1 = sorted_block (low + 3 * q) (tmp + 3 * q) (n - 3 * q)
      (sorted_block (low + 2 * q) (tmp + 2 * q) q
        (sorted_block (low + q) (tmp + q) q (sorted_block (low + 0) (tmp + 0) q m)))"
    have quarters: "spawned (s [0]) (\<lambda>m. cilksort (under s 0) m (low + 0) (tmp + 0) q)
        (spawned (s [1]) (\<lambda>m. cilksort (under s 1) m (low + q) (tmp + q) q)
          (spawned (s [2]) (\<lambda>m. cilksort (under s 2) m (low + 2 * q) (tmp + 2 * q) q)
            (\<lambda>m. cilksort (under s 3) m (low + 3 * q) (tmp + 3 * q) (n - 3 * q)))) m = Some m1"
      unfolding m1_def
    proof (rule quarters_spawned[OF less.prems])
      show "cilksort s M (low + off) (tmp + off) k = Some (sorted_block (low + off) (tmp + off) k M)"
        if "sort_ready low tmp n M" "0 \<le> off" "0 \<le> k" "off + k \<le> n" "k = q \<or> k = n - 3 * q" for s M off k
        using that q by (intro less.hyps sort_ready_sub) auto
    qed (use q in auto)
    have r1: "sort_ready low tmp n m1" unfolding m1_def using less.prems by simp
    have skip: "sorted_block (low + off) (tmp + off) k M i = M i"
      if "i < low \<or> low + n \<le> i" "i < tmp \<or> tmp + n \<le> i" "0 \<le> off" "0 \<le> k" "off + k \<le> n" for off k M i
      by (rule sorted_block_outside) (use that in auto)
    have out: "m1 i = m i" if "i < low \<or> low + n \<le> i" "i < tmp \<or> tmp + n \<le> i" for i
      unfolding m1_def using q that by (simp only: skip mult_nonneg_nonneg)
    have keep: "seg (sorted_block (low + off) (tmp + off) k M) (low + lo) (low + hi - 1) = seg M (low + lo) (low + hi - 1)"
      if "0 \<le> off" "0 \<le> k" "off + k \<le> n" "0 \<le> lo" "hi \<le> n" "hi \<le> off \<or> off + k \<le> lo" for off k M lo hi
      by (rule seg_sorted_block_apart) (use that R in \<open>auto simp: apart_def\<close>)
    have srt: "seg (sorted_block (low + off) (tmp + off) k M) (low + off) (low + hi - 1) =
        sort (seg M (low + off) (low + hi - 1))"
      if "0 \<le> k" "hi = off + k" for off k M hi
      using seg_sorted_block[OF that(1), of "low + off" "tmp + off" M] that(2) by (simp add: add.assoc)
    have A: "seg m1 low (low + q - 1) = sort (seg m low (low + q - 1))"
      using q keep[of "3 * q" "n - 3 * q" 0 q] keep[of "2 * q" q 0 q] keep[of q q 0 q] srt[of q q 0]
      by (simp add: m1_def)
    have B: "seg m1 (low + q) (low + 2 * q - 1) = sort (seg m (low + q) (low + 2 * q - 1))"
      using q keep[of "3 * q" "n - 3 * q" q "2 * q"] keep[of "2 * q" q q "2 * q"] keep[of 0 q q "2 * q"]
        srt[of q "2 * q" q] by (simp add: m1_def)
    have C: "seg m1 (low + 2 * q) (low + 3 * q - 1) = sort (seg m (low + 2 * q) (low + 3 * q - 1))"
      using q keep[of "3 * q" "n - 3 * q" "2 * q" "3 * q"] keep[of q q "2 * q" "3 * q"]
        keep[of 0 q "2 * q" "3 * q"] srt[of q "3 * q" "2 * q"] by (simp add: m1_def)
    have D: "seg m1 (low + 3 * q) (low + n - 1) = sort (seg m (low + 3 * q) (low + n - 1))"
      using q keep[of "2 * q" q "3 * q" n] keep[of q q "3 * q" n] keep[of 0 q "3 * q" n]
        srt[of "n - 3 * q" n "3 * q"] by (simp add: m1_def)
    have app: "seg M low (low + 2 * q - 1) = seg M low (low + q - 1) @ seg M (low + q) (low + 2 * q - 1)"
      "seg M (low + 2 * q) (low + n - 1) = seg M (low + 2 * q) (low + 3 * q - 1) @ seg M (low + 3 * q) (low + n - 1)"
      "seg M low (low + n - 1) = seg M low (low + 2 * q - 1) @ seg M (low + 2 * q) (low + n - 1)" for M
      using seg_append[of low "low + q - 1" "low + 2 * q - 1" M]
        seg_append[of "low + 2 * q" "low + 3 * q - 1" "low + n - 1" M]
        seg_append[of low "low + 2 * q - 1" "low + n - 1" M] q by simp_all
    have AB: "sort (seg m1 low (low + 2 * q - 1)) = sort (seg m low (low + 2 * q - 1))"
      and CD: "sort (seg m1 (low + 2 * q) (low + n - 1)) = sort (seg m (low + 2 * q) (low + n - 1))"
      and all: "sort (seg m1 low (low + n - 1)) = sort (seg m low (low + n - 1))"
      by (rule sort_mset_cong, simp only: app A B C D mset_append mset_sort)+
    define T where "T = sort (seg m low (low + 2 * q - 1)) @ sort (seg m (low + 2 * q) (low + n - 1))"
    have merged: "Option.bind
        (spawned (s [4]) (\<lambda>m. cilkmerge (under s 4) m low (low + q - 1) (low + q) (low + q + q - 1) tmp)
          (\<lambda>m. cilkmerge (under s 5) m (low + 2 * q) (low + 2 * q + q - 1) (low + 3 * q) (low + n - 1) (tmp + 2 * q)) m1)
        (\<lambda>m. cilkmerge (under s 6) m tmp (tmp + 2 * q - 1) (tmp + 2 * q) (tmp + n - 1) low) =
      Some (put (put m1 tmp T) low (sort (seg m low (low + n - 1))))"
      using halves_merged[OF r1 q(1,2)] by (simp only: A B C D AB CD all sorted_sort T_def)
    have lT: "int (length T) = n" using q by (simp add: T_def)
    have "put (put m1 tmp T) low (sort (seg m low (low + n - 1))) =
        put (put m tmp T) low (sort (seg m low (low + n - 1)))"
    proof (rule ext)
      fix i
      show "put (put m1 tmp T) low (sort (seg m low (low + n - 1))) i =
          put (put m tmp T) low (sort (seg m low (low + n - 1))) i"
        using R out[of i] by (auto simp: put_def lT)
    qed
    moreover have "T = scratch_after m low tmp n" using False by (simp add: T_def scratch_after_def q_def)
    ultimately have "Some (put (put m1 tmp T) low (sort (seg m low (low + n - 1)))) = Some (sorted_block low tmp n m)"
      by (simp add: sorted_block_def)
    moreover have "low + 2 * q = low + q + q" "low + 3 * q = low + q + q + q"
      "tmp + 2 * q = tmp + q + q" "tmp + 3 * q = tmp + q + q + q" by simp_all
    ultimately show ?thesis
      using False quarters merged
      by (subst cilksort.simps) (simp only: if_False Let_def q_def[symmetric] add_0_right bind.bind_lunit)
  qed
qed

end
