(* ===== verification/Cilksort_Properties.thy ===== *)
theory Cilksort_Properties
  imports Cilksort_Sort
begin

text \<open>
  What \<open>cilksort.cpp\<close> computes: the parallel merge is the sequential one, the parallel sort sorts under
  every schedule and touches nothing outside its two blocks, and the program's own check of the
  array it filled, scrambled and sorted succeeds.
\<close>

section \<open>Filling and scrambling\<close>

lemma uint_Suc_no_wrap:
  fixes i c :: u64
  assumes "i < c"
  shows "uint (i + 1) = uint i + 1"
  unfolding uint_nat using unat_Suc_no_wrap[OF assms] by simp

lemma sint_of_small:
  fixes i :: u64
  assumes "uint i < 2 ^ 63"
  shows "sint i = uint i"
  unfolding sint_uint by (rule signed_take_bit_int_eq_self) (use assms uint_ge_0[of i] in \<open>simp_all, linarith\<close>)

lemma fill_loop_put:
  assumes "i \<le> sz" "uint sz < 2 ^ 63" "allocated m (arr + uint i) (arr + uint sz - 1)"
  shows "fill_loop m arr sz i = Some (put m (arr + uint i) [uint i..uint sz - 1])"
  using assms
proof (induction "unat sz - unat i" arbitrary: m i rule: less_induct)
  case less
  show ?case
  proof (cases "i < sz")
    case False
    then have "i = sz" using less.prems(1) by simp
    then show ?thesis by (simp add: fill_loop.simps)
  next
    case True
    have lt: "uint i < uint sz" using True by (simp add: word_less_def)
    note s = uint_Suc_no_wrap[OF True]
    have dec: "unat sz - unat (i + 1) < unat sz - unat i"
      using unat_Suc_no_wrap[OF True] True by (simp add: word_less_unat)
    have st: "store_cell m (arr + uint i) (uint i) = Some (m(arr + uint i \<mapsto> uint i))"
      by (rule allocated_store[OF less.prems(3)]) (use lt in auto)
    have le: "i + 1 \<le> sz" using s lt by (simp add: word_le_def)
    have "fill_loop (m(arr + uint i \<mapsto> uint i)) arr sz (i + 1) =
        Some (put (m(arr + uint i \<mapsto> uint i)) (arr + uint (i + 1)) [uint (i + 1)..uint sz - 1])"
      by (rule less.hyps[OF dec le less.prems(2)])
        (use less.prems(3) s in \<open>auto intro!: allocated_upd intro: allocated_sub\<close>)
    moreover have "[uint i..uint sz - 1] = uint i # [uint i + 1..uint sz - 1]"
      using lt by (simp add: upto_rec1)
    moreover have "sint i = uint i" using lt less.prems(2) by (simp add: sint_of_small)
    ultimately show ?thesis
      using True st s by (subst fill_loop.simps) (simp add: put_Cons add.assoc)
  qed
qed

definition shuffled :: "emem \<Rightarrow> emem \<Rightarrow> int \<Rightarrow> int \<Rightarrow> bool" where
  "shuffled m m' lo hi \<longleftrightarrow> allocated m' lo hi \<and> (\<forall>i. i < lo \<or> hi < i \<longrightarrow> m' i = m i) \<and>
     mset (seg m' lo hi) = mset (seg m lo hi)"

lemma shuffled_trans: "shuffled m m' lo hi \<Longrightarrow> shuffled m' m'' lo hi \<Longrightarrow> shuffled m m'' lo hi"
  by (simp add: shuffled_def)

lemma swap_cells_shuffled:
  assumes "allocated m lo hi" "lo \<le> p" "p \<le> hi" "lo \<le> q" "q \<le> hi"
  shows "\<exists>m'. swap_cells m p q = Some m' \<and> shuffled m m' lo hi"
proof -
  obtain h l where h: "m p = Some h" and l: "m q = Some l"
    using allocated_get[OF assms(1)] assms(2-) by meson
  have "swap_cells m p q = Some (m(p \<mapsto> l, q \<mapsto> h))"
    using h l by (auto simp: swap_cells_def store_cell_def)
  moreover have "shuffled m (m(p \<mapsto> l, q \<mapsto> h)) lo hi"
    using assms mset_seg_exchange[OF assms(2-) h l] by (auto simp: shuffled_def)
  ultimately show ?thesis by blast
qed

lemma scramble_loop_shuffled:
  assumes "allocated m arr (arr + uint sz - 1)"
  shows "\<exists>r' m'. scramble_loop r m arr sz i = Some (r', m') \<and> shuffled m m' arr (arr + uint sz - 1)"
  using assms
proof (induction r m arr sz i rule: scramble_loop.induct)
  case (1 r m arr sz i)
  show ?case
  proof (cases "i < sz")
    case False
    then show ?thesis using 1 by (subst scramble_loop.simps) (simp add: shuffled_def)
  next
    case True
    then have lt: "uint i < uint sz" by (simp add: word_less_def)
    moreover have "uint (my_rand r mod sz) < uint sz"
      unfolding uint_mod by (rule pos_mod_bound) (use lt uint_ge_0[of i] in linarith)
    ultimately obtain m1 where m1: "swap_cells m (arr + uint i) (arr + uint (my_rand r mod sz)) = Some m1"
        "shuffled m m1 arr (arr + uint sz - 1)"
      using swap_cells_shuffled[OF 1(2), of "arr + uint i" "arr + uint (my_rand r mod sz)"] by auto
    have "\<exists>r' m'. scramble_loop (my_rand r) m1 arr sz (i + 1) = Some (r', m') \<and>
        shuffled m1 m' arr (arr + uint sz - 1)"
      by (rule 1(1)) (use True m1 in \<open>auto simp: shuffled_def\<close>)
    then show ?thesis
      using m1 True shuffled_trans[OF m1(2)] by (subst scramble_loop.simps) auto
  qed
qed

lemma fill_array_shuffled:
  assumes "0 \<le> n" "n < 2 ^ 63" "allocated m arr (arr + n - 1)"
  shows "\<exists>r m'. fill_array m arr (of_int n) = Some (r, m') \<and> allocated m' arr (arr + n - 1) \<and>
    (\<forall>i. i < arr \<or> arr + n \<le> i \<longrightarrow> m' i = m i) \<and> sort (seg m' arr (arr + n - 1)) = [0..n - 1]"
proof -
  have n: "uint (of_int n :: u64) = n" using assms(1,2) by (simp add: unsigned_of_int take_bit_int_eq_self)
  have "fill_loop m arr (of_int n) 0 = Some (put m arr [0..n - 1])"
    using fill_loop_put[of 0 "of_int n" m arr] assms n by simp
  moreover obtain r m' where m': "scramble_loop (my_srand 1) (put m arr [0..n - 1]) arr (of_int n) 0 = Some (r, m')"
      "shuffled (put m arr [0..n - 1]) m' arr (arr + n - 1)"
    using scramble_loop_shuffled[of "put m arr [0..n - 1]" arr "of_int n" "my_srand 1" 0] assms n by auto
  moreover have "seg (put m arr [0..n - 1]) arr (arr + n - 1) = [0..n - 1]"
    by (rule seg_put_whole) simp
  then have "sort (seg m' arr (arr + n - 1)) = sort [0..n - 1]"
    using m'(2) by (intro sort_mset_cong) (simp add: shuffled_def)
  moreover have "put m arr [0..n - 1] i = m i" if "i < arr \<or> arr + n \<le> i" for i
    using that assms(1) by (auto simp: put_def)
  ultimately show ?thesis by (auto simp: fill_array_def scramble_array_def shuffled_def sorted_sort_id)
qed

lemma check_loop_all:
  assumes "allocated m arr (arr + n - 1)" "0 \<le> i" "i + int k = n"
    "\<And>j. i \<le> j \<Longrightarrow> j < n \<Longrightarrow> m (arr + j) = Some j"
  shows "check_loop k m arr i b = Some b"
  using assms
proof (induction k arbitrary: i b)
  case 0
  then show ?case by simp
next
  case (Suc k)
  have "m (arr + i) = Some i" using Suc.prems(3,4) by simp
  moreover have "check_loop k m arr (i + 1) b = Some b"
    using Suc.prems by (intro Suc.IH) auto
  ultimately show ?case by simp
qed

lemma cilksort_timed_sorts:
  assumes "sort_ready arr tmp n m" "n < 2 ^ 63"
  shows "\<exists>m'. cilksort_timed k s m arr tmp n = Some m' \<and> sort_ready arr tmp n m' \<and>
    (0 < k \<or> seg m arr (arr + n - 1) = [0..n - 1] \<longrightarrow> seg m' arr (arr + n - 1) = [0..n - 1])"
  using assms(1)
proof (induction k arbitrary: m)
  case 0
  then show ?case by simp
next
  case (Suc k)
  note R = Suc.prems[unfolded sort_ready_def]
  obtain r m1 where m1: "fill_array m arr (of_int n) = Some (r, m1)" "allocated m1 arr (arr + n - 1)"
      "\<forall>i. i < arr \<or> arr + n \<le> i \<longrightarrow> m1 i = m i" "sort (seg m1 arr (arr + n - 1)) = [0..n - 1]"
    using fill_array_shuffled[of n m arr] R assms(2) by auto
  have "allocated m1 tmp (tmp + n - 1)"
    unfolding allocated_def
  proof (intro allI impI)
    fix i assume i: "tmp \<le> i \<and> i \<le> tmp + n - 1"
    then have "i < arr \<or> arr + n \<le> i" using R by (auto simp: apart_def)
    then have "m1 i = m i" using m1(3) by blast
    then show "m1 i \<noteq> None" using R i by (simp add: allocated_def)
  qed
  then have r1: "sort_ready arr tmp n m1" using R m1(2) by (simp add: sort_ready_def)
  have "seg (sorted_block arr tmp n m1) arr (arr + n - 1) = [0..n - 1]"
    using seg_sorted_block[of n arr tmp m1] m1(4) R by simp
  then show ?case
    using Suc.IH[OF sort_ready_sorted_block[OF r1, of arr tmp n]] m1(1) cilksort_sorted_block[OF r1] by auto
qed

section \<open>Properties\<close>

text \<open>C14: The parallel merge computes what the sequential merge computes: on two sorted ranges that
are not both empty and a destination apart from them, under every schedule of its spawns, it
returns, and the memory it leaves is the one \<open>seqmerge\<close> leaves.\<close>

theorem cilkmerge_is_seqmerge:
  assumes "merge_ready m low1 high1 low2 high2 lowdest"
    and "sorted (seg m low1 high1)" "sorted (seg m low2 high2)" and "low1 \<le> high1 \<or> low2 \<le> high2"
  shows "cilkmerge s m low1 high1 low2 high2 lowdest = seqmerge m low1 high1 low2 high2 lowdest \<and>
    seqmerge m low1 high1 low2 high2 lowdest =
      Some (put m lowdest (sort (seg m low1 high1 @ seg m low2 high2)))"
  using cilkmerge_put[OF assms] seqmerge_put[OF assms(1)] mrg_sort[OF assms(2,3)] by simp

definition two_runs :: emem where
  "two_runs = put (put Map.empty 0 [1, 4, 9, 2, 4]) 10 [0, 0, 0, 0, 0]"

lemma cilkmerge_is_seqmerge_witness:
  "\<exists>m'. cilkmerge (\<lambda>_. True) two_runs 0 2 3 4 10 = Some m' \<and> seg m' 10 14 = [1, 2, 4, 4, 9]"
proof -
  have segs: "seg two_runs 0 2 = [1, 4, 9]" "seg two_runs 3 4 = [2, 4]" by code_simp+
  have al: "allocated two_runs 0 2" "allocated two_runs 3 4" "allocated two_runs 10 14"
    by (auto simp: allocated_def two_runs_def put_def)
  have "merge_ready two_runs 0 2 3 4 10" using al by (simp add: merge_ready_def apart_def)
  from cilkmerge_is_seqmerge[OF this, of "\<lambda>_. True"] segs
  have "cilkmerge (\<lambda>_. True) two_runs 0 2 3 4 10 = Some (put two_runs 10 (sort [1, 4, 9, 2, 4]))" by simp
  moreover have "sort [1, 4, 9, 2, 4] = [1, 2, 4, 4, 9 :: int]" by code_simp
  ultimately show ?thesis by (auto intro!: seg_put_same)
qed

text \<open>C10: The parallel sort is correct under every schedule. When the array and the scratch array are
disjoint blocks of \<open>n\<close> cells, \<open>cilksort\<close> returns, the array is sorted and holds the elements it held,
no cell outside the two blocks has changed, and every other schedule leaves the same memory.\<close>

theorem cilksort_sorts:
  assumes "sort_ready low tmp n m"
  shows "\<exists>m'. cilksort s m low tmp n = Some m' \<and> (\<forall>s'. cilksort s' m low tmp n = Some m') \<and>
    sorted (seg m' low (low + n - 1)) \<and> mset (seg m' low (low + n - 1)) = mset (seg m low (low + n - 1)) \<and>
    (\<forall>i. (i < low \<or> low + n \<le> i) \<and> (i < tmp \<or> tmp + n \<le> i) \<longrightarrow> m' i = m i)"
  using cilksort_sorted_block[OF assms] assms
  by (auto simp: sort_ready_def seg_sorted_block sorted_block_outside)

lemma cilksort_sorts_witness:
  "\<exists>m'. cilksort (\<lambda>_. False) two_runs 0 10 5 = Some m' \<and> seg m' 0 4 = [1, 2, 4, 4, 9]"
proof -
  have "allocated two_runs 0 4" "allocated two_runs 10 14"
    by (auto simp: allocated_def two_runs_def put_def)
  then have "sort_ready 0 10 5 two_runs" by (simp add: sort_ready_def apart_def)
  from cilksort_sorts[OF this, of "\<lambda>_. False"]
  obtain m' where m': "cilksort (\<lambda>_. False) two_runs 0 10 5 = Some m'" "sorted (seg m' 0 4)"
    "mset (seg m' 0 4) = mset (seg two_runs 0 4)" by auto
  have "seg two_runs 0 4 = [1, 4, 9, 2, 4]" by code_simp
  then have "sort (seg m' 0 4) = sort [1, 4, 9, 2, 4]" using m'(3) by (intro sort_mset_cong) simp
  moreover have "sort [1, 4, 9, 2, 4] = [1, 2, 4, 4, 9 :: int]" by code_simp
  ultimately show ?thesis using m' by (auto simp: sorted_sort_id)
qed

lemma sorted_array_checks:
  assumes "sort_ready arr tmp n m" "n < 2 ^ 63" "0 < timing_count"
  shows "\<exists>m'. cilksort_timed timing_count s m arr tmp n = Some m' \<and> check_loop (nat n) m' arr 0 True = Some True"
proof -
  obtain m' where m': "cilksort_timed timing_count s m arr tmp n = Some m'" "sort_ready arr tmp n m'"
      "seg m' arr (arr + n - 1) = [0..n - 1]"
    using cilksort_timed_sorts[OF assms(1,2), of timing_count s] assms(3) by auto
  have n: "0 \<le> n" "allocated m' arr (arr + n - 1)" using m'(2) by (auto simp: sort_ready_def)
  have "m' (arr + j) = Some j" if "0 \<le> j" "j < n" for j
  proof -
    have "the (m' (arr + j)) = seg m' arr (arr + n - 1) ! nat j" using that by (simp add: nth_seg)
    also have "\<dots> = j" using that by (simp add: m'(3))
    finally show ?thesis using allocated_get[OF n(2), of "arr + j"] that by simp
  qed
  then show ?thesis
    using check_loop_all[OF n(2), of 0 "nat n" True] n(1) m'(1) by auto
qed

text \<open>C9: The program \<open>cilksort\<close> does what its command line asks: from every command line made of
\<open>-n size\<close>, \<open>-c\<close> and \<open>-h\<close> in that order, each optional, with at least one timed run, arrays of the
size asked for and any schedule, it returns; \<open>-h\<close> ends it with code -1, otherwise it exits with 0, and
with \<open>-c\<close> the check of the array that was filled, scrambled and sorted succeeds.\<close>

theorem cilksort_program_correct:
  assumes "\<forall>k. n = Some k \<longrightarrow> k < 2 ^ 63"
    and "sort_ready array tmp (case n of None \<Rightarrow> 10000000 | Some k \<Rightarrow> int k) m"
    and "0 < timing_count" "timing_count < 2 ^ 31"
  shows "cilksort_main atof clock timing_count s m array tmp (prog # benchmark_args n check hlp) help0 =
    Some (if hlp then (-1, None) else (0, if check then Some True else None))"
proof -
  let ?n = "case n of None \<Rightarrow> 10000000 | Some k \<Rightarrow> int k"
  have "?n < 2 ^ 63" using assms(1) by (cases n) auto
  from sorted_array_checks[OF assms(2) this assms(3)] obtain m' where
    m': "cilksort_timed timing_count s m array tmp ?n = Some m'" "check_loop (nat ?n) m' array 0 True = Some True"
    by blast
  obtain ave where "average_runtime (elapsed_times clock timing_count) = Some ave"
    using elapsed_times_average assms(3,4) by blast
  then show ?thesis
    using m' by (cases check; cases hlp) (simp_all add: cilksort_main_def benchmark_args_read[OF assms(1)])
qed

lemma cilksort_program_correct_witness:
  "cilksort_main (\<lambda>_. 0 :: int) of_nat 5 (\<lambda>p. even (length p))
     (put (put Map.empty 0 (replicate 3000 0)) 4000 (replicate 3000 0)) 0 4000
     (''cilksort'' # benchmark_args (Some 3000) True False) 7 = Some (0, Some True)"
proof -
  have "sort_ready 0 4000 (int 3000) (put (put Map.empty 0 (replicate 3000 0)) 4000 (replicate 3000 0))"
    by (auto simp: sort_ready_def allocated_def put_def apart_def)
  then show ?thesis
    using cilksort_program_correct[where n = "Some 3000" and check = True and hlp = False and timing_count = 5]
    by simp
qed

text \<open>Built without \<open>TIMING_COUNT\<close>, which \<open>cilksort.cpp\<close> then sets to 0, the program divides by the
number of timed runs and never reaches its check.\<close>

lemma cilksort_no_timed_runs:
  assumes "\<forall>k. n = Some k \<longrightarrow> k < 2 ^ 63"
  shows "cilksort_main atof clock 0 s m array tmp (prog # benchmark_args n check False) help0 = None"
  by (simp add: cilksort_main_def benchmark_args_read[OF assms] elapsed_times_def average_of_no_times)

end
