(* ===== verification/Matrix_Multiply.thy ===== *)
theory Matrix_Multiply
  imports Cell_Memory Test_Options
begin

text \<open>
  The program \<open>handcomp_test/mm_dac.cpp\<close>: \<open>C += A * B\<close> on square matrices stored row by row, by a
  triple loop below \<open>THRESHOLD\<close> and by eight recursive products of quadrants above it, first the four
  with the upper half of the inner dimension, then, after a sync, the four with the lower half.

  Elements are 32-bit and wrap; a matrix of the recursion is given by the address of its first
  element, the row length \<open>n\<close> of the whole matrix and its own side \<open>length\<close>. Indices stay below
  \<open>n * n\<close>, which \<open>test_mm\<close> has allocated, and are unbounded integers here. The libc generator
  \<open>rand_r\<close> is a parameter, a function of the seed.
\<close>

type_synonym imem = "u32 cells"

definition THRESHOLD :: int where "THRESHOLD = 16"

section \<open>The loops for small matrices\<close>

function mm_loop_k :: "imem \<Rightarrow> int \<Rightarrow> int \<Rightarrow> int \<Rightarrow> int \<Rightarrow> int \<Rightarrow> int \<Rightarrow> int \<Rightarrow> int \<Rightarrow> imem option" where
  "mm_loop_k m C A B n len i j k =
     (if k < len then do {
        c \<leftarrow> m (C + i * n + j);
        a \<leftarrow> m (A + i * n + k);
        b \<leftarrow> m (B + k * n + j);
        m \<leftarrow> store_cell m (C + i * n + j) (c + a * b);
        mm_loop_k m C A B n len i j (k + 1)
      } else Some m)"
  by pat_completeness auto
termination by (relation "measure (\<lambda>(m, C, A, B, n, len, i, j, k). nat (len - k))") auto

function mm_loop_j :: "imem \<Rightarrow> int \<Rightarrow> int \<Rightarrow> int \<Rightarrow> int \<Rightarrow> int \<Rightarrow> int \<Rightarrow> int \<Rightarrow> imem option" where
  "mm_loop_j m C A B n len i j =
     (if j < len then do {
        m \<leftarrow> mm_loop_k m C A B n len i j 0;
        mm_loop_j m C A B n len i (j + 1)
      } else Some m)"
  by pat_completeness auto
termination by (relation "measure (\<lambda>(m, C, A, B, n, len, i, j). nat (len - j))") auto

function mm_loop_i :: "imem \<Rightarrow> int \<Rightarrow> int \<Rightarrow> int \<Rightarrow> int \<Rightarrow> int \<Rightarrow> int \<Rightarrow> imem option" where
  "mm_loop_i m C A B n len i =
     (if i < len then do {
        m \<leftarrow> mm_loop_j m C A B n len i 0;
        mm_loop_i m C A B n len (i + 1)
      } else Some m)"
  by pat_completeness auto
termination by (relation "measure (\<lambda>(m, C, A, B, n, len, i). nat (len - i))") auto

declare mm_loop_k.simps [simp del] mm_loop_j.simps [simp del] mm_loop_i.simps [simp del]

section \<open>Divide and conquer\<close>

function mm_dac_serial :: "imem \<Rightarrow> int \<Rightarrow> int \<Rightarrow> int \<Rightarrow> int \<Rightarrow> int \<Rightarrow> imem option" where
  "mm_dac_serial m C A B n len =
     (if len < THRESHOLD then mm_loop_i m C A B n len 0
      else
        let mid = len div 2;
          C00 = C; C01 = C + mid; C10 = C + n * mid; C11 = C + n * mid + mid;
          A00 = A; A01 = A + mid; A10 = A + n * mid; A11 = A + n * mid + mid;
          B00 = B; B01 = B + mid; B10 = B + n * mid; B11 = B + n * mid + mid
        in do {
          m \<leftarrow> mm_dac_serial m C00 A00 B00 n mid;
          m \<leftarrow> mm_dac_serial m C01 A00 B01 n mid;
          m \<leftarrow> mm_dac_serial m C10 A10 B00 n mid;
          m \<leftarrow> mm_dac_serial m C11 A10 B01 n mid;
          m \<leftarrow> mm_dac_serial m C00 A01 B10 n mid;
          m \<leftarrow> mm_dac_serial m C01 A01 B11 n mid;
          m \<leftarrow> mm_dac_serial m C10 A11 B10 n mid;
          mm_dac_serial m C11 A11 B11 n mid
        })"
  by pat_completeness clarify
termination
  by (relation "measure (\<lambda>(m, C, A, B, n, len). nat len)") (clarify; simp add: THRESHOLD_def)+

function mm_dac :: "(nat list \<Rightarrow> bool) \<Rightarrow> imem \<Rightarrow> int \<Rightarrow> int \<Rightarrow> int \<Rightarrow> int \<Rightarrow> int \<Rightarrow> imem option" where
  "mm_dac s m C A B n len =
     (if len < THRESHOLD then mm_loop_i m C A B n len 0
      else
        let mid = len div 2;
          C00 = C; C01 = C + mid; C10 = C + n * mid; C11 = C + n * mid + mid;
          A00 = A; A01 = A + mid; A10 = A + n * mid; A11 = A + n * mid + mid;
          B00 = B; B01 = B + mid; B10 = B + n * mid; B11 = B + n * mid + mid
        in do {
          m \<leftarrow> spawned (s [0]) (\<lambda>m. mm_dac (\<lambda>p. s (0 # p)) m C00 A00 B00 n mid)
                (spawned (s [1]) (\<lambda>m. mm_dac (\<lambda>p. s (1 # p)) m C01 A00 B01 n mid)
                  (spawned (s [2]) (\<lambda>m. mm_dac (\<lambda>p. s (2 # p)) m C10 A10 B00 n mid)
                    (\<lambda>m. mm_dac (\<lambda>p. s (3 # p)) m C11 A10 B01 n mid))) m;
          spawned (s [4]) (\<lambda>m. mm_dac (\<lambda>p. s (4 # p)) m C00 A01 B10 n mid)
            (spawned (s [5]) (\<lambda>m. mm_dac (\<lambda>p. s (5 # p)) m C01 A01 B11 n mid)
              (spawned (s [6]) (\<lambda>m. mm_dac (\<lambda>p. s (6 # p)) m C10 A11 B10 n mid)
                (\<lambda>m. mm_dac (\<lambda>p. s (7 # p)) m C11 A11 B11 n mid))) m
        })"
  by pat_completeness clarify
termination
  by (relation "measure (\<lambda>(s, m, C, A, B, n, len). nat len)") (clarify; simp add: THRESHOLD_def)+

declare mm_dac_serial.simps [simp del] mm_dac.simps [simp del]

section \<open>The program\<close>

primrec rand_loop :: "(u32 \<Rightarrow> u32 \<times> u32) \<Rightarrow> nat \<Rightarrow> u32 \<Rightarrow> imem \<Rightarrow> int \<Rightarrow> (u32 \<times> imem) option" where
  "rand_loop rand_r 0 seed m p = Some (seed, m)"
| "rand_loop rand_r (Suc k) seed m p = do {
     let (v, seed) = rand_r seed;
     m \<leftarrow> store_cell m p (v AND 0xff);
     rand_loop rand_r k seed m (p + 1)
   }"

definition rand_matrix :: "(u32 \<Rightarrow> u32 \<times> u32) \<Rightarrow> u32 \<Rightarrow> imem \<Rightarrow> int \<Rightarrow> int \<Rightarrow> (u32 \<times> imem) option" where
  "rand_matrix rand_r seed m dest n = rand_loop rand_r (nat (n * n)) seed m dest"

primrec zero_loop :: "nat \<Rightarrow> imem \<Rightarrow> int \<Rightarrow> imem option" where
  "zero_loop 0 m p = Some m"
| "zero_loop (Suc k) m p = do {
     m \<leftarrow> store_cell m p 0;
     zero_loop k m (p + 1)
   }"

definition zero_matrix :: "imem \<Rightarrow> int \<Rightarrow> int \<Rightarrow> imem option" where
  "zero_matrix m dest n = zero_loop (nat (n * n)) m dest"

primrec equal_loop :: "nat \<Rightarrow> imem \<Rightarrow> int \<Rightarrow> int \<Rightarrow> bool option" where
  "equal_loop 0 m a b = Some True"
| "equal_loop (Suc k) m a b = do {
     x \<leftarrow> m a;
     y \<leftarrow> m b;
     if x \<noteq> y then Some False else equal_loop k m (a + 1) (b + 1)
   }"

definition are_equal_matrices :: "imem \<Rightarrow> int \<Rightarrow> int \<Rightarrow> int \<Rightarrow> bool option" where
  "are_equal_matrices m a b n = equal_loop (nat (n * n)) m a b"

primrec timed_products :: "nat \<Rightarrow> (nat list \<Rightarrow> bool) \<Rightarrow> imem \<Rightarrow> int \<Rightarrow> int \<Rightarrow> int \<Rightarrow> int \<Rightarrow> imem option" where
  "timed_products 0 s m C A B n = Some m"
| "timed_products (Suc k) s m C A B n = do {
     m \<leftarrow> zero_matrix m C n;
     m \<leftarrow> mm_dac (\<lambda>p. s (k # p)) m C A B n n;
     timed_products k s m C A B n
   }"

text \<open>The arrays of \<open>test_mm\<close> are given by their addresses; the result is the verdict it prints, if it
checks.\<close>

definition test_mm ::
    "(u32 \<Rightarrow> u32 \<times> u32) \<Rightarrow> (nat \<Rightarrow> u64) \<Rightarrow> nat \<Rightarrow> (nat list \<Rightarrow> bool) \<Rightarrow> u32 \<Rightarrow> imem \<Rightarrow>
     int \<Rightarrow> int \<Rightarrow> int \<Rightarrow> int \<Rightarrow> int \<Rightarrow> bool \<Rightarrow> bool option option" where
  "test_mm rand_r clock timing_count s seed m A B C Cs n check = do {
     (seed, m) \<leftarrow> rand_matrix rand_r seed m A n;
     (seed, m) \<leftarrow> rand_matrix rand_r seed m B n;
     m \<leftarrow> timed_products timing_count s m C A B n;
     average \<leftarrow> average_runtime (elapsed_times clock timing_count);
     if check then do {
       m \<leftarrow> zero_matrix m Cs n;
       m \<leftarrow> mm_dac_serial m Cs A B n n;
       equal \<leftarrow> are_equal_matrices m C Cs n;
       Some (Some equal)
     } else Some None
   }"

definition is_power_of_2 :: "u32 \<Rightarrow> bool" where
  "is_power_of_2 n \<longleftrightarrow> n AND (n - 1) = 0"

text \<open>\<open>main\<close>: the exit code, and the verdict of the check if the program gets there and is asked for
it. A size given as a \<open>long\<close> is cut to an \<open>int\<close>.\<close>

definition mm_main ::
    "(string \<Rightarrow> 'd) \<Rightarrow> (u32 \<Rightarrow> u32 \<times> u32) \<Rightarrow> (nat \<Rightarrow> u64) \<Rightarrow> nat \<Rightarrow> (nat list \<Rightarrow> bool) \<Rightarrow> imem \<Rightarrow>
     int \<Rightarrow> int \<Rightarrow> int \<Rightarrow> int \<Rightarrow> string list \<Rightarrow> (int \<times> bool option) option" where
  "mm_main atof rand_r clock timing_count s m A B C Cs argv = do {
     (vars, messages) \<leftarrow> get_options atof argv specifiers opt_types [Long_var 1024, Int_var 0, Int_var 0];
     case vars of
       [Long_var sz, Int_var check, Int_var help] \<Rightarrow>
         if help \<noteq> 0 then Some (0, None)
         else if \<not> is_power_of_2 (of_int sz) then Some (1, None)
         else do {
           verdict \<leftarrow> test_mm rand_r clock timing_count s 1 m A B C Cs (sint (of_int sz :: u32)) (check \<noteq> 0);
           Some (0, verdict)
         }
     | _ \<Rightarrow> None
   }"

end
