(* ===== verification/Matrix_Properties.thy ===== *)
theory Matrix_Properties
  imports Matrix_Multiply
begin

text \<open>
  The matrix product is an update of the cells of \<open>C\<close> by the dot products of the rows of \<open>A\<close> and the
  columns of \<open>B\<close>. Such updates commute whatever cells they touch, so the order of the spawned products
  is immaterial, and the two halves of the inner dimension add up.
\<close>

section \<open>Blocks of a matrix\<close>

definition in_block :: "int \<Rightarrow> int \<Rightarrow> int \<Rightarrow> int \<Rightarrow> bool" where
  "in_block C n len p \<longleftrightarrow> 0 \<le> (p - C) div n \<and> (p - C) div n < len \<and> (p - C) mod n < len"

definition bump :: "int \<Rightarrow> int \<Rightarrow> int \<Rightarrow> (int \<Rightarrow> int \<Rightarrow> u32) \<Rightarrow> imem \<Rightarrow> imem" where
  "bump C n len g m = (\<lambda>p. if in_block C n len p
     then Some (the (m p) + g ((p - C) div n) ((p - C) mod n)) else m p)"

definition dot :: "imem \<Rightarrow> int \<Rightarrow> int \<Rightarrow> int \<Rightarrow> int \<Rightarrow> int \<Rightarrow> int \<Rightarrow> u32" where
  "dot m A B n len i j = (\<Sum>k \<in> {0..<len}. the (m (A + i * n + k)) * the (m (B + k * n + j)))"

lemma cell_coords:
  assumes "0 \<le> j" "j < n"
  shows "(C + i * n + j - C) div n = i" "(C + i * n + j - C) mod n = (j :: int)"
  using assms by (simp_all add: div_add1_eq[of "i * n" j] div_pos_pos_trivial mod_pos_pos_trivial)

lemma in_block_cell:
  assumes "0 \<le> j" "j < n" "0 \<le> b" "0 \<le> l" "b + l \<le> n"
  shows "in_block (C + a * n + b) n l (C + i * n + j) \<longleftrightarrow> a \<le> i \<and> i < a + l \<and> b \<le> j \<and> j < b + l"
proof (cases "b \<le> j")
  case True
  have "C + i * n + j - (C + a * n + b) = 0 + (i - a) * n + (j - b) - 0" by (simp add: algebra_simps)
  then show ?thesis
    unfolding in_block_def using cell_coords[of "j - b" n 0 "i - a"] assms True by (simp only:) auto
next
  case False
  have "C + i * n + j - (C + a * n + b) = 0 + (i - a - 1) * n + (n + j - b) - 0" by (simp add: algebra_simps)
  then show ?thesis
    unfolding in_block_def using cell_coords[of "n + j - b" n 0 "i - a - 1"] assms False by (simp only:) auto
qed

lemma block_coords:
  fixes C i j n a b l :: int
  assumes "b \<le> j" "j < b + l" "l \<le> n"
  shows "(C + i * n + j - (C + a * n + b)) div n = i - a" "(C + i * n + j - (C + a * n + b)) mod n = j - b"
proof -
  have "C + i * n + j - (C + a * n + b) = 0 + (i - a) * n + (j - b) - 0" by (simp add: algebra_simps)
  then show "(C + i * n + j - (C + a * n + b)) div n = i - a"
      "(C + i * n + j - (C + a * n + b)) mod n = j - b"
    using cell_coords[of "j - b" n 0 "i - a"] assms by (simp_all only:)
qed

lemma in_blockE:
  assumes "in_block C n len p" "len \<le> n"
  obtains i j where "p = C + i * n + j" "0 \<le> i" "i < len" "0 \<le> j" "j < len"
proof
  have n: "0 < n" using assms by (auto simp: in_block_def)
  show "p = C + (p - C) div n * n + (p - C) mod n" by simp
  show "0 \<le> (p - C) mod n" using n by simp
qed (use assms in \<open>auto simp: in_block_def\<close>)

lemma in_block_cell0:
  assumes "0 \<le> j" "j < n" "0 \<le> l" "l \<le> n"
  shows "in_block C n l (C + i * n + j) \<longleftrightarrow> 0 \<le> i \<and> i < l \<and> j < l"
  using in_block_cell[of j n 0 l C 0 i] assms by simp

lemma bump_commute: "bump C n l g (bump D n' l' h m) = bump D n' l' h (bump C n l g m)"
  by (rule ext) (simp add: bump_def add.commute add.left_commute)

lemma bump_cell:
  assumes "0 \<le> j" "j < n" "0 \<le> b" "0 \<le> l" "b + l \<le> n"
  shows "bump (C + a * n + b) n l g m (C + i * n + j) =
    (if a \<le> i \<and> i < a + l \<and> b \<le> j \<and> j < b + l then Some (the (m (C + i * n + j)) + g (i - a) (j - b))
     else m (C + i * n + j))"
  using in_block_cell[OF assms, of C a i] block_coords[of b j l n C i a] assms
  by (auto simp: bump_def)

section \<open>What a product needs\<close>

definition mm_ready :: "imem \<Rightarrow> int \<Rightarrow> int \<Rightarrow> int \<Rightarrow> int \<Rightarrow> int \<Rightarrow> bool" where
  "mm_ready m C A B n len \<longleftrightarrow> 0 \<le> len \<and> len \<le> n \<and>
     (\<forall>p. in_block C n len p \<longrightarrow> m p \<noteq> None \<and> \<not> in_block A n len p \<and> \<not> in_block B n len p) \<and>
     (\<forall>p. in_block A n len p \<or> in_block B n len p \<longrightarrow> m p \<noteq> None)"

definition same_factors :: "imem \<Rightarrow> imem \<Rightarrow> int \<Rightarrow> int \<Rightarrow> int \<Rightarrow> int \<Rightarrow> bool" where
  "same_factors m M A B n len \<longleftrightarrow> (\<forall>p. in_block A n len p \<or> in_block B n len p \<longrightarrow> M p = m p)"

lemma dot_same:
  assumes "same_factors m M A B n len" "0 \<le> len" "len \<le> n" "0 \<le> i" "i < len" "0 \<le> j" "j < len"
  shows "dot M A B n len i j = dot m A B n len i j"
  unfolding dot_def
proof (rule sum.cong[OF refl])
  fix k assume k: "k \<in> {0..<len}"
  then have "in_block A n len (A + i * n + k)" "in_block B n len (B + k * n + j)"
    using assms by (auto simp: in_block_cell0)
  then show "the (M (A + i * n + k)) * the (M (B + k * n + j)) =
      the (m (A + i * n + k)) * the (m (B + k * n + j))"
    using assms(1) by (simp add: same_factors_def)
qed

section \<open>The loops\<close>

definition partial_dot :: "imem \<Rightarrow> int \<Rightarrow> int \<Rightarrow> int \<Rightarrow> int \<Rightarrow> int \<Rightarrow> int \<Rightarrow> int \<Rightarrow> u32" where
  "partial_dot m A B n len i j k = (\<Sum>k' \<in> {k..<len}. the (m (A + i * n + k')) * the (m (B + k' * n + j)))"

lemma mm_ready_gets:
  assumes "mm_ready m C A B n len" "0 \<le> i" "i < len" "0 \<le> j" "j < len"
  shows "\<exists>v. m (C + i * n + j) = Some v" "\<exists>v. m (A + i * n + j) = Some v" "\<exists>v. m (B + i * n + j) = Some v"
    "\<And>i' j'. 0 \<le> i' \<Longrightarrow> i' < len \<Longrightarrow> 0 \<le> j' \<Longrightarrow> j' < len \<Longrightarrow>
      C + i * n + j \<noteq> A + i' * n + j' \<and> C + i * n + j \<noteq> B + i' * n + j'"
proof -
  have c: "in_block C n len (C + i * n + j)" "in_block A n len (A + i * n + j)" "in_block B n len (B + i * n + j)"
    using assms by (auto simp: in_block_cell0 mm_ready_def)
  then show "\<exists>v. m (C + i * n + j) = Some v" "\<exists>v. m (A + i * n + j) = Some v" "\<exists>v. m (B + i * n + j) = Some v"
    using assms(1) by (auto simp: mm_ready_def)
  fix i' j' assume b: "0 \<le> i'" "i' < len" "0 \<le> j'" "j' < len"
  then have "in_block A n len (A + i' * n + j')" "in_block B n len (B + i' * n + j')"
    using assms(1) by (auto simp: in_block_cell0 mm_ready_def)
  then show "C + i * n + j \<noteq> A + i' * n + j' \<and> C + i * n + j \<noteq> B + i' * n + j'"
    using assms(1) c(1) unfolding mm_ready_def by metis
qed

lemma mm_ready_upd: "mm_ready m C A B n len \<Longrightarrow> mm_ready (m(p \<mapsto> v)) C A B n len"
  by (auto simp: mm_ready_def)

lemma mm_loop_k_adds:
  assumes "mm_ready m C A B n len" "0 \<le> i" "i < len" "0 \<le> j" "j < len" "0 \<le> k" "k \<le> len"
  shows "mm_loop_k m C A B n len i j k =
    Some (m(C + i * n + j \<mapsto> the (m (C + i * n + j)) + partial_dot m A B n len i j k))"
  using assms
proof (induction "nat (len - k)" arbitrary: m k rule: less_induct)
  case less
  let ?p = "C + i * n + j"
  obtain c where c: "m ?p = Some c" using mm_ready_gets(1)[OF less.prems(1-5)] by blast
  show ?case
  proof (cases "k < len")
    case False
    then have "m(?p \<mapsto> c) = m" using c by (simp add: fun_upd_idem)
    then show ?thesis using False c by (subst mm_loop_k.simps) (simp add: partial_dot_def)
  next
    case True
    obtain a b where a: "m (A + i * n + k) = Some a" and b: "m (B + k * n + j) = Some b"
      using mm_ready_gets(2)[OF less.prems(1-3,6) True] mm_ready_gets(3)[OF less.prems(1,6) True less.prems(4,5)]
      by blast
    let ?M = "m(?p \<mapsto> c + a * b)"
    have "mm_loop_k ?M C A B n len i j (k + 1) =
        Some (?M(?p \<mapsto> the (?M ?p) + partial_dot ?M A B n len i j (k + 1)))"
      by (rule less.hyps) (use less.prems True mm_ready_upd in auto)
    moreover have "partial_dot ?M A B n len i j (k + 1) = partial_dot m A B n len i j (k + 1)"
      unfolding partial_dot_def
    proof (rule sum.cong[OF refl])
      fix k' assume "k' \<in> {k + 1..<len}"
      then have "A + i * n + k' \<noteq> ?p" "B + k' * n + j \<noteq> ?p"
        using mm_ready_gets(4)[OF less.prems(1-5), of i k'] mm_ready_gets(4)[OF less.prems(1-5), of k' j]
          less.prems by auto
      then show "the (?M (A + i * n + k')) * the (?M (B + k' * n + j)) =
          the (m (A + i * n + k')) * the (m (B + k' * n + j))" by simp
    qed
    moreover have "{k..<len} = insert k {k + 1..<len}" using True by auto
    then have "partial_dot m A B n len i j k = a * b + partial_dot m A B n len i j (k + 1)"
      using a b by (simp add: partial_dot_def)
    ultimately show ?thesis
      using True a b c by (subst mm_loop_k.simps) (simp add: store_cell_def add.assoc)
  qed
qed

lemma mm_loop_k_dot:
  assumes "mm_ready m C A B n len" "0 \<le> i" "i < len" "0 \<le> j" "j < len"
  shows "mm_loop_k m C A B n len i j 0 =
    Some (m(C + i * n + j \<mapsto> the (m (C + i * n + j)) + dot m A B n len i j))"
  using mm_loop_k_adds[OF assms order_refl] assms by (simp add: partial_dot_def dot_def)

text \<open>The part of \<open>bump\<close> that the rows from \<open>i\<close> on, and the cells from \<open>j\<close> on of row \<open>i\<close>, have still to
do.\<close>

definition bump_from :: "int \<Rightarrow> int \<Rightarrow> int \<Rightarrow> (int \<Rightarrow> int \<Rightarrow> u32) \<Rightarrow> int \<Rightarrow> int \<Rightarrow> int \<Rightarrow> imem \<Rightarrow> imem" where
  "bump_from C n len g i hi j m = (\<lambda>p.
     if in_block C n len p \<and> i \<le> (p - C) div n \<and> (p - C) div n < hi \<and> ((p - C) div n = i \<longrightarrow> j \<le> (p - C) mod n)
     then Some (the (m p) + g ((p - C) div n) ((p - C) mod n)) else m p)"

lemma bump_from_outside: "\<not> in_block C n len p \<Longrightarrow> bump_from C n len g i hi j m p = m p"
  by (simp add: bump_from_def)

lemma mm_ready_bump_from: "mm_ready m C A B n len \<Longrightarrow> mm_ready (bump_from C n len g i hi j m) C A B n len"
  by (auto simp: mm_ready_def bump_from_def)

lemma same_factors_bump_from:
  "mm_ready m C A B n len \<Longrightarrow> same_factors m (bump_from C n len g i hi j m) A B n len"
  by (auto simp: mm_ready_def same_factors_def bump_from_def)

lemma same_factors_trans:
  "same_factors m M A B n len \<Longrightarrow> same_factors M N A B n len \<Longrightarrow> same_factors m N A B n len"
  by (simp add: same_factors_def)

lemma mm_loop_j_bumps:
  assumes "mm_ready M C A B n len" "same_factors m M A B n len" "0 \<le> i" "i < len" "0 \<le> j" "j \<le> len"
  shows "mm_loop_j M C A B n len i j = Some (bump_from C n len (dot m A B n len) i (i + 1) j M)"
  using assms
proof (induction "nat (len - j)" arbitrary: M j rule: less_induct)
  case less
  have ln: "0 \<le> len" "len \<le> n" using less.prems(1) by (auto simp: mm_ready_def)
  show ?case
  proof (cases "j < len")
    case False
    have "bump_from C n len (dot m A B n len) i (i + 1) j M = M"
      using False by (intro ext) (auto simp: bump_from_def in_block_def)
    then show ?thesis using False by (subst mm_loop_j.simps) simp
  next
    case True
    let ?p = "C + i * n + j"
    let ?M = "M(?p \<mapsto> the (M ?p) + dot m A B n len i j)"
    have k: "mm_loop_k M C A B n len i j 0 = Some ?M"
      using mm_loop_k_dot[OF less.prems(1,3,4,5) True]
        dot_same[OF less.prems(2) ln less.prems(3,4,5) True] by simp
    have inp: "in_block C n len ?p" "(?p - C) div n = i" "(?p - C) mod n = j"
      using True less.prems ln in_block_cell0[of j n len C i] cell_coords[of j n C i] by auto
    have "same_factors M ?M A B n len"
      using less.prems(1) inp(1) by (auto simp: same_factors_def mm_ready_def)
    then have sf: "same_factors m ?M A B n len" using less.prems(2) same_factors_trans by blast
    have "mm_loop_j ?M C A B n len i (j + 1) = Some (bump_from C n len (dot m A B n len) i (i + 1) (j + 1) ?M)"
      by (rule less.hyps[OF _ mm_ready_upd[OF less.prems(1)] sf]) (use less.prems True in auto)
    moreover have "bump_from C n len (dot m A B n len) i (i + 1) (j + 1) ?M =
        bump_from C n len (dot m A B n len) i (i + 1) j M"
    proof (rule ext)
      fix p
      have "p = ?p" if "(p - C) div n = i" "(p - C) mod n = j" using that by (metis add.assoc div_mult_mod_eq add_diff_cancel_left' diff_add_cancel add.commute)
      then show "bump_from C n len (dot m A B n len) i (i + 1) (j + 1) ?M p =
          bump_from C n len (dot m A B n len) i (i + 1) j M p"
        using inp by (cases "p = ?p") (auto simp: bump_from_def)
    qed
    ultimately show ?thesis using True k by (subst mm_loop_j.simps) simp
  qed
qed

lemma mm_loop_i_bumps:
  assumes "mm_ready M C A B n len" "same_factors m M A B n len" "0 \<le> i" "i \<le> len"
  shows "mm_loop_i M C A B n len i = Some (bump_from C n len (dot m A B n len) i len 0 M)"
  using assms
proof (induction "nat (len - i)" arbitrary: M i rule: less_induct)
  case less
  have ln: "0 \<le> len" "len \<le> n" using less.prems(1) by (auto simp: mm_ready_def)
  show ?case
  proof (cases "i < len")
    case False
    have "bump_from C n len (dot m A B n len) i len 0 M = M"
      using False by (intro ext) (auto simp: bump_from_def in_block_def)
    then show ?thesis using False by (subst mm_loop_i.simps) simp
  next
    case True
    let ?M = "bump_from C n len (dot m A B n len) i (i + 1) 0 M"
    have j: "mm_loop_j M C A B n len i 0 = Some ?M"
      by (rule mm_loop_j_bumps) (use less.prems True ln in auto)
    have "mm_loop_i ?M C A B n len (i + 1) = Some (bump_from C n len (dot m A B n len) (i + 1) len 0 ?M)"
      by (rule less.hyps)
        (use less.prems True mm_ready_bump_from same_factors_bump_from same_factors_trans in \<open>blast | simp\<close>)+
    moreover have "0 \<le> (p - C) mod n" for p using True ln less.prems by simp
    then have "bump_from C n len (dot m A B n len) (i + 1) len 0 ?M = bump_from C n len (dot m A B n len) i len 0 M"
      using True by (intro ext) (auto simp: bump_from_def)
    ultimately show ?thesis using True j by (subst mm_loop_i.simps) simp
  qed
qed

lemma mm_small:
  assumes "mm_ready M C A B n len" "same_factors m M A B n len"
  shows "mm_loop_i M C A B n len 0 = Some (bump C n len (dot m A B n len) M)"
proof -
  have "0 \<le> len" "len \<le> n" using assms(1) by (auto simp: mm_ready_def)
  moreover have "bump_from C n len (dot m A B n len) 0 len 0 M = bump C n len (dot m A B n len) M"
  proof (rule ext)
    fix p
    have "0 \<le> (p - C) mod n" if "in_block C n len p"
      using that \<open>len \<le> n\<close> by (auto simp: in_block_def)
    then show "bump_from C n len (dot m A B n len) 0 len 0 M p = bump C n len (dot m A B n len) M p"
      by (auto simp: bump_from_def bump_def in_block_def)
  qed
  ultimately show ?thesis using mm_loop_i_bumps[OF assms order_refl] by simp
qed

section \<open>Quadrants\<close>

lemma in_block_sub:
  assumes "in_block (X + a * n + b) n mid p" "0 \<le> a" "0 \<le> b" "a + mid \<le> len" "b + mid \<le> len" "len \<le> n"
  shows "in_block X n len p"
proof -
  obtain i j where p: "p = X + a * n + b + i * n + j" "0 \<le> i" "i < mid" "0 \<le> j" "j < mid"
    by (rule in_blockE[OF assms(1)]) (use assms in auto)
  then have "p = X + (a + i) * n + (b + j)" by (simp add: algebra_simps)
  moreover have "in_block X n len (X + (a + i) * n + (b + j))"
    using p assms by (subst in_block_cell0) auto
  ultimately show ?thesis by simp
qed

lemma mm_ready_quadrant:
  assumes "mm_ready m C A B n len" "{a, b, c} \<subseteq> {0, mid}" "0 \<le> mid" "2 * mid \<le> len"
  shows "mm_ready m (C + a * n + b) (A + a * n + c) (B + c * n + b) n mid"
proof -
  have *: "0 \<le> a" "0 \<le> b" "0 \<le> c" "a + mid \<le> len" "b + mid \<le> len" "c + mid \<le> len" "len \<le> n"
    using assms by (auto simp: mm_ready_def)
  have sub: "in_block (C + a * n + b) n mid p \<Longrightarrow> in_block C n len p"
    "in_block (A + a * n + c) n mid p \<Longrightarrow> in_block A n len p"
    "in_block (B + c * n + b) n mid p \<Longrightarrow> in_block B n len p" for p
    using in_block_sub * by blast+
  show ?thesis
    unfolding mm_ready_def
  proof (intro conjI)
    show "0 \<le> mid" "mid \<le> n" using assms by (auto simp: mm_ready_def)
  qed (use assms(1) sub in \<open>unfold mm_ready_def, blast\<close>)+
qed

lemma same_factors_quadrant:
  assumes "same_factors m M A B n len" "{a, b, c} \<subseteq> {0, mid}" "0 \<le> mid" "2 * mid \<le> len" "len \<le> n"
  shows "same_factors m M (A + a * n + c) (B + c * n + b) n mid"
proof -
  have *: "0 \<le> a" "0 \<le> b" "0 \<le> c" "a + mid \<le> len" "b + mid \<le> len" "c + mid \<le> len"
    using assms by auto
  have sub: "in_block (A + a * n + c) n mid p \<Longrightarrow> in_block A n len p"
    "in_block (B + c * n + b) n mid p \<Longrightarrow> in_block B n len p" for p
    using in_block_sub * assms(5) by blast+
  then show ?thesis using assms(1) unfolding same_factors_def by blast
qed

lemma mm_ready_bump: "mm_ready m C A B n len \<Longrightarrow> mm_ready (bump D n k g m) C A B n len"
  by (auto simp: mm_ready_def bump_def)

lemma same_factors_bump:
  assumes "mm_ready M C A B n len" "same_factors m M A B n len" "\<And>p. in_block D n k p \<Longrightarrow> in_block C n len p"
  shows "same_factors m (bump D n k g M) A B n len"
  using assms by (auto simp: mm_ready_def same_factors_def bump_def)

text \<open>The dot product over the whole inner dimension is the sum of the ones over its halves.\<close>

lemma dot_halves:
  assumes "0 \<le> mid"
  shows "dot m (A + a * n) (B + b) n mid (i - a) (j - b) +
      dot m (A + a * n + mid) (B + mid * n + b) n mid (i - a) (j - b) =
    dot m A B n (2 * mid) i j"
proof -
  let ?f = "\<lambda>k. the (m (A + i * n + k)) * the (m (B + k * n + j))"
  have r: "A + a * n + (i - a) * n = A + i * n" by (simp add: algebra_simps)
  have "dot m (A + a * n) (B + b) n mid (i - a) (j - b) = sum ?f {0..<mid}"
    unfolding dot_def by (rule sum.cong) (simp_all add: algebra_simps)
  moreover have "dot m (A + a * n + mid) (B + mid * n + b) n mid (i - a) (j - b) = sum ?f {mid..<2 * mid}"
    unfolding dot_def
    by (rule sum.reindex_bij_witness[of _ "\<lambda>k. k - mid" "\<lambda>k. k + mid"]) (auto simp: algebra_simps)
  moreover have "{0..<2 * mid} = {0..<mid} \<union> {mid..<2 * mid}" using assms by auto
  then have "sum ?f {0..<2 * mid} = sum ?f {0..<mid} + sum ?f {mid..<2 * mid}"
    by (simp add: sum.union_disjoint)
  ultimately show ?thesis by (simp add: dot_def)
qed

text \<open>The eight products together are the whole product.\<close>

definition quadrant :: "imem \<Rightarrow> int \<Rightarrow> int \<Rightarrow> int \<Rightarrow> int \<Rightarrow> int \<Rightarrow> int \<Rightarrow> int \<Rightarrow> int \<Rightarrow> imem \<Rightarrow> imem" where
  "quadrant m C A B n mid a b c = bump (C + a * n + b) n mid (dot m (A + a * n + c) (B + c * n + b) n mid)"

lemma quadrants_bump:
  assumes "0 \<le> mid" "2 * mid \<le> n"
  shows "quadrant m C A B n mid mid mid mid (quadrant m C A B n mid mid 0 mid
      (quadrant m C A B n mid 0 mid mid (quadrant m C A B n mid 0 0 mid
        (quadrant m C A B n mid mid mid 0 (quadrant m C A B n mid mid 0 0
          (quadrant m C A B n mid 0 mid 0 (quadrant m C A B n mid 0 0 0 M))))))) =
    bump C n (2 * mid) (dot m A B n (2 * mid)) M" (is "?L = ?R")
proof (rule ext)
  fix p
  note bounds = assms
  show "?L p = ?R p"
  proof (cases "in_block C n (2 * mid) p")
    case False
    have "\<not> in_block (C + a * n + b) n mid p" if "a \<in> {0, mid}" "b \<in> {0, mid}" for a b
      using False in_block_sub[of C a n b mid p "2 * mid"] that bounds by auto
    then have "quadrant m C A B n mid a b c N p = N p" if "a \<in> {0, mid}" "b \<in> {0, mid}" for a b c N
      using that unfolding quadrant_def bump_def by metis
    then show ?thesis using False by (simp add: bump_def)
  next
    case True
    obtain i j where p: "p = C + i * n + j" and ij: "0 \<le> i" "i < 2 * mid" "0 \<le> j" "j < 2 * mid"
      by (rule in_blockE[OF True bounds(2)]) auto
    have q: "quadrant m C A B n mid a b c N p =
        (if a \<le> i \<and> i < a + mid \<and> b \<le> j \<and> j < b + mid
         then Some (the (N p) + dot m (A + a * n + c) (B + c * n + b) n mid (i - a) (j - b)) else N p)"
      if "0 \<le> b" "b \<le> mid" for a b c N
      unfolding quadrant_def p by (rule bump_cell) (use ij bounds that in auto)
    have R: "?R p = Some (the (M p) + dot m A B n (2 * mid) i j)"
      using bump_cell[of j n 0 "2 * mid" C 0 "dot m A B n (2 * mid)" M i] ij bounds by (simp add: p)
    show ?thesis
      unfolding R using ij bounds(1)
        dot_halves[OF bounds(1), of m A 0 n B 0 i j] dot_halves[OF bounds(1), of m A 0 n B mid i j]
        dot_halves[OF bounds(1), of m A mid n B 0 i j] dot_halves[OF bounds(1), of m A mid n B mid i j]
      by (cases "i < mid"; cases "j < mid") (simp_all add: q add.assoc)
  qed
qed

section \<open>The product\<close>

function halves :: "int \<Rightarrow> bool" where
  "halves len = (if len < THRESHOLD then True else even len \<and> halves (len div 2))"
  by pat_completeness auto
termination by (relation "measure nat") (auto simp: THRESHOLD_def)

declare halves.simps [simp del]

lemma even_half: "even len \<Longrightarrow> 2 * (len div 2) = (len :: int)"
  by simp

lemma mm_dac_bumps:
  assumes "mm_ready M C A B n len" "same_factors m M A B n len" "halves len"
  shows "mm_dac s M C A B n len = Some (bump C n len (dot m A B n len) M)"
  using assms
proof (induction "nat len" arbitrary: s M C A B len m rule: less_induct)
  case less
  show ?case
  proof (cases "len < THRESHOLD")
    case True
    then show ?thesis using mm_small[OF less.prems(1,2)] by (subst mm_dac.simps) simp
  next
    case False
    define mid where "mid = len div 2"
    have mid: "len = 2 * mid" "0 \<le> mid" "nat mid < nat len" "halves mid" "len \<le> n"
      using False less.prems(1,3) halves.simps[of len] by (auto simp: mid_def THRESHOLD_def mm_ready_def)
    let ?P = "\<lambda>M. mm_ready M C A B n len \<and> same_factors m M A B n len"
    let ?Q = "quadrant m C A B n mid"
    have S: "mm_dac s M (C + a * n + b) (A + a * n + c) (B + c * n + b) n mid = Some (?Q a b c M) \<and> ?P (?Q a b c M)"
      if "?P M" "{a, b, c} \<subseteq> {0, mid}" for s M a b c
    proof -
      have "mm_dac s M (C + a * n + b) (A + a * n + c) (B + c * n + b) n mid = Some (?Q a b c M)"
        unfolding quadrant_def
        by (rule less.hyps[OF mid(3) mm_ready_quadrant[where len = len, OF _ that(2)] same_factors_quadrant[where len = len, OF _ that(2)] mid(4)])
          (use that(1) mid in auto)
      moreover have "in_block C n len p" if "in_block (C + a * n + b) n mid p" for p
        by (rule in_block_sub[OF that]) (use \<open>{a, b, c} \<subseteq> {0, mid}\<close> mid in auto)
      ultimately show ?thesis
        using that(1) mm_ready_bump same_factors_bump unfolding quadrant_def by blast
    qed
    have com: "?Q a b c (?Q a' b' c' M) = ?Q a' b' c' (?Q a b c M)" for a b c a' b' c' M
      unfolding quadrant_def by (rule bump_commute)
    have four: "spawned t0 (\<lambda>m. mm_dac s0 m (C + 0 * n + 0) (A + 0 * n + c) (B + c * n + 0) n mid)
          (spawned t1 (\<lambda>m. mm_dac s1 m (C + 0 * n + mid) (A + 0 * n + c) (B + c * n + mid) n mid)
            (spawned t2 (\<lambda>m. mm_dac s2 m (C + mid * n + 0) (A + mid * n + c) (B + c * n + 0) n mid)
              (\<lambda>m. mm_dac s3 m (C + mid * n + mid) (A + mid * n + c) (B + c * n + mid) n mid))) M =
        Some (?Q mid mid c (?Q mid 0 c (?Q 0 mid c (?Q 0 0 c M)))) \<and>
        ?P (?Q mid mid c (?Q mid 0 c (?Q 0 mid c (?Q 0 0 c M))))"
      if "?P M" "c \<in> {0, mid}" for t0 t1 t2 s0 s1 s2 s3 M c
      by (rule four_spawned[where P = ?P and ?F0.0 = "?Q 0 0 c" and ?F1.0 = "?Q 0 mid c" and ?F2.0 = "?Q mid 0 c" and
            ?F3.0 = "?Q mid mid c"]) ((rule S; use that in simp) | rule com that(1))+
    have P: "?P M" using less.prems by simp
    let ?N = "?Q mid mid 0 (?Q mid 0 0 (?Q 0 mid 0 (?Q 0 0 0 M)))"
    note adr = mult_zero_left add_0_right mult.commute[of mid n]
    note first = four[OF P, of 0, THEN conjunct1, unfolded adr]
    have N: "?P ?N" using four[OF P, of 0] by simp
    note second = four[OF N, of mid, THEN conjunct1, unfolded adr]
    have all: "?Q mid mid mid (?Q mid 0 mid (?Q 0 mid mid (?Q 0 0 mid ?N))) = bump C n len (dot m A B n len) M"
      using quadrants_bump[of mid n m C A B M] mid by simp
    show ?thesis
      using False first second all
      by (subst mm_dac.simps) (simp add: Let_def mid_def[symmetric] adr del: mult.commute)
  qed
qed

lemma mm_dac_serial_elision: "mm_dac_serial m C A B n len = mm_dac (\<lambda>_. False) m C A B n len"
proof (induction m C A B n len rule: mm_dac_serial.induct)
  case (1 m C A B n len)
  show ?case
    by (subst mm_dac_serial.simps, subst mm_dac.simps) (simp add: spawned_def Let_def 1 cong: Option.bind_cong)
qed

section \<open>The program\<close>



lemma whole_block:
  assumes "0 \<le> n"
  shows "in_block X n n p \<longleftrightarrow> X \<le> p \<and> p < X + n * n"
proof (cases "n = 0")
  case True
  then show ?thesis by (simp add: in_block_def)
next
  case False
  then have n: "0 < n" using assms by simp
  have "(p - X) div n < n \<longleftrightarrow> p - X < n * n"
  proof -
    have d: "p - X = (p - X) div n * n + (p - X) mod n" "0 \<le> (p - X) mod n" "(p - X) mod n < n"
      using n by simp_all
    have "((p - X) div n + 1) * n \<le> n * n" if "(p - X) div n < n"
      by (rule mult_right_mono) (use that n in auto)
    moreover have "n * n \<le> (p - X) div n * n" if "\<not> (p - X) div n < n"
      by (rule mult_right_mono) (use that n in auto)
    moreover have "((p - X) div n + 1) * n = (p - X) div n * n + n" by (simp add: distrib_right)
    ultimately show ?thesis using d by (cases "(p - X) div n < n") linarith+
  qed
  then show ?thesis using n by (auto simp: in_block_def pos_imp_zdiv_nonneg_iff)
qed









section \<open>Properties\<close>

text \<open>The parallel product computes what the serial one computes: when the side is below
\<open>THRESHOLD\<close> or halves evenly down to it, both add the matrix product of \<open>A\<close> and \<open>B\<close> to \<open>C\<close>, cell by
cell, under every schedule, and change nothing else.\<close>

theorem mm_dac_is_serial:
  assumes "mm_ready m C A B n len" "halves len"
  shows "mm_dac s m C A B n len = mm_dac_serial m C A B n len \<and>
    mm_dac_serial m C A B n len = Some (\<lambda>p. if in_block C n len p
      then Some (the (m p) + dot m A B n len ((p - C) div n) ((p - C) mod n)) else m p)"
proof -
  have "same_factors m m A B n len" by (simp add: same_factors_def)
  from mm_dac_bumps[OF assms(1) this assms(2)] show ?thesis
    by (simp add: mm_dac_serial_elision bump_def)
qed

lemma mm_dac_is_serial_witness:
  "\<exists>M. mm_dac (\<lambda>_. True) (put Map.empty 0 [1, 2, 3, 4, 5, 6, 7, 8, 0, 0, 0, 1]) 8 0 4 2 2 = Some M \<and>
    seg M 8 11 = [19, 22, 43, 51]"
proof -
  let ?m = "put Map.empty 0 [1, 2, 3, 4, 5, 6, 7, 8, 0, 0, 0, 1] :: imem"
  have "mm_ready ?m 8 0 4 2 2"
    unfolding mm_ready_def using whole_block[of 2] by (auto simp: put_def)
  moreover have "halves 2" by (subst halves.simps) (simp add: THRESHOLD_def)
  ultimately have "mm_dac (\<lambda>_. True) ?m 8 0 4 2 2 = mm_dac_serial ?m 8 0 4 2 2"
    using mm_dac_is_serial by blast
  moreover have "\<exists>M. mm_dac_serial ?m 8 0 4 2 2 = Some M \<and> seg M 8 11 = [19, 22, 43, 51]"
  proof -
    have "map_option (\<lambda>M. seg M 8 11) (mm_dac_serial ?m 8 0 4 2 2) = Some [19, 22, 43, 51]" by code_simp
    then show ?thesis by auto
  qed
  ultimately show ?thesis by simp
qed




end
