(* ===== verification/Nqueens.thy ===== *)
theory Nqueens
  imports Cell_Memory
begin

text \<open>
  The program \<open>handcomp_test/nqueens.cpp\<close>: a board is an array of \<open>char\<close>s, one column number per
  row; every placement of row \<open>j\<close> that does not conflict spawns the search of the rest of the board,
  which writes its count into its own cell of \<open>count\<close>. Counts are 32-bit and wrap.

  A \<open>char\<close> is a signed byte that the comparisons promote to \<open>int\<close>. A search that starts past the last
  row (\<open>n < j\<close>) never reaches \<open>n == j\<close> and is \<open>None\<close>.
\<close>

definition conflict :: "8 word \<Rightarrow> 8 word \<Rightarrow> int \<Rightarrow> bool" where
  "conflict p q d \<longleftrightarrow> q = p \<or> sint q = sint p - d \<or> sint q = sint p + d"

function ok_inner :: "nat \<Rightarrow> 8 word list \<Rightarrow> nat \<Rightarrow> nat \<Rightarrow> bool" where
  "ok_inner n a i j =
     (if j < n then (if conflict (a ! i) (a ! j) (int (j - i)) then False else ok_inner n a i (j + 1)) else True)"
  by pat_completeness auto
termination by (relation "measure (\<lambda>(n, a, i, j). n - j)") auto

function ok_outer :: "nat \<Rightarrow> 8 word list \<Rightarrow> nat \<Rightarrow> bool" where
  "ok_outer n a i = (if i < n then (if ok_inner n a i (i + 1) then ok_outer n a (i + 1) else False) else True)"
  by pat_completeness auto
termination by (relation "measure (\<lambda>(n, a, i). n - i)") auto

declare ok_inner.simps [simp del] ok_outer.simps [simp del]

definition ok :: "nat \<Rightarrow> 8 word list \<Rightarrow> bool" where
  "ok n a = ok_outer n a 0"

text \<open>The loop \<open>for (i = 0; i < n; i++) if (test i) cilk_spawn strand i\<close>: the continuation of the
spawn of iteration \<open>i\<close> is the rest of the loop.\<close>

primrec spawn_loop ::
    "(nat \<Rightarrow> bool) \<Rightarrow> (nat \<Rightarrow> bool) \<Rightarrow> (nat \<Rightarrow> 'm \<Rightarrow> 'm option) \<Rightarrow> nat list \<Rightarrow> 'm \<Rightarrow> 'm option" where
  "spawn_loop stolen test strand [] m = Some m"
| "spawn_loop stolen test strand (i # is) m =
     (if test i then spawned (stolen i) (strand i) (spawn_loop stolen test strand is) m
      else spawn_loop stolen test strand is m)"

lemma spawn_loop_cong [fundef_cong]:
  assumes "stolen = stolen'" "test = test'" "is = is'" "m = m'"
    "\<And>i x. i \<in> set is' \<Longrightarrow> test' i \<Longrightarrow> strand i x = strand' i x"
  shows "spawn_loop stolen test strand is m = spawn_loop stolen' test' strand' is' m'"
proof -
  have "spawn_loop stolen' test' strand js x = spawn_loop stolen' test' strand' js x"
    if "set js \<subseteq> set is'" for js x
    using that assms(5) by (induction js arbitrary: x) (auto intro!: spawned_cong)
  then show ?thesis using assms(1-4) by simp
qed

function nqueens :: "(nat list \<Rightarrow> bool) \<Rightarrow> nat \<Rightarrow> nat \<Rightarrow> 8 word list \<Rightarrow> u32 option" where
  "nqueens s n j a =
     (if n = j then Some 1
      else if n < j then None
      else do {
        count \<leftarrow> spawn_loop (\<lambda>i. s [i]) (\<lambda>i. ok (j + 1) (take j a @ [of_nat i]))
          (\<lambda>i count. do {
             v \<leftarrow> nqueens (\<lambda>p. s (i # p)) n (j + 1) (take j a @ [of_nat i]);
             Some (count[i := v])
           }) [0..<n] (replicate n 0);
        Some (sum_list count)
      })"
  by pat_completeness auto
termination by (relation "measure (\<lambda>(s, n, j, a). n - j)") auto

declare nqueens.simps [simp del]

section \<open>The test of a board\<close>

definition attack :: "nat \<Rightarrow> nat \<Rightarrow> nat \<Rightarrow> bool" where
  "attack d p q \<longleftrightarrow> q = p \<or> q + d = p \<or> q = p + d"

definition safe :: "nat list \<Rightarrow> bool" where
  "safe qs \<longleftrightarrow> (\<forall>j < length qs. \<forall>i < j. \<not> attack (j - i) (qs ! i) (qs ! j))"

lemma sint_of_nat_byte: "k < 128 \<Longrightarrow> sint (of_nat k :: 8 word) = int k"
proof -
  assume k: "k < 128"
  then have "unat (of_nat k :: 8 word) = k" by (simp add: unsigned_of_nat take_bit_nat_eq_self_iff)
  then show ?thesis unfolding sint_uint uint_nat using k by (simp add: signed_take_bit_int_eq_self)
qed

lemma all_from:
  "j < n \<Longrightarrow> (\<forall>k. j \<le> k \<and> k < n \<longrightarrow> Q k) \<longleftrightarrow> Q j \<and> (\<forall>k. Suc j \<le> k \<and> k < n \<longrightarrow> Q k)"
  by (metis Suc_leD Suc_leI le_eq_less_or_eq)

lemma all_pairs_from:
  "(\<forall>i' k. i \<le> i' \<and> i' < k \<and> k < n \<longrightarrow> R i' k) \<longleftrightarrow>
   (\<forall>k. i < k \<and> k < n \<longrightarrow> R i k) \<and> (\<forall>i' k. Suc i \<le> i' \<and> i' < k \<and> k < (n :: nat) \<longrightarrow> R i' k)"
  by (metis Suc_leD Suc_leI le_eq_less_or_eq)

lemma conflict_attack:
  assumes "p < 128" "q < 128"
  shows "conflict (of_nat p) (of_nat q) (int d) \<longleftrightarrow> attack d p q"
proof -
  have "(of_nat q :: 8 word) = of_nat p \<longleftrightarrow> q = p"
    using assms sint_of_nat_byte by (metis of_nat_eq_iff)
  then show ?thesis using assms by (auto simp: conflict_def attack_def sint_of_nat_byte)
qed

lemma ok_inner_iff:
  assumes "\<And>k. k < n \<Longrightarrow> qs ! k < 128" "n \<le> length qs" "i < j"
  shows "ok_inner n (map of_nat qs) i j \<longleftrightarrow> (\<forall>k. j \<le> k \<and> k < n \<longrightarrow> \<not> attack (k - i) (qs ! i) (qs ! k))"
  using assms(3)
proof (induction "n - j" arbitrary: j rule: less_induct)
  case less
  show ?case
  proof (cases "j < n")
    case False
    then show ?thesis by (subst ok_inner.simps) auto
  next
    case True
    have "conflict (map of_nat qs ! i) (map of_nat qs ! j) (int (j - i)) \<longleftrightarrow> attack (j - i) (qs ! i) (qs ! j)"
      using True less.prems assms(1)[of i] assms(1)[of j] assms(2) by (simp add: conflict_attack del: of_nat_diff)
    then show ?thesis
      using less.hyps[of "j + 1"] True less.prems
      by (subst ok_inner.simps, subst all_from) auto
  qed
qed

lemma ok_outer_iff:
  assumes "\<And>k. k < n \<Longrightarrow> qs ! k < 128" "n \<le> length qs"
  shows "ok_outer n (map of_nat qs) i \<longleftrightarrow>
    (\<forall>i' k. i \<le> i' \<and> i' < k \<and> k < n \<longrightarrow> \<not> attack (k - i') (qs ! i') (qs ! k))"
proof (induction "n - i" arbitrary: i rule: less_induct)
  case less
  show ?case
  proof (cases "i < n")
    case False
    then show ?thesis by (subst ok_outer.simps) auto
  next
    case True
    then have "ok_outer n (map of_nat qs) i \<longleftrightarrow>
        ok_inner n (map of_nat qs) i (i + 1) \<and> ok_outer n (map of_nat qs) (i + 1)"
      by (subst ok_outer.simps) simp
    also have "\<dots> \<longleftrightarrow> (\<forall>k. i < k \<and> k < n \<longrightarrow> \<not> attack (k - i) (qs ! i) (qs ! k)) \<and>
        (\<forall>i' k. i + 1 \<le> i' \<and> i' < k \<and> k < n \<longrightarrow> \<not> attack (k - i') (qs ! i') (qs ! k))"
      using less.hyps[of "i + 1"] True ok_inner_iff[OF assms, of i "i + 1"] by (simp add: Suc_le_eq)
    also have "\<dots> \<longleftrightarrow> (\<forall>i' k. i \<le> i' \<and> i' < k \<and> k < n \<longrightarrow> \<not> attack (k - i') (qs ! i') (qs ! k))"
      by (subst (2) all_pairs_from) simp
    finally show ?thesis .
  qed
qed

lemma ok_safe:
  assumes "\<And>q. q \<in> set qs \<Longrightarrow> q < 128"
  shows "ok (length qs) (map of_nat qs) \<longleftrightarrow> safe qs"
  using ok_outer_iff[of "length qs" qs 0] assms by (auto simp: ok_def safe_def)

section \<open>Counting placements\<close>

definition placements :: "nat \<Rightarrow> nat list \<Rightarrow> nat list set" where
  "placements n ps = {qs. length qs = n \<and> set qs \<subseteq> {..<n} \<and> take (length ps) qs = ps \<and> safe qs}"

lemma finite_placements: "finite (placements n ps)"
  by (rule finite_subset[OF _ finite_lists_length_eq[of "{..<n}" n]]) (auto simp: placements_def)

lemma safe_take: "safe qs \<Longrightarrow> safe (take k qs)"
  by (auto simp: safe_def)

lemma placements_unsafe: "\<not> safe ps \<Longrightarrow> placements n ps = {}"
  by (auto simp: placements_def dest: safe_take[of _ "length ps"])

lemma placements_full:
  assumes "length ps = n" "set ps \<subseteq> {..<n}" "safe ps"
  shows "placements n ps = {ps}"
  using assms by (auto simp: placements_def)

lemma placements_step:
  assumes "length ps < n"
  shows "placements n ps = (\<Union>i \<in> {..<n}. placements n (ps @ [i]))"
proof (rule set_eqI)
  fix qs
  show "qs \<in> placements n ps \<longleftrightarrow> qs \<in> (\<Union>i \<in> {..<n}. placements n (ps @ [i]))"
  proof (cases "length qs = n \<and> set qs \<subseteq> {..<n}")
    case False
    then show ?thesis by (auto simp: placements_def)
  next
    case True
    then have "take (Suc (length ps)) qs = take (length ps) qs @ [qs ! length ps]"
      using assms by (simp add: take_Suc_conv_app_nth)
    moreover have "qs ! length ps < n" using True assms by (metis lessThan_iff nth_mem subsetD)
    ultimately show ?thesis using True by (auto simp: placements_def)
  qed
qed

lemma card_placements_step:
  assumes "length ps < n"
  shows "card (placements n ps) = (\<Sum>i<n. card (placements n (ps @ [i])))"
proof -
  have "placements n (ps @ [i]) \<inter> placements n (ps @ [i']) = {}" if "i \<noteq> i'" for i i'
    using that by (auto simp: placements_def)
  then show ?thesis
    unfolding placements_step[OF assms]
    by (intro card_UN_disjoint) (auto simp: finite_placements)
qed

section \<open>The search\<close>

text \<open>Every iteration writes its own cell, so the order of the strands does not matter.\<close>

lemma spawn_loop_counts:
  assumes "\<And>i m. i \<in> set is \<Longrightarrow> test i \<Longrightarrow> strand i m = Some (m[i := v i])" "distinct is"
  shows "spawn_loop stolen test strand is m = Some (fold (\<lambda>i m. if test i then m[i := v i] else m) is m)"
  using assms
proof (induction "is" arbitrary: m)
  case Nil
  then show ?case by simp
next
  case (Cons i "is")
  let ?f = "fold (\<lambda>i m. if test i then m[i := v i] else m) is"
  have IH: "spawn_loop stolen test strand is m = Some (?f m)" for m
    using Cons.IH Cons.prems by simp
  have "?f (m[i := v i]) = (?f m)[i := v i]"
    using Cons.prems(2) by (induction "is" arbitrary: m) (auto simp: list_update_swap)
  then show ?case using IH Cons.prems(1)[of i] by (simp add: spawned_def)
qed

lemma fold_updates:
  assumes "length m = n"
  shows "fold (\<lambda>i m. if test i then m[i := v i] else m) [0..<k] m =
    map (\<lambda>i. if i < k \<and> test i then v i else m ! i) [0..<n]"
proof (induction k)
  case 0
  then show ?case using assms by (auto intro: nth_equalityI)
next
  case (Suc k)
  let ?row = "\<lambda>k i. if i < k \<and> test i then v i else m ! i"
  have "fold (\<lambda>i m. if test i then m[i := v i] else m) [0..<Suc k] m ! i = ?row (Suc k) i" if "i < n" for i
    using Suc that by (cases "i = k") auto
  then show ?case using Suc by (intro nth_equalityI) auto
qed

lemma nqueens_counts:
  assumes "n < 128" "length ps = j" "j \<le> n" "set ps \<subseteq> {..<n}" "safe ps" "take j a = map of_nat ps"
  shows "nqueens s n j a = Some (of_nat (card (placements n ps)))"
  using assms
proof (induction "n - j" arbitrary: s j a ps rule: less_induct)
  case less
  show ?case
  proof (cases "n = j")
    case True
    then show ?thesis using less.prems by (subst nqueens.simps) (simp add: placements_full)
  next
    case False
    then have lt: "j < n" using less.prems by simp
    have board: "take j a @ [of_nat i] = map of_nat (ps @ [i])" for i using less.prems by simp
    have test: "ok (j + 1) (take j a @ [of_nat i]) \<longleftrightarrow> safe (ps @ [i])" if "i < n" for i
      using ok_safe[of "ps @ [i]"] less.prems that unfolding board by fastforce
    let ?v = "\<lambda>i. of_nat (card (placements n (ps @ [i]))) :: u32"
    have strand: "nqueens s' n (j + 1) (take j a @ [of_nat i]) = Some (?v i)" if "i < n" "safe (ps @ [i])" for s' i
      using less.hyps[of "j + 1" "ps @ [i]" "take j a @ [of_nat i]" s'] less.prems lt that
      by (simp add: board)
    have loop: "spawn_loop (\<lambda>i. s [i]) (\<lambda>i. ok (j + 1) (take j a @ [of_nat i]))
          (\<lambda>i count. do {
             v \<leftarrow> nqueens (\<lambda>p. s (i # p)) n (j + 1) (take j a @ [of_nat i]);
             Some (count[i := v])
           }) [0..<n] (replicate n 0) =
        Some (fold (\<lambda>i m. if ok (j + 1) (take j a @ [of_nat i]) then m[i := ?v i] else m) [0..<n] (replicate n 0))"
      by (rule spawn_loop_counts) (use strand test in auto)
    have "fold (\<lambda>i m. if ok (j + 1) (take j a @ [of_nat i]) then m[i := ?v i] else m) [0..<n] (replicate n 0) =
        map ?v [0..<n]"
      by (subst fold_updates) (auto simp: test[simplified] placements_unsafe)
    moreover have "sum_list (map ?v [0..<n]) = of_nat (card (placements n ps))"
      using card_placements_step[of ps n] lt less.prems by (simp add: interv_sum_list_conv_sum_set_nat atLeast0LessThan)
    ultimately show ?thesis using False lt loop by (subst nqueens.simps) simp
  qed
qed

section \<open>Properties\<close>

text \<open>C18: The n-queens program counts correctly under every schedule: for a board of up to 127 rows
the search from the empty board returns the number of conflict-free placements of \<open>n\<close> queens,
modulo \<open>2 ^ 32\<close>, whatever the uninitialised array holds.\<close>

theorem nqueens_counts_placements:
  assumes "n < 128"
  shows "nqueens s n 0 a =
    Some (of_nat (card {qs. length qs = n \<and> set qs \<subseteq> {..<n} \<and> safe qs}))"
  using nqueens_counts[of n "[]" 0 a s] assms by (simp add: placements_def safe_def)

lemma nqueens_counts_placements_witness:
  "of_nat (card {qs. length qs = 4 \<and> set qs \<subseteq> {..<4} \<and> safe qs}) = (2 :: u32)"
proof -
  have "nqueens (\<lambda>p. length p = 2) 4 0 [] = Some 2" by code_simp
  moreover have "nqueens (\<lambda>p. length p = 2) 4 0 [] =
      Some (of_nat (card {qs. length qs = 4 \<and> set qs \<subseteq> {..<4} \<and> safe qs}))"
    by (rule nqueens_counts_placements) simp
  ultimately show ?thesis by simp
qed

end
