(* ===== verification/Fib.thy ===== *)
theory Fib
  imports Cell_Memory
begin

text \<open>
  The program \<open>handcomp_test/fib.cpp\<close>: the spawned child writes \<open>x\<close> through a pointer into the
  parent's frame, the continuation computes \<open>y\<close>, and the parent adds them after the sync. An \<open>int\<close> is
  32-bit and wraps.
\<close>

text \<open>The two variables of a frame that its strands write.\<close>

record fib_frame =
  fx :: u32
  fy :: u32

function fib :: "(nat list \<Rightarrow> bool) \<Rightarrow> int \<Rightarrow> u32 option" where
  "fib s n =
     (if n < 2 then Some (of_int n)
      else do {
        f \<leftarrow> spawned (s [])
          (\<lambda>f. do { v \<leftarrow> fib (\<lambda>p. s (0 # p)) (n - 1); Some (f\<lparr>fx := v\<rparr>) })
          (\<lambda>f. do { v \<leftarrow> fib (\<lambda>p. s (1 # p)) (n - 2); Some (f\<lparr>fy := v\<rparr>) })
          \<lparr>fx = 0, fy = 0\<rparr>;
        Some (fx f + fy f)
      })"
  by pat_completeness auto
termination by (relation "measure (\<lambda>(s, n). nat n)") auto

declare fib.simps [simp del]

text \<open>The function the comment of \<open>fib.cpp\<close> gives.\<close>

fun fibonacci :: "nat \<Rightarrow> nat" where
  "fibonacci 0 = 0"
| "fibonacci (Suc 0) = 1"
| "fibonacci (Suc (Suc n)) = fibonacci (Suc n) + fibonacci n"

text \<open>Under every schedule the program computes the Fibonacci number modulo \<open>2 ^ 32\<close>.\<close>

theorem fib_is_fibonacci: "fib s (int n) = Some (of_nat (fibonacci n))"
proof (induction n arbitrary: s rule: fibonacci.induct)
  case 1
  then show ?case by (simp add: fib.simps)
next
  case 2
  then show ?case by (simp add: fib.simps)
next
  case (3 n)
  have "int (Suc (Suc n)) - 1 = int (Suc n)" "int (Suc (Suc n)) - 2 = int n" "\<not> int (Suc (Suc n)) < 2"
    by simp_all
  then show ?case
    using 3 by (subst fib.simps) (simp only: if_False spawned_def, simp)
qed

lemma fib_10: "fib (\<lambda>p. length p = 1) 10 = Some 55"
  using fib_is_fibonacci[of "\<lambda>p. length p = 1" 10] by (simp add: numeral_eq_Suc)

end
