(* ===== verification/Test_Mains.thy ===== *)
theory Test_Mains
  imports Nqueens Fib Test_Options
begin

text \<open>
  The \<open>main\<close> functions of \<open>nqueens.cpp\<close> and \<open>fib.cpp\<close>. The clock is read before and after every timed
  run; an outcome is the lines printed, but for the times, and the exit code. \<open>None\<close> is undefined
  behaviour: a result that no run has set, an array of negative size, a division by zero.
\<close>

definition printed_int :: "u32 \<Rightarrow> string" where
  "printed_int v = (if sint v < 0 then CHR ''-'' # decimal (nat (- sint v)) else decimal (nat (sint v)))"

primrec timed_runs :: "nat \<Rightarrow> (nat \<Rightarrow> 'r option) \<Rightarrow> nat \<Rightarrow> 'r option \<Rightarrow> 'r option" where
  "timed_runs 0 f i res = res"
| "timed_runs (Suc k) f i res = do { r \<leftarrow> f i; timed_runs k f (i + 1) (Some r) }"

definition fib_main ::
    "(nat \<Rightarrow> u64) \<Rightarrow> nat \<Rightarrow> (nat list \<Rightarrow> bool) \<Rightarrow> string list \<Rightarrow> (string list \<times> int) option" where
  "fib_main clock timing_count s args =
     (if length args \<noteq> 2 then Some ([''Usage: fib [<cilk-options>] <n>''], 1)
      else do {
        let n = atoi (args ! 1);
        res \<leftarrow> timed_runs timing_count (\<lambda>i. fib (\<lambda>p. s (i # p)) n) 0 None;
        average \<leftarrow> average_runtime (elapsed_times clock timing_count);
        Some ([''Result: '' @ printed_int res], 0)
      })"

definition nqueens_main ::
    "(nat \<Rightarrow> u64) \<Rightarrow> nat \<Rightarrow> (nat list \<Rightarrow> bool) \<Rightarrow> 8 word list \<Rightarrow> string list \<Rightarrow> (string list \<times> int) option" where
  "nqueens_main clock timing_count s a argv =
     (if length argv < 2
      then Some ([''Usage: '' @ argv ! 0 @ '' <n>'', ''Use default board size, n = 13.''], 0)
      else do {
        let n = atoi (argv ! 1);
        let line = ''Running '' @ argv ! 0 @ '' with n = '' @ printed_int (of_int n) @ ''.'';
        cilk_assert (0 \<le> n);
        res \<leftarrow> (if timing_count > 0 then do {
                 res \<leftarrow> timed_runs timing_count (\<lambda>i. nqueens (\<lambda>p. s (i # p)) (nat n) 0 a) 0 (Some 0);
                 average \<leftarrow> average_runtime (elapsed_times clock timing_count);
                 Some res
               } else nqueens s (nat n) 0 a);
        Some ([line, if res = 0 then ''No solution found.''
                     else ''Total number of solutions : '' @ printed_int res], 0)
      })"

section \<open>Runs\<close>

lemma timed_runs_const: "(\<And>i. f i = Some r) \<Longrightarrow> timed_runs (Suc k) f i res = Some r"
  by (induction k arbitrary: i res) simp_all

lemma atoi_decimal: "n < 2 ^ 31 \<Longrightarrow> atoi (decimal n) = int n"
  by (simp add: atoi_def atol_decimal signed_take_bit_int_eq_self)

lemma printed_of_nat: "n < 2 ^ 31 \<Longrightarrow> printed_int (of_nat n) = decimal n"
proof -
  assume n: "n < 2 ^ 31"
  then have "unat (of_nat n :: u32) = n" by (simp add: unsigned_of_nat take_bit_nat_eq_self_iff)
  then have "sint (of_nat n :: u32) = int n"
    unfolding sint_uint uint_nat using n by (simp add: signed_take_bit_int_eq_self)
  then show ?thesis by (simp add: printed_int_def)
qed

text \<open>The program of \<open>fib.cpp\<close> prints the Fibonacci number as long as it fits an \<open>int\<close>.\<close>

theorem fib_program_prints:
  assumes "n < 2 ^ 31" "fibonacci n < 2 ^ 31" "0 < k" "k < 2 ^ 31"
  shows "fib_main clock k s [p, decimal n] = Some ([''Result: '' @ decimal (fibonacci n)], 0)"
proof -
  obtain j where j: "k = Suc j" using assms(3) gr0_implies_Suc by blast
  obtain ave where ave: "average_runtime (elapsed_times clock (Suc j)) = Some ave"
    using elapsed_times_average[of k clock] assms j by auto
  have "timed_runs (Suc j) (\<lambda>i. fib (\<lambda>p. s (i # p)) (int n)) 0 None = Some (of_nat (fibonacci n))"
    by (rule timed_runs_const) (rule fib_is_fibonacci)
  then show ?thesis
    using assms ave by (simp add: fib_main_def atoi_decimal printed_of_nat j del: timed_runs.simps)
qed

lemma fib_program_prints_witness: "fib_main clock 1 s [p, ''10''] = Some ([''Result: 55''], 0)"
proof -
  have d: "decimal 10 = ''10''" "decimal 55 = ''55''" by code_simp+
  have f: "fibonacci 10 = 55" by code_simp
  show ?thesis
    using fib_program_prints[of 10 1 clock s p] unfolding f d by simp
qed

text \<open>The program of \<open>nqueens.cpp\<close> prints what the search returns, for every number of timed runs.\<close>

theorem nqueens_program_prints:
  assumes "n < 128" "k < 2 ^ 31" "c = card {qs. length qs = n \<and> set qs \<subseteq> {..<n} \<and> safe qs}" "0 < c" "c < 2 ^ 31"
  shows "nqueens_main clock k s a [p, decimal n] =
    Some ([''Running '' @ p @ '' with n = '' @ decimal n @ ''.'',
           ''Total number of solutions : '' @ decimal c], 0)"
proof -
  have run: "nqueens s' n 0 a = Some (of_nat c)" for s'
    using nqueens_counts[of n "[]" 0 a s'] assms(1,3) by (simp add: placements_def safe_def)
  have "unat (of_nat c :: u32) = c" using assms(5) by (simp add: unsigned_of_nat take_bit_nat_eq_self_iff)
  then have nz: "(of_nat c :: u32) \<noteq> 0" using assms(4) by (metis unat_0 less_not_refl)
  have n: "atoi (decimal n) = int n" "printed_int (of_nat n) = decimal n"
    using assms(1) atoi_decimal[of n] printed_of_nat[of n] by simp_all
  show ?thesis
  proof (cases k)
    case 0
    then show ?thesis using run nz n assms(5) by (simp add: nqueens_main_def printed_of_nat)
  next
    case (Suc j)
    obtain ave where ave: "average_runtime (elapsed_times clock (Suc j)) = Some ave"
      using elapsed_times_average[of k clock] assms Suc by auto
    have "timed_runs (Suc j) (\<lambda>i. nqueens (\<lambda>p. s (i # p)) n 0 a) 0 (Some 0) = Some (of_nat c)"
      by (rule timed_runs_const) (rule run)
    then show ?thesis
      using nz n ave assms(5) by (simp add: nqueens_main_def printed_of_nat Suc del: timed_runs.simps)
  qed
qed

end
