(* ===== verification/Unit_Tests.thy ===== *)
theory Unit_Tests
  imports Hypertable_Ops
begin

text \<open>
  The unit tests of the reducer hash table: the harness \<open>unittests/test-hypertable-common.h\<close> and the
  command lists of \<open>test-hypertable.c\<close> and \<open>test-old-hash-hypertable.c\<close>. They compile the table
  against mock headers that replace the hash function and the two minimal capacities, so the
  operations of the table that depend on these are given here once more with the three as a
  parameter; the probes and shifts are those of theory \<open>Hypertable\<close>. With the runtime's own hash and
  capacities they are the operations of that theory.

  The tests set a field \<open>value\<close> of a bucket that the runtime's bucket calls \<open>data\<close>; it is \<open>data\<close> here.
\<close>

section \<open>The table with a mock hash\<close>

record mock =
  mhash :: "u64 \<Rightarrow> u32"
  min_capacity :: int
  min_ht_capacity :: int

definition runtime_hash :: mock where
  "runtime_hash = \<lparr>mhash = hash, min_capacity = MIN_CAPACITY, min_ht_capacity = MIN_HT_CAPACITY\<rparr>"

definition mock_hash :: mock where
  "mock_hash = \<lparr>mhash = \<lambda>key_in. ucast key_in, min_capacity = 1, min_ht_capacity = 1\<rparr>"

definition split_mix :: "u64 \<Rightarrow> u32" where
  "split_mix key_in =
     (let x = key_in XOR salt;
          x = (x XOR drop_bit 33 x) * 0xff51afd7ed558ccd;
          x = (x XOR drop_bit 33 x) * 0xc4ceb9fe1a85ec53
      in ucast x)"

definition mock_old_hash :: mock where
  "mock_old_hash = \<lparr>mhash = split_mix, min_capacity = 1, min_ht_capacity = 1\<rparr>"

definition mock_underloaded :: "mock \<Rightarrow> int \<Rightarrow> int \<Rightarrow> bool" where
  "mock_underloaded h occ cap \<longleftrightarrow> cap > min_capacity h \<and>
     occ \<le> (LOAD_FACTOR_CONSTANT div 2 - 1) * cap div LOAD_FACTOR_CONSTANT"

definition mock_entry :: "mock \<Rightarrow> u32 \<Rightarrow> u64 \<Rightarrow> u32" where
  "mock_entry h cap k = mhash h k AND (cap - 1)"

definition mock_array_create :: "mock \<Rightarrow> int \<Rightarrow> bucket list" where
  "mock_array_create h array_size =
     (if array_size < min_ht_capacity h then replicate (nat array_size) empty_bucket
      else graveyard (nat array_size) 0)"

definition mock_alloc :: "mock \<Rightarrow> hyper_table" where
  "mock_alloc h =
     \<lparr>capacity = word_of_int (min_capacity h), occupancy = 0, ins_rm_count = 0,
      buckets = mock_array_create h (sint (word_of_int (min_capacity h) :: u32))\<rparr>"

definition mock_find :: "mock \<Rightarrow> hyper_table \<Rightarrow> u64 \<Rightarrow> nat option option" where
  "mock_find h t k =
     (if icap t < min_ht_capacity h then Some (find_hyperobject_linear t k)
      else let cap = capacity t; tgt = mock_entry h cap k
        in find_probe (unat cap) (buckets t) cap tgt k tgt)"

definition mock_insert_hashed :: "mock \<Rightarrow> hyper_table \<Rightarrow> bucket \<Rightarrow> (hyper_table \<times> bool) option" where
  "mock_insert_hashed h t b0 =
     (let cap = capacity t; bs = buckets t;
          tgt = mock_entry h cap (key b0);
          b = b0\<lparr>bhash := tgt\<rparr>
      in if is_empty (key (bs ! unat tgt)) then Some (count_insert t (bs[unat tgt := b]), True)
         else do {
           p \<leftarrow> insert_probe (unat cap) bs cap tgt (key b) tgt;
           case p of
             Overwrite i \<Rightarrow> Some (t\<lparr>buckets := bs[unat i := (bs ! unat i)\<lparr>data := data b\<rparr>]\<rparr>, True)
           | Place i \<Rightarrow> Some (count_insert t (bs[unat i := b]), True)
           | ShiftFrom i \<Rightarrow> do {
               (bs', ok) \<leftarrow> shift_insert (unat cap) bs cap i b i;
               if ok then Some (count_insert t bs', True) else Some (t\<lparr>buckets := bs'\<rparr>, False)
             }
         })"

definition mock_insert_with ::
    "mock \<Rightarrow> (hyper_table \<Rightarrow> int \<Rightarrow> hyper_table option) \<Rightarrow> hyper_table \<Rightarrow> bucket \<Rightarrow> (hyper_table \<times> bool) option"
  where
  "mock_insert_with h rebuild_to t b =
     (let cap = icap t; occ = nat (occupancy t) in
      if cap < min_ht_capacity h \<and> occupancy t < cap then
        (case find_forward (buckets t) (key b) 0 occ of
           Some i \<Rightarrow> Some (t\<lparr>buckets := (buckets t)[i := b]\<rparr>, True)
         | None \<Rightarrow> Some (t\<lparr>buckets := (buckets t)[occ := b], occupancy := occupancy t + 1\<rparr>, True))
      else do {
        t1 \<leftarrow> (if cap < min_ht_capacity h then rebuild_to t (cap * 2) else Some t);
        let cap1 = (if cap < min_ht_capacity h then cap * 2 else cap);
        t2 \<leftarrow> (if is_overloaded (occupancy t1) cap1 then rebuild_to t1 (cap1 * 2)
              else if time_to_rebuild (ins_rm_count t1) cap1 then rebuild_to t1 cap1
              else Some t1);
        mock_insert_hashed h t2 b
      })"

definition mock_rebuild_with ::
    "mock \<Rightarrow> (hyper_table \<Rightarrow> bucket \<Rightarrow> (hyper_table \<times> bool) option) \<Rightarrow> hyper_table \<Rightarrow> int \<Rightarrow> hyper_table option"
  where
  "mock_rebuild_with h ins t new_capacity = do {
     let old_buckets = take (nat (icap t)) (buckets t);
     let old_occupancy = occupancy t;
     cilk_assert (new_capacity \<le> MAX_CAPACITY);
     t' \<leftarrow> reinsert ins old_buckets
       \<lparr>capacity = word_of_int new_capacity, occupancy = 0, ins_rm_count = - old_occupancy,
        buckets = mock_array_create h new_capacity\<rparr>;
     cilk_assert (occupancy t' = old_occupancy);
     Some t'
   }"

fun mock_insert_fuel :: "nat \<Rightarrow> mock \<Rightarrow> hyper_table \<Rightarrow> bucket \<Rightarrow> (hyper_table \<times> bool) option" where
  "mock_insert_fuel 0 h t b = None"
| "mock_insert_fuel (Suc n) h t b = mock_insert_with h (mock_rebuild_with h (mock_insert_fuel n h)) t b"

definition mock_insert :: "mock \<Rightarrow> hyper_table \<Rightarrow> bucket \<Rightarrow> (hyper_table \<times> bool) option" where
  "mock_insert h t b = mock_insert_fuel 2 h t b"

definition mock_rebuild :: "mock \<Rightarrow> hyper_table \<Rightarrow> int \<Rightarrow> hyper_table option" where
  "mock_rebuild h t new_capacity = mock_rebuild_with h (mock_insert_fuel 1 h) t new_capacity"

definition mock_remove :: "mock \<Rightarrow> hyper_table \<Rightarrow> u64 \<Rightarrow> (hyper_table \<times> bool) option" where
  "mock_remove h t k =
     (if icap t < min_ht_capacity h then
        (let occ = nat (occupancy t); bs = buckets t in
         case find_forward bs k 0 occ of
           None \<Rightarrow> Some (t, False)
         | Some i \<Rightarrow>
             Some (t\<lparr>buckets := (if i = occ - 1 then bs[i := (bs ! i)\<lparr>key := KEY_EMPTY\<rparr>]
                                else bs[i := bs ! (occ - 1)]),
                     occupancy := occupancy t - 1\<rparr>, True))
      else do {
        entry \<leftarrow> mock_find h t k;
        case entry of
          None \<Rightarrow> Some (t, False)
        | Some i \<Rightarrow> do {
            let t1 = t\<lparr>buckets := (buckets t)[i := make_tombstone (buckets t ! i)],
                       occupancy := occupancy t - 1, ins_rm_count := ins_rm_count t + 1\<rparr>;
            let cap = icap t1;
            t2 \<leftarrow> (if mock_underloaded h (occupancy t1) cap then mock_rebuild h t1 (cap div 2)
                  else if time_to_rebuild (ins_rm_count t1) cap then mock_rebuild h t1 cap
                  else Some t1);
            Some (t2, True)
          }
      })"

section \<open>The harness\<close>

datatype table_command = Insert u64 | Lookup u64 | Delete u64

text \<open>The loop that counts a key in the first \<open>n\<close> buckets.\<close>

fun count_key :: "bucket list \<Rightarrow> u64 \<Rightarrow> nat \<Rightarrow> int" where
  "count_key bs k 0 = 0"
| "count_key bs k (Suc n) = count_key bs k n + (if is_valid k \<and> key (bs ! n) = k then 1 else 0)"

definition check_hypertable :: "mock \<Rightarrow> hyper_table \<Rightarrow> u64 \<Rightarrow> int \<Rightarrow> bool" where
  "check_hypertable h t k expected_count =
     (count_key (buckets t) k (nat (if icap t < min_ht_capacity h then occupancy t else icap t)) = expected_count)"

definition verify_hypertable :: "mock \<Rightarrow> hyper_table \<Rightarrow> u64 \<Rightarrow> int \<Rightarrow> unit option" where
  "verify_hypertable h t k expected_count =
     (let n = (if icap t < min_ht_capacity h then occupancy t else icap t);
          key_count = count_key (buckets t) k (nat n)
      in cilk_assert (key_count = expected_count))"

definition command_bucket :: "u64 \<Rightarrow> bucket" where
  "command_bucket k = \<lparr>key = k, bhash = 0, data = \<lparr>view = k, extra = ReduceFn 0\<rparr>\<rparr>"

definition do_table_command :: "mock \<Rightarrow> hyper_table \<Rightarrow> table_command \<Rightarrow> hyper_table option" where
  "do_table_command h t cmd =
     (case cmd of
        Insert k \<Rightarrow> do {
          (t, success) \<leftarrow> mock_insert h t (command_bucket k);
          cilk_assert success;
          verify_hypertable h t k 1;
          Some t
        }
      | Lookup k \<Rightarrow> do {
          b \<leftarrow> mock_find h t k;
          verify_hypertable h t k (if b \<noteq> None then 1 else 0);
          Some t
        }
      | Delete k \<Rightarrow> do {
          (t, success) \<leftarrow> mock_remove h t k;
          cilk_assert success;
          verify_hypertable h t k 0;
          Some t
        })"

primrec do_table_commands :: "mock \<Rightarrow> hyper_table \<Rightarrow> table_command list \<Rightarrow> hyper_table option" where
  "do_table_commands h t [] = Some t"
| "do_table_commands h t (cmd # cmds) = Option.bind (do_table_command h t cmd) (\<lambda>t. do_table_commands h t cmds)"

definition test_insert_remove :: "mock \<Rightarrow> table_command list \<Rightarrow> unit option" where
  "test_insert_remove h commands = do {
     t \<leftarrow> do_table_commands h (mock_alloc h) commands;
     Some ()
   }"

text \<open>The loop of \<open>test_set_insert_remove\<close> that sets the keys, and the number of valid keys and of
tombstones among them.\<close>

primrec set_keys :: "mock \<Rightarrow> u32 \<Rightarrow> u64 list \<Rightarrow> nat \<Rightarrow> bucket list \<Rightarrow> bucket list" where
  "set_keys h num_keys [] i bs = bs"
| "set_keys h num_keys (k # ks) i bs =
     set_keys h num_keys ks (i + 1) (bs[i := (bs ! i)\<lparr>key := k, bhash := mhash h k mod num_keys\<rparr>])"

definition test_set_insert_remove :: "mock \<Rightarrow> u64 list \<Rightarrow> table_command list \<Rightarrow> unit option" where
  "test_set_insert_remove h keys commands = do {
     let num_keys = length keys;
     cilk_assert ((of_nat num_keys :: u32) AND (- of_nat num_keys) = of_nat num_keys);
     t \<leftarrow> do_table_commands h (mock_alloc h) (map (\<lambda>i. Insert (of_nat (i + 1))) [0..<num_keys div 2 + 1]);
     let t = t\<lparr>buckets := set_keys h (of_nat num_keys) keys 0 (buckets t),
               occupancy := int (length (filter is_valid keys)),
               ins_rm_count := int (length (filter is_tombstone keys))\<rparr>;
     verify_hypertable h t 1 0;
     t \<leftarrow> do_table_commands h t commands;
     Some ()
   }"

section \<open>The tests\<close>

definition hypertable_test0 :: "table_command list" where
  "hypertable_test0 =
     [Insert 0x1, Insert 0x2, Insert 0x3, Insert 0x4, Insert 0x5, Insert 0x6, Insert 0x7,
      Insert 0x8, Insert 0x9, Insert 0xa, Insert 0xb, Insert 0xc, Insert 0xd, Insert 0xe,
      Insert 0xf, Delete 0x1, Insert 0x1, Delete 0x1, Delete 0x2, Delete 0x3, Delete 0x4,
      Delete 0x5, Delete 0x6, Delete 0x7, Delete 0x8, Delete 0x9, Delete 0xa, Delete 0xb,
      Delete 0xc, Delete 0xd, Delete 0xe, Delete 0xf]"

definition hypertable_test1 :: "table_command list" where
  "hypertable_test1 =
     [Insert 0x4, Insert 0x1, Insert 0x2, Insert 0x3, Insert 0x5, Insert 0x6, Delete 0x2,
      Insert 0x7, Delete 0x3, Insert 0x8, Delete 0x1, Delete 0x8, Insert 0x15, Insert 0x25,
      Insert 0x2, Delete 0x2, Insert 0x3, Delete 0x3, Delete 0x7, Insert 0x7, Delete 0x6,
      Insert 0x8, Lookup 0x7, Lookup 0x8]"

definition hypertable_test2 :: "table_command list" where
  "hypertable_test2 =
     [Insert 0x4, Insert 0x1, Insert 0x2, Insert 0x3, Insert 0x5, Insert 0x6, Delete 0x2,
      Insert 0x7, Delete 0x3, Insert 0x8, Delete 0x1, Delete 0x8, Insert 0x15, Insert 0x25,
      Delete 0x15, Delete 0x25, Insert 0x1, Lookup 0x1, Delete 0x7, Insert 0x3, Delete 0x6,
      Insert 0x7, Lookup 0x7]"

definition hypertable_test3 :: "table_command list" where
  "hypertable_test3 =
     [Insert 0x5, Insert 0x15, Insert 0x25, Insert 0x35, Insert 0x45, Insert 0x6, Insert 0x16,
      Insert 0x26, Delete 0x15, Lookup 0x26, Insert 0x37, Lookup 0x5, Lookup 0x25, Lookup 0x35,
      Lookup 0x45, Lookup 0x6, Lookup 0x16, Lookup 0x26, Lookup 0x37]"

definition hypertable_test4 :: "table_command list" where
  "hypertable_test4 =
     [Insert 0x5, Insert 0x15, Insert 0x25, Insert 0x35, Insert 0x45, Insert 0x55, Insert 0x65,
      Insert 0x75, Delete 0x15, Insert 0x7, Lookup 0x35, Lookup 0x7, Delete 0x7, Lookup 0x35,
      Delete 0x5, Insert 0x7, Insert 0x17, Delete 0x7, Delete 0x17, Insert 0x5, Lookup 0x5,
      Delete 0x65, Delete 0x75, Delete 0x35, Insert 0x7, Lookup 0x7, Lookup 0x5, Lookup 0x25,
      Lookup 0x45, Lookup 0x55]"

definition hypertable_test5 :: "table_command list" where
  "hypertable_test5 =
     [Insert 0x8, Insert 0x18, Insert 0x28, Insert 0x38, Insert 0x7, Insert 0x17, Insert 0x27,
      Insert 0x37, Delete 0x37, Delete 0x27, Delete 0x17, Delete 0x7, Insert 0x1, Lookup 0x1,
      Lookup 0x8, Lookup 0x18, Lookup 0x28, Lookup 0x38]"

definition old_hash_test0 :: "table_command list" where
  "old_hash_test0 =
     [Insert 0x7f2a10bfe050, Insert 0x7f2a10bff968, Insert 0x7f2a10bfe8a8,
      Insert 0x7f2a10bfece0, Insert 0x7f2a10bff538, Insert 0x7f2a10bff108,
      Insert 0x7f2a10bff540, Insert 0x7f2a10bff970, Insert 0x7f2a10bfe8b0,
      Insert 0x7f2a10bfe478, Insert 0x7f2a10bfe480, Insert 0x7f2a10bff110,
      Insert 0x7f2a10bffda0, Insert 0x562edc97d0c0, Insert 0x7f2a10bfe048,
      Insert 0x7f2a10bfe478, Insert 0x7f2a10bff110, Delete 0x7f2a10bfe048,
      Delete 0x7f2a10bfe050, Delete 0x7f2a10bfe478, Delete 0x7f2a10bfe480,
      Delete 0x7f2a10bfe8a8, Delete 0x7f2a10bfe8b0, Insert 0x7f2a10bfe8b0,
      Insert 0x7f2a10bfe8a8, Insert 0x7f2a10bfe480, Insert 0x7f2a10bfe478,
      Insert 0x7f2a10bfe050, Insert 0x7f2a10bfe048, Delete 0x7f2a10bfe048,
      Delete 0x7f2a10bfe050, Delete 0x7f2a10bfe478, Delete 0x7f2a10bfe480,
      Insert 0x7f2a10bfe480, Insert 0x7f2a10bfe478, Insert 0x7f2a10bfe480]"

definition old_hash_test1 :: "table_command list" where
  "old_hash_test1 =
     [Insert 0xfffff4e82ed0, Insert 0xfffff4e82d40, Insert 0xfffff4e82bb0,
      Insert 0xfffff4e82a90, Insert 0xfffff4e82900, Insert 0xfffff4e82770,
      Insert 0xfffff4e82650, Insert 0xfffff4e82530, Delete 0xfffff4e82530,
      Delete 0xfffff4e82650, Delete 0xfffff4e82770, Delete 0xfffff4e82bb0,
      Insert 0xfffff4e827e0]"

definition old_hash_test2_keys :: "u64 list" where
  "old_hash_test2_keys =
     [0x7f84b33fef40, 0x7f84b33fed90, KEY_DELETED, KEY_DELETED, 0x7f84b33fee30, 0x7f84b33fecf0,
      KEY_DELETED, KEY_DELETED]"

definition old_hash_test2 :: "table_command list" where
  "old_hash_test2 =
     [Lookup 0x7f84b33fee30, Insert 0x7f84b33fec50, Lookup 0x7f84b33fec50, Insert 0x3,
      Lookup 0x7f84b33fee30, Insert 0x4, Insert 0x1, Lookup 0x7f84b33fee30,
      Lookup 0x7f84b33fecf0, Lookup 0x7f84b33fec50, Lookup 0x7f84b33fef40,
      Lookup 0x7f84b33fed90, Lookup 0x3, Lookup 0x4, Lookup 0x1]"

section \<open>The runtime's table is an instance\<close>

lemma runtime_hash_sel: "mhash runtime_hash = hash" "min_capacity runtime_hash = MIN_CAPACITY"
  "min_ht_capacity runtime_hash = MIN_HT_CAPACITY"
  by (simp_all add: runtime_hash_def)

lemma runtime_array_create: "mock_array_create runtime_hash = bucket_array_create"
  by (rule ext) (simp add: mock_array_create_def bucket_array_create_def runtime_hash_def)

lemma runtime_alloc: "mock_alloc runtime_hash = local_hyper_table_alloc"
  by (simp add: mock_alloc_def local_hyper_table_alloc_def new_hyper_table_def runtime_array_create)
    (simp add: runtime_hash_def)

lemma runtime_find: "mock_find runtime_hash = find_hyperobject"
  by (intro ext)
    (simp add: mock_find_def find_hyperobject_def find_hyperobject_hash_def runtime_hash_def
      mock_entry_def get_table_entry_def Let_def)

lemma runtime_insert_hashed: "mock_insert_hashed runtime_hash = insert_hashed"
  by (intro ext) (simp add: mock_insert_hashed_def insert_hashed_def runtime_hash_def
      mock_entry_def get_table_entry_def)

lemma runtime_insert_with: "mock_insert_with runtime_hash = insert_with"
  unfolding fun_eq_iff mock_insert_with_def insert_with_def runtime_insert_hashed runtime_hash_sel by simp

lemma runtime_rebuild_with: "mock_rebuild_with runtime_hash = rebuild_with"
  by (intro ext) (simp add: mock_rebuild_with_def rebuild_with_def runtime_array_create)

lemma runtime_insert_fuel: "mock_insert_fuel n runtime_hash = insert_fuel n"
proof (induction n)
  case 0
  then show ?case by (intro ext) simp
next
  case (Suc n)
  then show ?case by (intro ext) (simp add: runtime_insert_with runtime_rebuild_with)
qed

lemma runtime_insert: "mock_insert runtime_hash = insert_hyperobject"
  by (intro ext) (simp add: mock_insert_def insert_hyperobject_def runtime_insert_fuel del: mock_insert_fuel.simps insert_fuel.simps)

lemma runtime_rebuild: "mock_rebuild runtime_hash = rebuild"
  by (intro ext) (simp add: mock_rebuild_def rebuild_def runtime_insert_fuel runtime_rebuild_with
      del: mock_insert_fuel.simps insert_fuel.simps)

lemma runtime_underloaded: "mock_underloaded runtime_hash = is_underloaded"
  by (intro ext) (simp add: mock_underloaded_def is_underloaded_def runtime_hash_def)

lemma runtime_remove: "mock_remove runtime_hash = remove_hyperobject"
  unfolding fun_eq_iff mock_remove_def remove_hyperobject_def runtime_find runtime_rebuild
    runtime_underloaded runtime_hash_sel by simp

end
