(* ===== verification/Unit_Test_Properties.thy ===== *)
theory Unit_Test_Properties
  imports Unit_Tests Reducer_Properties
begin

text \<open>
  The unit tests as run against their mock hashes, and the harness against any table that keeps the
  laws of a map: a list of commands that only deletes keys it has inserted passes as long as every
  insertion finds room. The runtime's table is such a table.
\<close>

section \<open>What the tests need of a table\<close>

locale map_table =
  fixes ins :: "'t \<Rightarrow> bucket \<Rightarrow> ('t \<times> bool) option"
    and fnd :: "'t \<Rightarrow> u64 \<Rightarrow> nat option option"
    and rmv :: "'t \<Rightarrow> u64 \<Rightarrow> ('t \<times> bool) option"
    and count :: "'t \<Rightarrow> u64 \<Rightarrow> int"
    and inv :: "'t \<Rightarrow> bool"
    and room :: "'t \<Rightarrow> bool"
    and view :: "'t \<Rightarrow> u64 \<rightharpoonup> reducer_data"
  assumes ins_law: "inv t \<Longrightarrow> room t \<Longrightarrow> is_valid (key b) \<Longrightarrow>
      \<exists>t'. ins t b = Some (t', True) \<and> inv t' \<and> view t' = (view t)(key b \<mapsto> data b)"
    and fnd_law: "inv t \<Longrightarrow> is_valid k \<Longrightarrow> \<exists>r. fnd t k = Some r \<and> (r = None \<longleftrightarrow> view t k = None)"
    and rmv_law: "inv t \<Longrightarrow> is_valid k \<Longrightarrow>
      \<exists>t'. rmv t k = Some (t', view t k \<noteq> None) \<and> inv t' \<and> view t' = (view t)(k := None)"
    and count_law: "inv t \<Longrightarrow> is_valid k \<Longrightarrow> count t k = (if view t k = None then 0 else 1)"
begin

lemma insert_verified:
  assumes "inv t" "room t" "is_valid (key b)"
  shows "\<exists>t'. do { (t, success) \<leftarrow> ins t b; cilk_assert success; cilk_assert (count t (key b) = 1); Some t } =
      Some t' \<and> inv t' \<and> dom (view t') = insert (key b) (dom (view t))"
proof -
  obtain t' where t': "ins t b = Some (t', True)" "inv t'" "view t' = (view t)(key b \<mapsto> data b)"
    using ins_law[OF assms] by blast
  have "count t' (key b) = 1" using count_law[OF t'(2) assms(3)] t'(3) by simp
  then show ?thesis using t' by auto
qed

lemma lookup_verified:
  assumes "inv t" "is_valid k"
  shows "do { r \<leftarrow> fnd t k; cilk_assert (count t k = (if r \<noteq> None then 1 else 0)); Some t } = Some t"
  using fnd_law[OF assms] count_law[OF assms] by auto

lemma delete_verified:
  assumes "inv t" "is_valid k" "k \<in> dom (view t)"
  shows "\<exists>t'. do { (t, success) \<leftarrow> rmv t k; cilk_assert success; cilk_assert (count t k = 0); Some t } =
      Some t' \<and> inv t' \<and> dom (view t') = dom (view t) - {k}"
proof -
  obtain t' where t': "rmv t k = Some (t', view t k \<noteq> None)" "inv t'" "view t' = (view t)(k := None)"
    using rmv_law[OF assms(1,2)] by blast
  have "count t' k = 0" using count_law[OF t'(2) assms(2)] t'(3) by simp
  then show ?thesis using t' assms(3) by auto
qed

end

section \<open>The runtime's table\<close>

definition counted :: "hyper_table \<Rightarrow> u64 \<Rightarrow> int" where
  "counted t k = count_key (buckets t) k (nat (if icap t < MIN_HT_CAPACITY then occupancy t else icap t))"

lemma count_key_filter:
  "n \<le> length bs \<Longrightarrow> count_key bs k n = int (length (filter (\<lambda>b. valid_slot b \<and> key b = k) (take n bs)))"
  by (induction n) (auto simp: take_Suc_conv_app_nth)

lemma count_distinct:
  assumes "keys_distinct bs"
  shows "length (filter (\<lambda>b. valid_slot b \<and> key b = k) bs) = (if entries bs k = None then 0 else 1)"
  using assms
proof (induction bs)
  case Nil
  then show ?case by (simp add: entries_def pairs_def)
next
  case (Cons b bs)
  then have "keys_distinct bs" by (auto simp: keys_distinct_def split: if_splits)
  moreover have "entries bs k = None" if "valid_slot b" "key b = k"
  proof -
    have "key b \<notin> set (map key (filter valid_slot bs))" using Cons.prems that by (simp add: keys_distinct_def)
    then have "key c \<noteq> k" if "c \<in> set bs" "valid_slot c" for c
    proof -
      have "key c \<in> set (map key (filter valid_slot bs))"
        using imageI[of c "set (filter valid_slot bs)" key] that by simp
      then show ?thesis using \<open>key b \<notin> _\<close> \<open>key b = k\<close> by metis
    qed
    then show ?thesis by (simp add: entries_None)
  qed
  ultimately show ?case
    using Cons.IH by (auto simp: entries_def pairs_def)
qed

lemma counted_view:
  assumes "ht_ok t" "is_valid k"
  shows "counted t k = (if table_view t k = None then 0 else 1)"
proof (cases "small_ok t")
  case True
  have ic: "icap t < MIN_HT_CAPACITY" using small_icap [OF True] by (simp add: MIN_HT_CAPACITY_def)
  have "keys_distinct (live_prefix t)"
    using True by (auto simp: small_ok_def keys_distinct_def distinct_map_filter)
  note d = count_distinct[OF this, of k]
  have "nat (occupancy t) \<le> length (buckets t)" using True by (auto simp: small_ok_def)
  from count_key_filter[OF this, of k] show ?thesis
    using ic d by (simp add: counted_def table_view_def live_prefix_def)
next
  case False
  then have big: "big_ok t" using assms(1) by (simp add: ht_ok_def)
  then obtain m where m: "m \<in> {3..27}" "unat (capacity t) = 2 ^ m" by (auto simp: big_ok_def)
  have ic: "icap t = 2 ^ m" using icap_pow m by simp
  then have "\<not> icap t < MIN_HT_CAPACITY"
    using power_increasing[of 3 m "2 :: int"] m(1) by (simp add: MIN_HT_CAPACITY_def)
  moreover have "length (buckets t) = nat (icap t)" "keys_distinct (buckets t)"
    using big ic m(2) by (auto simp: big_ok_def table_ok_def nat_power_eq)
  ultimately show ?thesis
    using count_distinct[of "buckets t" k] by (simp add: counted_def table_view_def count_key_filter)
qed

interpretation runtime_table: map_table insert_hyperobject find_hyperobject remove_hyperobject counted
  ht_ok "\<lambda>t. has_room t \<and> icap t < 2 ^ 27" table_view
proof unfold_locales
  fix t b k
  show "\<exists>t'. insert_hyperobject t b = Some (t', True) \<and> ht_ok t' \<and> table_view t' = (table_view t)(key b \<mapsto> data b)"
    if "ht_ok t" "has_room t \<and> icap t < 2 ^ 27" "is_valid (key b)"
    using insert_ok[of t b] that by blast
  show "\<exists>r. find_hyperobject t k = Some r \<and> (r = None \<longleftrightarrow> table_view t k = None)" if "ht_ok t" "is_valid k"
    using find_ok[OF that] by (auto split: option.splits)
  show "\<exists>t'. remove_hyperobject t k = Some (t', table_view t k \<noteq> None) \<and> ht_ok t' \<and>
      table_view t' = (table_view t)(k := None)" if "ht_ok t" "is_valid k"
    using remove_ok[OF that] .
  show "counted t k = (if table_view t k = None then 0 else 1)" if "ht_ok t" "is_valid k"
    using counted_view[OF that] .
qed

section \<open>Runs of the harness\<close>

text \<open>Commands that only delete keys they have inserted, from a set of keys.\<close>

fun legal_commands :: "u64 set \<Rightarrow> table_command list \<Rightarrow> bool" where
  "legal_commands S [] = True"
| "legal_commands S (Insert k # cmds) = (is_valid k \<and> legal_commands (insert k S) cmds)"
| "legal_commands S (Lookup k # cmds) = (is_valid k \<and> legal_commands S cmds)"
| "legal_commands S (Delete k # cmds) = (is_valid k \<and> k \<in> S \<and> legal_commands (S - {k}) cmds)"

text \<open>Every insertion of the run finds room.\<close>

fun rooms :: "hyper_table \<Rightarrow> table_command list \<Rightarrow> bool" where
  "rooms t [] = True"
| "rooms t (cmd # cmds) =
     ((case cmd of Insert k \<Rightarrow> has_room t \<and> icap t < 2 ^ 27 | _ \<Rightarrow> True) \<and>
      (case do_table_command runtime_hash t cmd of None \<Rightarrow> True | Some t' \<Rightarrow> rooms t' cmds))"

lemma verify_counted: "verify_hypertable runtime_hash t k n = cilk_assert (counted t k = n)"
  unfolding verify_hypertable_def counted_def runtime_hash_sel Let_def ..

lemma do_table_command_ok:
  assumes "ht_ok t" "legal_commands (dom (table_view t)) (cmd # cmds)" "rooms t (cmd # cmds)"
  shows "\<exists>t'. do_table_command runtime_hash t cmd = Some t' \<and> ht_ok t' \<and>
    legal_commands (dom (table_view t')) cmds \<and> rooms t' cmds"
proof (cases cmd)
  case (Insert k)
  have b: "key (command_bucket k) = k" by (simp add: command_bucket_def)
  show ?thesis
    using runtime_table.insert_verified[of t "command_bucket k"] assms Insert
    by (auto simp: do_table_command_def runtime_insert verify_counted b)
next
  case (Lookup k)
  then show ?thesis
    using runtime_table.lookup_verified[of t k] assms
    by (auto simp: do_table_command_def runtime_find verify_counted)
next
  case (Delete k)
  then show ?thesis
    using runtime_table.delete_verified[of t k] assms
    by (auto simp: do_table_command_def runtime_remove verify_counted)
qed

lemma do_table_commands_ok:
  assumes "ht_ok t" "legal_commands (dom (table_view t)) cmds" "rooms t cmds"
  shows "\<exists>t'. do_table_commands runtime_hash t cmds = Some t'"
  using assms
proof (induction cmds arbitrary: t)
  case Nil
  then show ?case by simp
next
  case (Cons cmd cmds)
  obtain t' where t': "do_table_command runtime_hash t cmd = Some t'" "ht_ok t'"
      "legal_commands (dom (table_view t')) cmds" "rooms t' cmds"
    using do_table_command_ok[OF Cons.prems] by blast
  then show ?case using Cons.IH[OF t'(2-4)] by simp
qed

section \<open>Properties\<close>

text \<open>The harness passes on the runtime's table for every list of commands that only deletes keys
it has inserted, if every insertion finds room: no assertion of the harness or of the table fails.\<close>

theorem legal_commands_pass:
  assumes "legal_commands {} commands" "rooms local_hyper_table_alloc commands"
  shows "test_insert_remove runtime_hash commands = Some ()"
proof -
  have "ht_ok local_hyper_table_alloc" "table_view local_hyper_table_alloc = Map.empty"
    using alloc_ok by (auto simp: table_takes_def)
  then show ?thesis
    using do_table_commands_ok[of local_hyper_table_alloc commands] assms
    by (auto simp: test_insert_remove_def runtime_alloc)
qed

lemma legal_commands_pass_witness: "test_insert_remove runtime_hash (take 7 hypertable_test3) = Some ()"
proof (rule legal_commands_pass)
  show "legal_commands {} (take 7 hypertable_test3)" by code_simp
  show "rooms local_hyper_table_alloc (take 7 hypertable_test3)" by code_simp
qed

end
