(* ===== verification/Unit_Test_Runs.thy ===== *)
theory Unit_Test_Runs
  imports Unit_Tests
begin

text \<open>
  The nine unit tests, evaluated in the kernel with the mock hashes they are compiled with. The long
  run of \<open>test0\<close> of \<open>test-old-hash-hypertable.c\<close> is evaluated in four parts, with the table between them
  written out.
\<close>

definition filled_table :: "int \<Rightarrow> (u64 \<times> u32) list \<Rightarrow> hyper_table" where
  "filled_table ops slots =
     \<lparr>capacity = of_nat (length slots), occupancy = int (length (filter (\<lambda>(k, h). k \<noteq> 0) slots)),
      ins_rm_count = ops,
      buckets = map (\<lambda>(k, h). if k = 0 then empty_bucket else (command_bucket k)\<lparr>bhash := h\<rparr>) slots\<rparr>"

definition after_15 :: hyper_table where
  "after_15 = filled_table 7
    [(0x7f2a10bfe050, 0), (0x7f2a10bff968, 1), (0x7f2a10bfe8a8, 2), (0x7f2a10bfece0, 3),
     (0x7f2a10bff538, 4), (0x7f2a10bff108, 5), (0x7f2a10bff540, 6), (0x7f2a10bff970, 6),
     (0x7f2a10bfe8b0, 7), (0x7f2a10bfe480, 7), (0x7f2a10bfe048, 8), (0x7f2a10bfe478, 10),
     (0x7f2a10bff110, 10), (0x7f2a10bffda0, 13), (0x562edc97d0c0, 14), (0, 0)]"

definition after_19 :: hyper_table where
  "after_19 = filled_table 0
    [(0, 0), (0x7f2a10bff968, 1), (0x7f2a10bfe8a8, 2), (0x7f2a10bfece0, 3),
     (0x7f2a10bff538, 4), (0x7f2a10bff108, 5), (0x7f2a10bff540, 6), (0x7f2a10bff970, 6),
     (0x7f2a10bfe8b0, 7), (0x7f2a10bfe480, 7), (0x7f2a10bfe478, 10), (0x7f2a10bff110, 10),
     (0, 0), (0x7f2a10bffda0, 13), (0x562edc97d0c0, 14), (0, 0)]"

definition after_29 :: hyper_table where
  "after_29 = filled_table 1
    [(0x7f2a10bfe050, 0), (0x7f2a10bff968, 1), (0x7f2a10bfe8a8, 2), (0x7f2a10bfece0, 3),
     (0x7f2a10bff538, 4), (0x7f2a10bff108, 5), (0x7f2a10bff540, 6), (0x7f2a10bff970, 6),
     (0x7f2a10bfe8b0, 7), (0x7f2a10bfe480, 7), (0x7f2a10bfe048, 8), (0x7f2a10bff110, 10),
     (0x7f2a10bfe478, 10), (0x7f2a10bffda0, 13), (0x562edc97d0c0, 14), (0, 0)]"

lemma do_table_commands_append:
  "do_table_commands h t (xs @ ys) = Option.bind (do_table_commands h t xs) (\<lambda>t. do_table_commands h t ys)"
  by (induction xs arbitrary: t) (simp_all add: bind_assoc)

lemma hypertable_test0_run: "test_insert_remove mock_hash hypertable_test0 = Some ()" by code_simp
lemma hypertable_test1_run: "test_insert_remove mock_hash hypertable_test1 = Some ()" by code_simp
lemma hypertable_test2_run: "test_insert_remove mock_hash hypertable_test2 = Some ()" by code_simp
lemma hypertable_test3_run: "test_insert_remove mock_hash hypertable_test3 = Some ()" by code_simp
lemma hypertable_test4_run: "test_insert_remove mock_hash hypertable_test4 = Some ()" by code_simp
lemma hypertable_test5_run: "test_insert_remove mock_hash hypertable_test5 = Some ()" by code_simp

lemma old_hash_test0_part1:
  "do_table_commands mock_old_hash (mock_alloc mock_old_hash) (take 15 old_hash_test0) = Some after_15"
  by code_simp

lemma old_hash_test0_part2:
  "do_table_commands mock_old_hash after_15 (take 4 (drop 15 old_hash_test0)) = Some after_19"
  by code_simp

lemma old_hash_test0_part3:
  "do_table_commands mock_old_hash after_19 (take 10 (drop 19 old_hash_test0)) = Some after_29"
  by code_simp

lemma old_hash_test0_part4:
  "map_option (\<lambda>t. ()) (do_table_commands mock_old_hash after_29 (drop 29 old_hash_test0)) = Some ()"
  by code_simp

lemma old_hash_test0_run: "test_insert_remove mock_old_hash old_hash_test0 = Some ()"
proof -
  have parts: "old_hash_test0 = take 15 old_hash_test0 @ take 4 (drop 15 old_hash_test0) @
      take 10 (drop 19 old_hash_test0) @ drop 29 old_hash_test0"
    by code_simp
  have "\<exists>t. do_table_commands mock_old_hash after_29 (drop 29 old_hash_test0) = Some t"
    using old_hash_test0_part4 by auto
  then have "\<exists>t. do_table_commands mock_old_hash (mock_alloc mock_old_hash) old_hash_test0 = Some t"
    by (subst parts)
      (simp only: do_table_commands_append old_hash_test0_part1 old_hash_test0_part2 old_hash_test0_part3
        bind.bind_lunit)
  then show ?thesis by (auto simp: test_insert_remove_def)
qed

lemma old_hash_test1_run: "test_insert_remove mock_old_hash old_hash_test1 = Some ()" by code_simp

lemma old_hash_test2_run:
  "test_set_insert_remove mock_old_hash old_hash_test2_keys old_hash_test2 = Some ()"
  by code_simp

end
