(* ===== verification/Unit_Test_Main.thy ===== *)
theory Unit_Test_Main
  imports Unit_Test_Runs Test_Options
begin








end
