(* ===== verification/Memory_Report.thy ===== *)
theory Memory_Report
  imports Internal_Malloc Fiber_Pool Debug_Log
begin

text \<open>
  What the allocator and the fiber pools print of themselves: the dump of the memory state that
  accompanies a failed leak check, the tables of bytes in free lists and of high watermarks
  (runtime/internal-malloc.cpp), and the summary of the fiber pools (runtime/fiber-pool.cpp). The
  formats are those of \<open>printf\<close>; a report is the text written.
\<close>

section \<open>Formats\<close>

definition newline :: string where
  "newline = [CHR 10]"

definition pad :: "nat \<Rightarrow> string \<Rightarrow> string" where
  "pad width s = replicate (width - length s) CHR '' '' @ s"

definition decimal_int :: "int \<Rightarrow> string" where
  "decimal_int i = (if i < 0 then CHR ''-'' # decimal (nat (- i)) else decimal (nat i))"

definition HDR_DESC :: "string \<Rightarrow> string" where
  "HDR_DESC s = pad 15 s"

definition WORKER_HDR_DESC :: "string \<Rightarrow> nat \<Rightarrow> string" where
  "WORKER_HDR_DESC s self = pad 10 s @ '' '' @ pad 3 (decimal self) @ '':''"

definition FIELD_DESC :: "nat \<Rightarrow> string" where
  "FIELD_DESC n = pad 10 (decimal n)"

section \<open>The dump of the memory state\<close>

definition dump_bucket :: "cilk_im_desc \<Rightarrow> nat \<Rightarrow> string" where
  "dump_bucket d i =
     (let b = buckets d ! i in
      if free_list b = 0 \<and> free_list_size b = 0 \<and> bk_allocated b = 0 then []
      else ''  ['' @ decimal (bucket_to_size i) @ ''] '' @ decimal_int (bk_allocated b) @ '' allocated ('' @
        decimal_int (max_allocated b) @ '' max, '' @ decimal_int (bk_wasted b) @ '' wasted), '' @
        decimal (unat (free_list_size b)) @ '' free'' @ newline)"

definition dump_buckets :: "cilk_im_desc \<Rightarrow> string" where
  "dump_buckets d =
     ''  '' @ decimal_int (used d) @ '' bytes used'' @ newline @ concat (map (dump_bucket d) [0..<NUM_BUCKETS])"

text \<open>The sum at the end of the second line is computed as a \<open>size_t\<close>.\<close>

definition dump_total :: "im_state \<Rightarrow> u64" where
  "dump_total s =
     (let global_free = free_bytes (im_desc s);
          available = int (mem_end (im_pool s)) - int (mem_begin (im_pool s))
      in of_int (used (im_desc s)) + of_int available + of_nat global_free)"

definition dump_memory_state :: "im_state \<Rightarrow> string" where
  "dump_memory_state s =
     (let global_free = free_bytes (im_desc s);
          available = int (mem_end (im_pool s)) - int (mem_begin (im_pool s))
      in ''Global memory:'' @ newline @ ''  '' @ decimal (pool_allocated (im_pool s)) @ '' allocated in '' @
         decimal (unat (mem_list_index (im_pool s) + 1)) @ '' blocks ('' @
         decimal (pool_wasted (im_pool s)) @ '' wasted)'' @ newline @
         ''  '' @ decimal_int (used (im_desc s)) @ '' used + '' @ decimal_int available @ '' available + '' @
         decimal global_free @ '' free = '' @ decimal (unat (dump_total s)) @ newline @
         dump_buckets (im_desc s) @
         concat (map (\<lambda>i. ''Worker '' @ decimal i @ '':'' @ newline @ dump_buckets (worker_desc s i))
           (filter (worker_present s) [0..<im_nworkers s])))"

text \<open>The check with its dump: the text written, and whether the check passes.\<close>

definition global_check_report :: "im_state \<Rightarrow> (string \<times> bool) option" where
  "global_check_report s = do {
     cilk_assert (used (im_desc s) \<ge> 0);
     worker_total \<leftarrow> workers_used_and_free s;
     let global_used = used (im_desc s);
     let global_free = int (free_bytes (im_desc s));
     let global_available = int (mem_end (im_pool s)) - int (mem_begin (im_pool s));
     let allocated = int (pool_allocated (im_pool s));
     Some (if global_used \<noteq> worker_total \<or> global_used + global_free + global_available \<noteq> allocated
           then dump_memory_state s else [],
           global_used + global_free + global_available = allocated \<and> global_used = worker_total)
   }"

section \<open>The statistics\<close>

definition print_worker_buckets_free :: "im_state \<Rightarrow> nat \<Rightarrow> string" where
  "print_worker_buckets_free s self =
     WORKER_HDR_DESC ''Worker'' self @
     concat (map (\<lambda>j. FIELD_DESC (unat (free_list_size (im_bin (Some self) j s)) * bucket_sizes ! j)) [0..<NUM_BUCKETS]) @
     newline"

definition print_worker_buckets_hwm :: "im_state \<Rightarrow> nat \<Rightarrow> string" where
  "print_worker_buckets_hwm s self =
     WORKER_HDR_DESC ''Worker'' self @
     concat (map (\<lambda>j. FIELD_DESC (unat (of_int (max_allocated (im_bin (Some self) j s)) * of_nat (bucket_sizes ! j) :: u64)))
       [0..<NUM_BUCKETS]) @
     newline"

definition bucket_size_header :: string where
  "bucket_size_header =
     HDR_DESC ''Bucket size:'' @ concat (map (\<lambda>j. FIELD_DESC (bucket_sizes ! j)) [0..<NUM_BUCKETS]) @
     newline @ replicate 88 CHR ''-'' @ newline"

text \<open>\<open>ws\<close> are the workers that \<open>for_each_worker\<close> visits.\<close>

definition print_im_buckets_stats :: "nat list \<Rightarrow> im_state \<Rightarrow> string" where
  "print_im_buckets_stats ws s =
     newline @ ''BYTES IN FREE LISTS:'' @ newline @ bucket_size_header @
     HDR_DESC ''Global:'' @
     concat (map (\<lambda>j. FIELD_DESC (unat (free_list_size (im_bin None j s)) * bucket_sizes ! j)) [0..<NUM_BUCKETS]) @ newline @
     concat (map (print_worker_buckets_free s) ws) @
     newline @ ''HIGH WATERMARK FOR BYTES ALLOCATED:'' @ newline @ bucket_size_header @
     concat (map (print_worker_buckets_hwm s) ws) @
     newline"

definition print_internal_malloc_stats :: "nat list \<Rightarrow> im_state \<Rightarrow> string" where
  "print_internal_malloc_stats ws s =
     (let page_size = unat (push_bit (page_shift s) 1 :: u32) in
      newline @ ''INTERNAL MALLOC STATS'' @ newline @
      ''Total bytes allocated from system: '' @ pad 7 (decimal (pool_allocated (im_pool s) div 1024)) @ '' KBytes ('' @
      decimal ((pool_allocated (im_pool s) + page_size - 1) div page_size) @ '' pages)'' @ newline @
      ''Total bytes allocated but wasted:  '' @ pad 7 (decimal (pool_wasted (im_pool s) div 1024)) @ '' KBytes'' @ newline @
      print_im_buckets_stats ws s @ newline)"

definition POOL_FMT :: "fiber_pool \<Rightarrow> string" where
  "POOL_FMT p =
     ''size '' @ pad 3 (decimal (pool_size p)) @ '', '' @ pad 4 (decimal_int (in_use (stats p))) @ '' used '' @
     pad 4 (decimal_int (max_in_use (stats p))) @ '' max used '' @ pad 4 (decimal (max_free (stats p))) @ '' max free''"

definition fiber_pool_stat_print_worker :: "nat \<times> fiber_pool \<Rightarrow> string" where
  "fiber_pool_stat_print_worker w =
     ''[W'' @ (if fst w < 10 then ''0'' else []) @ decimal (fst w) @ ''] '' @ POOL_FMT (snd w) @ newline"

definition fiber_pool_stat_print :: "fiber_pool \<Rightarrow> (nat \<times> fiber_pool) list \<Rightarrow> string" where
  "fiber_pool_stat_print g ws =
     newline @ ''FIBER POOL STATS'' @ newline @ ''[G  ] '' @ POOL_FMT g @ newline @
     concat (map fiber_pool_stat_print_worker ws) @ newline"

section \<open>What the reports show\<close>

text \<open>The dump is written exactly when the check fails.\<close>

theorem dump_iff_leak:
  "internal_malloc_global_check s = Some () \<longleftrightarrow> global_check_report s = Some ([], True)"
  by (auto simp: internal_malloc_global_check_def global_check_report_def cilk_assert_def Let_def
      split: bind_splits if_splits)

text \<open>When the check passes, the sum that a dump prints is the number of bytes allocated.\<close>

theorem dump_total_is_allocated:
  assumes "internal_malloc_global_check s = Some ()" "pool_allocated (im_pool s) < 2 ^ 64"
  shows "unat (dump_total s) = pool_allocated (im_pool s)"
proof -
  let ?a = "int (mem_end (im_pool s)) - int (mem_begin (im_pool s))"
  have "used (im_desc s) + int (free_bytes (im_desc s)) + ?a = int (pool_allocated (im_pool s))"
    using assms(1) by (auto simp: internal_malloc_global_check_def cilk_assert_def Let_def split: bind_splits if_splits)
  moreover have "dump_total s = of_int (used (im_desc s) + int (free_bytes (im_desc s)) + ?a)"
    by (simp add: dump_total_def Let_def)
  ultimately have "dump_total s = of_nat (pool_allocated (im_pool s))" by simp
  then show ?thesis using assms(2) by (simp add: unsigned_of_nat take_bit_nat_eq_self_iff)
qed

text \<open>The columns are aligned: a worker's header is as wide as the other headers, not two characters
narrower, and the lines of the tables have the same length.\<close>

lemma length_pad: "length s \<le> n \<Longrightarrow> length (pad n s) = n"
  by (simp add: pad_def)

lemma length_decimal: "n < 10 ^ k \<Longrightarrow> 0 < k \<Longrightarrow> length (decimal n) \<le> k"
  using decimal_length_le[of n "k - 1"] by simp

theorem worker_header_width:
  assumes "self < 1000"
  shows "length (WORKER_HDR_DESC ''Worker'' self) = length (HDR_DESC ''Global:'')"
  using length_decimal[of self 3] assms by (simp add: WORKER_HDR_DESC_def HDR_DESC_def length_pad)

lemma length_fields:
  "(\<And>j. j \<in> set js \<Longrightarrow> f j < 10 ^ 10) \<Longrightarrow> length (concat (map (\<lambda>j. FIELD_DESC (f j)) js)) = 10 * length js"
  using length_decimal[of _ 10] by (induction js) (simp_all add: FIELD_DESC_def length_pad)

theorem tables_aligned:
  assumes "self < 1000" "\<And>j. j < NUM_BUCKETS \<Longrightarrow> unat (free_list_size (im_bin (Some self) j s)) < 10 ^ 6"
  shows "length (print_worker_buckets_free s self) = 86"
proof -
  have "unat (free_list_size (im_bin (Some self) j s)) * bucket_sizes ! j < 10 ^ 10" if "j \<in> set [0..<NUM_BUCKETS]" for j
  proof -
    have "j < NUM_BUCKETS" using that by simp
    then have "bucket_sizes ! j \<le> 2048" by (auto simp: bucket_sizes_def NUM_BUCKETS_def nth_Cons' less_Suc_eq numeral_eq_Suc)
    then have "unat (free_list_size (im_bin (Some self) j s)) * bucket_sizes ! j \<le> 10 ^ 6 * 2048"
      using assms(2)[OF \<open>j < NUM_BUCKETS\<close>] by (intro mult_mono) auto
    then show ?thesis by simp
  qed
  then show ?thesis
    using worker_header_width[OF assms(1)] length_fields[of "[0..<NUM_BUCKETS]"]
    by (simp add: print_worker_buckets_free_def HDR_DESC_def length_pad newline_def NUM_BUCKETS_def)
qed

end
