(* ===== verification/Compiled_Code.thy ===== *)
theory Compiled_Code
  imports Sync_Effects Pedigrees
begin

text \<open>
  The entry points that compiled code calls around a spawn and at a sync, composed of the operations
  of the scheduler: the spawn helper that the compiler outlines (as written by hand in the programs of
  \<open>handcomp_test/\<close>), its epilogue (\<open>__cilk_helper_epilogue\<close>), and a sync that no exception can leave
  (\<open>__cilk_sync_nothrow\<close> in runtime/cilk2c_inlined.cpp), from the saved context to the extension. The
  memory of the pedigree frames, which the extension writes, is part of the state here.

  A \<open>setjmp\<close> returns twice: the sync is left through \<open>__cilkrts_sync\<close>, and comes back through the
  frame's context, at once when the frame is ready or when the runtime resumes it.
\<close>

record 'h strand =
  st_rts :: "'h rts"
  st_ped :: ped_state

section \<open>Spawn helpers\<close>

datatype epilogue = To_parent | Was_stolen nat

definition cilk_helper_epilogue ::
    "(u64 \<Rightarrow> 'h option \<Rightarrow> 'h option) \<Rightarrow> nat \<Rightarrow> nat \<Rightarrow> bool \<Rightarrow> 'h rts \<Rightarrow> (epilogue \<times> 'h rts) option" where
  "cilk_helper_epilogue save_exn sf parent spawner s = do {
     w \<leftarrow> get_worker_from_stack sf s;
     (raised, s1) \<leftarrow> leave_frame_helper sf parent spawner s;
     if raised then do {
       (r, s2) \<leftarrow> exception_handler save_exn w 0 s1;
       Some (case r of None \<Rightarrow> To_parent | Some t \<Rightarrow> Was_stolen t, s2)
     } else Some (To_parent, s1)
   }"

definition spawn_helper ::
    "(u64 \<Rightarrow> 'h option \<Rightarrow> 'h option) \<Rightarrow> ('h rts \<Rightarrow> 'h rts option) \<Rightarrow> nat \<Rightarrow> nat \<Rightarrow> 'h rts \<Rightarrow> (epilogue \<times> 'h rts) option"
  where
  "spawn_helper save_exn body sf parent s = do {
     s1 \<leftarrow> enter_frame_helper sf parent False s;
     s2 \<leftarrow> detach sf parent s1;
     s3 \<leftarrow> body s2;
     cilk_helper_epilogue save_exn sf parent False s3
   }"

section \<open>Syncs\<close>

datatype passage = Passed | Suspended

definition extend_at_sync :: "nat \<Rightarrow> 'h strand \<Rightarrow> 'h strand option" where
  "extend_at_sync sf st =
     (if use_extension (st_rts st) then do {
        w \<leftarrow> get_worker_from_stack sf (st_rts st);
        p \<leftarrow> extend_sync (extension (workers (st_rts st) w)) (st_ped st);
        Some (st\<lparr>st_ped := p\<rparr>)
      } else Some st)"

text \<open>The second return of the \<open>setjmp\<close>.\<close>

definition resume_at_sync :: "nat \<Rightarrow> 'h merge \<Rightarrow> nat \<Rightarrow> 'h strand \<Rightarrow> 'h strand option" where
  "resume_at_sync fuel merge sf st = do {
     s \<leftarrow> do_reductions fuel merge sf (st_rts st);
     extend_at_sync sf (st\<lparr>st_rts := s\<rparr>)
   }"

definition cilk_sync_nothrow :: "nat \<Rightarrow> 'h merge \<Rightarrow> nat \<Rightarrow> 'h strand \<Rightarrow> (passage \<times> 'h strand) option" where
  "cilk_sync_nothrow fuel merge sf st =
     (if has_flag CILK_FRAME_UNSYNCHED (frames (st_rts st) sf) \<or> use_extension (st_rts st) then
        if has_flag CILK_FRAME_UNSYNCHED (frames (st_rts st) sf) then do {
          (j, s) \<leftarrow> cilkrts_sync sf (st_rts st);
          (case j of
             To_frame sf' \<Rightarrow> do {
               st' \<leftarrow> resume_at_sync fuel merge sf' (st\<lparr>st_rts := s\<rparr>);
               Some (Passed, st')
             }
           | To_runtime \<Rightarrow> Some (Suspended, st\<lparr>st_rts := s\<rparr>))
        } else do {
          st' \<leftarrow> extend_at_sync sf st;
          Some (Passed, st')
        }
      else Some (Passed, st))"

section \<open>A spawn that nobody steals\<close>

text \<open>A spawn helper whose body leaves the state as it finds it returns to its parent, with the deque
  and the closures as before, when no thief has come in between.\<close>

theorem spawn_helper_returns:
  assumes "fh (frames s parent) = Some f" "fiber_worker (fibs s f) = Some w" "sf \<noteq> parent"
    and "tail (workers s w) + 1 < ltq_limit (workers s w)" "exc (workers s w) \<le> tail (workers s w)"
  shows "\<exists>s'. spawn_helper save_exn Some sf parent s = Some (To_parent, s') \<and>
    head (workers s' w) = head (workers s w) \<and> tail (workers s' w) = tail (workers s w) \<and>
    extension (workers s' w) = extension (workers s w) \<and> ext_stack (workers s' w) = ext_stack (workers s w) \<and>
    hyper_ht (workers s' w) = hyper_ht (workers s w) \<and> clos s' = clos s \<and> busy s' = busy s \<and> fibs s' = fibs s"
proof -
  have fl: "(CILK_FRAME_DETACHED AND NOT CILK_FRAME_DETACHED) = 0" "CILK_FRAME_DETACHED \<noteq> 0"
    by (simp_all add: flag_defs)
  show ?thesis
    using assms
    by (auto simp: spawn_helper_def cilk_helper_epilogue_def enter_frame_helper_def detach_def leave_frame_helper_def
        get_worker_from_stack_def check_frame_magic_def Let_def push_pedigree_frame_def has_flag_def
        extend_return_from_spawn_def pop_pedigree_frame_def fl)
qed

section \<open>What a sync does\<close>

text \<open>Without outstanding stolen children a sync only advances the rank of the extension, once.\<close>

lemma sync_of_synced_frame:
  assumes "\<not> has_flag CILK_FRAME_UNSYNCHED (frames (st_rts st) sf)"
  shows "cilk_sync_nothrow fuel merge sf st =
    (if use_extension (st_rts st) then map_option (Pair Passed) (extend_at_sync sf st) else Some (Passed, st))"
  using assms by (cases "extend_at_sync sf st") (auto simp: cilk_sync_nothrow_def)

lemma Cilk_sync_worker:
  assumes run: "Cilk_sync w sf s = Some (True, s')" and busy: "bc_closure (busy s w) = Some t"
  shows "get_worker_from_stack sf s' = Some w"
proof (rule Cilk_sync_branches[OF assms], goal_cases)
  case (1 s2 s3)
  have "get_worker_from_stack sf s3 = Some w"
  proof -
    obtain a b where st: "swap_to_child_fiber w t s2 = Some a" "point_frame_at_fiber w t a = Some b"
      "s3 = upd_cl t (orig_rsp_update (\<lambda>_. 0)) b"
      using 1(7)[OF TrueI] by (auto simp: setup_for_sync_def bind_eq_Some_conv)
    have "cl_frame (clos a t) = Some sf" using swap_to_child_fiber_effect(5)[OF st(1)] 1(1,4) by simp
    then show ?thesis
      using st(2,3) by (auto simp: point_frame_at_fiber_def bind_eq_Some_conv Let_def get_worker_from_stack_def split: if_splits)
  qed
  then show ?case
    unfolding 1(8)[OF TrueI]
    by (simp add: Let_def busy_unlock_self_def busy_unlock_def get_worker_from_stack_def)
qed

text \<open>A sync of a frame whose stolen children have all returned passes; the tables of the children,
  the active one and the pending one on the right are merged into one in serial order.\<close>

theorem sync_merges_in_serial_order:
  assumes frame: "has_flag CILK_FRAME_UNSYNCHED (frames (st_rts st) sf)"
    and worker: "get_worker_from_stack sf (st_rts st) = Some w" "bc_closure (busy (st_rts st) w) = Some t"
    and sync: "cilkrts_sync sf (st_rts st) = Some (To_frame sf, s)"
    and merge: "merge_contract merge seq budget sf w" "budget s + 1 < fuel"
    and ext: "\<not> use_extension (st_rts st)" "use_extension s = use_extension (st_rts st)"
    and reduced: "\<And>s'. do_reductions fuel merge sf s = Some s' \<Longrightarrow> use_extension s' = use_extension s"
  shows "\<exists>st' new1 new2. cilk_sync_nothrow fuel merge sf st = Some (Passed, st') \<and>
    lht (locals (st_rts st') w) = None \<and> rht (locals (st_rts st') w) = None \<and>
    contents seq (hyper_ht (workers (st_rts st') w)) =
      contents seq (lht (locals s w)) @ contents seq (hyper_ht (workers (st_rts st) w)) @ new1 @
      contents seq (rht (locals s w)) @ new2 \<and>
    (child_ht (clos (st_rts st) t) \<noteq> None \<longrightarrow> lht (locals s w) = child_ht (clos (st_rts st) t))"
proof -
  have run: "Cilk_sync w sf (st_rts st) = Some (True, s)"
    using sync worker(1) by (auto simp: cilkrts_sync_def bind_eq_Some_conv split: if_splits)
  note ready = Cilk_sync_ready[OF run worker(2)]
  obtain s' new1 new2 where red: "do_reductions fuel merge sf s = Some s'" "lht (locals s' w) = None" "rht (locals s' w) = None"
    "contents seq (hyper_ht (workers s' w)) = contents seq (lht (locals s w)) @ contents seq (hyper_ht (workers s w)) @ new1 @
      contents seq (rht (locals s w)) @ new2"
    using do_reductions_spec[OF merge(1) Cilk_sync_worker[OF run worker(2)] merge(2)] by blast
  have "cilk_sync_nothrow fuel merge sf st = Some (Passed, st\<lparr>st_rts := s'\<rparr>)"
    using frame sync red(1) reduced[OF red(1)] ext by (simp add: cilk_sync_nothrow_def resume_at_sync_def extend_at_sync_def)
  then show ?thesis using red ready by (intro exI[of _ "st\<lparr>st_rts := s'\<rparr>"] exI[of _ new1] exI[of _ new2]) simp
qed

end
