(* ===== verification/Spec2Isabelle.thy ===== *)
theory Spec2Isabelle
  imports Reducer_Properties Scheduler_Properties Fiber_Properties Malloc_Properties Coord_Properties
    Stealing_Loop Lifecycle_Properties Exception_Properties Pedigree_Properties Pinning Fiber_Stacks
    Sched_Stats Debug_Log Cilksort_Properties Matrix_Properties Test_Mains Unit_Test_Properties Unit_Test_Main
    Memory_Report Compiled_Code
begin

text \<open>
  Verification library of the Cheetah work-stealing runtime.

  The program.  Cheetah is the run-time system of OpenCilk (\<^verbatim>\<open>runtime/\<close>).  A Cilkified region is entered by
  one thread, the boss; worker threads steal the continuations of spawned functions from each other's
  deques.  A stolen frame gets a closure, closures form a tree, each running closure has a fiber (a stack),
  and the views that a strand makes of reducers are kept in a hash table of the worker, which is parked
  in the tree when the strand ends and reduced with its neighbours in serial order.  Between regions
  the thieves sleep; while a region runs they leave and rejoin the stealing loop according to how often
  steals fail.

  Conventions.  Machine integers are words of their width.  A failed assertion, \<open>cilkrts_bug\<close>, an access out
  of bounds and a wait that nobody ends are \<open>None\<close>; a \<open>setjmp\<close> or \<open>longjmp\<close> is a result that says where control goes.
  A lock is its owner.  State is passed explicitly: \<open>rts\<close> is the scheduler's (workers, local states,
  closures, frames, fibers, busy closures, pools), \<open>global_state\<close> the coordination state, \<open>im_state\<close> the allocator,
  and \<open>runtime\<close> the record that joins them.  The system, the C library beyond what the sources use of
  it, the unwinder and user code are parameters or arguments.  Loops take fuel where the code
  has no bound of its own; the properties show how much is enough.

  Theories and sources.

  \<^item> \<open>Prelude\<close>: words, assertions, lists, the option monad.
  \<^item> Reducers.  \<open>Hypertable\<close>, \<open>Hypertable_Probe\<close>, \<open>Hypertable_Find\<close>, \<open>Hypertable_Insert\<close>, \<open>Hypertable_Ops\<close>:
    \<^verbatim>\<open>local-hypertable.h\<close>, \<^verbatim>\<open>local-hypertable.cpp\<close> (small tables scanned linearly, large ones with linear probing in
    hash order, tombstones and rebuilds); \<open>Reducers\<close>: merging and the functions of \<^verbatim>\<open>local-reducer-api.cpp\<close> and
    \<^verbatim>\<open>cilk2c_inlined.cpp\<close>; \<open>Reducer_Properties\<close>: a table implements a finite map from keys to views, and
    merging implements the union that reduces left with right.
  \<^item> Scheduler.  \<open>Frames\<close>: \<^verbatim>\<open>frame.h\<close>, \<^verbatim>\<open>fiber-header.h\<close>; \<open>Fiber_Pool\<close>: \<^verbatim>\<open>fiber-pool.cpp\<close>; \<open>Closures\<close>,
    \<open>Closure_Tree\<close>: \<^verbatim>\<open>closure.h\<close>, \<^verbatim>\<open>busyclosure.h\<close> and the closure part of \<^verbatim>\<open>scheduler.cpp\<close>; \<open>Scheduler\<close>: entering, detaching and
    leaving frames, returns, reductions; \<open>Stealing\<close>: the thief, syncs and \<open>do_what_it_says\<close>; \<open>Returning\<close>, \<open>Steal_Effects\<close>,
    \<open>Sync_Effects\<close>: what those do, as equations; \<open>The_Protocol\<close>: the race of victim and thief on a deque as a
    step relation over single loads and stores, which the handlers refine; \<open>Compiled_Code\<close>: what compiled code does around a spawn and
    at a sync; \<open>Scheduler_Properties\<close>,
    \<open>Fiber_Properties\<close>.
  \<^item> Coordination.  \<open>Worker_Coord\<close>: \<^verbatim>\<open>global.h\<close>, \<^verbatim>\<open>global.cpp\<close>, \<^verbatim>\<open>worker_coord.h\<close>; \<open>Thief_Sleep\<close>: \<^verbatim>\<open>worker_sleep.cpp\<close>,
    \<^verbatim>\<open>efficiency.h\<close>, and a round of the work-stealing loop; \<open>Stealing_Loop\<close>: a stay in that loop; \<open>Engagement\<close>,
    \<open>Coord_Properties\<close>, \<open>Sleep_Properties\<close>.
    Other threads are lists of events that happen between a load and a compare-and-swap.
  \<^item> Memory.  \<open>Internal_Malloc\<close>, \<open>Malloc_Blocks\<close>, \<open>Malloc_Batches\<close>, \<open>Malloc_Properties\<close>: \<^verbatim>\<open>internal-malloc.cpp\<close>;
    \<open>Fiber_Stacks\<close>: the mapping of a fiber's stack and the sanitizer's calls in \<^verbatim>\<open>fiber.cpp\<close>; \<open>Memory_Report\<close>:
    what the allocator and the fiber pools print of themselves.
  \<^item> Regions.  \<open>Lifecycle\<close>: \<^verbatim>\<open>init.cpp\<close>, startup, the entry and exit of a region, shutdown;
    \<open>Lifecycle_Properties\<close>: regions follow each other and give control back; \<open>Pinning\<close>: the assignment of
    processors to workers in \<^verbatim>\<open>init.cpp\<close>.
  \<^item> Exceptions.  \<open>Exceptions\<close>: \<^verbatim>\<open>personality.cpp\<close>, \<^verbatim>\<open>cilk2c.cpp\<close> and the landing pads of \<^verbatim>\<open>cilk2c_inlined.cpp\<close>; the
    callbacks, extensions and grain sizes of the runtime's interface are there as well;
    \<open>Exception_Properties\<close>.
  \<^item> Pedigrees.  \<open>Pedigrees\<close>, \<open>Pedigree_Properties\<close>: \<^verbatim>\<open>pedigree-internal.h\<close>, \<^verbatim>\<open>pedigree_lib.cpp\<close>, \<^verbatim>\<open>pedigree_ext.cpp\<close>.
  \<^item> Diagnosis.  \<open>Sched_Stats\<close>: \<^verbatim>\<open>sched_stats.cpp\<close> and the places that use its timers; \<open>Debug_Log\<close>: \<^verbatim>\<open>debug.h\<close>, \<^verbatim>\<open>debug.cpp\<close>.
  \<^item> Test programs (\<^verbatim>\<open>handcomp_test/\<close>).  \<open>Cell_Memory\<close>: arrays as cells, and spawns; \<open>Test_Options\<close>:
    \<^verbatim>\<open>getoptions.cpp\<close>, \<^verbatim>\<open>ktiming.cpp\<close>; \<open>Cilksort\<close>: \<^verbatim>\<open>cilksort.cpp\<close>, with \<open>Cilksort_Merge\<close>, \<open>Cilkmerge\<close>,
    \<open>Cilksort_Quick\<close>, \<open>Cilksort_Sort\<close> on its sequential merge, parallel merge, quicksort and parallel sort and
    \<open>Cilksort_Properties\<close> on the program; \<open>Matrix_Multiply\<close>, \<open>Matrix_Properties\<close>: \<^verbatim>\<open>mm_dac.cpp\<close>; \<open>Nqueens\<close>:
    \<^verbatim>\<open>nqueens.cpp\<close>; \<open>Fib\<close>: \<^verbatim>\<open>fib.cpp\<close>; \<open>Test_Mains\<close>: the \<open>main\<close> functions of the last two.
  \<^item> Unit tests (\<^verbatim>\<open>unittests/\<close>).  \<open>Unit_Tests\<close>: the harness and the tests of the reducer hash table, over
    the operations of the table with the hash and the capacities as a parameter, which the runtime's
    operations are shown to be an instance of; \<open>Unit_Test_Properties\<close>: the harness on the runtime's table;
    \<open>Unit_Test_Runs\<close>, \<open>Unit_Test_Main\<close>: the tests as compiled.

  What the properties show.  Reducers: find, insert, remove, lookup, registration and merging agree with
  the finite map, up to the capacity at which the code itself gives up.  Scheduler: every frame pushed on a
  deque is taken exactly once, by its owner or a thief, and thieves take the oldest; steals, returns and
  syncs keep the closure tree and the serial order of the tables parked in it; reductions end with enough
  fuel and keep that order.  Coordination: the engaged workers are the front of the index, the number of sentinels
  is what the fail counts say, requests stay below half of the workers.  Memory: blocks in use do not
  overlap, fibers are neither shared nor leaked, a stack is unmapped as it was mapped.  Regions: after
  startup and any number of regions the next one runs and returns.  Exceptions: the serially first
  exception survives and is raised once.  Pedigrees: they are unique and determine the random numbers.
  Diagnosis: the timing assertions hold but in one place, and the log loses and reorders nothing.
  Test programs: whatever continuations are stolen, the parallel sort sorts, the parallel merge and product
  leave what the sequential ones leave, the queens are counted, and the programs pass their own checks;
  the option parser keeps the types of its variables. Unit tests: all pass.

  Locales.  \<open>fiber_source\<close> (in \<open>Fiber_Pool\<close>) is what the scheduler needs of a source of fibers and is interpreted on the
  pools; \<open>view_table\<close> (in \<open>Reducers\<close>) is what the reducer functions need of a table of views and is interpreted on
  the hash table; \<open>merge_routine\<close> (in \<open>Cilkmerge\<close>) is what a merge promises, and is interpreted on the
  sequential and on the parallel one; \<open>map_table\<close> (in \<open>Unit_Test_Properties\<close>) is what the unit tests' harness needs of a
  table, and is interpreted on the hash table.

  Bounds and fuel.  \<open>do_reductions\<close> and \<open>do_what_it_says\<close> take fuel: more than the number of views that reductions can
  create is enough for the first, and each round of the second consumes one unit, so one unit starts a
  region.  Deques are pointers without wrap-around except for the exception pointer, whose largest value is
  the mark of an exception.  Pages have between 2 to the power 12 and 2 to the power 20 bytes, workers in log lines
  have numbers below 10,000, and pedigrees are those of spawns less than 4096 deep.

  Not modelled.  Register contexts, floating-point state and the instructions of \<^verbatim>\<open>jmpbuf.h\<close>; weak memory: the
  protocol is proved for sequentially consistent loads and stores, which the fences of the code are
  there to give; how sanitizer functions are looked up;
  allocation of arrays by \<open>new\<close> and \<open>malloc\<close>, whose failure the code does not handle.  In the test programs a spawn runs its two
  strands one after the other in either order, array indices have no width, and the floating-point statistics
  of \<^verbatim>\<open>ktiming.cpp\<close> and the texts of usage messages are left out.  The build files have no run-time behaviour.
\<close>

end
